(* ===== verification/Go_Prelude.thy ===== *)
theory Go_Prelude
  imports Main "HOL-Library.Sublist"
begin

section \<open>Prelude: the parts of the Go language and of its string library\<close>

text \<open>
  Shared by every component: results with errors as values, and the functions of Go's
  packages \<^verbatim>\<open>strings\<close> and \<^verbatim>\<open>strconv\<close> that the sources call. A Go string is a list of bytes,
  modelled as \<open>string\<close> (a list of 8-bit characters). The case mapping and the trimming are
  those of the ASCII fast paths of \<^verbatim>\<open>strings.ToUpper\<close>, \<^verbatim>\<open>strings.ToLower\<close>, \<^verbatim>\<open>strings.EqualFold\<close> and
  \<^verbatim>\<open>strings.TrimSpace\<close>; bytes above 127 are left unchanged.
\<close>

named_theorems go_string_simps \<open>evaluation of the string library\<close>

subsection \<open>Results\<close>

type_synonym ('e, 'a) res = "'e + 'a"

abbreviation Err :: "'e \<Rightarrow> ('e, 'a) res" where
  "Err \<equiv> Inl"

abbreviation Ok :: "'a \<Rightarrow> ('e, 'a) res" where
  "Ok \<equiv> Inr"

definition is_ok :: "('e, 'a) res \<Rightarrow> bool" where
  "is_ok r = (case r of Inl _ \<Rightarrow> False | Inr _ \<Rightarrow> True)"

lemma is_ok_simps [simp]: "is_ok (Ok x)" "\<not> is_ok (Err e)"
  by (simp_all add: is_ok_def)

lemma is_ok_iff: "is_ok r \<longleftrightarrow> (\<exists>x. r = Ok x)"
  by (cases r) auto

text \<open>A loop that converts every element of a slice and stops at the first error.\<close>

fun map_res :: "('a \<Rightarrow> ('e, 'b) res) \<Rightarrow> 'a list \<Rightarrow> ('e, 'b list) res" where
  "map_res f [] = Ok []"
| "map_res f (x # xs) =
     (case f x of
        Inl e \<Rightarrow> Err e
      | Inr y \<Rightarrow> (case map_res f xs of Inl e \<Rightarrow> Err e | Inr ys \<Rightarrow> Ok (y # ys)))"

lemma map_res_ok_iff:
  "map_res f xs = Ok ys \<longleftrightarrow> list_all2 (\<lambda>x y. f x = Ok y) xs ys"
proof (induction xs arbitrary: ys)
  case Nil
  then show ?case by auto
next
  case (Cons x xs)
  then show ?case by (cases ys; cases "f x"; cases "map_res f xs") force+
qed

lemma map_res_is_ok: "is_ok (map_res f xs) \<longleftrightarrow> (\<forall>x\<in>set xs. is_ok (f x))"
  by (induction xs) (auto split: sum.splits)

lemma map_res_append:
  "map_res f (xs @ ys) =
     (case map_res f xs of
        Inl e \<Rightarrow> Err e
      | Inr us \<Rightarrow> (case map_res f ys of Inl e \<Rightarrow> Err e | Inr vs \<Rightarrow> Ok (us @ vs)))"
  by (induction xs) (auto split: sum.splits)

subsection \<open>Package strings\<close>

definition isSpace :: "char \<Rightarrow> bool" where
  "isSpace c = (let n = (of_char c :: nat) in n = 32 \<or> (9 \<le> n \<and> n \<le> 13))"

definition upper_char :: "char \<Rightarrow> char" where
  "upper_char c =
     (let n = (of_char c :: nat) in if 97 \<le> n \<and> n \<le> 122 then char_of (n - 32) else c)"

definition lower_char :: "char \<Rightarrow> char" where
  "lower_char c =
     (let n = (of_char c :: nat) in if 65 \<le> n \<and> n \<le> 90 then char_of (n + 32) else c)"

definition ToUpper :: "string \<Rightarrow> string" where
  "ToUpper s = map upper_char s"

definition ToLower :: "string \<Rightarrow> string" where
  "ToLower s = map lower_char s"

definition TrimSpace :: "string \<Rightarrow> string" where
  "TrimSpace s = rev (dropWhile isSpace (rev (dropWhile isSpace s)))"

definition HasPrefix :: "string \<Rightarrow> string \<Rightarrow> bool" where
  "HasPrefix s p = (take (length p) s = p)"

definition HasSuffix :: "string \<Rightarrow> string \<Rightarrow> bool" where
  "HasSuffix s p = (length p \<le> length s \<and> drop (length s - length p) s = p)"

definition TrimPrefix :: "string \<Rightarrow> string \<Rightarrow> string" where
  "TrimPrefix s p = (if HasPrefix s p then drop (length p) s else s)"

definition TrimSuffix :: "string \<Rightarrow> string \<Rightarrow> string" where
  "TrimSuffix s p = (if HasSuffix s p then take (length s - length p) s else s)"

text \<open>\<^verbatim>\<open>strings.Cut\<close>: the parts before and after the first occurrence of the separator.\<close>

fun Cut :: "string \<Rightarrow> string \<Rightarrow> (string \<times> string) option" where
  "Cut [] sep = (if sep = [] then Some ([], []) else None)"
| "Cut (c # s) sep =
     (if HasPrefix (c # s) sep then Some ([], drop (length sep) (c # s))
      else map_option (\<lambda>(a, b). (c # a, b)) (Cut s sep))"

definition Contains :: "string \<Rightarrow> string \<Rightarrow> bool" where
  "Contains s sub = (Cut s sub \<noteq> None)"

text \<open>\<^verbatim>\<open>strings.SplitN\<close> with a positive count, and \<^verbatim>\<open>strings.Split\<close>, for a non-empty separator.\<close>

fun SplitN :: "string \<Rightarrow> string \<Rightarrow> nat \<Rightarrow> string list" where
  "SplitN s sep 0 = []"
| "SplitN s sep (Suc 0) = [s]"
| "SplitN s sep (Suc (Suc n)) =
     (case Cut s sep of None \<Rightarrow> [s] | Some (a, b) \<Rightarrow> a # SplitN b sep (Suc n))"

definition Split :: "string \<Rightarrow> string \<Rightarrow> string list" where
  "Split s sep = SplitN s sep (Suc (length s) + 1)"

fun Join :: "string list \<Rightarrow> string \<Rightarrow> string" where
  "Join [] sep = []"
| "Join [s] sep = s"
| "Join (s # t # ss) sep = s @ sep @ Join (t # ss) sep"

text \<open>\<^verbatim>\<open>strings.Replace (s, old, new, 1)\<close> and \<^verbatim>\<open>strings.ReplaceAll\<close> for a one-byte pattern.\<close>

definition Replace1 :: "string \<Rightarrow> string \<Rightarrow> string \<Rightarrow> string" where
  "Replace1 s old new = (case Cut s old of None \<Rightarrow> s | Some (a, b) \<Rightarrow> a @ new @ b)"

definition ReplaceAllChar :: "string \<Rightarrow> char \<Rightarrow> string \<Rightarrow> string" where
  "ReplaceAllChar s old new = concat (map (\<lambda>c. if c = old then new else [c]) s)"

definition EqualFold :: "string \<Rightarrow> string \<Rightarrow> bool" where
  "EqualFold s t = (ToLower s = ToLower t)"

fun Fields_aux :: "string \<Rightarrow> string \<Rightarrow> string list" where
  "Fields_aux [] w = (if w = [] then [] else [rev w])"
| "Fields_aux (c # s) w =
     (if isSpace c then (if w = [] then Fields_aux s [] else rev w # Fields_aux s [])
      else Fields_aux s (c # w))"

definition Fields :: "string \<Rightarrow> string list" where
  "Fields s = Fields_aux s []"

subsection \<open>Package strconv\<close>

definition digit_char :: "nat \<Rightarrow> char" where
  "digit_char d = char_of (48 + d)"

definition is_digit :: "char \<Rightarrow> bool" where
  "is_digit c = (48 \<le> (of_char c :: nat) \<and> (of_char c :: nat) \<le> 57)"

definition digit_val :: "char \<Rightarrow> nat" where
  "digit_val c = of_char c - 48"

fun Uitoa :: "nat \<Rightarrow> string" where
  "Uitoa n = (if n < 10 then [digit_char n] else Uitoa (n div 10) @ [digit_char (n mod 10)])"

declare Uitoa.simps [simp del]

definition Itoa :: "int \<Rightarrow> string" where
  "Itoa i = (if i < 0 then ''-'' @ Uitoa (nat (- i)) else Uitoa (nat i))"

definition digits_val :: "nat \<Rightarrow> string \<Rightarrow> nat" where
  "digits_val acc s = foldl (\<lambda>n c. n * 10 + digit_val c) acc s"

text \<open>
  \<^verbatim>\<open>strconv.ParseInt (s, 10, 64)\<close> and \<^verbatim>\<open>strconv.Atoi\<close>: an optional sign, at least one digit,
  nothing else, and a value in the range of \<^verbatim>\<open>int64\<close>.
\<close>

definition ParseInt64 :: "string \<Rightarrow> int option" where
  "ParseInt64 s =
     (let neg = HasPrefix s ''-'';
          t = (if neg \<or> HasPrefix s ''+'' then tl s else s)
      in if t = [] \<or> \<not> list_all is_digit t then None
         else let v = (if neg then - int (digits_val 0 t) else int (digits_val 0 t))
              in if - (2 ^ 63) \<le> v \<and> v < 2 ^ 63 then Some v else None)"


subsection \<open>Characters\<close>

lemma of_char_lt: "(of_char c :: nat) < 256"
  by simp

lemma upper_char_cases:
  "upper_char c = c \<or> (97 \<le> (of_char c :: nat) \<and> (of_char c :: nat) \<le> 122 \<and>
     (of_char (upper_char c) :: nat) = of_char c - 32)"
  by (auto simp: upper_char_def Let_def)

lemma lower_char_cases:
  "lower_char c = c \<or> (65 \<le> (of_char c :: nat) \<and> (of_char c :: nat) \<le> 90 \<and>
     (of_char (lower_char c) :: nat) = of_char c + 32)"
  by (auto simp: lower_char_def Let_def)

lemma lower_char_idem [simp]: "lower_char (lower_char c) = lower_char c"
  by (auto simp: lower_char_def Let_def)

lemma upper_char_idem [simp]: "upper_char (upper_char c) = upper_char c"
  by (auto simp: upper_char_def Let_def)

lemma isSpace_upper_char [simp]: "isSpace (upper_char c) = isSpace c"
  by (auto simp: isSpace_def upper_char_def Let_def)

lemma isSpace_lower_char [simp]: "isSpace (lower_char c) = isSpace c"
  by (auto simp: isSpace_def lower_char_def Let_def)

lemma upper_lower_char [simp]: "upper_char (lower_char c) = upper_char c"
  by (auto simp: upper_char_def lower_char_def Let_def)

lemma lower_upper_char [simp]: "lower_char (upper_char c) = lower_char c"
  by (auto simp: upper_char_def lower_char_def Let_def)

lemma upper_char_eq_comma: "upper_char c = CHR '','' \<longleftrightarrow> c = CHR '',''"
  by (auto simp: upper_char_def Let_def dest: arg_cong [where f = "of_char :: char \<Rightarrow> nat"])

lemma lower_char_eq_dot: "lower_char c = CHR ''.'' \<longleftrightarrow> c = CHR ''.''"
  by (auto simp: lower_char_def Let_def dest: arg_cong [where f = "of_char :: char \<Rightarrow> nat"])

subsection \<open>Case mapping and trimming\<close>

lemma ToLower_idem [simp]: "ToLower (ToLower s) = ToLower s"
  by (simp add: ToLower_def)

lemma ToUpper_idem [simp]: "ToUpper (ToUpper s) = ToUpper s"
  by (simp add: ToUpper_def)

lemma ToUpper_append [simp]: "ToUpper (s @ t) = ToUpper s @ ToUpper t"
  by (simp add: ToUpper_def)

lemma ToLower_append [simp]: "ToLower (s @ t) = ToLower s @ ToLower t"
  by (simp add: ToLower_def)

lemma ToUpper_Nil_iff [simp]: "ToUpper s = [] \<longleftrightarrow> s = []"
  by (simp add: ToUpper_def)

lemma dropWhile_ToUpper: "dropWhile isSpace (ToUpper s) = ToUpper (dropWhile isSpace s)"
  by (induction s) (auto simp: ToUpper_def)

lemma TrimSpace_ToUpper: "TrimSpace (ToUpper s) = ToUpper (TrimSpace s)"
proof -
  have rev_map: "rev (ToUpper t) = ToUpper (rev t)" for t
    by (simp add: ToUpper_def rev_map)
  show ?thesis by (simp add: TrimSpace_def dropWhile_ToUpper rev_map)
qed

lemmas dropWhile_id = dropWhile_eq_self_iff

lemma TrimSpace_id_iff:
  "TrimSpace s = s \<longleftrightarrow> s = [] \<or> (\<not> isSpace (hd s) \<and> \<not> isSpace (last s))"
proof
  assume eq: "TrimSpace s = s"
  have "length (TrimSpace s) \<le> length (dropWhile isSpace s)"
    unfolding TrimSpace_def by (metis length_dropWhile_le length_rev)
  with eq have "length s \<le> length (dropWhile isSpace s)" by simp
  then have d: "dropWhile isSpace s = s"
    by (metis length_dropWhile_le le_antisym dropWhile_eq_drop drop_eq_Nil diff_diff_cancel
        length_drop nat_less_le not_less drop0 cancel_comm_monoid_add_class.diff_cancel)
  with eq have r: "dropWhile isSpace (rev s) = rev s"
    unfolding TrimSpace_def by (metis rev_rev_ident)
  from d r show "s = [] \<or> (\<not> isSpace (hd s) \<and> \<not> isSpace (last s))"
    by (auto simp: dropWhile_id hd_rev)
next
  assume "s = [] \<or> (\<not> isSpace (hd s) \<and> \<not> isSpace (last s))"
  then have "dropWhile isSpace s = s" "dropWhile isSpace (rev s) = rev s"
    by (auto simp: dropWhile_id hd_rev)
  then show "TrimSpace s = s" by (simp add: TrimSpace_def)
qed

lemma TrimSpace_idem [simp]: "TrimSpace (TrimSpace s) = TrimSpace s"
proof -
  let ?d = "dropWhile isSpace s"
  let ?t = "TrimSpace s"
  have "?t = [] \<or> (\<not> isSpace (hd ?t) \<and> \<not> isSpace (last ?t))"
  proof (cases "?t = []")
    case False
    have t: "?t = rev (dropWhile isSpace (rev ?d))" by (simp add: TrimSpace_def)
    with False have ne: "dropWhile isSpace (rev ?d) \<noteq> []" by auto
    then have "?d \<noteq> []" by (metis dropWhile.simps(1) rev.simps(1))
    then have hd_d: "\<not> isSpace (hd ?d)" by (rule hd_dropWhile)
    have last: "\<not> isSpace (last ?t)"
      unfolding t using ne by (simp add: last_rev hd_dropWhile)
    obtain w where w: "rev ?d = w @ dropWhile isSpace (rev ?d)"
      by (metis takeWhile_dropWhile_id)
    then have "?d = ?t @ rev w"
      unfolding t by (metis rev_append rev_rev_ident)
    with False hd_d have "\<not> isSpace (hd ?t)" by (metis hd_append)
    with last show ?thesis by simp
  qed simp
  then show ?thesis by (simp add: TrimSpace_id_iff)
qed

lemma set_TrimSpace: "set (TrimSpace s) \<subseteq> set s"
  unfolding TrimSpace_def by (metis set_dropWhileD set_rev subsetI)

subsection \<open>Prefixes, suffixes and separators\<close>

lemma HasPrefix_iff: "HasPrefix s p \<longleftrightarrow> prefix p s"
  by (metis HasPrefix_def append_eq_conv_conj prefix_def take_is_prefix)

lemma HasSuffix_iff: "HasSuffix s p \<longleftrightarrow> suffix p s"
proof
  assume "HasSuffix s p"
  then show "suffix p s"
    unfolding HasSuffix_def by (metis suffix_drop)
next
  assume "suffix p s"
  then show "HasSuffix s p"
    by (auto simp: HasSuffix_def suffix_def)
qed

lemma Cut_Some_append: "Cut s sep = Some (a, b) \<Longrightarrow> s = a @ sep @ b"
proof (induction s arbitrary: a)
  case Nil
  then show ?case by (auto split: if_splits)
next
  case (Cons c s)
  show ?case
  proof (cases "HasPrefix (c # s) sep")
    case True
    with Cons.prems have ab: "a = []" "b = drop (length sep) (c # s)" by auto
    from True have "take (length sep) (c # s) = sep" by (simp only: HasPrefix_def)
    with ab show ?thesis by (metis append_take_drop_id append_Nil)
  next
    case False
    with Cons show ?thesis by auto
  qed
qed

lemma Cut_None: "Cut s sep = None \<Longrightarrow> s \<noteq> a @ sep @ b"
proof (induction s arbitrary: a)
  case Nil
  then show ?case by (auto split: if_splits)
next
  case (Cons c s)
  show ?case
  proof
    assume eq: "c # s = a @ sep @ b"
    from Cons.prems have np: "\<not> HasPrefix (c # s) sep" by (auto split: if_splits)
    from np eq have "a \<noteq> []" by (auto simp: HasPrefix_iff)
    then obtain a' where "a = c # a'" "s = a' @ sep @ b" using eq by (cases a) auto
    moreover from Cons.prems np have "Cut s sep = None" by simp
    ultimately show False using Cons.IH by blast
  qed
qed

lemma Contains_iff: "Contains s sub \<longleftrightarrow> sublist sub s"
  unfolding Contains_def sublist_def
  by (metis Cut_None Cut_Some_append not_None_eq surj_pair)

lemma Cut_char:
  "Cut s [c] = (if c \<in> set s then Some (takeWhile (\<lambda>x. x \<noteq> c) s, tl (dropWhile (\<lambda>x. x \<noteq> c) s)) else None)"
  by (induction s) (auto simp: HasPrefix_def)

lemma Cut_char_append: "c \<notin> set a \<Longrightarrow> Cut (a @ c # b) [c] = Some (a, b)"
  by (induction a) (auto simp: HasPrefix_def)

lemma SplitN3_char:
  assumes "c \<notin> set a" "c \<notin> set b"
  shows "SplitN (a @ c # b @ c # r) [c] 3 = [a, b, r]"
  using assms by (simp add: eval_nat_numeral Cut_char_append)

lemma Join_nonempty_sep: "Join (x # y # ys) sep = x @ sep @ Join (y # ys) sep"
  by simp

lemma Cut_char_None: "c \<notin> set s \<Longrightarrow> Cut s [c] = None"
  by (simp add: Cut_char)

lemma SplitN_Join:
  "xs \<noteq> [] \<Longrightarrow> \<forall>x\<in>set xs. c \<notin> set x \<Longrightarrow> length xs < n \<Longrightarrow> SplitN (Join xs [c]) [c] n = xs"
proof (induction xs arbitrary: n rule: induct_list012)
  case (2 x)
  then obtain m where "n = Suc (Suc m)" by (auto simp: less_iff_Suc_add)
  with 2 show ?case by (simp add: Cut_char_None)
next
  case (3 x y zs)
  then obtain m where n: "n = Suc (Suc m)" by (auto simp: less_iff_Suc_add)
  have "Join (x # y # zs) [c] = x @ c # Join (y # zs) [c]" by simp
  moreover have "Cut (x @ c # Join (y # zs) [c]) [c] = Some (x, Join (y # zs) [c])"
    using 3 by (intro Cut_char_append) simp
  moreover have "SplitN (Join (y # zs) [c]) [c] (Suc m) = y # zs"
    using 3 n by (intro 3(2)) simp_all
  ultimately show ?case by (simp add: n)
qed simp

lemma length_Join_ge: "xs \<noteq> [] \<Longrightarrow> length xs \<le> Suc (length (Join xs [c]))"
  by (induction xs rule: induct_list012) auto

lemma Split_Join:
  assumes "xs \<noteq> []" "\<forall>x\<in>set xs. c \<notin> set x"
  shows "Split (Join xs [c]) [c] = xs"
  unfolding Split_def using assms length_Join_ge [OF assms(1), of c] by (intro SplitN_Join) auto

subsection \<open>Decimal numbers\<close>

lemma digit_char_simps [simp]:
  "d < 10 \<Longrightarrow> is_digit (digit_char d)"
  "d < 10 \<Longrightarrow> digit_val (digit_char d) = d"
  by (auto simp: is_digit_def digit_char_def digit_val_def)

lemma Uitoa_nonempty [simp]: "Uitoa n \<noteq> []"
  by (subst Uitoa.simps) simp

lemma Uitoa_digits: "list_all is_digit (Uitoa n)"
proof (induction n rule: Uitoa.induct)
  case (1 n)
  then show ?case by (subst Uitoa.simps) (auto simp: list_all_append)
qed

lemma digits_val_append: "digits_val a (s @ t) = digits_val (digits_val a s) t"
  by (simp add: digits_val_def)

lemma digits_val_Uitoa [simp]: "digits_val 0 (Uitoa n) = n"
proof (induction n rule: Uitoa.induct)
  case (1 n)
  show ?case
  proof (cases "n < 10")
    case True
    then show ?thesis by (subst Uitoa.simps) (simp add: digits_val_def)
  next
    case False
    with "1.IH" have "digits_val 0 (Uitoa (n div 10)) = n div 10" by simp
    with False show ?thesis
      by (subst Uitoa.simps) (simp add: digits_val_append, simp add: digits_val_def)
  qed
qed

lemma Uitoa_inject [simp]: "Uitoa m = Uitoa n \<longleftrightarrow> m = n"
  by (metis digits_val_Uitoa)

end
