(* ===== verification/Go_Net.thy ===== *)
theory Go_Net
  imports Go_Prelude "HOL-Library.Word"
begin

section \<open>Addresses and networks: the parts of Go's net and net/netip packages the sources use\<close>

text \<open>
  An address of type \<^verbatim>\<open>net.IP\<close> is a list of bytes, \<^verbatim>\<open>nil\<close> being the empty list; a mask is a list
  of bytes too. The definitions follow the standard library (\<^verbatim>\<open>net/ip.go\<close>, \<^verbatim>\<open>net/netip/netip.go\<close>,
  \<^verbatim>\<open>net/ipsock.go\<close>), whose parsing loops they keep; parse errors are \<open>None\<close>. The lemmas relate the
  bytewise operations to 32-bit words: a network \<open>a/n\<close> contains exactly the addresses that agree
  with \<open>a\<close> in their first \<open>n\<close> bits, an interval of words.
\<close>

unbundle bit_operations_syntax

named_theorems ip_simps \<open>evaluation of addresses and networks\<close>

type_synonym byte = "8 word"
type_synonym ip = "byte list"

record ipnet =
  IP :: ip
  Mask :: "byte list"

subsection \<open>Representation\<close>

definition v4InV6Prefix :: "byte list" where
  "v4InV6Prefix = [0, 0, 0, 0, 0, 0, 0, 0, 0, 0, 255, 255]"

definition To4 :: "ip \<Rightarrow> ip" where
  "To4 ip =
     (if length ip = 4 then ip
      else if length ip = 16 \<and> take 12 ip = v4InV6Prefix then drop 12 ip
      else [])"

definition IPv4 :: "byte \<Rightarrow> byte \<Rightarrow> byte \<Rightarrow> byte \<Rightarrow> ip" where
  "IPv4 a b c d = v4InV6Prefix @ [a, b, c, d]"

definition IP_Equal :: "ip \<Rightarrow> ip \<Rightarrow> bool" where
  "IP_Equal x y =
     (if length x = length y then x = y
      else if length x = 4 \<and> length y = 16 then take 12 y = v4InV6Prefix \<and> x = drop 12 y
      else if length x = 16 \<and> length y = 4 then take 12 x = v4InV6Prefix \<and> drop 12 x = y
      else False)"

definition IP_Mask :: "ip \<Rightarrow> byte list \<Rightarrow> ip" where
  "IP_Mask ip m =
     (let m' = (if length m = 16 \<and> length ip = 4 \<and> take 12 m = replicate 12 255
                then drop 12 m else m);
          ip' = (if length m' = 4 \<and> length ip = 16 \<and> take 12 ip = v4InV6Prefix
                 then drop 12 ip else ip)
      in if length ip' \<noteq> length m' then [] else map2 (AND) ip' m')"

text \<open>\<^verbatim>\<open>binary.BigEndian.Uint32\<close> and \<^verbatim>\<open>PutUint32\<close>; the former panics on fewer than four bytes.\<close>

definition BE_Uint32 :: "byte list \<Rightarrow> 32 word" where
  "BE_Uint32 b =
     push_bit 24 (ucast (b ! 0)) OR push_bit 16 (ucast (b ! 1)) OR
     push_bit 8 (ucast (b ! 2)) OR ucast (b ! 3)"

definition BE_PutUint32 :: "32 word \<Rightarrow> byte list" where
  "BE_PutUint32 n =
     [ucast (drop_bit 24 n), ucast (drop_bit 16 n), ucast (drop_bit 8 n), ucast n]"

subsection \<open>Masks\<close>

definition CIDRMask_byte :: "nat \<Rightarrow> byte" where
  "CIDRMask_byte n = (if 8 \<le> n then 255 else NOT (drop_bit n 255))"

fun CIDRMask_bytes :: "nat \<Rightarrow> nat \<Rightarrow> byte list" where
  "CIDRMask_bytes 0 n = []"
| "CIDRMask_bytes (Suc l) n = CIDRMask_byte n # CIDRMask_bytes l (n - 8)"

definition CIDRMask :: "int \<Rightarrow> nat \<Rightarrow> byte list" where
  "CIDRMask ones bits =
     (if bits \<noteq> 32 \<and> bits \<noteq> 128 then []
      else if ones < 0 \<or> int bits < ones then []
      else CIDRMask_bytes (bits div 8) (nat ones))"

text \<open>
  \<^verbatim>\<open>simpleMaskLength\<close>: the number of leading one bits, \<open>None\<close> for the library's -1 when a one
  follows a zero. The inner loop counts the ones of a byte from the top.
\<close>

fun lead_ones :: "nat \<Rightarrow> byte \<Rightarrow> nat \<times> byte" where
  "lead_ones 0 v = (0, v)"
| "lead_ones (Suc k) v =
     (if v AND 0x80 \<noteq> 0 then (case lead_ones k (push_bit 1 v) of (n, v') \<Rightarrow> (Suc n, v'))
      else (0, v))"

fun simpleMaskLength :: "byte list \<Rightarrow> nat option" where
  "simpleMaskLength [] = Some 0"
| "simpleMaskLength (v # m) =
     (if v = 255 then map_option (\<lambda>n. 8 + n) (simpleMaskLength m)
      else case lead_ones 8 v of
             (n, v') \<Rightarrow> if v' \<noteq> 0 \<or> \<not> list_all (\<lambda>x. x = 0) m then None else Some n)"

definition Mask_Size :: "byte list \<Rightarrow> nat \<times> nat" where
  "Mask_Size m =
     (case simpleMaskLength m of None \<Rightarrow> (0, 0) | Some n \<Rightarrow> (n, length m * 8))"

subsection \<open>Networks\<close>

definition networkNumberAndMask :: "ipnet \<Rightarrow> (ip \<times> byte list) option" where
  "networkNumberAndMask n =
     (let ip = (if To4 (IP n) \<noteq> [] then To4 (IP n) else IP n);
          m = Mask n
      in if To4 (IP n) = [] \<and> length (IP n) \<noteq> 16 then None
         else if length m = 4 then (if length ip \<noteq> 4 then None else Some (ip, m))
         else if length m = 16 then (if length ip = 4 then Some (ip, drop 12 m) else Some (ip, m))
         else None)"

definition IPNet_Contains :: "ipnet \<Rightarrow> ip \<Rightarrow> bool" where
  "IPNet_Contains n ip =
     (let x = (if To4 ip \<noteq> [] then To4 ip else ip)
      in case networkNumberAndMask n of
           None \<Rightarrow> x = []
         | Some (nn, m) \<Rightarrow> length x = length nn \<and> map2 (AND) nn m = map2 (AND) x m)"

subsection \<open>Parsing addresses\<close>

fun parseIPv4Fields :: "string \<Rightarrow> bool \<Rightarrow> nat \<Rightarrow> nat \<Rightarrow> byte list \<Rightarrow> byte list option" where
  "parseIPv4Fields [] dot val digLen fs =
     (if length fs < 3 then None else Some (fs @ [of_nat val]))"
| "parseIPv4Fields (c # s) dot val digLen fs =
     (if is_digit c then
        (if digLen = 1 \<and> val = 0 then None
         else let v = val * 10 + digit_val c
              in if 255 < v then None else parseIPv4Fields s False v (Suc digLen) fs)
      else if c = CHR ''.'' then
        (if dot \<or> s = [] then None
         else if length fs = 3 then None
         else parseIPv4Fields s True 0 0 (fs @ [of_nat val]))
      else None)"

definition parseIPv4 :: "string \<Rightarrow> byte list option" where
  "parseIPv4 s = parseIPv4Fields s True 0 0 []"

definition is_hex :: "char \<Rightarrow> bool" where
  "is_hex c = (is_digit c \<or> (let n = (of_char c :: nat) in (97 \<le> n \<and> n \<le> 102) \<or> (65 \<le> n \<and> n \<le> 70)))"

definition hex_digit :: "char \<Rightarrow> nat" where
  "hex_digit c =
     (let n = (of_char c :: nat)
      in if is_digit c then n - 48 else if 97 \<le> n then n - 87 else n - 55)"

definition hex_val :: "string \<Rightarrow> nat" where
  "hex_val s = foldl (\<lambda>n c. n * 16 + hex_digit c) 0 s"

function parseIPv6_loop ::
    "string \<Rightarrow> byte list \<Rightarrow> nat option \<Rightarrow> (string \<times> byte list \<times> nat option) option" where
  "parseIPv6_loop s bs ellipsis =
     (if 16 \<le> length bs then Some (s, bs, ellipsis)
      else
        let h = takeWhile is_hex s; r = dropWhile is_hex s
        in if h = [] \<or> 4 < length h then None
           else if r \<noteq> [] \<and> hd r = CHR ''.'' then
             (if (ellipsis = None \<and> length bs \<noteq> 12) \<or> 16 < length bs + 4 then None
              else case parseIPv4Fields s True 0 0 [] of
                     None \<Rightarrow> None
                   | Some f \<Rightarrow> Some ([], bs @ f, ellipsis))
           else
             let v = hex_val h; bs' = bs @ [of_nat (v div 256), of_nat (v mod 256)]
             in if r = [] then Some ([], bs', ellipsis)
                else if hd r \<noteq> CHR '':'' \<or> tl r = [] then None
                else if hd (tl r) = CHR '':'' then
                  (if ellipsis \<noteq> None then None
                   else if tl (tl r) = [] then Some ([], bs', Some (length bs'))
                   else parseIPv6_loop (tl (tl r)) bs' (Some (length bs')))
                else parseIPv6_loop (tl r) bs' ellipsis)"
  by pat_completeness auto
termination
  by (relation "measure (\<lambda>(s, bs, e). 16 - length bs)") (auto simp: Let_def)

declare parseIPv6_loop.simps [simp del]

text \<open>\<^verbatim>\<open>netip.Addr\<close>: an IPv4 address, or an IPv6 address with its zone.\<close>

datatype netip_addr = Addr4 ip | Addr6 ip string

definition parseIPv6 :: "string \<Rightarrow> netip_addr option" where
  "parseIPv6 input =
     (let (s, zone) = (case Cut input ''%'' of None \<Rightarrow> (input, None) | Some (a, z) \<Rightarrow> (a, Some z));
          z = (case zone of None \<Rightarrow> [] | Some z \<Rightarrow> z);
          lead = HasPrefix s ''::'';
          s' = (if lead then drop 2 s else s)
      in if zone = Some [] then None
         else if lead \<and> s' = [] then Some (Addr6 (replicate 16 0) z)
         else case parseIPv6_loop s' [] (if lead then Some 0 else None) of
                None \<Rightarrow> None
              | Some (rest, bs, ellipsis) \<Rightarrow>
                  if rest \<noteq> [] then None
                  else if length bs < 16 then
                    (case ellipsis of
                       None \<Rightarrow> None
                     | Some e \<Rightarrow> Some (Addr6 (take e bs @ replicate (16 - length bs) 0 @ drop e bs) z))
                  else if ellipsis \<noteq> None then None
                  else Some (Addr6 bs z))"

fun ParseAddr_scan :: "string \<Rightarrow> string \<Rightarrow> netip_addr option" where
  "ParseAddr_scan whole [] = None"
| "ParseAddr_scan whole (c # s) =
     (if c = CHR ''.'' then map_option Addr4 (parseIPv4 whole)
      else if c = CHR '':'' then parseIPv6 whole
      else if c = CHR ''%'' then None
      else ParseAddr_scan whole s)"

definition ParseAddr :: "string \<Rightarrow> netip_addr option" where
  "ParseAddr s = ParseAddr_scan s s"

definition Zone :: "netip_addr \<Rightarrow> string" where
  "Zone a = (case a of Addr4 _ \<Rightarrow> [] | Addr6 _ z \<Rightarrow> z)"

definition BitLen :: "netip_addr \<Rightarrow> nat" where
  "BitLen a = (case a of Addr4 _ \<Rightarrow> 32 | Addr6 _ _ \<Rightarrow> 128)"

definition As16 :: "netip_addr \<Rightarrow> ip" where
  "As16 a = (case a of Addr4 b \<Rightarrow> v4InV6Prefix @ b | Addr6 b _ \<Rightarrow> b)"

definition Unmap :: "netip_addr \<Rightarrow> netip_addr" where
  "Unmap a =
     (case a of Addr4 b \<Rightarrow> Addr4 b
      | Addr6 b z \<Rightarrow> if take 12 b = v4InV6Prefix then Addr4 (drop 12 b) else Addr6 b z)"

definition AddrFromSlice :: "ip \<Rightarrow> netip_addr option" where
  "AddrFromSlice b =
     (if length b = 4 then Some (Addr4 b) else if length b = 16 then Some (Addr6 b []) else None)"

definition Addr_IsUnspecified :: "netip_addr \<Rightarrow> bool" where
  "Addr_IsUnspecified a =
     (case a of Addr4 b \<Rightarrow> b = replicate 4 0 | Addr6 b z \<Rightarrow> b = replicate 16 0 \<and> z = [])"

definition ParseIP :: "string \<Rightarrow> ip" where
  "ParseIP s =
     (case ParseAddr s of
        None \<Rightarrow> []
      | Some a \<Rightarrow> if Zone a \<noteq> [] then [] else As16 a)"

text \<open>\<^verbatim>\<open>dtoi\<close> stops with an error once the number reaches 0xFFFFFF.\<close>

fun dtoi :: "nat \<Rightarrow> string \<Rightarrow> nat option" where
  "dtoi n [] = Some n"
| "dtoi n (c # s) =
     (if is_digit c then
        let v = n * 10 + digit_val c in if 0xFFFFFF \<le> v then None else dtoi v s
      else None)"

definition ParseCIDR :: "string \<Rightarrow> (ip \<times> ipnet) option" where
  "ParseCIDR s =
     (case Cut s ''/'' of
        None \<Rightarrow> None
      | Some (addr, pfx) \<Rightarrow>
          (case ParseAddr addr of
             None \<Rightarrow> None
           | Some a \<Rightarrow>
               if Zone a \<noteq> [] then None
               else if pfx = [] then None
               else (case dtoi 0 pfx of
                       None \<Rightarrow> None
                     | Some n \<Rightarrow>
                         if BitLen a < n then None
                         else let m = CIDRMask (int n) (BitLen a)
                              in Some (As16 a, \<lparr>IP = IP_Mask (As16 a) m, Mask = m\<rparr>))))"

subsection \<open>Printing addresses\<close>

definition hex_char :: "nat \<Rightarrow> char" where
  "hex_char d = (if d < 10 then char_of (48 + d) else char_of (87 + d))"

fun hex_string :: "nat \<Rightarrow> string" where
  "hex_string n = (if n < 16 then [hex_char n] else hex_string (n div 16) @ [hex_char (n mod 16)])"

declare hex_string.simps [simp del]

definition v4_string :: "byte list \<Rightarrow> string" where
  "v4_string b = Join (map (\<lambda>x. Uitoa (unat x)) b) ''.''"

definition v6u16 :: "ip \<Rightarrow> nat \<Rightarrow> nat" where
  "v6u16 b i = unat (b ! (2 * i)) * 256 + unat (b ! (2 * i + 1))"

definition zero_run :: "ip \<Rightarrow> nat \<Rightarrow> nat" where
  "zero_run b i = length (takeWhile (\<lambda>j. v6u16 b j = 0) [i..<8])"

text \<open>The longest run of at least two zero groups, the first one of that length.\<close>

definition zero_span :: "ip \<Rightarrow> nat \<times> nat" where
  "zero_span b =
     foldl (\<lambda>(st, en) i. let l = zero_run b i in if 2 \<le> l \<and> en - st < l then (i, i + l) else (st, en))
       (255, 255) [0..<8]"

definition v6_groups :: "ip \<Rightarrow> nat \<Rightarrow> nat \<Rightarrow> string" where
  "v6_groups b i j = Join (map (\<lambda>k. hex_string (v6u16 b k)) [i..<j]) '':''"

definition v6_string :: "ip \<Rightarrow> string" where
  "v6_string b =
     (case zero_span b of
        (st, en) \<Rightarrow> if 8 \<le> st then v6_groups b 0 8
                    else v6_groups b 0 st @ ''::'' @ v6_groups b en 8)"

definition hex_byte :: "byte \<Rightarrow> string" where
  "hex_byte x = [hex_char (unat x div 16), hex_char (unat x mod 16)]"

definition hexString :: "byte list \<Rightarrow> string" where
  "hexString b = concat (map hex_byte b)"

definition IP_String :: "ip \<Rightarrow> string" where
  "IP_String ip =
     (if ip = [] then ''<nil>''
      else if length ip \<noteq> 4 \<and> length ip \<noteq> 16 then ''?'' @ hexString ip
      else if To4 ip \<noteq> [] then v4_string (To4 ip)
      else v6_string ip)"

definition Addr_String :: "netip_addr \<Rightarrow> string" where
  "Addr_String a =
     (case a of
        Addr4 b \<Rightarrow> v4_string b
      | Addr6 b z \<Rightarrow>
          (if take 12 b = v4InV6Prefix then ''::ffff:'' @ v4_string (drop 12 b) else v6_string b) @
          (if z = [] then [] else ''%'' @ z))"

definition IPNet_String :: "ipnet \<Rightarrow> string" where
  "IPNet_String n =
     (case networkNumberAndMask n of
        None \<Rightarrow> ''<nil>''
      | Some (nn, m) \<Rightarrow>
          (case simpleMaskLength m of
             None \<Rightarrow> IP_String nn @ ''/'' @ hexString m
           | Some l \<Rightarrow> IP_String nn @ ''/'' @ Uitoa l))"

subsection \<open>Host and port\<close>

definition last_cut :: "char \<Rightarrow> string \<Rightarrow> (string \<times> string) option" where
  "last_cut c s =
     (if c \<in> set s
      then Some (rev (tl (dropWhile (\<lambda>x. x \<noteq> c) (rev s))), rev (takeWhile (\<lambda>x. x \<noteq> c) (rev s)))
      else None)"

definition JoinHostPort :: "string \<Rightarrow> string \<Rightarrow> string" where
  "JoinHostPort host port =
     (if CHR '':'' \<in> set host then ''['' @ host @ '']:'' @ port else host @ '':'' @ port)"

definition SplitHostPort :: "string \<Rightarrow> (string \<times> string) option" where
  "SplitHostPort hp =
     (case last_cut (CHR '':'') hp of
        None \<Rightarrow> None
      | Some (host0, port) \<Rightarrow>
          if HasPrefix hp ''['' then
            (case Cut hp '']'' of
               None \<Rightarrow> None
             | Some (front, after) \<Rightarrow>
                 if after = [] \<or> length front + 1 \<noteq> length host0 then None
                 else if CHR ''['' \<in> set (tl hp) \<or> CHR '']'' \<in> set after then None
                 else Some (tl front, port))
          else if CHR '':'' \<in> set host0 then None
          else if CHR ''['' \<in> set hp \<or> CHR '']'' \<in> set hp then None
          else Some (host0, port))"

definition ParseUint16 :: "string \<Rightarrow> 16 word option" where
  "ParseUint16 s =
     (if s = [] \<or> \<not> list_all is_digit s then None
      else let v = digits_val 0 s in if v < 2 ^ 16 then Some (of_nat v) else None)"

type_synonym addr_port = "netip_addr \<times> 16 word"

definition ParseAddrPort :: "string \<Rightarrow> addr_port option" where
  "ParseAddrPort s =
     (case last_cut (CHR '':'') s of
        None \<Rightarrow> None
      | Some (ipp, port) \<Rightarrow>
          if ipp = [] \<or> port = [] then None
          else
            let v6 = (hd ipp = CHR ''['')
            in if v6 \<and> (length ipp < 2 \<or> last ipp \<noteq> CHR '']'') then None
               else
                 let ip = (if v6 then butlast (tl ipp) else ipp)
                 in case ParseUint16 port of
                      None \<Rightarrow> None
                    | Some p \<Rightarrow>
                        (case ParseAddr ip of
                           None \<Rightarrow> None
                         | Some (Addr4 b) \<Rightarrow> if v6 then None else Some (Addr4 b, p)
                         | Some (Addr6 b z) \<Rightarrow> if v6 then Some (Addr6 b z, p) else None))"

subsection \<open>Classes of addresses\<close>

definition IsLoopback :: "ip \<Rightarrow> bool" where
  "IsLoopback ip =
     (if To4 ip \<noteq> [] then hd (To4 ip) = 127 else ip = replicate 15 0 @ [1])"

definition IsUnspecified :: "ip \<Rightarrow> bool" where
  "IsUnspecified ip = (IP_Equal ip (IPv4 0 0 0 0) \<or> ip = replicate 16 0)"

definition IsMulticast :: "ip \<Rightarrow> bool" where
  "IsMulticast ip =
     (if To4 ip \<noteq> [] then hd (To4 ip) AND 0xF0 = 0xE0 else length ip = 16 \<and> hd ip = 0xFF)"

definition IsLinkLocalUnicast :: "ip \<Rightarrow> bool" where
  "IsLinkLocalUnicast ip =
     (if To4 ip \<noteq> [] then To4 ip ! 0 = 169 \<and> To4 ip ! 1 = 254
      else length ip = 16 \<and> ip ! 0 = 0xFE \<and> ip ! 1 AND 0xC0 = 0x80)"

definition IsGlobalUnicast :: "ip \<Rightarrow> bool" where
  "IsGlobalUnicast ip =
     ((length ip = 4 \<or> length ip = 16) \<and> \<not> IP_Equal ip (IPv4 255 255 255 255) \<and>
      \<not> IsUnspecified ip \<and> \<not> IsLoopback ip \<and> \<not> IsMulticast ip \<and> \<not> IsLinkLocalUnicast ip)"

subsection \<open>Big-endian words\<close>

lemma bytes4_cases:
  assumes "length (b :: byte list) = 4"
  obtains w x y z where "b = [w, x, y, z]"
proof -
  from assms have "length b = Suc (Suc (Suc (Suc 0)))" by simp
  then show ?thesis using that by (auto simp only: length_Suc_conv length_0_conv)
qed

lemma bit_BE_Uint32:
  "bit (BE_Uint32 [a, b, c, d]) n \<longleftrightarrow>
     (if n < 8 then bit d n else if n < 16 then bit c (n - 8)
      else if n < 24 then bit b (n - 16) else n < 32 \<and> bit a (n - 24))"
proof -
  have big: "bit (x :: byte) k \<Longrightarrow> k < 8" for x k
    using bit_imp_le_length [of x k] by simp
  show ?thesis
    unfolding BE_Uint32_def by (auto simp: bit_simps dest: big)
qed

lemma BE_Uint32_PutUint32 [simp]: "BE_Uint32 (BE_PutUint32 w) = w"
proof (rule bit_word_eqI)
  fix n assume n: "n < LENGTH(32)"
  then show "bit (BE_Uint32 (BE_PutUint32 w)) n \<longleftrightarrow> bit w n"
    unfolding BE_PutUint32_def by (auto simp: bit_BE_Uint32 bit_simps)
qed

lemma BE_PutUint32_Uint32 [simp]:
  assumes "length b = 4"
  shows "BE_PutUint32 (BE_Uint32 b) = b"
proof -
  obtain w x y z where b: "b = [w, x, y, z]" using bytes4_cases [OF assms] .
  have "ucast (drop_bit 24 (BE_Uint32 b)) = w" "ucast (drop_bit 16 (BE_Uint32 b)) = x"
    "ucast (drop_bit 8 (BE_Uint32 b)) = y" "ucast (BE_Uint32 b) = z"
    by (rule bit_word_eqI, simp add: b bit_BE_Uint32 bit_simps)+
  then show ?thesis by (simp add: BE_PutUint32_def b)
qed

lemma length_BE_PutUint32 [simp]: "length (BE_PutUint32 w) = 4"
  by (simp add: BE_PutUint32_def)

lemma BE_Uint32_inject:
  "length a = 4 \<Longrightarrow> length b = 4 \<Longrightarrow> BE_Uint32 a = BE_Uint32 b \<longleftrightarrow> a = b"
  by (metis BE_PutUint32_Uint32)

lemma BE_Uint32_AND:
  assumes "length a = 4" "length b = 4"
  shows "BE_Uint32 (map2 (AND) a b) = BE_Uint32 a AND BE_Uint32 b"
proof -
  obtain a0 a1 a2 a3 where a: "a = [a0, a1, a2, a3]" using bytes4_cases [OF assms(1)] .
  obtain b0 b1 b2 b3 where b: "b = [b0, b1, b2, b3]" using bytes4_cases [OF assms(2)] .
  show ?thesis
    by (rule bit_word_eqI) (simp add: a b bit_BE_Uint32 bit_simps)
qed

lemma length_CIDRMask_bytes [simp]: "length (CIDRMask_bytes l n) = l"
  by (induction l arbitrary: n) simp_all

lemma CIDRMask_bytes_4:
  "CIDRMask_bytes 4 n =
    [CIDRMask_byte n, CIDRMask_byte (n - 8), CIDRMask_byte (n - 16), CIDRMask_byte (n - 24)]"
proof -
  have "m = Suc (Suc (Suc (Suc 0))) \<Longrightarrow> CIDRMask_bytes m n =
    [CIDRMask_byte n, CIDRMask_byte (n - 8), CIDRMask_byte (n - 16), CIDRMask_byte (n - 24)]" for m
    by simp
  from this [of 4] show ?thesis by simp
qed

lemma CIDRMask_32:
  assumes "n \<le> 32"
  shows "CIDRMask (int n) 32 =
    [CIDRMask_byte n, CIDRMask_byte (n - 8), CIDRMask_byte (n - 16), CIDRMask_byte (n - 24)]"
  using assms by (simp add: CIDRMask_def CIDRMask_bytes_4)

lemma length_CIDRMask_32: "n \<le> 32 \<Longrightarrow> length (CIDRMask (int n) 32) = 4"
  by (simp add: CIDRMask_32)

lemma CIDRMask_word:
  assumes "n \<le> 32"
  shows "BE_Uint32 (CIDRMask (int n) 32) = NOT (mask (32 - n))"
proof -
  have "\<forall>n\<in>set [0..<33]. BE_Uint32 (CIDRMask (int n) 32) = NOT (mask (32 - n))"
    by code_simp
  with assms show ?thesis by auto
qed

lemma CIDRMask_Size:
  assumes "n \<le> 32"
  shows "simpleMaskLength (CIDRMask (int n) 32) = Some n"
proof -
  have "\<forall>n\<in>set [0..<33]. simpleMaskLength (CIDRMask (int n) 32) = Some n"
    by code_simp
  with assms show ?thesis by auto
qed

lemma and_not_mask_eq_iff:
  "(x :: 32 word) AND NOT (mask k) = y AND NOT (mask k) \<longleftrightarrow> drop_bit k x = drop_bit k y"
proof -
  have "x AND NOT (mask k) = push_bit k (drop_bit k x)" for x :: "32 word"
    by (rule bit_word_eqI) (auto simp: bit_simps)
  moreover have "drop_bit k x = drop_bit k (push_bit k (drop_bit k x))" for x :: "32 word"
    by (rule bit_word_eqI) (auto simp: bit_simps dest: bit_imp_le_length)
  ultimately show ?thesis by metis
qed

subsection \<open>IPv4 networks as intervals of words\<close>

lemma To4_length: "To4 x \<noteq> [] \<Longrightarrow> length (To4 x) = 4"
  by (auto simp: To4_def split: if_splits)

lemma To4_id [simp]: "length x = 4 \<Longrightarrow> To4 x = x"
  by (simp add: To4_def)

lemma To4_v4InV6 [simp]: "length b = 4 \<Longrightarrow> To4 (v4InV6Prefix @ b) = b"
  by (simp add: To4_def v4InV6Prefix_def)

lemma To4_Nil [simp]: "To4 [] = []"
  by (simp add: To4_def)

lemma length_4_ne: "length (b :: byte list) = 4 \<Longrightarrow> b \<noteq> []"
  by auto

lemma Contains_v4:
  assumes "length nn = 4" "n \<le> 32"
  shows "IPNet_Contains \<lparr>IP = nn, Mask = CIDRMask (int n) 32\<rparr> x \<longleftrightarrow>
    To4 x \<noteq> [] \<and> drop_bit (32 - n) (BE_Uint32 (To4 x)) = drop_bit (32 - n) (BE_Uint32 nn)"
proof -
  let ?m = "CIDRMask (int n) 32"
  have nm: "networkNumberAndMask \<lparr>IP = nn, Mask = ?m\<rparr> = Some (nn, ?m)"
    using assms by (auto simp: networkNumberAndMask_def Let_def length_CIDRMask_32)
  show ?thesis
  proof (cases "To4 x = []")
    case True
    then have "length x \<noteq> 4" by auto
    with True assms show ?thesis by (simp add: IPNet_Contains_def nm)
  next
    case False
    then have l: "length (To4 x) = 4" by (rule To4_length)
    have "map2 (AND) nn ?m = map2 (AND) (To4 x) ?m \<longleftrightarrow>
        BE_Uint32 (map2 (AND) nn ?m) = BE_Uint32 (map2 (AND) (To4 x) ?m)"
      using assms l by (intro BE_Uint32_inject [symmetric]) (auto simp: length_CIDRMask_32)
    also have "\<dots> \<longleftrightarrow> BE_Uint32 nn AND NOT (mask (32 - n)) = BE_Uint32 (To4 x) AND NOT (mask (32 - n))"
      using assms l by (simp add: BE_Uint32_AND length_CIDRMask_32 CIDRMask_word)
    finally show ?thesis
      using False l assms by (auto simp: IPNet_Contains_def nm and_not_mask_eq_iff)
  qed
qed

lemma parseIPv4Fields_length:
  "parseIPv4Fields s dot v d fs = Some f \<Longrightarrow> length fs \<le> 3 \<Longrightarrow> length f = 4"
  by (induction s dot v d fs rule: parseIPv4Fields.induct) (auto simp: Let_def split: if_splits)

lemma parseIPv4_length: "parseIPv4 s = Some f \<Longrightarrow> length f = 4"
  by (auto simp: parseIPv4_def dest: parseIPv4Fields_length)

lemma parseIPv4Fields_octet:
  assumes "k \<le> 255" "rest = [] \<or> hd rest = CHR ''.''"
  shows "\<exists>d. parseIPv4Fields (Uitoa k @ rest) True 0 0 fs = parseIPv4Fields rest False k d fs"
proof -
  have dig: "is_digit (digit_char d)" "digit_val (digit_char d) = d" if "d < 10" for d
    using that by simp_all
  consider "k < 10" | "10 \<le> k" "k < 100" | "100 \<le> k" by linarith
  then show ?thesis
  proof cases
    case 1
    then have "Uitoa k = [digit_char k]" by (subst Uitoa.simps) simp
    with 1 show ?thesis by (auto simp: dig Let_def)
  next
    case 2
    then have u: "Uitoa k = [digit_char (k div 10), digit_char (k mod 10)]"
      by (subst Uitoa.simps, subst Uitoa.simps) simp
    from 2 have "k div 10 < 10" "k div 10 \<noteq> 0" "k mod 10 < 10" "k div 10 * 10 + k mod 10 = k" by auto
    with 2 show ?thesis by (auto simp: u dig Let_def)
  next
    case 3
    with assms(1) have "\<not> k < 10" "\<not> k div 10 < 10" "k div 10 div 10 < 10" by linarith+
    then have u: "Uitoa k = [digit_char (k div 10 div 10), digit_char (k div 10 mod 10), digit_char (k mod 10)]"
      using assms(1) by (subst Uitoa.simps, subst Uitoa.simps, subst Uitoa.simps) simp
    from 3 assms have "k div 10 div 10 < 10" "k div 10 div 10 \<noteq> 0" "k mod 10 < 10" "k div 10 mod 10 < 10"
      "k div 10 div 10 * 10 + k div 10 mod 10 = k div 10" "k div 10 * 10 + k mod 10 = k"
      "k div 10 \<le> 25" by auto
    with 3 assms show ?thesis by (auto simp: u dig Let_def)
  qed
qed

lemma parseIPv4Fields_dot:
  "s \<noteq> [] \<Longrightarrow> length fs < 3 \<Longrightarrow>
   parseIPv4Fields (CHR ''.'' # s) False v d fs = parseIPv4Fields s True 0 0 (fs @ [of_nat v])"
  by (simp add: is_digit_def)

lemma unat_byte_le: "unat (q :: byte) \<le> 255"
proof -
  have "unat q < 2 ^ LENGTH(8)" by (rule unsigned_less)
  then show ?thesis by simp
qed

lemma parseIPv4_v4_string:
  assumes "length b = 4"
  shows "parseIPv4 (v4_string b) = Some b"
proof -
  obtain w x y z where b: "b = [w, x, y, z]" using bytes4_cases [OF assms] .
  have le: "unat (q :: byte) \<le> 255" for q by (rule unat_byte_le)
  let ?u = "\<lambda>q :: byte. Uitoa (unat q)"
  have s: "v4_string b = ?u w @ CHR ''.'' # ?u x @ CHR ''.'' # ?u y @ CHR ''.'' # ?u z"
    by (simp add: v4_string_def b)
  have 1: "parseIPv4Fields (?u q @ CHR ''.'' # r) True 0 0 fs = parseIPv4Fields r True 0 0 (fs @ [q])"
    if "r \<noteq> []" "length fs < 3" for q r fs
    using parseIPv4Fields_octet [OF le, of "CHR ''.'' # r" q fs] that
    by (auto simp: parseIPv4Fields_dot simp del: parseIPv4Fields.simps)
  have 2: "parseIPv4Fields (?u q) True 0 0 fs = Some (fs @ [q])" if "length fs = 3" for q fs
    using parseIPv4Fields_octet [OF le, of "[]" q fs] that by auto
  show ?thesis
    unfolding parseIPv4_def s by (simp add: 1 2 b del: parseIPv4Fields.simps)
qed

lemma ParseAddr_scan_dot:
  "(\<forall>c\<in>set t. is_digit c) \<Longrightarrow> ParseAddr_scan w (t @ CHR ''.'' # r) = map_option Addr4 (parseIPv4 w)"
proof (induction t)
  case (Cons c t)
  then have "is_digit c" by simp
  then have "c \<noteq> CHR ''.''" "c \<noteq> CHR '':''" "c \<noteq> CHR ''%''" by (auto simp: is_digit_def)
  with Cons show ?case by simp
qed simp

lemma ParseAddr_v4_string:
  assumes "length b = 4"
  shows "ParseAddr (v4_string b) = Some (Addr4 b)"
proof -
  obtain w x y z where b: "b = [w, x, y, z]" using bytes4_cases [OF assms] .
  have "v4_string b = Uitoa (unat w) @ CHR ''.'' # v4_string [x, y, z]"
    by (simp add: v4_string_def b)
  moreover have "\<forall>c\<in>set (Uitoa (unat w)). is_digit c"
    using Uitoa_digits by (simp add: list_all_iff)
  ultimately show ?thesis
    unfolding ParseAddr_def by (metis ParseAddr_scan_dot parseIPv4_v4_string assms option.map(2))
qed

lemma ParseIP_v4_string: "length b = 4 \<Longrightarrow> ParseIP (v4_string b) = v4InV6Prefix @ b"
  by (simp add: ParseIP_def ParseAddr_v4_string Zone_def As16_def)

subsection \<open>IPv4 prefixes\<close>

definition v4_net :: "byte list \<Rightarrow> nat \<Rightarrow> ipnet" where
  "v4_net b n = \<lparr>IP = BE_PutUint32 (BE_Uint32 b AND NOT (mask (32 - n))), Mask = CIDRMask (int n) 32\<rparr>"

definition v4_cidr_string :: "byte list \<Rightarrow> nat \<Rightarrow> string" where
  "v4_cidr_string b n = v4_string b @ ''/'' @ Uitoa n"

lemma IP_Mask_v4:
  assumes "length b = 4" "n \<le> 32"
  shows "IP_Mask (v4InV6Prefix @ b) (CIDRMask (int n) 32) =
    BE_PutUint32 (BE_Uint32 b AND NOT (mask (32 - n)))"
proof -
  let ?m = "CIDRMask (int n) 32"
  have "IP_Mask (v4InV6Prefix @ b) ?m = map2 (AND) b ?m"
    using assms by (simp add: IP_Mask_def length_CIDRMask_32 v4InV6Prefix_def)
  moreover have "map2 (AND) b ?m = BE_PutUint32 (BE_Uint32 (map2 (AND) b ?m))"
    using assms by (simp add: length_CIDRMask_32)
  ultimately show ?thesis
    using assms by (simp add: BE_Uint32_AND length_CIDRMask_32 CIDRMask_word)
qed

lemma digits_val_mono: "list_all is_digit s \<Longrightarrow> n \<le> digits_val n s"
proof (induction s arbitrary: n)
  case (Cons c s)
  then have "n * 10 + digit_val c \<le> digits_val (n * 10 + digit_val c) s" by simp
  then show ?case by (simp add: digits_val_def)
qed (simp add: digits_val_def)

lemma dtoi_digits:
  "list_all is_digit s \<Longrightarrow> digits_val n s < 0xFFFFFF \<Longrightarrow> dtoi n s = Some (digits_val n s)"
proof (induction s arbitrary: n)
  case (Cons c s)
  then show ?case
    using digits_val_mono [of s "n * 10 + digit_val c"] by (auto simp: digits_val_def Let_def)
qed (simp add: digits_val_def)

lemma dtoi_Uitoa: "n < 0xFFFFFF \<Longrightarrow> dtoi 0 (Uitoa n) = Some n"
  using dtoi_digits [OF Uitoa_digits, of 0 n] by simp

lemma set_Join: "set (Join xs sep) \<subseteq> (\<Union>x\<in>set xs. set x) \<union> set sep"
  by (induction xs rule: induct_list012) auto

lemma slash_not_in_v4_string: "CHR ''/'' \<notin> set (v4_string b)"
proof -
  have "\<not> is_digit (CHR ''/'')" by (simp add: is_digit_def)
  then have "CHR ''/'' \<notin> set (Uitoa n)" for n
    using Uitoa_digits [of n] by (auto simp: list_all_iff)
  then show ?thesis
    using set_Join [of "map (\<lambda>x. Uitoa (unat x)) b" "''.''"] by (auto simp: v4_string_def)
qed

lemma ParseCIDR_v4:
  assumes "length b = 4" "n \<le> 32"
  shows "ParseCIDR (v4_cidr_string b n) = Some (v4InV6Prefix @ b, v4_net b n)"
proof -
  have "Cut (v4_cidr_string b n) ''/'' = Some (v4_string b, Uitoa n)"
    using Cut_char_append [OF slash_not_in_v4_string, of b "Uitoa n"] by (simp add: v4_cidr_string_def)
  moreover have "dtoi 0 (Uitoa n) = Some n" using assms(2) by (intro dtoi_Uitoa) simp
  ultimately show ?thesis
    using assms ParseAddr_v4_string [OF assms(1)]
    by (simp add: ParseCIDR_def Zone_def BitLen_def As16_def Let_def v4_net_def IP_Mask_v4)
qed

lemma Mask_Size_v4: "n \<le> 32 \<Longrightarrow> Mask_Size (CIDRMask (int n) 32) = (n, 32)"
  by (simp add: Mask_Size_def CIDRMask_Size length_CIDRMask_32)

lemma drop_bit_and_not_mask: "drop_bit k (w AND NOT (mask k)) = drop_bit k (w :: 32 word)"
  by (rule bit_word_eqI) (auto simp: bit_simps dest: bit_imp_le_length)

lemma Contains_v4_net:
  assumes "length b = 4" "n \<le> 32"
  shows "IPNet_Contains (v4_net b n) x \<longleftrightarrow>
    To4 x \<noteq> [] \<and> drop_bit (32 - n) (BE_Uint32 (To4 x)) = drop_bit (32 - n) (BE_Uint32 b)"
  unfolding v4_net_def using assms by (simp add: Contains_v4 drop_bit_and_not_mask del: drop_bit_and)

end
