(* ===== verification/Rule_Engine.thy ===== *)
theory Rule_Engine
  imports Go_Net
begin

section \<open>The rule engine (internal/rule)\<close>

text \<open>
  \<^verbatim>\<open>internal/rule/rule.go\<close> and \<^verbatim>\<open>adapter.go\<close>: parsing of rule strings, the user rules and the
  runtime rules injected for a connection, and the two lookups. An \<open>Engine\<close> is a record of the
  two rule lists and the GeoIP database; the database is a third-party reader, a parameter of the
  engine (a function from addresses to a country code or an error, absent when \<^verbatim>\<open>nil\<close>). The
  read-write mutex makes every operation atomic, so each is one function on the record.
\<close>

subsection \<open>Data\<close>

datatype ActionType = ActionDirect | ActionVPN

record Action =
  Type :: ActionType
  Outbound :: string

type_synonym GeoIPDB = "ip \<Rightarrow> (string, string) res"

datatype ruleKind = kindDomain | kindDomainSuffix | kindDomainKeyword | kindGeoIP | kindIPCIDR

record entry =
  kind :: ruleKind
  rule_value :: string
  network :: "ipnet option"
  action :: Action

record Engine =
  rules :: "entry list"
  runtimeRules :: "entry list"
  geoip :: "GeoIPDB option"

datatype rule_error =
    InvalidFormat string
  | BadAction string
  | InvalidCIDR string
  | UnknownType string

subsection \<open>Parsing\<close>

definition parseAction :: "string \<Rightarrow> (rule_error, Action) res" where
  "parseAction s =
     (let upper = ToUpper (TrimSpace s)
      in if upper = ''VPN'' then Ok \<lparr>Type = ActionVPN, Outbound = ''VPN''\<rparr>
         else if upper = ''DIRECT'' \<or> HasPrefix upper ''DIRECT''
              then Ok \<lparr>Type = ActionDirect, Outbound = ''DIRECT''\<rparr>
         else Err (BadAction s))"

definition parseRule :: "string \<Rightarrow> (rule_error, entry) res" where
  "parseRule s =
     (case SplitN s '','' 3 of
        [p0, p1, p2] \<Rightarrow>
          (let typ = ToUpper (TrimSpace p0); val = TrimSpace p1; actionStr = TrimSpace p2
           in case parseAction actionStr of
                Inl e \<Rightarrow> Err e
              | Inr act \<Rightarrow>
                  if typ = ''DOMAIN'' then
                    Ok \<lparr>kind = kindDomain, rule_value = ToLower val, network = None, action = act\<rparr>
                  else if typ = ''DOMAIN-SUFFIX'' then
                    Ok \<lparr>kind = kindDomainSuffix, rule_value = ToLower val, network = None, action = act\<rparr>
                  else if typ = ''DOMAIN-KEYWORD'' then
                    Ok \<lparr>kind = kindDomainKeyword, rule_value = ToLower val, network = None, action = act\<rparr>
                  else if typ = ''GEOIP'' then
                    Ok \<lparr>kind = kindGeoIP, rule_value = ToUpper val, network = None, action = act\<rparr>
                  else if typ = ''IP-CIDR'' then
                    (case ParseCIDR val of
                       None \<Rightarrow> Err (InvalidCIDR val)
                     | Some (_, net) \<Rightarrow>
                         Ok \<lparr>kind = kindIPCIDR, rule_value = [], network = Some net, action = act\<rparr>)
                  else Err (UnknownType typ))
      | _ \<Rightarrow> Err (InvalidFormat s))"

definition NewEngine :: "string list \<Rightarrow> GeoIPDB option \<Rightarrow> (rule_error, Engine) res" where
  "NewEngine ruleStrings db =
     (case map_res parseRule ruleStrings of
        Inl e \<Rightarrow> Err e
      | Inr es \<Rightarrow> Ok \<lparr>rules = es, runtimeRules = [], geoip = db\<rparr>)"

subsection \<open>Runtime rules\<close>

definition InjectRules :: "Engine \<Rightarrow> string list \<Rightarrow> rule_error option \<times> Engine" where
  "InjectRules e ruleStrings =
     (case map_res parseRule ruleStrings of
        Inl err \<Rightarrow> (Some err, e)
      | Inr es \<Rightarrow> (None, e\<lparr>runtimeRules := es\<rparr>))"

definition ClearInjectedRules :: "Engine \<Rightarrow> Engine" where
  "ClearInjectedRules e = e\<lparr>runtimeRules := []\<rparr>"

subsection \<open>Matching\<close>

fun matchDomainInList :: "entry list \<Rightarrow> string \<Rightarrow> Action option" where
  "matchDomainInList [] d = None"
| "matchDomainInList (r # rs) d =
     (case kind r of
        kindDomain \<Rightarrow> if d = rule_value r then Some (action r) else matchDomainInList rs d
      | kindDomainSuffix \<Rightarrow>
          if d = rule_value r \<or> HasSuffix d (''.'' @ rule_value r) then Some (action r)
          else matchDomainInList rs d
      | kindDomainKeyword \<Rightarrow>
          if Contains d (rule_value r) then Some (action r) else matchDomainInList rs d
      | _ \<Rightarrow> matchDomainInList rs d)"

text \<open>
  A CIDR entry always carries its network (lemma \<open>parseRule_network\<close>), so the dereference of
  \<^verbatim>\<open>r.network\<close> never meets \<^verbatim>\<open>nil\<close>.
\<close>

fun matchIPInList :: "entry list \<Rightarrow> ip \<Rightarrow> GeoIPDB option \<Rightarrow> Action option" where
  "matchIPInList [] addr db = None"
| "matchIPInList (r # rs) addr db =
     (case kind r of
        kindGeoIP \<Rightarrow>
          (case db of
             None \<Rightarrow> matchIPInList rs addr db
           | Some country \<Rightarrow>
               (case country addr of
                  Inl _ \<Rightarrow> matchIPInList rs addr db
                | Inr cc \<Rightarrow>
                    if EqualFold cc (rule_value r) then Some (action r) else matchIPInList rs addr db))
      | kindIPCIDR \<Rightarrow>
          (case network r of
             None \<Rightarrow> matchIPInList rs addr db
           | Some net \<Rightarrow>
               if IPNet_Contains net addr then Some (action r) else matchIPInList rs addr db)
      | _ \<Rightarrow> matchIPInList rs addr db)"

definition MatchDomain :: "Engine \<Rightarrow> string \<Rightarrow> Action option" where
  "MatchDomain e domain =
     (let d = ToLower (TrimSuffix domain ''.'')
      in case matchDomainInList (rules e) d of
           Some a \<Rightarrow> Some a
         | None \<Rightarrow> matchDomainInList (runtimeRules e) d)"

definition MatchIP :: "Engine \<Rightarrow> ip \<Rightarrow> Action option" where
  "MatchIP e addr =
     (case matchIPInList (rules e) addr (geoip e) of
        Some a \<Rightarrow> Some a
      | None \<Rightarrow> matchIPInList (runtimeRules e) addr (geoip e))"

definition MatcherAdapter_MatchDomain :: "Engine \<Rightarrow> string \<Rightarrow> bool" where
  "MatcherAdapter_MatchDomain e domain = (MatchDomain e domain \<noteq> None)"

subsection \<open>Specification of a match\<close>

text \<open>What a rule means, without the string functions of the implementation.\<close>

definition domain_rule_covers :: "entry \<Rightarrow> string \<Rightarrow> bool" where
  "domain_rule_covers r d =
     (case kind r of
        kindDomain \<Rightarrow> d = rule_value r
      | kindDomainSuffix \<Rightarrow> d = rule_value r \<or> (\<exists>sub. d = sub @ CHR ''.'' # rule_value r)
      | kindDomainKeyword \<Rightarrow> (\<exists>u v. d = u @ rule_value r @ v)
      | _ \<Rightarrow> False)"

definition ip_rule_covers :: "GeoIPDB option \<Rightarrow> entry \<Rightarrow> ip \<Rightarrow> bool" where
  "ip_rule_covers db r addr =
     (case kind r of
        kindGeoIP \<Rightarrow> (\<exists>country cc. db = Some country \<and> country addr = Ok cc \<and> EqualFold cc (rule_value r))
      | kindIPCIDR \<Rightarrow> (\<exists>net. network r = Some net \<and> IPNet_Contains net addr)
      | _ \<Rightarrow> False)"

definition first_action :: "(entry \<Rightarrow> bool) \<Rightarrow> entry list \<Rightarrow> Action option" where
  "first_action P rs = map_option action (find P rs)"

lemma first_action_simps [simp]:
  "first_action P [] = None"
  "first_action P (r # rs) = (if P r then Some (action r) else first_action P rs)"
  by (simp_all add: first_action_def)

lemma first_action_append:
  "first_action P (rs @ ts) =
     (case first_action P rs of Some a \<Rightarrow> Some a | None \<Rightarrow> first_action P ts)"
  by (induction rs) auto

lemma first_action_None_iff: "first_action P rs = None \<longleftrightarrow> (\<forall>r\<in>set rs. \<not> P r)"
  by (induction rs) auto

lemma first_action_Some_iff:
  "first_action P rs = Some a \<longleftrightarrow>
     (\<exists>us r vs. rs = us @ r # vs \<and> P r \<and> action r = a \<and> (\<forall>u\<in>set us. \<not> P u))"
proof
  assume "first_action P rs = Some a"
  then have "\<exists>r\<in>set rs. P r" by (metis first_action_None_iff option.distinct(1))
  then obtain us r vs where *: "rs = us @ r # vs" "P r" "\<forall>u\<in>set us. \<not> P u"
    by (metis split_list_first_prop)
  then have "first_action P us = None" by (simp add: first_action_None_iff)
  with * have "first_action P rs = Some (action r)" by (simp add: first_action_append)
  with \<open>first_action P rs = Some a\<close> * show
    "\<exists>us r vs. rs = us @ r # vs \<and> P r \<and> action r = a \<and> (\<forall>u\<in>set us. \<not> P u)" by auto
next
  assume "\<exists>us r vs. rs = us @ r # vs \<and> P r \<and> action r = a \<and> (\<forall>u\<in>set us. \<not> P u)"
  then obtain us r vs where *: "rs = us @ r # vs" "P r" "action r = a" "\<forall>u\<in>set us. \<not> P u" by blast
  then have "first_action P us = None" by (simp add: first_action_None_iff)
  with * show "first_action P rs = Some a" by (simp add: first_action_append)
qed

lemma matchDomainInList_first:
  "matchDomainInList rs d = first_action (\<lambda>r. domain_rule_covers r d) rs"
  by (induction rs)
     (auto simp: domain_rule_covers_def HasSuffix_iff suffix_def Contains_iff sublist_def
       split: ruleKind.splits)

lemma matchIPInList_first:
  "matchIPInList rs addr db = first_action (\<lambda>r. ip_rule_covers db r addr) rs"
  by (induction rs)
     (auto simp: ip_rule_covers_def split: ruleKind.splits option.splits sum.splits)

lemma MatchDomain_first:
  "MatchDomain e domain =
     first_action (\<lambda>r. domain_rule_covers r (ToLower (TrimSuffix domain ''.'')))
       (rules e @ runtimeRules e)"
  by (simp add: MatchDomain_def matchDomainInList_first first_action_append Let_def
      split: option.splits)

lemma MatchIP_first:
  "MatchIP e addr =
     first_action (\<lambda>r. ip_rule_covers (geoip e) r addr) (rules e @ runtimeRules e)"
  by (simp add: MatchIP_def matchIPInList_first first_action_append split: option.splits)

subsection \<open>Well-formed entries\<close>

definition entry_ok :: "entry \<Rightarrow> bool" where
  "entry_ok r =
     ((kind r = kindIPCIDR) = (network r \<noteq> None) \<and>
      (action r = \<lparr>Type = ActionVPN, Outbound = ''VPN''\<rparr> \<or>
       action r = \<lparr>Type = ActionDirect, Outbound = ''DIRECT''\<rparr>) \<and>
      (kind r \<in> {kindDomain, kindDomainSuffix, kindDomainKeyword} \<longrightarrow> ToLower (rule_value r) = rule_value r))"

definition engine_ok :: "Engine \<Rightarrow> bool" where
  "engine_ok e = (\<forall>r\<in>set (rules e) \<union> set (runtimeRules e). entry_ok r)"

lemma parseAction_Ok:
  "parseAction s = Ok a \<Longrightarrow>
     a = \<lparr>Type = ActionVPN, Outbound = ''VPN''\<rparr> \<or> a = \<lparr>Type = ActionDirect, Outbound = ''DIRECT''\<rparr>"
  by (auto simp: parseAction_def Let_def split: if_splits)

lemma parseRule_entry_ok: "parseRule s = Ok r \<Longrightarrow> entry_ok r"
  by (auto simp: parseRule_def entry_ok_def Let_def dest!: parseAction_Ok
      split: list.splits sum.splits if_splits option.splits)

lemma parseRule_network: "parseRule s = Ok r \<Longrightarrow> kind r = kindIPCIDR \<Longrightarrow> network r \<noteq> None"
  using parseRule_entry_ok [of s r] by (simp add: entry_ok_def)

lemma map_res_entry_ok: "map_res parseRule ss = Ok es \<Longrightarrow> r \<in> set es \<Longrightarrow> entry_ok r"
  by (auto simp: map_res_ok_iff list_all2_conv_all_nth in_set_conv_nth dest: parseRule_entry_ok)

lemma NewEngine_ok: "NewEngine ss db = Ok e \<Longrightarrow> engine_ok e"
  by (auto simp: NewEngine_def engine_ok_def split: sum.splits dest: map_res_entry_ok)

lemma InjectRules_ok: "engine_ok e \<Longrightarrow> engine_ok (snd (InjectRules e ss))"
  by (auto simp: InjectRules_def engine_ok_def split: sum.splits dest: map_res_entry_ok)

lemma ClearInjectedRules_ok: "engine_ok e \<Longrightarrow> engine_ok (ClearInjectedRules e)"
  by (auto simp: ClearInjectedRules_def engine_ok_def)

subsection \<open>Injected rule strings\<close>

text \<open>The two forms of rule strings the VPN manager builds, and what they parse to.\<close>

abbreviation VPN_action :: Action where
  "VPN_action \<equiv> \<lparr>Type = ActionVPN, Outbound = ''VPN''\<rparr>"

abbreviation DIRECT_action :: Action where
  "DIRECT_action \<equiv> \<lparr>Type = ActionDirect, Outbound = ''DIRECT''\<rparr>"

lemma ToUpper_eval [go_string_simps]:
  "ToUpper [] = []" "ToUpper (c # s) = upper_char c # ToUpper s"
  by (simp_all add: ToUpper_def)

lemma ToLower_eval [go_string_simps]:
  "ToLower [] = []" "ToLower (c # s) = lower_char c # ToLower s"
  by (simp_all add: ToLower_def)

lemma SplitN_3 [go_string_simps]:
  "SplitN s sep 3 =
     (case Cut s sep of
        None \<Rightarrow> [s]
      | Some (a, b) \<Rightarrow> a # (case Cut b sep of None \<Rightarrow> [b] | Some (c, d) \<Rightarrow> [c, d]))"
  by (auto simp: numeral_3_eq_3 split: option.splits)

lemmas string_eval =
  go_string_simps upper_char_def lower_char_def TrimSpace_def isSpace_def HasPrefix_def HasSuffix_def
  char_of_def bit_Suc_0_iff

lemma parseAction_VPN [simp]: "parseAction ''VPN'' = Ok VPN_action"
  by (simp add: parseAction_def string_eval)

lemma parseAction_DIRECT [simp]: "parseAction ''DIRECT'' = Ok DIRECT_action"
  by (simp add: parseAction_def string_eval)

lemma parseRule_three:
  assumes "CHR '','' \<notin> set t" "CHR '','' \<notin> set v"
  shows "parseRule (t @ '','' @ v @ '','' @ a) =
    (let typ = ToUpper (TrimSpace t); val = TrimSpace v
     in case parseAction (TrimSpace a) of
          Inl e \<Rightarrow> Err e
        | Inr act \<Rightarrow>
            if typ = ''DOMAIN'' then
              Ok \<lparr>kind = kindDomain, rule_value = ToLower val, network = None, action = act\<rparr>
            else if typ = ''DOMAIN-SUFFIX'' then
              Ok \<lparr>kind = kindDomainSuffix, rule_value = ToLower val, network = None, action = act\<rparr>
            else if typ = ''DOMAIN-KEYWORD'' then
              Ok \<lparr>kind = kindDomainKeyword, rule_value = ToLower val, network = None, action = act\<rparr>
            else if typ = ''GEOIP'' then
              Ok \<lparr>kind = kindGeoIP, rule_value = ToUpper val, network = None, action = act\<rparr>
            else if typ = ''IP-CIDR'' then
              (case ParseCIDR val of
                 None \<Rightarrow> Err (InvalidCIDR val)
               | Some (_, net) \<Rightarrow>
                   Ok \<lparr>kind = kindIPCIDR, rule_value = [], network = Some net, action = act\<rparr>)
            else Err (UnknownType typ))"
  using SplitN3_char [OF assms, of a] by (simp add: parseRule_def)

definition cidr_rule_string :: "string \<Rightarrow> string" where
  "cidr_rule_string cidr = ''IP-CIDR,'' @ cidr @ '',VPN''"

definition suffix_rule_string :: "string \<Rightarrow> string" where
  "suffix_rule_string sfx = ''DOMAIN-SUFFIX,'' @ sfx @ '',VPN''"

lemma parse_cidr_rule:
  assumes "CHR '','' \<notin> set cidr"
  shows "parseRule (cidr_rule_string cidr) =
    (case ParseCIDR (TrimSpace cidr) of
       None \<Rightarrow> Err (InvalidCIDR (TrimSpace cidr))
     | Some (_, net) \<Rightarrow>
         Ok \<lparr>kind = kindIPCIDR, rule_value = [], network = Some net, action = VPN_action\<rparr>)"
proof -
  have "ToUpper (TrimSpace ''IP-CIDR'') = ''IP-CIDR''" by (simp add: string_eval)
  moreover have "TrimSpace ''VPN'' = ''VPN''" by (simp add: string_eval)
  ultimately show ?thesis
    using parseRule_three [of "''IP-CIDR''" cidr "''VPN''"] assms
    by (simp add: cidr_rule_string_def Let_def)
qed

lemma parse_suffix_rule:
  assumes "CHR '','' \<notin> set sfx"
  shows "parseRule (suffix_rule_string sfx) =
    Ok \<lparr>kind = kindDomainSuffix, rule_value = ToLower (TrimSpace sfx), network = None,
        action = VPN_action\<rparr>"
proof -
  have "ToUpper (TrimSpace ''DOMAIN-SUFFIX'') = ''DOMAIN-SUFFIX''" by (simp add: string_eval)
  moreover have "TrimSpace ''VPN'' = ''VPN''" by (simp add: string_eval)
  ultimately show ?thesis
    using parseRule_three [of "''DOMAIN-SUFFIX''" sfx "''VPN''"] assms
    by (simp add: suffix_rule_string_def)
qed

subsection \<open>The contract of a domain matcher\<close>

text \<open>
  \<^verbatim>\<open>fakeip.DomainMatcher\<close>: what the DNS server relies on. A matcher sees a name only through its
  normal form (lower case, one trailing dot removed), so the server may normalise first.
\<close>

definition normal_name :: "string \<Rightarrow> string" where
  "normal_name d = ToLower (TrimSuffix d ''.'')"

locale domain_matcher =
  fixes matches :: "string \<Rightarrow> bool"
  assumes matches_case: "ToLower d = ToLower d' \<Longrightarrow> matches d = matches d'"
    and matches_dot: "\<not> HasSuffix d ''.'' \<Longrightarrow> matches (d @ ''.'') = matches d"
begin

lemma matches_normal_name:
  assumes "\<not> HasSuffix (TrimSuffix d ''.'') ''.''"
  shows "matches (normal_name d) = matches d"
proof -
  have "matches (normal_name d) = matches (TrimSuffix d ''.'')"
    by (rule matches_case) (simp add: normal_name_def)
  also have "\<dots> = matches d"
  proof (cases "HasSuffix d ''.''")
    case True
    then have "TrimSuffix d ''.'' @ ''.'' = d"
      by (auto simp: TrimSuffix_def HasSuffix_iff suffix_def)
    with matches_dot [OF assms] show ?thesis by simp
  next
    case False
    then show ?thesis by (simp add: TrimSuffix_def)
  qed
  finally show ?thesis .
qed

end

lemma HasSuffix_ToLower_dot: "HasSuffix (ToLower d) ''.'' \<longleftrightarrow> HasSuffix d ''.''"
proof (cases d rule: rev_cases)
  case Nil
  then show ?thesis by (simp add: ToLower_def)
next
  case (snoc u c)
  then show ?thesis
    by (simp add: HasSuffix_def ToLower_def lower_char_eq_dot)
qed

lemma ToLower_TrimSuffix_dot: "ToLower (TrimSuffix d ''.'') = TrimSuffix (ToLower d) ''.''"
proof -
  have "length (ToLower d) = length d" by (simp add: ToLower_def)
  then show ?thesis
    by (simp add: TrimSuffix_def HasSuffix_ToLower_dot) (simp add: ToLower_def take_map)
qed

lemma normal_name_case: "ToLower d = ToLower d' \<Longrightarrow> normal_name d = normal_name d'"
  by (simp add: normal_name_def ToLower_TrimSuffix_dot)

lemma normal_name_dot: "\<not> HasSuffix d ''.'' \<Longrightarrow> normal_name (d @ ''.'') = normal_name d"
proof -
  assume n: "\<not> HasSuffix d ''.''"
  have "TrimSuffix (d @ ''.'') ''.'' = d" by (simp add: TrimSuffix_def HasSuffix_def)
  moreover from n have "TrimSuffix d ''.'' = d" by (simp add: TrimSuffix_def)
  ultimately show ?thesis by (simp add: normal_name_def)
qed

lemma MatchDomain_normal:
  "MatchDomain e d = first_action (\<lambda>r. domain_rule_covers r (normal_name d)) (rules e @ runtimeRules e)"
  by (simp add: MatchDomain_first normal_name_def)

interpretation adapter: domain_matcher "MatcherAdapter_MatchDomain e" for e
proof unfold_locales
  fix d d' :: string
  show "MatcherAdapter_MatchDomain e d = MatcherAdapter_MatchDomain e d'" if "ToLower d = ToLower d'"
    by (simp add: MatcherAdapter_MatchDomain_def MatchDomain_normal normal_name_case [OF that])
  show "MatcherAdapter_MatchDomain e (d @ ''.'') = MatcherAdapter_MatchDomain e d"
    if "\<not> HasSuffix d ''.''"
    by (simp add: MatcherAdapter_MatchDomain_def MatchDomain_normal normal_name_dot [OF that])
qed

subsection \<open>Properties\<close>

text \<open>
  Property C2: \<^verbatim>\<open>MatchDomain\<close> returns the action of the first rule that covers the normalised name,
  in the order user rules, then injected rules; a suffix rule covers the name itself and its
  subdomains at a label boundary, a keyword rule every name that contains the keyword.
\<close>

theorem MatchDomain_spec:
  "MatchDomain e d =
     first_action (\<lambda>r. domain_rule_covers r (normal_name d)) (rules e @ runtimeRules e)"
  by (rule MatchDomain_normal)

text \<open>
  Domain matching ignores letter case and one trailing dot.
\<close>

theorem MatchDomain_normalised:
  assumes "ToLower d' = ToLower d" and "\<not> HasSuffix d ''.''"
  shows "MatchDomain e d' = MatchDomain e d \<and> MatchDomain e (d' @ ''.'') = MatchDomain e d"
proof -
  from assms have n: "\<not> HasSuffix d' ''.''" by (metis HasSuffix_ToLower_dot)
  show ?thesis
    using assms n by (simp add: MatchDomain_normal normal_name_dot normal_name_case [OF assms(1)])
qed

theorem MatchDomain_normalised_witness:
  "MatchDomain \<lparr>rules = [\<lparr>kind = kindDomainSuffix, rule_value = ''a.b'', network = None,
       action = VPN_action\<rparr>], runtimeRules = [], geoip = None\<rparr> ''X.A.b.'' = Some VPN_action"
proof -
  let ?e = "\<lparr>rules = [\<lparr>kind = kindDomainSuffix, rule_value = ''a.b'', network = None,
       action = VPN_action\<rparr>], runtimeRules = [], geoip = None\<rparr>"
  have h1: "ToLower ''X.A.b'' = ToLower ''x.a.b''" by (simp add: string_eval)
  have h2: "\<not> HasSuffix ''x.a.b'' ''.''" by (simp add: string_eval)
  have m: "MatchDomain ?e ''x.a.b'' = Some VPN_action"
    by (simp add: MatchDomain_def TrimSuffix_def string_eval)
  show ?thesis using MatchDomain_normalised [OF h1 h2, of ?e] m by simp
qed

text \<open>
  \<^verbatim>\<open>MatchIP\<close> returns the action of the first GEOIP or IP-CIDR rule that covers the
  address, user rules before injected ones, and skips GEOIP rules when the database is absent
  or fails.
\<close>

theorem MatchIP_spec:
  "MatchIP e addr =
     first_action (\<lambda>r. ip_rule_covers (geoip e) r addr) (rules e @ runtimeRules e)"
  by (rule MatchIP_first)

text \<open>
  \<^verbatim>\<open>InjectRules\<close> is all or nothing: it reports an error and leaves the engine as it was
  when some rule string does not parse, and otherwise replaces exactly the runtime rules.
\<close>

theorem InjectRules_atomic:
  "(if \<exists>s\<in>set ss. \<not> is_ok (parseRule s)
    then fst (InjectRules e ss) \<noteq> None \<and> snd (InjectRules e ss) = e
    else \<exists>es. list_all2 (\<lambda>s r. parseRule s = Ok r) ss es \<and>
         InjectRules e ss = (None, e\<lparr>runtimeRules := es\<rparr>))"
proof (cases "map_res parseRule ss")
  case (Inl err)
  then have "\<not> is_ok (map_res parseRule ss)" by simp
  then have "\<exists>s\<in>set ss. \<not> is_ok (parseRule s)" by (simp add: map_res_is_ok)
  with Inl show ?thesis by (simp add: InjectRules_def)
next
  case (Inr es)
  then have "is_ok (map_res parseRule ss)" by simp
  then have ok: "\<not> (\<exists>s\<in>set ss. \<not> is_ok (parseRule s))" by (simp add: map_res_is_ok)
  from Inr have "list_all2 (\<lambda>s r. parseRule s = Ok r) ss es" by (simp add: map_res_ok_iff)
  with Inr have "\<exists>es. list_all2 (\<lambda>s r. parseRule s = Ok r) ss es \<and>
      InjectRules e ss = (None, e\<lparr>runtimeRules := es\<rparr>)"
    by (intro exI [of _ es]) (simp add: InjectRules_def)
  with ok show ?thesis by simp
qed

end
