(* ===== verification/Configuration.thy ===== *)
theory Configuration
  imports Rule_Engine
begin

section \<open>The configuration (internal/config)\<close>

text \<open>
  \<^verbatim>\<open>internal/config/config.go\<close>: the configuration records, their defaults, the validation done when
  a file is merged into the defaults, and the conversion of the editable rule objects into the
  rule strings of the engine. Decoding JSON text into typed fields is the standard library's: a
  decoded file is given as an \<open>overlay\<close>, the fields it sets and the rule objects it lists.
\<close>

subsection \<open>Data\<close>

record CorplinkConfig =
  CompanyName :: string
  Platform :: string
  InsecureSkipVerify :: bool
  DebugHTTPBody :: bool

record TUNConfig =
  tun_Name :: string
  tun_IP :: string
  tun_Mask :: int
  tun_MTU :: int

record DNSConfig =
  Upstream :: "string list"
  Hijack :: "string list"
  SystemHijack :: bool

record SOCKS5Config =
  Enabled :: bool
  BindHost :: string
  Port :: int

record LogConfig =
  Level :: string
  log_File :: string
  MaxSize :: string
  MaxAge :: int

record RuleConfig =
  ID :: string
  rule_Enabled :: bool
  rule_Type :: string
  rule_Value :: string
  rule_Policy :: string
  rule_Group :: string
  rule_Comment :: string

type_synonym RuleList = "RuleConfig list"

record Config =
  TUN :: TUNConfig
  FakeIP_Pool :: string
  DNS :: DNSConfig
  SOCKS5 :: SOCKS5Config
  GeoIP_File :: string
  DirectOutbound_Interface :: string
  Corplink :: CorplinkConfig
  Log :: LogConfig
  Rules :: RuleList

datatype config_error =
    ReadFailed string
  | ParseFailed
  | EmptyBindHost
  | BadPort
  | BadPolicy string
  | RuleFormat string
  | RuleEmptyValue string
  | RuleEmptyAction string
  | RuleBadCIDR string string
  | RuleUnknownType string string
  | RuleBadAction string string
  | InRule nat config_error

subsection \<open>Defaults\<close>

definition defaultTunName :: "string \<Rightarrow> string" where
  "defaultTunName goos =
     (if goos = ''darwin'' then ''utun''
      else if goos = ''windows'' then ''ECorpLink''
      else if goos = ''linux'' then ''ecorplink0''
      else ''ecorplink0'')"

definition DefaultConfig :: "string \<Rightarrow> Config" where
  "DefaultConfig goos =
     \<lparr>TUN = \<lparr>tun_Name = defaultTunName goos, tun_IP = ''172.30.77.1'', tun_Mask = 30, tun_MTU = 1420\<rparr>,
      FakeIP_Pool = ''198.18.0.0/15'',
      DNS = \<lparr>Upstream = [''223.5.5.5:53'', ''223.6.6.6:53''], Hijack = [''0.0.0.0:53''],
             SystemHijack = True\<rparr>,
      SOCKS5 = \<lparr>Enabled = False, BindHost = ''127.0.0.1'', Port = 1080\<rparr>,
      GeoIP_File = [],
      DirectOutbound_Interface = [],
      Corplink = \<lparr>CompanyName = [], Platform = [], InsecureSkipVerify = True, DebugHTTPBody = False\<rparr>,
      Log = \<lparr>Level = ''info'', log_File = ''~/.ecorplink/ecorplink.log'', MaxSize = ''100MB'', MaxAge = 7\<rparr>,
      Rules = [\<lparr>ID = ''geoip_cn'', rule_Enabled = True, rule_Type = ''GEOIP'', rule_Value = ''CN'',
                rule_Policy = ''DIRECT'', rule_Group = [], rule_Comment = []\<rparr>]\<rparr>"

subsection \<open>Rule strings\<close>

definition ParseRuleString :: "string \<Rightarrow> (config_error, string list) res" where
  "ParseRuleString s =
     (case SplitN s '','' 3 of
        [p0, p1, p2] \<Rightarrow>
          (let ruleType = TrimSpace p0; val = TrimSpace p1; act = TrimSpace p2
           in if val = [] then Err (RuleEmptyValue s)
              else if act = [] then Err (RuleEmptyAction s)
              else
                let typeCheck =
                  (if ruleType = ''DOMAIN'' \<or> ruleType = ''DOMAIN-SUFFIX'' \<or> ruleType = ''DOMAIN-KEYWORD''
                   then None
                   else if ruleType = ''GEOIP'' then None
                   else if ruleType = ''IP-CIDR''
                   then (if ParseCIDR val = None then Some (RuleBadCIDR s val) else None)
                   else Some (RuleUnknownType s ruleType))
                in case typeCheck of
                     Some e \<Rightarrow> Err e
                   | None \<Rightarrow>
                       let upper = ToUpper act
                       in if upper \<noteq> ''DIRECT'' \<and> upper \<noteq> ''VPN'' \<and> \<not> HasPrefix upper ''DIRECT''
                          then Err (RuleBadAction s act)
                          else Ok [ruleType, val, act])
      | _ \<Rightarrow> Err (RuleFormat s))"

definition ToRuleString :: "RuleConfig \<Rightarrow> (config_error, string) res" where
  "ToRuleString r =
     (let ruleType = ToUpper (TrimSpace (rule_Type r));
          val = TrimSpace (rule_Value r);
          policy0 = ToUpper (TrimSpace (rule_Policy r));
          policy = (if policy0 = [] then ''DIRECT'' else policy0)
      in if policy \<noteq> ''DIRECT'' \<and> policy \<noteq> ''VPN'' then Err (BadPolicy policy)
         else
           let raw = ruleType @ '','' @ val @ '','' @ policy
           in case ParseRuleString raw of Inl e \<Rightarrow> Err e | Inr _ \<Rightarrow> Ok raw)"

definition RuleConfig_Validate :: "RuleConfig \<Rightarrow> config_error option" where
  "RuleConfig_Validate r = (case ToRuleString r of Inl e \<Rightarrow> Some e | Inr _ \<Rightarrow> None)"

fun EnabledStrings_from :: "nat \<Rightarrow> RuleList \<Rightarrow> (config_error, string list) res" where
  "EnabledStrings_from i [] = Ok []"
| "EnabledStrings_from i (r # rl) =
     (if \<not> rule_Enabled r then EnabledStrings_from (Suc i) rl
      else case ToRuleString r of
             Inl e \<Rightarrow> Err (InRule i e)
           | Inr s \<Rightarrow>
               (case EnabledStrings_from (Suc i) rl of Inl e \<Rightarrow> Err e | Inr ss \<Rightarrow> Ok (s # ss)))"

definition EnabledStrings :: "RuleList \<Rightarrow> (config_error, string list) res" where
  "EnabledStrings rl = EnabledStrings_from 0 rl"

definition RuleStrings :: "Config \<Rightarrow> (config_error, string list) res" where
  "RuleStrings c = EnabledStrings (Rules c)"

text \<open>
  \<^verbatim>\<open>RuleList.UnmarshalJSON\<close> after the objects are decoded: missing identifiers and policies are
  filled in, and every object is validated, disabled ones too.
\<close>

fun UnmarshalRules_from :: "nat \<Rightarrow> RuleList \<Rightarrow> (config_error, RuleList) res" where
  "UnmarshalRules_from i [] = Ok []"
| "UnmarshalRules_from i (r # rl) =
     (let r1 = (if ID r = [] then r\<lparr>ID := ''rule_'' @ Uitoa (i + 1)\<rparr> else r);
          r2 = (if rule_Policy r1 = [] then r1\<lparr>rule_Policy := ''DIRECT''\<rparr> else r1)
      in case RuleConfig_Validate r2 of
           Some e \<Rightarrow> Err (InRule i e)
         | None \<Rightarrow>
             (case UnmarshalRules_from (Suc i) rl of Inl e \<Rightarrow> Err e | Inr rs \<Rightarrow> Ok (r2 # rs)))"

definition UnmarshalRules :: "RuleList \<Rightarrow> (config_error, RuleList) res" where
  "UnmarshalRules objects = UnmarshalRules_from 0 objects"

subsection \<open>Loading\<close>

definition SOCKS5_Validate :: "SOCKS5Config \<Rightarrow> config_error option" where
  "SOCKS5_Validate c =
     (if \<not> Enabled c then None
      else if TrimSpace (BindHost c) = [] then Some EmptyBindHost
      else if Port c < 1 \<or> 65535 < Port c then Some BadPort
      else None)"

text \<open>A decoded file: the update of the plain fields, and the rule objects if it has any.\<close>

record overlay =
  set_fields :: "Config \<Rightarrow> Config"
  rule_objects :: "RuleList option"

text \<open>
  The update of the plain fields does not touch the rules; \<open>merge_fields\<close> keeps those of the
  defaults, which the objects of the file then replace.
\<close>

definition merge_fields :: "overlay \<Rightarrow> Config \<Rightarrow> Config" where
  "merge_fields ov c = (set_fields ov c)\<lparr>Rules := Rules c\<rparr>"

definition mergeAndValidate ::
    "string \<Rightarrow> Config \<Rightarrow> overlay option \<Rightarrow> (config_error, Config) res" where
  "mergeAndValidate goos cfg data =
     (case data of
        None \<Rightarrow> Err ParseFailed
      | Some ov \<Rightarrow>
          let merged =
            (case rule_objects ov of
               None \<Rightarrow> Ok (merge_fields ov cfg)
             | Some objs \<Rightarrow>
                 (case UnmarshalRules objs of
                    Inl e \<Rightarrow> Err e
                  | Inr rl \<Rightarrow> Ok ((merge_fields ov cfg)\<lparr>Rules := rl\<rparr>)))
          in case merged of
               Inl e \<Rightarrow> Err e
             | Inr c1 \<Rightarrow>
                 let c2 = (if goos = ''darwin'' \<and> \<not> HasPrefix (tun_Name (TUN c1)) ''utun''
                           then c1\<lparr>TUN := (TUN c1)\<lparr>tun_Name := ''utun''\<rparr>\<rparr> else c1)
                 in case SOCKS5_Validate (SOCKS5 c2) of
                      Some e \<Rightarrow> Err e
                    | None \<Rightarrow>
                        (case RuleStrings c2 of Inl e \<Rightarrow> Err e | Inr _ \<Rightarrow> Ok c2))"

definition LoadConfigFromBytes :: "string \<Rightarrow> overlay option \<Rightarrow> (config_error, Config) res" where
  "LoadConfigFromBytes goos data = mergeAndValidate goos (DefaultConfig goos) data"

text \<open>
  \<^verbatim>\<open>LoadConfig\<close>: the files are a map from paths to their decoded content, \<open>None\<close> for content
  that is not JSON; with no path given the two default names are tried in order.
\<close>

definition LoadConfig ::
    "string \<Rightarrow> (string \<rightharpoonup> overlay option) \<Rightarrow> string \<Rightarrow> (config_error, Config) res" where
  "LoadConfig goos files path =
     (let path' = (if path \<noteq> [] then path
                   else case find (\<lambda>p. files p \<noteq> None) [''config.json'', ''.ecorplink.json''] of
                          None \<Rightarrow> [] | Some p \<Rightarrow> p)
      in if path' = [] then Ok (DefaultConfig goos)
         else case files path' of
                None \<Rightarrow> Err (ReadFailed path')
              | Some data \<Rightarrow> mergeAndValidate goos (DefaultConfig goos) data)"

subsection \<open>Validated rules and the engine agree\<close>

text \<open>
  The configuration and the engine tokenise a rule string separately. Whatever the
  configuration accepts, the engine parses.
\<close>

lemma ToUpper_rule_type:
  "t \<in> {''DOMAIN'', ''DOMAIN-SUFFIX'', ''DOMAIN-KEYWORD'', ''GEOIP'', ''IP-CIDR''} \<Longrightarrow> ToUpper t = t"
  by (auto simp: string_eval)

lemma comma_ToUpper: "CHR '','' \<in> set (ToUpper s) \<longleftrightarrow> CHR '','' \<in> set s"
  by (metis (no_types, lifting) ToUpper_def image_iff image_set upper_char_eq_comma)

lemma parseAction_accepts:
  assumes "ToUpper act = ''DIRECT'' \<or> ToUpper act = ''VPN'' \<or> HasPrefix (ToUpper act) ''DIRECT''"
    and "TrimSpace act = act"
  shows "is_ok (parseAction act)"
  using assms by (auto simp: parseAction_def Let_def)

lemma ParseRuleString_types:
  assumes "ParseRuleString s = Ok toks"
  obtains p0 p1 p2 where "SplitN s '','' 3 = [p0, p1, p2]"
    and "TrimSpace p0 \<in> {''DOMAIN'', ''DOMAIN-SUFFIX'', ''DOMAIN-KEYWORD'', ''GEOIP'', ''IP-CIDR''}"
    and "TrimSpace p0 = ''IP-CIDR'' \<longrightarrow> ParseCIDR (TrimSpace p1) \<noteq> None"
    and "is_ok (parseAction (TrimSpace p2))"
proof -
  from assms obtain p0 p1 p2 where sp: "SplitN s '','' 3 = [p0, p1, p2]"
    by (auto simp: ParseRuleString_def split: list.splits)
  let ?u = "ToUpper (TrimSpace p2)"
  from assms sp have t:
    "TrimSpace p0 \<in> {''DOMAIN'', ''DOMAIN-SUFFIX'', ''DOMAIN-KEYWORD'', ''GEOIP'', ''IP-CIDR''}"
    and c: "TrimSpace p0 = ''IP-CIDR'' \<longrightarrow> ParseCIDR (TrimSpace p1) \<noteq> None"
    and a: "?u = ''DIRECT'' \<or> ?u = ''VPN'' \<or> HasPrefix ?u ''DIRECT''"
    by (auto simp: ParseRuleString_def Let_def split: if_splits)
  from a have "is_ok (parseAction (TrimSpace p2))" by (rule parseAction_accepts) simp
  with sp t c that show thesis by blast
qed

lemma ParseRuleString_parseRule:
  assumes "ParseRuleString s = Ok toks"
  shows "is_ok (parseRule s)"
proof -
  obtain p0 p1 p2 where sp: "SplitN s '','' 3 = [p0, p1, p2]"
    and t: "TrimSpace p0 \<in> {''DOMAIN'', ''DOMAIN-SUFFIX'', ''DOMAIN-KEYWORD'', ''GEOIP'', ''IP-CIDR''}"
    and c: "TrimSpace p0 = ''IP-CIDR'' \<longrightarrow> ParseCIDR (TrimSpace p1) \<noteq> None"
    and a: "is_ok (parseAction (TrimSpace p2))"
    using ParseRuleString_types [OF assms] .
  from a obtain act where act: "parseAction (TrimSpace p2) = Ok act" by (auto simp: is_ok_iff)
  from ToUpper_rule_type [OF t] t c act show ?thesis
    by (auto simp: parseRule_def sp Let_def)
qed

lemma ToRuleString_ParseRuleString:
  "ToRuleString r = Ok s \<Longrightarrow> \<exists>toks. ParseRuleString s = Ok toks"
  by (auto simp: ToRuleString_def Let_def split: if_splits sum.splits)

lemma ToRuleString_parseRule: "ToRuleString r = Ok s \<Longrightarrow> is_ok (parseRule s)"
  by (auto dest!: ToRuleString_ParseRuleString intro: ParseRuleString_parseRule)

lemma EnabledStrings_from_accepted:
  "EnabledStrings_from i rl = Ok ss \<Longrightarrow> \<forall>s\<in>set ss. is_ok (parseRule s)"
  by (induction i rl arbitrary: ss rule: EnabledStrings_from.induct)
     (auto split: if_splits sum.splits dest: ToRuleString_parseRule)

lemma EnabledStrings_NewEngine:
  assumes "EnabledStrings rl = Ok ss"
  shows "\<exists>e. NewEngine ss db = Ok e"
proof -
  from assms have "is_ok (map_res parseRule ss)"
    using EnabledStrings_from_accepted by (auto simp: EnabledStrings_def map_res_is_ok)
  then show ?thesis by (auto simp: is_ok_iff NewEngine_def)
qed

lemma UnmarshalRules_from_valid:
  "UnmarshalRules_from i objs = Ok rl \<Longrightarrow>
     length rl = length objs \<and>
     (\<forall>r\<in>set rl. RuleConfig_Validate r = None \<and> ID r \<noteq> [] \<and> rule_Policy r \<noteq> [])"
proof (induction objs arbitrary: i rl)
  case Nil
  then show ?case by simp
next
  case (Cons r objs)
  define r1 where "r1 = (if ID r = [] then r\<lparr>ID := ''rule_'' @ Uitoa (i + 1)\<rparr> else r)"
  define r2 where "r2 = (if rule_Policy r1 = [] then r1\<lparr>rule_Policy := ''DIRECT''\<rparr> else r1)"
  have ne: "ID r2 \<noteq> []" "rule_Policy r2 \<noteq> []" by (auto simp: r1_def r2_def)
  have step: "UnmarshalRules_from i (r # objs) =
      (case RuleConfig_Validate r2 of
           Some e \<Rightarrow> Err (InRule i e)
         | None \<Rightarrow>
             (case UnmarshalRules_from (Suc i) objs of Inl e \<Rightarrow> Err e | Inr rs \<Rightarrow> Ok (r2 # rs)))"
    by (simp only: UnmarshalRules_from.simps Let_def r1_def r2_def)
  from Cons.prems obtain rs where v: "RuleConfig_Validate r2 = None"
    and u: "UnmarshalRules_from (Suc i) objs = Ok rs" and rl: "rl = r2 # rs"
    unfolding step by (auto split: option.splits sum.splits)
  from Cons.IH [OF u] v ne rl show ?case by simp
qed

subsection \<open>Properties\<close>



text \<open>
  For a rule object whose type and value hold no comma, the compiled entry has the
  kind, the value and the policy of the object: VPN goes to the tunnel, an empty or DIRECT
  policy to the physical interface.
\<close>

theorem ToRuleString_faithful:
  assumes "ToRuleString r = Ok s"
    and "CHR '','' \<notin> set (rule_Type r)" and "CHR '','' \<notin> set (rule_Value r)"
    and "parseRule s = Ok e"
  shows "action e = (if ToUpper (TrimSpace (rule_Policy r)) = ''VPN'' then VPN_action else DIRECT_action)
    \<and> (kind e = kindDomainSuffix \<longleftrightarrow> ToUpper (TrimSpace (rule_Type r)) = ''DOMAIN-SUFFIX'')
    \<and> (kind e = kindIPCIDR \<longrightarrow> map_option snd (ParseCIDR (TrimSpace (rule_Value r))) = network e)
    \<and> (kind e = kindGeoIP \<longrightarrow> rule_value e = ToUpper (TrimSpace (rule_Value r)))
    \<and> (kind e \<notin> {kindIPCIDR, kindGeoIP} \<longrightarrow> rule_value e = ToLower (TrimSpace (rule_Value r)))"
proof -
  define t v where "t = ToUpper (TrimSpace (rule_Type r))" and "v = TrimSpace (rule_Value r)"
  define p0 where "p0 = ToUpper (TrimSpace (rule_Policy r))"
  define p where "p = (if p0 = [] then ''DIRECT'' else p0)"
  from assms(1) have s: "s = t @ '','' @ v @ '','' @ p" and p: "p = ''DIRECT'' \<or> p = ''VPN''"
    by (auto simp: ToRuleString_def t_def v_def p0_def p_def Let_def split: if_splits sum.splits)
  have ct: "CHR '','' \<notin> set t"
    using assms(2) set_TrimSpace [of "rule_Type r"] by (auto simp: t_def comma_ToUpper)
  have cv: "CHR '','' \<notin> set v"
    using assms(3) set_TrimSpace [of "rule_Value r"] by (auto simp: v_def)
  have pt: "parseAction (TrimSpace p) = Ok (if p0 = ''VPN'' then VPN_action else DIRECT_action)"
  proof -
    have "TrimSpace ''DIRECT'' = ''DIRECT''" "TrimSpace ''VPN'' = ''VPN''"
      by (simp_all add: string_eval)
    with p show ?thesis by (auto simp: p_def split: if_splits)
  qed
  have tt: "TrimSpace t = t" "ToUpper t = t" "TrimSpace v = v"
    by (simp_all add: t_def v_def TrimSpace_ToUpper)
  from assms(4) show ?thesis
    unfolding s parseRule_three [OF ct cv, of p]
    unfolding t_def [symmetric] v_def [symmetric] p0_def [symmetric]
    by (auto simp: pt tt Let_def split: if_splits option.splits)
qed

theorem ToRuleString_faithful_witness:
  "action \<lparr>kind = kindDomain, rule_value = ''a'', network = None, action = VPN_action\<rparr> = VPN_action"
proof -
  let ?r = "\<lparr>ID = [], rule_Enabled = True, rule_Type = ''domain'', rule_Value = '' A '',
      rule_Policy = ''vpn'', rule_Group = [], rule_Comment = []\<rparr>"
  let ?e = "\<lparr>kind = kindDomain, rule_value = ''a'', network = None, action = VPN_action\<rparr>"
  have 1: "ToRuleString ?r = Ok ''DOMAIN,A,VPN''"
    by (simp add: ToRuleString_def ParseRuleString_def string_eval Let_def)
  have 2: "parseRule ''DOMAIN,A,VPN'' = Ok ?e"
    by (simp add: parseRule_def string_eval Let_def)
  have 3: "ToUpper (TrimSpace (rule_Policy ?r)) = ''VPN''" by (simp add: string_eval)
  show ?thesis using ToRuleString_faithful [OF 1 _ _ 2] 3 by simp
qed

text \<open>
  A comma in the value defeats the policy. The object \<open>DOMAIN\<close> / \<open>x,DIRECT\<close> / \<open>VPN\<close>
  passes validation and is compiled into a DIRECT rule for \<open>x\<close>.
\<close>

theorem comma_value_turns_VPN_into_DIRECT:
  "\<exists>s e. ToRuleString \<lparr>ID = [], rule_Enabled = True, rule_Type = ''DOMAIN'', rule_Value = ''x,DIRECT'',
      rule_Policy = ''VPN'', rule_Group = [], rule_Comment = []\<rparr> = Ok s
    \<and> parseRule s = Ok e \<and> rule_value e = ''x'' \<and> Type (action e) = ActionDirect"
proof -
  have "ToRuleString \<lparr>ID = [], rule_Enabled = True, rule_Type = ''DOMAIN'', rule_Value = ''x,DIRECT'',
      rule_Policy = ''VPN'', rule_Group = [], rule_Comment = []\<rparr> = Ok ''DOMAIN,x,DIRECT,VPN''"
    by (simp add: ToRuleString_def ParseRuleString_def string_eval Let_def)
  moreover have "parseRule ''DOMAIN,x,DIRECT,VPN'' =
      Ok \<lparr>kind = kindDomain, rule_value = ''x'', network = None, action = DIRECT_action\<rparr>"
    by (simp add: parseRule_def parseAction_def string_eval Let_def)
  ultimately show ?thesis by (intro exI conjI) (assumption | simp)+
qed

text \<open>
  A list of rule objects read from a file has one rule per object, each valid, with
  an identifier and a policy.
\<close>

theorem UnmarshalRules_valid:
  assumes "UnmarshalRules objs = Ok rl"
  shows "length rl = length objs \<and>
    list_all (\<lambda>r. RuleConfig_Validate r = None \<and> ID r \<noteq> [] \<and> rule_Policy r \<noteq> []) rl"
  using UnmarshalRules_from_valid [of 0 objs rl] assms by (simp add: UnmarshalRules_def list_all_iff)

theorem UnmarshalRules_valid_witness:
  "\<exists>rl. UnmarshalRules [\<lparr>ID = [], rule_Enabled = False, rule_Type = ''DOMAIN'', rule_Value = ''a'',
       rule_Policy = [], rule_Group = [], rule_Comment = []\<rparr>] = Ok rl
     \<and> map ID rl = [''rule_1''] \<and> length rl = 1"
proof -
  let ?o = "[\<lparr>ID = [], rule_Enabled = False, rule_Type = ''DOMAIN'', rule_Value = ''a'',
       rule_Policy = [], rule_Group = [], rule_Comment = []\<rparr>]"
  let ?rl = "[\<lparr>ID = ''rule_1'', rule_Enabled = False, rule_Type = ''DOMAIN'', rule_Value = ''a'',
       rule_Policy = ''DIRECT'', rule_Group = [], rule_Comment = []\<rparr>]"
  have "UnmarshalRules ?o = Ok ?rl"
    by (simp add: UnmarshalRules_def RuleConfig_Validate_def ToRuleString_def ParseRuleString_def
        string_eval Let_def Uitoa.simps [of "Suc 0"] digit_char_def)
  with UnmarshalRules_valid [OF this] show ?thesis by auto
qed

end
