(* ===== verification/Byte_Order.thy ===== *)
theory Byte_Order
  imports Go_Net
begin

section \<open>Little-endian integers\<close>

text \<open>
  The parts of \<^verbatim>\<open>encoding/binary\<close> that the packet formats of wireguard-go and the route messages use, with the round trips of 64-bit integers.
\<close>

definition LE_Uint32 :: "byte list \<Rightarrow> 32 word" where
  "LE_Uint32 b =
     ucast (b ! 0) OR push_bit 8 (ucast (b ! 1)) OR push_bit 16 (ucast (b ! 2)) OR push_bit 24 (ucast (b ! 3))"

definition LE_PutUint32 :: "32 word \<Rightarrow> byte list" where
  "LE_PutUint32 n = [ucast n, ucast (drop_bit 8 n), ucast (drop_bit 16 n), ucast (drop_bit 24 n)]"

definition LE_PutUint64 :: "64 word \<Rightarrow> byte list" where
  "LE_PutUint64 w = map (\<lambda>i. ucast (drop_bit (8 * i) w)) [0..<8]"

definition LE_Uint64 :: "byte list \<Rightarrow> 64 word" where
  "LE_Uint64 b = of_nat (horner_sum unat 256 (take 8 b))"

definition BE_field16 :: "byte list \<Rightarrow> 16 word" where
  "BE_field16 b = push_bit 8 (ucast (b ! 0)) OR ucast (b ! 1)"

lemma horner_bound: "horner_sum unat 256 (b :: byte list) < 256 ^ length b"
proof (induction b)
  case (Cons x b)
  have "unat x < 256" using unsigned_less [of x, where 'a = nat] by simp
  with Cons show ?case by simp
qed simp

lemma horner_digits: "n < 256 ^ k \<Longrightarrow> horner_sum id 256 (map (\<lambda>i. n div 256 ^ i mod 256) [0..<k]) = (n :: nat)"
proof (induction k arbitrary: n)
  case (Suc k)
  have "n div 256 < 256 ^ k" using Suc.prems by (simp add: less_mult_imp_div_less mult.commute)
  from Suc.IH [OF this] show ?case
    by (simp add: upt_conv_Cons map_Suc_upt [symmetric] comp_def div_mult2_eq del: upt_Suc)
qed simp

lemma horner_map: "horner_sum unat c xs = horner_sum id c (map unat xs)"
  by (induction xs) simp_all

lemma horner_PutUint64: "horner_sum unat 256 (LE_PutUint64 w) = unat w"
proof -
  have "unat (ucast (drop_bit (8 * i) w) :: byte) = unat w div 256 ^ i mod 256" for i
    by (simp add: unsigned_ucast_eq unsigned_take_bit_eq unsigned_drop_bit_eq)
      (use unsigned_less [of w, where 'a = nat] in \<open>simp add: take_bit_eq_mod drop_bit_eq_div power_mult\<close>)
  then have "map unat (LE_PutUint64 w) = map (\<lambda>i. unat w div 256 ^ i mod 256) [0..<8]"
    by (simp add: LE_PutUint64_def)
  moreover have "unat w < 256 ^ 8" using unsigned_less [of w, where 'a = nat] by simp
  ultimately show ?thesis using horner_digits [of "unat w" 8] horner_map [of 256 "LE_PutUint64 w"] by simp
qed

lemma length_LE_PutUint64 [simp]: "length (LE_PutUint64 w) = 8"
  by (simp add: LE_PutUint64_def)

lemma LE_Uint64_Put [simp]: "LE_Uint64 (LE_PutUint64 w @ xs) = w"
  by (simp add: LE_Uint64_def horner_PutUint64)

end
