(* ===== verification/Route_Table.thy ===== *)
theory Route_Table
  imports Byte_Order "HOL-Library.Multiset"
begin

section \<open>The monitored system route table (internal/routetable)\<close>

text \<open>
  \<^verbatim>\<open>table.go\<close>: entries sorted by descending prefix length and scanned for the first that contains
  the address; \<^verbatim>\<open>routetable.go\<close>: the cache with its time to live, its invalidation and its refresh;
  \<^verbatim>\<open>fetch_linux.go\<close>, \<^verbatim>\<open>fetch_darwin.go\<close>, \<^verbatim>\<open>fetch_windows.go\<close>: how the entries are built from what the
  operating system lists. \<^verbatim>\<open>sort.Slice\<close> promises a sorted permutation and nothing about equal
  elements: it is a parameter with that contract (locale \<open>slice_sort\<close>), which the insertion sort the
  Go library runs on short slices satisfies.
\<close>

subsection \<open>The table\<close>

record Entry =
  Dest :: ipnet
  Gateway :: ip
  Iface :: string

type_synonym Table = "Entry list"

definition prefix_ones :: "Entry \<Rightarrow> nat" where
  "prefix_ones e = fst (Mask_Size (Mask (Dest e)))"

text \<open>The less function of the call of \<^verbatim>\<open>sort.Slice\<close>.\<close>

definition entry_less :: "Entry \<Rightarrow> Entry \<Rightarrow> bool" where
  "entry_less a b = (prefix_ones a > prefix_ones b)"

type_synonym sorter = "(Entry \<Rightarrow> Entry \<Rightarrow> bool) \<Rightarrow> Entry list \<Rightarrow> Entry list"

definition replace :: "sorter \<Rightarrow> Table \<Rightarrow> Entry list \<Rightarrow> Table" where
  "replace sort_Slice t entries = sort_Slice entry_less entries"

datatype table_error = NoRoute ip

fun Table_Lookup :: "Table \<Rightarrow> ip \<Rightarrow> (table_error, string \<times> ip) res" where
  "Table_Lookup [] ip = Err (NoRoute ip)"
| "Table_Lookup (e # t) ip =
     (if IPNet_Contains (Dest e) ip then Ok (Iface e, Gateway e) else Table_Lookup t ip)"

text \<open>The insertion sort of Go's \<^verbatim>\<open>sort\<close> package: each element moves left past greater ones.\<close>

fun insert_back :: "('a \<Rightarrow> 'a \<Rightarrow> bool) \<Rightarrow> 'a \<Rightarrow> 'a list \<Rightarrow> 'a list" where
  "insert_back lt x [] = [x]"
| "insert_back lt x (y # ys) = (if lt x y then y # insert_back lt x ys else x # y # ys)"

definition insertionSort :: "('a \<Rightarrow> 'a \<Rightarrow> bool) \<Rightarrow> 'a list \<Rightarrow> 'a list" where
  "insertionSort lt xs = rev (fold (insert_back lt) xs [])"

subsection \<open>The cached table\<close>

text \<open>
  Times and durations are nanoseconds. The zero \<^verbatim>\<open>time.Time\<close> is \<open>None\<close>: the time elapsed since it
  saturates at the largest duration.
\<close>

record RouteTable =
  skipIface :: string
  ttl :: int
  table :: Table
  lastFetch :: "int option"
  watching :: bool
  onRefresh :: bool

definition maxDuration :: int where
  "maxDuration = 2 ^ 63 - 1"

definition Since :: "int \<Rightarrow> int option \<Rightarrow> int" where
  "Since now t = (case t of None \<Rightarrow> maxDuration | Some x \<Rightarrow> min maxDuration (now - x))"

type_synonym fetcher = "string \<Rightarrow> (string, Entry list) res"

definition New_RouteTable :: "string \<Rightarrow> int \<Rightarrow> RouteTable" where
  "New_RouteTable skip t =
     \<lparr>skipIface = skip, ttl = t, table = [], lastFetch = None, watching = False, onRefresh = False\<rparr>"

definition OnRefresh :: "RouteTable \<Rightarrow> RouteTable" where
  "OnRefresh rt = rt\<lparr>onRefresh := True\<rparr>"

definition SetSkipIface :: "RouteTable \<Rightarrow> string \<Rightarrow> RouteTable" where
  "SetSkipIface rt name = rt\<lparr>skipIface := name, lastFetch := None\<rparr>"

text \<open>\<open>refresh\<close> returns the error, the table and whether the callback ran.\<close>

definition refresh ::
    "sorter \<Rightarrow> fetcher \<Rightarrow> int \<Rightarrow> RouteTable \<Rightarrow> string option \<times> RouteTable \<times> bool" where
  "refresh srt fetchEntries now rt =
     (if Since now (lastFetch rt) < ttl rt then (None, rt, False)
      else case fetchEntries (skipIface rt) of
             Inl err \<Rightarrow> (Some err, rt, False)
           | Inr entries \<Rightarrow>
               (None, rt\<lparr>table := replace srt (table rt) entries, lastFetch := Some now\<rparr>, onRefresh rt))"

definition invalidate :: "RouteTable \<Rightarrow> RouteTable" where
  "invalidate rt = rt\<lparr>lastFetch := None\<rparr>"

text \<open>The callback given to the operating system's watcher.\<close>

definition route_event :: "sorter \<Rightarrow> fetcher \<Rightarrow> int \<Rightarrow> RouteTable \<Rightarrow> RouteTable" where
  "route_event srt fetch now rt = fst (snd (refresh srt fetch now (invalidate rt)))"

definition Start :: "sorter \<Rightarrow> fetcher \<Rightarrow> bool \<Rightarrow> int \<Rightarrow> RouteTable \<Rightarrow> string option \<times> RouteTable" where
  "Start srt fetch watcher_ok now rt =
     (case refresh srt fetch now rt of
        (Some err, rt', _) \<Rightarrow> (Some err, rt')
      | (None, rt', _) \<Rightarrow> (None, if watcher_ok then rt'\<lparr>watching := True\<rparr> else rt'))"

definition Stop :: "RouteTable \<Rightarrow> RouteTable" where
  "Stop rt = (if watching rt then rt\<lparr>watching := False\<rparr> else rt)"

definition current :: "sorter \<Rightarrow> fetcher \<Rightarrow> int \<Rightarrow> RouteTable \<Rightarrow> RouteTable" where
  "current srt fetch now rt =
     (if ttl rt \<le> Since now (lastFetch rt) then fst (snd (refresh srt fetch now rt)) else rt)"

definition RouteTable_Lookup ::
    "sorter \<Rightarrow> fetcher \<Rightarrow> int \<Rightarrow> RouteTable \<Rightarrow> ip \<Rightarrow> (table_error, string \<times> ip) res \<times> RouteTable" where
  "RouteTable_Lookup srt fetch now rt ip =
     (let rt' = current srt fetch now rt in (Table_Lookup (table rt') ip, rt'))"

definition RouteTable_Entries ::
    "sorter \<Rightarrow> fetcher \<Rightarrow> int \<Rightarrow> RouteTable \<Rightarrow> Entry list \<times> RouteTable" where
  "RouteTable_Entries srt fetch now rt = (let rt' = current srt fetch now rt in (table rt', rt'))"

subsection \<open>Reading the operating system's tables\<close>

text \<open>
  Linux: the netlink messages as \<^verbatim>\<open>syscall.ParseNetlinkMessage\<close> and
  \<^verbatim>\<open>syscall.ParseNetlinkRouteAttr\<close> return them. The interface index is read from four bytes; the
  library function panics on fewer.
\<close>

record netlink_msg =
  Header_Type :: nat
  Data_len :: nat
  rtm_Family :: nat
  rtm_Dst_len :: nat
  route_attrs :: "(nat \<times> byte list) list option"

abbreviation (input) RTM_NEWROUTE :: nat where "RTM_NEWROUTE \<equiv> 24"
abbreviation (input) SizeofRtMsg :: nat where "SizeofRtMsg \<equiv> 12"
abbreviation (input) AF_INET :: nat where "AF_INET \<equiv> 2"
abbreviation (input) RTA_DST :: nat where "RTA_DST \<equiv> 1"
abbreviation (input) RTA_OIF :: nat where "RTA_OIF \<equiv> 4"
abbreviation (input) RTA_GATEWAY :: nat where "RTA_GATEWAY \<equiv> 5"

record rt_attrs =
  ra_dst :: ip
  ra_gw :: ip
  ra_ifIndex :: int

fun read_attrs :: "(nat \<times> byte list) list \<Rightarrow> rt_attrs \<Rightarrow> rt_attrs option" where
  "read_attrs [] r = Some r"
| "read_attrs ((ty, v) # as) r =
     (if ty = RTA_DST then read_attrs as (r\<lparr>ra_dst := v\<rparr>)
      else if ty = RTA_GATEWAY then read_attrs as (r\<lparr>ra_gw := v\<rparr>)
      else if ty = RTA_OIF then
        (if length v < 4 then None else read_attrs as (r\<lparr>ra_ifIndex := int (unat (LE_Uint32 v))\<rparr>))
      else read_attrs as r)"

definition IPv4zero :: ip where
  "IPv4zero = IPv4 0 0 0 0"

fun linux_entries ::
    "(int \<rightharpoonup> string) \<Rightarrow> string \<Rightarrow> netlink_msg list \<Rightarrow> Entry list option" where
  "linux_entries InterfaceByIndex skip [] = Some []"
| "linux_entries InterfaceByIndex skip (msg # msgs) =
     (let rest = linux_entries InterfaceByIndex skip msgs
      in if Header_Type msg \<noteq> RTM_NEWROUTE \<or> Data_len msg < SizeofRtMsg \<or> rtm_Family msg \<noteq> AF_INET
         then rest
         else case route_attrs msg of
                None \<Rightarrow> rest
              | Some attrs \<Rightarrow>
                  (case read_attrs attrs \<lparr>ra_dst = [], ra_gw = [], ra_ifIndex = 0\<rparr> of
                     None \<Rightarrow> None
                   | Some r \<Rightarrow>
                       (case InterfaceByIndex (ra_ifIndex r) of
                          None \<Rightarrow> rest
                        | Some name \<Rightarrow>
                            if name = skip then rest
                            else
                              let dst = (if ra_dst r = [] then IPv4zero else ra_dst r);
                                  m = CIDRMask (int (rtm_Dst_len msg)) 32;
                                  e = \<lparr>Dest = \<lparr>IP = To4 (IP_Mask dst m), Mask = m\<rparr>,
                                       Gateway = ra_gw r, Iface = name\<rparr>
                              in map_option (\<lambda>es. e # es) rest)))"

definition fetchEntries_linux ::
    "(string, netlink_msg list) res \<Rightarrow> (int \<rightharpoonup> string) \<Rightarrow> fetcher" where
  "fetchEntries_linux rib InterfaceByIndex skip =
     (case rib of
        Inl err \<Rightarrow> Err err
      | Inr msgs \<Rightarrow>
          (case linux_entries InterfaceByIndex skip msgs of
             None \<Rightarrow> Err ''panic: index out of range'' | Some es \<Rightarrow> Ok es))"

text \<open>Darwin: route messages with their addresses by position; only IPv4 addresses are read.\<close>

datatype route_addr = Inet4Addr "byte list" | OtherAddr

record route_msg =
  rm_Flags :: nat
  rm_Index :: int
  rm_Addrs :: "route_addr option list"

abbreviation (input) RTF_UP :: nat where "RTF_UP \<equiv> 1"

definition addr_at :: "route_addr option list \<Rightarrow> nat \<Rightarrow> byte list" where
  "addr_at as i =
     (if i < length as then (case as ! i of Some (Inet4Addr b) \<Rightarrow> b | _ \<Rightarrow> []) else [])"

definition darwin_entry :: "(int \<rightharpoonup> string) \<Rightarrow> string \<Rightarrow> route_msg \<Rightarrow> Entry option" where
  "darwin_entry ifaceByIndex skip rm =
     (if \<not> bit (rm_Flags rm) 0 then None
      else
        let ifName = (case ifaceByIndex (rm_Index rm) of None \<Rightarrow> [] | Some n \<Rightarrow> n)
        in if ifName = [] \<or> ifName = skip then None
           else
             let dst = addr_at (rm_Addrs rm) 0; gw = addr_at (rm_Addrs rm) 1;
                 m = addr_at (rm_Addrs rm) 2
             in if dst = [] then None
                else let m' = (if m = [] then replicate 4 255 else m)
                     in Some \<lparr>Dest = \<lparr>IP = IP_Mask dst m', Mask = m'\<rparr>, Gateway = gw, Iface = ifName\<rparr>)"

text \<open>Messages that are not route messages are \<open>None\<close>; a later interface of the same index wins.\<close>

definition fetchEntries_darwin ::
    "(string, route_msg option list) res \<Rightarrow> (int \<times> string) list \<Rightarrow> fetcher" where
  "fetchEntries_darwin rib ifaces skip =
     (case rib of
        Inl err \<Rightarrow> Err err
      | Inr msgs \<Rightarrow>
          Ok (List.map_filter (\<lambda>msg. case msg of None \<Rightarrow> None
                | Some rm \<Rightarrow> darwin_entry (map_of (rev ifaces)) skip rm) msgs))"

text \<open>Windows: the rows of the forwarding table; an address of another family reads as zero.\<close>

record forward_row =
  row_InterfaceIndex :: int
  row_PrefixLength :: nat
  row_Prefix :: "nat \<times> byte list"
  row_NextHop :: "nat \<times> byte list"

definition raw_inet :: "nat \<times> byte list \<Rightarrow> byte list" where
  "raw_inet raw = (if fst raw = AF_INET then snd raw else [0, 0, 0, 0])"

definition windows_entry :: "(int \<rightharpoonup> string) \<Rightarrow> string \<Rightarrow> forward_row \<Rightarrow> Entry option" where
  "windows_entry InterfaceByIndex skip row =
     (case InterfaceByIndex (row_InterfaceIndex row) of
        None \<Rightarrow> None
      | Some name \<Rightarrow>
          if name = skip then None
          else let m = CIDRMask (int (row_PrefixLength row)) 32
               in Some \<lparr>Dest = \<lparr>IP = IP_Mask (raw_inet (row_Prefix row)) m, Mask = m\<rparr>,
                        Gateway = raw_inet (row_NextHop row), Iface = name\<rparr>)"

definition fetchEntries_windows ::
    "(string, forward_row list) res \<Rightarrow> (int \<rightharpoonup> string) \<Rightarrow> fetcher" where
  "fetchEntries_windows rows InterfaceByIndex skip =
     (case rows of
        Inl err \<Rightarrow> Err err
      | Inr rs \<Rightarrow> Ok (List.map_filter (windows_entry InterfaceByIndex skip) rs))"

subsection \<open>The contract of sorting\<close>

locale slice_sort =
  fixes srt :: sorter
  assumes srt_mset: "mset (srt lt xs) = mset xs"
    and srt_sorted: "sorted_wrt (\<lambda>a b. \<not> entry_less b a) (srt entry_less xs)"
begin

lemma set_srt [simp]: "set (srt lt xs) = set xs"
  by (metis srt_mset set_mset_mset)

end

lemma Table_Lookup_first:
  "Table_Lookup t ip = Ok r \<Longrightarrow>
   \<exists>us e vs. t = us @ e # vs \<and> (\<forall>u\<in>set us. \<not> IPNet_Contains (Dest u) ip) \<and>
     IPNet_Contains (Dest e) ip \<and> r = (Iface e, Gateway e)"
proof (induction t)
  case (Cons x t)
  show ?case
  proof (cases "IPNet_Contains (Dest x) ip")
    case True
    with Cons.prems show ?thesis by (intro exI [of _ "[]"]) auto
  next
    case False
    with Cons obtain us e vs where "t = us @ e # vs" "\<forall>u\<in>set us. \<not> IPNet_Contains (Dest u) ip"
      "IPNet_Contains (Dest e) ip" "r = (Iface e, Gateway e)" by auto
    with False show ?thesis by (intro exI [of _ "x # us"]) auto
  qed
qed simp

lemma Table_Lookup_Err: "Table_Lookup t ip = Err x \<longleftrightarrow> x = NoRoute ip \<and> (\<forall>e\<in>set t. \<not> IPNet_Contains (Dest e) ip)"
  by (induction t) auto

context slice_sort
begin

lemma replace_longest:
  assumes "Table_Lookup (replace srt t es) ip = Ok r"
  shows "\<exists>e\<in>set es. IPNet_Contains (Dest e) ip \<and> r = (Iface e, Gateway e) \<and>
    (\<forall>e'\<in>set es. IPNet_Contains (Dest e') ip \<longrightarrow> prefix_ones e' \<le> prefix_ones e)"
proof -
  obtain us e vs where s: "srt entry_less es = us @ e # vs"
    and us: "\<forall>u\<in>set us. \<not> IPNet_Contains (Dest u) ip"
    and e: "IPNet_Contains (Dest e) ip" "r = (Iface e, Gateway e)"
    using Table_Lookup_first [OF assms] by (auto simp: replace_def)
  have mem: "set es = set (us @ e # vs)" using s by (metis set_srt)
  have "prefix_ones e' \<le> prefix_ones e" if "e' \<in> set es" "IPNet_Contains (Dest e') ip" for e'
  proof -
    from that us mem have "e' = e \<or> e' \<in> set vs" by auto
    moreover have "\<forall>v\<in>set vs. \<not> entry_less v e"
      using srt_sorted [of es] by (simp add: s sorted_wrt_append)
    ultimately show ?thesis by (auto simp: entry_less_def not_less)
  qed
  with e mem show ?thesis by auto
qed

lemma replace_no_route:
  "Table_Lookup (replace srt t es) ip = Err (NoRoute ip) \<longleftrightarrow> (\<forall>e\<in>set es. \<not> IPNet_Contains (Dest e) ip)"
  by (simp add: Table_Lookup_Err replace_def)

end

subsection \<open>The insertion sort meets the contract\<close>

lemma mset_insert_back [simp]: "mset (insert_back lt x ys) = add_mset x (mset ys)"
  by (induction ys) auto

lemma mset_fold_insert_back: "mset (fold (insert_back lt) xs acc) = mset xs + mset acc"
  by (induction xs arbitrary: acc) auto

lemma insert_back_sorted:
  assumes "sorted_wrt (\<lambda>a b. \<not> entry_less a b) ys"
  shows "sorted_wrt (\<lambda>a b. \<not> entry_less a b) (insert_back entry_less x ys)"
  using assms
proof (induction ys)
  case (Cons y ys)
  have set: "set (insert_back entry_less x ys) = insert x (set ys)"
    by (metis mset_insert_back set_mset_add_mset_insert set_mset_mset)
  show ?case
  proof (cases "entry_less x y")
    case True
    then have "\<not> entry_less y x" by (simp add: entry_less_def)
    with True Cons set show ?thesis by auto
  next
    case False
    with Cons.prems show ?thesis by (auto simp: entry_less_def not_less intro: order_trans)
  qed
qed simp

lemma fold_insert_back_sorted:
  "sorted_wrt (\<lambda>a b. \<not> entry_less a b) acc \<Longrightarrow>
   sorted_wrt (\<lambda>a b. \<not> entry_less a b) (fold (insert_back entry_less) xs acc)"
  by (induction xs arbitrary: acc) (simp_all add: insert_back_sorted)

interpretation ins_sort: slice_sort insertionSort
proof
  fix lt :: "Entry \<Rightarrow> Entry \<Rightarrow> bool" and xs :: "Entry list"
  show "mset (insertionSort lt xs) = mset xs"
    by (simp add: insertionSort_def mset_fold_insert_back)
  show "sorted_wrt (\<lambda>a b. \<not> entry_less b a) (insertionSort entry_less xs)"
    by (simp add: insertionSort_def sorted_wrt_rev fold_insert_back_sorted)
qed

subsection \<open>The excluded interface\<close>

text \<open>
  A fetcher leaves the excluded interface out. The cache then never selects it, except
  in the window where its name was changed and the tables could not be read again.
\<close>

definition rt_ok :: "RouteTable \<Rightarrow> bool" where
  "rt_ok rt \<longleftrightarrow> (lastFetch rt \<noteq> None \<longrightarrow> (\<forall>e\<in>set (table rt). Iface e \<noteq> skipIface rt))"

locale route_source = slice_sort +
  fixes fetch :: fetcher
  assumes fetch_skips: "fetch skip = Ok es \<Longrightarrow> e \<in> set es \<Longrightarrow> Iface e \<noteq> skip"
begin

lemma refresh_ok:
  assumes "rt_ok rt"
  shows "rt_ok (fst (snd (refresh srt fetch now rt)))"
proof (cases "fetch (skipIface rt)")
  case (Inl err)
  then show ?thesis using assms by (simp add: refresh_def)
next
  case (Inr es)
  then show ?thesis using assms fetch_skips [OF Inr] by (simp add: refresh_def rt_ok_def replace_def)
qed

lemma current_ok: "rt_ok rt \<Longrightarrow> rt_ok (current srt fetch now rt)"
  by (simp add: current_def refresh_ok)

lemma route_event_ok: "rt_ok rt \<Longrightarrow> rt_ok (route_event srt fetch now rt)"
  using refresh_ok [of "invalidate rt"] by (simp add: route_event_def invalidate_def rt_ok_def)

lemma Start_ok: "rt_ok rt \<Longrightarrow> rt_ok (snd (Start srt fetch w now rt))"
  using refresh_ok [of rt now] by (auto simp: Start_def rt_ok_def split: prod.splits option.splits)

lemma Lookup_not_skip:
  assumes "rt_ok rt" "ttl rt \<le> maxDuration" "fetch (skipIface rt) = Ok es"
    "fst (RouteTable_Lookup srt fetch now rt ip) = Ok (i, g)"
  shows "i \<noteq> skipIface rt"
proof -
  let ?rt = "current srt fetch now rt"
  have skip: "skipIface ?rt = skipIface rt"
    by (simp add: current_def refresh_def assms(3))
  have "lastFetch ?rt \<noteq> None"
    using assms(2,3) by (cases "lastFetch rt") (auto simp: current_def refresh_def Since_def)
  with current_ok [OF assms(1), of now] have "\<forall>e\<in>set (table ?rt). Iface e \<noteq> skipIface rt"
    by (simp add: rt_ok_def skip)
  moreover obtain us e vs where "table ?rt = us @ e # vs" "(i, g) = (Iface e, Gateway e)"
    using Table_Lookup_first assms(4) by (fastforce simp: RouteTable_Lookup_def Let_def)
  ultimately show ?thesis by auto
qed

end

lemma linux_entries_skip:
  "linux_entries ifs skip msgs = Some es \<Longrightarrow> e \<in> set es \<Longrightarrow> Iface e \<noteq> skip"
  by (induction msgs arbitrary: es)
     (auto simp: Let_def split: if_splits option.splits)

lemma map_filter_member: "y \<in> set (List.map_filter f xs) \<longleftrightarrow> (\<exists>x\<in>set xs. f x = Some y)"
  by (induction xs) (auto simp: List.map_filter_simps split: option.splits)

interpretation linux_source: route_source insertionSort "fetchEntries_linux rib ifs" for rib ifs
  by unfold_locales
     (auto simp: fetchEntries_linux_def dest: linux_entries_skip split: sum.splits option.splits)

lemma darwin_entry_skip: "darwin_entry ifs skip rm = Some e \<Longrightarrow> Iface e \<noteq> skip"
  by (auto simp: darwin_entry_def Let_def split: if_splits)

lemma windows_entry_skip: "windows_entry ifs skip row = Some e \<Longrightarrow> Iface e \<noteq> skip"
  by (auto simp: windows_entry_def Let_def split: if_splits option.splits)

interpretation darwin_source: route_source insertionSort "fetchEntries_darwin rib ifaces" for rib ifaces
proof
  fix skip es e
  assume "fetchEntries_darwin rib ifaces skip = Ok es" "e \<in> set es"
  then obtain rm where "darwin_entry (map_of (rev ifaces)) skip rm = Some e"
    by (auto simp: fetchEntries_darwin_def map_filter_member split: sum.splits option.split_asm)
  then show "Iface e \<noteq> skip" by (rule darwin_entry_skip)
qed

interpretation windows_source: route_source insertionSort "fetchEntries_windows rows ifs" for rows ifs
proof
  fix skip es e
  assume "fetchEntries_windows rows ifs skip = Ok es" "e \<in> set es"
  then obtain row where "windows_entry ifs skip row = Some e"
    by (auto simp: fetchEntries_windows_def map_filter_member split: sum.splits)
  then show "Iface e \<noteq> skip" by (rule windows_entry_skip)
qed

text \<open>The life of a route table on any of the three systems.\<close>

inductive os_fetch :: "fetcher \<Rightarrow> bool" where
  "os_fetch (fetchEntries_linux rib ifs)"
| "os_fetch (fetchEntries_darwin drib ifaces)"
| "os_fetch (fetchEntries_windows rows ifs)"

lemma os_fetch_source: "slice_sort srt \<Longrightarrow> os_fetch f \<Longrightarrow> route_source srt f"
  by (auto elim!: os_fetch.cases intro!: route_source.intro route_source_axioms.intro
      dest: linux_source.fetch_skips darwin_source.fetch_skips windows_source.fetch_skips)

inductive rt_reach :: "sorter \<Rightarrow> RouteTable \<Rightarrow> bool" for srt where
  rt_new: "rt_reach srt (New_RouteTable skip t)"
| rt_on_refresh: "rt_reach srt rt \<Longrightarrow> rt_reach srt (OnRefresh rt)"
| rt_start: "rt_reach srt rt \<Longrightarrow> os_fetch f \<Longrightarrow> rt_reach srt (snd (Start srt f w now rt))"
| rt_stop: "rt_reach srt rt \<Longrightarrow> rt_reach srt (Stop rt)"
| rt_skip: "rt_reach srt rt \<Longrightarrow> rt_reach srt (SetSkipIface rt name)"
| rt_event: "rt_reach srt rt \<Longrightarrow> os_fetch f \<Longrightarrow> rt_reach srt (route_event srt f now rt)"
| rt_lookup: "rt_reach srt rt \<Longrightarrow> os_fetch f \<Longrightarrow> rt_reach srt (snd (RouteTable_Lookup srt f now rt ip))"
| rt_entries: "rt_reach srt rt \<Longrightarrow> os_fetch f \<Longrightarrow> rt_reach srt (snd (RouteTable_Entries srt f now rt))"

lemma rt_reach_ok:
  assumes "slice_sort srt" "rt_reach srt rt"
  shows "rt_ok rt"
  using assms(2)
proof (induction rule: rt_reach.induct)
  case (rt_start rt f w now)
  then show ?case by (intro route_source.Start_ok [OF os_fetch_source [OF assms(1)]])
next
  case (rt_event rt f now)
  then show ?case by (intro route_source.route_event_ok [OF os_fetch_source [OF assms(1)]])
next
  case (rt_lookup rt f now ip)
  then show ?case
    by (simp add: RouteTable_Lookup_def Let_def route_source.current_ok [OF os_fetch_source [OF assms(1)]])
next
  case (rt_entries rt f now)
  then show ?case
    by (simp add: RouteTable_Entries_def Let_def route_source.current_ok [OF os_fetch_source [OF assms(1)]])
qed (auto simp: rt_ok_def New_RouteTable_def OnRefresh_def Stop_def SetSkipIface_def)

subsection \<open>Properties\<close>

text \<open>
  Property C8: whatever correct sort is behind \<^verbatim>\<open>sort.Slice\<close>, a lookup in a replaced table returns the
  interface and gateway of an entry that contains the address and has the longest prefix among
  all that do, and fails exactly when no entry contains the address.
\<close>

theorem Lookup_longest_prefix:
  assumes "slice_sort srt"
  shows "case Table_Lookup (replace srt t es) ip of
      Inr r \<Rightarrow> \<exists>e\<in>set es. IPNet_Contains (Dest e) ip \<and> r = (Iface e, Gateway e) \<and>
        (\<forall>e'\<in>set es. IPNet_Contains (Dest e') ip \<longrightarrow> prefix_ones e' \<le> prefix_ones e)
    | Inl x \<Rightarrow> x = NoRoute ip \<and> (\<forall>e\<in>set es. \<not> IPNet_Contains (Dest e) ip)"
  using slice_sort.replace_longest [OF assms, of t es ip] slice_sort.replace_no_route [OF assms, of t es ip]
  by (auto simp: Table_Lookup_Err split: sum.splits)

definition default_route :: Entry where
  "default_route = \<lparr>Dest = v4_net [0, 0, 0, 0] 0, Gateway = [192, 168, 1, 1], Iface = ''en0''\<rparr>"

definition corp_route :: Entry where
  "corp_route = \<lparr>Dest = v4_net [10, 0, 0, 0] 8, Gateway = [10, 0, 0, 1], Iface = ''utun3''\<rparr>"

lemma sample_contains:
  "IPNet_Contains (Dest default_route) [10, 1, 2, 3]" "IPNet_Contains (Dest corp_route) [10, 1, 2, 3]"
  by (simp_all add: default_route_def corp_route_def Contains_v4_net BE_Uint32_def)

lemma sample_prefix: "prefix_ones default_route = 0" "prefix_ones corp_route = 8"
  using Mask_Size_v4 [of 0] Mask_Size_v4 [of 8]
  by (simp_all add: prefix_ones_def default_route_def corp_route_def v4_net_def)

theorem Lookup_longest_prefix_witness:
  "Table_Lookup (replace insertionSort [] [default_route, corp_route]) [10, 1, 2, 3] =
     Ok (''utun3'', [10, 0, 0, 1])"
proof -
  have "default_route \<noteq> corp_route" by (simp add: default_route_def corp_route_def)
  then show ?thesis
    using Lookup_longest_prefix [OF ins_sort.slice_sort_axioms, where t = "[]" and
        es = "[default_route, corp_route]" and ip = "[10, 1, 2, 3]"]
      sample_contains sample_prefix
    by (auto split: sum.splits) (auto simp: corp_route_def)
qed

text \<open>
  In every state the table can reach, on any of the three systems, a lookup for which
  the system's routes could be read never selects the excluded interface, the program's own TUN
  device, even right after its name was changed.
\<close>

theorem Lookup_skips_tun:
  assumes "slice_sort srt" "rt_reach srt rt" "os_fetch f" "f (skipIface rt) = Ok es"
    "ttl rt \<le> maxDuration" "fst (RouteTable_Lookup srt f now rt ip) = Ok (i, g)"
  shows "i \<noteq> skipIface rt"
  using route_source.Lookup_not_skip [OF os_fetch_source [OF assms(1,3)] rt_reach_ok [OF assms(1,2)]]
    assms(4-6) by blast

theorem Lookup_skips_tun_witness:
  "''en0'' \<noteq> skipIface (SetSkipIface (New_RouteTable ''utun0'' 30) ''utun3'')"
proof -
  let ?rt = "SetSkipIface (New_RouteTable ''utun0'' 30) ''utun3''"
  let ?row = "\<lparr>row_InterfaceIndex = 4, row_PrefixLength = 0, row_Prefix = (2, [0, 0, 0, 0]),
    row_NextHop = (2, [192, 168, 1, 1])\<rparr>"
  let ?f = "fetchEntries_windows (Ok [?row]) [4 \<mapsto> ''en0'']"
  have f: "?f (skipIface ?rt) = Ok [default_route]"
    by (simp add: fetchEntries_windows_def windows_entry_def SetSkipIface_def raw_inet_def
        List.map_filter_simps default_route_def v4_net_def IP_Mask_def CIDRMask_32 [of 0, simplified]
        CIDRMask_byte_def BE_PutUint32_def BE_Uint32_def)
  have l: "fst (RouteTable_Lookup insertionSort ?f 0 ?rt [10, 1, 2, 3]) = Ok (''en0'', [192, 168, 1, 1])"
    using f sample_contains
    by (simp add: RouteTable_Lookup_def current_def refresh_def SetSkipIface_def New_RouteTable_def
        Since_def maxDuration_def replace_def insertionSort_def) (simp add: default_route_def)
  show ?thesis
    by (rule Lookup_skips_tun [OF ins_sort.slice_sort_axioms _ _ f _ l])
       (rule rt_reach.intros os_fetch.intros | simp add: SetSkipIface_def New_RouteTable_def maxDuration_def)+
qed

end
