(* ===== verification/Outbound.thy ===== *)
theory Outbound
  imports Route_Table
begin

section \<open>The direct outbound and the route-following DNS upstream\<close>

text \<open>
  \<^verbatim>\<open>internal/outbound/direct.go\<close> and \<^verbatim>\<open>default_interface_*.go\<close>: the choice of the physical interface
  and the dialers bound to it. \<^verbatim>\<open>cmd/ecorplink-daemon/dns_upstream.go\<close>: the DNS upstream that
  follows the monitored route table. What the operating system reports about its interfaces is
  the record \<open>net_env\<close>; a dialer is the interface it is bound to and the resolver it uses.
\<close>

subsection \<open>Interfaces\<close>

record Interface =
  if_Index :: int
  if_Name :: string
  FlagUp :: bool

datatype net_addr = IPNetAddr ipnet | IPAddrAddr ip | OtherNetAddr

record net_env =
  InterfaceByName :: "string \<Rightarrow> (string, Interface) res"
  Interfaces :: "(string, Interface list) res"
  Addrs :: "Interface \<Rightarrow> (string, net_addr list) res"
  route_get_default :: "(string, string) res"
  env_darwin :: bool

definition vpnPrefixes :: "string list" where
  "vpnPrefixes =
     [''anpi'', ''awdl'', ''bridge'', ''br-'', ''docker'', ''gif'', ''llw'', ''lo'',
      ''p2p'', ''stf'', ''tap'', ''tun'', ''utun'', ''vboxnet'', ''veth'', ''virbr'', ''vmnet'']"

definition usableDirectIPv4 :: "ip \<Rightarrow> bool" where
  "usableDirectIPv4 ip =
     (let ip4 = To4 ip
      in ip4 \<noteq> [] \<and> IsGlobalUnicast ip4 \<and> \<not> IsLoopback ip4 \<and> \<not> IsLinkLocalUnicast ip4 \<and>
         \<not> IsUnspecified ip4)"

definition addr_ip :: "net_addr \<Rightarrow> ip" where
  "addr_ip a = (case a of IPNetAddr n \<Rightarrow> IP n | IPAddrAddr ip \<Rightarrow> ip | OtherNetAddr \<Rightarrow> [])"

definition isPhysicalWithAddrs :: "Interface \<Rightarrow> net_addr list \<Rightarrow> bool" where
  "isPhysicalWithAddrs iface addrs =
     (if \<not> FlagUp iface then False
      else if list_ex (\<lambda>pfx. HasPrefix (if_Name iface) pfx) vpnPrefixes then False
      else list_ex (\<lambda>a. usableDirectIPv4 (addr_ip a)) addrs)"

definition isPhysical :: "net_env \<Rightarrow> Interface \<Rightarrow> bool" where
  "isPhysical env iface =
     (case Addrs env iface of Inl _ \<Rightarrow> False | Inr addrs \<Rightarrow> isPhysicalWithAddrs iface addrs)"

datatype outbound_error = IfaceNotFound string string | ListFailed string | NoPhysical

fun selectPhysicalInterface ::
    "Interface list \<Rightarrow> (Interface \<Rightarrow> (string, net_addr list) res) \<Rightarrow> (outbound_error, Interface) res" where
  "selectPhysicalInterface [] addrs = Err NoPhysical"
| "selectPhysicalInterface (iface # ifaces) addrs =
     (case addrs iface of
        Inl _ \<Rightarrow> selectPhysicalInterface ifaces addrs
      | Inr as \<Rightarrow> if isPhysicalWithAddrs iface as then Ok iface
                  else selectPhysicalInterface ifaces addrs)"

text \<open>Darwin asks \<^verbatim>\<open>route -n get default\<close>; elsewhere there is no default interface.\<close>

fun parse_interface_line :: "string list \<Rightarrow> string" where
  "parse_interface_line [] = []"
| "parse_interface_line (l # ls) =
     (let line = TrimSpace l
      in if HasPrefix line ''interface:'' then TrimSpace (TrimPrefix line ''interface:'')
         else parse_interface_line ls)"

definition parseRouteInterface :: "string \<Rightarrow> string" where
  "parseRouteInterface out = parse_interface_line (Split out [CHR 0x0A])"

definition defaultRouteInterface :: "net_env \<Rightarrow> (string, Interface option) res" where
  "defaultRouteInterface env =
     (if \<not> env_darwin env then Ok None
      else case route_get_default env of
             Inl err \<Rightarrow> Err err
           | Inr out \<Rightarrow>
               let name = parseRouteInterface out
               in if name = [] then Ok None
                  else (case InterfaceByName env name of Inl err \<Rightarrow> Err err | Inr i \<Rightarrow> Ok (Some i)))"

definition detectPhysicalInterface :: "net_env \<Rightarrow> (outbound_error, Interface) res" where
  "detectPhysicalInterface env =
     (let fallback = (case Interfaces env of
                        Inl err \<Rightarrow> Err (ListFailed err)
                      | Inr ifaces \<Rightarrow> selectPhysicalInterface ifaces (Addrs env))
      in case defaultRouteInterface env of
           Inr (Some iface) \<Rightarrow> if isPhysical env iface then Ok iface else fallback
         | _ \<Rightarrow> fallback)"

subsection \<open>The dialer\<close>

record Direct =
  IfaceName :: string
  iface :: "Interface option"
  upstream_dns :: "string list"

datatype net_resolver = DefaultResolver | BoundResolver (via: "Interface option") (server: string)

record Dialer =
  bound :: "Interface option"
  dial_resolver :: net_resolver

definition NewDirect :: "string \<Rightarrow> string list \<Rightarrow> Direct" where
  "NewDirect name ups = \<lparr>IfaceName = name, iface = None, upstream_dns = ups\<rparr>"

definition Init :: "net_env \<Rightarrow> Direct \<Rightarrow> outbound_error option \<times> Direct" where
  "Init env d =
     (if IfaceName d \<noteq> [] then
        (case InterfaceByName env (IfaceName d) of
           Inl err \<Rightarrow> (Some (IfaceNotFound (IfaceName d) err), d)
         | Inr i \<Rightarrow> (None, d\<lparr>iface := Some i\<rparr>))
      else
        (case detectPhysicalInterface env of
           Inl err \<Rightarrow> (Some err, d)
         | Inr i \<Rightarrow> (None, d\<lparr>iface := Some i\<rparr>)))"

definition refreshAutoIface :: "net_env \<Rightarrow> Direct \<Rightarrow> Direct" where
  "refreshAutoIface env d =
     (if IfaceName d \<noteq> [] then d
      else case detectPhysicalInterface env of Inl _ \<Rightarrow> d | Inr i \<Rightarrow> d\<lparr>iface := Some i\<rparr>)"

definition ResolvedIfaceName :: "net_env \<Rightarrow> Direct \<Rightarrow> string \<times> Direct" where
  "ResolvedIfaceName env d =
     (let d' = refreshAutoIface env d
      in (case iface d' of Some i \<Rightarrow> if_Name i | None \<Rightarrow> IfaceName d', d'))"

definition currentIface :: "net_env \<Rightarrow> Direct \<Rightarrow> Interface option \<times> Direct" where
  "currentIface env d = (let d' = refreshAutoIface env d in (iface d', d'))"

definition Direct_Dialer :: "net_env \<Rightarrow> Direct \<Rightarrow> Dialer \<times> Direct" where
  "Direct_Dialer env d =
     (case currentIface env d of
        (i, d') \<Rightarrow> (\<lparr>bound = i, dial_resolver = DefaultResolver\<rparr>, d'))"

definition Resolver_for :: "net_env \<Rightarrow> Direct \<Rightarrow> string \<Rightarrow> net_resolver \<times> Direct" where
  "Resolver_for env d addr =
     (if addr = [] \<or> addr = ''SYSTEM'' then (DefaultResolver, d)
      else case Direct_Dialer env d of (dl, d') \<Rightarrow> (BoundResolver (bound dl) addr, d'))"

definition DialerWithDNS :: "net_env \<Rightarrow> Direct \<Rightarrow> Dialer \<times> Direct" where
  "DialerWithDNS env d =
     (case currentIface env d of
        (None, d') \<Rightarrow> (\<lparr>bound = None, dial_resolver = DefaultResolver\<rparr>, d')
      | (Some i, d') \<Rightarrow>
          (case find (\<lambda>u. u \<noteq> [] \<and> u \<noteq> ''SYSTEM'') (upstream_dns d') of
             None \<Rightarrow> (\<lparr>bound = Some i, dial_resolver = DefaultResolver\<rparr>, d')
           | Some u \<Rightarrow>
               (case Resolver_for env d' u of
                  (r, d'') \<Rightarrow> (\<lparr>bound = Some i, dial_resolver = r\<rparr>, d''))))"

subsection \<open>The DNS upstream\<close>

record routeUpstream =
  up_addr :: string
  up_direct :: Direct
  up_cache :: "string \<rightharpoonup> Direct"

definition newRouteUpstream :: "string \<Rightarrow> Direct \<Rightarrow> routeUpstream" where
  "newRouteUpstream addr d = \<lparr>up_addr = addr, up_direct = d, up_cache = Map.empty\<rparr>"

definition isTunnelIfaceName :: "string \<Rightarrow> bool" where
  "isTunnelIfaceName name =
     (HasPrefix name ''utun'' \<or> HasPrefix name ''tun'' \<or> HasPrefix name ''tap'')"

text \<open>\<open>getOrCreate\<close> answers \<open>None\<close> where the code returns the shared physical outbound.\<close>

definition getOrCreate :: "net_env \<Rightarrow> routeUpstream \<Rightarrow> string \<Rightarrow> Direct option \<times> routeUpstream" where
  "getOrCreate env u name =
     (case up_cache u name of
        Some d \<Rightarrow> (Some d, u)
      | None \<Rightarrow>
          (case Init env (NewDirect name []) of
             (Some err, _) \<Rightarrow> (None, u)
           | (None, d) \<Rightarrow> (Some d, u\<lparr>up_cache := (up_cache u)(name \<mapsto> d)\<rparr>)))"

definition upstream_dialer :: "net_env \<Rightarrow> routeUpstream \<Rightarrow> string \<Rightarrow> Dialer \<times> routeUpstream" where
  "upstream_dialer env u ifn =
     (case (if isTunnelIfaceName ifn then (None, u) else getOrCreate env u ifn) of
        (Some d, u') \<Rightarrow> (fst (Direct_Dialer env d), u')
      | (None, u') \<Rightarrow>
          (case Direct_Dialer env (up_direct u') of (dl, d') \<Rightarrow> (dl, u'\<lparr>up_direct := d'\<rparr>)))"

datatype upstream_error = UpBadAddr string | UpNotIP string | UpNoRoute table_error | UpExchange string

text \<open>The exchange itself is a parameter: what the DNS client returns over a given dialer.\<close>

definition routeUpstream_Exchange ::
    "sorter \<Rightarrow> fetcher \<Rightarrow> net_env \<Rightarrow> int \<Rightarrow> (Dialer \<Rightarrow> 'm \<Rightarrow> string \<Rightarrow> (string, 'm) res) \<Rightarrow>
     RouteTable \<Rightarrow> routeUpstream \<Rightarrow> 'm \<Rightarrow> (upstream_error, 'm) res \<times> RouteTable \<times> routeUpstream" where
  "routeUpstream_Exchange srt fetch env now exchange rt u msg =
     (case SplitHostPort (up_addr u) of
        None \<Rightarrow> (Err (UpBadAddr (up_addr u)), rt, u)
      | Some (host, _) \<Rightarrow>
          let ip = ParseIP host
          in if ip = [] then (Err (UpNotIP host), rt, u)
             else
               (case RouteTable_Lookup srt fetch now rt ip of
                  (Inl err, rt') \<Rightarrow> (Err (UpNoRoute err), rt', u)
                | (Inr (ifn, _), rt') \<Rightarrow>
                    (case upstream_dialer env u ifn of
                       (dl, u') \<Rightarrow>
                         (case exchange dl msg (up_addr u) of
                            Inl err \<Rightarrow> (Err (UpExchange err), rt', u')
                          | Inr resp \<Rightarrow> (Ok resp, rt', u')))))"

subsection \<open>What the choice guarantees\<close>

definition physical :: "net_env \<Rightarrow> Interface \<Rightarrow> bool" where
  "physical env i \<longleftrightarrow>
     FlagUp i \<and> (\<forall>p\<in>set vpnPrefixes. \<not> (\<exists>r. if_Name i = p @ r)) \<and>
     (\<exists>as. Addrs env i = Ok as \<and> (\<exists>a\<in>set as. usableDirectIPv4 (addr_ip a)))"

lemma isPhysical_iff: "isPhysical env i \<longleftrightarrow> physical env i"
  by (auto simp: isPhysical_def isPhysicalWithAddrs_def physical_def list_ex_iff HasPrefix_iff prefix_def
      split: sum.splits)

lemma selectPhysical_ok:
  "selectPhysicalInterface ifs (Addrs env) = Ok i \<Longrightarrow> i \<in> set ifs \<and> isPhysical env i"
  by (induction ifs) (auto simp: isPhysical_def split: sum.splits if_splits)

lemma selectPhysical_Err:
  "selectPhysicalInterface ifs (Addrs env) = Err e \<longleftrightarrow> e = NoPhysical \<and> (\<forall>i\<in>set ifs. \<not> isPhysical env i)"
  by (induction ifs) (auto simp: isPhysical_def split: sum.splits)

lemma detect_physical: "detectPhysicalInterface env = Ok i \<Longrightarrow> isPhysical env i"
  by (auto simp: detectPhysicalInterface_def Let_def dest: selectPhysical_ok
      split: sum.splits option.splits if_splits)

lemma refresh_auto_auto: "IfaceName (refreshAutoIface env d) = IfaceName d"
  "upstream_dns (refreshAutoIface env d) = upstream_dns d"
  by (auto simp: refreshAutoIface_def split: sum.splits)

lemma refresh_auto_idem: "refreshAutoIface env (refreshAutoIface env d) = refreshAutoIface env d"
  by (auto simp: refreshAutoIface_def split: sum.splits)

lemma DialerWithDNS_bound: "bound (fst (DialerWithDNS env d)) = bound (fst (Direct_Dialer env d))"
  by (auto simp: DialerWithDNS_def Direct_Dialer_def split: prod.splits option.splits)

lemma detect_Err:
  assumes "Interfaces env = Ok ifs" "detectPhysicalInterface env = Err e"
  shows "e = NoPhysical \<and> (\<forall>i\<in>set ifs. \<not> isPhysical env i)"
  using assms by (auto simp: detectPhysicalInterface_def Let_def selectPhysical_Err
      split: sum.splits option.splits if_splits)

lemma Dialer_auto:
  "IfaceName d = [] \<Longrightarrow> detectPhysicalInterface env = Ok i \<Longrightarrow> bound (fst (Direct_Dialer env d)) = Some i"
  by (simp add: Direct_Dialer_def currentIface_def refreshAutoIface_def Let_def)

lemma Resolver_same_iface:
  assumes "currentIface env d = (Some i, d')" "u \<noteq> []" "u \<noteq> ''SYSTEM''"
  shows "fst (Resolver_for env d' u) = BoundResolver (Some i) u"
proof -
  have "refreshAutoIface env d' = d'" "iface d' = Some i"
    using assms(1) refresh_auto_idem [of env d] by (auto simp: currentIface_def Let_def)
  with assms(2,3) show ?thesis
    by (simp add: Resolver_for_def Direct_Dialer_def currentIface_def Let_def)
qed

lemma find_upstream:
  assumes "u \<in> set ups" "P u"
  obtains v where "find P ups = Some v" "P v" "v \<in> set ups"
  using assms by (metis find_None_iff find_Some_iff not_None_eq nth_mem)

subsection \<open>Properties\<close>

text \<open>
  With no interface configured, the direct outbound dials over an interface that is up,
  has none of the names of virtual and VPN devices and carries a usable IPv4 address, as soon as
  one of the listed interfaces is such; detection fails only when none is.
\<close>

theorem auto_interface_physical:
  assumes "Interfaces env = Ok ifs" "IfaceName d = []" "i \<in> set ifs" "physical env i"
  shows "\<exists>j. bound (fst (DialerWithDNS env d)) = Some j \<and> physical env j"
proof -
  from assms(1,3,4) obtain j where "detectPhysicalInterface env = Ok j"
    using detect_Err [OF assms(1)] isPhysical_iff by (metis sum.exhaust)
  with assms(2) show ?thesis
    using Dialer_auto detect_physical isPhysical_iff by (auto simp: DialerWithDNS_bound)
qed

definition sample_env :: net_env where
  "sample_env =
     \<lparr>InterfaceByName = (\<lambda>n. Err ''no such interface''),
      Interfaces = Ok [\<lparr>if_Index = 1, if_Name = ''utun4'', FlagUp = True\<rparr>,
                       \<lparr>if_Index = 2, if_Name = ''en0'', FlagUp = True\<rparr>],
      Addrs = (\<lambda>i. Ok [IPNetAddr \<lparr>IP = [192, 168, 1, 7], Mask = CIDRMask 24 32\<rparr>]),
      route_get_default = Err ''not run'', env_darwin = False\<rparr>"

lemma not_zero16: "[192, 168, 1, 7] \<noteq> replicate 16 (0 :: byte)"
proof
  assume "[192, 168, 1, 7] = replicate 16 (0 :: byte)"
  then have "length [192, 168, 1, 7 :: byte] = length (replicate 16 (0 :: byte))" by (rule arg_cong)
  then show False by simp
qed

lemma sample_physical: "physical sample_env \<lparr>if_Index = 2, if_Name = ''en0'', FlagUp = True\<rparr>"
  by (simp add: physical_def sample_env_def vpnPrefixes_def usableDirectIPv4_def addr_ip_def Let_def
      IsGlobalUnicast_def IsLoopback_def IsLinkLocalUnicast_def IsUnspecified_def IsMulticast_def
      IP_Equal_def IPv4_def v4InV6Prefix_def not_zero16)

theorem auto_interface_physical_witness:
  "\<exists>j. bound (fst (DialerWithDNS sample_env (NewDirect [] []))) = Some j \<and> physical sample_env j"
proof (rule auto_interface_physical [OF _ _ _ sample_physical])
  show "Interfaces sample_env = Ok [\<lparr>if_Index = 1, if_Name = ''utun4'', FlagUp = True\<rparr>,
      \<lparr>if_Index = 2, if_Name = ''en0'', FlagUp = True\<rparr>]"
    by (simp add: sample_env_def)
qed (simp_all add: NewDirect_def)

text \<open>
  When an upstream DNS server is configured, names are resolved by that server over the
  very interface the connection is bound to, so resolution cannot loop through the TUN device.
\<close>

theorem DialerWithDNS_resolves_bound:
  assumes "bound (fst (DialerWithDNS env d)) = Some i"
    "u \<in> set (upstream_dns d)" "u \<noteq> []" "u \<noteq> ''SYSTEM''"
  shows "\<exists>v\<in>set (upstream_dns d). v \<noteq> [] \<and> v \<noteq> ''SYSTEM'' \<and>
    dial_resolver (fst (DialerWithDNS env d)) = BoundResolver (Some i) v"
proof -
  obtain d' where c: "currentIface env d = (Some i, d')"
    using assms(1) by (auto simp: DialerWithDNS_bound Direct_Dialer_def split: prod.splits)
  then have ups: "upstream_dns d' = upstream_dns d"
    using refresh_auto_auto(2) [of env d] by (auto simp: currentIface_def Let_def)
  obtain v where v: "find (\<lambda>u. u \<noteq> [] \<and> u \<noteq> ''SYSTEM'') (upstream_dns d) = Some v"
    "v \<noteq> []" "v \<noteq> ''SYSTEM''" "v \<in> set (upstream_dns d)"
    using find_upstream [OF assms(2), of "\<lambda>u. u \<noteq> [] \<and> u \<noteq> ''SYSTEM''"] assms(3,4) by blast
  then have "dial_resolver (fst (DialerWithDNS env d)) = BoundResolver (Some i) v"
    using Resolver_same_iface [OF c v(2,3)]
    by (cases "Resolver_for env d' v") (simp add: DialerWithDNS_def c ups)
  with v show ?thesis by blast
qed

theorem DialerWithDNS_resolves_bound_witness:
  "dial_resolver (fst (DialerWithDNS sample_env (NewDirect [] [''SYSTEM'', ''9.9.9.9:53'']))) =
     BoundResolver (Some \<lparr>if_Index = 2, if_Name = ''en0'', FlagUp = True\<rparr>) ''9.9.9.9:53''"
proof -
  let ?d = "NewDirect [] [''SYSTEM'', ''9.9.9.9:53'']" and ?i = "\<lparr>if_Index = 2, if_Name = ''en0'', FlagUp = True\<rparr>"
  have "isPhysical sample_env ?i" using sample_physical isPhysical_iff by blast
  moreover have "\<not> isPhysicalWithAddrs \<lparr>if_Index = 1, if_Name = ''utun4'', FlagUp = True\<rparr> as" for as
    by (simp add: isPhysicalWithAddrs_def vpnPrefixes_def HasPrefix_def)
  ultimately have "detectPhysicalInterface sample_env = Ok ?i"
    by (simp add: detectPhysicalInterface_def defaultRouteInterface_def sample_env_def isPhysical_def)
  then have b: "bound (fst (DialerWithDNS sample_env ?d)) = Some ?i"
    by (simp add: DialerWithDNS_bound Dialer_auto NewDirect_def)
  show ?thesis
    using DialerWithDNS_resolves_bound [OF b, of "''9.9.9.9:53''"] by (auto simp: NewDirect_def)
qed

end
