(* ===== verification/Router.thy ===== *)
theory Router
  imports Rule_Engine
begin

section \<open>System routes (internal/router)\<close>

text \<open>
  \<^verbatim>\<open>router.go\<close>: the route manager, which adds the capture routes, remembers and persists the ones it
  owns and removes only those; \<^verbatim>\<open>router_darwin.go\<close>, \<^verbatim>\<open>router_linux.go\<close>, \<^verbatim>\<open>router_windows.go\<close>: the three
  routers behind its interface. The operating system is a state \<open>'w\<close> with two parameters: \<open>query\<close>, the
  output and success of a command that only reads, and \<open>run\<close>, a command that may change it.
\<close>

subsection \<open>The router interface\<close>

datatype route_error = ErrRouteExists | RouteFailed string

record 'w Router =
  AddRoute :: "string \<Rightarrow> 'w \<Rightarrow> route_error option \<times> 'w"
  DelRoute :: "string \<Rightarrow> 'w \<Rightarrow> 'w"
  RouteInterface :: "string \<Rightarrow> 'w \<Rightarrow> string option"
  TunName :: string

type_synonym 'w query = "string list \<Rightarrow> 'w \<Rightarrow> string \<times> bool"
type_synonym 'w runner = "string list \<Rightarrow> 'w \<Rightarrow> (string \<times> bool) \<times> 'w"

subsection \<open>The route manager\<close>

record managedRoute =
  CIDR :: string
  route_Iface :: string

record persistedState =
  Version :: int
  Routes :: "managedRoute list"

text \<open>The state file is the decoded object it holds, if it holds one.\<close>

record 'w RouteManager =
  router :: "'w Router"
  managed :: "managedRoute list"
  state_file :: "persistedState option"

text \<open>The calls made to the router, each with the state it was made in.\<close>

datatype router_call = CallAdd string | CallDel string

definition load :: "'w RouteManager \<Rightarrow> 'w RouteManager" where
  "load rm =
     (case state_file rm of
        Some st \<Rightarrow> if 2 \<le> Version st then rm\<lparr>managed := Routes st\<rparr> else rm
      | None \<Rightarrow> rm)"

definition NewRouteManager :: "'w Router \<Rightarrow> persistedState option \<Rightarrow> 'w RouteManager" where
  "NewRouteManager r file = load \<lparr>router = r, managed = [], state_file = file\<rparr>"

definition save :: "bool \<Rightarrow> 'w RouteManager \<Rightarrow> route_error option \<times> 'w RouteManager" where
  "save write_ok rm =
     (if write_ok then (None, rm\<lparr>state_file := Some \<lparr>Version = 2, Routes = managed rm\<rparr>\<rparr>)
      else (Some (RouteFailed ''write''), rm))"

definition shouldSkipDelete :: "'w Router \<Rightarrow> 'w \<Rightarrow> managedRoute \<Rightarrow> bool" where
  "shouldSkipDelete r w route =
     (if route_Iface route = [] then
        let tunName = TunName r
        in if tunName = [] then True
           else (case RouteInterface r (CIDR route) w of None \<Rightarrow> True | Some i \<Rightarrow> i \<noteq> tunName)
      else (case RouteInterface r (CIDR route) w of None \<Rightarrow> True | Some i \<Rightarrow> i \<noteq> route_Iface route))"

fun delete_managed ::
    "'w Router \<Rightarrow> managedRoute list \<Rightarrow> 'w \<Rightarrow> 'w \<times> ('w \<times> router_call) list" where
  "delete_managed r [] w = (w, [])"
| "delete_managed r (route # rs) w =
     (if shouldSkipDelete r w route then delete_managed r rs w
      else case delete_managed r rs (DelRoute r (CIDR route) w) of
             (w', tr) \<Rightarrow> (w', (w, CallDel (CIDR route)) # tr))"

fun captureCIDRs_loop :: "string list \<Rightarrow> string list \<Rightarrow> string list" where
  "captureCIDRs_loop seen [] = []"
| "captureCIDRs_loop seen (cidr # cs) =
     (if cidr = [] \<or> cidr \<in> set seen then captureCIDRs_loop seen cs
      else cidr # captureCIDRs_loop (cidr # seen) cs)"

definition captureCIDRs :: "string \<Rightarrow> string list \<Rightarrow> string list" where
  "captureCIDRs fakeIPPool extraCIDRs =
     captureCIDRs_loop [] ([fakeIPPool, ''0.0.0.0/1'', ''128.0.0.0/1''] @ extraCIDRs)"

fun add_capture ::
    "'w Router \<Rightarrow> string list \<Rightarrow> managedRoute list \<Rightarrow> 'w \<Rightarrow>
     route_error option \<times> managedRoute list \<times> 'w \<times> ('w \<times> router_call) list" where
  "add_capture r [] ms w = (None, ms, w, [])"
| "add_capture r (cidr # cs) ms w =
     (let (err, w') = AddRoute r cidr w;
          next_call = (\<lambda>ms'. case add_capture r cs ms' w' of
                            (e, m, w'', tr) \<Rightarrow> (e, m, w'', (w, CallAdd cidr) # tr))
      in case err of
           Some ErrRouteExists \<Rightarrow> next_call ms
         | Some e \<Rightarrow> (Some e, ms, w', [(w, CallAdd cidr)])
         | None \<Rightarrow>
             (case RouteInterface r cidr w' of
                None \<Rightarrow> next_call ms
              | Some i \<Rightarrow>
                  if TunName r \<noteq> [] \<and> i \<noteq> TunName r then next_call ms
                  else next_call (ms @ [\<lparr>CIDR = cidr, route_Iface = i\<rparr>])))"

definition AddRoutes ::
    "bool \<Rightarrow> 'w RouteManager \<Rightarrow> string \<Rightarrow> string list \<Rightarrow> 'w \<Rightarrow>
     route_error option \<times> 'w RouteManager \<times> 'w \<times> ('w \<times> router_call) list" where
  "AddRoutes write_ok rm fakeIPPool extraCIDRs w =
     (case delete_managed (router rm) (managed rm) w of
        (w1, tr1) \<Rightarrow>
          (case add_capture (router rm) (captureCIDRs fakeIPPool extraCIDRs) [] w1 of
             (Some e, ms, w2, tr2) \<Rightarrow> (Some e, rm\<lparr>managed := ms\<rparr>, w2, tr1 @ tr2)
           | (None, ms, w2, tr2) \<Rightarrow>
               (case save write_ok (rm\<lparr>managed := ms\<rparr>) of
                  (e, rm') \<Rightarrow> (e, rm', w2, tr1 @ tr2))))"

definition Cleanup ::
    "bool \<Rightarrow> 'w RouteManager \<Rightarrow> 'w \<Rightarrow> 'w RouteManager \<times> 'w \<times> ('w \<times> router_call) list" where
  "Cleanup write_ok rm w =
     (case delete_managed (router rm) (managed rm) w of
        (w', tr) \<Rightarrow> (snd (save write_ok (rm\<lparr>managed := []\<rparr>)), w', tr))"

subsection \<open>IP versions\<close>

definition isIPv6 :: "string \<Rightarrow> bool" where
  "isIPv6 s = (let ip = ParseIP s in if ip = [] then False else To4 ip = [])"

definition routePrefix :: "string \<Rightarrow> string" where
  "routePrefix s = (if isIPv6 s then ''/128'' else ''/32'')"

subsection \<open>Darwin\<close>

definition normalizeDarwinRouteDest :: "string \<Rightarrow> string" where
  "normalizeDarwinRouteDest routeDest =
     (let (ipPart, pfx) = (case Cut routeDest ''/'' of
                             Some (b, a) \<Rightarrow> (b, ''/'' @ a) | None \<Rightarrow> (routeDest, []));
          parts = Split ipPart ''.''
      in if 4 \<le> length parts then routeDest
         else Join (parts @ replicate (4 - length parts) ''0'') ''.'' @ pfx)"

definition routeDestinationMaskMatchesCIDR :: "string \<Rightarrow> string \<Rightarrow> ipnet \<Rightarrow> bool" where
  "routeDestinationMaskMatchesCIDR routeDest routeMask ipNet =
     (let destIP = ParseIP (normalizeDarwinRouteDest routeDest);
          maskIP = ParseIP (normalizeDarwinRouteDest routeMask)
      in if destIP = [] \<or> maskIP = [] then False
         else
           let m = drop 12 maskIP;
               routeIP = IP_Mask (To4 destIP) m
           in case (Mask_Size m, Mask_Size (Mask ipNet)) of
                ((routeOnes, routeBits), (ones, bits)) \<Rightarrow>
                  routeBits = bits \<and> routeOnes = ones \<and> IP_Equal routeIP (IP ipNet))"

definition routeDestinationMatchesCIDR :: "string \<Rightarrow> ipnet \<Rightarrow> bool" where
  "routeDestinationMatchesCIDR routeDest ipNet =
     (case Mask_Size (Mask ipNet) of
        (ones, bits) \<Rightarrow>
          if bits \<noteq> 32 then False
          else if routeDest = ''default'' then ones = 0
          else if \<not> Contains routeDest ''/'' \<and> ParseIP routeDest \<noteq> []
          then ones = 32 \<and> IP_Equal (ParseIP routeDest) (IP ipNet)
          else
            (case ParseCIDR (normalizeDarwinRouteDest routeDest) of
               None \<Rightarrow> False
             | Some (_, routeNet) \<Rightarrow>
                 (case Mask_Size (Mask routeNet) of
                    (routeOnes, routeBits) \<Rightarrow>
                      routeBits = 32 \<and> routeOnes = ones \<and> IP_Equal (IP routeNet) (IP ipNet))))"

fun route_get_fields :: "string list \<Rightarrow> string \<times> string \<times> string \<Rightarrow> string \<times> string \<times> string" where
  "route_get_fields [] r = r"
| "route_get_fields (l # ls) (routeDest, routeMask, i) =
     (let line = TrimSpace l
      in route_get_fields ls
           (if HasPrefix line ''destination:''
            then (TrimSpace (TrimPrefix line ''destination:''), routeMask, i)
            else if HasPrefix line ''mask:'' then (routeDest, TrimSpace (TrimPrefix line ''mask:''), i)
            else if HasPrefix line ''interface:''
            then (routeDest, routeMask, TrimSpace (TrimPrefix line ''interface:''))
            else (routeDest, routeMask, i)))"

definition parseDarwinRouteGet :: "string \<Rightarrow> ipnet \<Rightarrow> string option" where
  "parseDarwinRouteGet out ipNet =
     (case route_get_fields (Split out [CHR 0x0A]) ([], [], []) of
        (routeDest, routeMask, i) \<Rightarrow>
          if routeDest = [] \<or> i = [] then None
          else if routeMask \<noteq> [] \<and> routeDestinationMaskMatchesCIDR routeDest routeMask ipNet then Some i
          else if \<not> routeDestinationMatchesCIDR routeDest ipNet then None
          else Some i)"

definition darwin_RouteInterface :: "'w query \<Rightarrow> string \<Rightarrow> 'w \<Rightarrow> string option" where
  "darwin_RouteInterface query cidr w =
     (case ParseCIDR cidr of
        None \<Rightarrow> None
      | Some (_, ipNet) \<Rightarrow>
          if To4 (IP ipNet) = [] then None
          else (case query [''route'', ''-n'', ''get'', IP_String (IP ipNet)] w of
                  (out, ok) \<Rightarrow> if \<not> ok then None else parseDarwinRouteGet out ipNet))"

definition existingRouteOwnedByTun :: "'w query \<Rightarrow> string \<Rightarrow> string \<Rightarrow> 'w \<Rightarrow> bool \<times> bool" where
  "existingRouteOwnedByTun query tun cidr w =
     (case darwin_RouteInterface query cidr w of
        None \<Rightarrow> (False, False) | Some i \<Rightarrow> (i = tun, True))"

definition darwin_AddRoute ::
    "'w query \<Rightarrow> 'w runner \<Rightarrow> string \<Rightarrow> string \<Rightarrow> 'w \<Rightarrow> route_error option \<times> 'w" where
  "darwin_AddRoute query run tun cidr w =
     (case existingRouteOwnedByTun query tun cidr w of
        (owned, True) \<Rightarrow> (if \<not> owned then Some ErrRouteExists else None, w)
      | (_, False) \<Rightarrow>
          (case run [''route'', ''add'', ''-net'', cidr, ''-interface'', tun] w of
             ((out, ok), w') \<Rightarrow>
               (if ok then None
                else if Contains out ''File exists'' then Some ErrRouteExists
                else Some (RouteFailed out), w')))"

definition darwin_DelRoute :: "'w query \<Rightarrow> 'w runner \<Rightarrow> string \<Rightarrow> string \<Rightarrow> 'w \<Rightarrow> 'w" where
  "darwin_DelRoute query run tun cidr w =
     (if tun = [] \<and> (cidr = ''0.0.0.0/1'' \<or> cidr = ''128.0.0.0/1'') then w
      else if tun \<noteq> [] \<and> existingRouteOwnedByTun query tun cidr w = (False, True) then w
      else snd (run [''route'', ''delete'', ''-net'', cidr] w))"

definition darwinRouter :: "'w query \<Rightarrow> 'w runner \<Rightarrow> string \<Rightarrow> 'w Router" where
  "darwinRouter query run tun =
     \<lparr>AddRoute = darwin_AddRoute query run tun, DelRoute = darwin_DelRoute query run tun,
      RouteInterface = darwin_RouteInterface query, TunName = tun\<rparr>"

subsection \<open>Linux\<close>

fun field_after_dev :: "string list \<Rightarrow> string option" where
  "field_after_dev (a # b # fs) = (if a = ''dev'' then Some b else field_after_dev (b # fs))"
| "field_after_dev _ = None"

definition linux_RouteInterface :: "'w query \<Rightarrow> string \<Rightarrow> 'w \<Rightarrow> string option" where
  "linux_RouteInterface query cidr w =
     (case ParseCIDR cidr of
        None \<Rightarrow> None
      | Some (ip, _) \<Rightarrow>
          (case query [''ip'', ''-o'', ''route'', ''get'', IP_String ip] w of
             (out, ok) \<Rightarrow> if \<not> ok then None else field_after_dev (Fields out)))"

definition linux_AddRoute :: "'w runner \<Rightarrow> string \<Rightarrow> string \<Rightarrow> 'w \<Rightarrow> route_error option \<times> 'w" where
  "linux_AddRoute run tun cidr w =
     (case run [''ip'', ''route'', ''add'', cidr, ''dev'', tun, ''metric'', ''1''] w of
        ((out, ok), w') \<Rightarrow>
          (if ok then None
           else if Contains out ''File exists'' \<or> Contains out ''RTNETLINK answers: File exists''
           then Some ErrRouteExists
           else Some (RouteFailed out), w'))"

definition linux_DelRoute :: "'w query \<Rightarrow> 'w runner \<Rightarrow> string \<Rightarrow> string \<Rightarrow> 'w \<Rightarrow> 'w" where
  "linux_DelRoute query run tun cidr w =
     (if tun \<noteq> [] \<and> (case linux_RouteInterface query cidr w of None \<Rightarrow> False | Some i \<Rightarrow> i \<noteq> tun) then w
      else snd (run [''ip'', ''route'', ''del'', cidr] w))"

definition linuxRouter :: "'w query \<Rightarrow> 'w runner \<Rightarrow> string \<Rightarrow> 'w Router" where
  "linuxRouter query run tun =
     \<lparr>AddRoute = linux_AddRoute run tun, DelRoute = linux_DelRoute query run tun,
      RouteInterface = linux_RouteInterface query, TunName = tun\<rparr>"

subsection \<open>Windows\<close>

definition powershell :: "string \<Rightarrow> string list" where
  "powershell script = [''powershell'', ''-NoProfile'', ''-Command'', script]"

definition getInterfaceIndex :: "'w query \<Rightarrow> string \<Rightarrow> 'w \<Rightarrow> (string, int) res" where
  "getInterfaceIndex query name w =
     (case query (powershell (''(Get-NetAdapter -Name '' @ [CHR 0x27] @ name @ [CHR 0x27] @ '').ifIndex'')) w of
        (out, ok) \<Rightarrow>
          if \<not> ok then Err out
          else (case ParseInt64 (TrimSpace out) of None \<Rightarrow> Err out | Some i \<Rightarrow> Ok i))"

definition windows_RouteInterface :: "'w query \<Rightarrow> string \<Rightarrow> 'w \<Rightarrow> string option" where
  "windows_RouteInterface query cidr w =
     (case ParseCIDR cidr of
        None \<Rightarrow> None
      | Some _ \<Rightarrow>
          (case query (powershell (''$route = Get-NetRoute -DestinationPrefix '' @ [CHR 0x27] @ cidr @ [CHR 0x27] @
             '' -ErrorAction SilentlyContinue | Sort-Object RouteMetric | Select-Object -First 1; if ($route) { (Get-NetAdapter -InterfaceIndex $route.InterfaceIndex).Name }'')) w of
             (out, ok) \<Rightarrow>
               if \<not> ok then None
               else let i = TrimSpace out in if i = [] then None else Some i))"

definition windows_AddRoute ::
    "'w query \<Rightarrow> 'w runner \<Rightarrow> string \<Rightarrow> string \<Rightarrow> 'w \<Rightarrow> route_error option \<times> 'w" where
  "windows_AddRoute query run tun cidr w =
     (case getInterfaceIndex query tun w of
        Inl err \<Rightarrow> (Some (RouteFailed err), w)
      | Inr idx \<Rightarrow>
          if length (Split cidr ''/'') \<noteq> 2 then (Some (RouteFailed cidr), w)
          else
            (case run (powershell (''New-NetRoute -DestinationPrefix '' @ [CHR 0x27] @ cidr @ [CHR 0x27] @
                '' -InterfaceIndex '' @ Itoa idx @ '' -RouteMetric 1 -PolicyStore ActiveStore'')) w of
               ((out, ok), w') \<Rightarrow>
                 (if ok then None
                  else if Contains out ''already exists'' \<or> Contains out ''Instance MSFT_NetRoute already exists''
                  then Some ErrRouteExists
                  else Some (RouteFailed out), w')))"

definition windows_DelRoute :: "'w query \<Rightarrow> 'w runner \<Rightarrow> string \<Rightarrow> string \<Rightarrow> 'w \<Rightarrow> 'w" where
  "windows_DelRoute query run tun cidr w =
     (if tun \<noteq> [] \<and> (case windows_RouteInterface query cidr w of
                        None \<Rightarrow> False | Some i \<Rightarrow> \<not> EqualFold i tun) then w
      else snd (run (powershell (''Remove-NetRoute -DestinationPrefix '' @ [CHR 0x27] @ cidr @ [CHR 0x27] @
             '' -Confirm:$false -ErrorAction SilentlyContinue'')) w))"

definition windowsRouter :: "'w query \<Rightarrow> 'w runner \<Rightarrow> string \<Rightarrow> 'w Router" where
  "windowsRouter query run tun =
     \<lparr>AddRoute = windows_AddRoute query run tun, DelRoute = windows_DelRoute query run tun,
      RouteInterface = windows_RouteInterface query, TunName = tun\<rparr>"

subsection \<open>The contract of a router\<close>

text \<open>
  No router removes a route that its own query reports on an interface other than the TUN device;
  Windows compares names without case.
\<close>

locale router_contract =
  fixes r :: "'w Router"
    and foreign :: "string \<Rightarrow> bool"
  assumes del_foreign: "RouteInterface r c w = Some i \<Longrightarrow> foreign i \<Longrightarrow> DelRoute r c w = w"
begin

lemma delete_managed_foreign:
  "\<forall>route\<in>set ms. \<exists>i. RouteInterface r (CIDR route) w = Some i \<and> foreign i \<Longrightarrow>
   fst (delete_managed r ms w) = w"
  by (induction ms) (auto simp: del_foreign split: prod.splits)

end

interpretation darwin_router: router_contract "darwinRouter query run tun" "\<lambda>i. tun \<noteq> [] \<and> i \<noteq> tun"
  for query run tun
  by unfold_locales (auto simp: darwinRouter_def darwin_DelRoute_def existingRouteOwnedByTun_def)

interpretation linux_router: router_contract "linuxRouter query run tun" "\<lambda>i. tun \<noteq> [] \<and> i \<noteq> tun"
  for query run tun
  by unfold_locales (auto simp: linuxRouter_def linux_DelRoute_def)

interpretation windows_router: router_contract "windowsRouter query run tun" "\<lambda>i. tun \<noteq> [] \<and> \<not> EqualFold i tun"
  for query run tun
  by unfold_locales (auto simp: windowsRouter_def windows_DelRoute_def)

subsection \<open>What the manager deletes and keeps\<close>

definition route_owner :: "'w Router \<Rightarrow> managedRoute \<Rightarrow> string" where
  "route_owner r route = (if route_Iface route = [] then TunName r else route_Iface route)"

lemma not_skip_owner:
  "\<not> shouldSkipDelete r w route \<longleftrightarrow>
   route_owner r route \<noteq> [] \<and> RouteInterface r (CIDR route) w = Some (route_owner r route)"
  by (auto simp: shouldSkipDelete_def route_owner_def Let_def split: option.splits)

lemma delete_managed_trace:
  "(v, call) \<in> set (snd (delete_managed r ms w)) \<Longrightarrow>
   \<exists>route\<in>set ms. call = CallDel (CIDR route) \<and> route_owner r route \<noteq> [] \<and>
     RouteInterface r (CIDR route) v = Some (route_owner r route)"
proof (induction ms arbitrary: w)
  case (Cons m ms)
  show ?case
  proof (cases "shouldSkipDelete r w m")
    case True
    with Cons show ?thesis by auto
  next
    case False
    obtain w' tr where d: "delete_managed r ms (DelRoute r (CIDR m) w) = (w', tr)" by fastforce
    with False Cons.prems have "(v, call) = (w, CallDel (CIDR m)) \<or> (v, call) \<in> set tr" by auto
    with False not_skip_owner [of r w m] Cons.IH [of "DelRoute r (CIDR m) w"] d show ?thesis by auto
  qed
qed simp

definition kept_route :: "'w Router \<Rightarrow> string \<Rightarrow> 'w \<Rightarrow> managedRoute list" where
  "kept_route r cidr w =
     (case AddRoute r cidr w of
        (None, w') \<Rightarrow>
          (case RouteInterface r cidr w' of
             Some i \<Rightarrow> if TunName r \<noteq> [] \<and> i \<noteq> TunName r then [] else [\<lparr>CIDR = cidr, route_Iface = i\<rparr>]
           | None \<Rightarrow> [])
      | _ \<Rightarrow> [])"

lemma add_capture_step:
  "add_capture r (cidr # cs) ms w =
   (case AddRoute r cidr w of
      (Some (RouteFailed m), w') \<Rightarrow> (Some (RouteFailed m), ms, w', [(w, CallAdd cidr)])
    | (_, w') \<Rightarrow>
        (case add_capture r cs (ms @ kept_route r cidr w) w' of
           (e, m, w'', tr) \<Rightarrow> (e, m, w'', (w, CallAdd cidr) # tr)))"
  by (auto simp: Let_def kept_route_def split: prod.splits option.splits route_error.splits)

declare add_capture.simps(2) [simp del]

lemma add_capture_trace:
  "(v, call) \<in> set (snd (snd (snd (add_capture r cs ms w)))) \<Longrightarrow> \<exists>c\<in>set cs. call = CallAdd c"
proof (induction cs arbitrary: ms w)
  case (Cons c cs)
  then show ?case
    by (auto simp: add_capture_step split: prod.splits option.splits route_error.splits) (metis snd_conv)+
qed simp

lemma add_capture_kept:
  assumes "\<forall>m\<in>set ms. (TunName r \<noteq> [] \<longrightarrow> route_Iface m = TunName r)"
    "distinct (map CIDR ms)" "distinct cs" "CIDR ` set ms \<inter> set cs = {}"
  shows "case add_capture r cs ms w of (e, ms', _) \<Rightarrow>
    distinct (map CIDR ms') \<and> CIDR ` set ms' \<subseteq> CIDR ` set ms \<union> set cs \<and>
    (\<forall>m\<in>set ms'. TunName r \<noteq> [] \<longrightarrow> route_Iface m = TunName r)"
  using assms
proof (induction cs arbitrary: ms w)
  case (Cons c cs)
  obtain err w' where a: "AddRoute r c w = (err, w')" by fastforce
  let ?ms = "ms @ kept_route r c w"
  have k: "\<forall>m\<in>set (kept_route r c w). CIDR m = c \<and> (TunName r \<noteq> [] \<longrightarrow> route_Iface m = TunName r)"
    "distinct (map CIDR (kept_route r c w))"
    by (auto simp: kept_route_def split: prod.splits option.splits)
  then have "\<forall>m\<in>set ?ms. TunName r \<noteq> [] \<longrightarrow> route_Iface m = TunName r"
    "distinct (map CIDR ?ms)" "distinct cs" "CIDR ` set ?ms \<inter> set cs = {}"
    using Cons.prems by (auto simp: image_iff disjoint_iff)
  from Cons.IH [OF this, of w'] k Cons.prems show ?case
    by (auto simp: add_capture_step a split: prod.splits option.splits route_error.splits)
qed simp

lemma captureCIDRs_loop_set:
  "set (captureCIDRs_loop seen cs) = {c \<in> set cs. c \<noteq> [] \<and> c \<notin> set seen}"
  by (induction cs arbitrary: seen) auto

lemma captureCIDRs_loop_distinct:
  "distinct (captureCIDRs_loop seen cs) \<and> set (captureCIDRs_loop seen cs) \<inter> set seen = {}"
  by (induction cs arbitrary: seen) (auto simp: captureCIDRs_loop_set)

lemma captureCIDRs_distinct: "distinct (captureCIDRs p ex)"
  unfolding captureCIDRs_def using captureCIDRs_loop_distinct by blast

lemma captureCIDRs_set:
  "set (captureCIDRs p ex) = {c. (c = p \<or> c = ''0.0.0.0/1'' \<or> c = ''128.0.0.0/1'' \<or> c \<in> set ex) \<and> c \<noteq> []}"
  by (auto simp: captureCIDRs_def captureCIDRs_loop_set)

lemma half_nets:
  "ParseCIDR ''0.0.0.0/1'' = Some (v4InV6Prefix @ [0, 0, 0, 0], v4_net [0, 0, 0, 0] 1)"
  "ParseCIDR ''128.0.0.0/1'' = Some (v4InV6Prefix @ [128, 0, 0, 0], v4_net [128, 0, 0, 0] 1)"
proof -
  have "v4_cidr_string [0, 0, 0, 0] 1 = ''0.0.0.0/1''" "v4_cidr_string [128, 0, 0, 0] 1 = ''128.0.0.0/1''"
    by (simp_all add: v4_cidr_string_def v4_string_def Uitoa.simps digit_char_def string_eval)
  then show "ParseCIDR ''0.0.0.0/1'' = Some (v4InV6Prefix @ [0, 0, 0, 0], v4_net [0, 0, 0, 0] 1)"
    "ParseCIDR ''128.0.0.0/1'' = Some (v4InV6Prefix @ [128, 0, 0, 0], v4_net [128, 0, 0, 0] 1)"
    using ParseCIDR_v4 [of "[0, 0, 0, 0]" 1] ParseCIDR_v4 [of "[128, 0, 0, 0]" 1] by simp_all
qed

lemma half_cases: "drop_bit 31 (x :: 32 word) = 0 \<or> drop_bit 31 x = 1"
proof -
  have "unat (drop_bit 31 x) = unat x div 2 ^ 31" by (subst unat_drop_bit_eq) (rule drop_bit_eq_div)
  moreover have "unat x < 2 ^ 32" using unsigned_less [of x] by simp
  ultimately have "unat (drop_bit 31 x) < 2" by simp
  then have "unat (drop_bit 31 x) = unat (0 :: 32 word) \<or> unat (drop_bit 31 x) = unat (1 :: 32 word)"
    by auto
  then show ?thesis by (simp only: word_unat_eq_iff)
qed

lemma v4_string_parts:
  assumes "length b = 4"
  shows "length (Split (v4_string b) ''.'') = 4"
proof -
  have "\<not> is_digit (CHR ''.'')" by (simp add: is_digit_def)
  then have "\<forall>x\<in>set (map (\<lambda>x. Uitoa (unat x)) b). CHR ''.'' \<notin> set x"
    using Uitoa_digits by (auto simp: list_all_iff)
  then show ?thesis
    unfolding v4_string_def using assms by (subst Split_Join) auto
qed

lemma normalize_v4: "length b = 4 \<Longrightarrow> normalizeDarwinRouteDest (v4_cidr_string b n) = v4_cidr_string b n"
  using Cut_char_append [OF slash_not_in_v4_string, of b "Uitoa n"]
  by (simp add: normalizeDarwinRouteDest_def v4_cidr_string_def v4_string_parts)

lemma v4_net_IP_iff:
  "length b = 4 \<Longrightarrow> length c = 4 \<Longrightarrow>
   IP_Equal (IP (v4_net b n)) (IP (v4_net c n)) \<longleftrightarrow>
   drop_bit (32 - n) (BE_Uint32 b) = drop_bit (32 - n) (BE_Uint32 c)"
  by (simp add: v4_net_def IP_Equal_def and_not_mask_eq_iff [symmetric]) (metis BE_Uint32_PutUint32)

subsection \<open>Properties\<close>

text \<open>
  Property C9: cleaning up, and replacing the routes of an earlier session, issue deletions only for
  routes the manager recorded and that, at the moment of the call, the system reports on the
  interface recorded as their owner (the TUN device where none was recorded): a route that another
  program took over is left alone. Additions are only for the capture networks.
\<close>

theorem only_own_routes_deleted:
  assumes "(v, call) \<in> set (snd (snd (Cleanup ok rm w))) \<or>
    (v, call) \<in> set (snd (snd (snd (AddRoutes ok rm pool extra w))))"
  shows "(\<exists>route\<in>set (managed rm). call = CallDel (CIDR route) \<and> route_owner (router rm) route \<noteq> [] \<and>
      RouteInterface (router rm) (CIDR route) v = Some (route_owner (router rm) route)) \<or>
    (\<exists>c\<in>set (captureCIDRs pool extra). call = CallAdd c)"
proof -
  let ?r = "router rm"
  obtain w1 tr1 where d: "delete_managed ?r (managed rm) w = (w1, tr1)" by fastforce
  let ?a = "add_capture ?r (captureCIDRs pool extra) [] w1"
  have "(v, call) \<in> set tr1 \<or> (v, call) \<in> set (snd (snd (snd ?a)))"
    using assms by (auto simp: Cleanup_def AddRoutes_def d split: prod.splits option.splits)
  then show ?thesis
    using delete_managed_trace [of v call ?r "managed rm" w] add_capture_trace [of v call ?r _ "[]" w1] d
    by auto
qed

definition map_router :: "(string \<Rightarrow> string option) Router" where
  "map_router =
     \<lparr>AddRoute = (\<lambda>c w. (None, w(c := Some ''utun9''))), DelRoute = (\<lambda>c w. w(c := None)),
      RouteInterface = (\<lambda>c w. w c), TunName = ''utun9''\<rparr>"

theorem only_own_routes_deleted_witness:
  "RouteInterface map_router ''0.0.0.0/1'' [''0.0.0.0/1'' \<mapsto> ''utun9''] = Some ''utun9''"
proof -
  let ?rm = "\<lparr>router = map_router, managed = [\<lparr>CIDR = ''0.0.0.0/1'', route_Iface = ''utun9''\<rparr>],
    state_file = None\<rparr>"
  let ?w = "[''0.0.0.0/1'' \<mapsto> ''utun9'']"
  have "(?w, CallDel ''0.0.0.0/1'') \<in> set (snd (snd (Cleanup True ?rm ?w)))"
    by (simp add: Cleanup_def shouldSkipDelete_def map_router_def)
  then show ?thesis
    using only_own_routes_deleted [of ?w "CallDel ''0.0.0.0/1''" True ?rm ?w] by (auto simp: route_owner_def)
qed

text \<open>
  After routes were added and the state file written, every route the manager holds is
  one of the capture networks, recorded once and on the TUN device, and a manager started from the
  state file holds the same routes.
\<close>

theorem AddRoutes_recorded:
  assumes "AddRoutes ok rm pool extra w = (None, rm', w', tr)"
  shows "managed (NewRouteManager r (state_file rm')) = managed rm' \<and>
    distinct (map CIDR (managed rm')) \<and> CIDR ` set (managed rm') \<subseteq> set (captureCIDRs pool extra) \<and>
    (\<forall>m\<in>set (managed rm'). TunName (router rm) \<noteq> [] \<longrightarrow> route_Iface m = TunName (router rm))"
proof -
  let ?r = "router rm"
  obtain w1 tr1 where d: "delete_managed ?r (managed rm) w = (w1, tr1)" by fastforce
  obtain e ms w2 tr2 where a: "add_capture ?r (captureCIDRs pool extra) [] w1 = (e, ms, w2, tr2)"
    by (metis prod.exhaust)
  have "managed rm' = ms" "state_file rm' = Some \<lparr>Version = 2, Routes = ms\<rparr>"
    using assms by (auto simp: AddRoutes_def d a save_def split: option.splits if_splits)
  then show ?thesis
    using add_capture_kept [of "[]" ?r "captureCIDRs pool extra" w1] a captureCIDRs_distinct [of pool extra]
    by (auto simp: NewRouteManager_def load_def)
qed

theorem AddRoutes_recorded_witness:
  "distinct (map CIDR (managed (fst (snd (AddRoutes True
     \<lparr>router = map_router, managed = [], state_file = None\<rparr> ''198.18.0.0/15'' [] Map.empty)))))"
proof -
  let ?rm = "\<lparr>router = map_router, managed = [], state_file = None\<rparr>"
  let ?a = "AddRoutes True ?rm ''198.18.0.0/15'' [] Map.empty"
  have "fst ?a = None"
    by (simp add: AddRoutes_def captureCIDRs_def add_capture_step map_router_def save_def)
  then show ?thesis
    using AddRoutes_recorded [of True ?rm "''198.18.0.0/15''" "[]" Map.empty "fst (snd ?a)"
        "fst (snd (snd ?a))" "snd (snd (snd ?a))"]
    by (metis prod.collapse)
qed

text \<open>
  The capture networks have no duplicates and cover every IPv4 address, whatever the
  fake pool and the extra networks are.
\<close>

theorem capture_covers_ipv4:
  assumes "To4 ip \<noteq> []"
  shows "distinct (captureCIDRs pool extra) \<and>
    (\<exists>c\<in>set (captureCIDRs pool extra). \<exists>a net. ParseCIDR c = Some (a, net) \<and> IPNet_Contains net ip)"
proof -
  have "\<exists>c\<in>{''0.0.0.0/1'', ''128.0.0.0/1''}. \<exists>a net. ParseCIDR c = Some (a, net) \<and> IPNet_Contains net ip"
    using half_cases [of "BE_Uint32 (To4 ip)"] assms
    by (auto simp: half_nets Contains_v4_net BE_Uint32_def)
  then show ?thesis using captureCIDRs_distinct captureCIDRs_set by auto
qed

theorem capture_covers_ipv4_witness:
  "\<exists>c\<in>set (captureCIDRs ''198.18.0.0/15'' []). \<exists>a net. ParseCIDR c = Some (a, net) \<and>
     IPNet_Contains net [8, 8, 8, 8]"
  using capture_covers_ipv4 [of "[8, 8, 8, 8]" "''198.18.0.0/15''" "[]"] by simp

text \<open>
  On Darwin, a destination printed as an IPv4 prefix is recognised as the wanted
  network exactly when the prefix lengths agree and the addresses agree on that many bits.
\<close>

theorem routeDestination_exact:
  assumes "length b = 4" "n \<le> 32" "length c = 4" "m \<le> 32"
  shows "routeDestinationMatchesCIDR (v4_cidr_string b n) (v4_net c m) \<longleftrightarrow>
    n = m \<and> drop_bit (32 - n) (BE_Uint32 b) = drop_bit (32 - n) (BE_Uint32 c)"
proof -
  have slash: "CHR ''/'' \<in> set (v4_cidr_string b n)" by (simp add: v4_cidr_string_def)
  then have "v4_cidr_string b n \<noteq> ''default''" by auto
  moreover have "Contains (v4_cidr_string b n) ''/''"
    using slash by (simp add: Contains_def Cut_char)
  moreover have "Mask_Size (Mask (v4_net c m)) = (m, 32)" "Mask_Size (Mask (v4_net b n)) = (n, 32)"
    using assms by (simp_all add: v4_net_def Mask_Size_v4)
  ultimately show ?thesis
    using assms v4_net_IP_iff [of b c n]
    by (auto simp: routeDestinationMatchesCIDR_def normalize_v4 ParseCIDR_v4)
qed

theorem routeDestination_exact_witness:
  "routeDestinationMatchesCIDR (v4_cidr_string [10, 1, 2, 3] 8) (v4_net [10, 0, 0, 0] 8)"
  by (subst routeDestination_exact) (simp_all add: BE_Uint32_def)

end
