(* ===== verification/Host_Routes.thy ===== *)
theory Host_Routes
  imports Outbound Router
begin

section \<open>Host route exceptions (internal/forwarder)\<close>

text \<open>
  \<^verbatim>\<open>host_route_state.go\<close>: the file that remembers the host routes the program added, and their removal
  after a crash; \<^verbatim>\<open>route_exception_darwin.go\<close>: how a host route is added, checked and replaced with the
  \<^verbatim>\<open>route\<close> command; \<^verbatim>\<open>route_exception_fallback.go\<close>: the other systems, where nothing is done.
  The state is the operating system, read and changed by commands as in theory \<open>Router\<close>, and the
  decoded content of the file. A Go map used as a set is a list without duplicates; the order in
  which it is written is not relied on.
\<close>

subsection \<open>The state file\<close>

record 'w hr_state =
  hr_os :: 'w
  hr_file :: "string list option"

definition loadPersistedHostRoutes :: "'w hr_state \<Rightarrow> string list" where
  "loadPersistedHostRoutes st =
     (case hr_file st of
        None \<Rightarrow> []
      | Some l \<Rightarrow> remdups (filter (\<lambda>ip. To4 (ParseIP ip) \<noteq> []) l))"

definition savePersistedHostRoutes :: "string list \<Rightarrow> 'w hr_state \<Rightarrow> 'w hr_state" where
  "savePersistedHostRoutes routes st = st\<lparr>hr_file := Some routes\<rparr>"

definition rememberHostRoute :: "ip \<Rightarrow> 'w hr_state \<Rightarrow> 'w hr_state" where
  "rememberHostRoute ip st =
     (if To4 ip = [] then st
      else savePersistedHostRoutes (List.insert (IP_String ip) (loadPersistedHostRoutes st)) st)"

definition forgetHostRoute :: "string \<Rightarrow> 'w hr_state \<Rightarrow> 'w hr_state" where
  "forgetHostRoute ip st =
     savePersistedHostRoutes (removeAll ip (loadPersistedHostRoutes st)) st"

subsection \<open>The operations on host routes\<close>

record 'w host_ops =
  addHostRoute :: "string \<Rightarrow> string \<Rightarrow> ip \<Rightarrow> 'w hr_state \<Rightarrow> string option \<times> 'w hr_state"
  addScopedHostRoute :: "string \<Rightarrow> string \<Rightarrow> 'w hr_state \<Rightarrow> string option \<times> 'w hr_state"
  deleteHostRoute :: "string \<Rightarrow> 'w hr_state \<Rightarrow> 'w hr_state"
  hostRouteCurrent :: "string \<Rightarrow> string \<Rightarrow> ip \<Rightarrow> 'w hr_state \<Rightarrow> bool \<times> bool"
  scopedHostRouteCurrent :: "string \<Rightarrow> string \<Rightarrow> 'w hr_state \<Rightarrow> bool \<times> bool"

definition CleanupPersistedHostRoutes :: "'w host_ops \<Rightarrow> 'w hr_state \<Rightarrow> 'w hr_state" where
  "CleanupPersistedHostRoutes ops st =
     savePersistedHostRoutes [] (fold (deleteHostRoute ops) (loadPersistedHostRoutes st) st)"

fun CleanupHostRoutesByIP_loop :: "'w host_ops \<Rightarrow> string list \<Rightarrow> ip list \<Rightarrow> 'w hr_state \<Rightarrow> 'w hr_state" where
  "CleanupHostRoutesByIP_loop ops seen [] st = st"
| "CleanupHostRoutesByIP_loop ops seen (ip # ips) st =
     (if To4 ip = [] then CleanupHostRoutesByIP_loop ops seen ips st
      else let key = IP_String ip
           in if key \<in> set seen then CleanupHostRoutesByIP_loop ops seen ips st
              else CleanupHostRoutesByIP_loop ops (key # seen) ips
                     (forgetHostRoute key (deleteHostRoute ops key st)))"

definition CleanupHostRoutesByIP :: "'w host_ops \<Rightarrow> ip list \<Rightarrow> 'w hr_state \<Rightarrow> 'w hr_state" where
  "CleanupHostRoutesByIP ops ips st = CleanupHostRoutesByIP_loop ops [] ips st"

subsection \<open>Darwin\<close>

fun gateway_line :: "string list \<Rightarrow> ip" where
  "gateway_line [] = []"
| "gateway_line (l # ls) =
     (let line = TrimSpace l
      in if \<not> HasPrefix line ''gateway:'' then gateway_line ls
         else ParseIP (TrimSpace (TrimPrefix line ''gateway:'')))"

definition parseRouteGateway :: "string \<Rightarrow> ip" where
  "parseRouteGateway out = gateway_line (Split out [CHR 0x0A])"

definition usable_gateway :: "ip \<Rightarrow> bool" where
  "usable_gateway gw \<longleftrightarrow> gw \<noteq> [] \<and> To4 gw \<noteq> [] \<and> \<not> IsUnspecified gw"

definition routeOutputNeedsReplace :: "string \<Rightarrow> string \<Rightarrow> ip \<Rightarrow> bool" where
  "routeOutputNeedsReplace out ifn gw =
     (let gotIface = parseRouteInterface out
      in if gotIface \<noteq> [] \<and> gotIface \<noteq> ifn then True
         else let gotGateway = parseRouteGateway out
              in if gw = [] \<or> To4 gw = [] \<or> IsUnspecified gw then False
                 else gotGateway = [] \<or> \<not> IP_Equal gotGateway gw)"

definition darwin_hostRouteCurrent :: "'w query \<Rightarrow> string \<Rightarrow> string \<Rightarrow> ip \<Rightarrow> 'w hr_state \<Rightarrow> bool \<times> bool" where
  "darwin_hostRouteCurrent query ip ifn gw st =
     (case query [''route'', ''-n'', ''get'', ip] (hr_os st) of
        (out, ok) \<Rightarrow> if \<not> ok then (False, False) else (\<not> routeOutputNeedsReplace out ifn gw, True))"

definition routeNeedsReplace :: "'w query \<Rightarrow> string \<Rightarrow> string \<Rightarrow> ip \<Rightarrow> 'w hr_state \<Rightarrow> bool" where
  "routeNeedsReplace query ip ifn gw st =
     (case darwin_hostRouteCurrent query ip ifn gw st of (cur, ok) \<Rightarrow> ok \<and> \<not> cur)"

definition scopedGateway :: "'w query \<Rightarrow> string \<Rightarrow> string \<Rightarrow> 'w hr_state \<Rightarrow> (string, ip) res" where
  "scopedGateway query ip ifn st =
     (case query [''route'', ''-n'', ''get'', ip, ''-ifscope'', ifn] (hr_os st) of
        (out, ok) \<Rightarrow> if \<not> ok then Err out else Ok (parseRouteGateway out))"

definition defaultGatewayForInterface :: "'w query \<Rightarrow> string \<Rightarrow> 'w hr_state \<Rightarrow> (string, ip) res" where
  "defaultGatewayForInterface query ifn st =
     (case query [''route'', ''-n'', ''get'', ''default''] (hr_os st) of
        (out, ok) \<Rightarrow>
          if \<not> ok then Err out
          else let gotIface = parseRouteInterface out
               in if gotIface \<noteq> [] \<and> gotIface \<noteq> ifn then Ok [] else Ok (parseRouteGateway out))"

definition gatewayReachableOnInterface :: "net_env \<Rightarrow> ip \<Rightarrow> string \<Rightarrow> bool" where
  "gatewayReachableOnInterface env gw ifn =
     (if gw = [] \<or> To4 gw = [] then False
      else case InterfaceByName env ifn of
             Inl _ \<Rightarrow> False
           | Inr i \<Rightarrow>
               (case Addrs env i of
                  Inl _ \<Rightarrow> False
                | Inr as \<Rightarrow>
                    list_ex (\<lambda>a. case a of IPNetAddr n \<Rightarrow> To4 (IP n) \<noteq> [] \<and> IPNet_Contains n gw
                                  | _ \<Rightarrow> False) as))"

definition isTunnelInterface :: "string \<Rightarrow> bool" where
  "isTunnelInterface ifn = (HasPrefix ifn ''utun'' \<or> HasPrefix ifn ''tun'' \<or> HasPrefix ifn ''tap'')"

text \<open>The choice of the gateway that adding and checking a scoped route share.\<close>

definition reachable_gateway :: "net_env \<Rightarrow> 'w query \<Rightarrow> string \<Rightarrow> 'w hr_state \<Rightarrow> ip \<Rightarrow> ip" where
  "reachable_gateway env query ifn st gw =
     (if gw \<noteq> [] \<and> \<not> gatewayReachableOnInterface env gw ifn
      then (case defaultGatewayForInterface query ifn st of Inr fallback \<Rightarrow> fallback | Inl _ \<Rightarrow> [])
      else gw)"

definition darwin_deleteHostRoute :: "'w runner \<Rightarrow> string \<Rightarrow> 'w hr_state \<Rightarrow> 'w hr_state" where
  "darwin_deleteHostRoute run ip st =
     st\<lparr>hr_os := snd (run [''route'', ''delete'', ''-host'', ip] (hr_os st))\<rparr>"

definition replace_if_needed ::
    "'w query \<Rightarrow> 'w runner \<Rightarrow> string \<Rightarrow> string \<Rightarrow> ip \<Rightarrow> 'w hr_state \<Rightarrow> 'w hr_state" where
  "replace_if_needed query run ip ifn gw st =
     (if routeNeedsReplace query ip ifn gw st
      then forgetHostRoute ip (darwin_deleteHostRoute run ip st) else st)"

definition darwin_addHostRoute ::
    "'w query \<Rightarrow> 'w runner \<Rightarrow> string \<Rightarrow> string \<Rightarrow> ip \<Rightarrow> 'w hr_state \<Rightarrow> string option \<times> 'w hr_state" where
  "darwin_addHostRoute query run ip ifn gw st =
     (if To4 (ParseIP ip) = [] then (None, st)
      else
        let st1 = replace_if_needed query run ip ifn gw st;
            args = (if usable_gateway gw then [''route'', ''add'', ''-host'', ip, IP_String gw]
                    else [''route'', ''add'', ''-host'', ip, ''-interface'', ifn])
        in case run args (hr_os st1) of
             ((out, ok), w2) \<Rightarrow>
               if ok then (None, st1\<lparr>hr_os := w2\<rparr>)
               else if Contains out ''File exists'' then
                 (case run [''route'', ''delete'', ''-host'', ip] w2 of
                    ((_, False), w3) \<Rightarrow> (Some ''route delete'', st1\<lparr>hr_os := w3\<rparr>)
                  | ((_, True), w3) \<Rightarrow>
                      (case run args w3 of
                         ((out', ok'), w4) \<Rightarrow>
                           (if ok' then None else Some out', st1\<lparr>hr_os := w4\<rparr>)))
               else (Some out, st1\<lparr>hr_os := w2\<rparr>))"

definition darwin_addScopedHostRoute ::
    "net_env \<Rightarrow> 'w query \<Rightarrow> 'w runner \<Rightarrow> string \<Rightarrow> string \<Rightarrow> 'w hr_state \<Rightarrow>
     string option \<times> 'w hr_state" where
  "darwin_addScopedHostRoute env query run ip ifn st =
     (case scopedGateway query ''default'' ifn st of
        Inl err \<Rightarrow> (Some err, st)
      | Inr g \<Rightarrow>
          let gw = reachable_gateway env query ifn st g
          in if gw = [] \<and> \<not> isTunnelInterface ifn then (Some ''no gateway for physical iface'', st)
             else darwin_addHostRoute query run ip ifn gw (replace_if_needed query run ip ifn gw st))"

definition darwin_scopedHostRouteCurrent ::
    "net_env \<Rightarrow> 'w query \<Rightarrow> string \<Rightarrow> string \<Rightarrow> 'w hr_state \<Rightarrow> bool \<times> bool" where
  "darwin_scopedHostRouteCurrent env query ip ifn st =
     (case scopedGateway query ''default'' ifn st of
        Inl err \<Rightarrow> (False, False)
      | Inr g \<Rightarrow> darwin_hostRouteCurrent query ip ifn (reachable_gateway env query ifn st g) st)"

definition darwin_host_ops :: "net_env \<Rightarrow> 'w query \<Rightarrow> 'w runner \<Rightarrow> 'w host_ops" where
  "darwin_host_ops env query run =
     \<lparr>addHostRoute = darwin_addHostRoute query run,
      addScopedHostRoute = darwin_addScopedHostRoute env query run,
      deleteHostRoute = darwin_deleteHostRoute run,
      hostRouteCurrent = darwin_hostRouteCurrent query,
      scopedHostRouteCurrent = darwin_scopedHostRouteCurrent env query\<rparr>"

definition AddScopedHostRoute :: "'w host_ops \<Rightarrow> string \<Rightarrow> string \<Rightarrow> 'w hr_state \<Rightarrow> string option \<times> 'w hr_state" where
  "AddScopedHostRoute ops ip ifn st =
     (case addScopedHostRoute ops ip ifn st of
        (Some err, st') \<Rightarrow> (Some err, st')
      | (None, st') \<Rightarrow>
          (None, if ParseIP ip \<noteq> [] then rememberHostRoute (ParseIP ip) st' else st'))"

subsection \<open>The other systems\<close>

definition fallback_host_ops :: "'w host_ops" where
  "fallback_host_ops =
     \<lparr>addHostRoute = (\<lambda>ip ifn gw st. (None, st)), addScopedHostRoute = (\<lambda>ip ifn st. (None, st)),
      deleteHostRoute = (\<lambda>ip st. st), hostRouteCurrent = (\<lambda>ip ifn gw st. (False, False)),
      scopedHostRouteCurrent = (\<lambda>ip ifn st. (False, False))\<rparr>"

definition fallback_AddScopedHostRoute :: "string \<Rightarrow> string \<Rightarrow> 'w hr_state \<Rightarrow> string option \<times> 'w hr_state" where
  "fallback_AddScopedHostRoute ip ifn st = (None, st)"

subsection \<open>The persisted set\<close>

lemma set_load: "set (loadPersistedHostRoutes st) = {ip \<in> set (case hr_file st of None \<Rightarrow> [] | Some l \<Rightarrow> l). To4 (ParseIP ip) \<noteq> []}"
  by (auto simp: loadPersistedHostRoutes_def split: option.splits)

lemma To4_parse_IP_String:
  assumes "To4 ip \<noteq> []"
  shows "To4 (ParseIP (IP_String ip)) = To4 ip"
proof -
  have l: "length (To4 ip) = 4" by (rule To4_length [OF assms])
  have "ip \<noteq> []" "length ip = 4 \<or> length ip = 16"
    using assms by (auto simp: To4_def split: if_splits)
  then have "IP_String ip = v4_string (To4 ip)" using assms by (auto simp: IP_String_def)
  with l show ?thesis by (simp add: ParseIP_v4_string)
qed

lemma load_remember:
  "To4 ip \<noteq> [] \<Longrightarrow>
   set (loadPersistedHostRoutes (rememberHostRoute ip st)) = insert (IP_String ip) (set (loadPersistedHostRoutes st))"
  using To4_parse_IP_String [of ip]
  by (auto simp: set_load rememberHostRoute_def savePersistedHostRoutes_def)

lemma load_forget:
  "set (loadPersistedHostRoutes (forgetHostRoute ip st)) = set (loadPersistedHostRoutes st) - {ip}"
  by (auto simp: set_load forgetHostRoute_def savePersistedHostRoutes_def)

lemma load_os [simp]: "loadPersistedHostRoutes (st\<lparr>hr_os := w\<rparr>) = loadPersistedHostRoutes st"
  by (simp add: loadPersistedHostRoutes_def)

text \<open>
  What the forwarder relies on: deleting a route leaves the file alone, and adding one forgets at
  most the address it is for.
\<close>

locale host_route_contract =
  fixes ops :: "'w host_ops"
  assumes delete_file: "loadPersistedHostRoutes (deleteHostRoute ops k st) = loadPersistedHostRoutes st"
    and add_file: "set (loadPersistedHostRoutes st) - {k} \<subseteq>
      set (loadPersistedHostRoutes (snd (addHostRoute ops k i g st)))"
    and scoped_file: "set (loadPersistedHostRoutes st) - {k} \<subseteq>
      set (loadPersistedHostRoutes (snd (addScopedHostRoute ops k i st)))"
begin

lemma CleanupByIP_loop_file:
  "set (loadPersistedHostRoutes (CleanupHostRoutesByIP_loop ops seen ips st)) =
   set (loadPersistedHostRoutes st) - {k. k \<notin> set seen \<and> (\<exists>ip\<in>set ips. To4 ip \<noteq> [] \<and> IP_String ip = k)}"
  by (induction ips arbitrary: seen st) (auto simp: Let_def load_forget delete_file)

lemma CleanupByIP_file:
  "set (loadPersistedHostRoutes (CleanupHostRoutesByIP ops ips st)) =
   set (loadPersistedHostRoutes st) - {IP_String ip | ip. ip \<in> set ips \<and> To4 ip \<noteq> []}"
  by (auto simp: CleanupHostRoutesByIP_def CleanupByIP_loop_file)

end

lemma replace_if_needed_file:
  "set (loadPersistedHostRoutes st) - {k} \<subseteq> set (loadPersistedHostRoutes (replace_if_needed q run k i g st))"
  by (auto simp: replace_if_needed_def load_forget darwin_deleteHostRoute_def)

lemma darwin_addHostRoute_file:
  "set (loadPersistedHostRoutes st) - {k} \<subseteq>
   set (loadPersistedHostRoutes (snd (darwin_addHostRoute q run k i g st)))"
proof -
  let ?st = "replace_if_needed q run k i g st"
  have "loadPersistedHostRoutes (snd (darwin_addHostRoute q run k i g st)) \<in>
    {loadPersistedHostRoutes st, loadPersistedHostRoutes ?st}"
    by (auto simp: darwin_addHostRoute_def Let_def split: prod.splits bool.splits)
  then show ?thesis using replace_if_needed_file [of st k q run i g] by auto
qed

lemma darwin_addScoped_file:
  "set (loadPersistedHostRoutes st) - {k} \<subseteq>
   set (loadPersistedHostRoutes (snd (darwin_addScopedHostRoute env q run k i st)))"
proof (cases "scopedGateway q ''default'' i st")
  case (Inl err)
  then show ?thesis by (simp add: darwin_addScopedHostRoute_def)
next
  case (Inr g)
  let ?g = "reachable_gateway env q i st g"
  show ?thesis
    using Inr replace_if_needed_file [of st k q run i ?g]
      darwin_addHostRoute_file [of "replace_if_needed q run k i ?g st" k q run i ?g]
    by (auto simp: darwin_addScopedHostRoute_def Let_def)
qed

interpretation darwin_hosts: host_route_contract "darwin_host_ops env query run" for env query run
  by unfold_locales
     (simp_all add: darwin_host_ops_def darwin_deleteHostRoute_def darwin_addHostRoute_file darwin_addScoped_file)

interpretation fallback_hosts: host_route_contract fallback_host_ops
  by unfold_locales (auto simp: fallback_host_ops_def)

end
