(* ===== verification/Fake_IP.thy ===== *)
theory Fake_IP
  imports Rule_Engine
begin

section \<open>The fake IP pool and the DNS server (internal/fakeip)\<close>

text \<open>
  \<^verbatim>\<open>internal/fakeip/pool.go\<close>: the pool of fake addresses handed to matched domains, with its
  circular allocation counter and the two maps kept in step; \<^verbatim>\<open>internal/fakeip/server.go\<close>: the DNS
  server in front of it. Offsets and addresses are 32-bit words, as in the code. The mutex makes
  each operation atomic. The abstract specification of the pool is a bounded FIFO queue of
  domains (\<open>fifo_assign\<close>), which \<open>Assign\<close> refines through \<open>pool_queue\<close>.
\<close>

subsection \<open>The pool\<close>

record Pool =
  pool_cidr :: ipnet
  base :: "32 word"
  size :: "32 word"
  next_off :: "32 word"
  domainToOffset :: "string \<rightharpoonup> 32 word"
  offsetToDomain :: "32 word \<rightharpoonup> string"
  OnAssign :: bool

datatype pool_error = PoolInvalidCIDR string | PoolNotIPv4 string | PoolNoUsable string

definition ipToUint32 :: "ip \<Rightarrow> 32 word" where
  "ipToUint32 ip = BE_Uint32 (To4 ip)"

definition uint32ToIP :: "32 word \<Rightarrow> ip" where
  "uint32ToIP n = BE_PutUint32 n"

definition NewPool :: "string \<Rightarrow> (pool_error, Pool) res" where
  "NewPool cidr =
     (case ParseCIDR cidr of
        None \<Rightarrow> Err (PoolInvalidCIDR cidr)
      | Some (_, ipNet) \<Rightarrow>
          if To4 (IP ipNet) = [] then Err (PoolNotIPv4 cidr)
          else
            (case Mask_Size (Mask ipNet) of
               (ones, bits) \<Rightarrow>
                 if bits \<noteq> 32 then Err (PoolNotIPv4 cidr)
                 else if 32 \<le> ones then Err (PoolNoUsable cidr)
                 else
                   let networkAddr = ipToUint32 (To4 (IP ipNet));
                       b = networkAddr + 1;
                       sz = push_bit (32 - ones) 1 - 2
                   in if sz = 0 then Err (PoolNoUsable cidr)
                      else Ok \<lparr>pool_cidr = ipNet, base = b, size = sz, next_off = 0,
                               domainToOffset = Map.empty, offsetToDomain = Map.empty,
                               OnAssign = False\<rparr>))"

text \<open>
  \<open>Assign\<close> returns the address, the new pool and the arguments of the \<^verbatim>\<open>OnAssign\<close> callback when it
  is started.
\<close>

definition Assign :: "Pool \<Rightarrow> string \<Rightarrow> ip \<times> Pool \<times> (string \<times> ip) option" where
  "Assign p domain =
     (case domainToOffset p domain of
        Some offset \<Rightarrow> (uint32ToIP (base p + offset), p, None)
      | None \<Rightarrow>
          let offset = next_off p;
              p1 = p\<lparr>next_off := (next_off p + 1) mod size p\<rparr>;
              p2 = (case offsetToDomain p1 offset of
                      Some oldDomain \<Rightarrow> p1\<lparr>domainToOffset := (domainToOffset p1)(oldDomain := None)\<rparr>
                    | None \<Rightarrow> p1);
              p3 = p2\<lparr>domainToOffset := (domainToOffset p2)(domain \<mapsto> offset),
                      offsetToDomain := (offsetToDomain p2)(offset \<mapsto> domain)\<rparr>;
              ip = uint32ToIP (base p3 + offset)
          in (ip, p3, if OnAssign p3 then Some (domain, ip) else None))"

definition Lookup :: "Pool \<Rightarrow> ip \<Rightarrow> string option" where
  "Lookup p ip =
     (let ip4 = To4 ip
      in if ip4 = [] then None
         else
           let ipUint = ipToUint32 ip4
           in if ipUint < base p \<or> base p + size p \<le> ipUint then None
              else offsetToDomain p (ipUint - base p))"

definition InPool :: "Pool \<Rightarrow> ip \<Rightarrow> bool" where
  "InPool p ip = IPNet_Contains (pool_cidr p) ip"

abbreviation assign_ip :: "Pool \<Rightarrow> string \<Rightarrow> ip" where
  "assign_ip p d \<equiv> fst (Assign p d)"

abbreviation assign_pool :: "Pool \<Rightarrow> string \<Rightarrow> Pool" where
  "assign_pool p d \<equiv> fst (snd (Assign p d))"

subsection \<open>The invariant of the pool\<close>

text \<open>
  The pool is a network \<open>a/n\<close> with \<open>n \<le> 30\<close>, its offsets stay below the size, the two maps are
  inverse to each other, and the occupied offsets are those below the counter until the counter
  has wrapped once, all of them afterwards.
\<close>

definition pool_full :: "Pool \<Rightarrow> bool" where
  "pool_full p = (offsetToDomain p (next_off p) \<noteq> None)"

definition pool_shape :: "Pool \<Rightarrow> bool" where
  "pool_shape p =
     (\<exists>n\<le>30. pool_cidr p = \<lparr>IP = BE_PutUint32 (base p - 1), Mask = CIDRMask (int n) 32\<rparr> \<and>
        take_bit (32 - n) (base p - 1) = 0 \<and> unat (size p) = 2 ^ (32 - n) - 2)"

definition pool_maps :: "Pool \<Rightarrow> bool" where
  "pool_maps p =
     ((\<forall>d off. domainToOffset p d = Some off \<longleftrightarrow> offsetToDomain p off = Some d) \<and>
      next_off p < size p \<and>
      (\<forall>off. offsetToDomain p off \<noteq> None \<longleftrightarrow>
        (if pool_full p then off < size p else off < next_off p)))"

definition pool_inv :: "Pool \<Rightarrow> bool" where
  "pool_inv p \<longleftrightarrow> pool_shape p \<and> pool_maps p"

subsection \<open>The abstract pool: a bounded queue\<close>

definition fifo_assign :: "nat \<Rightarrow> string list \<Rightarrow> string \<Rightarrow> string list" where
  "fifo_assign cap q d =
     (if d \<in> set q then q else (if length q = cap then tl q else q) @ [d])"

definition pool_slots :: "Pool \<Rightarrow> nat list" where
  "pool_slots p =
     (let n = unat (next_off p)
      in if pool_full p then [n..<unat (size p)] @ [0..<n] else [0..<n])"

definition pool_domain :: "Pool \<Rightarrow> nat \<Rightarrow> string" where
  "pool_domain p i = the (offsetToDomain p (of_nat i))"

definition pool_queue :: "Pool \<Rightarrow> string list" where
  "pool_queue p = map (pool_domain p) (pool_slots p)"

subsection \<open>Arithmetic of the pool\<close>

lemma unat_take_bit_mod: "unat (take_bit k (w :: 32 word)) = unat w mod 2 ^ k"
  by (subst unsigned_take_bit_eq) (rule take_bit_eq_mod)

lemma unat_drop_bit_div: "unat (drop_bit k (w :: 32 word)) = unat w div 2 ^ k"
  by (subst unat_drop_bit_eq) (rule drop_bit_eq_div)

lemma shape_obtain:
  assumes "pool_shape p"
  obtains n where "n \<le> 30"
    "pool_cidr p = \<lparr>IP = BE_PutUint32 (base p - 1), Mask = CIDRMask (int n) 32\<rparr>"
    "2 ^ (32 - n) dvd unat (base p - 1)" "unat (size p) = 2 ^ (32 - n) - 2"
    "unat (base p) = unat (base p - 1) + 1" "unat (base p - 1) + 2 ^ (32 - n) \<le> 2 ^ 32"
proof -
  from assms obtain n where n: "n \<le> 30"
    "pool_cidr p = \<lparr>IP = BE_PutUint32 (base p - 1), Mask = CIDRMask (int n) 32\<rparr>"
    "take_bit (32 - n) (base p - 1) = 0" "unat (size p) = 2 ^ (32 - n) - 2"
    by (auto simp: pool_shape_def)
  let ?N = "unat (base p - 1)" and ?k = "(2::nat) ^ (32 - n)"
  from n(3) have "unat (take_bit (32 - n) (base p - 1)) = 0" by simp
  then have "?N mod ?k = 0" by (simp only: unat_take_bit_mod)
  then have dvd: "?k dvd ?N" by auto
  have lt: "?N < 2 ^ 32" using unsigned_less [of "base p - 1"] by simp
  have kdvd: "?k dvd 2 ^ 32" by (rule le_imp_power_dvd) simp
  have le: "?N + ?k \<le> 2 ^ 32"
  proof -
    from dvd kdvd obtain a b where "?N = ?k * a" "(2::nat) ^ 32 = ?k * b" by (auto elim!: dvdE)
    with lt have "?k * a < ?k * b" by metis
    then have "a + 1 \<le> b" by simp
    then have "?k * (a + 1) \<le> ?k * b" by (rule mult_le_mono2)
    with \<open>?N = ?k * a\<close> \<open>(2::nat) ^ 32 = ?k * b\<close> show ?thesis by (simp add: algebra_simps)
  qed
  have "1 < ?k" by (rule one_less_power) (use n(1) in simp_all)
  with le have "?N + 1 < 2 ^ 32" by linarith
  then have "unat (base p) = ?N + 1"
    using unat_add_lem [of "base p - 1" 1] by simp
  with n dvd le that show thesis by blast
qed

lemma unat_base_add:
  assumes "pool_shape p" "off < size p"
  shows "unat (base p + off) = unat (base p) + unat off"
    and "unat (base p + size p) = unat (base p) + unat (size p)"
proof -
  obtain n where n: "unat (size p) = 2 ^ (32 - n) - 2"
    "unat (base p) = unat (base p - 1) + 1" "unat (base p - 1) + 2 ^ (32 - n) \<le> 2 ^ 32"
    using shape_obtain [OF assms(1)] by metis
  have "unat off < unat (size p)" using assms(2) by (simp add: word_less_nat_alt)
  with n have "unat (base p) + unat (size p) < 2 ^ 32" "unat (base p) + unat off < 2 ^ 32" by linarith+
  then show "unat (base p + off) = unat (base p) + unat off"
    and "unat (base p + size p) = unat (base p) + unat (size p)"
    by (simp_all add: unat_word_ariths)
qed

lemma next_off_step:
  assumes "pool_maps p"
  shows "unat ((next_off p + 1) mod size p) =
    (if unat (next_off p) + 1 = unat (size p) then 0 else unat (next_off p) + 1)"
proof -
  from assms have lt: "unat (next_off p) < unat (size p)"
    by (simp add: pool_maps_def word_less_nat_alt)
  moreover have "unat (size p) < 2 ^ 32" using unsigned_less [of "size p"] by simp
  ultimately have "unat (next_off p + 1) = unat (next_off p) + 1"
    by (simp add: unat_word_ariths)
  with lt show ?thesis by (simp add: unat_mod)
qed

subsection \<open>Effect of an assignment\<close>

lemma Assign_known:
  "domainToOffset p d = Some off \<Longrightarrow> Assign p d = (uint32ToIP (base p + off), p, None)"
  by (simp add: Assign_def)

lemma Assign_new:
  assumes "domainToOffset p d = None"
  shows "assign_ip p d = uint32ToIP (base p + next_off p)"
    and "base (assign_pool p d) = base p" "size (assign_pool p d) = size p"
    and "pool_cidr (assign_pool p d) = pool_cidr p"
    and "next_off (assign_pool p d) = (next_off p + 1) mod size p"
    and "offsetToDomain (assign_pool p d) = (offsetToDomain p)(next_off p \<mapsto> d)"
    and "domainToOffset (assign_pool p d) =
      (case offsetToDomain p (next_off p) of
         Some old \<Rightarrow> (domainToOffset p)(old := None, d \<mapsto> next_off p)
       | None \<Rightarrow> (domainToOffset p)(d \<mapsto> next_off p))"
  using assms by (simp_all add: Assign_def Let_def split: option.splits)

lemma Assign_frame [simp]:
  "base (assign_pool p d) = base p" "size (assign_pool p d) = size p"
  "pool_cidr (assign_pool p d) = pool_cidr p"
  by (cases "domainToOffset p d"; simp add: Assign_known Assign_new)+

lemma pool_maps_inverse:
  "pool_maps p \<Longrightarrow> domainToOffset p d = Some off \<longleftrightarrow> offsetToDomain p off = Some d"
  by (simp add: pool_maps_def)

lemma pool_maps_bound:
  assumes "pool_maps p" "offsetToDomain p off = Some d"
  shows "off < size p"
proof -
  from assms(1) have "offsetToDomain p off \<noteq> None \<longleftrightarrow> (if pool_full p then off < size p else off < next_off p)"
    and "next_off p < size p"
    by (simp_all add: pool_maps_def)
  with assms(2) show ?thesis by (auto split: if_splits)
qed

lemma Assign_new_full:
  assumes "pool_maps p" "domainToOffset p d = None"
  shows "pool_full (assign_pool p d) \<longleftrightarrow> pool_full p \<or> unat (next_off p) + 1 = unat (size p)"
proof -
  let ?n = "unat (next_off p)" and ?n' = "next_off (assign_pool p d)"
  have lt: "next_off p < size p" using assms(1) by (simp add: pool_maps_def)
  have n': "unat ?n' = (if ?n + 1 = unat (size p) then 0 else ?n + 1)"
    using next_off_step [OF assms(1)] by (simp add: Assign_new(5) [OF assms(2)])
  have occ: "offsetToDomain p ?n' \<noteq> None \<longleftrightarrow>
      (if pool_full p then ?n' < size p else ?n' < next_off p)"
    using assms(1) by (simp add: pool_maps_def)
  have bound: "?n' < size p"
    using n' lt by (auto simp: word_less_nat_alt split: if_splits)
  have "pool_full (assign_pool p d) \<longleftrightarrow> ?n' = next_off p \<or> offsetToDomain p ?n' \<noteq> None"
    by (simp add: pool_full_def Assign_new(6) [OF assms(2)])
  also have "\<dots> \<longleftrightarrow> pool_full p \<or> ?n + 1 = unat (size p)"
  proof (cases "?n + 1 = unat (size p)")
    case True
    then have "unat ?n' = 0" using n' by simp
    then have "?n' = 0" by (simp add: unat_eq_zero)
    then have "?n' = next_off p \<or> ?n' < next_off p"
      by (metis word_neq_0_conv)
    with occ bound True show ?thesis by auto
  next
    case False
    then have "unat ?n' = ?n + 1" using n' by simp
    then have "?n' \<noteq> next_off p" "\<not> ?n' < next_off p" by (auto simp: word_less_nat_alt)
    with occ bound False show ?thesis by auto
  qed
  finally show ?thesis .
qed

lemma Assign_maps:
  assumes "pool_maps p"
  shows "pool_maps (assign_pool p d)"
proof (cases "domainToOffset p d")
  case (Some off)
  then show ?thesis using assms by (simp add: Assign_known)
next
  case None
  let ?q = "assign_pool p d" and ?n = "next_off p"
  note new = Assign_new [OF None]
  have lt: "?n < size p" using assms by (simp add: pool_maps_def)
  have nd: "offsetToDomain p off \<noteq> Some d" for off
    using None pool_maps_inverse [OF assms, of d off] by simp
  have inj: "o1 = o2" if "offsetToDomain p o1 = Some e" "offsetToDomain p o2 = Some e" for o1 o2 e
    using that pool_maps_inverse [OF assms, of e] by (metis option.inject)
  have inv: "domainToOffset ?q e = Some off \<longleftrightarrow> offsetToDomain ?q off = Some e" for e off
    using pool_maps_inverse [OF assms] nd None inj
    by (auto simp: new(6,7) split: option.splits if_splits)
  have step: "unat (next_off ?q) = (if unat ?n + 1 = unat (size p) then 0 else unat ?n + 1)"
    using next_off_step [OF assms] by (simp add: new(5))
  have nlt: "next_off ?q < size ?q"
    using step lt by (auto simp: word_less_nat_alt split: if_splits)
  have old: "offsetToDomain p off \<noteq> None \<longleftrightarrow> (if pool_full p then off < size p else off < ?n)" for off
    using assms by (simp add: pool_maps_def)
  have occ: "offsetToDomain ?q off \<noteq> None \<longleftrightarrow>
      (if pool_full ?q then off < size ?q else off < next_off ?q)" for off
  proof -
    have "offsetToDomain ?q off \<noteq> None \<longleftrightarrow> off = ?n \<or> offsetToDomain p off \<noteq> None"
      by (simp add: new(6))
    also have "\<dots> \<longleftrightarrow> off = ?n \<or> (if pool_full p then off < size p else off < ?n)"
      using old by simp
    also have "\<dots> \<longleftrightarrow> (if pool_full p then unat off < unat (size p) else unat off < unat ?n + 1)"
      using lt by (auto simp: word_less_nat_alt less_Suc_eq dest: word_unat_eq_iff [THEN iffD2])
    also have "\<dots> \<longleftrightarrow> (if pool_full ?q then off < size ?q else off < next_off ?q)"
      using step Assign_new_full [OF assms None]
      by (auto simp: word_less_nat_alt split: if_splits)
    finally show ?thesis .
  qed
  from inv nlt occ show ?thesis unfolding pool_maps_def by blast
qed

lemma Assign_inv: "pool_inv p \<Longrightarrow> pool_inv (assign_pool p d)"
  by (simp add: pool_inv_def Assign_maps pool_shape_def)

lemma Lookup_offset:
  assumes "pool_shape p" "off < size p"
  shows "Lookup p (uint32ToIP (base p + off)) = offsetToDomain p off"
proof -
  note u = unat_base_add [OF assms]
  have "unat off < unat (size p)" using assms(2) by (simp add: word_less_nat_alt)
  then have "\<not> base p + off < base p" "\<not> base p + size p \<le> base p + off"
    using u by (auto simp: word_less_nat_alt word_le_nat_alt)
  then show ?thesis
    by (simp add: Lookup_def uint32ToIP_def ipToUint32_def length_4_ne Let_def)
qed

lemma assign_ip_offset:
  assumes "pool_maps p"
  shows "\<exists>off. off < size p \<and> assign_ip p d = uint32ToIP (base p + off) \<and>
    offsetToDomain (assign_pool p d) off = Some d"
proof (cases "domainToOffset p d")
  case (Some off)
  then have "offsetToDomain p off = Some d" using pool_maps_inverse [OF assms] by simp
  with Some pool_maps_bound [OF assms] show ?thesis
    by (intro exI [of _ off]) (simp add: Assign_known)
next
  case None
  have "next_off p < size p" using assms by (simp add: pool_maps_def)
  then show ?thesis
    by (intro exI [of _ "next_off p"]) (simp add: Assign_new [OF None])
qed

lemma Lookup_assign: "pool_inv p \<Longrightarrow> Lookup (assign_pool p d) (assign_ip p d) = Some d"
  using assign_ip_offset [of p d] Lookup_offset [of "assign_pool p d"]
  by (auto simp: pool_inv_def pool_shape_def)

lemma drop_bit_aligned_add:
  assumes "2 ^ k dvd N" "j < 2 ^ k"
  shows "(N + j) div 2 ^ k = (N :: nat) div 2 ^ k"
  using assms by (auto elim!: dvdE)

lemma InPool_offset:
  assumes "pool_shape p" "off < size p"
  shows "InPool p (uint32ToIP (base p + off))"
proof -
  obtain n where n: "n \<le> 30"
    "pool_cidr p = \<lparr>IP = BE_PutUint32 (base p - 1), Mask = CIDRMask (int n) 32\<rparr>"
    "2 ^ (32 - n) dvd unat (base p - 1)" "unat (size p) = 2 ^ (32 - n) - 2"
    "unat (base p) = unat (base p - 1) + 1"
    using shape_obtain [OF assms(1)] by metis
  have off: "unat off < 2 ^ (32 - n) - 2"
    using assms(2) n(4) by (simp add: word_less_nat_alt)
  have "unat (base p + off) = unat (base p - 1) + (1 + unat off)"
    using unat_base_add(1) [OF assms] n(5) by simp
  then have "unat (drop_bit (32 - n) (base p + off)) = unat (drop_bit (32 - n) (base p - 1))"
    using drop_bit_aligned_add [OF n(3), of "1 + unat off"] off
    by (simp only: unat_drop_bit_div)
  then have "drop_bit (32 - n) (base p + off) = drop_bit (32 - n) (base p - 1)"
    by (rule word_unat_eq_iff [THEN iffD2])
  then show ?thesis
    using n(1) by (simp add: InPool_def n(2) Contains_v4 uint32ToIP_def length_4_ne)
qed

lemma InPool_assign: "pool_inv p \<Longrightarrow> InPool p (assign_ip p d)"
  using assign_ip_offset [of p d] InPool_offset [of p] by (auto simp: pool_inv_def)

subsection \<open>Creation\<close>

lemma ParseCIDR_shape:
  assumes "ParseCIDR s = Some (a, net)" "snd (Mask_Size (Mask net)) = 32"
  obtains b n where "length b = 4" "n \<le> 32" "a = v4InV6Prefix @ b"
    "net = \<lparr>IP = BE_PutUint32 (BE_Uint32 b AND NOT (mask (32 - n))), Mask = CIDRMask (int n) 32\<rparr>"
proof -
  from assms(1) obtain x y where "Cut s ''/'' = Some (x, y)"
    by (auto simp: ParseCIDR_def split: option.splits)
  with assms(1) obtain addr where pa: "ParseAddr x = Some addr"
    by (auto simp: ParseCIDR_def split: option.splits)
  with assms(1) \<open>Cut s ''/'' = Some (x, y)\<close> obtain n where n: "n \<le> BitLen addr"
    and a: "a = As16 addr"
    and net: "net = \<lparr>IP = IP_Mask (As16 addr) (CIDRMask (int n) (BitLen addr)),
                     Mask = CIDRMask (int n) (BitLen addr)\<rparr>"
    by (auto simp: ParseCIDR_def Let_def not_less split: option.splits if_splits)
  show thesis
  proof (cases addr)
    case (Addr6 b z)
    then have "length (Mask net) = 16"
      using n by (simp add: net BitLen_def CIDRMask_def)
    then have "snd (Mask_Size (Mask net)) \<noteq> 32"
      by (simp add: Mask_Size_def split: option.splits)
    with assms(2) show thesis by simp
  next
    case (Addr4 b)
    have scan: "ParseAddr_scan w x = Some (Addr4 b) \<Longrightarrow> length b = 4" for w x
      by (induction w x rule: ParseAddr_scan.induct)
         (auto split: if_splits option.splits dest: parseIPv4_length
           simp: parseIPv6_def Let_def)
    with pa Addr4 have b: "length b = 4" by (auto simp: ParseAddr_def)
    let ?m = "CIDRMask (int n) 32"
    from n Addr4 have n32: "n \<le> 32" by (simp add: BitLen_def)
    have "IP_Mask (As16 addr) ?m = BE_PutUint32 (BE_Uint32 b AND NOT (mask (32 - n)))"
      using IP_Mask_v4 [OF b n32] by (simp add: Addr4 As16_def)
    with net Addr4 have "net = \<lparr>IP = BE_PutUint32 (BE_Uint32 b AND NOT (mask (32 - n))), Mask = ?m\<rparr>"
      by (simp add: BitLen_def)
    with b n32 a Addr4 that show thesis by (auto simp: As16_def)
  qed
qed

lemma pool_size_word:
  assumes "n < 32"
  shows "unat (push_bit (32 - n) 1 - 2 :: 32 word) = 2 ^ (32 - n) - 2"
proof (cases "n = 0")
  case True
  then show ?thesis by simp
next
  case False
  have u: "unat (push_bit (32 - n) 1 :: 32 word) = 2 ^ (32 - n)"
  proof -
    have "unat (push_bit (32 - n) 1 :: 32 word) = take_bit 32 (push_bit (32 - n) (1 :: nat))"
      by (subst unsigned_push_bit_eq) simp
    also have "\<dots> = 2 ^ (32 - n) mod 2 ^ 32" by (simp add: take_bit_eq_mod push_bit_eq_mult)
    also have "\<dots> = 2 ^ (32 - n)" by (rule mod_less, rule power_strict_increasing) (use False in simp_all)
    finally show ?thesis .
  qed
  have "(2::nat) ^ 1 \<le> 2 ^ (32 - n)" by (rule power_increasing) (use assms in simp_all)
  with u have "(2 :: 32 word) \<le> push_bit (32 - n) 1" by (simp add: word_le_nat_alt)
  then have "unat (push_bit (32 - n) 1 - 2 :: 32 word) = unat (push_bit (32 - n) 1 :: 32 word) - unat (2 :: 32 word)"
    by (rule unat_sub)
  with u show ?thesis by simp
qed

lemma take_bit_not_mask [simp]: "take_bit k (NOT (mask k)) = (0 :: 32 word)"
  by (rule bit_word_eqI) (auto simp: bit_simps)

lemma NewPool_Ok:
  assumes "NewPool cidr = Ok p"
  obtains b n where "length b = 4" "n \<le> 30"
    "ParseCIDR cidr = Some (v4InV6Prefix @ b, pool_cidr p)"
    "pool_cidr p = \<lparr>IP = BE_PutUint32 (BE_Uint32 b AND NOT (mask (32 - n))), Mask = CIDRMask (int n) 32\<rparr>"
    "base p = (BE_Uint32 b AND NOT (mask (32 - n))) + 1" "unat (size p) = 2 ^ (32 - n) - 2"
    "next_off p = 0" "domainToOffset p = Map.empty" "offsetToDomain p = Map.empty"
proof -
  from assms obtain a net ones where pc: "ParseCIDR cidr = Some (a, net)"
    and ms: "Mask_Size (Mask net) = (ones, 32)" and ones: "ones < 32"
    and sz: "push_bit (32 - ones) 1 - 2 \<noteq> (0 :: 32 word)"
    and p: "p = \<lparr>pool_cidr = net, base = ipToUint32 (To4 (IP net)) + 1,
        size = push_bit (32 - ones) 1 - 2, next_off = 0, domainToOffset = Map.empty,
        offsetToDomain = Map.empty, OnAssign = False\<rparr>"
    by (auto simp: NewPool_def Let_def split: option.splits if_splits prod.splits)
  obtain b n where b: "length b = 4" "n \<le> 32" "a = v4InV6Prefix @ b"
    "net = \<lparr>IP = BE_PutUint32 (BE_Uint32 b AND NOT (mask (32 - n))), Mask = CIDRMask (int n) 32\<rparr>"
    using ParseCIDR_shape [OF pc] ms by auto
  from ms b have eq: "ones = n"
    by (simp add: Mask_Size_v4)
  have szn: "unat (push_bit (32 - n) 1 - 2 :: 32 word) = 2 ^ (32 - n) - 2"
    using pool_size_word ones eq by simp
  have "n \<noteq> 31"
  proof
    assume "n = 31"
    with szn have "unat (push_bit (32 - n) 1 - 2 :: 32 word) = 0" by simp
    with sz eq show False by (simp add: unat_eq_zero)
  qed
  with ones eq have "n \<le> 30" by simp
  with b pc p eq szn that show thesis
    by (auto simp: ipToUint32_def)
qed

lemma NewPool_inv: "NewPool cidr = Ok p \<Longrightarrow> pool_inv p"
proof -
  assume new: "NewPool cidr = Ok p"
  obtain b n where *: "n \<le> 30"
    "pool_cidr p = \<lparr>IP = BE_PutUint32 (BE_Uint32 b AND NOT (mask (32 - n))), Mask = CIDRMask (int n) 32\<rparr>"
    "base p = (BE_Uint32 b AND NOT (mask (32 - n))) + 1" "unat (size p) = 2 ^ (32 - n) - 2"
    "next_off p = 0" "domainToOffset p = Map.empty" "offsetToDomain p = Map.empty"
    using NewPool_Ok [OF new] .
  from * have "pool_shape p"
    by (auto simp: pool_shape_def intro!: exI [of _ n])
  moreover have "pool_maps p"
  proof -
    have "(2::nat) ^ 2 \<le> 2 ^ (32 - n)" by (rule power_increasing) (use *(1) in simp_all)
    with *(4) have "0 < unat (size p)" by simp
    then show ?thesis
      by (auto simp: pool_maps_def pool_full_def * word_less_nat_alt)
  qed
  ultimately show ?thesis by (simp add: pool_inv_def)
qed

subsection \<open>The pool refines the bounded queue\<close>

lemma pool_next_less: "pool_maps p \<Longrightarrow> unat (next_off p) < unat (size p)"
  by (simp add: pool_maps_def word_less_nat_alt)

lemma unat_size_less: "unat (size p) < 2 ^ 32"
  using unsigned_less [of "size p"] by simp

lemma unat_of_nat_32: "i < 2 ^ 32 \<Longrightarrow> unat (of_nat i :: 32 word) = i"
  by (simp add: unat_of_nat)

lemma set_pool_slots:
  "pool_maps p \<Longrightarrow>
   set (pool_slots p) = (if pool_full p then {0..<unat (size p)} else {0..<unat (next_off p)})"
  using pool_next_less [of p] by (auto simp: pool_slots_def Let_def)

lemma slot_bound: "pool_maps p \<Longrightarrow> i \<in> set (pool_slots p) \<Longrightarrow> i < unat (size p)"
  using pool_next_less [of p] by (auto simp: set_pool_slots split: if_splits)

lemma slot_occupied:
  assumes "pool_maps p"
  shows "unat off \<in> set (pool_slots p) \<longleftrightarrow> offsetToDomain p off \<noteq> None"
  using assms by (simp add: set_pool_slots) (simp add: pool_maps_def word_less_nat_alt)

lemma length_pool_queue:
  assumes "pool_maps p"
  shows "length (pool_queue p) = unat (size p) \<longleftrightarrow> pool_full p"
  using pool_next_less [OF assms] by (auto simp: pool_queue_def pool_slots_def Let_def)

lemma set_pool_queue:
  assumes "pool_maps p"
  shows "d \<in> set (pool_queue p) \<longleftrightarrow> domainToOffset p d \<noteq> None"
proof
  assume "d \<in> set (pool_queue p)"
  then obtain i where i: "i \<in> set (pool_slots p)" "d = pool_domain p i"
    by (auto simp: pool_queue_def)
  then have "i < 2 ^ 32" using slot_bound [OF assms] unat_size_less [of p] less_trans by blast
  then have "unat (of_nat i :: 32 word) = i" by (rule unat_of_nat_32)
  with i slot_occupied [OF assms, of "of_nat i"] have "offsetToDomain p (of_nat i) = Some d"
    by (auto simp: pool_domain_def)
  with pool_maps_inverse [OF assms] show "domainToOffset p d \<noteq> None" by (metis option.distinct(1))
next
  assume "domainToOffset p d \<noteq> None"
  then obtain off where off: "offsetToDomain p off = Some d" using pool_maps_inverse [OF assms] by auto
  then have "unat off \<in> set (pool_slots p)" using slot_occupied [OF assms] by simp
  moreover from off have "pool_domain p (unat off) = d" by (simp add: pool_domain_def)
  ultimately show "d \<in> set (pool_queue p)" by (auto simp: pool_queue_def)
qed

lemma pool_slots_new:
  assumes "pool_maps p" "domainToOffset p d = None"
  shows "pool_slots (assign_pool p d) =
    (if pool_full p then tl (pool_slots p) else pool_slots p) @ [unat (next_off p)]"
proof -
  let ?n = "unat (next_off p)" and ?s = "unat (size p)"
  have lt: "?n < ?s" by (rule pool_next_less [OF assms(1)])
  have step: "unat (next_off (assign_pool p d)) = (if ?n + 1 = ?s then 0 else ?n + 1)"
    using next_off_step [OF assms(1)] by (simp add: Assign_new(5) [OF assms(2)])
  have full: "pool_full (assign_pool p d) \<longleftrightarrow> pool_full p \<or> ?n + 1 = ?s"
    by (rule Assign_new_full [OF assms])
  have cons: "[?n..<?s] = ?n # [Suc ?n..<?s]" using lt by (rule upt_conv_Cons)
  have snoc: "[0..<Suc ?n] = [0..<?n] @ [?n]" by simp
  show ?thesis
  proof (cases "?n + 1 = ?s")
    case True
    then have "?s = Suc ?n" by simp
    with True step full show ?thesis by (simp add: pool_slots_def Let_def)
  next
    case False
    with step full cons snoc show ?thesis
      by (simp add: pool_slots_def Let_def)
  qed
qed

lemma next_not_in_kept:
  assumes "pool_maps p"
  shows "unat (next_off p) \<notin> set (if pool_full p then tl (pool_slots p) else pool_slots p)"
proof -
  let ?n = "unat (next_off p)" and ?s = "unat (size p)"
  have "[?n..<?s] = ?n # [Suc ?n..<?s]" using pool_next_less [OF assms] by (rule upt_conv_Cons)
  then show ?thesis by (auto simp: pool_slots_def Let_def)
qed

lemma Assign_refines_fifo:
  assumes "pool_maps p"
  shows "pool_queue (assign_pool p d) = fifo_assign (unat (size p)) (pool_queue p) d"
proof (cases "domainToOffset p d")
  case (Some off)
  with set_pool_queue [OF assms, of d] show ?thesis by (simp add: Assign_known fifo_assign_def)
next
  case None
  let ?n = "unat (next_off p)" and ?keep = "if pool_full p then tl (pool_slots p) else pool_slots p"
  have dom: "pool_domain (assign_pool p d) i = (if i = ?n then d else pool_domain p i)"
    if "i < 2 ^ 32" for i
    using unat_of_nat_32 [OF that]
    by (auto simp: pool_domain_def Assign_new(6) [OF None])
  have keep_bound: "i < 2 ^ 32" if "i \<in> set ?keep" for i
  proof -
    from that have "i \<in> set (pool_slots p)"
      by (cases "pool_slots p") (auto split: if_splits)
    then show ?thesis using slot_bound [OF assms] unat_size_less [of p] less_trans by blast
  qed
  have "map (pool_domain (assign_pool p d)) ?keep = map (pool_domain p) ?keep"
    using next_not_in_kept [OF assms] keep_bound by (intro map_cong refl) (metis dom)
  moreover have "pool_domain (assign_pool p d) ?n = d"
    using dom [of ?n] pool_next_less [OF assms] unat_size_less [of p] by simp
  ultimately have "pool_queue (assign_pool p d) = map (pool_domain p) ?keep @ [d]"
    unfolding pool_queue_def pool_slots_new [OF assms None] by simp
  moreover have "d \<notin> set (pool_queue p)" using set_pool_queue [OF assms] None by simp
  ultimately show ?thesis
    using length_pool_queue [OF assms] by (simp add: fifo_assign_def pool_queue_def map_tl)
qed

subsection \<open>Sequences of assignments\<close>

text \<open>
  A run of assignments, with the log of the addresses handed out.
\<close>

primrec assign_run :: "('p \<Rightarrow> string \<Rightarrow> ip \<times> 'p) \<Rightarrow> 'p \<Rightarrow> string list \<Rightarrow> (ip \<times> string) list \<times> 'p" where
  "assign_run assign p [] = ([], p)"
| "assign_run assign p (d # ds) =
     (let (a, p') = assign p d; (lg, q) = assign_run assign p' ds in ((a, d) # lg, q))"

text \<open>
  The contract the DNS server and the forwarder rely on: an assignment keeps the invariant, the
  address it returns maps back to the domain, lies in the pool, and no other address changes its
  domain.
\<close>

locale fake_ip_pool =
  fixes inv :: "'p \<Rightarrow> bool"
    and assign :: "'p \<Rightarrow> string \<Rightarrow> ip \<times> 'p"
    and lookup :: "'p \<Rightarrow> ip \<Rightarrow> string option"
    and in_pool :: "'p \<Rightarrow> ip \<Rightarrow> bool"
  assumes assign_inv: "inv p \<Longrightarrow> inv (snd (assign p d))"
    and lookup_assign: "inv p \<Longrightarrow> lookup (snd (assign p d)) (fst (assign p d)) = Some d"
    and lookup_other:
      "inv p \<Longrightarrow> length a = 4 \<Longrightarrow> a \<noteq> fst (assign p d) \<Longrightarrow>
       lookup (snd (assign p d)) a = lookup p a"
    and in_pool_assign: "inv p \<Longrightarrow> in_pool p (fst (assign p d))"
    and in_pool_frame: "in_pool (snd (assign p d)) a = in_pool p a"
    and assign_length: "length (fst (assign p d)) = 4"
begin

lemma run_inv: "inv p \<Longrightarrow> assign_run assign p ds = (lg, q) \<Longrightarrow> inv q"
proof (induction ds arbitrary: p lg)
  case (Cons d ds)
  then show ?case using assign_inv [of p d] by (auto simp: Let_def split: prod.splits)
qed simp

lemma run_untouched:
  "inv p \<Longrightarrow> length a = 4 \<Longrightarrow> assign_run assign p ds = (lg, q) \<Longrightarrow> a \<notin> fst ` set lg \<Longrightarrow>
   lookup q a = lookup p a"
proof (induction ds arbitrary: p lg)
  case (Cons d ds)
  then show ?case
    using assign_inv [of p d] lookup_other [of p a d] by (auto simp: Let_def split: prod.splits)
qed simp

lemma run_last:
  "inv p \<Longrightarrow> length a = 4 \<Longrightarrow> assign_run assign p ds = (lg, q) \<Longrightarrow> map_of (rev lg) a = Some d \<Longrightarrow>
   lookup q a = Some d"
proof (induction ds arbitrary: p lg)
  case (Cons e ds)
  obtain b p' where b: "assign p e = (b, p')" by fastforce
  obtain lg' where r: "assign_run assign p' ds = (lg', q)" and lg: "lg = (b, e) # lg'"
    using Cons.prems(3) b by (auto simp: Let_def split: prod.splits)
  have inv': "inv p'" using assign_inv [OF Cons.prems(1), of e] b by simp
  show ?case
  proof (cases "map_of (rev lg') a")
    case None
    then have "a = b" "e = d" and "a \<notin> fst ` set lg'"
      using Cons.prems(4) lg map_of_eq_None_iff [of "rev lg'" a] by (auto simp: map_add_def split: if_splits)
    with run_untouched [OF inv' Cons.prems(2) r] lookup_assign [OF Cons.prems(1), of e] b
    show ?thesis by simp
  next
    case (Some d')
    with Cons.prems(4) lg have "d' = d" by (auto simp: map_add_def)
    with Some Cons.IH [OF inv' Cons.prems(2) r] show ?thesis by simp
  qed
qed simp

lemma run_addresses:
  "inv p \<Longrightarrow> assign_run assign p ds = (lg, q) \<Longrightarrow> \<forall>(a, d) \<in> set lg. in_pool q a \<and> length a = 4"
proof (induction ds arbitrary: p lg)
  case (Cons e ds)
  obtain b p' where b: "assign p e = (b, p')" by fastforce
  obtain lg' where r: "assign_run assign p' ds = (lg', q)" and lg: "lg = (b, e) # lg'"
    using Cons.prems(2) b by (auto simp: Let_def split: prod.splits)
  have frame: "in_pool q x = in_pool p' x" for x
    using r in_pool_frame
  proof (induction ds arbitrary: p' lg')
    case (Cons f fs)
    then show ?case by (auto simp: Let_def split: prod.splits) (metis snd_conv)+
  qed simp
  have "in_pool q b" using in_pool_assign [OF Cons.prems(1), of e] in_pool_frame [of p e b] b frame
    by simp
  moreover have "length b = 4" using assign_length [of p e] b by simp
  moreover have "inv p'" using assign_inv [OF Cons.prems(1), of e] b by simp
  ultimately show ?case using Cons.IH [OF _ r] lg by auto
qed simp

end

definition assign_step :: "Pool \<Rightarrow> string \<Rightarrow> ip \<times> Pool" where
  "assign_step p d = (assign_ip p d, assign_pool p d)"

lemma Lookup_other:
  assumes "pool_inv p" "length a = 4" "a \<noteq> assign_ip p d"
  shows "Lookup (assign_pool p d) a = Lookup p a"
proof (cases "domainToOffset p d")
  case (Some off)
  then show ?thesis by (simp add: Assign_known)
next
  case None
  have "BE_Uint32 a - base p \<noteq> next_off p"
  proof
    assume "BE_Uint32 a - base p = next_off p"
    then have "base p + next_off p = BE_Uint32 a" by (metis add.commute diff_add_cancel)
    with assms(2,3) Assign_new(1) [OF None] show False
      by (simp add: uint32ToIP_def BE_PutUint32_Uint32)
  qed
  with assms(2) show ?thesis
    by (simp add: Lookup_def Let_def Assign_new(6) [OF None] ipToUint32_def)
qed

interpretation pool: fake_ip_pool pool_inv assign_step Lookup InPool
proof unfold_locales
  fix p d a
  show "pool_inv (snd (assign_step p d))" if "pool_inv p"
    using Assign_inv [OF that] by (simp add: assign_step_def)
  show "Lookup (snd (assign_step p d)) (fst (assign_step p d)) = Some d" if "pool_inv p"
    using Lookup_assign [OF that] by (simp add: assign_step_def)
  show "Lookup (snd (assign_step p d)) a = Lookup p a"
    if "pool_inv p" "length a = 4" "a \<noteq> fst (assign_step p d)"
    using Lookup_other [of p a d] that by (simp add: assign_step_def)
  show "InPool p (fst (assign_step p d))" if "pool_inv p"
    using InPool_assign [OF that] by (simp add: assign_step_def)
  show "InPool (snd (assign_step p d)) a = InPool p a"
    by (simp add: assign_step_def InPool_def)
  show "length (fst (assign_step p d)) = 4"
    by (cases "domainToOffset p d")
      (simp_all add: assign_step_def Assign_known Assign_new uint32ToIP_def)
qed

subsection \<open>How long an assignment lasts\<close>

lemma Assign_keeps_offset:
  assumes "domainToOffset p d = Some off" "domainToOffset (assign_pool p e) d \<noteq> None"
  shows "domainToOffset (assign_pool p e) d = Some off"
proof (cases "domainToOffset p e")
  case (Some off')
  with assms show ?thesis by (simp add: Assign_known)
next
  case None
  with assms show ?thesis
    by (cases "offsetToDomain p (next_off p)") (auto simp: Assign_new(7) split: if_splits)
qed

lemma fifo_assign_keeps:
  assumes "Suc (length ys) < cap"
  obtains xs' ys' where "fifo_assign cap (xs @ d # ys) e = xs' @ d # ys'" "length ys' \<le> Suc (length ys)"
proof (cases "e \<in> set (xs @ d # ys)")
  case True
  then have "fifo_assign cap (xs @ d # ys) e = xs @ d # ys" by (simp add: fifo_assign_def)
  then show thesis by (rule that) simp
next
  case e: False
  show thesis
  proof (cases "length (xs @ d # ys) = cap")
    case True
    with assms have "xs \<noteq> []" by auto
    with e True show thesis by (intro that [of "tl xs" "ys @ [e]"]) (simp_all add: fifo_assign_def)
  next
    case False
    with e show thesis by (intro that [of xs "ys @ [e]"]) (simp_all add: fifo_assign_def)
  qed
qed

lemma assign_run_snd:
  "snd (assign_run assign_step p (e # ds)) = snd (assign_run assign_step (assign_pool p e) ds)"
  by (simp add: assign_step_def [of p e] split: prod.splits)

lemma run_keeps_offset:
  assumes "pool_maps p" "domainToOffset p d = Some off" "pool_queue p = xs @ d # ys"
    "length ys + length ds < unat (size p)"
  shows "domainToOffset (snd (assign_run assign_step p ds)) d = Some off"
  using assms
proof (induction ds arbitrary: p xs ys)
  case (Cons e ds)
  let ?p = "assign_pool p e"
  obtain xs' ys' where q: "pool_queue ?p = xs' @ d # ys'" "length ys' \<le> Suc (length ys)"
    using fifo_assign_keeps [of ys "unat (size p)" xs d e] Cons.prems
    by (auto simp: Assign_refines_fifo)
  have maps: "pool_maps ?p" by (rule Assign_maps [OF Cons.prems(1)])
  have "domainToOffset ?p d = Some off"
    using set_pool_queue [OF maps, of d] q Cons.prems(2) by (intro Assign_keeps_offset) auto
  then have "domainToOffset (snd (assign_run assign_step ?p ds)) d = Some off"
    using Cons.IH [OF maps _ q(1)] q(2) Cons.prems(4) by simp
  then show ?case by (simp only: assign_run_snd)
qed simp

lemma run_shape_frame:
  "base (snd (assign_run assign_step p ds)) = base p"
proof (induction ds arbitrary: p)
  case (Cons e ds)
  then show ?case by (simp only: assign_run_snd Assign_frame)
qed simp

lemma fresh_at_end:
  assumes "pool_maps p" "domainToOffset p d = None"
  shows "\<exists>xs. pool_queue (assign_pool p d) = xs @ [d]"
  using set_pool_queue [OF assms(1), of d] assms
  by (auto simp: Assign_refines_fifo fifo_assign_def)

lemma fresh_kept:
  assumes "pool_inv p" "domainToOffset p d = None" "length ds < unat (size p)"
  shows "assign_ip (snd (assign_run assign_step (assign_pool p d) ds)) d = assign_ip p d"
    "assign_pool (snd (assign_run assign_step (assign_pool p d) ds)) d = snd (assign_run assign_step (assign_pool p d) ds)"
proof -
  let ?p = "assign_pool p d" and ?q = "snd (assign_run assign_step (assign_pool p d) ds)"
  have maps: "pool_maps p" using assms(1) by (simp add: pool_inv_def)
  have off: "domainToOffset ?p d = Some (next_off p)"
    by (simp add: Assign_new(7) [OF assms(2)] split: option.splits)
  obtain xs where "pool_queue ?p = xs @ [d]" using fresh_at_end [OF maps assms(2)] by blast
  then have "domainToOffset ?q d = Some (next_off p)"
    using run_keeps_offset [OF Assign_maps [OF maps] off, of xs "[]" ds] assms(3) by simp
  then show "assign_ip ?q d = assign_ip p d" "assign_pool ?q d = ?q"
    by (simp_all add: Assign_known run_shape_frame Assign_new(1) [OF assms(2)])
qed

subsection \<open>Properties of the pool\<close>

definition small_pool :: Pool where
  "small_pool = \<lparr>pool_cidr = \<lparr>IP = BE_PutUint32 0xC6120000, Mask = CIDRMask 30 32\<rparr>, base = 0xC6120001,
     size = 2, next_off = 0, domainToOffset = Map.empty, offsetToDomain = Map.empty, OnAssign = False\<rparr>"

lemma small_pool_inv: "pool_inv small_pool"
  unfolding pool_inv_def pool_shape_def pool_maps_def pool_full_def small_pool_def
  by (auto intro!: exI [of _ 30] simp: take_bit_eq_mod word_less_nat_alt)

text \<open>
  Property C1: after any sequence of assignments to a pool that satisfies its invariant, the
  invariant still holds, every address handed out is a four-byte address of the pool's network,
  and looking an address up gives the domain it was last handed to: a connection to a fake
  address is never attributed to an earlier owner of the address.
\<close>

theorem assignments_attributed:
  assumes "pool_inv p" "assign_run assign_step p ds = (lg, q)"
  shows "pool_inv q \<and> (\<forall>(a, d) \<in> set lg. InPool q a \<and> length a = 4 \<and> Lookup q a = map_of (rev lg) a)"
proof -
  have "Lookup q a = map_of (rev lg) a" "InPool q a" "length a = 4" if "(a, d) \<in> set lg" for a d
  proof -
    have ad: "InPool q a \<and> length a = 4" using pool.run_addresses [OF assms] that by auto
    moreover from that have "a \<in> fst ` set (rev lg)" by force
    then obtain e where "map_of (rev lg) a = Some e"
      using map_of_eq_None_iff [of "rev lg" a] by auto
    ultimately show "Lookup q a = map_of (rev lg) a" "InPool q a" "length a = 4"
      using pool.run_last [OF assms(1) _ assms(2), of a e] by auto
  qed
  then show ?thesis using pool.run_inv [OF assms] by blast
qed

theorem assignments_attributed_witness:
  "Lookup (snd (assign_run assign_step small_pool [''a'', ''b'', ''c''])) [198, 18, 0, 1] = Some ''c''"
proof -
  let ?r = "assign_run assign_step small_pool [''a'', ''b'', ''c'']"
  have log: "fst ?r = [([198, 18, 0, 1], ''a''), ([198, 18, 0, 2], ''b''), ([198, 18, 0, 1], ''c'')]"
    by (simp add: assign_step_def Assign_def small_pool_def uint32ToIP_def BE_PutUint32_def Let_def)
  have "\<forall>(a, d) \<in> set (fst ?r). Lookup (snd ?r) a = map_of (rev (fst ?r)) a"
    using assignments_attributed [OF small_pool_inv surjective_pairing, of "[''a'', ''b'', ''c'']"] by auto
  with log show ?thesis by simp
qed

text \<open>
  Property C5: a domain that is given a fresh address keeps that very address through fewer than
  \<open>size\<close> further assignments, whatever their domains are.
\<close>

theorem assignment_stable:
  assumes "pool_inv p" "domainToOffset p d = None" "length ds < unat (size p)"
  shows "assign_ip (snd (assign_run assign_step (assign_pool p d) ds)) d = assign_ip p d"
  using fresh_kept [OF assms] by simp

theorem assignment_stable_witness:
  "assign_ip (snd (assign_run assign_step (assign_pool small_pool ''a'') [''b''])) ''a'' =
   assign_ip small_pool ''a''"
  by (rule assignment_stable [OF small_pool_inv]) (simp_all add: small_pool_def)

text \<open>
  The concrete pool, with its circular counter and its two maps, refines a queue of
  domains bounded by the pool's size, oldest assignment first.
\<close>

theorem Assign_fifo:
  assumes "pool_inv p"
  shows "pool_queue (assign_pool p d) = fifo_assign (unat (size p)) (pool_queue p) d"
  using assms by (intro Assign_refines_fifo) (simp add: pool_inv_def)

theorem Assign_fifo_witness:
  "pool_queue (assign_pool small_pool ''a'') = fifo_assign 2 (pool_queue small_pool) ''a''"
  using Assign_fifo [OF small_pool_inv, of "''a''"] by (simp add: small_pool_def)

text \<open>
  A pool built from a CIDR text satisfies the invariant; its first address is the one
  after the network address and it has all but the first and last address of the network.
\<close>

theorem NewPool_usable:
  assumes "NewPool cidr = Ok p"
  shows "pool_inv p \<and>
    (\<exists>n\<le>30. Mask_Size (Mask (pool_cidr p)) = (n, 32) \<and> unat (size p) = 2 ^ (32 - n) - 2 \<and>
       uint32ToIP (base p - 1) = IP (pool_cidr p))"
proof -
  obtain n where "n \<le> 30"
    "pool_cidr p = \<lparr>IP = BE_PutUint32 (base p - 1), Mask = CIDRMask (int n) 32\<rparr>"
    "unat (size p) = 2 ^ (32 - n) - 2"
    using NewPool_inv [OF assms] by (auto simp: pool_inv_def pool_shape_def)
  then show ?thesis using NewPool_inv [OF assms]
    by (auto intro!: exI [of _ n] simp: Mask_Size_v4 uint32ToIP_def)
qed

theorem NewPool_usable_witness:
  "\<exists>p. NewPool ''198.18.0.0/15'' = Ok p \<and> pool_inv p"
proof -
  have "v4_cidr_string [198, 18, 0, 0] 15 = ''198.18.0.0/15''"
    by (simp add: v4_cidr_string_def v4_string_def Uitoa.simps digit_char_def string_eval)
  then have "ParseCIDR ''198.18.0.0/15'' = Some (v4InV6Prefix @ [198, 18, 0, 0], v4_net [198, 18, 0, 0] 15)"
    using ParseCIDR_v4 [of "[198, 18, 0, 0]" 15] by simp
  then have "\<exists>p. NewPool ''198.18.0.0/15'' = Ok p"
    using Mask_Size_v4 [of 15] by (simp add: NewPool_def v4_net_def length_4_ne Let_def)
  then show ?thesis using NewPool_usable by blast
qed

text \<open>
  Using an address again does not protect it: with two addresses, the domain that was just asked
  for again is the one evicted, so the replacement is by age of the assignment and not by use.
\<close>

lemma eviction_ignores_use:
  "domainToOffset (snd (assign_run assign_step small_pool [''a'', ''b'', ''a'', ''c''])) ''a'' = None \<and>
   domainToOffset (snd (assign_run assign_step small_pool [''a'', ''b'', ''a'', ''c''])) ''b'' \<noteq> None"
  by (simp add: assign_step_def Assign_def small_pool_def Let_def)

end
