(* ===== verification/Fake_DNS.thy ===== *)
theory Fake_DNS
  imports Fake_IP
begin

section \<open>The DNS server in front of the pool\<close>

text \<open>
  \<^verbatim>\<open>internal/fakeip/server.go\<close> and the local listeners of
  \<^verbatim>\<open>cmd/ecorplink-daemon/local_dns.go\<close>. The DNS library \<^verbatim>\<open>github.com/miekg/dns\<close> is a parameter: a
  record \<open>dns_lib\<close> of the operations the code calls, over an unspecified message type. The results
  of the upstream exchanges are the values of function parameters.
\<close>

subsection \<open>The library and the server\<close>

record question =
  q_Name :: string
  Qtype :: nat

datatype rr = RR_A (rr_name: string) (rr_class: nat) (rr_ttl: nat) (rr_addr: ip)

record ('m, 'c) dns_lib =
  Unpack :: "byte list \<Rightarrow> 'm \<times> string option"
  Question :: "'m \<Rightarrow> question list"
  SetReply :: "'m \<Rightarrow> 'm"
  SetAnswer :: "'m \<Rightarrow> rr list \<Rightarrow> 'm"
  SetRcode :: "'m \<Rightarrow> nat \<Rightarrow> 'm"
  Pack :: "'m \<Rightarrow> byte list \<times> string option"
  Client_Exchange :: "'m \<Rightarrow> string \<Rightarrow> (string, 'm) res"
  WriteMsg :: "'c \<Rightarrow> 'm \<Rightarrow> string option"
  ReadMsg :: "'c \<Rightarrow> (string, 'm) res"

abbreviation (input) TypeA :: nat where "TypeA \<equiv> 1"
abbreviation (input) TypeAAAA :: nat where "TypeAAAA \<equiv> 28"
abbreviation (input) ClassINET :: nat where "ClassINET \<equiv> 1"
abbreviation (input) RcodeServerFailure :: nat where "RcodeServerFailure \<equiv> 2"

datatype server_error =
    UnpackError string
  | UpstreamError string
  | ExchangeDial string
  | ExchangeWrite string
  | ExchangeRead string
  | ExchangeError string
  | PackError string

record ('m, 'c) Server =
  srv_pool :: Pool
  matcher :: "string \<Rightarrow> bool"
  upstream :: "('m \<Rightarrow> (string, 'm) res) option"
  upstreamAddrs :: "string list"
  fakeAllA :: bool
  dialFn :: "(string \<Rightarrow> string \<Rightarrow> (string, 'c) res) option"

definition SetFakeAllA :: "('m, 'c) Server \<Rightarrow> bool \<Rightarrow> ('m, 'c) Server" where
  "SetFakeAllA s enabled = s\<lparr>fakeAllA := enabled\<rparr>"

definition SetDialFn ::
    "('m, 'c) Server \<Rightarrow> (string \<Rightarrow> string \<Rightarrow> (string, 'c) res) option \<Rightarrow> ('m, 'c) Server" where
  "SetDialFn s fn = s\<lparr>dialFn := fn\<rparr>"

definition NewServer ::
    "Pool \<Rightarrow> (string \<Rightarrow> bool) \<Rightarrow> ('m \<Rightarrow> (string, 'm) res) option \<Rightarrow> string list \<Rightarrow> ('m, 'c) Server" where
  "NewServer p m u addrs =
     \<lparr>srv_pool = p, matcher = m, upstream = u, upstreamAddrs = addrs, fakeAllA = False, dialFn = None\<rparr>"

text \<open>Every handler returns the bytes and the error together, as the Go functions do.\<close>

type_synonym reply = "byte list \<times> server_error option"

definition pack_reply :: "('m, 'c) dns_lib \<Rightarrow> 'm \<Rightarrow> reply" where
  "pack_reply lib m = (case Pack lib m of (b, e) \<Rightarrow> (b, map_option PackError e))"

definition packServfail :: "('m, 'c) dns_lib \<Rightarrow> 'm \<Rightarrow> byte list" where
  "packServfail lib req = fst (Pack lib (SetRcode lib req RcodeServerFailure))"

definition forward :: "('m, 'c) dns_lib \<Rightarrow> ('m, 'c) Server \<Rightarrow> 'm \<Rightarrow> reply" where
  "forward lib s req =
     (case upstream s of
        Some exchange \<Rightarrow>
          (case exchange req of
             Inl err \<Rightarrow> (packServfail lib req, Some (UpstreamError err))
           | Inr resp \<Rightarrow> pack_reply lib resp)
      | None \<Rightarrow>
          (case upstreamAddrs s of
             addr # _ \<Rightarrow>
               (case dialFn s of
                  Some dial \<Rightarrow>
                    (case dial ''udp'' addr of
                       Inl err \<Rightarrow> (packServfail lib req, Some (ExchangeDial err))
                     | Inr conn \<Rightarrow>
                         (case WriteMsg lib conn req of
                            Some err \<Rightarrow> (packServfail lib req, Some (ExchangeWrite err))
                          | None \<Rightarrow>
                              (case ReadMsg lib conn of
                                 Inl err \<Rightarrow> (packServfail lib req, Some (ExchangeRead err))
                               | Inr resp \<Rightarrow> pack_reply lib resp)))
                | None \<Rightarrow>
                    (case Client_Exchange lib req addr of
                       Inl err \<Rightarrow> (packServfail lib req, Some (ExchangeError err))
                     | Inr resp \<Rightarrow> pack_reply lib resp))
           | [] \<Rightarrow> (packServfail lib req, None)))"

definition HandleDNS ::
    "('m, 'c) dns_lib \<Rightarrow> ('m, 'c) Server \<Rightarrow> byte list \<Rightarrow> reply \<times> ('m, 'c) Server" where
  "HandleDNS lib s raw =
     (case Unpack lib raw of
        (req, Some err) \<Rightarrow> ((packServfail lib req, Some (UnpackError err)), s)
      | (req, None) \<Rightarrow>
          (case Question lib req of
             [] \<Rightarrow> ((packServfail lib req, None), s)
           | q # _ \<Rightarrow>
               let domain = ToLower (TrimSuffix (q_Name q) ''.'')
               in if fakeAllA s \<or> matcher s domain then
                    if Qtype q = TypeA then
                      (case Assign (srv_pool s) domain of
                         (ip, p, _) \<Rightarrow>
                           (pack_reply lib (SetAnswer lib (SetReply lib req)
                              [RR_A (q_Name q) ClassINET 1 ip]), s\<lparr>srv_pool := p\<rparr>))
                    else if Qtype q = TypeAAAA then
                      (pack_reply lib (SetAnswer lib (SetReply lib req) []), s)
                    else (forward lib s req, s)
                  else (forward lib s req, s)))"

subsection \<open>The local listeners\<close>

text \<open>
  \<^verbatim>\<open>handleTCP\<close> on the bytes the client sends before the deadline: what is written back. A short
  read ends the connection without an answer.
\<close>

definition BE_Uint16 :: "byte list \<Rightarrow> 16 word" where
  "BE_Uint16 b = push_bit 8 (ucast (b ! 0)) OR ucast (b ! 1)"

definition BE_PutUint16 :: "16 word \<Rightarrow> byte list" where
  "BE_PutUint16 n = [ucast (drop_bit 8 n), ucast n]"

definition frame :: "byte list \<Rightarrow> byte list" where
  "frame resp = BE_PutUint16 (of_nat (length resp)) @ resp"

definition read_frame :: "byte list \<Rightarrow> byte list option" where
  "read_frame input =
     (if length input < 2 then None
      else let n = unat (BE_Uint16 input)
           in if length (drop 2 input) < n then None else Some (take n (drop 2 input)))"

definition handleTCP ::
    "('m, 'c) dns_lib \<Rightarrow> ('m, 'c) Server \<Rightarrow> byte list \<Rightarrow> byte list \<times> ('m, 'c) Server" where
  "handleTCP lib s input =
     (case read_frame input of
        None \<Rightarrow> ([], s)
      | Some raw \<Rightarrow>
          (case HandleDNS lib s raw of
             ((resp, _), s') \<Rightarrow> (if resp = [] then [] else frame resp, s')))"

text \<open>
  \<^verbatim>\<open>serveUDP\<close> as a transition system: the queries being worked on, the server, and the
  datagrams sent. A query that finds the worker pool full is dropped; a worker takes its query
  through \<^verbatim>\<open>HandleDNS\<close>, whose only change of state is the pool's locked assignment.
\<close>

abbreviation (input) dnsWorkerLimit :: nat where "dnsWorkerLimit \<equiv> 256"

record ('m, 'c) local_udp =
  udp_dns :: "('m, 'c) Server"
  workers :: "(byte list \<times> string) list"
  udp_sent :: "(byte list \<times> string) list"

definition udp_receive :: "('m, 'c) local_udp \<Rightarrow> byte list \<Rightarrow> string \<Rightarrow> ('m, 'c) local_udp" where
  "udp_receive st raw client =
     (if length (workers st) < dnsWorkerLimit then st\<lparr>workers := workers st @ [(raw, client)]\<rparr> else st)"

definition udp_work :: "('m, 'c) dns_lib \<Rightarrow> ('m, 'c) local_udp \<Rightarrow> nat \<Rightarrow> ('m, 'c) local_udp" where
  "udp_work lib st i =
     (case workers st ! i of
        (raw, client) \<Rightarrow>
          (case HandleDNS lib (udp_dns st) raw of
             ((resp, _), s') \<Rightarrow>
               st\<lparr>udp_dns := s', workers := take i (workers st) @ drop (Suc i) (workers st),
                  udp_sent := udp_sent st @ (if resp = [] then [] else [(resp, client)])\<rparr>))"

inductive serveUDP_step :: "('m, 'c) dns_lib \<Rightarrow> ('m, 'c) local_udp \<Rightarrow> ('m, 'c) local_udp \<Rightarrow> bool"
  for lib where
  receive: "serveUDP_step lib st (udp_receive st raw client)"
| work: "i < length (workers st) \<Longrightarrow> serveUDP_step lib st (udp_work lib st i)"

inductive_cases serveUDP_stepE: "serveUDP_step lib st st'"

subsection \<open>Branches of the handler\<close>

definition query_of :: "('m, 'c) dns_lib \<Rightarrow> byte list \<Rightarrow> ('m \<times> question) option" where
  "query_of lib raw =
     (case Unpack lib raw of
        (req, None) \<Rightarrow> (case Question lib req of q # _ \<Rightarrow> Some (req, q) | [] \<Rightarrow> None)
      | _ \<Rightarrow> None)"

lemma query_ofD:
  assumes "query_of lib raw = Some (req, q)"
  obtains qs where "Unpack lib raw = (req, None)" "Question lib req = q # qs"
  using assms by (auto simp: query_of_def split: prod.splits option.splits list.splits)

abbreviation faked :: "('m, 'c) Server \<Rightarrow> question \<Rightarrow> bool" where
  "faked s q \<equiv> fakeAllA s \<or> matcher s (normal_name (q_Name q))"

lemma HandleDNS_query:
  assumes "query_of lib raw = Some (req, q)"
  shows "HandleDNS lib s raw =
    (if faked s q \<and> Qtype q = TypeA then
       (pack_reply lib (SetAnswer lib (SetReply lib req)
          [RR_A (q_Name q) ClassINET 1 (assign_ip (srv_pool s) (normal_name (q_Name q)))]),
        s\<lparr>srv_pool := assign_pool (srv_pool s) (normal_name (q_Name q))\<rparr>)
     else if faked s q \<and> Qtype q = TypeAAAA then
       (pack_reply lib (SetAnswer lib (SetReply lib req) []), s)
     else (forward lib s req, s))"
  using assms
  by (auto elim!: query_ofD simp: HandleDNS_def Let_def normal_name_def split: prod.splits)

lemma HandleDNS_bad:
  assumes "query_of lib raw = None"
  shows "fst (fst (HandleDNS lib s raw)) = packServfail lib (fst (Unpack lib raw))"
    and "snd (HandleDNS lib s raw) = s"
  using assms
  by (auto simp: HandleDNS_def query_of_def split: prod.splits option.splits list.splits)

lemma HandleDNS_frame:
  "matcher (snd (HandleDNS lib s raw)) = matcher s" "fakeAllA (snd (HandleDNS lib s raw)) = fakeAllA s"
  by (auto simp: HandleDNS_def Let_def split: prod.splits option.splits list.splits)

lemma HandleDNS_inv:
  assumes "pool_inv (srv_pool s)"
  shows "pool_inv (srv_pool (snd (HandleDNS lib s raw)))"
proof (cases "query_of lib raw")
  case None
  then show ?thesis using assms HandleDNS_bad by metis
next
  case (Some rq)
  then show ?thesis
    using assms Assign_inv [OF assms] by (cases rq) (auto simp: HandleDNS_query)
qed

subsection \<open>Frames\<close>

lemma BE_Uint16_Put: "BE_Uint16 (BE_PutUint16 n @ r) = n"
proof (rule bit_word_eqI)
  fix i :: nat
  assume "i < LENGTH(16)"
  then show "bit (BE_Uint16 (BE_PutUint16 n @ r)) i = bit n i"
    unfolding BE_Uint16_def BE_PutUint16_def by (cases "i < 8") (auto simp: bit_simps)
qed

lemma read_frame_frame:
  "length resp < 2 ^ 16 \<Longrightarrow> read_frame (frame resp @ rest) = Some resp"
  by (simp add: read_frame_def frame_def BE_Uint16_Put Let_def unat_of_nat)
     (simp add: BE_PutUint16_def)

subsection \<open>Properties\<close>

text \<open>A library over messages that are a question list with an answer list, for the witnesses.\<close>

definition sample_lib :: "(question list \<times> rr list, unit) dns_lib" where
  "sample_lib =
     \<lparr>Unpack = (\<lambda>raw. (([\<lparr>q_Name = ''Git.Corp.'', Qtype = length raw\<rparr>], []), None)),
      Question = fst, SetReply = (\<lambda>m. m), SetAnswer = (\<lambda>m rs. (fst m, rs)),
      SetRcode = (\<lambda>m r. (fst m, [])), Pack = (\<lambda>m. (concat (map rr_addr (snd m)), None)),
      Client_Exchange = (\<lambda>m a. Err ''timeout''), WriteMsg = (\<lambda>c m. None),
      ReadMsg = (\<lambda>c. Err ''timeout'')\<rparr>"

definition sample_server :: "(question list \<times> rr list, unit) Server" where
  "sample_server = NewServer small_pool (\<lambda>d. d = ''git.corp'') None []"

lemma sample_query:
  "query_of sample_lib raw = Some (([\<lparr>q_Name = ''Git.Corp.'', Qtype = length raw\<rparr>], []),
     \<lparr>q_Name = ''Git.Corp.'', Qtype = length raw\<rparr>)"
  by (simp add: query_of_def sample_lib_def)

lemma sample_name: "normal_name ''Git.Corp.'' = ''git.corp''"
  by (simp add: normal_name_def string_eval TrimSuffix_def)

text \<open>
  Property C4: an A query for a name the server fakes is answered with exactly one A record, for
  the name as asked and with a TTL of one second; its address lies in the pool and the pool maps it
  back to the lower-cased name without its final dot, and the answer does not depend on any
  upstream, so the query never leaves the host.
\<close>

theorem HandleDNS_A:
  assumes "pool_inv (srv_pool s)" "query_of lib raw = Some (req, q)" "faked s q" "Qtype q = TypeA"
  shows "\<exists>ip. fst (HandleDNS lib s raw) =
        pack_reply lib (SetAnswer lib (SetReply lib req) [RR_A (q_Name q) ClassINET 1 ip])
    \<and> InPool (srv_pool s) ip
    \<and> Lookup (srv_pool (snd (HandleDNS lib s raw))) ip = Some (ToLower (TrimSuffix (q_Name q) ''.''))
    \<and> (\<forall>u a f. fst (HandleDNS lib (s\<lparr>upstream := u, upstreamAddrs := a, dialFn := f\<rparr>) raw) =
        fst (HandleDNS lib s raw))"
  using assms InPool_assign [OF assms(1), of "normal_name (q_Name q)"]
    Lookup_assign [OF assms(1), of "normal_name (q_Name q)"]
  by (intro exI [of _ "assign_ip (srv_pool s) (normal_name (q_Name q))"])
     (auto simp: HandleDNS_query [OF assms(2)] normal_name_def)

theorem HandleDNS_A_witness:
  "\<exists>ip. Lookup (srv_pool (snd (HandleDNS sample_lib sample_server [0]))) ip = Some ''git.corp''"
proof -
  have "pool_inv (srv_pool sample_server)" by (simp add: sample_server_def NewServer_def small_pool_inv)
  from HandleDNS_A [OF this sample_query [of "[0]"]] show ?thesis
    using sample_name by (auto simp: sample_server_def NewServer_def normal_name_def)
qed

text \<open>
  An AAAA query for a faked name gets an empty successful answer and changes nothing;
  a query of any other type, or for a name that is not faked, is forwarded and changes nothing.
\<close>

theorem HandleDNS_other:
  assumes "query_of lib raw = Some (req, q)" "\<not> (faked s q \<and> Qtype q = TypeA)"
  shows "HandleDNS lib s raw =
    (if faked s q \<and> Qtype q = TypeAAAA then pack_reply lib (SetAnswer lib (SetReply lib req) [])
     else forward lib s req, s)"
  using assms(2) by (auto simp: HandleDNS_query [OF assms(1)])

theorem HandleDNS_other_witness:
  "snd (HandleDNS sample_lib sample_server [0, 0]) = sample_server"
  using HandleDNS_other [OF sample_query [of "[0, 0]"]] by simp

text \<open>
  Without a configured upstream and without upstream addresses, a query for a name
  that is not faked, and a message that is malformed or asks nothing, get the SERVFAIL reply
  and leave the pool alone.
\<close>

theorem HandleDNS_servfail:
  assumes "upstream s = None" "upstreamAddrs s = []"
    "\<forall>req q. query_of lib raw = Some (req, q) \<longrightarrow> \<not> faked s q"
  shows "fst (fst (HandleDNS lib s raw)) = packServfail lib (fst (Unpack lib raw)) \<and>
    snd (HandleDNS lib s raw) = s"
proof (cases "query_of lib raw")
  case None
  then show ?thesis using HandleDNS_bad by metis
next
  case (Some rq)
  obtain req q where rq: "rq = (req, q)" by fastforce
  have "fst (Unpack lib raw) = req" using Some rq by (auto elim!: query_ofD)
  moreover have "\<not> faked s q" using assms(3) Some rq by blast
  ultimately show ?thesis
    using assms(1,2) Some rq by (auto simp: HandleDNS_query forward_def)
qed

theorem HandleDNS_servfail_witness:
  "snd (HandleDNS sample_lib (sample_server\<lparr>matcher := \<lambda>d. False\<rparr>) [0]) =
     sample_server\<lparr>matcher := \<lambda>d. False\<rparr>"
proof -
  let ?s = "sample_server\<lparr>matcher := \<lambda>d. False\<rparr>"
  have "upstream ?s = None" "upstreamAddrs ?s = []"
    "\<forall>req q. query_of sample_lib [0] = Some (req, q) \<longrightarrow> \<not> faked ?s q"
    by (simp_all add: sample_server_def NewServer_def)
  then show ?thesis using HandleDNS_servfail by blast
qed

text \<open>
  Over TCP, a query framed by its length, whatever follows it on the connection, is
  answered with the handler's reply framed by its length, which a client reads back exactly, as
  long as the reply fits the 16-bit length.
\<close>

theorem handleTCP_roundtrip:
  assumes "length raw < 2 ^ 16" "fst (fst (HandleDNS lib s raw)) = resp" "resp \<noteq> []"
    "length resp < 2 ^ 16"
  shows "read_frame (fst (handleTCP lib s (frame raw @ rest))) = Some resp"
  using assms read_frame_frame [OF assms(1), of rest] read_frame_frame [OF assms(4), of "[]"]
  by (auto simp: handleTCP_def split: prod.splits)

theorem handleTCP_roundtrip_witness:
  "read_frame (fst (handleTCP sample_lib sample_server (frame [7] @ [1, 2]))) =
     Some [198, 18, 0, 1]"
proof (rule handleTCP_roundtrip)
  show "fst (fst (HandleDNS sample_lib sample_server [7])) = [198, 18, 0, 1]"
    using HandleDNS_query [OF sample_query [of "[7]"], of sample_server] sample_name
    by (simp add: sample_server_def NewServer_def sample_lib_def pack_reply_def small_pool_def
        Assign_def uint32ToIP_def BE_PutUint32_def)
qed simp_all

definition udp_ok :: "('m, 'c) local_udp \<Rightarrow> bool" where
  "udp_ok st \<longleftrightarrow> length (workers st) \<le> dnsWorkerLimit \<and> pool_inv (srv_pool (udp_dns st)) \<and>
     (\<forall>(b, c) \<in> set (udp_sent st). b \<noteq> [])"

lemma serveUDP_step_ok: "serveUDP_step lib st st' \<Longrightarrow> udp_ok st \<Longrightarrow> udp_ok st'"
proof (induction rule: serveUDP_step.induct)
  case (receive st raw client)
  then show ?case by (auto simp: udp_ok_def udp_receive_def)
next
  case (work i st)
  then show ?case
    using HandleDNS_inv [of "udp_dns st" lib "fst (workers st ! i)"]
    by (auto simp: udp_ok_def udp_work_def split: prod.splits)
qed

text \<open>
  However receptions and workers interleave, the UDP listener never has more than
  256 queries in hand, never sends an empty datagram, and keeps the pool's invariant.
\<close>

theorem serveUDP_reachable:
  assumes "(serveUDP_step lib)\<^sup>*\<^sup>* st st'" "pool_inv (srv_pool (udp_dns st))"
    "workers st = []" "udp_sent st = []"
  shows "length (workers st') \<le> 256 \<and> pool_inv (srv_pool (udp_dns st')) \<and>
    (\<forall>(b, c) \<in> set (udp_sent st'). b \<noteq> [])"
proof -
  from assms(1) have "udp_ok st \<longrightarrow> udp_ok st'"
    by (induction rule: rtranclp_induct) (auto intro: serveUDP_step_ok)
  moreover have "udp_ok st" using assms(2-4) by (simp add: udp_ok_def)
  ultimately show ?thesis by (simp add: udp_ok_def)
qed

theorem serveUDP_reachable_witness:
  "pool_inv (srv_pool (udp_dns (udp_receive
     \<lparr>udp_dns = sample_server, workers = [], udp_sent = []\<rparr> [0] ''c'')))"
proof -
  let ?st = "\<lparr>udp_dns = sample_server, workers = [], udp_sent = []\<rparr>"
  have "(serveUDP_step sample_lib)\<^sup>*\<^sup>* ?st (udp_receive ?st [0] ''c'')"
    by (rule r_into_rtranclp) (rule receive)
  from serveUDP_reachable [OF this] show ?thesis
    by (simp add: sample_server_def NewServer_def small_pool_inv)
qed

end
