(* ===== verification/Forwarder.thy ===== *)
theory Forwarder
  imports Host_Routes Fake_DNS
begin

section \<open>The forwarder (internal/forwarder)\<close>

text \<open>
  \<^verbatim>\<open>forwarder.go\<close>, \<^verbatim>\<open>dialer.go\<close>, \<^verbatim>\<open>dns.go\<close>, \<^verbatim>\<open>tcp.go\<close> and \<^verbatim>\<open>udp.go\<close>: which outbound a captured connection
  takes, the host routes it needs, DNS hijacking, the connection limit, and the handling of the
  packets read from the TUN device. The netstack (gvisor) and the device are not modelled: a
  captured connection is its destination, and a packet that would be injected is a result.
  A dialer is a value: an interface-bound dialer, one that first installs host routes, or the VPN.
\<close>

subsection \<open>State\<close>

record fw_config =
  TUNMTU :: int
  UpstreamDNS :: string
  DefaultDNS :: string

record 'w fw_env =
  fe_net :: net_env
  fe_sort :: sorter
  fe_fetch :: fetcher
  fe_now :: int
  fe_host :: "'w host_ops"

record ('w, 'v) Forwarder =
  fw_cfg :: fw_config
  maxConns :: int
  connCount :: int
  fw_pool :: "Pool option"
  fw_engine :: "Engine option"
  outbounds :: "string \<rightharpoonup> Direct"
  routeTable :: "RouteTable option"
  ifaceCache :: "string \<rightharpoonup> Direct"
  routeCache :: "string list"
  dnsHijack :: "addr_port list"
  vpnOutbound :: "'v option"
  defaultVPN :: bool
  fw_hosts :: "'w hr_state"
  closed :: bool

text \<open>
  \<^verbatim>\<open>hostRouteDialer\<close> with the resolver of its base (the one the base has, or one that queries the given
  upstream over the direct outbound) and what its \<^verbatim>\<open>ensure\<close> function does.
\<close>

datatype dns_choice = BaseResolver | RouteDNSResolver string
datatype ensure_kind = EnsureDefault | EnsureScoped string

datatype 'v packetDialer =
    NetDialer Dialer
  | HostRouteDialer (hrd_base: Dialer) (hrd_dns: dns_choice) (hrd_ensure: ensure_kind)
  | VPNDialer 'v

datatype fw_error =
    NoFakeMapping ip
  | NoRouteTo ip
  | OutboundNotFound string
  | NoVPNNoDirect
  | HostLookupFailed string

definition plain_dialer :: Dialer where
  "plain_dialer = \<lparr>bound = None, dial_resolver = DefaultResolver\<rparr>"

subsection \<open>Construction and settings\<close>

fun parseDNSHijack :: "string list \<Rightarrow> addr_port list" where
  "parseDNSHijack [] = []"
| "parseDNSHijack (v # vs) =
     (let v1 = (case Cut v ''://'' of Some (_, after) \<Rightarrow> after | None \<Rightarrow> v);
          v2 = Replace1 v1 ''any'' ''0.0.0.0''
      in case ParseAddrPort v2 of
           Some ap \<Rightarrow> ap # parseDNSHijack vs
         | None \<Rightarrow> parseDNSHijack vs)"

definition shouldHijackDNS :: "('w, 'v) Forwarder \<Rightarrow> ip \<Rightarrow> 16 word \<Rightarrow> bool" where
  "shouldHijackDNS f ip port =
     (if dnsHijack f = [] then False
      else case AddrFromSlice ip of
             None \<Rightarrow> False
           | Some addr \<Rightarrow>
               let target = (Unmap addr, port)
               in list_ex (\<lambda>hijack. hijack = target \<or>
                    (Addr_IsUnspecified (fst hijack) \<and> snd hijack = snd target)) (dnsHijack f))"

definition NewForwarder ::
    "fw_config \<Rightarrow> int \<Rightarrow> string list \<Rightarrow> Pool option \<Rightarrow> Engine option \<Rightarrow> (string \<rightharpoonup> Direct) \<Rightarrow>
     RouteTable option \<Rightarrow> 'w hr_state \<Rightarrow> ('w, 'v) Forwarder" where
  "NewForwarder cfg maxc hijack pool engine outs rt hosts =
     \<lparr>fw_cfg = cfg, maxConns = maxc, connCount = 0, fw_pool = pool, fw_engine = engine,
      outbounds = outs, routeTable = map_option OnRefresh rt, ifaceCache = Map.empty,
      routeCache = [], dnsHijack = parseDNSHijack hijack, vpnOutbound = None, defaultVPN = False,
      fw_hosts = hosts, closed = False\<rparr>"

definition SetVPNOutbound :: "('w, 'v) Forwarder \<Rightarrow> 'v option \<Rightarrow> ('w, 'v) Forwarder" where
  "SetVPNOutbound f d = f\<lparr>vpnOutbound := d\<rparr>"

definition SetDefaultVPN :: "('w, 'v) Forwarder \<Rightarrow> bool \<Rightarrow> ('w, 'v) Forwarder" where
  "SetDefaultVPN f v = f\<lparr>defaultVPN := v\<rparr>"

text \<open>The callback of the route table: both caches are emptied.\<close>

definition flush_caches :: "('w, 'v) Forwarder \<Rightarrow> ('w, 'v) Forwarder" where
  "flush_caches f = f\<lparr>routeCache := [], ifaceCache := Map.empty\<rparr>"

definition Close :: "'w fw_env \<Rightarrow> ('w, 'v) Forwarder \<Rightarrow> ('w, 'v) Forwarder" where
  "Close env f =
     f\<lparr>closed := True,
       fw_hosts := fold (\<lambda>ip hs. forgetHostRoute ip (deleteHostRoute (fe_host env) ip hs))
                     (routeCache f) (fw_hosts f)\<rparr>"

subsection \<open>The connection limit\<close>

definition trackConn :: "('w, 'v) Forwarder \<Rightarrow> bool \<times> ('w, 'v) Forwarder" where
  "trackConn f =
     (if maxConns f \<le> 0 then (True, f)
      else let c = connCount f + 1
           in if maxConns f < c then (False, f\<lparr>connCount := c - 1\<rparr>) else (True, f\<lparr>connCount := c\<rparr>))"

definition untrackConn :: "('w, 'v) Forwarder \<Rightarrow> ('w, 'v) Forwarder" where
  "untrackConn f = (if 0 < maxConns f then f\<lparr>connCount := connCount f - 1\<rparr> else f)"

subsection \<open>Host routes of the forwarder\<close>

text \<open>A lookup in the route table, with the callback when it refreshed.\<close>

definition table_fired :: "'w fw_env \<Rightarrow> RouteTable \<Rightarrow> bool" where
  "table_fired env rt =
     (ttl rt \<le> Since (fe_now env) (lastFetch rt) \<and>
      snd (snd (refresh (fe_sort env) (fe_fetch env) (fe_now env) rt)))"

definition fw_Lookup ::
    "'w fw_env \<Rightarrow> RouteTable \<Rightarrow> ('w, 'v) Forwarder \<Rightarrow> ip \<Rightarrow>
     (table_error, string \<times> ip) res \<times> ('w, 'v) Forwarder" where
  "fw_Lookup env rt f ip =
     (case RouteTable_Lookup (fe_sort env) (fe_fetch env) (fe_now env) rt ip of
        (r, rt') \<Rightarrow>
          (r, (if table_fired env rt then flush_caches f else f)\<lparr>routeTable := Some rt'\<rparr>))"

definition ensure_with ::
    "(string \<Rightarrow> 'w hr_state \<Rightarrow> bool \<times> bool) \<Rightarrow> (string \<Rightarrow> 'w hr_state \<Rightarrow> string option \<times> 'w hr_state) \<Rightarrow>
     ip \<Rightarrow> ('w, 'v) Forwarder \<Rightarrow> ('w, 'v) Forwarder" where
  "ensure_with is_current add ip f =
     (if To4 ip = [] then f
      else
        let key = IP_String ip
        in if key \<in> set (routeCache f) \<and> is_current key (fw_hosts f) = (True, True) then f
           else
             let f1 = f\<lparr>routeCache := removeAll key (routeCache f)\<rparr>
             in case add key (fw_hosts f1) of
                  (Some err, hs) \<Rightarrow> f1\<lparr>fw_hosts := hs\<rparr>
                | (None, hs) \<Rightarrow>
                    f1\<lparr>routeCache := key # routeCache f1, fw_hosts := rememberHostRoute ip hs\<rparr>)"

definition ensureHostRoute ::
    "'w fw_env \<Rightarrow> ip \<Rightarrow> string \<Rightarrow> ip \<Rightarrow> ('w, 'v) Forwarder \<Rightarrow> ('w, 'v) Forwarder" where
  "ensureHostRoute env ip ifn gw f =
     ensure_with (\<lambda>key. hostRouteCurrent (fe_host env) key ifn gw)
       (\<lambda>key. addHostRoute (fe_host env) key ifn gw) ip f"

definition ensureScopedHostRoute ::
    "'w fw_env \<Rightarrow> ip \<Rightarrow> string \<Rightarrow> ('w, 'v) Forwarder \<Rightarrow> ('w, 'v) Forwarder" where
  "ensureScopedHostRoute env ip ifn f =
     ensure_with (\<lambda>key. scopedHostRouteCurrent (fe_host env) key ifn)
       (\<lambda>key. addScopedHostRoute (fe_host env) key ifn) ip f"

definition ensureDefaultHostRoute :: "'w fw_env \<Rightarrow> ip \<Rightarrow> ('w, 'v) Forwarder \<Rightarrow> ('w, 'v) Forwarder" where
  "ensureDefaultHostRoute env ip f =
     (if To4 ip = [] then f
      else case routeTable f of
             None \<Rightarrow> f
           | Some rt \<Rightarrow>
               (case fw_Lookup env rt f ip of
                  (Inl err, f') \<Rightarrow> f'
                | (Inr (ifn, gw), f') \<Rightarrow> ensureHostRoute env ip ifn gw f'))"

definition dialerForIface :: "'w fw_env \<Rightarrow> string \<Rightarrow> ('w, 'v) Forwarder \<Rightarrow> Dialer \<times> ('w, 'v) Forwarder" where
  "dialerForIface env name f =
     (case ifaceCache f name of
        Some d \<Rightarrow>
          (case Direct_Dialer (fe_net env) d of
             (dl, d') \<Rightarrow> (dl, f\<lparr>ifaceCache := (ifaceCache f)(name \<mapsto> d')\<rparr>))
      | None \<Rightarrow>
          (case Direct_Dialer (fe_net env) (snd (Init (fe_net env) (NewDirect name []))) of
             (dl, d') \<Rightarrow> (dl, f\<lparr>ifaceCache := (ifaceCache f)(name \<mapsto> d')\<rparr>)))"

text \<open>The name of an outbound's interface; detecting it again may change the outbound.\<close>

definition outbound_iface :: "'w fw_env \<Rightarrow> string \<Rightarrow> ('w, 'v) Forwarder \<Rightarrow> string \<times> ('w, 'v) Forwarder" where
  "outbound_iface env key f =
     (case outbounds f key of
        None \<Rightarrow> ([], f)
      | Some ob \<Rightarrow>
          (case ResolvedIfaceName (fe_net env) ob of
             (name, ob') \<Rightarrow> (name, f\<lparr>outbounds := (outbounds f)(key \<mapsto> ob')\<rparr>)))"

definition ensureScoped_outbound ::
    "'w fw_env \<Rightarrow> ip \<Rightarrow> string \<Rightarrow> ('w, 'v) Forwarder \<Rightarrow> ('w, 'v) Forwarder" where
  "ensureScoped_outbound env ip key f =
     (case outbound_iface env key f of (name, f') \<Rightarrow> ensureScopedHostRoute env ip name f')"

definition ensureOutboundDNSRoute :: "'w fw_env \<Rightarrow> string \<Rightarrow> ('w, 'v) Forwarder \<Rightarrow> ('w, 'v) Forwarder" where
  "ensureOutboundDNSRoute env key f =
     (case SplitHostPort (UpstreamDNS (fw_cfg f)) of
        None \<Rightarrow> f
      | Some (host, _) \<Rightarrow>
          if ParseIP host = [] then f else ensureScoped_outbound env (ParseIP host) key f)"

subsection \<open>The choice of the outbound\<close>

type_synonym ('w, 'v) target = "(fw_error, string \<times> 'v packetDialer) res \<times> ('w, 'v) Forwarder"

definition defaultDomainTarget :: "string \<Rightarrow> string \<Rightarrow> ('w, 'v) Forwarder \<Rightarrow> ('w, 'v) target" where
  "defaultDomainTarget domain port f =
     (Ok (JoinHostPort domain port,
          HostRouteDialer plain_dialer
            (if DefaultDNS (fw_cfg f) \<noteq> [] then RouteDNSResolver (DefaultDNS (fw_cfg f)) else BaseResolver)
            EnsureDefault), f)"

definition dialer_with_dns ::
    "'w fw_env \<Rightarrow> string \<Rightarrow> Direct \<Rightarrow> ('w, 'v) Forwarder \<Rightarrow> Dialer \<times> ('w, 'v) Forwarder" where
  "dialer_with_dns env key ob f =
     (case DialerWithDNS (fe_net env) ob of
        (dl, ob') \<Rightarrow> (dl, f\<lparr>outbounds := (outbounds f)(key \<mapsto> ob')\<rparr>))"

definition actionToTarget ::
    "'w fw_env \<Rightarrow> Action \<Rightarrow> string \<Rightarrow> string \<Rightarrow> ('w, 'v) Forwarder \<Rightarrow> ('w, 'v) target" where
  "actionToTarget env act host port f =
     (case Type act of
        ActionDirect \<Rightarrow>
          (let key = (if outbounds f (Outbound act) = None then ''DIRECT'' else Outbound act)
           in case outbounds f key of
                None \<Rightarrow> (Err (OutboundNotFound (Outbound act)), f)
              | Some ob \<Rightarrow>
                  (case dialer_with_dns env key ob f of
                     (dl, f1) \<Rightarrow>
                       if ParseIP host \<noteq> [] then
                         (Ok (JoinHostPort host port, NetDialer dl), ensureScoped_outbound env (ParseIP host) key f1)
                       else
                         (Ok (JoinHostPort host port, HostRouteDialer dl BaseResolver (EnsureScoped key)),
                          ensureOutboundDNSRoute env key f1)))
      | ActionVPN \<Rightarrow>
          (case vpnOutbound f of
             Some vpn \<Rightarrow> (Ok (JoinHostPort host port, VPNDialer vpn), f)
           | None \<Rightarrow>
               (case outbounds f ''DIRECT'' of
                  None \<Rightarrow> (Err NoVPNNoDirect, f)
                | Some ob \<Rightarrow>
                    (case dialer_with_dns env ''DIRECT'' ob f of
                       (dl, f1) \<Rightarrow> (Ok (JoinHostPort host port, NetDialer dl), f1)))))"

definition defaultIPTarget :: "'w fw_env \<Rightarrow> ip \<Rightarrow> string \<Rightarrow> ('w, 'v) Forwarder \<Rightarrow> ('w, 'v) target" where
  "defaultIPTarget env ip port f =
     (case routeTable f of
        Some rt \<Rightarrow>
          (case fw_Lookup env rt f ip of
             (Inl err, f') \<Rightarrow> (Err (NoRouteTo ip), f')
           | (Inr (ifn, gw), f') \<Rightarrow>
               (case dialerForIface env ifn (ensureHostRoute env ip ifn gw f') of
                  (dl, f'') \<Rightarrow> (Ok (JoinHostPort (IP_String ip) port, NetDialer dl), f'')))
      | None \<Rightarrow> (Ok (JoinHostPort (IP_String ip) port, NetDialer plain_dialer), f))"

definition resolve :: "'w fw_env \<Rightarrow> ip \<Rightarrow> 16 word \<Rightarrow> ('w, 'v) Forwarder \<Rightarrow> ('w, 'v) target" where
  "resolve env dstIP dstPort f =
     (let port = Itoa (int (unat dstPort))
      in if fw_pool f \<noteq> None \<and> InPool (the (fw_pool f)) dstIP then
           (case Lookup (the (fw_pool f)) dstIP of
              None \<Rightarrow> (Err (NoFakeMapping dstIP), f)
            | Some domain \<Rightarrow>
                (case (case fw_engine f of Some e \<Rightarrow> MatchDomain e domain | None \<Rightarrow> None) of
                   Some act \<Rightarrow> actionToTarget env act domain port f
                 | None \<Rightarrow>
                     if defaultVPN f then actionToTarget env VPN_action domain port f
                     else defaultDomainTarget domain port f))
         else
           (case (case fw_engine f of Some e \<Rightarrow> MatchIP e dstIP | None \<Rightarrow> None) of
              Some act \<Rightarrow> actionToTarget env act (IP_String dstIP) port f
            | None \<Rightarrow>
                if defaultVPN f then actionToTarget env VPN_action (IP_String dstIP) port f
                else defaultIPTarget env dstIP port f))"

subsection \<open>Dialing with host routes\<close>

definition run_ensure :: "'w fw_env \<Rightarrow> ensure_kind \<Rightarrow> ip \<Rightarrow> ('w, 'v) Forwarder \<Rightarrow> ('w, 'v) Forwarder" where
  "run_ensure env k ip f =
     (case k of EnsureDefault \<Rightarrow> ensureDefaultHostRoute env ip f
      | EnsureScoped key \<Rightarrow> ensureScoped_outbound env ip key f)"

definition ensureResolvedHostRoutes ::
    "string \<Rightarrow> (string \<Rightarrow> (string, ip list) res) \<Rightarrow> (ip \<Rightarrow> 's \<Rightarrow> 's) \<Rightarrow> 's \<Rightarrow> fw_error option \<times> 's" where
  "ensureResolvedHostRoutes address lookup ensure s =
     (case SplitHostPort address of
        None \<Rightarrow> (Some (HostLookupFailed address), s)
      | Some (host, _) \<Rightarrow>
          if ParseIP host \<noteq> [] then (None, ensure (ParseIP host) s)
          else (case lookup host of
                  Inl err \<Rightarrow> (Some (HostLookupFailed err), s)
                | Inr addrs \<Rightarrow> (None, fold ensure (filter (\<lambda>ip. ip \<noteq> []) addrs) s)))"

text \<open>
  \<^verbatim>\<open>DialContext\<close> of each dialer: the error that stops it before the connection is attempted, if any.
  The resolver's answers are a parameter.
\<close>

definition dial_prepare ::
    "'w fw_env \<Rightarrow> (Dialer \<Rightarrow> dns_choice \<Rightarrow> string \<Rightarrow> (string, ip list) res) \<Rightarrow> 'v packetDialer \<Rightarrow> string \<Rightarrow>
     ('w, 'v) Forwarder \<Rightarrow> fw_error option \<times> ('w, 'v) Forwarder" where
  "dial_prepare env lookup d address f =
     (case d of
        HostRouteDialer dl dns k \<Rightarrow> ensureResolvedHostRoutes address (lookup dl dns) (run_ensure env k) f
      | _ \<Rightarrow> (None, f))"

subsection \<open>Packets from the TUN device\<close>

definition handleICMPv4 :: "'w fw_env \<Rightarrow> byte list \<Rightarrow> ('w, 'v) Forwarder \<Rightarrow> ('w, 'v) Forwarder" where
  "handleICMPv4 env pkt f =
     (if length pkt < 20 then f
      else
        let ihl = unat (pkt ! 0 AND 0x0F) * 4
        in if ihl < 20 \<or> length pkt < ihl + 8 then f
           else if pkt ! ihl \<noteq> 8 then f
           else
             let dstIP = take 4 (drop 16 pkt)
             in case fw_engine f of
                  None \<Rightarrow> ensureDefaultHostRoute env dstIP f
                | Some e \<Rightarrow>
                    (case MatchIP e dstIP of
                       None \<Rightarrow> ensureDefaultHostRoute env dstIP f
                     | Some act \<Rightarrow>
                         (case Type act of
                            ActionDirect \<Rightarrow>
                              (let key = (if outbounds f (Outbound act) = None then ''DIRECT'' else Outbound act)
                               in if outbounds f key = None then f else ensureScoped_outbound env dstIP key f)
                          | ActionVPN \<Rightarrow> f)))"

datatype inbound = PktIgnored | PktICMP | PktInject4 "byte list" | PktInject6 "byte list"

definition tun_packet :: "'w fw_env \<Rightarrow> byte list \<Rightarrow> ('w, 'v) Forwarder \<Rightarrow> inbound \<times> ('w, 'v) Forwarder" where
  "tun_packet env pkt f =
     (if pkt = [] then (PktIgnored, f)
      else if 20 \<le> length pkt \<and> drop_bit 4 (pkt ! 0) = 4 \<and> pkt ! 9 = 1
      then (PktICMP, handleICMPv4 env pkt f)
      else let v = drop_bit 4 (pkt ! 0) AND 0x0F
           in if v = 4 then (PktInject4 pkt, f)
              else if v = 6 then (PktInject6 pkt, f)
              else (PktIgnored, f))"

text \<open>\<^verbatim>\<open>tunWriteLoop\<close> puts four zero bytes before the packet.\<close>

definition tun_write :: "byte list \<Rightarrow> byte list option" where
  "tun_write data = (if data = [] then None else Some ([0, 0, 0, 0] @ data))"

subsection \<open>Accepted connections\<close>

text \<open>What \<^verbatim>\<open>handleTCP\<close> and \<^verbatim>\<open>handleUDP\<close> start for a connection.\<close>

datatype accepted = ToDNS | ToDispatch

definition accept :: "('w, 'v) Forwarder \<Rightarrow> ip \<Rightarrow> 16 word \<Rightarrow> accepted" where
  "accept f dstIP dstPort = (if shouldHijackDNS f dstIP dstPort then ToDNS else ToDispatch)"

text \<open>
  \<^verbatim>\<open>dispatchTCP\<close> and \<^verbatim>\<open>dispatchUDP\<close> up to the relay: the address and dialer to connect with, or nothing
  when the limit is reached or no outbound is found; a connection that gets no dialer is no longer
  counted.
\<close>

definition dispatch ::
    "'w fw_env \<Rightarrow> (Dialer \<Rightarrow> dns_choice \<Rightarrow> string \<Rightarrow> (string, ip list) res) \<Rightarrow> ip \<Rightarrow> 16 word \<Rightarrow>
     ('w, 'v) Forwarder \<Rightarrow> (string \<times> 'v packetDialer) option \<times> ('w, 'v) Forwarder" where
  "dispatch env lookup dstIP dstPort f =
     (case trackConn f of
        (False, f1) \<Rightarrow> (None, f1)
      | (True, f1) \<Rightarrow>
          (case resolve env dstIP dstPort f1 of
             (Inl err, f2) \<Rightarrow> (None, untrackConn f2)
           | (Inr (tgt, d), f2) \<Rightarrow>
               (case dial_prepare env lookup d tgt f2 of
                  (Some err, f3) \<Rightarrow> (None, untrackConn f3)
                | (None, f3) \<Rightarrow> (Some (tgt, d), f3))))"

definition handleDNSUDP ::
    "('m, 'c) dns_lib \<Rightarrow> ('m, 'c) Server \<Rightarrow> byte list \<Rightarrow> byte list option \<times> ('m, 'c) Server" where
  "handleDNSUDP lib s raw =
     (case HandleDNS lib s raw of
        ((resp, Some err), s') \<Rightarrow> (None, s')
      | ((resp, None), s') \<Rightarrow> (Some resp, s'))"

definition handleDNSTCP ::
    "('m, 'c) dns_lib \<Rightarrow> ('m, 'c) Server \<Rightarrow> byte list \<Rightarrow> byte list \<times> ('m, 'c) Server" where
  "handleDNSTCP lib s input =
     (case read_frame input of
        None \<Rightarrow> ([], s)
      | Some raw \<Rightarrow>
          (case HandleDNS lib s raw of
             ((resp, Some err), s') \<Rightarrow> ([], s')
           | ((resp, None), s') \<Rightarrow> (frame resp, s')))"

subsection \<open>Connections in flight\<close>

text \<open>
  Many connections run \<^verbatim>\<open>trackConn\<close> and \<^verbatim>\<open>untrackConn\<close> at once, and only the additions to the counter are
  atomic: a connection that finds the limit passed has already raised the counter, which others
  see until it lowers it again.
\<close>

record conn_state =
  cs_count :: int
  cs_active :: nat
  cs_refused :: nat

inductive conn_step :: "int \<Rightarrow> conn_state \<Rightarrow> conn_state \<Rightarrow> bool" for limit where
  enter: "cs_count c + 1 \<le> limit \<Longrightarrow>
    conn_step limit c (c\<lparr>cs_count := cs_count c + 1, cs_active := cs_active c + 1\<rparr>)"
| enter_over: "limit < cs_count c + 1 \<Longrightarrow>
    conn_step limit c (c\<lparr>cs_count := cs_count c + 1, cs_refused := cs_refused c + 1\<rparr>)"
| leave_over: "0 < cs_refused c \<Longrightarrow>
    conn_step limit c (c\<lparr>cs_count := cs_count c - 1, cs_refused := cs_refused c - 1\<rparr>)"
| leave: "0 < cs_active c \<Longrightarrow>
    conn_step limit c (c\<lparr>cs_count := cs_count c - 1, cs_active := cs_active c - 1\<rparr>)"

inductive_cases conn_stepE: "conn_step limit c c'"

definition conn_inv :: "int \<Rightarrow> conn_state \<Rightarrow> bool" where
  "conn_inv limit c \<longleftrightarrow>
     cs_count c = int (cs_active c) + int (cs_refused c) \<and> int (cs_active c) \<le> limit"

lemma conn_step_inv: "conn_step limit c c' \<Longrightarrow> conn_inv limit c \<Longrightarrow> conn_inv limit c'"
  by (erule conn_stepE) (auto simp: conn_inv_def)

lemma trackConn_steps:
  assumes "0 < maxConns f"
  shows "(conn_step (maxConns f))\<^sup>*\<^sup>* \<lparr>cs_count = connCount f, cs_active = n, cs_refused = m\<rparr>
    \<lparr>cs_count = connCount (snd (trackConn f)),
     cs_active = (if fst (trackConn f) then n + 1 else n), cs_refused = m\<rparr>"
proof (cases "connCount f + 1 \<le> maxConns f")
  case True
  let ?c = "\<lparr>cs_count = connCount f, cs_active = n, cs_refused = m\<rparr>"
  from True assms have "trackConn f = (True, f\<lparr>connCount := connCount f + 1\<rparr>)"
    by (simp add: trackConn_def Let_def)
  moreover have "conn_step (maxConns f) ?c (?c\<lparr>cs_count := cs_count ?c + 1, cs_active := cs_active ?c + 1\<rparr>)"
    using True by (intro conn_step.enter) simp
  ultimately show ?thesis by (simp add: r_into_rtranclp)
next
  case False
  then show ?thesis using assms by (simp add: trackConn_def Let_def)
qed

subsection \<open>The policy\<close>

definition fw_host :: "('w, 'v) Forwarder \<Rightarrow> ip \<Rightarrow> string option" where
  "fw_host f dst =
     (if fw_pool f \<noteq> None \<and> InPool (the (fw_pool f)) dst then Lookup (the (fw_pool f)) dst
      else Some (IP_String dst))"

definition fw_policy :: "('w, 'v) Forwarder \<Rightarrow> ip \<Rightarrow> Action option" where
  "fw_policy f dst =
     (case (case fw_engine f of
              None \<Rightarrow> None
            | Some e \<Rightarrow>
                if fw_pool f \<noteq> None \<and> InPool (the (fw_pool f)) dst
                then Option.bind (Lookup (the (fw_pool f)) dst) (MatchDomain e)
                else MatchIP e dst) of
        Some act \<Rightarrow> Some act
      | None \<Rightarrow> if defaultVPN f then Some VPN_action else None)"

lemma resolve_policy_eq:
  "resolve env dst port f =
   (case fw_host f dst of
      None \<Rightarrow> (Err (NoFakeMapping dst), f)
    | Some host \<Rightarrow>
        (case fw_policy f dst of
           Some act \<Rightarrow> actionToTarget env act host (Itoa (int (unat port))) f
         | None \<Rightarrow>
             if fw_pool f \<noteq> None \<and> InPool (the (fw_pool f)) dst
             then defaultDomainTarget host (Itoa (int (unat port))) f
             else defaultIPTarget env dst (Itoa (int (unat port))) f))"
  by (auto simp: resolve_def fw_host_def fw_policy_def Let_def split: option.splits)

lemma actionToTarget_target:
  "fst (actionToTarget env act host port f) = Ok (t, d) \<Longrightarrow> t = JoinHostPort host port"
  by (auto simp: actionToTarget_def Let_def split: ActionType.splits option.splits prod.splits if_splits)

lemma actionToTarget_VPN:
  "fst (actionToTarget env act host port f) = Ok (t, d) \<Longrightarrow>
   (\<exists>v. d = VPNDialer v) \<longleftrightarrow> Type act = ActionVPN \<and> vpnOutbound f \<noteq> None"
  by (auto simp: actionToTarget_def Let_def split: ActionType.splits option.splits prod.splits if_splits)

lemma defaultIPTarget_target:
  "fst (defaultIPTarget env ip port f) = Ok (t, d) \<Longrightarrow>
   t = JoinHostPort (IP_String ip) port \<and> (\<exists>dl. d = NetDialer dl)"
  by (auto simp: defaultIPTarget_def split: option.splits prod.splits sum.splits)

subsection \<open>Crash safety of the host routes\<close>

definition hosts_ok :: "('w, 'v) Forwarder \<Rightarrow> bool" where
  "hosts_ok f \<longleftrightarrow> set (routeCache f) \<subseteq> set (loadPersistedHostRoutes (fw_hosts f))"

lemma hosts_ok_frame [simp]:
  "hosts_ok (f\<lparr>outbounds := x1\<rparr>) = hosts_ok f" "hosts_ok (f\<lparr>ifaceCache := x2\<rparr>) = hosts_ok f"
  "hosts_ok (f\<lparr>routeTable := x3\<rparr>) = hosts_ok f" "hosts_ok (f\<lparr>connCount := x4\<rparr>) = hosts_ok f"
  "hosts_ok (f\<lparr>vpnOutbound := x5\<rparr>) = hosts_ok f" "hosts_ok (f\<lparr>defaultVPN := x6\<rparr>) = hosts_ok f"
  by (simp_all add: hosts_ok_def)

lemma hosts_ok_flush [simp]: "hosts_ok (flush_caches f)"
  by (simp add: hosts_ok_def flush_caches_def)

lemma ensure_with_ok:
  assumes "\<And>st. set (loadPersistedHostRoutes st) - {IP_String ip} \<subseteq>
      set (loadPersistedHostRoutes (snd (add (IP_String ip) st)))" "hosts_ok f"
  shows "hosts_ok (ensure_with cur add ip f)"
proof (cases "To4 ip = []")
  case False
  obtain e hs where a: "add (IP_String ip) (fw_hosts f) = (e, hs)" by fastforce
  with assms(1) [of "fw_hosts f"] assms(2)
  have "set (routeCache f) - {IP_String ip} \<subseteq> set (loadPersistedHostRoutes hs)"
    by (auto simp: hosts_ok_def)
  with False assms(2) a load_remember [OF False, of hs] show ?thesis
    by (auto simp: ensure_with_def hosts_ok_def Let_def split: option.splits)
qed (simp add: ensure_with_def assms(2))

context host_route_contract
begin

lemma ensureHostRoute_ok: "fe_host env = ops \<Longrightarrow> hosts_ok f \<Longrightarrow> hosts_ok (ensureHostRoute env ip i g f)"
  unfolding ensureHostRoute_def by (rule ensure_with_ok) (simp_all add: add_file)

lemma ensureScopedHostRoute_ok: "fe_host env = ops \<Longrightarrow> hosts_ok f \<Longrightarrow> hosts_ok (ensureScopedHostRoute env ip i f)"
  unfolding ensureScopedHostRoute_def by (rule ensure_with_ok) (simp_all add: scoped_file)

lemma fw_Lookup_ok: "hosts_ok f \<Longrightarrow> hosts_ok (snd (fw_Lookup env rt f ip))"
  by (simp add: fw_Lookup_def split: prod.splits)

lemma fw_Lookup_ok': "hosts_ok f \<Longrightarrow> fw_Lookup env rt f ip = (r, f') \<Longrightarrow> hosts_ok f'"
  using fw_Lookup_ok [of f env rt ip] by simp

lemma ensureDefault_ok: "fe_host env = ops \<Longrightarrow> hosts_ok f \<Longrightarrow> hosts_ok (ensureDefaultHostRoute env ip f)"
  by (auto simp: ensureDefaultHostRoute_def intro: ensureHostRoute_ok dest: fw_Lookup_ok'
      split: option.splits prod.splits sum.splits)

lemma outbound_iface_ok: "hosts_ok f \<Longrightarrow> hosts_ok (snd (outbound_iface env key f))"
  by (simp add: outbound_iface_def split: option.splits prod.splits)

lemma ensureScoped_outbound_ok: "fe_host env = ops \<Longrightarrow> hosts_ok f \<Longrightarrow> hosts_ok (ensureScoped_outbound env ip key f)"
  using outbound_iface_ok [of f env key]
  by (auto simp: ensureScoped_outbound_def intro: ensureScopedHostRoute_ok split: prod.splits)

lemma ensureOutboundDNS_ok: "fe_host env = ops \<Longrightarrow> hosts_ok f \<Longrightarrow> hosts_ok (ensureOutboundDNSRoute env key f)"
  by (auto simp: ensureOutboundDNSRoute_def intro: ensureScoped_outbound_ok split: option.splits prod.splits)

lemma dialer_with_dns_ok: "hosts_ok f \<Longrightarrow> hosts_ok (snd (dialer_with_dns env key ob f))"
  by (simp add: dialer_with_dns_def split: prod.splits)

lemma actionToTarget_ok:
  assumes "fe_host env = ops" "hosts_ok f"
  shows "hosts_ok (snd (actionToTarget env act host port f))"
proof -
  have "hosts_ok f1" if "dialer_with_dns env key ob f = (dl, f1)" for key ob dl f1
    using dialer_with_dns_ok [OF assms(2), of env key ob] that by simp
  then show ?thesis using assms
    by (auto simp: actionToTarget_def Let_def split: ActionType.splits option.splits prod.splits
        intro!: ensureScoped_outbound_ok ensureOutboundDNS_ok)
qed

lemma dialerForIface_ok: "hosts_ok f \<Longrightarrow> dialerForIface env n f = (dl, f') \<Longrightarrow> hosts_ok f'"
  by (auto simp: dialerForIface_def split: option.splits prod.splits)

lemma defaultIPTarget_ok:
  assumes "fe_host env = ops" "hosts_ok f"
  shows "hosts_ok (snd (defaultIPTarget env ip port f))"
proof -
  have "hosts_ok x" if "dialerForIface env a (ensureHostRoute env ip a b f') = (dl, x)"
    "fw_Lookup env rt f ip = (r, f')" for a b f' dl x rt r
    using that assms fw_Lookup_ok' ensureHostRoute_ok dialerForIface_ok by metis
  then show ?thesis
    using assms by (auto simp: defaultIPTarget_def dest: fw_Lookup_ok' split: option.splits prod.splits sum.splits)
qed

lemma resolve_ok: "fe_host env = ops \<Longrightarrow> hosts_ok f \<Longrightarrow> hosts_ok (snd (resolve env dst port f))"
  by (auto simp: resolve_policy_eq defaultDomainTarget_def actionToTarget_ok defaultIPTarget_ok split: option.splits)

lemma run_ensure_ok: "fe_host env = ops \<Longrightarrow> hosts_ok f \<Longrightarrow> hosts_ok (run_ensure env k ip f)"
  by (simp add: run_ensure_def ensureDefault_ok ensureScoped_outbound_ok split: ensure_kind.splits)

lemma fold_ensure_ok: "fe_host env = ops \<Longrightarrow> hosts_ok f \<Longrightarrow> hosts_ok (fold (run_ensure env k) ips f)"
  by (induction ips arbitrary: f) (simp_all add: run_ensure_ok)

lemma dial_prepare_ok: "fe_host env = ops \<Longrightarrow> hosts_ok f \<Longrightarrow> hosts_ok (snd (dial_prepare env lk d a f))"
  by (auto simp: dial_prepare_def ensureResolvedHostRoutes_def run_ensure_ok fold_ensure_ok
      split: packetDialer.splits option.splits prod.splits sum.splits)

lemma trackConn_ok: "hosts_ok f \<Longrightarrow> hosts_ok (snd (trackConn f))"
  by (simp add: trackConn_def Let_def)

lemma untrackConn_ok: "hosts_ok f \<Longrightarrow> hosts_ok (untrackConn f)"
  by (simp add: untrackConn_def)

lemma dispatch_ok:
  assumes "fe_host env = ops" "hosts_ok f"
  shows "hosts_ok (snd (dispatch env lk dst port f))"
proof -
  obtain b f1 where t: "trackConn f = (b, f1)" by fastforce
  have 1: "hosts_ok f1" using trackConn_ok [OF assms(2)] t by simp
  obtain r f2 where s: "resolve env dst port f1 = (r, f2)" by fastforce
  have 2: "hosts_ok f2" using resolve_ok [OF assms(1) 1, of dst port] s by simp
  have 3: "hosts_ok (snd (dial_prepare env lk d a f2))" for d a
    by (rule dial_prepare_ok [OF assms(1) 2])
  show ?thesis using 1 2 3 t s untrackConn_ok
    by (auto simp: dispatch_def split: bool.splits sum.splits prod.splits option.splits) (metis snd_conv)+
qed

lemma handleICMPv4_ok: "fe_host env = ops \<Longrightarrow> hosts_ok f \<Longrightarrow> hosts_ok (handleICMPv4 env pkt f)"
  by (auto simp: handleICMPv4_def Let_def ensureDefault_ok ensureScoped_outbound_ok
      split: option.splits ActionType.splits)

lemma tun_packet_ok: "fe_host env = ops \<Longrightarrow> hosts_ok f \<Longrightarrow> hosts_ok (snd (tun_packet env pkt f))"
  by (simp add: tun_packet_def Let_def handleICMPv4_ok)

end

subsection \<open>What traffic leaves alone\<close>

definition fw_static :: "('w, 'v) Forwarder \<Rightarrow> fw_config \<times> Pool option \<times> Engine option \<times> 'v option \<times> bool" where
  "fw_static f = (fw_cfg f, fw_pool f, fw_engine f, vpnOutbound f, defaultVPN f)"

lemma static_frame [simp]:
  "fw_static (f\<lparr>outbounds := x1\<rparr>) = fw_static f" "fw_static (f\<lparr>ifaceCache := x2\<rparr>) = fw_static f"
  "fw_static (f\<lparr>routeTable := x3\<rparr>) = fw_static f" "fw_static (f\<lparr>connCount := x4\<rparr>) = fw_static f"
  "fw_static (f\<lparr>routeCache := x5\<rparr>) = fw_static f" "fw_static (f\<lparr>fw_hosts := x6\<rparr>) = fw_static f"
  "fw_static (flush_caches f) = fw_static f"
  by (simp_all add: fw_static_def flush_caches_def)

lemma ensure_with_static [simp]: "fw_static (ensure_with cur add ip f) = fw_static f"
  by (auto simp: ensure_with_def Let_def split: prod.splits option.splits)

lemma ensure_static [simp]:
  "fw_static (ensureHostRoute env ip i g f) = fw_static f"
  "fw_static (ensureScopedHostRoute env ip i f) = fw_static f"
  by (simp_all add: ensureHostRoute_def ensureScopedHostRoute_def)

lemma fw_Lookup_static: "fw_Lookup env rt f ip = (r, f') \<Longrightarrow> fw_static f' = fw_static f"
  by (auto simp: fw_Lookup_def split: prod.splits)

lemma outbound_iface_static: "outbound_iface env key f = (n, f') \<Longrightarrow> fw_static f' = fw_static f"
  by (auto simp: outbound_iface_def split: option.splits prod.splits)

lemma ensureDefault_static [simp]: "fw_static (ensureDefaultHostRoute env ip f) = fw_static f"
  by (auto simp: ensureDefaultHostRoute_def dest: fw_Lookup_static split: option.splits prod.splits sum.splits)

lemma ensureScoped_outbound_static [simp]: "fw_static (ensureScoped_outbound env ip key f) = fw_static f"
  by (auto simp: ensureScoped_outbound_def dest: outbound_iface_static split: prod.splits)

lemma ensureOutboundDNS_static [simp]: "fw_static (ensureOutboundDNSRoute env key f) = fw_static f"
  by (auto simp: ensureOutboundDNSRoute_def split: option.splits)

lemma dialer_with_dns_static: "dialer_with_dns env key ob f = (dl, f') \<Longrightarrow> fw_static f' = fw_static f"
  by (auto simp: dialer_with_dns_def split: prod.splits)

lemma dialerForIface_static: "dialerForIface env n f = (dl, f') \<Longrightarrow> fw_static f' = fw_static f"
  by (auto simp: dialerForIface_def split: option.splits prod.splits)

lemma actionToTarget_static: "fw_static (snd (actionToTarget env act host port f)) = fw_static f"
  by (auto simp: actionToTarget_def Let_def dest: dialer_with_dns_static
      split: ActionType.splits option.splits prod.splits)

lemma defaultIPTarget_static: "fw_static (snd (defaultIPTarget env ip port f)) = fw_static f"
proof -
  have "fw_static x = fw_static f" if "dialerForIface env a (ensureHostRoute env ip a b f') = (dl, x)"
    "fw_Lookup env rt f ip = (r, f')" for a b f' dl x rt r
    using dialerForIface_static [OF that(1)] fw_Lookup_static [OF that(2)] by simp
  then show ?thesis
    by (auto simp: defaultIPTarget_def dest: fw_Lookup_static split: option.splits prod.splits sum.splits)
qed

lemma resolve_static: "fw_static (snd (resolve env dst port f)) = fw_static f"
  by (auto simp: resolve_policy_eq defaultDomainTarget_def actionToTarget_static defaultIPTarget_static
      split: option.splits)

lemma run_ensure_static [simp]: "fw_static (run_ensure env k ip f) = fw_static f"
  by (simp add: run_ensure_def split: ensure_kind.splits)

lemma fold_ensure_static [simp]: "fw_static (fold (run_ensure env k) ips f) = fw_static f"
  by (induction ips arbitrary: f) simp_all

lemma dial_prepare_static: "fw_static (snd (dial_prepare env lk d a f)) = fw_static f"
  by (auto simp: dial_prepare_def ensureResolvedHostRoutes_def
      split: packetDialer.splits option.splits prod.splits sum.splits)

lemma track_static: "fw_static (snd (trackConn f)) = fw_static f" "fw_static (untrackConn f) = fw_static f"
  by (simp_all add: trackConn_def untrackConn_def Let_def)

lemma dispatch_static: "fw_static (snd (dispatch env lk dst port f)) = fw_static f"
proof -
  obtain b f1 where t: "trackConn f = (b, f1)" by fastforce
  obtain r f2 where s: "resolve env dst port f1 = (r, f2)" by fastforce
  have "fw_static f1 = fw_static f" "fw_static f2 = fw_static f"
    using track_static(1) [of f] resolve_static [of env dst port f1] t s by simp_all
  moreover have "fw_static f3 = fw_static f2" if "dial_prepare env lk d a f2 = (e, f3)" for d a e f3
    using dial_prepare_static [of env lk d a f2] that by simp
  ultimately show ?thesis using t s
    by (auto simp: dispatch_def track_static(2) split: bool.splits sum.splits prod.splits option.splits)
qed

lemma tun_packet_static: "fw_static (snd (tun_packet env pkt f)) = fw_static f"
  by (auto simp: tun_packet_def handleICMPv4_def Let_def split: option.splits ActionType.splits)

text \<open>
  The life of a forwarder on Darwin or another system: each step sees the system as it is then.
\<close>

inductive host_system :: "'w host_ops \<Rightarrow> bool" where
  "host_system (darwin_host_ops env query run)"
| "host_system fallback_host_ops"

lemma host_system_contract: "host_system ops \<Longrightarrow> host_route_contract ops"
  by (erule host_system.cases)
     (simp_all add: darwin_hosts.host_route_contract_axioms fallback_hosts.host_route_contract_axioms)

inductive fw_reach :: "('w, 'v) Forwarder \<Rightarrow> bool" where
  fw_new: "fw_reach (NewForwarder cfg maxc hijack pool engine outs rt hosts)"
| fw_vpn: "fw_reach f \<Longrightarrow> fw_reach (SetVPNOutbound f d)"
| fw_default: "fw_reach f \<Longrightarrow> fw_reach (SetDefaultVPN f b)"
| fw_packet: "fw_reach f \<Longrightarrow> host_system (fe_host env) \<Longrightarrow> fw_reach (snd (tun_packet env pkt f))"
| fw_dispatch: "fw_reach f \<Longrightarrow> host_system (fe_host env) \<Longrightarrow> fw_reach (snd (dispatch env lk dst port f))"
| fw_done: "fw_reach f \<Longrightarrow> fw_reach (untrackConn f)"
| fw_refresh: "fw_reach f \<Longrightarrow> fw_reach (flush_caches f)"

lemma fw_reach_hosts_ok: "fw_reach f \<Longrightarrow> hosts_ok f"
proof (induction rule: fw_reach.induct)
  case (fw_packet f env pkt)
  then show ?case
    using host_route_contract.tun_packet_ok [OF host_system_contract] by blast
next
  case (fw_dispatch f env lk dst port)
  then show ?case
    using host_route_contract.dispatch_ok [OF host_system_contract] by blast
qed (simp_all add: NewForwarder_def SetVPNOutbound_def SetDefaultVPN_def untrackConn_def,
     simp add: hosts_ok_def)

subsection \<open>Properties\<close>

definition sample_hosts :: "unit hr_state" where
  "sample_hosts = \<lparr>hr_os = (), hr_file = None\<rparr>"

definition sample_fw :: "(unit, nat) Forwarder" where
  "sample_fw = SetVPNOutbound (SetDefaultVPN (NewForwarder
     \<lparr>TUNMTU = 1420, UpstreamDNS = [], DefaultDNS = []\<rparr> 2 [''any:53''] (Some small_pool) None
     Map.empty None sample_hosts) True) (Some 7)"

definition sample_fe :: "unit fw_env" where
  "sample_fe = \<lparr>fe_net = sample_env, fe_sort = insertionSort, fe_fetch = (\<lambda>s. Ok [default_route]),
     fe_now = 0, fe_host = fallback_host_ops\<rparr>"

lemma resolve_outbound:
  assumes "fst (resolve env dst port f) = Ok (target, dialer)"
  shows "(\<exists>host. fw_host f dst = Some host \<and> target = JoinHostPort host (Itoa (int (unat port)))) \<and>
    ((\<exists>v. dialer = VPNDialer v) \<longleftrightarrow>
      (\<exists>act. fw_policy f dst = Some act \<and> Type act = ActionVPN) \<and> vpnOutbound f \<noteq> None)"
proof -
  let ?p = "Itoa (int (unat port))"
  obtain host where h: "fw_host f dst = Some host"
    using assms by (cases "fw_host f dst") (auto simp: resolve_policy_eq)
  show ?thesis
  proof (cases "fw_policy f dst")
    case (Some act)
    then have "fst (actionToTarget env act host ?p f) = Ok (target, dialer)"
      using assms h by (simp add: resolve_policy_eq)
    with actionToTarget_target actionToTarget_VPN h Some show ?thesis by fastforce
  next
    case None
    then show ?thesis
      using assms h defaultIPTarget_target [of env dst ?p f target dialer]
      by (auto simp: resolve_policy_eq defaultDomainTarget_def fw_host_def split: if_splits)
  qed
qed

text \<open>
  Property C6: a captured connection is dialed to its domain, for a fake address, or to its address,
  and goes into the VPN exactly when the first rule that covers it says so, or no rule does and the
  default is the VPN, and the VPN is connected.
\<close>

theorem resolve_policy:
  assumes "fst (resolve env dst port f) = Ok (target, dialer)"
  shows "(\<exists>host. fw_host f dst = Some host \<and> target = JoinHostPort host (Itoa (int (unat port)))) \<and>
    ((\<exists>v. dialer = VPNDialer v) \<longleftrightarrow>
      (\<exists>act. fw_policy f dst = Some act \<and> Type act = ActionVPN) \<and> vpnOutbound f \<noteq> None)"
  using assms by (rule resolve_outbound)

lemma sample_not_in_pool: "\<not> InPool small_pool [8, 8, 8, 8]"
proof -
  have "pool_cidr small_pool = \<lparr>IP = BE_PutUint32 0xC6120000, Mask = CIDRMask (int 30) 32\<rparr>"
    by (simp add: small_pool_def)
  moreover have "BE_Uint32 [8, 8, 8, 8] = 0x08080808" by (simp add: BE_Uint32_def)
  ultimately show ?thesis
    unfolding InPool_def using Contains_v4 [of "BE_PutUint32 0xC6120000" 30 "[8, 8, 8, 8]"] by simp
qed

theorem resolve_policy_witness:
  "\<exists>v. snd (projr (fst (resolve sample_fe [8, 8, 8, 8] 443 sample_fw))) = VPNDialer v"
proof -
  have p: "fw_policy sample_fw [8, 8, 8, 8] = Some VPN_action" "vpnOutbound sample_fw = Some 7"
    "fw_pool sample_fw = Some small_pool" "fw_engine sample_fw = None"
    by (simp_all add: sample_fw_def SetVPNOutbound_def SetDefaultVPN_def NewForwarder_def fw_policy_def)
  have h: "fw_host sample_fw [8, 8, 8, 8] = Some (IP_String [8, 8, 8, 8])"
    using sample_not_in_pool p by (simp add: fw_host_def)
  have "fst (resolve sample_fe [8, 8, 8, 8] 443 sample_fw) =
      Ok (JoinHostPort (IP_String [8, 8, 8, 8]) (Itoa (int (unat (443 :: 16 word)))), VPNDialer 7)"
    using p h by (simp add: resolve_policy_eq actionToTarget_def)
  from resolve_policy [OF this] this p show ?thesis by simp
qed


lemma ensureHostRoute_cached:
  assumes "To4 ip \<noteq> []" "fst (addHostRoute (fe_host env) (IP_String ip) ifn gw (fw_hosts f)) = None"
  shows "IP_String ip \<in> set (routeCache (ensureHostRoute env ip ifn gw f))"
  using assms by (auto simp: ensureHostRoute_def ensure_with_def Let_def split: prod.splits option.splits)

definition echo_packet :: "ip \<Rightarrow> byte list" where
  "echo_packet dst = [0x45, 0, 0, 28, 0, 0, 0, 0, 64, 1, 0, 0, 10, 0, 0, 1] @ dst @ [8, 0, 0, 0, 0, 0, 0, 0]"

lemma echo_packet_handled:
  assumes "length dst = 4" "\<forall>e. fw_engine f = Some e \<longrightarrow> MatchIP e dst = None"
  shows "snd (tun_packet env (echo_packet dst) f) = ensureDefaultHostRoute env dst f"
proof -
  obtain a b c d where "dst = [a, b, c, d]" using bytes4_cases [OF assms(1)] .
  then show ?thesis
    using assms(2) by (auto simp: tun_packet_def echo_packet_def handleICMPv4_def Let_def split: option.splits)
qed

lemma echo_installs_route:
  assumes "length dst = 4" "\<forall>e. fw_engine f = Some e \<longrightarrow> MatchIP e dst = None"
    "routeTable f = Some rt" "fst (fw_Lookup env rt f dst) = Ok (ifn, gw)"
    "\<forall>hs. fst (addHostRoute (fe_host env) (IP_String dst) ifn gw hs) = None"
  shows "IP_String dst \<in> set (routeCache (snd (tun_packet env (echo_packet dst) f)))"
proof -
  obtain f' where "fw_Lookup env rt f dst = (Ok (ifn, gw), f')" using assms(4) by (metis fst_conv surj_pair)
  then have "snd (tun_packet env (echo_packet dst) f) = ensureHostRoute env dst ifn gw f'"
    using assms(1,3) length_4_ne [OF assms(1)]
    by (simp add: echo_packet_handled [OF assms(1,2)] ensureDefaultHostRoute_def)
  then show ?thesis using ensureHostRoute_cached [of dst env ifn gw f'] assms(1,5) length_4_ne by simp
qed

definition route_fw :: "(unit, nat) Forwarder" where
  "route_fw = NewForwarder \<lparr>TUNMTU = 1420, UpstreamDNS = [], DefaultDNS = []\<rparr> 2 [] (Some small_pool)
     None Map.empty (Some (New_RouteTable ''utun9'' 30)) sample_hosts"

lemma route_fw_simps:
  "fw_engine route_fw = None" "fw_pool route_fw = Some small_pool"
  "routeTable route_fw = Some (OnRefresh (New_RouteTable ''utun9'' 30))"
  by (simp_all add: route_fw_def NewForwarder_def)

lemma route_fw_Lookup:
  assumes "length dst = 4"
  shows "fst (fw_Lookup sample_fe (OnRefresh (New_RouteTable ''utun9'' 30)) route_fw dst) =
    Ok (''en0'', [192, 168, 1, 1])"
proof -
  have "drop_bit 32 x = 0" for x :: "32 word"
    by (rule bit_word_eqI) (auto simp: bit_simps dest: bit_imp_le_length)
  then have "IPNet_Contains (Dest default_route) dst"
    using assms length_4_ne by (simp add: default_route_def Contains_v4_net)
  then show ?thesis
    by (simp add: fw_Lookup_def RouteTable_Lookup_def current_def refresh_def OnRefresh_def New_RouteTable_def
        Since_def maxDuration_def replace_def insertionSort_def sample_fe_def)
       (simp add: default_route_def)
qed


text \<open>
  An echo request to a fake address that no IP rule covers installs a host route for that
  fake address through the system's interface: later connections to the address no longer reach
  the TUN device that could map it back to its domain.
\<close>

theorem echo_diverts_fake_address:
  assumes "fw_pool f = Some p" "InPool p dst" "length dst = 4"
    "\<forall>e. fw_engine f = Some e \<longrightarrow> MatchIP e dst = None"
    "routeTable f = Some rt" "fst (fw_Lookup env rt f dst) = Ok (ifn, gw)"
    "\<forall>hs. fst (addHostRoute (fe_host env) (IP_String dst) ifn gw hs) = None"
  shows "IP_String dst \<in> set (routeCache (snd (tun_packet env (echo_packet dst) f)))"
  by (rule echo_installs_route [OF assms(3-7)])

theorem echo_diverts_fake_address_witness:
  "IP_String [198, 18, 0, 1] \<in> set (routeCache (snd (tun_packet sample_fe (echo_packet [198, 18, 0, 1]) route_fw)))"
proof (rule echo_diverts_fake_address [OF route_fw_simps(2) _ _ _ route_fw_simps(3) route_fw_Lookup])
  show "InPool small_pool [198, 18, 0, 1]"
  proof -
    have "assign_ip small_pool ''a'' = [198, 18, 0, 1]"
      by (simp add: Assign_def small_pool_def uint32ToIP_def BE_PutUint32_def)
    then show ?thesis using InPool_assign [OF small_pool_inv, of "''a''"] by simp
  qed
qed (simp_all add: route_fw_simps sample_fe_def fallback_host_ops_def)

text \<open>
  With the configuration \<^verbatim>\<open>any:53\<close>, exactly the connections to port 53 of an IPv4 or IPv6
  address are answered by the DNS server.
\<close>

theorem hijack_any:
  assumes "length ip = 4 \<or> length ip = 16"
  shows "shouldHijackDNS (NewForwarder cfg maxc [''any:53''] pool engine outs rt hosts) ip port \<longleftrightarrow> port = 53"
proof -
  have "parseDNSHijack [''any:53''] = [(Addr4 [0, 0, 0, 0], 53)]"
  proof -
    have "Replace1 ''any:53'' ''any'' ''0.0.0.0'' = ''0.0.0.0:53''" "Cut ''any:53'' ''://'' = None"
      by (simp_all add: Replace1_def HasPrefix_def)
    moreover have "last_cut (CHR '':'') ''0.0.0.0:53'' = Some (''0.0.0.0'', ''53'')"
      by (simp add: last_cut_def)
    moreover have "v4_string [0, 0, 0, 0] = ''0.0.0.0''"
      by (simp add: v4_string_def Uitoa.simps digit_char_def string_eval)
    then have "ParseAddr ''0.0.0.0'' = Some (Addr4 [0, 0, 0, 0])"
      using ParseAddr_v4_string [of "[0, 0, 0, 0]"] by simp
    moreover have "ParseUint16 ''53'' = Some 53"
      by (simp add: ParseUint16_def is_digit_def digits_val_def digit_val_def)
    ultimately show ?thesis by (simp add: ParseAddrPort_def)
  qed
  then show ?thesis
    using assms by (auto simp: shouldHijackDNS_def NewForwarder_def AddrFromSlice_def Addr_IsUnspecified_def
        numeral_eq_Suc Let_def)
qed

theorem hijack_any_witness:
  "shouldHijackDNS (NewForwarder \<lparr>TUNMTU = 0, UpstreamDNS = [], DefaultDNS = []\<rparr> 0 [''any:53''] None None
     Map.empty None sample_hosts) [1, 1, 1, 1] 53"
  by (subst hijack_any) simp_all

text \<open>
  However connections enter and leave at once, the number of connections let through
  never exceeds the configured maximum, and the counter is exact when no refusal is under way.
\<close>

theorem connections_bounded:
  assumes "(conn_step limit)\<^sup>*\<^sup>* \<lparr>cs_count = 0, cs_active = 0, cs_refused = 0\<rparr> c" "0 < limit"
  shows "int (cs_active c) \<le> limit \<and> (cs_refused c = 0 \<longrightarrow> cs_count c = int (cs_active c))"
proof -
  from assms(1) have "conn_inv limit c"
  proof (induction rule: rtranclp_induct)
    case base
    with assms(2) show ?case by (simp add: conn_inv_def)
  qed (rule conn_step_inv)
  then show ?thesis by (simp add: conn_inv_def)
qed

theorem connections_bounded_witness:
  "int (cs_active \<lparr>cs_count = 1, cs_active = 1, cs_refused = 0\<rparr>) \<le> 1"
proof -
  let ?c = "\<lparr>cs_count = 0, cs_active = 0, cs_refused = 0\<rparr>"
  have "conn_step 1 ?c (?c\<lparr>cs_count := cs_count ?c + 1, cs_active := cs_active ?c + 1\<rparr>)"
    by (rule enter) simp
  then have "(conn_step 1)\<^sup>*\<^sup>* ?c \<lparr>cs_count = 1, cs_active = 1, cs_refused = 0\<rparr>"
    by (simp add: r_into_rtranclp)
  from connections_bounded [OF this] show ?thesis by simp
qed

end
