(* ===== verification/Capture_Routes.thy ===== *)
theory Capture_Routes
  imports Router Route_Table
begin

section \<open>Capturing what other tunnels route (internal/vpn)\<close>

text \<open>
  \<^verbatim>\<open>RefinedCaptureCIDRs\<close> and \<^verbatim>\<open>splitMoreSpecific\<close> of \<^verbatim>\<open>internal/vpn/manager.go\<close>: networks routed to another
  tunnel are captured by their two halves, which the system prefers because their prefix is longer.
\<close>

definition isTunnelIface :: "string \<Rightarrow> bool" where
  "isTunnelIface name = (HasPrefix name ''utun'' \<or> HasPrefix name ''tun'' \<or> HasPrefix name ''tap'')"

definition splitMoreSpecific :: "ipnet \<Rightarrow> string list" where
  "splitMoreSpecific n =
     (case Mask_Size (Mask n) of
        (ones, bits) \<Rightarrow>
          if bits \<noteq> 32 \<or> 32 \<le> ones then []
          else
            let ip = To4 (IP n)
            in if ip = [] \<or> ip ! 0 = 127 \<or> 224 \<le> ip ! 0 then []
               else
                 let childMask = CIDRMask (int (ones + 1)) 32;
                     first = \<lparr>IP = IP_Mask ip childMask, Mask = childMask\<rparr>;
                     step = push_bit (32 - (ones + 1)) (1 :: 32 word);
                     secondIP = (push_bit 24 (ucast (ip ! 0)) OR push_bit 16 (ucast (ip ! 1)) OR
                                 push_bit 8 (ucast (ip ! 2)) OR ucast (ip ! 3)) + step;
                     second = \<lparr>IP = IPv4 (ucast (drop_bit 24 secondIP)) (ucast (drop_bit 16 secondIP))
                                       (ucast (drop_bit 8 secondIP)) (ucast secondIP), Mask = childMask\<rparr>
                 in [IPNet_String first, IPNet_String second])"

fun add_unseen :: "string list \<Rightarrow> string list \<Rightarrow> string list" where
  "add_unseen out [] = out"
| "add_unseen out (c # cs) = add_unseen (if c \<in> set out then out else out @ [c]) cs"

fun RefinedCaptureCIDRs_loop :: "string \<Rightarrow> string list \<Rightarrow> Entry list \<Rightarrow> string list" where
  "RefinedCaptureCIDRs_loop tun out [] = out"
| "RefinedCaptureCIDRs_loop tun out (e # es) =
     (if To4 (IP (Dest e)) = [] then RefinedCaptureCIDRs_loop tun out es
      else if Iface e = tun \<or> \<not> isTunnelIface (Iface e) then RefinedCaptureCIDRs_loop tun out es
      else RefinedCaptureCIDRs_loop tun (add_unseen out (splitMoreSpecific (Dest e))) es)"

definition RefinedCaptureCIDRs :: "Entry list \<Rightarrow> string \<Rightarrow> string list" where
  "RefinedCaptureCIDRs entries tunName = RefinedCaptureCIDRs_loop tunName [] entries"

fun firstNonSystem :: "string list \<Rightarrow> string" where
  "firstNonSystem [] = []"
| "firstNonSystem (u # us) = (if u \<noteq> [] \<and> u \<noteq> ''SYSTEM'' then u else firstNonSystem us)"

subsection \<open>The halves of a network\<close>

lemma set_add_unseen: "set (add_unseen out cs) = set out \<union> set cs"
  by (induction cs arbitrary: out) auto

lemma distinct_add_unseen: "distinct out \<Longrightarrow> distinct (add_unseen out cs)"
  by (induction cs arbitrary: out) auto

lemma refined_set:
  "set (RefinedCaptureCIDRs_loop tun out es) =
   set out \<union> (\<Union>e\<in>{e \<in> set es. To4 (IP (Dest e)) \<noteq> [] \<and> Iface e \<noteq> tun \<and> isTunnelIface (Iface e)}.
     set (splitMoreSpecific (Dest e)))"
  by (induction es arbitrary: out) (auto simp: set_add_unseen)

lemma refined_distinct: "distinct out \<Longrightarrow> distinct (RefinedCaptureCIDRs_loop tun out es)"
  by (induction es arbitrary: out) (simp_all add: distinct_add_unseen)

lemma IPNet_String_v4:
  assumes "To4 ip = b" "length b = 4" "n \<le> 32" "ip = b \<or> length ip = 16"
  shows "IPNet_String \<lparr>IP = ip, Mask = CIDRMask (int n) 32\<rparr> = v4_cidr_string b n"
  using assms length_4_ne [OF assms(2)]
  by (auto simp: IPNet_String_def networkNumberAndMask_def length_CIDRMask_32 CIDRMask_Size Let_def
      IP_String_def v4_cidr_string_def)

text \<open>The first half keeps the network's address, the second sets the next bit.\<close>

definition half :: "byte list \<Rightarrow> nat \<Rightarrow> bool \<Rightarrow> 32 word" where
  "half b n upper = (BE_Uint32 b AND NOT (mask (32 - n))) OR (if upper then push_bit (31 - n) 1 else 0)"

lemma add_disjoint_or:
  "x AND y = 0 \<Longrightarrow> x + y = x OR (y :: 32 word)"
  by (rule disjunctive_add_eq_or)

lemma half_add:
  assumes "n < 32"
  shows "(BE_Uint32 b AND NOT (mask (32 - n))) + push_bit (31 - n) 1 = half b n True"
proof -
  have "(BE_Uint32 b AND NOT (mask (32 - n))) AND push_bit (31 - n) 1 = 0"
    using assms by (intro bit_word_eqI) (auto simp: bit_simps bit_1_iff)
  then show ?thesis by (simp add: half_def add_disjoint_or)
qed

lemma half_low:
  assumes "n < 32"
  shows "(BE_Uint32 b AND NOT (mask (32 - n))) AND NOT (mask (32 - (n + 1))) = half b n False"
  using assms by (intro bit_word_eqI) (auto simp: half_def bit_simps)

lemma half_bits:
  assumes "n < 32" "i < 32"
  shows "bit (half b n u) i \<longleftrightarrow> (if i = 31 - n then u else 32 - n \<le> i \<and> bit (BE_Uint32 b) i)"
  using assms by (auto simp: half_def bit_simps bit_1_iff)

lemma drop_bit_eq_bits:
  "drop_bit k (x :: 32 word) = drop_bit k y \<longleftrightarrow> (\<forall>i. k \<le> i \<and> i < 32 \<longrightarrow> bit x i = bit y i)"
proof
  assume *: "drop_bit k x = drop_bit k y"
  show "\<forall>i. k \<le> i \<and> i < 32 \<longrightarrow> bit x i = bit y i"
  proof (intro allI impI)
    fix i assume "k \<le> i \<and> i < 32"
    then have "bit x i = bit (drop_bit k x) (i - k)" "bit y i = bit (drop_bit k y) (i - k)"
      by (simp_all add: bit_drop_bit_eq)
    with * show "bit x i = bit y i" by simp
  qed
next
  assume "\<forall>i. k \<le> i \<and> i < 32 \<longrightarrow> bit x i = bit y i"
  then show "drop_bit k x = drop_bit k y"
    using bit_imp_le_length [of x] bit_imp_le_length [of y]
    by (intro bit_word_eqI) (auto simp: bit_drop_bit_eq, (metis le_add1)+)
qed

lemma halves_cover:
  assumes "n < 32"
  shows "drop_bit (32 - n) x = drop_bit (32 - n) (BE_Uint32 b) \<longleftrightarrow>
    (\<exists>u. drop_bit (31 - n) x = drop_bit (31 - n) (half b n u))"
proof -
  have "(\<forall>i. 31 - n \<le> i \<and> i < 32 \<longrightarrow> bit x i = bit (half b n u) i) \<longleftrightarrow>
      bit x (31 - n) = u \<and> (\<forall>i. 32 - n \<le> i \<and> i < 32 \<longrightarrow> bit x i = bit (BE_Uint32 b) i)" for u
    using assms by (auto simp: half_bits)
  then show ?thesis by (simp add: drop_bit_eq_bits)
qed

lemma BE_PutUint32_nth: "BE_Uint32 (BE_PutUint32 w) = push_bit 24 (ucast (BE_PutUint32 w ! 0)) OR
    push_bit 16 (ucast (BE_PutUint32 w ! 1)) OR push_bit 8 (ucast (BE_PutUint32 w ! 2)) OR ucast (BE_PutUint32 w ! 3)"
  by (simp only: BE_Uint32_def)

lemma IP_Mask_same: "length ip = 4 \<Longrightarrow> length m = 4 \<Longrightarrow> IP_Mask ip m = map2 (AND) ip m"
  by (simp add: IP_Mask_def)

lemma splitMoreSpecific_v4:
  assumes "n < 32" "IP (v4_net b n) ! 0 \<noteq> 127" "IP (v4_net b n) ! 0 < 224"
  shows "splitMoreSpecific (v4_net b n) =
    [v4_cidr_string (BE_PutUint32 (half b n False)) (n + 1), v4_cidr_string (BE_PutUint32 (half b n True)) (n + 1)]"
proof -
  let ?w = "BE_Uint32 b AND NOT (mask (32 - n))" and ?m = "CIDRMask (int (n + 1)) 32"
  have ip: "IP (v4_net b n) = BE_PutUint32 ?w" "To4 (BE_PutUint32 ?w) = BE_PutUint32 ?w" "BE_PutUint32 ?w \<noteq> []"
    by (simp_all add: v4_net_def length_4_ne)
  have lm: "length ?m = 4" using assms(1) by (intro length_CIDRMask_32) simp
  have wm: "BE_Uint32 ?m = NOT (mask (32 - (n + 1)))" using assms(1) by (intro CIDRMask_word) simp
  have "IP_Mask (BE_PutUint32 ?w) ?m = BE_PutUint32 (half b n False)"
  proof -
    have "IP_Mask (BE_PutUint32 ?w) ?m = map2 (AND) (BE_PutUint32 ?w) ?m"
      by (rule IP_Mask_same [OF length_BE_PutUint32 lm])
    also have "\<dots> = BE_PutUint32 (BE_Uint32 (map2 (AND) (BE_PutUint32 ?w) ?m))"
      by (rule BE_PutUint32_Uint32 [symmetric]) (simp only: length_map length_zip length_BE_PutUint32 lm min.idem)
    also have "\<dots> = BE_PutUint32 (half b n False)"
      by (simp only: BE_Uint32_AND length_BE_PutUint32 lm wm BE_Uint32_PutUint32 half_low [OF assms(1)])
    finally show ?thesis .
  qed
  moreover have "IPv4 (ucast (drop_bit 24 x)) (ucast (drop_bit 16 x)) (ucast (drop_bit 8 x)) (ucast x) =
      v4InV6Prefix @ BE_PutUint32 x" for x :: "32 word"
    by (simp add: IPv4_def BE_PutUint32_def)
  moreover have "?w + push_bit (32 - (n + 1)) 1 = half b n True"
    using half_add [OF assms(1), of b] by simp
  moreover have "length (v4InV6Prefix @ BE_PutUint32 (half b n True)) = 16"
    by (simp add: v4InV6Prefix_def)
  ultimately show ?thesis
    using assms ip Mask_Size_v4 [of n] IPNet_String_v4 [of "BE_PutUint32 (half b n False)" _ "n + 1"]
      IPNet_String_v4 [of "v4InV6Prefix @ BE_PutUint32 (half b n True)" "BE_PutUint32 (half b n True)" "n + 1"]
      BE_PutUint32_nth [of ?w]
    by (simp add: splitMoreSpecific_def v4_net_def Let_def not_le del: of_nat_add)
qed

subsection \<open>Properties\<close>

text \<open>
  For every IPv4 network that the table routes to another tunnel, outside loopback and
  multicast, and every address of it, the refined list has a network that contains the address
  and whose prefix is exactly one bit longer; and nothing is listed twice.
\<close>

theorem refined_beats_tunnels:
  assumes "e \<in> set entries" "Dest e = v4_net b n" "n < 32" "length b = 4"
    "Iface e \<noteq> tun" "isTunnelIface (Iface e)"
    "IP (v4_net b n) ! 0 \<noteq> 127" "IP (v4_net b n) ! 0 < 224" "IPNet_Contains (Dest e) ip"
  shows "distinct (RefinedCaptureCIDRs entries tun) \<and>
    (\<exists>c\<in>set (RefinedCaptureCIDRs entries tun). \<exists>a net. ParseCIDR c = Some (a, net) \<and>
       IPNet_Contains net ip \<and> Mask_Size (Mask net) = (n + 1, 32))"
proof -
  have ip: "To4 ip \<noteq> []" "drop_bit (32 - n) (BE_Uint32 (To4 ip)) = drop_bit (32 - n) (BE_Uint32 b)"
    using assms(2,3,4,9) by (simp_all add: Contains_v4_net)
  then obtain u where u: "drop_bit (31 - n) (BE_Uint32 (To4 ip)) = drop_bit (31 - n) (half b n u)"
    using halves_cover [OF assms(3)] by blast
  let ?b = "BE_PutUint32 (half b n u)" and ?c = "v4_cidr_string (BE_PutUint32 (half b n u)) (n + 1)"
  have "?c \<in> set (splitMoreSpecific (Dest e))"
    using splitMoreSpecific_v4 [OF assms(3,7,8)] assms(2) by (cases u) simp_all
  moreover have "To4 (IP (Dest e)) \<noteq> []" using assms(2) by (simp add: v4_net_def length_4_ne)
  ultimately have c: "?c \<in> set (RefinedCaptureCIDRs entries tun)"
    using assms(1,5,6) by (auto simp: RefinedCaptureCIDRs_def refined_set)
  have "ParseCIDR ?c = Some (v4InV6Prefix @ ?b, v4_net ?b (n + 1))"
    using assms(3) by (intro ParseCIDR_v4) simp_all
  moreover have "IPNet_Contains (v4_net ?b (n + 1)) ip"
    using assms(3) ip(1) u Contains_v4_net [of ?b "n + 1" ip] by simp
  moreover have "Mask_Size (Mask (v4_net ?b (n + 1))) = (n + 1, 32)"
    using assms(3) Mask_Size_v4 [of "n + 1"] by (simp add: v4_net_def del: of_nat_add)
  ultimately show ?thesis using c refined_distinct [of "[]"] by (auto simp: RefinedCaptureCIDRs_def)
qed

theorem refined_beats_tunnels_witness:
  "\<exists>c\<in>set (RefinedCaptureCIDRs [corp_route] ''utun9''). \<exists>a net. ParseCIDR c = Some (a, net) \<and>
     IPNet_Contains net [10, 1, 2, 3] \<and> Mask_Size (Mask net) = (9, 32)"
proof -
  have "IP (v4_net [10, 0, 0, 0] 8) ! 0 = 10"
  proof -
    have "(x :: 32 word) AND NOT (mask 24) = push_bit 24 (drop_bit 24 x)" for x
      by (rule bit_word_eqI) (auto simp: bit_simps)
    moreover have "BE_Uint32 [10, 0, 0, 0] = 0x0A000000" by (simp add: BE_Uint32_def)
    ultimately show ?thesis by (simp add: v4_net_def BE_PutUint32_def)
  qed
  then show ?thesis
    using refined_beats_tunnels [of corp_route "[corp_route]" "[10, 0, 0, 0]" 8 "''utun9''" "[10, 1, 2, 3]"]
      sample_contains(2)
    by (simp add: corp_route_def isTunnelIface_def HasPrefix_def)
qed

end
