(* ===== verification/WG_Device.thy ===== *)
theory WG_Device
  imports Go_Net
begin

section \<open>The WireGuard device (internal/wgdevice)\<close>

text \<open>
  \<^verbatim>\<open>device.go\<close>: the configuration text handed to the WireGuard engine, the steps of creating a device
  and the counters read back. The engine and the netstack are a record of the operations the
  code calls.
\<close>

subsection \<open>Base64\<close>

text \<open>
  \<^verbatim>\<open>base64.StdEncoding.DecodeString\<close>: line breaks are skipped, the rest is groups of four characters,
  the last of which may be padded.
\<close>

definition b64_val :: "char \<Rightarrow> nat option" where
  "b64_val c =
     (let n = of_char c :: nat
      in if 65 \<le> n \<and> n \<le> 90 then Some (n - 65)
         else if 97 \<le> n \<and> n \<le> 122 then Some (n - 97 + 26)
         else if 48 \<le> n \<and> n \<le> 57 then Some (n - 48 + 52)
         else if n = 43 then Some 62 else if n = 47 then Some 63 else None)"

fun b64_groups :: "string \<Rightarrow> byte list option" where
  "b64_groups [] = Some []"
| "b64_groups (a # b # c # d # s) =
     (case (b64_val a, b64_val b) of
        (Some va, Some vb) \<Rightarrow>
          (case b64_val c of
             None \<Rightarrow> if c = CHR ''='' \<and> d = CHR ''='' \<and> s = [] then Some [of_nat (va * 4 + vb div 16)] else None
           | Some vc \<Rightarrow>
               (case b64_val d of
                  None \<Rightarrow> if d = CHR ''='' \<and> s = []
                         then Some [of_nat (va * 4 + vb div 16), of_nat (vb * 16 + vc div 4)] else None
                | Some vd \<Rightarrow>
                    map_option (\<lambda>r. [of_nat (va * 4 + vb div 16), of_nat (vb * 16 + vc div 4), of_nat (vc * 64 + vd)] @ r)
                      (b64_groups s)))
      | _ \<Rightarrow> None)"
| "b64_groups _ = None"

definition b64_DecodeString :: "string \<Rightarrow> byte list option" where
  "b64_DecodeString s = b64_groups (filter (\<lambda>c. c \<noteq> CHR 0x0A \<and> c \<noteq> CHR 0x0D) s)"

subsection \<open>Creating a device\<close>

record wg_config =
  PrivateKeyB64 :: string
  ServerPublicKeyB64 :: string
  ServerEndpoint :: string
  ProtocolMode :: int
  VpnIP :: netip_addr
  DNSServers :: "netip_addr list"
  FallbackDNS :: "netip_addr option"
  wg_MTU :: int

datatype wg_bind = TCPBind | DefaultBind

record 'v wg_engine =
  CreateNetTUN :: "netip_addr \<Rightarrow> netip_addr list \<Rightarrow> int \<Rightarrow> (string, 'v) res"
  IpcSet :: "'v \<Rightarrow> wg_bind \<Rightarrow> string \<Rightarrow> string option"
  Up :: "'v \<Rightarrow> string option"
  IpcGet :: "'v \<Rightarrow> (string, string) res"

datatype wg_error = BadPrivateKey | BadServerKey | NetstackFailed string | IpcSetFailed string | UpFailed string

abbreviation (input) NL :: string where "NL \<equiv> [CHR 0x0A]"

definition buildIPC :: "byte list \<Rightarrow> byte list \<Rightarrow> string \<Rightarrow> string" where
  "buildIPC privKey serverPubKey endpoint =
     ''private_key='' @ hexString privKey @ NL @
     ''replace_peers=true'' @ NL @
     ''public_key='' @ hexString serverPubKey @ NL @
     ''endpoint='' @ endpoint @ NL @
     ''persistent_keepalive_interval=25'' @ NL @
     ''replace_allowed_ips=true'' @ NL @
     ''allowed_ip=0.0.0.0/0'' @ NL @
     ''allowed_ip=::/0'' @ NL @
     NL"

definition wg_New :: "'v wg_engine \<Rightarrow> wg_config \<Rightarrow> (wg_error, 'v) res" where
  "wg_New eng cfg =
     (let mtu = (if wg_MTU cfg = 0 then 1420 else wg_MTU cfg)
      in case b64_DecodeString (PrivateKeyB64 cfg) of
           None \<Rightarrow> Err BadPrivateKey
         | Some priv \<Rightarrow>
             (case b64_DecodeString (ServerPublicKeyB64 cfg) of
                None \<Rightarrow> Err BadServerKey
              | Some pub \<Rightarrow>
                  let dns = (if DNSServers cfg = []
                             then (case FallbackDNS cfg of Some d \<Rightarrow> [d] | None \<Rightarrow> []) else DNSServers cfg)
                  in case CreateNetTUN eng (VpnIP cfg) dns mtu of
                       Inl e \<Rightarrow> Err (NetstackFailed e)
                     | Inr dev \<Rightarrow>
                         let bind = (if ProtocolMode cfg = 1 then TCPBind else DefaultBind)
                         in case IpcSet eng dev bind (buildIPC priv pub (ServerEndpoint cfg)) of
                              Some e \<Rightarrow> Err (IpcSetFailed e)
                            | None \<Rightarrow>
                                (case Up eng dev of Some e \<Rightarrow> Err (UpFailed e) | None \<Rightarrow> Ok dev)))"

subsection \<open>Counters\<close>

record Stats =
  TxBytes :: int
  RxBytes :: int
  LastHandshakeSec :: int

definition wrap64 :: "int \<Rightarrow> int" where
  "wrap64 i = (i + 2 ^ 63) mod 2 ^ 64 - 2 ^ 63"

definition zero_stats :: Stats where
  "zero_stats = \<lparr>TxBytes = 0, RxBytes = 0, LastHandshakeSec = 0\<rparr>"

definition stats_line :: "Stats \<Rightarrow> string \<Rightarrow> Stats" where
  "stats_line s line =
     (case Cut line ''='' of
        None \<Rightarrow> s
      | Some (k, v) \<Rightarrow>
          (case ParseInt64 (TrimSpace v) of
             None \<Rightarrow> s
           | Some n \<Rightarrow>
               if k = ''tx_bytes'' then s\<lparr>TxBytes := wrap64 (TxBytes s + n)\<rparr>
               else if k = ''rx_bytes'' then s\<lparr>RxBytes := wrap64 (RxBytes s + n)\<rparr>
               else if k = ''last_handshake_time_sec''
               then (if LastHandshakeSec s < n then s\<lparr>LastHandshakeSec := n\<rparr> else s)
               else s))"

definition GetStats :: "'v wg_engine \<Rightarrow> 'v \<Rightarrow> string option \<times> Stats" where
  "GetStats eng dev =
     (case IpcGet eng dev of
        Inl err \<Rightarrow> (Some err, zero_stats)
      | Inr out \<Rightarrow> (None, foldl stats_line zero_stats (Split out NL)))"

lemma wrap64_range: "- (2 ^ 63) \<le> wrap64 i \<and> wrap64 i < 2 ^ 63"
proof -
  have "0 \<le> (i + 2 ^ 63) mod 2 ^ 64" "(i + 2 ^ 63) mod 2 ^ 64 < (2 :: int) ^ 64" by simp_all
  then show ?thesis unfolding wrap64_def by simp
qed

lemma wrap64_id: "- (2 ^ 63) \<le> i \<Longrightarrow> i < 2 ^ 63 \<Longrightarrow> wrap64 i = i"
  unfolding wrap64_def by simp

lemma handshake_mono: "LastHandshakeSec s \<le> LastHandshakeSec (stats_line s l)"
  by (auto simp: stats_line_def split: option.splits)

lemma handshake_nonneg:
  assumes "GetStats eng dev = (e, s)"
  shows "0 \<le> LastHandshakeSec s"
proof -
  have "LastHandshakeSec t \<le> LastHandshakeSec (foldl stats_line t ls)" for t ls
    by (induction ls arbitrary: t) (simp_all, meson handshake_mono order_trans)
  from this [of zero_stats] assms show ?thesis
    by (auto simp: GetStats_def zero_stats_def split: sum.splits)
qed

end
