(* ===== verification/VPN_Manager.thy ===== *)
theory VPN_Manager
  imports Configuration Forwarder Capture_Routes WG_Device
begin

section \<open>The VPN manager (internal/vpn)\<close>

text \<open>
  \<^verbatim>\<open>internal/vpn/manager.go\<close> and \<^verbatim>\<open>internal/socks5proxy/server.go\<close>: bringing the tunnel up and down,
  the split and full tunnel modes, and dead-tunnel detection. Every operation holds the manager's
  mutex for its whole length, so each is one step. What the system and the libraries answer is the
  record \<open>vpn_env\<close>.

  The Go structures share objects by pointer. The rule engine is held by the manager and by the
  forwarder: \<open>set_engine\<close> changes both. The host routes and their file are global: they are the ones of
  the forwarder while there is one (\<open>hosts_of\<close>, \<open>set_hosts\<close>). The route table is the forwarder's
  once there is one.
\<close>

subsection \<open>State\<close>

record ConnectConfig =
  cc_WG :: wg_config
  SplitRoutes :: "string list"
  DomainSuffixes :: "string list"
  PhysicalIface :: string
  ServerIP :: string
  FollowSplitRoutes :: bool

record Status =
  Connected :: bool
  st_Reconnecting :: bool
  NodeName :: string
  st_VpnIP :: string
  st_DNS :: string
  Protocol :: string
  ConnectedAt :: int

definition no_status :: Status where
  "no_status = \<lparr>Connected = False, st_Reconnecting = False, NodeName = [], st_VpnIP = [], st_DNS = [],
     Protocol = [], ConnectedAt = 0\<rparr>"

record ('w, 'v) Manager =
  m_cfg :: Config
  active :: bool
  reconnecting :: bool
  currentFollowSplitRoutes :: bool
  m_status :: Status
  lastSplitRoutes :: "string list"
  lastDomainSuffixes :: "string list"
  lastRxBytes :: int
  m_tunDev :: "string option"
  m_wgDev :: "'v option"
  m_fwd :: "('w, 'v) Forwarder option"
  m_eng :: "Engine option"
  m_rt :: "RouteTable option"
  m_rm :: "'w RouteManager option"
  m_socks5 :: "string option"
  m_hosts :: "'w hr_state"
  m_state_file :: "persistedState option"

record ('w, 'v) vpn_env =
  ve_fw :: "'w fw_env"
  ve_addScoped :: "string \<Rightarrow> string \<Rightarrow> 'w hr_state \<Rightarrow> string option \<times> 'w hr_state"
  NewPlatformRouter :: "string \<Rightarrow> 'w Router"
  ve_wg :: "'v wg_engine"
  geoip_Open :: "string \<Rightarrow> (string, GeoIPDB) res"
  tun_NewDevice :: "TUNConfig \<Rightarrow> (string, string) res"
  ve_watcher :: bool
  nic_error :: "string option"
  socks_Listen :: "string \<Rightarrow> string option"
  ve_write :: bool
  now_unix :: int

datatype vpn_error =
    VRules config_error
  | VGeoIP string
  | VEngine rule_error
  | VDevice wg_error
  | VTun string
  | VPool pool_error
  | VDirect outbound_error
  | VForwarder string
  | VSocks string
  | VRoutes route_error
  | VNotActive

definition New_Manager :: "Config \<Rightarrow> 'w hr_state \<Rightarrow> persistedState option \<Rightarrow> ('w, 'v) Manager" where
  "New_Manager cfg hosts file =
     \<lparr>m_cfg = cfg, active = False, reconnecting = False, currentFollowSplitRoutes = False,
      m_status = no_status, lastSplitRoutes = [], lastDomainSuffixes = [], lastRxBytes = 0,
      m_tunDev = None, m_wgDev = None, m_fwd = None, m_eng = None, m_rt = None, m_rm = None,
      m_socks5 = None, m_hosts = hosts, m_state_file = file\<rparr>"

definition set_engine :: "Engine \<Rightarrow> ('w, 'v) Manager \<Rightarrow> ('w, 'v) Manager" where
  "set_engine e m =
     m\<lparr>m_eng := Some e, m_fwd := map_option (\<lambda>f. f\<lparr>fw_engine := Some e\<rparr>) (m_fwd m)\<rparr>"

definition hosts_of :: "('w, 'v) Manager \<Rightarrow> 'w hr_state" where
  "hosts_of m = (case m_fwd m of Some f \<Rightarrow> fw_hosts f | None \<Rightarrow> m_hosts m)"

definition set_hosts :: "'w hr_state \<Rightarrow> ('w, 'v) Manager \<Rightarrow> ('w, 'v) Manager" where
  "set_hosts h m =
     (case m_fwd m of
        Some f \<Rightarrow> m\<lparr>m_fwd := Some (f\<lparr>fw_hosts := h\<rparr>)\<rparr>
      | None \<Rightarrow> m\<lparr>m_hosts := h\<rparr>)"

subsection \<open>The SOCKS5 listener\<close>

definition socks_Start :: "SOCKS5Config \<Rightarrow> (string \<Rightarrow> string option) \<Rightarrow> (string, string option) res" where
  "socks_Start cfg listen =
     (if \<not> Enabled cfg then Ok None
      else if BindHost cfg = [] then Err ''socks5 bind host is empty''
      else if Port cfg < 0 \<or> 65535 < Port cfg then Err ''socks5 port must be between 0 and 65535''
      else
        let addr = JoinHostPort (BindHost cfg) (Itoa (Port cfg))
        in case listen addr of Some e \<Rightarrow> Err e | None \<Rightarrow> Ok (Some addr))"

definition startSOCKS5Locked ::
    "('w, 'v) vpn_env \<Rightarrow> ('w, 'v) Manager \<Rightarrow> vpn_error option \<times> ('w, 'v) Manager" where
  "startSOCKS5Locked env m =
     (case socks_Start (SOCKS5 (m_cfg m)) (socks_Listen env) of
        Inl e \<Rightarrow> (Some (VSocks e), m)
      | Inr srv \<Rightarrow> (None, m\<lparr>m_socks5 := srv\<rparr>))"

definition vpnResolver_Resolve :: "(string \<Rightarrow> (string, ip list) res) \<Rightarrow> string \<Rightarrow> (string, ip) res" where
  "vpnResolver_Resolve lookup name =
     (if ParseIP name \<noteq> [] then Ok (ParseIP name)
      else case lookup name of
             Inl e \<Rightarrow> Err e
           | Inr addrs \<Rightarrow>
               (case find (\<lambda>ip. ip \<noteq> []) addrs of None \<Rightarrow> Err name | Some ip \<Rightarrow> Ok ip))"

subsection \<open>Starting\<close>

definition and_then :: "'e option \<times> 's \<Rightarrow> ('s \<Rightarrow> 'e option \<times> 's) \<Rightarrow> 'e option \<times> 's" where
  "and_then r k = (case r of (Some e, s) \<Rightarrow> (Some e, s) | (None, s) \<Rightarrow> k s)"

definition start_engine ::
    "('w, 'v) vpn_env \<Rightarrow> ('w, 'v) Manager \<Rightarrow> vpn_error option \<times> ('w, 'v) Manager" where
  "start_engine env m =
     (case RuleStrings (m_cfg m) of
        Inl e \<Rightarrow> (Some (VRules e), m)
      | Inr ruleStrings \<Rightarrow>
          (case geoip_Open env (GeoIP_File (m_cfg m)) of
             Inl e \<Rightarrow> (Some (VGeoIP e), m)
           | Inr db \<Rightarrow>
               (case NewEngine ruleStrings (Some db) of
                  Inl e \<Rightarrow> (Some (VEngine e), m)
                | Inr eng \<Rightarrow> (None, m\<lparr>m_eng := Some eng\<rparr>))))"

definition start_tunnel ::
    "('w, 'v) vpn_env \<Rightarrow> ConnectConfig \<Rightarrow> ('w, 'v) Manager \<Rightarrow> vpn_error option \<times> ('w, 'v) Manager" where
  "start_tunnel env cc m =
     (let m1 = (if ServerIP cc \<noteq> [] \<and> PhysicalIface cc \<noteq> []
                then set_hosts (snd (ve_addScoped env (ServerIP cc) (PhysicalIface cc) (hosts_of m))) m
                else m)
      in case wg_New (ve_wg env) (cc_WG cc) of
           Inl e \<Rightarrow> (Some (VDevice e), m1)
         | Inr dev \<Rightarrow>
             let fe = ve_fw env;
                 rt = snd (Start (fe_sort fe) (fe_fetch fe) (ve_watcher env) (fe_now fe)
                       (New_RouteTable (tun_Name (TUN (m_cfg m1))) (30 * 10 ^ 9)))
             in (None, m1\<lparr>m_wgDev := Some dev, m_rt := Some rt\<rparr>))"

definition start_device ::
    "('w, 'v) vpn_env \<Rightarrow> ('w, 'v) Manager \<Rightarrow> vpn_error option \<times> ('w, 'v) Manager" where
  "start_device env m =
     (case tun_NewDevice env (TUN (m_cfg m)) of
        Inl e \<Rightarrow> (Some (VTun e), m)
      | Inr actualName \<Rightarrow>
          let m1 = m\<lparr>m_tunDev := Some actualName\<rparr>
          in (None,
              if actualName \<noteq> [] \<and> actualName \<noteq> tun_Name (TUN (m_cfg m1))
              then m1\<lparr>m_cfg := (m_cfg m1)\<lparr>TUN := (TUN (m_cfg m1))\<lparr>tun_Name := actualName\<rparr>\<rparr>,
                      m_rt := map_option (\<lambda>rt. SetSkipIface rt actualName) (m_rt m1)\<rparr>
              else m1))"

text \<open>Host routes for the upstream DNS servers that are given by address.\<close>

fun dns_host_routes :: "('w, 'v) vpn_env \<Rightarrow> string \<Rightarrow> string list \<Rightarrow> 'w hr_state \<Rightarrow> 'w hr_state" where
  "dns_host_routes env ifn [] h = h"
| "dns_host_routes env ifn (u # us) h =
     (case SplitHostPort u of
        None \<Rightarrow> dns_host_routes env ifn us h
      | Some (host, _) \<Rightarrow>
          if ParseIP host = [] then dns_host_routes env ifn us h
          else dns_host_routes env ifn us (snd (ve_addScoped env host ifn h)))"

definition start_forwarder ::
    "('w, 'v) vpn_env \<Rightarrow> ConnectConfig \<Rightarrow> ('w, 'v) Manager \<Rightarrow> vpn_error option \<times> ('w, 'v) Manager" where
  "start_forwarder env cc m =
     (let cfg = m_cfg m; net = fe_net (ve_fw env)
      in case NewPool (FakeIP_Pool cfg) of
           Inl e \<Rightarrow> (Some (VPool e), m)
         | Inr pool \<Rightarrow>
             (case Init net (NewDirect (DirectOutbound_Interface cfg) (Upstream (DNS cfg))) of
                (Some e, _) \<Rightarrow> (Some (VDirect e), m)
              | (None, direct0) \<Rightarrow>
                  (case ResolvedIfaceName net direct0 of
                     (name, directOut) \<Rightarrow>
                       let physIface = (if name = [] then PhysicalIface cc else name);
                           m1 = set_hosts (dns_host_routes env physIface (Upstream (DNS cfg)) (hosts_of m)) m;
                           up = firstNonSystem (Upstream (DNS cfg));
                           tunMTU = (if tun_MTU (TUN cfg) = 0 \<and> 0 < wg_MTU (cc_WG cc)
                                     then wg_MTU (cc_WG cc) else tun_MTU (TUN cfg))
                       in case nic_error env of
                            Some e \<Rightarrow> (Some (VForwarder e), m1)
                          | None \<Rightarrow>
                              let fwd = NewForwarder
                                    \<lparr>TUNMTU = tunMTU, UpstreamDNS = up, DefaultDNS = up\<rparr> 0 (Hijack (DNS cfg))
                                    (Some (pool\<lparr>OnAssign := True\<rparr>)) (m_eng m1) [''DIRECT'' \<mapsto> directOut]
                                    (m_rt m1) (hosts_of m1)
                              in (None, m1\<lparr>m_fwd := Some (SetVPNOutbound fwd (m_wgDev m1))\<rparr>))))"

text \<open>The DNS server the manager builds over the pool and the engine.\<close>

definition manager_dns_server ::
    "Config \<Rightarrow> Pool \<Rightarrow> Engine \<Rightarrow> (string \<Rightarrow> string \<Rightarrow> (string, 'c) res) \<Rightarrow> ('m, 'c) Server" where
  "manager_dns_server cfg pool eng dial =
     (let s = NewServer pool (MatcherAdapter_MatchDomain eng) None (Upstream (DNS cfg));
          s1 = (if Hijack (DNS cfg) \<noteq> [] then SetFakeAllA s True else s)
      in SetDialFn s1 (Some dial))"

definition start_routes ::
    "('w, 'v) vpn_env \<Rightarrow> ('w, 'v) Manager \<Rightarrow> vpn_error option \<times> ('w, 'v) Manager" where
  "start_routes env m =
     (case m_fwd m of
        None \<Rightarrow> (None, m)
      | Some fwd \<Rightarrow>
          let fe = ve_fw env; tun = tun_Name (TUN (m_cfg m));
              rt = the (routeTable fwd);
              (entries, rt') = RouteTable_Entries (fe_sort fe) (fe_fetch fe) (fe_now fe) rt;
              fwd' = (if table_fired fe rt then flush_caches fwd else fwd)\<lparr>routeTable := Some rt'\<rparr>;
              rm = NewRouteManager (NewPlatformRouter env tun) (m_state_file m);
              (err, rm', w', tr) = AddRoutes (ve_write env) rm (FakeIP_Pool (m_cfg m))
                (RefinedCaptureCIDRs entries tun) (hr_os (fw_hosts fwd'));
              m1 = set_hosts ((fw_hosts fwd')\<lparr>hr_os := w'\<rparr>)
                (m\<lparr>m_fwd := Some fwd', m_rt := Some rt', m_rm := Some rm', m_state_file := state_file rm'\<rparr>)
          in (map_option VRoutes err, m1))"

definition split_rules :: "string list \<Rightarrow> string list \<Rightarrow> string list" where
  "split_rules routes sfxs = map cidr_rule_string routes @ map suffix_rule_string sfxs"

definition full_rules :: "string list" where
  "full_rules = [cidr_rule_string ''0.0.0.0/0'']"

text \<open>Injection is skipped for an empty list, and a failure is logged and ignored.\<close>

definition inject :: "string list \<Rightarrow> Engine \<Rightarrow> Engine" where
  "inject injected e = (if injected = [] then e else snd (InjectRules e injected))"

definition set_default_vpn :: "bool \<Rightarrow> ('w, 'v) Manager \<Rightarrow> ('w, 'v) Manager" where
  "set_default_vpn v m = m\<lparr>m_fwd := map_option (\<lambda>f. SetDefaultVPN f v) (m_fwd m)\<rparr>"

definition start_rules :: "ConnectConfig \<Rightarrow> ('w, 'v) Manager \<Rightarrow> vpn_error option \<times> ('w, 'v) Manager" where
  "start_rules cc m =
     (let m1 = m\<lparr>currentFollowSplitRoutes := FollowSplitRoutes cc\<rparr>;
          m2 = (if FollowSplitRoutes cc then m1 else set_default_vpn True m1);
          injected = (if FollowSplitRoutes cc then split_rules (SplitRoutes cc) (DomainSuffixes cc)
                      else full_rules)
      in (None, case m_eng m2 of None \<Rightarrow> m2 | Some e \<Rightarrow> set_engine (inject injected e) m2))"

definition startLocked ::
    "('w, 'v) vpn_env \<Rightarrow> ConnectConfig \<Rightarrow> ('w, 'v) Manager \<Rightarrow> vpn_error option \<times> ('w, 'v) Manager" where
  "startLocked env cc m =
     and_then (and_then (and_then (and_then (and_then (and_then
       (start_engine env m)
       (start_tunnel env cc))
       (start_device env))
       (start_forwarder env cc))
       (startSOCKS5Locked env))
       (start_routes env))
       (start_rules cc)"

subsection \<open>Stopping\<close>

definition cleanupLocked :: "('w, 'v) vpn_env \<Rightarrow> ('w, 'v) Manager \<Rightarrow> ('w, 'v) Manager" where
  "cleanupLocked env m =
     (let ops = fe_host (ve_fw env);
          h1 = (case m_fwd m of
                  Some f \<Rightarrow> fw_hosts (Close (ve_fw env) (SetDefaultVPN f False))
                | None \<Rightarrow> m_hosts m);
          (file, w) = (case m_rm m of
                         Some rm \<Rightarrow> (case Cleanup (ve_write env) rm (hr_os h1) of (rm', w', _) \<Rightarrow> (state_file rm', w'))
                       | None \<Rightarrow> (m_state_file m, hr_os h1))
      in m\<lparr>m_socks5 := None, m_eng := None, m_fwd := None, m_rm := None, m_wgDev := None,
           m_tunDev := None, m_rt := None,
           m_hosts := CleanupPersistedHostRoutes ops (h1\<lparr>hr_os := w\<rparr>), m_state_file := file\<rparr>)"

subsection \<open>Operations\<close>

definition connected_status :: "('w, 'v) vpn_env \<Rightarrow> string \<Rightarrow> ConnectConfig \<Rightarrow> Status" where
  "connected_status env nodeName cc =
     \<lparr>Connected = True, st_Reconnecting = False, NodeName = nodeName, st_VpnIP = Addr_String (VpnIP (cc_WG cc)),
      st_DNS = (case DNSServers (cc_WG cc) of d # _ \<Rightarrow> Addr_String d | [] \<Rightarrow> []),
      Protocol = (if ProtocolMode (cc_WG cc) = 1 then ''TCP'' else ''UDP''), ConnectedAt = now_unix env\<rparr>"

definition Manager_Connect ::
    "('w, 'v) vpn_env \<Rightarrow> string \<Rightarrow> ConnectConfig \<Rightarrow> ('w, 'v) Manager \<Rightarrow> vpn_error option \<times> ('w, 'v) Manager" where
  "Manager_Connect env nodeName cc m =
     (let m1 = (if active m then cleanupLocked env m else m)
      in case startLocked env cc m1 of
           (Some e, m2) \<Rightarrow> (Some e, cleanupLocked env m2)
         | (None, m2) \<Rightarrow>
             (None, m2\<lparr>active := True, lastSplitRoutes := SplitRoutes cc,
                      lastDomainSuffixes := DomainSuffixes cc,
                      m_status := connected_status env nodeName cc\<rparr>))"

definition Manager_Disconnect :: "('w, 'v) vpn_env \<Rightarrow> ('w, 'v) Manager \<Rightarrow> ('w, 'v) Manager" where
  "Manager_Disconnect env m = (cleanupLocked env m)\<lparr>active := False, m_status := no_status\<rparr>"

definition GetStatus :: "('w, 'v) Manager \<Rightarrow> Status" where
  "GetStatus m = (m_status m)\<lparr>st_Reconnecting := reconnecting m\<rparr>"

definition SetReconnecting :: "bool \<Rightarrow> ('w, 'v) Manager \<Rightarrow> ('w, 'v) Manager" where
  "SetReconnecting v m = m\<lparr>reconnecting := v\<rparr>"

definition Manager_GetStats :: "('w, 'v) vpn_env \<Rightarrow> ('w, 'v) Manager \<Rightarrow> Stats" where
  "Manager_GetStats env m =
     (case m_wgDev m of None \<Rightarrow> zero_stats | Some d \<Rightarrow> snd (GetStats (ve_wg env) d))"

definition SetFollowSplitRoutes :: "bool \<Rightarrow> ('w, 'v) Manager \<Rightarrow> ('w, 'v) Manager" where
  "SetFollowSplitRoutes v m =
     (case m_eng m of
        None \<Rightarrow> m
      | Some e \<Rightarrow>
          if \<not> active m \<or> m_fwd m = None then m
          else
            let m1 = m\<lparr>currentFollowSplitRoutes := v\<rparr>;
                injected = (if v then split_rules (lastSplitRoutes m) (lastDomainSuffixes m) else full_rules)
            in set_engine (inject injected (ClearInjectedRules e)) (set_default_vpn (\<not> v) m1))"

definition UpdateSOCKS5 ::
    "('w, 'v) vpn_env \<Rightarrow> SOCKS5Config \<Rightarrow> ('w, 'v) Manager \<Rightarrow> vpn_error option \<times> ('w, 'v) Manager" where
  "UpdateSOCKS5 env cfg m =
     (let m1 = m\<lparr>m_cfg := (m_cfg m)\<lparr>SOCKS5 := cfg\<rparr>\<rparr>
      in if \<not> active m1 then (None, m1)
         else
           let m2 = m1\<lparr>m_socks5 := None\<rparr>
           in if \<not> Enabled cfg then (None, m2)
              else if m_wgDev m2 = None then (Some VNotActive, m2)
              else startSOCKS5Locked env m2)"

definition UpdateSplitRoutes :: "string list \<Rightarrow> string list \<Rightarrow> ('w, 'v) Manager \<Rightarrow> ('w, 'v) Manager" where
  "UpdateSplitRoutes routes sfxs m =
     (case m_eng m of
        None \<Rightarrow> m
      | Some e \<Rightarrow>
          if \<not> active m \<or> m_fwd m = None then m
          else if routes = lastSplitRoutes m \<and> sfxs = lastDomainSuffixes m then m
          else
            let m1 = m\<lparr>lastSplitRoutes := routes, lastDomainSuffixes := sfxs\<rparr>
            in if \<not> currentFollowSplitRoutes m1 then m1
               else set_engine (inject (split_rules routes sfxs) (ClearInjectedRules e)) m1)"

definition evaluateConnectionDead :: "int \<Rightarrow> int \<Rightarrow> int \<Rightarrow> int \<Rightarrow> int \<Rightarrow> bool \<times> int" where
  "evaluateConnectionDead now connectedAt lastHandshakeSec rxBytes lastRx =
     (if lastHandshakeSec = 0 then
        (if 0 < connectedAt \<and> 90 < now - connectedAt then (True, rxBytes) else (False, rxBytes))
      else let age = now - lastHandshakeSec
           in if age \<le> 300 then (False, rxBytes) else (rxBytes = lastRx, rxBytes))"

definition IsConnectionDead :: "('w, 'v) vpn_env \<Rightarrow> ('w, 'v) Manager \<Rightarrow> bool \<times> ('w, 'v) Manager" where
  "IsConnectionDead env m =
     (case m_wgDev m of
        None \<Rightarrow> (False, m)
      | Some d \<Rightarrow>
          if \<not> active m then (False, m)
          else
            (case GetStats (ve_wg env) d of
               (Some err, s) \<Rightarrow> (False, m\<lparr>lastRxBytes := RxBytes s\<rparr>)
             | (None, s) \<Rightarrow>
                 (case evaluateConnectionDead (now_unix env) (ConnectedAt (m_status m)) (LastHandshakeSec s)
                         (RxBytes s) (lastRxBytes m) of
                    (dead, lrx) \<Rightarrow> (dead, m\<lparr>lastRxBytes := lrx\<rparr>))))"

subsection \<open>Resources\<close>

definition res_none :: "('w, 'v) Manager \<Rightarrow> bool" where
  "res_none m \<longleftrightarrow> m_tunDev m = None \<and> m_wgDev m = None \<and> m_fwd m = None \<and> m_eng m = None \<and>
     m_rt m = None \<and> m_rm m = None \<and> m_socks5 m = None"

definition res_all :: "('w, 'v) Manager \<Rightarrow> bool" where
  "res_all m \<longleftrightarrow> m_tunDev m \<noteq> None \<and> m_wgDev m \<noteq> None \<and> m_fwd m \<noteq> None \<and> m_eng m \<noteq> None \<and>
     m_rt m \<noteq> None \<and> m_rm m \<noteq> None"

text \<open>The forwarder works for the manager's engine, device and mode.\<close>

definition fwd_agrees :: "('w, 'v) Manager \<Rightarrow> bool" where
  "fwd_agrees m \<longleftrightarrow>
     (\<forall>f. m_fwd m = Some f \<longrightarrow>
        fw_engine f = m_eng m \<and> vpnOutbound f = m_wgDev m \<and> defaultVPN f = (\<not> currentFollowSplitRoutes m))"

definition m_inv :: "('w, 'v) Manager \<Rightarrow> bool" where
  "m_inv m \<longleftrightarrow> (res_none m \<or> res_all m) \<and> (\<not> active m \<longrightarrow> res_none m) \<and> fwd_agrees m"

lemma and_then_None: "and_then r k = (None, s) \<longleftrightarrow> (\<exists>s'. r = (None, s') \<and> k s' = (None, s))"
  by (auto simp: and_then_def split: prod.splits option.splits)

lemma and_then_failed: "fst r \<noteq> None \<Longrightarrow> fst (and_then r k) \<noteq> None"
  by (auto simp: and_then_def split: prod.splits option.splits)

lemma set_hosts_frame [simp]:
  "m_tunDev (set_hosts h m) = m_tunDev m" "m_wgDev (set_hosts h m) = m_wgDev m"
  "m_eng (set_hosts h m) = m_eng m" "m_rt (set_hosts h m) = m_rt m" "m_rm (set_hosts h m) = m_rm m"
  "m_fwd (set_hosts h m) = map_option (\<lambda>f. f\<lparr>fw_hosts := h\<rparr>) (m_fwd m)"
  "currentFollowSplitRoutes (set_hosts h m) = currentFollowSplitRoutes m"
  "m_cfg (set_hosts h m) = m_cfg m" "active (set_hosts h m) = active m" "m_status (set_hosts h m) = m_status m"
  by (simp_all add: set_hosts_def split: option.splits)

lemma cleanup_none: "res_none (cleanupLocked env m)"
  by (simp add: res_none_def cleanupLocked_def Let_def split: prod.splits)

lemma cleanup_frame [simp]:
  "active (cleanupLocked env m) = active m" "m_status (cleanupLocked env m) = m_status m"
  "reconnecting (cleanupLocked env m) = reconnecting m"
  by (simp_all add: cleanupLocked_def Let_def split: prod.splits)

lemma none_agrees: "res_none m \<Longrightarrow> fwd_agrees m"
  by (simp add: res_none_def fwd_agrees_def)

lemma engine_ok_step:
  "start_engine env m = (None, m1) \<Longrightarrow> \<exists>e. m1 = m\<lparr>m_eng := Some e\<rparr>"
  by (auto simp: start_engine_def split: sum.splits)

lemma tunnel_ok_step:
  assumes "start_tunnel env cc m = (None, m1)" "m_fwd m = None"
  shows "m_wgDev m1 \<noteq> None \<and> m_rt m1 \<noteq> None \<and> m_fwd m1 = None \<and> m_eng m1 = m_eng m"
  using assms by (auto simp: start_tunnel_def Let_def split: sum.splits if_splits)

lemma device_ok_step:
  "start_device env m = (None, m1) \<Longrightarrow>
   m_tunDev m1 \<noteq> None \<and> m_fwd m1 = m_fwd m \<and> m_eng m1 = m_eng m \<and> m_wgDev m1 = m_wgDev m \<and>
   (m_rt m1 = None \<longleftrightarrow> m_rt m = None)"
  by (auto simp: start_device_def Let_def split: sum.splits if_splits)

lemma forwarder_ok_step:
  assumes "start_forwarder env cc m = (None, m1)" "m_fwd m = None"
  shows "\<exists>f. m_fwd m1 = Some f \<and> fw_engine f = m_eng m \<and> vpnOutbound f = m_wgDev m \<and> \<not> defaultVPN f \<and>
    m_eng m1 = m_eng m \<and> m_wgDev m1 = m_wgDev m \<and> m_tunDev m1 = m_tunDev m \<and>
    (m_rt m1 = None \<longleftrightarrow> m_rt m = None)"
  using assms
  by (auto simp: start_forwarder_def Let_def NewForwarder_def SetVPNOutbound_def
      split: sum.splits prod.splits option.splits)

lemma socks_ok_step: "startSOCKS5Locked env m = (None, m1) \<Longrightarrow> \<exists>srv. m1 = m\<lparr>m_socks5 := srv\<rparr>"
  by (auto simp: startSOCKS5Locked_def split: sum.splits)

lemma routes_ok_step:
  assumes "start_routes env m = (None, m1)" "m_fwd m = Some f"
  shows "\<exists>f'. m_fwd m1 = Some f' \<and> fw_engine f' = fw_engine f \<and> vpnOutbound f' = vpnOutbound f \<and>
    defaultVPN f' = defaultVPN f \<and> m_eng m1 = m_eng m \<and> m_wgDev m1 = m_wgDev m \<and>
    m_tunDev m1 = m_tunDev m \<and> m_rt m1 \<noteq> None \<and> m_rm m1 \<noteq> None"
proof -
  have "fw_engine (flush_caches f) = fw_engine f" "vpnOutbound (flush_caches f) = vpnOutbound f"
    "defaultVPN (flush_caches f) = defaultVPN f" by (simp_all add: flush_caches_def)
  then show ?thesis
    using assms by (auto simp: start_routes_def Let_def split: prod.splits if_splits)
qed

lemma rules_ok_step:
  assumes "start_rules cc m = (None, m1)" "m_eng m = Some e" "m_fwd m = Some f"
    "fw_engine f = m_eng m" "vpnOutbound f = m_wgDev m" "\<not> defaultVPN f"
  shows "fwd_agrees m1 \<and> m_eng m1 \<noteq> None \<and> m_fwd m1 \<noteq> None \<and> m_wgDev m1 = m_wgDev m \<and>
    m_tunDev m1 = m_tunDev m \<and> m_rt m1 = m_rt m \<and> m_rm m1 = m_rm m"
  using assms
  by (auto simp: start_rules_def Let_def set_engine_def set_default_vpn_def SetDefaultVPN_def fwd_agrees_def
      split: if_splits)

lemma startLocked_ok:
  assumes "startLocked env cc m = (None, m')" "res_none m"
  shows "res_all m' \<and> fwd_agrees m'"
proof -
  obtain m1 m2 m3 m4 m5 m6 where s:
    "start_engine env m = (None, m1)" "start_tunnel env cc m1 = (None, m2)"
    "start_device env m2 = (None, m3)" "start_forwarder env cc m3 = (None, m4)"
    "startSOCKS5Locked env m4 = (None, m5)" "start_routes env m5 = (None, m6)" "start_rules cc m6 = (None, m')"
    using assms(1) by (auto simp: startLocked_def and_then_None)
  have 1: "m_fwd m1 = None" "m_eng m1 \<noteq> None"
    using engine_ok_step [OF s(1)] assms(2) by (auto simp: res_none_def)
  note 2 = tunnel_ok_step [OF s(2) 1(1)]
  note 3 = device_ok_step [OF s(3)]
  have "m_fwd m3 = None" using 2 3 by simp
  from forwarder_ok_step [OF s(4) this] obtain f4 where 4: "m_fwd m4 = Some f4" "fw_engine f4 = m_eng m4"
    "vpnOutbound f4 = m_wgDev m4" "\<not> defaultVPN f4" "m_eng m4 \<noteq> None" "m_wgDev m4 \<noteq> None"
    "m_tunDev m4 \<noteq> None" "m_rt m4 \<noteq> None"
    using 1 2 3 by auto
  then have 5: "m_fwd m5 = Some f4" "fw_engine f4 = m_eng m5"
    "vpnOutbound f4 = m_wgDev m5" "\<not> defaultVPN f4" "m_eng m5 \<noteq> None" "m_wgDev m5 \<noteq> None"
    "m_tunDev m5 \<noteq> None"
    using socks_ok_step [OF s(5)] by auto
  from routes_ok_step [OF s(6) 5(1)] 5 obtain f6 e where 6: "m_fwd m6 = Some f6" "fw_engine f6 = m_eng m6"
    "vpnOutbound f6 = m_wgDev m6" "\<not> defaultVPN f6" "m_eng m6 = Some e" "m_wgDev m6 \<noteq> None"
    "m_tunDev m6 \<noteq> None" "m_rt m6 \<noteq> None" "m_rm m6 \<noteq> None"
    by auto
  from rules_ok_step [OF s(7) 6(5) 6(1-4)] 6 show ?thesis by (auto simp: res_all_def)
qed

text \<open>The operations keep the invariant.\<close>

lemma Connect_inv:
  assumes "m_inv m"
  shows "m_inv (snd (Manager_Connect env n cc m))"
proof -
  let ?m1 = "if active m then cleanupLocked env m else m"
  have none: "res_none ?m1" using assms cleanup_none by (auto simp: m_inv_def)
  obtain e m2 where s: "startLocked env cc ?m1 = (e, m2)" by fastforce
  show ?thesis
  proof (cases e)
    case (Some err)
    then have "snd (Manager_Connect env n cc m) = cleanupLocked env m2"
      using s by (simp add: Manager_Connect_def Let_def)
    then show ?thesis using cleanup_none none_agrees by (auto simp: m_inv_def)
  next
    case None
    then have "res_all m2 \<and> fwd_agrees m2" using startLocked_ok s none by blast
    then show ?thesis
      using s None by (simp add: Manager_Connect_def Let_def m_inv_def res_all_def fwd_agrees_def)
  qed
qed

lemma Disconnect_inv: "m_inv (Manager_Disconnect env m)"
  using cleanup_none [of env m] by (simp add: Manager_Disconnect_def m_inv_def res_none_def fwd_agrees_def)

lemma set_engine_inv:
  assumes "m_inv m" "m_eng m \<noteq> None"
  shows "m_inv (set_engine e m)"
proof -
  from assms have "res_all m" "active m" by (auto simp: m_inv_def res_none_def)
  with assms(1) show ?thesis
    by (auto simp: m_inv_def set_engine_def res_all_def fwd_agrees_def)
qed

lemma SetFollow_inv:
  assumes "m_inv m"
  shows "m_inv (SetFollowSplitRoutes v m)"
proof (cases "m_eng m = None \<or> \<not> active m \<or> m_fwd m = None")
  case True
  then show ?thesis using assms by (auto simp: SetFollowSplitRoutes_def split: option.splits)
next
  case False
  then obtain e where e: "m_eng m = Some e" by auto
  let ?m = "set_default_vpn (\<not> v) (m\<lparr>currentFollowSplitRoutes := v\<rparr>)"
  have "m_inv ?m" "m_eng ?m = Some e"
    using assms e False
    by (auto simp: m_inv_def set_default_vpn_def SetDefaultVPN_def res_all_def res_none_def fwd_agrees_def)
  then show ?thesis
    using False e set_engine_inv [of ?m] by (auto simp: SetFollowSplitRoutes_def Let_def)
qed

lemma m_inv_frame:
  "m_inv m \<Longrightarrow> m_inv (m\<lparr>lastSplitRoutes := a, lastDomainSuffixes := b\<rparr>)"
  "m_inv m \<Longrightarrow> m_inv (m\<lparr>lastRxBytes := c\<rparr>)" "m_inv m \<Longrightarrow> m_inv (m\<lparr>reconnecting := d\<rparr>)"
  "m_inv m \<Longrightarrow> m_inv (m\<lparr>m_cfg := g\<rparr>)"
  by (simp_all add: m_inv_def res_none_def res_all_def fwd_agrees_def)

lemma UpdateSplit_inv: "m_inv m \<Longrightarrow> m_inv (UpdateSplitRoutes routes sfxs m)"
  using m_inv_frame(1) [of m] set_engine_inv [of "m\<lparr>lastSplitRoutes := routes, lastDomainSuffixes := sfxs\<rparr>"]
  by (auto simp: UpdateSplitRoutes_def Let_def split: option.splits)

lemma UpdateSOCKS5_inv:
  assumes "m_inv m"
  shows "m_inv (snd (UpdateSOCKS5 env cfg m))"
  using assms
  by (auto simp: UpdateSOCKS5_def startSOCKS5Locked_def Let_def m_inv_def res_none_def res_all_def fwd_agrees_def
      split: sum.splits)

lemma IsConnectionDead_inv: "m_inv m \<Longrightarrow> m_inv (snd (IsConnectionDead env m))"
  by (auto simp: IsConnectionDead_def m_inv_frame(2) split: option.splits prod.splits)

lemma traffic_inv:
  assumes "m_inv m" "m_fwd m = Some f" "fw_static f' = fw_static f"
  shows "m_inv (m\<lparr>m_fwd := Some f'\<rparr>)"
proof -
  have "fw_engine f' = fw_engine f" "vpnOutbound f' = vpnOutbound f" "defaultVPN f' = defaultVPN f"
    using assms(3) by (simp_all add: fw_static_def)
  then show ?thesis
    using assms(1,2) by (auto simp: m_inv_def res_none_def res_all_def fwd_agrees_def)
qed

inductive m_reach :: "('w, 'v) Manager \<Rightarrow> bool" where
  m_new: "m_reach (New_Manager cfg hosts file)"
| m_connect: "m_reach m \<Longrightarrow> m_reach (snd (Manager_Connect env n cc m))"
| m_disconnect: "m_reach m \<Longrightarrow> m_reach (Manager_Disconnect env m)"
| m_follow: "m_reach m \<Longrightarrow> m_reach (SetFollowSplitRoutes v m)"
| m_split: "m_reach m \<Longrightarrow> m_reach (UpdateSplitRoutes routes sfxs m)"
| m_socks: "m_reach m \<Longrightarrow> m_reach (snd (UpdateSOCKS5 env cfg m))"
| m_dead: "m_reach m \<Longrightarrow> m_reach (snd (IsConnectionDead env m))"
| m_reconn: "m_reach m \<Longrightarrow> m_reach (SetReconnecting b m)"
| m_conn: "m_reach m \<Longrightarrow> m_fwd m = Some f \<Longrightarrow>
    m_reach (m\<lparr>m_fwd := Some (snd (dispatch fe lk dst port f))\<rparr>)"
| m_packet: "m_reach m \<Longrightarrow> m_fwd m = Some f \<Longrightarrow> m_reach (m\<lparr>m_fwd := Some (snd (tun_packet fe pkt f))\<rparr>)"
| m_done: "m_reach m \<Longrightarrow> m_fwd m = Some f \<Longrightarrow> m_reach (m\<lparr>m_fwd := Some (untrackConn f)\<rparr>)"

lemma m_reach_inv: "m_reach m \<Longrightarrow> m_inv m"
proof (induction rule: m_reach.induct)
  case (m_new cfg hosts fl)
  show ?case by (simp add: New_Manager_def m_inv_def res_none_def fwd_agrees_def)
next
  case (m_reconn m b)
  then show ?case by (simp add: SetReconnecting_def m_inv_frame(3))
next
  case (m_conn m f fe lk dst port)
  then show ?case using traffic_inv dispatch_static by blast
next
  case (m_packet m f fe pkt)
  then show ?case using traffic_inv tun_packet_static by blast
next
  case (m_done m f)
  then show ?case using traffic_inv track_static(2) by blast
qed (auto intro: Connect_inv Disconnect_inv SetFollow_inv UpdateSplit_inv UpdateSOCKS5_inv IsConnectionDead_inv)

subsection \<open>The rules of the two modes\<close>

definition route_ok :: "string \<Rightarrow> bool" where
  "route_ok c \<longleftrightarrow> CHR '','' \<notin> set c \<and> ParseCIDR (TrimSpace c) \<noteq> None"

definition route_entry :: "string \<Rightarrow> entry" where
  "route_entry c = \<lparr>kind = kindIPCIDR, rule_value = [],
     network = Some (snd (the (ParseCIDR (TrimSpace c)))), action = VPN_action\<rparr>"

definition suffix_entry :: "string \<Rightarrow> entry" where
  "suffix_entry x = \<lparr>kind = kindDomainSuffix, rule_value = ToLower (TrimSpace x), network = None,
     action = VPN_action\<rparr>"

lemma parse_route_entry: "route_ok c \<Longrightarrow> parseRule (cidr_rule_string c) = Ok (route_entry c)"
  by (auto simp: route_ok_def route_entry_def parse_cidr_rule split: option.splits)

lemma parse_suffix_entry: "CHR '','' \<notin> set x \<Longrightarrow> parseRule (suffix_rule_string x) = Ok (suffix_entry x)"
  by (simp add: parse_suffix_rule suffix_entry_def)

lemma map_res_split:
  assumes "\<forall>c\<in>set routes. route_ok c" "\<forall>x\<in>set sfxs. CHR '','' \<notin> set x"
  shows "map_res parseRule (split_rules routes sfxs) = Ok (map route_entry routes @ map suffix_entry sfxs)"
  using assms
  by (auto simp: map_res_ok_iff split_rules_def list_all2_append list_all2_map1 list_all2_map2 list_all2_same
      parse_route_entry parse_suffix_entry)

lemma inject_split:
  assumes "\<forall>c\<in>set routes. route_ok c" "\<forall>x\<in>set sfxs. CHR '','' \<notin> set x" "runtimeRules e = []"
  shows "inject (split_rules routes sfxs) e = e\<lparr>runtimeRules := map route_entry routes @ map suffix_entry sfxs\<rparr>"
  using map_res_split [OF assms(1,2)] assms(3)
  by (auto simp: inject_def InjectRules_def split_rules_def)

lemma any_net: "ParseCIDR ''0.0.0.0/0'' = Some (v4InV6Prefix @ [0, 0, 0, 0], v4_net [0, 0, 0, 0] 0)"
proof -
  have "v4_cidr_string [0, 0, 0, 0] 0 = ''0.0.0.0/0''"
    by (simp add: v4_cidr_string_def v4_string_def Uitoa.simps digit_char_def string_eval)
  then show ?thesis using ParseCIDR_v4 [of "[0, 0, 0, 0]" 0] by simp
qed

lemma first_route:
  "matchIPInList (map route_entry routes @ map suffix_entry sfxs) dst db =
   (if \<exists>c\<in>set routes. IPNet_Contains (snd (the (ParseCIDR (TrimSpace c)))) dst then Some VPN_action else None)"
proof -
  have "matchIPInList (map suffix_entry sfxs) dst db = None"
    by (induction sfxs) (simp_all add: suffix_entry_def)
  then show ?thesis by (induction routes) (simp_all add: route_entry_def)
qed

lemma follow_fwd:
  assumes "active m" "m_eng m = Some e" "m_fwd m = Some f"
  shows "m_fwd (SetFollowSplitRoutes v m) = Some (f\<lparr>defaultVPN := \<not> v, fw_engine := Some
    (inject (if v then split_rules (lastSplitRoutes m) (lastDomainSuffixes m) else full_rules)
      (ClearInjectedRules e))\<rparr>)"
  using assms
  by (simp add: SetFollowSplitRoutes_def Let_def set_engine_def set_default_vpn_def SetDefaultVPN_def)

lemma inject_rules: "rules (inject ss e) = rules e" "geoip (inject ss e) = geoip e"
  by (simp_all add: inject_def InjectRules_def split: sum.splits)

subsection \<open>Properties\<close>

text \<open>
  Property C10: in every state the manager can reach, whatever failed on the way, it holds either all
  of the tunnel's resources or none of them, none when it is not active; and the forwarder works
  for the manager's own rule engine and device, with the VPN as default exactly in full-tunnel mode.
\<close>

theorem resources_all_or_none:
  assumes "m_reach m"
  shows "(res_none m \<or> res_all m) \<and> (\<not> active m \<longrightarrow> res_none m) \<and> fwd_agrees m"
  using m_reach_inv [OF assms] by (simp add: m_inv_def)

definition sample_ve :: "(unit, nat) vpn_env" where
  "sample_ve =
     \<lparr>ve_fw = sample_fe, ve_addScoped = fallback_AddScopedHostRoute,
      NewPlatformRouter = (\<lambda>tun. \<lparr>AddRoute = (\<lambda>c w. (None, w)), DelRoute = (\<lambda>c w. w),
        RouteInterface = (\<lambda>c w. Some tun), TunName = tun\<rparr>),
      ve_wg = \<lparr>CreateNetTUN = (\<lambda>a d mtu. Ok 7), IpcSet = (\<lambda>v b s. None), Up = (\<lambda>v. None), IpcGet = (\<lambda>v. Ok [])\<rparr>,
      geoip_Open = (\<lambda>p. Err ''no database''), tun_NewDevice = (\<lambda>c. Ok (tun_Name c)), ve_watcher = True,
      nic_error = None, socks_Listen = (\<lambda>a. None), ve_write = True, now_unix = 1000\<rparr>"

definition sample_m :: "(unit, nat) Manager" where
  "sample_m = New_Manager (DefaultConfig ''linux'') sample_hosts None"

theorem resources_all_or_none_witness:
  "res_none (Manager_Disconnect sample_ve sample_m) \<or> res_all (Manager_Disconnect sample_ve sample_m)"
  using resources_all_or_none [OF m_disconnect [OF m_new]] unfolding sample_m_def by blast

lemma and_then_keeps:
  assumes "P (snd r)" "\<And>s. P s \<Longrightarrow> P (snd (k s))"
  shows "P (snd (and_then r k))"
  using assms by (auto simp: and_then_def split: prod.splits option.splits)

definition same_status :: "('w, 'v) Manager \<Rightarrow> ('w, 'v) Manager \<Rightarrow> bool" where
  "same_status m m' \<longleftrightarrow> active m' = active m \<and> m_status m' = m_status m"

lemma startLocked_status: "same_status m (snd (startLocked env cc m))"
  unfolding startLocked_def
proof (intro and_then_keeps [where P = "same_status m"])
  show "same_status m (snd (start_engine env m))"
    by (simp add: same_status_def start_engine_def split: sum.splits)
  show "same_status m (snd (start_tunnel env cc s))" if "same_status m s" for s
    using that by (simp add: same_status_def start_tunnel_def Let_def split: sum.splits)
  show "same_status m (snd (start_device env s))" if "same_status m s" for s
    using that by (simp add: same_status_def start_device_def Let_def split: sum.splits)
  show "same_status m (snd (start_forwarder env cc s))" if "same_status m s" for s
    using that by (simp add: same_status_def start_forwarder_def Let_def split: sum.splits prod.splits option.splits)
  show "same_status m (snd (startSOCKS5Locked env s))" if "same_status m s" for s
    using that by (simp add: same_status_def startSOCKS5Locked_def split: sum.splits)
  show "same_status m (snd (start_routes env s))" if "same_status m s" for s
    using that by (simp add: same_status_def start_routes_def Let_def split: option.splits prod.splits)
  show "same_status m (snd (start_rules cc s))" if "same_status m s" for s
    using that by (simp add: same_status_def start_rules_def Let_def set_engine_def set_default_vpn_def split: option.splits)
qed

text \<open>
  When connecting fails while an earlier connection is active, the manager has released
  every resource and still reports to be connected; the dead-tunnel check then never fires.
\<close>

theorem failed_reconnect_stays_connected:
  assumes "active m" "Connected (m_status m)" "fst (Manager_Connect env n cc m) = Some err"
  shows "res_none (snd (Manager_Connect env n cc m)) \<and> active (snd (Manager_Connect env n cc m)) \<and>
    Connected (GetStatus (snd (Manager_Connect env n cc m))) \<and>
    \<not> fst (IsConnectionDead env' (snd (Manager_Connect env n cc m)))"
proof -
  obtain e m2 where s: "startLocked env cc (cleanupLocked env m) = (e, m2)" by fastforce
  then have "e = Some err" "snd (Manager_Connect env n cc m) = cleanupLocked env m2"
    using assms by (auto simp: Manager_Connect_def split: option.splits)
  moreover have "same_status (cleanupLocked env m) m2"
    using startLocked_status [of "cleanupLocked env m" env cc] s by simp
  ultimately show ?thesis
    using assms cleanup_none [of env m2]
    by (simp add: GetStatus_def IsConnectionDead_def res_none_def same_status_def)
qed

lemma Connect_fails:
  "\<forall>m'. fst (startLocked env cc m') \<noteq> None \<Longrightarrow> fst (Manager_Connect env n cc m) \<noteq> None"
  unfolding Manager_Connect_def Let_def
  by (cases "startLocked env cc (if active m then cleanupLocked env m else m)")
     (auto split: option.splits, metis fst_conv option.distinct(1))

definition sample_cc :: ConnectConfig where
  "sample_cc = \<lparr>cc_WG = \<lparr>PrivateKeyB64 = [], ServerPublicKeyB64 = [], ServerEndpoint = [], ProtocolMode = 2,
     VpnIP = Addr4 [10, 0, 0, 2], DNSServers = [], FallbackDNS = None, wg_MTU = 1400\<rparr>,
     SplitRoutes = [], DomainSuffixes = [], PhysicalIface = [], ServerIP = [], FollowSplitRoutes = True\<rparr>"

theorem failed_reconnect_stays_connected_witness:
  "Connected (GetStatus (snd (Manager_Connect sample_ve ''n2'' sample_cc
     (sample_m\<lparr>active := True, m_status := no_status\<lparr>Connected := True\<rparr>\<rparr>))))"
proof -
  let ?m = "sample_m\<lparr>active := True, m_status := no_status\<lparr>Connected := True\<rparr>\<rparr>"
  have "fst (start_engine sample_ve m) \<noteq> None" for m
    by (simp add: start_engine_def sample_ve_def split: sum.splits)
  then have "fst (startLocked sample_ve sample_cc m) \<noteq> None" for m
    by (simp add: startLocked_def and_then_failed del: not_None_eq)
  then have "fst (Manager_Connect sample_ve ''n2'' sample_cc ?m) \<noteq> None"
    using Connect_fails by blast
  then obtain err where "fst (Manager_Connect sample_ve ''n2'' sample_cc ?m) = Some err" by blast
  from failed_reconnect_stays_connected [OF _ _ this] show ?thesis by simp
qed

text \<open>
  In split-tunnel mode, an address outside the fake pool that no user rule covers goes to
  the VPN exactly when one of the server's routes contains it; in full-tunnel mode it always does.
\<close>

theorem tunnel_modes:
  assumes "active m" "m_eng m = Some e" "m_fwd m = Some f"
    "\<forall>c\<in>set (lastSplitRoutes m). route_ok c" "\<forall>x\<in>set (lastDomainSuffixes m). CHR '','' \<notin> set x"
    "matchIPInList (rules e) dst (geoip e) = None" "\<not> (fw_pool f \<noteq> None \<and> InPool (the (fw_pool f)) dst)"
  shows "fw_policy (the (m_fwd (SetFollowSplitRoutes True m))) dst =
      (if \<exists>c\<in>set (lastSplitRoutes m). IPNet_Contains (snd (the (ParseCIDR (TrimSpace c)))) dst
       then Some VPN_action else None) \<and>
    fw_policy (the (m_fwd (SetFollowSplitRoutes False m))) dst = Some VPN_action"
proof -
  let ?e = "ClearInjectedRules e"
  let ?s = "inject (split_rules (lastSplitRoutes m) (lastDomainSuffixes m)) ?e"
  let ?f = "inject full_rules ?e"
  have "?s = ?e\<lparr>runtimeRules := map route_entry (lastSplitRoutes m) @ map suffix_entry (lastDomainSuffixes m)\<rparr>"
    using assms(4,5) by (intro inject_split) (simp_all add: ClearInjectedRules_def)
  then have "MatchIP ?s dst =
      (if \<exists>c\<in>set (lastSplitRoutes m). IPNet_Contains (snd (the (ParseCIDR (TrimSpace c)))) dst
       then Some VPN_action else None)"
    using assms(6) by (simp add: MatchIP_def first_route ClearInjectedRules_def)
  then have 1: "fw_policy (the (m_fwd (SetFollowSplitRoutes True m))) dst =
      (if \<exists>c\<in>set (lastSplitRoutes m). IPNet_Contains (snd (the (ParseCIDR (TrimSpace c)))) dst
       then Some VPN_action else None)"
    using assms(7) by (auto simp: follow_fwd [OF assms(1-3)] fw_policy_def)
  have "route_ok ''0.0.0.0/0''"
    using any_net by (simp add: route_ok_def string_eval)
  then have "?f = ?e\<lparr>runtimeRules := [route_entry ''0.0.0.0/0'']\<rparr>"
    using inject_split [of "[''0.0.0.0/0'']" "[]" ?e] by (simp add: full_rules_def split_rules_def ClearInjectedRules_def)
  then have "MatchIP ?f dst \<in> {None, Some VPN_action}"
    using assms(6) by (simp add: MatchIP_def ClearInjectedRules_def route_entry_def)
  then have "fw_policy (the (m_fwd (SetFollowSplitRoutes False m))) dst = Some VPN_action"
    using assms(7) by (auto simp: follow_fwd [OF assms(1-3)] fw_policy_def split: option.splits)
  with 1 show ?thesis ..
qed

definition split_m :: "(unit, nat) Manager" where
  "split_m = sample_m\<lparr>active := True, currentFollowSplitRoutes := True,
     m_eng := Some \<lparr>rules = [], runtimeRules = [], geoip = None\<rparr>, m_fwd := Some (route_fw\<lparr>fw_pool := None\<rparr>),
     lastSplitRoutes := [''0.0.0.0/1'']\<rparr>"

theorem tunnel_modes_witness:
  "fw_policy (the (m_fwd (SetFollowSplitRoutes True split_m))) [8, 8, 8, 8] = Some VPN_action"
proof -
  have "TrimSpace ''0.0.0.0/1'' = ''0.0.0.0/1''" by (simp add: string_eval)
  moreover have "CHR '','' \<notin> set ''0.0.0.0/1''" by simp
  ultimately have "route_ok ''0.0.0.0/1''" "IPNet_Contains (snd (the (ParseCIDR (TrimSpace ''0.0.0.0/1'')))) [8, 8, 8, 8]"
    by (simp_all add: route_ok_def half_nets Contains_v4_net BE_Uint32_def)
  then show ?thesis
    using tunnel_modes [of split_m "\<lparr>rules = [], runtimeRules = [], geoip = None\<rparr>" "route_fw\<lparr>fw_pool := None\<rparr>"
        "[8, 8, 8, 8]"]
    by (simp add: split_m_def sample_m_def New_Manager_def)
qed

text \<open>
  One server route that is not a CIDR makes the whole update fail: in split-tunnel mode no
  server route is left in force, so that traffic meant for the VPN goes to the direct outbound.
\<close>

theorem bad_route_disables_split:
  assumes "active m" "m_eng m = Some e" "m_fwd m = Some f" "currentFollowSplitRoutes m"
    "routes \<noteq> lastSplitRoutes m" "c \<in> set routes" "CHR '','' \<notin> set c" "ParseCIDR (TrimSpace c) = None"
  shows "m_eng (UpdateSplitRoutes routes sfxs m) = Some (e\<lparr>runtimeRules := []\<rparr>)"
proof -
  have "\<not> is_ok (parseRule (cidr_rule_string c))"
    using assms(7,8) by (simp add: parse_cidr_rule)
  moreover have "cidr_rule_string c \<in> set (split_rules routes sfxs)"
    using assms(6) by (simp add: split_rules_def)
  ultimately have "\<not> is_ok (map_res parseRule (split_rules routes sfxs))"
    by (auto simp: map_res_is_ok)
  then have "snd (InjectRules x (split_rules routes sfxs)) = x" for x
    by (auto simp: InjectRules_def split: sum.splits)
  then have "inject (split_rules routes sfxs) (ClearInjectedRules e) = e\<lparr>runtimeRules := []\<rparr>"
    by (simp add: inject_def ClearInjectedRules_def)
  with assms(1-5) show ?thesis
    by (simp add: UpdateSplitRoutes_def Let_def set_engine_def)
qed

theorem bad_route_disables_split_witness:
  "m_eng (UpdateSplitRoutes [''10.0.0.0/8'', ''corp''] [] split_m) =
     Some \<lparr>rules = [], runtimeRules = [], geoip = None\<rparr>"
proof -
  have "ParseCIDR (TrimSpace ''corp'') = None" by (simp add: ParseCIDR_def string_eval)
  then show ?thesis
    using bad_route_disables_split [of split_m "\<lparr>rules = [], runtimeRules = [], geoip = None\<rparr>"
        "route_fw\<lparr>fw_pool := None\<rparr>" "[''10.0.0.0/8'', ''corp'']" "''corp''" "[]"]
    by (simp add: split_m_def sample_m_def New_Manager_def)
qed

end
