(* ===== verification/Supervisor.thy ===== *)
theory Supervisor
  imports Go_Prelude "HOL-Library.Word"
begin

section \<open>The connection supervisor (cmd/ecorplink-daemon/connection\_supervisor.go)\<close>

text \<open>
  The supervisor numbers the connections of the daemon and cancels the context of a connection when the
  next one starts or the user disconnects. A context is a number given when it is made; the
  cancelled ones are kept as a list. The generation is the \<^verbatim>\<open>uint64\<close> of the source and wraps.
\<close>

subsection \<open>State and operations\<close>

record connectionSupervisor =
  sup_cancel :: "nat option"
  gen :: "64 word"
  ctx_next :: nat
  ctx_cancelled :: "nat list"

definition new_supervisor :: connectionSupervisor where
  "new_supervisor = \<lparr>sup_cancel = None, gen = 0, ctx_next = 0, ctx_cancelled = []\<rparr>"

definition cancel_current :: "connectionSupervisor \<Rightarrow> connectionSupervisor" where
  "cancel_current s =
     (case sup_cancel s of None \<Rightarrow> s | Some c \<Rightarrow> s\<lparr>ctx_cancelled := c # ctx_cancelled s\<rparr>)"

definition sup_Start :: "connectionSupervisor \<Rightarrow> (nat \<times> 64 word) \<times> connectionSupervisor" where
  "sup_Start s =
     (let s1 = cancel_current s;
          ctx = ctx_next s1;
          s2 = s1\<lparr>ctx_next := ctx + 1, gen := gen s1 + 1, sup_cancel := Some ctx\<rparr>
      in ((ctx, gen s2), s2))"

definition sup_Stop :: "connectionSupervisor \<Rightarrow> connectionSupervisor" where
  "sup_Stop s = (let s1 = (cancel_current s)\<lparr>sup_cancel := None\<rparr> in s1\<lparr>gen := gen s1 + 1\<rparr>)"

definition IsCurrent :: "connectionSupervisor \<Rightarrow> 64 word \<Rightarrow> bool" where
  "IsCurrent s g \<longleftrightarrow> g \<noteq> 0 \<and> gen s = g \<and> sup_cancel s \<noteq> None"

definition ctx_done :: "connectionSupervisor \<Rightarrow> nat \<Rightarrow> bool" where
  "ctx_done s c \<longleftrightarrow> c \<in> set (ctx_cancelled s)"

subsection \<open>Histories\<close>

text \<open>
  The calls made so far, in order. The specification of the supervisor is a function of the history
  alone: the connection of the last call is the current one, if that call was a start.
\<close>

datatype sup_call = Call_Start | Call_Stop

fun sup_apply :: "connectionSupervisor \<Rightarrow> sup_call \<Rightarrow> connectionSupervisor" where
  "sup_apply s Call_Start = snd (sup_Start s)"
| "sup_apply s Call_Stop = sup_Stop s"

definition sup_run :: "sup_call list \<Rightarrow> connectionSupervisor" where
  "sup_run cs = foldl sup_apply new_supervisor cs"

abbreviation starts :: "sup_call list \<Rightarrow> nat" where
  "starts cs \<equiv> count_list cs Call_Start"

lemma sup_run_simps [simp]:
  "sup_run [] = new_supervisor" "sup_run (cs @ [c]) = sup_apply (sup_run cs) c"
  by (simp_all add: sup_run_def)

lemmas sup_defs = sup_Start_def sup_Stop_def cancel_current_def new_supervisor_def Let_def

lemma sup_run_state:
  "gen (sup_run cs) = of_nat (length cs) \<and> ctx_next (sup_run cs) = starts cs \<and>
   sup_cancel (sup_run cs) = (if cs \<noteq> [] \<and> last cs = Call_Start then Some (starts cs - 1) else None)"
proof (induction cs rule: rev_induct)
  case (snoc c cs)
  then show ?case by (cases c) (auto simp: sup_defs split: option.splits)
qed (simp add: new_supervisor_def)

lemma cancel_current_set:
  "set (ctx_cancelled (cancel_current s)) = set (ctx_cancelled s) \<union> set_option (sup_cancel s)"
  by (simp add: cancel_current_def split: option.splits)

lemma cancel_current_frame [simp]:
  "gen (cancel_current s) = gen s" "ctx_next (cancel_current s) = ctx_next s"
  "sup_cancel (cancel_current s) = sup_cancel s"
  by (simp_all add: cancel_current_def split: option.splits)

definition sup_inv :: "connectionSupervisor \<Rightarrow> bool" where
  "sup_inv s \<longleftrightarrow> set_option (sup_cancel s) \<subseteq> {..<ctx_next s} \<and>
     set (ctx_cancelled s) = {..<ctx_next s} - set_option (sup_cancel s)"

lemma sup_inv_apply: "sup_inv s \<Longrightarrow> sup_inv (sup_apply s c)"
  by (cases c) (auto simp: sup_inv_def sup_Start_def sup_Stop_def cancel_current_set Let_def)

lemma sup_inv_run: "sup_inv (sup_run cs)"
  by (induction cs rule: rev_induct) (simp_all add: sup_inv_apply, simp add: sup_inv_def new_supervisor_def)

lemma of_nat_eq_64:
  "m < 2 ^ 64 \<Longrightarrow> n < 2 ^ 64 \<Longrightarrow> (of_nat m = (of_nat n :: 64 word)) = (m = n)"
  by (simp add: word_of_nat_eq_iff take_bit_eq_mod)

subsection \<open>Properties\<close>

text \<open>
  After any history of fewer than \<open>2^64\<close> calls, the generation handed out by the i-th call, a
  start, is current exactly when that call was the last one; and its context is cancelled exactly
  when it is not current any more.
\<close>

theorem latest_connection_current:
  assumes "length cs < 2 ^ 64" "i < length cs" "cs ! i = Call_Start"
    "sup_Start (sup_run (take i cs)) = ((ctx, g), s)"
  shows "IsCurrent (sup_run cs) g = (i = length cs - 1) \<and> ctx_done (sup_run cs) ctx = (i \<noteq> length cs - 1)"
proof -
  have g: "g = of_nat (i + 1)" "ctx = starts (take i cs)"
    using assms(2,4) sup_run_state [of "take i cs"] by (auto simp: sup_Start_def Let_def)
  have w: "(of_nat (i + 1) :: 64 word) = of_nat (length cs) \<longleftrightarrow> i + 1 = length cs" "(of_nat (i + 1) :: 64 word) \<noteq> 0"
    using assms(1,2) of_nat_eq_64 [of "i + 1" "length cs"] of_nat_eq_64 [of "i + 1" 0]
    by (simp_all del: of_nat_add of_nat_Suc)
  have cs: "cs = take i cs @ Call_Start # drop (i + 1) cs"
    using assms(2,3) by (metis Suc_eq_plus1 id_take_nth_drop)
  then have n: "starts cs = starts (take i cs) + 1 + starts (drop (i + 1) cs)"
    by (metis count_list.simps(2) count_list_append add.assoc add.commute)
  have l: "last cs = (if i + 1 = length cs then Call_Start else last (drop (i + 1) cs))" "cs \<noteq> []"
    using cs assms(2) by (metis (no_types) drop_all last_drop last_snoc le_refl not_less_iff_gr_or_eq Suc_eq_plus1 Suc_leI order_le_less, force)
  have later: "starts (drop (i + 1) cs) \<noteq> 0" if "last cs = Call_Start" "i + 1 \<noteq> length cs"
    using that assms(2) l by (metis count_list_0_iff drop_eq_Nil last_in_set le_neq_implies_less not_less Suc_eq_plus1 Suc_leI)
  have current: "sup_cancel (sup_run cs) = Some ctx \<longleftrightarrow> i + 1 = length cs"
    using sup_run_state [of cs] l n later g(2) by (auto split: if_splits)
  have "ctx < ctx_next (sup_run cs)"
    using sup_run_state [of cs] n g(2) by simp
  with current have "ctx_done (sup_run cs) ctx = (i \<noteq> length cs - 1)"
    using sup_inv_run [of cs] assms(2) by (auto simp: ctx_done_def sup_inv_def)
  moreover have "g \<noteq> 0" "gen (sup_run cs) = g \<longleftrightarrow> i + 1 = length cs"
    using w g(1) sup_run_state [of cs] by metis+
  then have "IsCurrent (sup_run cs) g = (i = length cs - 1)"
    using current assms(2) by (auto simp: IsCurrent_def)
  ultimately show ?thesis by blast
qed

theorem latest_connection_current_witness:
  "\<not> IsCurrent (sup_run [Call_Start, Call_Stop, Call_Start]) 1 \<and>
   IsCurrent (sup_run [Call_Start, Call_Stop, Call_Start]) 3"
proof -
  let ?cs = "[Call_Start, Call_Stop, Call_Start]"
  have 0: "sup_Start (sup_run (take 0 ?cs)) = ((0, 1), snd (sup_Start (sup_run [])))"
    by (simp add: sup_defs)
  have 2: "sup_Start (sup_run (take 2 ?cs)) = ((1, 3), snd (sup_Start (sup_run [Call_Start, Call_Stop])))"
    by (simp add: sup_defs sup_run_def)
  have "IsCurrent (sup_run ?cs) 1 = (0 = length ?cs - 1)"
    by (rule latest_connection_current [of ?cs 0, OF _ _ _ 0, THEN conjunct1]) simp_all
  moreover have "IsCurrent (sup_run ?cs) 3 = (2 = length ?cs - 1)"
    by (rule latest_connection_current [of ?cs 2, OF _ _ _ 2, THEN conjunct1]) simp_all
  ultimately show ?thesis by simp
qed

end
