(* ===== verification/System_DNS.thy ===== *)
theory System_DNS
  imports Outbound
begin

section \<open>The system's resolver settings (cmd/ecorplink-daemon)\<close>

text \<open>
  \<^verbatim>\<open>system_dns.go\<close> (Darwin) and \<^verbatim>\<open>system_dns_linux.go\<close>: pointing the system's resolver at the tunnel's DNS
  server, remembering what was there, and restoring it. The files are a map from paths to contents,
  the state file is the record decoded from it, and the programs the code runs (\<^verbatim>\<open>scutil\<close>,
  \<^verbatim>\<open>resolvectl\<close>, \<^verbatim>\<open>pfctl\<close>) act on an abstract system.
\<close>

subsection \<open>The dictionaries scutil prints\<close>

definition scutilQuote :: "string \<Rightarrow> string" where
  "scutilQuote s =
     (if s = [] then [CHR 0x22, CHR 0x22]
      else if list_ex (\<lambda>c. c = CHR '' '' \<or> c = CHR 0x09 \<or> c = CHR 0x0A \<or> c = CHR 0x22) s
      then [CHR 0x22] @ ReplaceAllChar s (CHR 0x22) [CHR 0x5C, CHR 0x22] @ [CHR 0x22]
      else s)"

definition isDecimal :: "string \<Rightarrow> bool" where
  "isDecimal s = (s \<noteq> [] \<and> list_all is_digit s)"

text \<open>The entries of an array, up to the closing brace, and the lines after it.\<close>

fun scutil_entries :: "string list \<Rightarrow> string list \<times> string list" where
  "scutil_entries [] = ([], [])"
| "scutil_entries (l # ls) =
     (let entry = TrimSpace l
      in if entry = ''}'' then ([], ls)
         else case scutil_entries ls of
                (vals, rest) \<Rightarrow>
                  (case SplitN entry '':'' 2 of
                     [_, v] \<Rightarrow> (TrimSpace v # vals, rest)
                   | _ \<Rightarrow> (vals, rest)))"

fun scutil_array_lines :: "string \<Rightarrow> string list \<Rightarrow> string list" where
  "scutil_array_lines name [] = []"
| "scutil_array_lines name (l # ls) =
     (if HasPrefix (TrimSpace l) (name @ '' : <array>'') then fst (scutil_entries ls)
      else scutil_array_lines name ls)"

definition scutilArray :: "string \<Rightarrow> string \<Rightarrow> string list" where
  "scutilArray raw name = scutil_array_lines name (Split raw [CHR 0x0A])"

fun scutil_scalar_lines :: "string \<Rightarrow> string list \<Rightarrow> string" where
  "scutil_scalar_lines name [] = []"
| "scutil_scalar_lines name (l # ls) =
     (case SplitN (TrimSpace l) '':'' 2 of
        [k, v] \<Rightarrow> if TrimSpace k = name then TrimSpace v else scutil_scalar_lines name ls
      | _ \<Rightarrow> scutil_scalar_lines name ls)"

definition scutilScalar :: "string \<Rightarrow> string \<Rightarrow> string" where
  "scutilScalar raw name = scutil_scalar_lines name (Split raw [CHR 0x0A])"

lemma scutil_entries_shorter: "length (snd (scutil_entries ls)) \<le> length ls"
  by (induction ls) (auto simp: Let_def split: prod.splits list.splits)

function scutil_restore_lines :: "string list \<Rightarrow> string" where
  "scutil_restore_lines [] = []"
| "scutil_restore_lines (l # ls) =
     (let line = TrimSpace l
      in if line = [] \<or> line = ''<dictionary> {'' \<or> line = ''}'' then scutil_restore_lines ls
         else case SplitN line '':'' 2 of
                [k, v] \<Rightarrow>
                  (let name = TrimSpace k; val = TrimSpace v
                   in if val = ''<array> {'' then
                        ''d.add '' @ name @ '' *'' @
                        concat (map (\<lambda>x. '' '' @ scutilQuote x) (fst (scutil_entries ls))) @ [CHR 0x0A] @
                        scutil_restore_lines (snd (scutil_entries ls))
                      else if isDecimal val then
                        ''d.add '' @ name @ '' # '' @ val @ [CHR 0x0A] @ scutil_restore_lines ls
                      else ''d.add '' @ name @ '' '' @ scutilQuote val @ [CHR 0x0A] @ scutil_restore_lines ls)
              | _ \<Rightarrow> scutil_restore_lines ls)"
  by pat_completeness auto
termination
  by (relation "measure length") (simp_all add: le_imp_less_Suc scutil_entries_shorter)

definition scutilRestoreScript :: "string \<Rightarrow> string \<Rightarrow> string" where
  "scutilRestoreScript key raw =
     ''open'' @ [CHR 0x0A] @ ''d.init'' @ [CHR 0x0A] @ scutil_restore_lines (Split raw [CHR 0x0A]) @
     ''set '' @ key @ [CHR 0x0A] @ ''quit'' @ [CHR 0x0A]"

definition firstUsableSystemDNSUpstream :: "string \<Rightarrow> string" where
  "firstUsableSystemDNSUpstream raw =
     (let port = (if scutilScalar raw ''ServerPort'' = [] then ''53'' else scutilScalar raw ''ServerPort'')
      in case find (\<lambda>a. ParseIP a \<noteq> [] \<and> \<not> IsLoopback (ParseIP a)) (scutilArray raw ''ServerAddresses'') of
           None \<Rightarrow> [] | Some addr \<Rightarrow> JoinHostPort addr port)"

subsection \<open>Texts\<close>

definition ownServiceDNSKey :: "string \<Rightarrow> string" where
  "ownServiceDNSKey tunName = ''State:/Network/Service/'' @ tunName @ ''/DNS''"

definition ownServiceDNSScript :: "string \<Rightarrow> string \<Rightarrow> int \<Rightarrow> string" where
  "ownServiceDNSScript tunName serverIP ifIndex =
     ''open'' @ [CHR 0x0A] @ ''d.init'' @ [CHR 0x0A] @
     ''d.add ConfirmedServiceID '' @ tunName @ [CHR 0x0A] @
     ''d.add SearchOrder # 0'' @ [CHR 0x0A] @
     ''d.add ServerAddresses * '' @ serverIP @ [CHR 0x0A] @
     ''d.add ServerPort # 53'' @ [CHR 0x0A] @
     ''d.add SupplementalMatchDomains * '' @ [CHR 0x22, CHR 0x22, CHR 0x0A] @
     ''d.add __CONFIGURATION_ID__ '' @ [CHR 0x22] @ ''Supplemental: '' @ tunName @ '' 0'' @ [CHR 0x22, CHR 0x0A] @
     ''d.add __FLAGS__ # 16390'' @ [CHR 0x0A] @
     ''d.add __IF_INDEX__ # '' @ Itoa ifIndex @ [CHR 0x0A] @
     ''d.add __ORDER__ # 0'' @ [CHR 0x0A] @
     ''set '' @ ownServiceDNSKey tunName @ [CHR 0x0A] @ ''quit'' @ [CHR 0x0A]"

definition resolvConfContent :: "string \<Rightarrow> string" where
  "resolvConfContent serverIP =
     ''# ecorplink managed; restored on stop'' @ [CHR 0x0A] @ ''nameserver '' @ serverIP @ [CHR 0x0A] @
     ''options timeout:1 attempts:2'' @ [CHR 0x0A]"

definition systemResolvConfPath :: string where
  "systemResolvConfPath = ''/etc/resolv.conf''"

definition owns_ip :: "ip \<Rightarrow> net_addr list \<Rightarrow> bool" where
  "owns_ip target addrs = list_ex (\<lambda>a. addr_ip a \<noteq> [] \<and> IP_Equal (addr_ip a) target) addrs"

definition interfaceIndexForIP :: "net_env \<Rightarrow> string \<Rightarrow> int option" where
  "interfaceIndexForIP net ip =
     (let target = ParseIP ip
      in if target = [] then None
         else case Interfaces net of
                Inl _ \<Rightarrow> None
              | Inr ifaces \<Rightarrow>
                  map_option if_Index
                    (find (\<lambda>i. case Addrs net i of Inl _ \<Rightarrow> False | Inr as \<Rightarrow> owns_ip target as) ifaces))"

subsection \<open>State\<close>

record darwin_dns_state =
  ServiceKey :: string
  ManagedServiceKey :: bool
  GlobalScutil :: string
  PFEnabled :: bool
  ResolvConfPath :: string
  ResolvConfContent :: string
  ds_Applied :: bool

record linux_dns_state =
  ld_Method :: string
  ld_TunName :: string
  ld_Path :: string
  ld_Content :: string
  ld_Applied :: bool

text \<open>
  The maintainers are the goroutines that rewrite the file every half second, each with the server it
  writes and whether its stop channel is closed. Stopping closes the channel and does not wait
  for the goroutine. \<open>maintained\<close> is the channel the global variable holds, as an index.
\<close>

record ('w, 's) sysdns =
  files :: "string \<Rightarrow> string option"
  dns_state :: "'s option"
  maintainers :: "(string \<times> bool) list"
  maintained :: "nat option"
  sd_os :: 'w

record 'w dns_env =
  os_WriteFile :: "string \<Rightarrow> string \<Rightarrow> (string \<Rightarrow> string option) \<Rightarrow> bool \<times> (string \<Rightarrow> string option)"
  state_writable :: bool
  state_removable :: bool
  run_command :: "string list \<Rightarrow> string \<Rightarrow> 'w \<Rightarrow> (string, string) res \<times> 'w"
  look_path :: "string \<Rightarrow> bool"
  dns_net :: net_env

datatype dns_error =
    EmptyTunName | BadServerIP string | NoOwner | NoResolvConf | StateNotSaved | CommandFailed string |
    WriteFailed | NotPersisted | NoResolvectl

definition write_file :: "'w dns_env \<Rightarrow> string \<Rightarrow> string \<Rightarrow> ('w, 's) sysdns \<Rightarrow> bool \<times> ('w, 's) sysdns" where
  "write_file env path content s =
     (case os_WriteFile env path content (files s) of (ok, fs) \<Rightarrow> (ok, s\<lparr>files := fs\<rparr>))"

definition run_cmd :: "'w dns_env \<Rightarrow> string list \<Rightarrow> string \<Rightarrow> ('w, 's) sysdns \<Rightarrow> (string, string) res \<times> ('w, 's) sysdns" where
  "run_cmd env argv stdin s =
     (case run_command env argv stdin (sd_os s) of (r, w) \<Rightarrow> (r, s\<lparr>sd_os := w\<rparr>))"

definition save_state :: "'w dns_env \<Rightarrow> 's \<Rightarrow> ('w, 's) sysdns \<Rightarrow> bool \<times> ('w, 's) sysdns" where
  "save_state env st s = (if state_writable env then (True, s\<lparr>dns_state := Some st\<rparr>) else (False, s))"

definition remove_state :: "'w dns_env \<Rightarrow> ('w, 's) sysdns \<Rightarrow> ('w, 's) sysdns" where
  "remove_state env s = (if state_removable env then s\<lparr>dns_state := None\<rparr> else s)"

subsection \<open>Darwin\<close>

definition ensureResolvConfDNS ::
    "'w dns_env \<Rightarrow> string \<Rightarrow> string \<Rightarrow> ('w, 's) sysdns \<Rightarrow> (dns_error, bool) res \<times> ('w, 's) sysdns" where
  "ensureResolvConfDNS env path serverIP s =
     (let nxt = resolvConfContent serverIP
      in if files s path = Some nxt then (Ok False, s)
         else case write_file env path nxt s of
                (False, s1) \<Rightarrow> (Err WriteFailed, s1)
              | (True, s1) \<Rightarrow>
                  (case files s1 path of
                     None \<Rightarrow> (Err NoResolvConf, s1)
                   | Some got \<Rightarrow> if got \<noteq> nxt then (Err NotPersisted, s1) else (Ok True, s1)))"

definition stopResolvConfMaintainer :: "('w, 's) sysdns \<Rightarrow> ('w, 's) sysdns" where
  "stopResolvConfMaintainer s =
     (case maintained s of
        None \<Rightarrow> s
      | Some i \<Rightarrow> s\<lparr>maintained := None, maintainers := (maintainers s)[i := (fst (maintainers s ! i), True)]\<rparr>)"

definition startResolvConfMaintainer :: "string \<Rightarrow> ('w, 's) sysdns \<Rightarrow> ('w, 's) sysdns" where
  "startResolvConfMaintainer serverIP s =
     (let s1 = stopResolvConfMaintainer s
      in s1\<lparr>maintained := Some (length (maintainers s1)), maintainers := maintainers s1 @ [(serverIP, False)]\<rparr>)"

definition runScutil :: "'w dns_env \<Rightarrow> string \<Rightarrow> ('w, 's) sysdns \<Rightarrow> (string, string) res \<times> ('w, 's) sysdns" where
  "runScutil env script = run_cmd env [''scutil''] script"

definition removeScutilKey :: "'w dns_env \<Rightarrow> string \<Rightarrow> ('w, 's) sysdns \<Rightarrow> ('w, 's) sysdns" where
  "removeScutilKey env key s =
     snd (runScutil env (''open'' @ [CHR 0x0A] @ ''remove '' @ key @ [CHR 0x0A] @ ''quit'' @ [CHR 0x0A]) s)"

definition restoreScutilDictionary :: "'w dns_env \<Rightarrow> string \<Rightarrow> string \<Rightarrow> ('w, 's) sysdns \<Rightarrow> ('w, 's) sysdns" where
  "restoreScutilDictionary env key raw s = snd (runScutil env (scutilRestoreScript key raw) s)"

definition cleanupPFDNSRedirect :: "'w dns_env \<Rightarrow> ('w, 's) sysdns \<Rightarrow> ('w, 's) sysdns" where
  "cleanupPFDNSRedirect env s = snd (run_cmd env [''pfctl'', ''-a'', ''com.ecorplink'', ''-F'', ''all''] [] s)"

definition darwin_cleanupSystemDNS ::
    "'w dns_env \<Rightarrow> ('w, darwin_dns_state) sysdns \<Rightarrow> ('w, darwin_dns_state) sysdns" where
  "darwin_cleanupSystemDNS env s0 =
     (let s = stopResolvConfMaintainer s0
      in case dns_state s of
           None \<Rightarrow> s
         | Some st \<Rightarrow>
             let s1 = (if GlobalScutil st \<noteq> []
                       then restoreScutilDictionary env ''State:/Network/Global/DNS'' (GlobalScutil st) s
                       else if \<not> ManagedServiceKey st then removeScutilKey env ''State:/Network/Global/DNS'' s
                       else s);
                 s2 = (if ManagedServiceKey st \<and> ServiceKey st \<noteq> [] then removeScutilKey env (ServiceKey st) s1
                       else s1);
                 s3 = (if PFEnabled st then cleanupPFDNSRedirect env s2 else s2);
                 s4 = (if ResolvConfPath st \<noteq> []
                       then snd (write_file env (ResolvConfPath st) (ResolvConfContent st) s3) else s3)
             in remove_state env s4)"

definition darwin_setupSystemDNS ::
    "'w dns_env \<Rightarrow> string \<Rightarrow> string \<Rightarrow> ('w, darwin_dns_state) sysdns \<Rightarrow>
     dns_error option \<times> ('w, darwin_dns_state) sysdns" where
  "darwin_setupSystemDNS env tunName serverIP s =
     (if TrimSpace tunName = [] then (Some EmptyTunName, s)
      else if ParseIP serverIP = [] then (Some (BadServerIP serverIP), s)
      else
        let s1 = darwin_cleanupSystemDNS env s
        in case interfaceIndexForIP (dns_net env) serverIP of
             None \<Rightarrow> (Some NoOwner, s1)
           | Some ifIndex \<Rightarrow>
               (case files s1 systemResolvConfPath of
                  None \<Rightarrow> (Some NoResolvConf, s1)
                | Some resolvContent \<Rightarrow>
                    (case save_state env
                            \<lparr>ServiceKey = ownServiceDNSKey tunName, ManagedServiceKey = True, GlobalScutil = [],
                             PFEnabled = False, ResolvConfPath = systemResolvConfPath,
                             ResolvConfContent = resolvContent, ds_Applied = True\<rparr> s1 of
                       (False, s2) \<Rightarrow> (Some StateNotSaved, s2)
                     | (True, s2) \<Rightarrow>
                         (case runScutil env (ownServiceDNSScript tunName serverIP ifIndex) s2 of
                            (Inl e, s3) \<Rightarrow> (Some (CommandFailed e), s3)
                          | (Inr _, s3) \<Rightarrow>
                              (case ensureResolvConfDNS env systemResolvConfPath serverIP s3 of
                                 (Inl e, s4) \<Rightarrow> (Some e, s4)
                               | (Inr _, s4) \<Rightarrow> (None, startResolvConfMaintainer serverIP s4))))))"

text \<open>One round of a maintainer.\<close>

definition maintainer_tick :: "'w dns_env \<Rightarrow> nat \<Rightarrow> ('w, 's) sysdns \<Rightarrow> ('w, 's) sysdns" where
  "maintainer_tick env i s = snd (ensureResolvConfDNS env systemResolvConfPath (fst (maintainers s ! i)) s)"

subsection \<open>Linux\<close>

fun run_all :: "'w dns_env \<Rightarrow> string \<Rightarrow> string list list \<Rightarrow> ('w, 's) sysdns \<Rightarrow> dns_error option \<times> ('w, 's) sysdns" where
  "run_all env prog [] s = (None, s)"
| "run_all env prog (args # rest) s =
     (case run_cmd env (prog # args) [] s of
        (Inl e, s1) \<Rightarrow> (Some (CommandFailed e), s1)
      | (Inr _, s1) \<Rightarrow> run_all env prog rest s1)"

definition resolvectl_path :: "'w dns_env \<Rightarrow> string option" where
  "resolvectl_path env =
     (if look_path env ''resolvectl'' then Some ''resolvectl''
      else if look_path env ''systemd-resolve'' then Some ''systemd-resolve'' else None)"

definition setupSystemDNSResolved ::
    "'w dns_env \<Rightarrow> string \<Rightarrow> string \<Rightarrow> ('w, linux_dns_state) sysdns \<Rightarrow>
     dns_error option \<times> ('w, linux_dns_state) sysdns" where
  "setupSystemDNSResolved env tunName serverIP s =
     (case resolvectl_path env of
        None \<Rightarrow> (Some NoResolvectl, s)
      | Some resolvectl \<Rightarrow>
          (case save_state env
                  \<lparr>ld_Method = ''resolvectl'', ld_TunName = tunName, ld_Path = [], ld_Content = [], ld_Applied = True\<rparr> s of
             (False, s1) \<Rightarrow> (Some StateNotSaved, s1)
           | (True, s1) \<Rightarrow>
               run_all env resolvectl
                 [[''dns'', tunName, serverIP], [''domain'', tunName, ''~.''], [''default-route'', tunName, ''yes'']] s1))"

definition setupSystemDNSResolvConf ::
    "'w dns_env \<Rightarrow> string \<Rightarrow> ('w, linux_dns_state) sysdns \<Rightarrow> dns_error option \<times> ('w, linux_dns_state) sysdns" where
  "setupSystemDNSResolvConf env serverIP s =
     (case files s systemResolvConfPath of
        None \<Rightarrow> (Some NoResolvConf, s)
      | Some data \<Rightarrow>
          (case save_state env
                  \<lparr>ld_Method = ''resolv_conf'', ld_TunName = [], ld_Path = systemResolvConfPath, ld_Content = data,
                   ld_Applied = True\<rparr> s of
             (False, s1) \<Rightarrow> (Some StateNotSaved, s1)
           | (True, s1) \<Rightarrow>
               (case write_file env systemResolvConfPath (resolvConfContent serverIP) s1 of
                  (ok, s2) \<Rightarrow> (if ok then None else Some WriteFailed, s2))))"

definition linux_setupSystemDNS ::
    "'w dns_env \<Rightarrow> string \<Rightarrow> string \<Rightarrow> ('w, linux_dns_state) sysdns \<Rightarrow>
     dns_error option \<times> ('w, linux_dns_state) sysdns" where
  "linux_setupSystemDNS env tunName serverIP s =
     (if ParseIP serverIP = [] then (Some (BadServerIP serverIP), s)
      else if tunName \<noteq> [] then
        (case setupSystemDNSResolved env tunName serverIP s of
           (None, s1) \<Rightarrow> (None, s1)
         | (Some _, s1) \<Rightarrow> setupSystemDNSResolvConf env serverIP s1)
      else setupSystemDNSResolvConf env serverIP s)"

definition linux_cleanupSystemDNS ::
    "'w dns_env \<Rightarrow> ('w, linux_dns_state) sysdns \<Rightarrow> ('w, linux_dns_state) sysdns" where
  "linux_cleanupSystemDNS env s =
     (case dns_state s of
        None \<Rightarrow> s
      | Some st \<Rightarrow>
          let s1 = (if ld_Method st = ''resolvectl'' then
                      (if ld_TunName st = [] then s
                       else case resolvectl_path env of
                              None \<Rightarrow> s
                            | Some prog \<Rightarrow> snd (run_cmd env [prog, ''revert'', ld_TunName st] [] s))
                    else if ld_Path st \<noteq> [] then snd (write_file env (ld_Path st) (ld_Content st) s) else s)
          in remove_state env s1)"

subsection \<open>Histories\<close>

definition faithful :: "'w dns_env \<Rightarrow> bool" where
  "faithful env \<longleftrightarrow> os_WriteFile env = (\<lambda>path content fs. (True, fs(path \<mapsto> content)))"

definition fresh_dns :: "string \<Rightarrow> ('w, 's) sysdns \<Rightarrow> bool" where
  "fresh_dns orig s \<longleftrightarrow>
     files s systemResolvConfPath = Some orig \<and> dns_state s = None \<and> maintainers s = [] \<and> maintained s = None"

text \<open>
  The states reached from a system that is not managed by setups, successful or not, cleanups and rounds
  of maintainers that have not been stopped, with nobody else writing the file.
\<close>

inductive darwin_dns :: "string \<Rightarrow> ('w, darwin_dns_state) sysdns \<Rightarrow> bool" for orig where
  dd_fresh: "fresh_dns orig s \<Longrightarrow> darwin_dns orig s"
| dd_setup: "darwin_dns orig s \<Longrightarrow> faithful env \<Longrightarrow> darwin_dns orig (snd (darwin_setupSystemDNS env tun ip s))"
| dd_cleanup: "darwin_dns orig s \<Longrightarrow> faithful env \<Longrightarrow> darwin_dns orig (darwin_cleanupSystemDNS env s)"
| dd_tick: "darwin_dns orig s \<Longrightarrow> faithful env \<Longrightarrow> i < length (maintainers s) \<Longrightarrow> \<not> snd (maintainers s ! i) \<Longrightarrow>
    darwin_dns orig (maintainer_tick env i s)"

text \<open>Which parts of the state the steps keep.\<close>

lemma run_cmd_frame [simp]:
  "files (snd (run_cmd env a b s)) = files s" "dns_state (snd (run_cmd env a b s)) = dns_state s"
  "maintainers (snd (run_cmd env a b s)) = maintainers s" "maintained (snd (run_cmd env a b s)) = maintained s"
  by (simp_all add: run_cmd_def split: prod.splits)

lemma write_file_frame [simp]:
  "dns_state (snd (write_file env p c s)) = dns_state s" "maintainers (snd (write_file env p c s)) = maintainers s"
  "maintained (snd (write_file env p c s)) = maintained s"
  by (simp_all add: write_file_def split: prod.splits)

lemma write_file_faithful: "faithful env \<Longrightarrow> write_file env p c s = (True, s\<lparr>files := (files s)(p \<mapsto> c)\<rparr>)"
  by (simp add: faithful_def write_file_def)

lemma stop_frame [simp]:
  "files (stopResolvConfMaintainer s) = files s" "dns_state (stopResolvConfMaintainer s) = dns_state s"
  "maintained (stopResolvConfMaintainer s) = None"
  by (simp_all add: stopResolvConfMaintainer_def split: option.splits)

lemma ensure_faithful:
  assumes "faithful env"
  shows "\<exists>b. ensureResolvConfDNS env p ip s = (Ok b, snd (ensureResolvConfDNS env p ip s))"
    "snd (ensureResolvConfDNS env p ip s) = s\<lparr>files := (files s)(p \<mapsto> resolvConfContent ip)\<rparr>"
  using assms
  by (auto simp: ensureResolvConfDNS_def Let_def write_file_faithful fun_upd_idem intro!: sysdns.equality)

definition maintainers_ok :: "('w, 's) sysdns \<Rightarrow> bool" where
  "maintainers_ok s \<longleftrightarrow> (\<forall>i. maintained s = Some i \<longrightarrow> i < length (maintainers s)) \<and>
     (\<forall>i < length (maintainers s). snd (maintainers s ! i) = (maintained s \<noteq> Some i))"

lemma stop_maintainers:
  "maintainers_ok s \<Longrightarrow> maintainers_ok (stopResolvConfMaintainer s) \<and> list_all snd (maintainers (stopResolvConfMaintainer s))"
  by (auto simp: maintainers_ok_def stopResolvConfMaintainer_def list_all_length nth_list_update split: option.splits)

lemma start_maintainers: "maintainers_ok s \<Longrightarrow> maintainers_ok (startResolvConfMaintainer ip s)"
  using stop_maintainers [of s]
  by (auto simp: maintainers_ok_def startResolvConfMaintainer_def Let_def nth_append less_Suc_eq)

text \<open>The invariant: the original is in the file, or the state file holds it.\<close>

definition dns_inv :: "string \<Rightarrow> ('w, darwin_dns_state) sysdns \<Rightarrow> bool" where
  "dns_inv orig s \<longleftrightarrow> maintainers_ok s \<and>
     (case dns_state s of
        None \<Rightarrow> files s systemResolvConfPath = Some orig \<and> maintained s = None
      | Some st \<Rightarrow> ResolvConfPath st = systemResolvConfPath \<and> ResolvConfContent st = orig)"

lemma darwin_cleanup_steps:
  assumes "faithful env"
  shows "maintainers (darwin_cleanupSystemDNS env s) = maintainers (stopResolvConfMaintainer s)"
    "maintained (darwin_cleanupSystemDNS env s) = None"
    "dns_state (darwin_cleanupSystemDNS env s) \<in> {None, dns_state s}"
    "files (darwin_cleanupSystemDNS env s) =
       (case dns_state s of
          None \<Rightarrow> files s
        | Some st \<Rightarrow> if ResolvConfPath st = [] then files s else (files s)(ResolvConfPath st \<mapsto> ResolvConfContent st))"
  by (auto simp: darwin_cleanupSystemDNS_def Let_def restoreScutilDictionary_def removeScutilKey_def runScutil_def
      cleanupPFDNSRedirect_def remove_state_def write_file_faithful [OF assms] split: option.splits)

lemma darwin_cleanup_inv:
  assumes "faithful env" "dns_inv orig s"
  shows "dns_inv orig (darwin_cleanupSystemDNS env s) \<and>
    files (darwin_cleanupSystemDNS env s) systemResolvConfPath = Some orig \<and>
    list_all snd (maintainers (darwin_cleanupSystemDNS env s))"
proof -
  have "systemResolvConfPath \<noteq> []" by (simp add: systemResolvConfPath_def)
  then have "files (darwin_cleanupSystemDNS env s) systemResolvConfPath = Some orig"
    using assms darwin_cleanup_steps(4) [OF assms(1), of s] by (auto simp: dns_inv_def split: option.splits)
  moreover have "maintainers_ok (stopResolvConfMaintainer s)" "list_all snd (maintainers (stopResolvConfMaintainer s))"
    using assms(2) stop_maintainers [of s] by (simp_all add: dns_inv_def)
  ultimately show ?thesis
    using assms darwin_cleanup_steps [OF assms(1), of s]
    by (auto simp: dns_inv_def maintainers_ok_def split: option.splits)
qed

lemma darwin_setup_inv:
  assumes "faithful env" "dns_inv orig s"
  shows "dns_inv orig (snd (darwin_setupSystemDNS env tun ip s))"
proof (cases "TrimSpace tun = [] \<or> ParseIP ip = [] \<or> interfaceIndexForIP (dns_net env) ip = None \<or> \<not> state_writable env")
  case True
  then show ?thesis
    using assms darwin_cleanup_inv [OF assms]
    by (auto simp: darwin_setupSystemDNS_def Let_def save_state_def split: option.splits)
next
  case False
  let ?c = "darwin_cleanupSystemDNS env s"
  have c: "maintainers_ok ?c" "files ?c systemResolvConfPath = Some orig" "maintained ?c = None"
    using darwin_cleanup_inv [OF assms] darwin_cleanup_steps(2) [OF assms(1)] by (simp_all add: dns_inv_def)
  obtain ifi where "interfaceIndexForIP (dns_net env) ip = Some ifi" using False by auto
  moreover define st where "st = \<lparr>ServiceKey = ownServiceDNSKey tun, ManagedServiceKey = True, GlobalScutil = [],
      PFEnabled = False, ResolvConfPath = systemResolvConfPath, ResolvConfContent = orig, ds_Applied = True\<rparr>"
  moreover obtain r s3 where s3: "runScutil env (ownServiceDNSScript tun ip ifi) (?c\<lparr>dns_state := Some st\<rparr>) = (r, s3)"
    by fastforce
  ultimately have *: "snd (darwin_setupSystemDNS env tun ip s) =
      (case r of Inl _ \<Rightarrow> s3 | Inr _ \<Rightarrow>
         startResolvConfMaintainer ip (s3\<lparr>files := (files s3)(systemResolvConfPath \<mapsto> resolvConfContent ip)\<rparr>))"
    using False c ensure_faithful [OF assms(1), of systemResolvConfPath ip s3]
    by (auto simp: darwin_setupSystemDNS_def Let_def save_state_def split: sum.splits prod.splits)
  have s3': "files s3 = files ?c" "dns_state s3 = Some st" "maintainers s3 = maintainers ?c" "maintained s3 = None"
    using s3 c run_cmd_frame [of env "[''scutil'']" _ "?c\<lparr>dns_state := Some st\<rparr>"]
    by (auto simp: runScutil_def dest!: arg_cong [where f = snd])
  then have "maintainers_ok s3" "maintainers_ok (s3\<lparr>files := fs\<rparr>)" for fs
    using c by (simp_all add: maintainers_ok_def)
  moreover have "dns_state (startResolvConfMaintainer ip (s3\<lparr>files := fs\<rparr>)) = Some st" for fs
    using s3' by (simp add: startResolvConfMaintainer_def Let_def)
  ultimately show ?thesis
    using * s3' start_maintainers
    by (auto simp: dns_inv_def st_def split: sum.splits)
qed

lemma darwin_dns_inv: "darwin_dns orig s \<Longrightarrow> dns_inv orig s"
proof (induction rule: darwin_dns.induct)
  case (dd_fresh s)
  then show ?case by (auto simp: fresh_dns_def dns_inv_def maintainers_ok_def)
next
  case (dd_tick s env i)
  then have "maintained s = Some i" by (auto simp: dns_inv_def maintainers_ok_def)
  then show ?case
    using dd_tick.IH
    by (simp add: dns_inv_def maintainers_ok_def maintainer_tick_def ensure_faithful(2) [OF dd_tick.hyps(2)]
        split: option.splits)
qed (simp_all add: darwin_setup_inv darwin_cleanup_inv)

subsection \<open>Properties\<close>


definition tun_net :: net_env where
  "tun_net = \<lparr>InterfaceByName = (\<lambda>n. Err n), Interfaces = Ok [\<lparr>if_Index = 9, if_Name = ''utun9'', FlagUp = True\<rparr>],
     Addrs = (\<lambda>i. Ok [IPAddrAddr [172, 30, 77, 1]]), route_get_default = Err [], env_darwin = True\<rparr>"

definition sample_dns_env :: "unit dns_env" where
  "sample_dns_env = \<lparr>os_WriteFile = (\<lambda>path content fs. (True, fs(path \<mapsto> content))), state_writable = True,
     state_removable = True, run_command = (\<lambda>a i w. (Ok [], w)), look_path = (\<lambda>p. False), dns_net = tun_net\<rparr>"

definition sample_dns :: "(unit, 's) sysdns" where
  "sample_dns = \<lparr>files = [''/etc/resolv.conf'' \<mapsto> ''nameserver 1.1.1.1''], dns_state = None, maintainers = [],
     maintained = None, sd_os = ()\<rparr>"

lemma sample_faithful: "faithful sample_dns_env"
  by (simp add: faithful_def sample_dns_env_def)

lemma sample_fresh: "fresh_dns ''nameserver 1.1.1.1'' sample_dns"
  by (simp add: fresh_dns_def sample_dns_def systemResolvConfPath_def)


text \<open>
  A cleanup does not wait for the maintainer it stops: a round that was already under way
  writes the tunnel's server into the resolver file after the original was restored.
\<close>

theorem late_round_undoes_restore:
  assumes "faithful env" "i < length (maintainers s)"
  shows "files (maintainer_tick env i (darwin_cleanupSystemDNS env s)) systemResolvConfPath =
    Some (resolvConfContent (fst (maintainers s ! i)))"
proof -
  have "fst (maintainers (stopResolvConfMaintainer s) ! i) = fst (maintainers s ! i)"
    using assms(2)
    by (cases "maintained s = Some i") (auto simp: stopResolvConfMaintainer_def split: option.splits)
  then show ?thesis
    by (simp add: maintainer_tick_def darwin_cleanup_steps(1) [OF assms(1)] ensure_faithful(2) [OF assms(1)])
qed

theorem late_round_undoes_restore_witness:
  "files (maintainer_tick sample_dns_env 0 (darwin_cleanupSystemDNS sample_dns_env
     (startResolvConfMaintainer ''172.30.77.1'' sample_dns))) systemResolvConfPath =
   Some (resolvConfContent ''172.30.77.1'')"
  using late_round_undoes_restore [OF sample_faithful, of 0 "startResolvConfMaintainer ''172.30.77.1'' sample_dns"]
  by (simp add: startResolvConfMaintainer_def stopResolvConfMaintainer_def sample_dns_def Let_def)

text \<open>
  On Linux without \<^verbatim>\<open>resolvectl\<close>, setup then cleanup restores the resolver file; but a second
  setup without a cleanup in between remembers the managed content as the original, so that the
  cleanup leaves the system on the tunnel's server.
\<close>

theorem linux_second_setup_loses_original:
  assumes "faithful env" "state_writable env" "resolvectl_path env = None"
    "files s systemResolvConfPath = Some orig" "ParseIP ip \<noteq> []"
  shows "files (linux_cleanupSystemDNS env (snd (linux_setupSystemDNS env tun ip s))) systemResolvConfPath = Some orig \<and>
    files (linux_cleanupSystemDNS env (snd (linux_setupSystemDNS env tun ip
      (snd (linux_setupSystemDNS env tun' ip s))))) systemResolvConfPath = Some (resolvConfContent ip)"
proof -
  have set: "snd (linux_setupSystemDNS env t ip x) =
      x\<lparr>dns_state := Some \<lparr>ld_Method = ''resolv_conf'', ld_TunName = [], ld_Path = systemResolvConfPath,
          ld_Content = c, ld_Applied = True\<rparr>,
        files := (files x)(systemResolvConfPath \<mapsto> resolvConfContent ip)\<rparr>"
    if "files x systemResolvConfPath = Some c" for x t c
    using that assms(2,3,5)
    by (simp add: linux_setupSystemDNS_def setupSystemDNSResolved_def setupSystemDNSResolvConf_def save_state_def
        write_file_faithful [OF assms(1)])
  have clean: "files (linux_cleanupSystemDNS env x) systemResolvConfPath = Some (ld_Content st)"
    if "dns_state x = Some st" "ld_Method st = ''resolv_conf''" "ld_Path st = systemResolvConfPath" for x st
    using that by (simp add: linux_cleanupSystemDNS_def remove_state_def write_file_faithful [OF assms(1)]
        systemResolvConfPath_def Let_def)
  show ?thesis using assms(4) by (simp add: set clean)
qed

theorem linux_second_setup_loses_original_witness:
  "files (linux_cleanupSystemDNS sample_dns_env (snd (linux_setupSystemDNS sample_dns_env ''tun0'' ''172.30.77.1''
     (snd (linux_setupSystemDNS sample_dns_env ''tun0'' ''172.30.77.1'' sample_dns))))) systemResolvConfPath =
   Some (resolvConfContent ''172.30.77.1'')"
proof -
  have "v4_string [172, 30, 77, 1] = ''172.30.77.1''"
    by (simp add: v4_string_def Uitoa.simps digit_char_def char_of_def bit_0)
  then have "ParseIP ''172.30.77.1'' \<noteq> []"
    using ParseIP_v4_string [of "[172, 30, 77, 1]"] by simp
  moreover have "state_writable sample_dns_env" "resolvectl_path sample_dns_env = None"
    "files sample_dns systemResolvConfPath = Some ''nameserver 1.1.1.1''"
    by (simp_all add: sample_dns_env_def resolvectl_path_def sample_dns_def systemResolvConfPath_def)
  ultimately show ?thesis
    using linux_second_setup_loses_original [OF sample_faithful] by blast
qed

end
