(* ===== verification/Daemon.thy ===== *)
theory Daemon
  imports VPN_Manager Supervisor System_DNS
begin

section \<open>The daemon (cmd/ecorplink-daemon/main.go)\<close>

text \<open>
  The commands of the user interface and the connection procedure. The daemon's configuration is the
  one of the VPN manager, which the Go code shares by pointer. The Corplink client and its session are
  a value of type \<open>'c\<close> with the operations the daemon calls as a record; the system's resolver settings
  are a value of type \<open>'d\<close> with the setup and cleanup operations of the platform.
\<close>

subsection \<open>Login capabilities\<close>

record loginCapabilities =
  VerifyTypes :: "string list"
  LoginOrders :: "string list"
  LoginEnableLDAP :: bool

record LoginMethodInfo =
  Methods :: "string list"
  info_VerifyTypes :: "string list"
  info_LoginOrders :: "string list"
  info_LoginEnableLDAP :: bool

definition no_capabilities :: loginCapabilities where
  "no_capabilities = \<lparr>VerifyTypes = [], LoginOrders = [], LoginEnableLDAP = False\<rparr>"

definition cache_Store :: "LoginMethodInfo \<Rightarrow> loginCapabilities" where
  "cache_Store info =
     \<lparr>VerifyTypes = info_VerifyTypes info, LoginOrders = info_LoginOrders info,
      LoginEnableLDAP = info_LoginEnableLDAP info\<rparr>"

fun firstLoginOrderIs :: "string list \<Rightarrow> string \<Rightarrow> bool" where
  "firstLoginOrderIs [] want = False"
| "firstLoginOrderIs (v # vs) want = (if v = [] then firstLoginOrderIs vs want else v = want)"

definition shouldUseLDAPPassword :: "Config \<Rightarrow> loginCapabilities \<Rightarrow> bool" where
  "shouldUseLDAPPassword cfg caps =
     (if Platform (Corplink cfg) = ''ldap'' then True
      else LoginEnableLDAP caps \<and> ''password'' \<in> set (VerifyTypes caps) \<and>
           firstLoginOrderIs (LoginOrders caps) ''ldap'')"

subsection \<open>The Corplink client as the daemon sees it\<close>

record VPNNode =
  node_ID :: int
  node_Name :: string
  node_IP :: string
  APIPort :: int
  VPNPort :: int
  node_ProtocolMode :: int

record WGConnInfo =
  wi_VpnIP :: netip_addr
  wi_ServerPublicKey :: string
  wi_MTU :: int
  wi_DNSServers :: "netip_addr list"
  wi_SplitRoutes :: "string list"
  wi_DomainSuffixes :: "string list"
  wi_ProtocolMode :: int
  wi_ServerEndpoint :: string

record 'c corplink_api =
  DiscoverCompany :: "string \<Rightarrow> 'c \<Rightarrow> string option \<times> 'c"
  LoginMethods :: "'c \<Rightarrow> (string, LoginMethodInfo) res \<times> 'c"
  SendCode :: "string \<Rightarrow> string \<Rightarrow> 'c \<Rightarrow> string option \<times> 'c"
  VerifyCode :: "string \<Rightarrow> string \<Rightarrow> string \<Rightarrow> 'c \<Rightarrow> string option \<times> 'c"
  LoginV1 :: "string \<Rightarrow> string \<Rightarrow> 'c \<Rightarrow> string option \<times> 'c"
  LoginWithLDAPPassword :: "string \<Rightarrow> string \<Rightarrow> 'c \<Rightarrow> string option \<times> 'c"
  LoginWithPassword :: "string \<Rightarrow> string \<Rightarrow> 'c \<Rightarrow> string option \<times> 'c"
  GetQRCode :: "'c \<Rightarrow> (string, string \<times> string) res \<times> 'c"
  PollQRLogin :: "string \<Rightarrow> 'c \<Rightarrow> string option \<times> 'c"
  Logout :: "'c \<Rightarrow> 'c"
  IsAuthenticated :: "'c \<Rightarrow> bool"
  ListNodes :: "'c \<Rightarrow> (string, VPNNode list) res \<times> 'c"
  PingNode :: "VPNNode \<Rightarrow> 'c \<Rightarrow> int \<times> 'c"
  GenerateKeyPair :: "'c \<Rightarrow> (string, string \<times> string) res \<times> 'c"
  GetWGConfig :: "VPNNode \<Rightarrow> string \<Rightarrow> 'c \<Rightarrow> (string, WGConnInfo) res \<times> 'c"
  ReportVPN :: "VPNNode \<Rightarrow> string \<Rightarrow> string \<Rightarrow> 'c \<Rightarrow> (string, (string list \<times> string list) option) res \<times> 'c"
  Session_Save :: "'c \<Rightarrow> 'c"
  Session_Server :: "'c \<Rightarrow> string"
  Configure :: "CorplinkConfig \<Rightarrow> 'c \<Rightarrow> 'c"
  SetDialContext :: "Dialer option \<Rightarrow> 'c \<Rightarrow> 'c"

subsection \<open>State\<close>

record connectDetails =
  cd_node :: VPNNode
  cd_wgInfo :: WGConnInfo
  cd_pubB64 :: string

text \<open>
  The two goroutines of a connection share the node, the address and the key. The places between which
  other goroutines may run are the constructors of the two program counters: every call on the
  manager, the supervisor or the network is a step of its own.
\<close>

datatype reconnect_pc =
    R_Wait | R_Current | R_Status | R_Dead | R_Healthy | R_Mark | R_Disconnect | R_Cleanup | R_Decide
  | R_GiveUp | R_Attempt | R_Connect connectDetails ConnectConfig | R_Succeeded connectDetails | R_Exit

datatype keepalive_pc =
    K_Wait | K_Current | K_Status | K_Report | K_Check "string list" "string list"
  | K_Update "string list" "string list" | K_Exit

record conn_loop =
  lp_ctx :: nat
  lp_gen :: "64 word"
  lp_nodeID :: int
  lp_follow :: bool
  lp_node :: VPNNode
  lp_vpnIP :: string
  lp_pubB64 :: string
  attempts :: int
  lp_reconnecting :: bool
  rpc :: reconnect_pc
  kpc :: keepalive_pc

record ('w, 'v, 'c, 'd) daemon =
  d_vm :: "('w, 'v) Manager"
  d_sup :: connectionSupervisor
  d_cache :: loginCapabilities
  d_client :: 'c
  d_dns :: 'd
  d_shutdown :: bool
  d_loops :: "conn_loop list"

record ('w, 'v, 'c, 'd) daemon_env =
  de_vpn :: "('w, 'v) vpn_env"
  de_api :: "'c corplink_api"
  setupSystemDNS :: "string \<Rightarrow> string \<Rightarrow> 'd \<Rightarrow> 'd"
  cleanupSystemDNS :: "'d \<Rightarrow> 'd"
  url_Hostname :: "string \<Rightarrow> string option"
  LookupHost :: "net_resolver \<Rightarrow> string \<Rightarrow> (string, string list) res"
  reloaded :: "(config_error, Config) res"

abbreviation d_cfg :: "('w, 'v, 'c, 'd) daemon \<Rightarrow> Config" where
  "d_cfg d \<equiv> m_cfg (d_vm d)"

datatype resp_error = EText string | EConnect vpn_error | EReload config_error | ESocks vpn_error

record VPNNodeDTO =
  dto_ID :: int
  dto_Name :: string
  LatencyMs :: int
  dto_ProtocolMode :: int

datatype resp_data =
    NoData | LoginData LoginMethodInfo | QRData string string | BoolData bool | NodesData "VPNNodeDTO list"
  | NodeData VPNNodeDTO | StatusData Status | StatsData int int

datatype Response = Resp_OK resp_data | Resp_Error resp_error

record Cmd =
  cmd_Action :: string
  Company :: string
  CodeType :: string
  Account :: string
  Code :: string
  Password :: string
  Token :: string
  NodeID :: int
  cmd_FollowSplitRoutes :: bool

subsection \<open>Host routes that keep control traffic off the tunnel\<close>

definition scoped_route :: "('w, 'v) vpn_env \<Rightarrow> string \<Rightarrow> string \<Rightarrow> ('w, 'v) Manager \<Rightarrow> ('w, 'v) Manager" where
  "scoped_route env host ifn m = set_hosts (snd (ve_addScoped env host ifn (hosts_of m))) m"

definition ensureNodeAPIRoute :: "('w, 'v) vpn_env \<Rightarrow> VPNNode \<Rightarrow> string \<Rightarrow> ('w, 'v) Manager \<Rightarrow> ('w, 'v) Manager" where
  "ensureNodeAPIRoute env node physIface m =
     (if physIface = [] \<or> ParseIP (node_IP node) = [] then m else scoped_route env (node_IP node) physIface m)"

definition ensureCorplinkNodeRoute :: "('w, 'v) vpn_env \<Rightarrow> VPNNode \<Rightarrow> string \<Rightarrow> ('w, 'v) Manager \<Rightarrow> ('w, 'v) Manager" where
  "ensureCorplinkNodeRoute env node physIface m =
     (if physIface = [] \<or> To4 (ParseIP (node_IP node)) = [] then m
      else scoped_route env (node_IP node) physIface m)"

definition resolveHostnameWithResolver ::
    "(string \<Rightarrow> string option) \<Rightarrow> (string \<Rightarrow> (string, string list) res) \<Rightarrow> string \<Rightarrow> string option" where
  "resolveHostnameWithResolver hostname lookup rawURL =
     (case hostname rawURL of
        None \<Rightarrow> None
      | Some host \<Rightarrow>
          if host = [] then None
          else if ParseIP host \<noteq> [] then Some host
          else (case lookup host of Inr (a # _) \<Rightarrow> Some a | _ \<Rightarrow> None))"

definition api_resolver :: "net_env \<Rightarrow> string \<Rightarrow> string \<Rightarrow> net_resolver" where
  "api_resolver net physIface upstreamDNS =
     (if upstreamDNS = [] then DefaultResolver
      else case Init net (NewDirect physIface []) of
             (Some _, _) \<Rightarrow> DefaultResolver
           | (None, direct) \<Rightarrow> BoundResolver (bound (fst (Direct_Dialer net direct))) upstreamDNS)"

definition ensureCorplinkAPIRoute ::
    "('w, 'v, 'c, 'd) daemon_env \<Rightarrow> string \<Rightarrow> string \<Rightarrow> string \<Rightarrow> ('w, 'v) Manager \<Rightarrow> ('w, 'v) Manager" where
  "ensureCorplinkAPIRoute env apiServer physIface upstreamDNS m =
     (if apiServer = [] \<or> physIface = [] then m
      else
        case resolveHostnameWithResolver (url_Hostname env)
               (LookupHost env (api_resolver (fe_net (ve_fw (de_vpn env))) physIface upstreamDNS)) apiServer of
          None \<Rightarrow> m
        | Some apiHost \<Rightarrow> scoped_route (de_vpn env) apiHost physIface m)"

definition ensureControlPlaneRoutes ::
    "('w, 'v, 'c, 'd) daemon_env \<Rightarrow> string \<Rightarrow> string \<Rightarrow> string list \<Rightarrow> ('w, 'v) Manager \<Rightarrow> ('w, 'v) Manager" where
  "ensureControlPlaneRoutes env apiServer physIface ups m =
     (if physIface = [] then m
      else ensureCorplinkAPIRoute env apiServer physIface (firstNonSystem ups)
             (set_hosts (dns_host_routes (de_vpn env) physIface ups (hosts_of m)) m))"

definition configureCorplinkClientNetwork ::
    "('w, 'v, 'c, 'd) daemon_env \<Rightarrow> Config \<Rightarrow> 'c \<Rightarrow> string \<times> 'c" where
  "configureCorplinkClientNetwork env cfg cl =
     (let net = fe_net (ve_fw (de_vpn env))
      in case Init net (NewDirect (DirectOutbound_Interface cfg) (Upstream (DNS cfg))) of
           (Some _, _) \<Rightarrow> ([], SetDialContext (de_api env) None cl)
         | (None, direct) \<Rightarrow>
             (case DialerWithDNS net direct of
                (dl, direct') \<Rightarrow>
                  (fst (ResolvedIfaceName net direct'), SetDialContext (de_api env) (Some dl) cl)))"

definition isLoopbackServer :: "(string \<Rightarrow> string option) \<Rightarrow> string \<Rightarrow> bool" where
  "isLoopbackServer hostname rawURL =
     (case hostname rawURL of
        None \<Rightarrow> False
      | Some host \<Rightarrow> host = ''localhost'' \<or> (ParseIP host \<noteq> [] \<and> IsLoopback (ParseIP host)))"

definition prepareCorplinkControlPlane ::
    "('w, 'v, 'c, 'd) daemon_env \<Rightarrow> ('w, 'v, 'c, 'd) daemon \<Rightarrow> string \<times> ('w, 'v, 'c, 'd) daemon" where
  "prepareCorplinkControlPlane env d =
     (let api = de_api env; srv = Session_Server api (d_client d)
      in if isLoopbackServer (url_Hostname env) srv
         then ([], d\<lparr>d_client := SetDialContext api None (d_client d)\<rparr>)
         else
           case configureCorplinkClientNetwork env (d_cfg d) (d_client d) of
             (physIface, cl) \<Rightarrow>
               let d1 = d\<lparr>d_client := cl\<rparr>
               in if physIface = [] then ([], d1)
                  else (physIface,
                        d1\<lparr>d_vm := ensureControlPlaneRoutes env (Session_Server api cl) physIface
                              (Upstream (DNS (d_cfg d1))) (d_vm d1)\<rparr>))"

subsection \<open>Cleaning up after an earlier session\<close>

definition cleanupPersistedRoutes ::
    "('w, 'v, 'c, 'd) daemon_env \<Rightarrow> ('w, 'v, 'c, 'd) daemon \<Rightarrow> ('w, 'v, 'c, 'd) daemon" where
  "cleanupPersistedRoutes env d =
     (let ve = de_vpn env; m = d_vm d; h = hosts_of m;
          (rm, w, _) = Cleanup (ve_write ve) (NewRouteManager (NewPlatformRouter ve []) (m_state_file m)) (hr_os h);
          h1 = CleanupPersistedHostRoutes (fe_host (ve_fw ve)) (h\<lparr>hr_os := w\<rparr>)
      in d\<lparr>d_vm := set_hosts h1 (m\<lparr>m_state_file := state_file rm\<rparr>), d_dns := cleanupSystemDNS env (d_dns d)\<rparr>)"

fun uniqueIPv4s_from :: "string list \<Rightarrow> ip list \<Rightarrow> ip list" where
  "uniqueIPv4s_from seen [] = []"
| "uniqueIPv4s_from seen (ip # ips) =
     (if ip = [] \<or> To4 ip = [] then uniqueIPv4s_from seen ips
      else if IP_String ip \<in> set seen then uniqueIPv4s_from seen ips
      else ip # uniqueIPv4s_from (IP_String ip # seen) ips)"

definition uniqueIPv4s :: "ip list \<Rightarrow> ip list" where
  "uniqueIPv4s ips = uniqueIPv4s_from [] ips"

definition resolveCleanupHostIPs ::
    "(string \<Rightarrow> string option) \<Rightarrow> (string \<Rightarrow> (string, string list) res) \<Rightarrow> string \<Rightarrow> ip list" where
  "resolveCleanupHostIPs hostname lookup rawURL =
     (case hostname rawURL of
        None \<Rightarrow> []
      | Some host \<Rightarrow>
          if host = [] then []
          else if ParseIP host \<noteq> [] \<and> To4 (ParseIP host) \<noteq> [] then [ParseIP host]
          else (case lookup host of
                  Inl _ \<Rightarrow> []
                | Inr addrs \<Rightarrow> filter (\<lambda>ip. ip \<noteq> [] \<and> To4 ip \<noteq> []) (map ParseIP addrs)))"

fun upstream_ips :: "string list \<Rightarrow> ip list" where
  "upstream_ips [] = []"
| "upstream_ips (u # us) =
     (case SplitHostPort u of
        None \<Rightarrow> upstream_ips us
      | Some (host, _) \<Rightarrow>
          (let ip = ParseIP host
           in if ip \<noteq> [] \<and> To4 ip \<noteq> [] then ip # upstream_ips us else upstream_ips us))"

definition knownCleanupHostIPs :: "('w, 'v, 'c, 'd) daemon_env \<Rightarrow> ('w, 'v, 'c, 'd) daemon \<Rightarrow> ip list" where
  "knownCleanupHostIPs env d =
     uniqueIPv4s (upstream_ips (Upstream (DNS (d_cfg d))) @
       resolveCleanupHostIPs (url_Hostname env) (LookupHost env DefaultResolver) (Session_Server (de_api env) (d_client d)))"

definition cleanupKnownHostRoutes ::
    "('w, 'v, 'c, 'd) daemon_env \<Rightarrow> ('w, 'v, 'c, 'd) daemon \<Rightarrow> ('w, 'v, 'c, 'd) daemon" where
  "cleanupKnownHostRoutes env d =
     (let ips = knownCleanupHostIPs env d
      in if ips = [] then d
         else d\<lparr>d_vm := set_hosts (CleanupHostRoutesByIP (fe_host (ve_fw (de_vpn env))) ips (hosts_of (d_vm d))) (d_vm d)\<rparr>)"

subsection \<open>Connecting\<close>

fun fallback_dns :: "string list \<Rightarrow> netip_addr option" where
  "fallback_dns [] = None"
| "fallback_dns (u # us) =
     (let host = (case SplitHostPort u of None \<Rightarrow> [] | Some (h, _) \<Rightarrow> h)
      in case ParseAddr host of Some a \<Rightarrow> Some a | None \<Rightarrow> fallback_dns us)"

definition connect_config ::
    "Config \<Rightarrow> string \<Rightarrow> WGConnInfo \<Rightarrow> string \<Rightarrow> bool \<Rightarrow> ConnectConfig" where
  "connect_config cfg privB64 wi physIface follow =
     \<lparr>cc_WG = \<lparr>PrivateKeyB64 = privB64, ServerPublicKeyB64 = wi_ServerPublicKey wi, ServerEndpoint = wi_ServerEndpoint wi,
        ProtocolMode = wi_ProtocolMode wi, VpnIP = wi_VpnIP wi, DNSServers = wi_DNSServers wi,
        FallbackDNS = fallback_dns (Upstream (DNS cfg)), wg_MTU = wi_MTU wi\<rparr>,
      SplitRoutes = wi_SplitRoutes wi, DomainSuffixes = wi_DomainSuffixes wi, PhysicalIface = physIface,
      ServerIP = (case SplitHostPort (wi_ServerEndpoint wi) of None \<Rightarrow> [] | Some (h, _) \<Rightarrow> h),
      FollowSplitRoutes = follow\<rparr>"

text \<open>
  \<^verbatim>\<open>connectVPNOnce\<close> in two parts: everything up to the configuration of the tunnel, and from
  \<^verbatim>\<open>vm.Connect\<close> on. Requests made under a cancelled context fail.
\<close>

definition connect_configure ::
    "('w, 'v, 'c, 'd) daemon_env \<Rightarrow> VPNNode \<Rightarrow> bool \<Rightarrow> ('w, 'v, 'c, 'd) daemon \<Rightarrow>
     (resp_error, connectDetails \<times> ConnectConfig) res \<times> ('w, 'v, 'c, 'd) daemon" where
  "connect_configure env node follow d =
     (case GenerateKeyPair (de_api env) (d_client d) of
        (Inl e, cl) \<Rightarrow> (Err (EText (''keygen: '' @ e)), d\<lparr>d_client := cl\<rparr>)
      | (Inr (privB64, pubB64), cl) \<Rightarrow>
          (case GetWGConfig (de_api env) node pubB64 cl of
             (Inl e, cl') \<Rightarrow> (Err (EText (''wg config: '' @ e)), d\<lparr>d_client := cl'\<rparr>)
           | (Inr wi, cl') \<Rightarrow>
               (case prepareCorplinkControlPlane env (d\<lparr>d_client := cl'\<rparr>) of
                  (physIface, d') \<Rightarrow>
                    if physIface = [] then (Err (EText ''direct outbound init: no physical interface''), d')
                    else (Ok (\<lparr>cd_node = node, cd_wgInfo = wi, cd_pubB64 = pubB64\<rparr>,
                              connect_config (d_cfg d') privB64 wi physIface follow), d'))))"

definition connect_prepare ::
    "('w, 'v, 'c, 'd) daemon_env \<Rightarrow> bool \<Rightarrow> int \<Rightarrow> bool \<Rightarrow> ('w, 'v, 'c, 'd) daemon \<Rightarrow>
     (resp_error, connectDetails \<times> ConnectConfig) res \<times> ('w, 'v, 'c, 'd) daemon" where
  "connect_prepare env cancelled nodeID follow d =
     (case prepareCorplinkControlPlane env d of
        (physIface, d1) \<Rightarrow>
          if physIface = [] then (Err (EText ''direct outbound init: no physical interface''), d1)
          else
            case (if cancelled then (Err ''context canceled'', d_client d1) else ListNodes (de_api env) (d_client d1)) of
              (Inl e, cl) \<Rightarrow> (Err (EText (''list nodes: '' @ e)), d1\<lparr>d_client := cl\<rparr>)
            | (Inr nodes, cl) \<Rightarrow>
                (case find (\<lambda>n. node_ID n = nodeID) nodes of
                   None \<Rightarrow> (Err (EText (''node '' @ Itoa nodeID @ '' not found'')), d1\<lparr>d_client := cl\<rparr>)
                 | Some node \<Rightarrow>
                     connect_configure env node follow
                       (d1\<lparr>d_client := cl, d_vm := ensureCorplinkNodeRoute (de_vpn env) node physIface (d_vm d1)\<rparr>)))"

definition shouldSetupSystemDNS :: "Config \<Rightarrow> bool" where
  "shouldSetupSystemDNS cfg = SystemHijack (DNS cfg)"

definition connect_finish ::
    "('w, 'v, 'c, 'd) daemon_env \<Rightarrow> connectDetails \<times> ConnectConfig \<Rightarrow> ('w, 'v, 'c, 'd) daemon \<Rightarrow>
     Response \<times> ('w, 'v, 'c, 'd) daemon" where
  "connect_finish env p d =
     (let node = cd_node (fst p); wi = cd_wgInfo (fst p)
      in case Manager_Connect (de_vpn env) (node_Name node) (snd p) (d_vm d) of
           (Some e, m) \<Rightarrow> (Resp_Error (EConnect e), d\<lparr>d_vm := m\<rparr>)
         | (None, m) \<Rightarrow>
             let tun = TUN (m_cfg m);
                 tunIP = (if tun_IP tun = [] then ''172.30.77.1'' else tun_IP tun);
                 dns = (if shouldSetupSystemDNS (m_cfg m) \<and> tun_Name tun \<noteq> [] \<and> tunIP \<noteq> []
                        then setupSystemDNS env (tun_Name tun) tunIP (d_dns d) else d_dns d)
             in (Resp_OK (StatusData
                   \<lparr>Connected = True, st_Reconnecting = False, NodeName = node_Name node,
                    st_VpnIP = Addr_String (wi_VpnIP wi),
                    st_DNS = (case wi_DNSServers wi of a # _ \<Rightarrow> Addr_String a | [] \<Rightarrow> []),
                    Protocol = (if node_ProtocolMode node = 1 then ''TCP'' else ''UDP''),
                    ConnectedAt = now_unix (de_vpn env)\<rparr>),
                 d\<lparr>d_vm := m, d_dns := dns\<rparr>))"

definition connectVPNOnce ::
    "('w, 'v, 'c, 'd) daemon_env \<Rightarrow> bool \<Rightarrow> int \<Rightarrow> bool \<Rightarrow> ('w, 'v, 'c, 'd) daemon \<Rightarrow>
     Response \<times> connectDetails option \<times> ('w, 'v, 'c, 'd) daemon" where
  "connectVPNOnce env cancelled nodeID follow d =
     (case connect_prepare env cancelled nodeID follow d of
        (Inl e, d1) \<Rightarrow> (Resp_Error e, None, d1)
      | (Inr p, d1) \<Rightarrow>
          (case connect_finish env p d1 of
             (Resp_Error e, d2) \<Rightarrow> (Resp_Error e, None, d2)
           | (Resp_OK x, d2) \<Rightarrow> (Resp_OK x, Some (fst p), d2)))"

definition startConnectionLoops :: "nat \<Rightarrow> 64 word \<Rightarrow> int \<Rightarrow> bool \<Rightarrow> connectDetails \<Rightarrow> conn_loop" where
  "startConnectionLoops ctx g nodeID follow cd =
     \<lparr>lp_ctx = ctx, lp_gen = g, lp_nodeID = nodeID, lp_follow = follow, lp_node = cd_node cd,
      lp_vpnIP = Addr_String (wi_VpnIP (cd_wgInfo cd)), lp_pubB64 = cd_pubB64 cd,
      attempts = 0, lp_reconnecting = False, rpc = R_Wait, kpc = K_Wait\<rparr>"

definition handleConnect ::
    "('w, 'v, 'c, 'd) daemon_env \<Rightarrow> int \<Rightarrow> bool \<Rightarrow> ('w, 'v, 'c, 'd) daemon \<Rightarrow> Response \<times> ('w, 'v, 'c, 'd) daemon" where
  "handleConnect env nodeID follow d =
     (case connectVPNOnce env False nodeID follow d of
        (resp, None, d1) \<Rightarrow> (resp, d1)
      | (resp, Some details, d1) \<Rightarrow>
          (case sup_Start (d_sup d1) of
             ((ctx, g), s1) \<Rightarrow>
               (resp, d1\<lparr>d_sup := s1, d_loops := d_loops d1 @ [startConnectionLoops ctx g nodeID follow details]\<rparr>)))"

subsection \<open>Commands\<close>

definition actionUsesCorplinkNetwork :: "string \<Rightarrow> bool" where
  "actionUsesCorplinkNetwork a =
     (a \<in> set [''discover'', ''login_methods'', ''send_code'', ''verify_code'', ''login_password'', ''get_qrcode'',
       ''poll_qr'', ''logout'', ''list_nodes'', ''ping_nodes'', ''ping_single'', ''connect''])"

definition node_dto :: "VPNNode \<Rightarrow> int \<Rightarrow> VPNNodeDTO" where
  "node_dto n lat = \<lparr>dto_ID = node_ID n, dto_Name = node_Name n, LatencyMs = lat, dto_ProtocolMode = node_ProtocolMode n\<rparr>"

text \<open>A request whose error is reported, and one that also saves the session when it succeeds.\<close>

definition api_call ::
    "('c \<Rightarrow> string option \<times> 'c) \<Rightarrow> ('c \<Rightarrow> 'c) \<Rightarrow> ('w, 'v, 'c, 'd) daemon \<Rightarrow> Response \<times> ('w, 'v, 'c, 'd) daemon" where
  "api_call f after d =
     (case f (d_client d) of
        (Some e, cl) \<Rightarrow> (Resp_Error (EText e), d\<lparr>d_client := cl\<rparr>)
      | (None, cl) \<Rightarrow> (Resp_OK NoData, d\<lparr>d_client := after cl\<rparr>))"

text \<open>The nodes are pinged concurrently; the answers keep the order of the nodes.\<close>

fun ping_all ::
    "('w, 'v, 'c, 'd) daemon_env \<Rightarrow> string \<Rightarrow> VPNNode list \<Rightarrow> ('w, 'v, 'c, 'd) daemon \<Rightarrow>
     VPNNodeDTO list \<times> ('w, 'v, 'c, 'd) daemon" where
  "ping_all env physIface [] d = ([], d)"
| "ping_all env physIface (n # ns) d =
     (case PingNode (de_api env) n (d_client d) of
        (lat, cl) \<Rightarrow>
          (case ping_all env physIface ns
                  (d\<lparr>d_client := cl, d_vm := ensureNodeAPIRoute (de_vpn env) n physIface (d_vm d)\<rparr>) of
             (dtos, d') \<Rightarrow> (node_dto n lat # dtos, d')))"

definition handle_login_password ::
    "('w, 'v, 'c, 'd) daemon_env \<Rightarrow> Cmd \<Rightarrow> ('w, 'v, 'c, 'd) daemon \<Rightarrow> Response \<times> ('w, 'v, 'c, 'd) daemon" where
  "handle_login_password env cmd d =
     (let api = de_api env;
          login = (if Platform (Corplink (d_cfg d)) = ''feilian_v1'' then LoginV1 api
                   else if shouldUseLDAPPassword (d_cfg d) (d_cache d) then LoginWithLDAPPassword api
                   else LoginWithPassword api)
      in api_call (login (Account cmd) (Password cmd)) (Session_Save api) d)"

definition handle_disconnect ::
    "('w, 'v, 'c, 'd) daemon_env \<Rightarrow> ('w, 'v, 'c, 'd) daemon \<Rightarrow> Response \<times> ('w, 'v, 'c, 'd) daemon" where
  "handle_disconnect env d =
     (Resp_OK NoData,
      d\<lparr>d_sup := sup_Stop (d_sup d), d_vm := Manager_Disconnect (de_vpn env) (d_vm d),
        d_dns := cleanupSystemDNS env (d_dns d)\<rparr>)"

definition handle_cleanup_routes ::
    "('w, 'v, 'c, 'd) daemon_env \<Rightarrow> ('w, 'v, 'c, 'd) daemon \<Rightarrow> Response \<times> ('w, 'v, 'c, 'd) daemon" where
  "handle_cleanup_routes env d =
     (Resp_OK NoData,
      cleanupKnownHostRoutes env (cleanupPersistedRoutes env
        (d\<lparr>d_sup := sup_Stop (d_sup d), d_vm := Manager_Disconnect (de_vpn env) (d_vm d)\<rparr>)))"

definition handle_reload_config ::
    "('w, 'v, 'c, 'd) daemon_env \<Rightarrow> ('w, 'v, 'c, 'd) daemon \<Rightarrow> Response \<times> ('w, 'v, 'c, 'd) daemon" where
  "handle_reload_config env d =
     (case reloaded env of
        Inl e \<Rightarrow> (Resp_Error (EReload e), d)
      | Inr updated \<Rightarrow>
          let cl = Configure (de_api env) (Corplink updated) (d_client d);
              cl' = snd (configureCorplinkClientNetwork env updated cl)
          in case UpdateSOCKS5 (de_vpn env) (SOCKS5 updated) ((d_vm d)\<lparr>m_cfg := updated\<rparr>) of
               (Some e, m) \<Rightarrow> (Resp_Error (ESocks e), d\<lparr>d_client := cl', d_vm := m\<rparr>)
             | (None, m) \<Rightarrow> (Resp_OK NoData, d\<lparr>d_client := cl', d_vm := m\<rparr>))"

definition handle_ping ::
    "('w, 'v, 'c, 'd) daemon_env \<Rightarrow> Cmd \<Rightarrow> ('w, 'v, 'c, 'd) daemon \<Rightarrow> Response \<times> ('w, 'v, 'c, 'd) daemon" where
  "handle_ping env cmd d =
     (case ListNodes (de_api env) (d_client d) of
        (Inl e, cl) \<Rightarrow>
          (Resp_Error (EText (if cmd_Action cmd = ''ping_single'' then ''list nodes: '' @ e else e)), d\<lparr>d_client := cl\<rparr>)
      | (Inr nodes, cl) \<Rightarrow>
          if cmd_Action cmd = ''list_nodes''
          then (Resp_OK (NodesData (map (\<lambda>n. node_dto n 0) nodes)), d\<lparr>d_client := cl\<rparr>)
          else if cmd_Action cmd = ''ping_nodes'' then
            (case prepareCorplinkControlPlane env (d\<lparr>d_client := cl\<rparr>) of
               (physIface, d1) \<Rightarrow>
                 (case ping_all env physIface nodes d1 of (dtos, d2) \<Rightarrow> (Resp_OK (NodesData dtos), d2)))
          else
            (case find (\<lambda>n. node_ID n = NodeID cmd) nodes of
               None \<Rightarrow> (Resp_Error (EText (''node '' @ Itoa (NodeID cmd) @ '' not found'')), d\<lparr>d_client := cl\<rparr>)
             | Some n \<Rightarrow>
                 (case prepareCorplinkControlPlane env (d\<lparr>d_client := cl\<rparr>) of
                    (physIface, d1) \<Rightarrow>
                      (case ping_all env physIface [n] d1 of
                         (dtos, d2) \<Rightarrow> (Resp_OK (NodeData (hd dtos)), d2)))))"

definition handle_action ::
    "('w, 'v, 'c, 'd) daemon_env \<Rightarrow> Cmd \<Rightarrow> ('w, 'v, 'c, 'd) daemon \<Rightarrow> Response \<times> ('w, 'v, 'c, 'd) daemon" where
  "handle_action env cmd d =
     (let api = de_api env; a = cmd_Action cmd
      in if a = ''shutdown'' then (Resp_OK NoData, d\<lparr>d_sup := sup_Stop (d_sup d), d_shutdown := True\<rparr>)
         else if a = ''discover'' then
           (case api_call (DiscoverCompany api (Company cmd)) (Session_Save api) d of
              (Resp_OK x, d') \<Rightarrow> (Resp_OK x, d'\<lparr>d_cache := no_capabilities\<rparr>)
            | r \<Rightarrow> r)
         else if a = ''login_methods'' then
           (case LoginMethods api (d_client d) of
              (Inl e, cl) \<Rightarrow> (Resp_Error (EText e), d\<lparr>d_client := cl, d_cache := no_capabilities\<rparr>)
            | (Inr info, cl) \<Rightarrow> (Resp_OK (LoginData info), d\<lparr>d_client := cl, d_cache := cache_Store info\<rparr>))
         else if a = ''send_code'' then api_call (SendCode api (CodeType cmd) (Account cmd)) id d
         else if a = ''verify_code'' then
           api_call (VerifyCode api (CodeType cmd) (Account cmd) (Code cmd)) (Session_Save api) d
         else if a = ''login_password'' then handle_login_password env cmd d
         else if a = ''get_qrcode'' then
           (case GetQRCode api (d_client d) of
              (Inl e, cl) \<Rightarrow> (Resp_Error (EText e), d\<lparr>d_client := cl\<rparr>)
            | (Inr (u, t), cl) \<Rightarrow> (Resp_OK (QRData u t), d\<lparr>d_client := cl\<rparr>))
         else if a = ''poll_qr'' then api_call (PollQRLogin api (Token cmd)) (Session_Save api) d
         else if a = ''logout'' then (Resp_OK NoData, d\<lparr>d_client := Session_Save api (Logout api (d_client d))\<rparr>)
         else if a = ''is_authenticated'' then (Resp_OK (BoolData (IsAuthenticated api (d_client d))), d)
         else if a = ''cleanup_routes'' then handle_cleanup_routes env d
         else if a = ''list_nodes'' \<or> a = ''ping_nodes'' \<or> a = ''ping_single'' then handle_ping env cmd d
         else if a = ''set_follow_split_routes'' then
           (Resp_OK NoData, d\<lparr>d_vm := SetFollowSplitRoutes (cmd_FollowSplitRoutes cmd) (d_vm d)\<rparr>)
         else if a = ''reload_config'' then handle_reload_config env d
         else if a = ''connect'' then handleConnect env (NodeID cmd) (cmd_FollowSplitRoutes cmd) d
         else if a = ''disconnect'' then handle_disconnect env d
         else if a = ''status'' then (Resp_OK (StatusData (GetStatus (d_vm d))), d)
         else if a = ''get_stats'' then
           (let s = Manager_GetStats (de_vpn env) (d_vm d) in (Resp_OK (StatsData (TxBytes s) (RxBytes s)), d))
         else (Resp_Error (EText (''unknown action: '' @ a)), d))"

definition dispatchHandler ::
    "('w, 'v, 'c, 'd) daemon_env \<Rightarrow> Cmd \<Rightarrow> ('w, 'v, 'c, 'd) daemon \<Rightarrow> Response \<times> ('w, 'v, 'c, 'd) daemon" where
  "dispatchHandler env cmd d =
     handle_action env cmd
       (if actionUsesCorplinkNetwork (cmd_Action cmd) then snd (prepareCorplinkControlPlane env d) else d)"

end
