(* ===== verification/Reconnect.thy ===== *)
theory Reconnect
  imports Daemon
begin

section \<open>The loops of a connection (cmd/ecorplink-daemon/main.go)\<close>

text \<open>
  The two goroutines that \<^verbatim>\<open>startConnectionLoops\<close> runs for a connection, as step functions on the daemon
  and the connection's record, and the daemon with its loops and commands as an interleaving of
  steps. \<open>tick\<close> is whether the ticker fires; when a context is cancelled as well, either
  case of the Go \<^verbatim>\<open>select\<close> may be taken.
\<close>

subsection \<open>Steps\<close>

abbreviation (input) maxAttempts :: int where "maxAttempts \<equiv> 10"

definition reconnect_step ::
    "('w, 'v, 'c, 'd) daemon_env \<Rightarrow> bool \<Rightarrow> ('w, 'v, 'c, 'd) daemon \<times> conn_loop \<Rightarrow>
     ('w, 'v, 'c, 'd) daemon \<times> conn_loop" where
  "reconnect_step env tick s =
     (case s of (d, l) \<Rightarrow>
        (case rpc l of
           R_Wait \<Rightarrow>
             if tick then (d, l\<lparr>rpc := R_Current\<rparr>)
             else if ctx_done (d_sup d) (lp_ctx l) then (d, l\<lparr>rpc := R_Exit\<rparr>) else (d, l)
         | R_Current \<Rightarrow> (d, l\<lparr>rpc := (if IsCurrent (d_sup d) (lp_gen l) then R_Status else R_Exit)\<rparr>)
         | R_Status \<Rightarrow>
             (let st = GetStatus (d_vm d)
              in if \<not> Connected st \<and> \<not> lp_reconnecting l then (d, l\<lparr>rpc := R_Exit\<rparr>)
                 else (d, l\<lparr>rpc := (if Connected st then R_Dead else R_Decide)\<rparr>))
         | R_Dead \<Rightarrow>
             (case IsConnectionDead (de_vpn env) (d_vm d) of
                (dead, m) \<Rightarrow> (d\<lparr>d_vm := m\<rparr>, l\<lparr>rpc := (if dead then R_Mark else R_Healthy)\<rparr>))
         | R_Healthy \<Rightarrow>
             (d\<lparr>d_vm := SetReconnecting False (d_vm d)\<rparr>,
              l\<lparr>attempts := 0, lp_reconnecting := False, rpc := R_Wait\<rparr>)
         | R_Mark \<Rightarrow> (d\<lparr>d_vm := SetReconnecting True (d_vm d)\<rparr>, l\<lparr>rpc := R_Disconnect\<rparr>)
         | R_Disconnect \<Rightarrow> (d\<lparr>d_vm := Manager_Disconnect (de_vpn env) (d_vm d)\<rparr>, l\<lparr>rpc := R_Cleanup\<rparr>)
         | R_Cleanup \<Rightarrow> (cleanupPersistedRoutes env d, l\<lparr>rpc := R_Decide\<rparr>)
         | R_Decide \<Rightarrow>
             if maxAttempts \<le> attempts l then (d, l\<lparr>rpc := R_GiveUp\<rparr>)
             else (d, l\<lparr>lp_reconnecting := True, attempts := attempts l + 1, rpc := R_Attempt\<rparr>)
         | R_GiveUp \<Rightarrow>
             (d\<lparr>d_vm := SetReconnecting False (d_vm d), d_dns := cleanupSystemDNS env (d_dns d)\<rparr>, l\<lparr>rpc := R_Exit\<rparr>)
         | R_Attempt \<Rightarrow>
             (let d1 = snd (prepareCorplinkControlPlane env d)
              in case connect_prepare env (ctx_done (d_sup d) (lp_ctx l)) (lp_nodeID l) (lp_follow l) d1 of
                   (Inl _, d2) \<Rightarrow> (d2, l\<lparr>rpc := R_Wait\<rparr>)
                 | (Inr (details, cc), d2) \<Rightarrow> (d2, l\<lparr>rpc := R_Connect details cc\<rparr>))
         | R_Connect details cc \<Rightarrow>
             (case connect_finish env (details, cc) d of
                (Resp_Error _, d1) \<Rightarrow> (d1, l\<lparr>rpc := R_Wait\<rparr>)
              | (Resp_OK _, d1) \<Rightarrow> (d1, l\<lparr>rpc := R_Succeeded details\<rparr>))
         | R_Succeeded details \<Rightarrow>
             (d\<lparr>d_vm := SetReconnecting False (d_vm d)\<rparr>,
              l\<lparr>lp_node := cd_node details, lp_vpnIP := Addr_String (wi_VpnIP (cd_wgInfo details)),
                lp_pubB64 := cd_pubB64 details, attempts := 0, lp_reconnecting := False, rpc := R_Wait\<rparr>)
         | R_Exit \<Rightarrow> (d, l)))"

definition keepalive_step ::
    "('w, 'v, 'c, 'd) daemon_env \<Rightarrow> bool \<Rightarrow> ('w, 'v, 'c, 'd) daemon \<times> conn_loop \<Rightarrow>
     ('w, 'v, 'c, 'd) daemon \<times> conn_loop" where
  "keepalive_step env tick s =
     (case s of (d, l) \<Rightarrow>
        (case kpc l of
           K_Wait \<Rightarrow>
             if tick then (d, l\<lparr>kpc := K_Current\<rparr>)
             else if ctx_done (d_sup d) (lp_ctx l) then (d, l\<lparr>kpc := K_Exit\<rparr>) else (d, l)
         | K_Current \<Rightarrow> (d, l\<lparr>kpc := (if IsCurrent (d_sup d) (lp_gen l) then K_Status else K_Exit)\<rparr>)
         | K_Status \<Rightarrow> (d, l\<lparr>kpc := (if Connected (GetStatus (d_vm d)) then K_Report else K_Exit)\<rparr>)
         | K_Report \<Rightarrow>
             (case prepareCorplinkControlPlane env d of
                (physIface, d1) \<Rightarrow>
                  let d2 = d1\<lparr>d_vm := ensureNodeAPIRoute (de_vpn env) (lp_node l) physIface (d_vm d1)\<rparr>
                  in if ctx_done (d_sup d) (lp_ctx l) then (d2, l\<lparr>kpc := K_Wait\<rparr>)
                     else case ReportVPN (de_api env) (lp_node l) (lp_vpnIP l) (lp_pubB64 l) (d_client d2) of
                            (Inr (Some (routes, sfxs)), cl) \<Rightarrow> (d2\<lparr>d_client := cl\<rparr>, l\<lparr>kpc := K_Check routes sfxs\<rparr>)
                          | (_, cl) \<Rightarrow> (d2\<lparr>d_client := cl\<rparr>, l\<lparr>kpc := K_Wait\<rparr>))
         | K_Check routes sfxs \<Rightarrow>
             (d, l\<lparr>kpc := (if IsCurrent (d_sup d) (lp_gen l) then K_Update routes sfxs else K_Wait)\<rparr>)
         | K_Update routes sfxs \<Rightarrow> (d\<lparr>d_vm := UpdateSplitRoutes routes sfxs (d_vm d)\<rparr>, l\<lparr>kpc := K_Wait\<rparr>)
         | K_Exit \<Rightarrow> (d, l)))"

text \<open>A step of the i-th connection inside the daemon.\<close>

definition loop_in ::
    "(('w, 'v, 'c, 'd) daemon \<times> conn_loop \<Rightarrow> ('w, 'v, 'c, 'd) daemon \<times> conn_loop) \<Rightarrow> nat \<Rightarrow>
     ('w, 'v, 'c, 'd) daemon \<Rightarrow> ('w, 'v, 'c, 'd) daemon" where
  "loop_in step i d =
     (case step (d, d_loops d ! i) of (d', l') \<Rightarrow> d'\<lparr>d_loops := (d_loops d')[i := l']\<rparr>)"

definition new_daemon :: "('w, 'v) Manager \<Rightarrow> 'c \<Rightarrow> 'd \<Rightarrow> ('w, 'v, 'c, 'd) daemon" where
  "new_daemon m cl dns =
     \<lparr>d_vm = m, d_sup = new_supervisor, d_cache = no_capabilities, d_client = cl, d_dns = dns, d_shutdown = False,
      d_loops = []\<rparr>"

inductive d_reach :: "('w, 'v, 'c, 'd) daemon \<Rightarrow> bool" where
  d_new: "d_reach (new_daemon (New_Manager cfg hosts file) cl dns)"
| d_cmd: "d_reach d \<Longrightarrow> d_reach (snd (dispatchHandler env cmd d))"
| d_reconnect: "d_reach d \<Longrightarrow> i < length (d_loops d) \<Longrightarrow> d_reach (loop_in (reconnect_step env tick) i d)"
| d_keepalive: "d_reach d \<Longrightarrow> i < length (d_loops d) \<Longrightarrow> d_reach (loop_in (keepalive_step env tick) i d)"

subsection \<open>What the network preparations leave alone\<close>

definition hosts_only :: "('w, 'v) Manager \<Rightarrow> ('w, 'v) Manager \<Rightarrow> bool" where
  "hosts_only m m' \<longleftrightarrow> (\<exists>h. m' = set_hosts h m)"

definition net_only :: "('w, 'v, 'c, 'd) daemon \<Rightarrow> ('w, 'v, 'c, 'd) daemon \<Rightarrow> bool" where
  "net_only d d' \<longleftrightarrow> hosts_only (d_vm d) (d_vm d') \<and>
     d_sup d' = d_sup d \<and> d_loops d' = d_loops d \<and> d_dns d' = d_dns d \<and> d_cache d' = d_cache d"

lemma set_hosts_set_hosts [simp]: "set_hosts h (set_hosts h' m) = set_hosts h m"
  by (simp add: set_hosts_def split: option.splits)

lemma set_hosts_same: "set_hosts (hosts_of m) m = m"
  by (simp add: set_hosts_def hosts_of_def split: option.splits)

lemma hosts_only_refl [simp, intro]: "hosts_only m m"
  unfolding hosts_only_def using set_hosts_same by metis

lemma hosts_only_trans [trans]: "hosts_only m m1 \<Longrightarrow> hosts_only m1 m2 \<Longrightarrow> hosts_only m m2"
  by (auto simp: hosts_only_def)

lemma hosts_only_set [simp, intro]: "hosts_only m (set_hosts h m)"
  by (auto simp: hosts_only_def)

lemma net_only_refl [simp, intro]: "net_only d d"
  by (simp add: net_only_def)

lemma net_only_trans: "net_only d d1 \<Longrightarrow> net_only d1 d2 \<Longrightarrow> net_only d d2"
  by (auto simp: net_only_def intro: hosts_only_trans)

lemma net_only_client [simp, intro]: "net_only d d1 \<Longrightarrow> net_only d (d1\<lparr>d_client := cl\<rparr>)"
  by (auto simp: net_only_def)

lemma net_only_vm: "net_only d d1 \<Longrightarrow> hosts_only (d_vm d1) m \<Longrightarrow> net_only d (d1\<lparr>d_vm := m\<rparr>)"
  by (auto simp: net_only_def intro: hosts_only_trans)

lemma net_only_frame:
  assumes "net_only d d'"
  shows "d_sup d' = d_sup d" "d_loops d' = d_loops d" "d_dns d' = d_dns d" "d_cache d' = d_cache d"
    "hosts_only (d_vm d) (d_vm d')"
  using assms by (auto simp: net_only_def)

lemma scoped_route_hosts [simp, intro]: "hosts_only m (scoped_route env h i m)"
  by (simp add: scoped_route_def)

lemma node_route_hosts [simp, intro]:
  "hosts_only m (ensureNodeAPIRoute env n i m)" "hosts_only m (ensureCorplinkNodeRoute env n i m)"
  by (simp_all add: ensureNodeAPIRoute_def ensureCorplinkNodeRoute_def)

lemma control_routes_hosts [simp, intro]: "hosts_only m (ensureControlPlaneRoutes env a i us m)"
proof -
  have "hosts_only x (ensureCorplinkAPIRoute env a i u x)" for x u
    by (simp add: ensureCorplinkAPIRoute_def split: option.splits)
  then show ?thesis
    by (auto simp: ensureControlPlaneRoutes_def intro: hosts_only_trans [OF hosts_only_set])
qed

lemma prepare_net: "net_only d (snd (prepareCorplinkControlPlane env d))"
  by (auto simp: prepareCorplinkControlPlane_def Let_def split: prod.splits intro!: net_only_vm)

lemma prepare_net': "prepareCorplinkControlPlane env d = (i, d') \<Longrightarrow> net_only d d'"
  using prepare_net by (metis snd_conv)

lemma configure_net: "net_only d (snd (connect_configure env n f d))"
proof -
  have "net_only d d'" if "prepareCorplinkControlPlane env (d\<lparr>d_client := cl\<rparr>) = (i, d')" for cl i d'
    using prepare_net' [OF that] net_only_trans net_only_client [OF net_only_refl] by blast
  then show ?thesis
    by (simp add: connect_configure_def split: prod.splits sum.splits)
qed

lemma connect_prepare_net: "net_only d (snd (connect_prepare env c n f d))"
proof -
  obtain i d1 where d1: "prepareCorplinkControlPlane env d = (i, d1)" by fastforce
  then have n1: "net_only d d1" by (rule prepare_net')
  then have "net_only d (snd (connect_configure env x f
      (d1\<lparr>d_client := cl, d_vm := ensureCorplinkNodeRoute (de_vpn env) x i (d_vm d1)\<rparr>)))" for x cl
    by (intro net_only_trans [OF _ configure_net] net_only_vm) simp_all
  with n1 show ?thesis
    by (simp add: connect_prepare_def d1 split: prod.splits sum.splits option.splits)
qed

lemma hosts_only_frame:
  assumes "hosts_only m m'"
  shows "GetStatus m' = GetStatus m" "active m' = active m" "m_cfg m' = m_cfg m" "m_inv m' = m_inv m"
    "m_wgDev m' = m_wgDev m" "reconnecting m' = reconnecting m"
proof -
  obtain h where h: "m' = set_hosts h m" using assms by (auto simp: hosts_only_def)
  show "GetStatus m' = GetStatus m" "active m' = active m" "m_cfg m' = m_cfg m" "m_wgDev m' = m_wgDev m"
    "reconnecting m' = reconnecting m"
    by (simp_all add: h GetStatus_def) (simp_all add: set_hosts_def split: option.splits)
  show "m_inv m' = m_inv m"
    by (cases "m_fwd m") (simp_all add: h m_inv_def res_none_def res_all_def fwd_agrees_def set_hosts_def)
qed

subsection \<open>Invariants of the daemon\<close>

text \<open>The operations of the daemon on the manager are those of \<open>m_reach\<close>, host routes and the configuration.\<close>

lemma m_inv_cfg [simp]: "m_inv (m\<lparr>m_cfg := c\<rparr>) = m_inv m" "m_inv (m\<lparr>m_state_file := f\<rparr>) = m_inv m"
  by (simp_all add: m_inv_def res_none_def res_all_def fwd_agrees_def)

lemma net_only_inv: "net_only d d' \<Longrightarrow> m_inv (d_vm d') = m_inv (d_vm d)"
  using net_only_frame(5) hosts_only_frame(4) by blast

lemma prepare_inv [simp]: "m_inv (d_vm (snd (prepareCorplinkControlPlane env d))) = m_inv (d_vm d)"
  using net_only_inv [OF prepare_net] .

lemma finish_inv: "m_inv (d_vm d) \<Longrightarrow> m_inv (d_vm (snd (connect_finish env p d)))"
  using Connect_inv [of "d_vm d" "de_vpn env" "node_Name (cd_node (fst p))" "snd p"]
  by (auto simp: connect_finish_def Let_def split: prod.splits option.splits)

lemma set_hosts_inv [simp]: "m_inv (set_hosts h m) = m_inv m"
  using hosts_only_frame(4) hosts_only_set by blast

lemma cleanupPersisted_inv [simp]: "m_inv (d_vm (cleanupPersistedRoutes env d)) = m_inv (d_vm d)"
  by (simp add: cleanupPersistedRoutes_def Let_def split: prod.splits)

lemma cleanupKnown_inv [simp]: "m_inv (d_vm (cleanupKnownHostRoutes env d)) = m_inv (d_vm d)"
  by (simp add: cleanupKnownHostRoutes_def Let_def)

lemma ping_all_net: "net_only d (snd (ping_all env i ns d))"
proof (induction ns arbitrary: d)
  case (Cons n ns)
  obtain lat cl where p: "PingNode (de_api env) n (d_client d) = (lat, cl)" by fastforce
  let ?d = "d\<lparr>d_client := cl, d_vm := ensureNodeAPIRoute (de_vpn env) n i (d_vm d)\<rparr>"
  have "net_only d ?d" by (intro net_only_vm) simp_all
  then have "net_only d (snd (ping_all env i ns ?d))" using Cons.IH net_only_trans by blast
  then show ?case by (simp add: p case_prod_beta)
qed simp

definition loop_ok :: "conn_loop \<Rightarrow> bool" where
  "loop_ok l \<longleftrightarrow> 0 \<le> attempts l \<and> attempts l \<le> maxAttempts"

definition d_inv :: "('w, 'v, 'c, 'd) daemon \<Rightarrow> bool" where
  "d_inv d \<longleftrightarrow> m_inv (d_vm d) \<and> list_all loop_ok (d_loops d)"

lemma net_only_d_inv: "net_only d d' \<Longrightarrow> d_inv d' = d_inv d"
  by (simp add: d_inv_def net_only_inv net_only_frame(2))

lemma d_inv_frame [simp]:
  "d_inv (d\<lparr>d_client := cl\<rparr>) = d_inv d" "d_inv (d\<lparr>d_cache := c\<rparr>) = d_inv d"
  "d_inv (d\<lparr>d_sup := s\<rparr>) = d_inv d" "d_inv (d\<lparr>d_shutdown := b\<rparr>) = d_inv d" "d_inv (d\<lparr>d_dns := n\<rparr>) = d_inv d"
  by (simp_all add: d_inv_def)

lemma d_inv_vm: "d_inv d \<Longrightarrow> m_inv m \<Longrightarrow> d_inv (d\<lparr>d_vm := m\<rparr>)"
  by (simp add: d_inv_def)

lemma prepare_d_inv: "d_inv (snd (prepareCorplinkControlPlane env d)) = d_inv d"
  using net_only_d_inv [OF prepare_net] .

lemma finish_d_inv:
  assumes "d_inv d"
  shows "d_inv (snd (connect_finish env p d))"
proof -
  have "d_loops (snd (connect_finish env p d)) = d_loops d"
    by (simp add: connect_finish_def Let_def split: prod.splits option.splits)
  then show ?thesis using assms finish_inv [of d env p] by (simp add: d_inv_def)
qed

lemma connectOnce_d_inv:
  assumes "d_inv d"
  shows "d_inv (snd (snd (connectVPNOnce env c n f d)))"
proof -
  obtain r d1 where p: "connect_prepare env c n f d = (r, d1)" by fastforce
  then have "d_inv d1" using assms net_only_d_inv [OF connect_prepare_net [of d env c n f]] by simp
  then have "d_inv (snd (connect_finish env x d1))" for x by (rule finish_d_inv)
  then show ?thesis
    using \<open>d_inv d1\<close> by (auto simp: connectVPNOnce_def p split: sum.splits prod.splits Response.splits) (metis snd_conv)+
qed

lemma handleConnect_d_inv:
  assumes "d_inv d"
  shows "d_inv (snd (handleConnect env n f d))"
proof -
  have "d_inv d1" if "connectVPNOnce env False n f d = (r, x, d1)" for r x d1
    using connectOnce_d_inv [OF assms, of env False n f] that by simp
  then show ?thesis
    by (simp add: handleConnect_def d_inv_def startConnectionLoops_def loop_ok_def split: prod.splits option.splits)
qed

lemma api_call_d_inv [simp]: "d_inv (snd (api_call f g d)) = d_inv d"
  by (simp add: api_call_def split: prod.splits option.splits)

lemma handle_ping_d_inv:
  assumes "d_inv d"
  shows "d_inv (snd (handle_ping env cmd d))"
proof -
  have prep: "d_inv d1" if "prepareCorplinkControlPlane env (d\<lparr>d_client := cl\<rparr>) = (i, d1)" for cl i d1
    using that assms prepare_d_inv [of env "d\<lparr>d_client := cl\<rparr>"] by simp
  have "d_inv d2" if "prepareCorplinkControlPlane env (d\<lparr>d_client := cl\<rparr>) = (i, d1)"
      "ping_all env i ns d1 = (dtos, d2)" for cl i d1 ns dtos d2
    using prep [OF that(1)] net_only_d_inv [OF ping_all_net [of d1 env i ns]] that(2) by simp
  then show ?thesis
    using assms by (auto simp: handle_ping_def simp del: ping_all.simps split: sum.splits prod.splits option.splits)
qed

lemma handle_reload_d_inv:
  assumes "d_inv d"
  shows "d_inv (snd (handle_reload_config env d))"
proof -
  have "m_inv m" if "UpdateSOCKS5 ve c ((d_vm d)\<lparr>m_cfg := u\<rparr>) = (e, m)" for ve c u e m
    using UpdateSOCKS5_inv [of "(d_vm d)\<lparr>m_cfg := u\<rparr>" ve c] that assms by (simp add: d_inv_def)
  then show ?thesis
    using assms by (auto simp: handle_reload_config_def Let_def d_inv_def split: sum.splits prod.splits option.splits)
qed

lemma handle_stop_d_inv:
  assumes "d_inv d"
  shows "d_inv (snd (handle_disconnect env d))" "d_inv (snd (handle_cleanup_routes env d))"
proof -
  have "m_inv (Manager_Disconnect (de_vpn env) (d_vm d))"
    using assms Disconnect_inv by (simp add: d_inv_def)
  then show "d_inv (snd (handle_disconnect env d))"
    using assms by (simp add: handle_disconnect_def d_inv_def)
  have "d_loops (cleanupKnownHostRoutes env (cleanupPersistedRoutes env x)) = d_loops x" for x
    by (simp add: cleanupKnownHostRoutes_def cleanupPersistedRoutes_def Let_def split: prod.splits)
  then show "d_inv (snd (handle_cleanup_routes env d))"
    using assms \<open>m_inv (Manager_Disconnect (de_vpn env) (d_vm d))\<close>
    by (simp add: handle_cleanup_routes_def d_inv_def)
qed

lemma if_d_inv: "d_inv (snd x) \<Longrightarrow> d_inv (snd y) \<Longrightarrow> d_inv (snd (if b then x else y))"
  by simp

lemma handle_action_d_inv:
  assumes "d_inv d"
  shows "d_inv (snd (handle_action env cmd d))"
proof -
  note sub = assms handleConnect_d_inv [OF assms] handle_ping_d_inv [OF assms] handle_reload_d_inv [OF assms]
    handle_stop_d_inv [OF assms]
  have "d_inv d'" if "api_call f g d = (r, d')" for f g r d'
    using that assms api_call_d_inv [of f g d] by simp
  moreover have "d_inv (d\<lparr>d_vm := SetFollowSplitRoutes v (d_vm d)\<rparr>)" for v
    using assms by (auto simp: d_inv_def intro: SetFollow_inv)
  ultimately show ?thesis
    unfolding handle_action_def handle_login_password_def Let_def
    by (intro if_d_inv) (simp_all add: sub split: prod.splits sum.splits Response.splits)
qed

lemma dispatch_d_inv: "d_inv d \<Longrightarrow> d_inv (snd (dispatchHandler env cmd d))"
  by (simp add: dispatchHandler_def handle_action_d_inv prepare_d_inv)

subsection \<open>Steps keep the invariant\<close>

lemma attempt_loop_ok:
  "loop_ok l \<Longrightarrow> attempts l' = attempts l \<Longrightarrow> loop_ok l'" "attempts l' = 0 \<Longrightarrow> loop_ok l'"
  by (simp_all add: loop_ok_def)

lemma reconnect_d_inv:
  assumes "d_inv d" "loop_ok l" "reconnect_step env tick (d, l) = (d', l')"
  shows "d_inv d' \<and> loop_ok l' \<and> d_loops d' = d_loops d"
proof (cases "rpc l")
  case R_Attempt
  let ?d = "snd (prepareCorplinkControlPlane env d)"
  let ?r = "connect_prepare env (ctx_done (d_sup d) (lp_ctx l)) (lp_nodeID l) (lp_follow l) ?d"
  have "net_only d (snd ?r)" using prepare_net connect_prepare_net net_only_trans by blast
  moreover have "d' = snd ?r" "attempts l' = attempts l"
    using assms(3) R_Attempt by (auto simp: reconnect_step_def Let_def split: prod.splits sum.splits)
  ultimately show ?thesis
    using assms(1,2) net_only_d_inv net_only_frame(2) by (auto simp: loop_ok_def)
next
  case (R_Connect details cc)
  have "d' = snd (connect_finish env (details, cc) d)" "attempts l' = attempts l"
    using assms(3) R_Connect by (auto simp: reconnect_step_def split: prod.splits Response.splits)
  moreover have "d_loops (snd (connect_finish env (details, cc) d)) = d_loops d"
    by (simp add: connect_finish_def Let_def split: prod.splits option.splits)
  ultimately show ?thesis using assms(1,2) finish_d_inv by (auto simp: loop_ok_def)
next
  case R_Dead
  then show ?thesis
    using assms IsConnectionDead_inv [of "d_vm d" "de_vpn env"]
    by (auto simp: reconnect_step_def d_inv_def loop_ok_def split: prod.splits)
next
  case R_Cleanup
  then show ?thesis
    using assms
    by (auto simp: reconnect_step_def d_inv_def loop_ok_def) (simp add: cleanupPersistedRoutes_def Let_def split: prod.splits)+
qed (use assms in \<open>auto simp: reconnect_step_def d_inv_def loop_ok_def SetReconnecting_def m_inv_frame(3) Let_def
       intro: Disconnect_inv split: if_splits\<close>)

lemma keepalive_d_inv:
  assumes "d_inv d" "loop_ok l" "keepalive_step env tick (d, l) = (d', l')"
  shows "d_inv d' \<and> loop_ok l' \<and> d_loops d' = d_loops d"
proof (cases "kpc l")
  case K_Report
  obtain i d1 where p: "prepareCorplinkControlPlane env d = (i, d1)" by fastforce
  let ?d = "d1\<lparr>d_vm := ensureNodeAPIRoute (de_vpn env) (lp_node l) i (d_vm d1)\<rparr>"
  have "net_only d ?d" by (intro net_only_vm prepare_net' [OF p]) simp
  moreover have "d' = ?d \<or> (\<exists>cl. d' = ?d\<lparr>d_client := cl\<rparr>)" "attempts l' = attempts l"
    using assms(3) K_Report
    by (auto simp: keepalive_step_def p Let_def split: prod.splits sum.splits option.splits if_splits)
  ultimately have "net_only d d'" "loop_ok l'" using assms(2) by (auto simp: loop_ok_def)
  then show ?thesis using assms(1) net_only_d_inv net_only_frame(2) by blast
qed (use assms in \<open>auto simp: keepalive_step_def d_inv_def loop_ok_def intro: UpdateSplit_inv split: if_splits\<close>)

lemma loop_in_d_inv:
  assumes "d_inv d" "i < length (d_loops d)"
    "\<And>d' l'. step (d, d_loops d ! i) = (d', l') \<Longrightarrow> d_inv d' \<and> loop_ok l' \<and> d_loops d' = d_loops d"
  shows "d_inv (loop_in step i d)"
proof -
  obtain d' l' where s: "step (d, d_loops d ! i) = (d', l')" by fastforce
  from assms(3) [OF this] assms(1,2) show ?thesis
    by (auto simp: loop_in_def s d_inv_def list_all_length nth_list_update)
qed

lemma d_reach_inv: "d_reach d \<Longrightarrow> d_inv d"
proof (induction rule: d_reach.induct)
  case (d_new cfg hosts fl cl dns)
  show ?case using m_reach_inv [OF m_new] by (simp add: d_inv_def new_daemon_def)
next
  case (d_cmd d env cmd)
  then show ?case using dispatch_d_inv by blast
next
  case (d_reconnect d i env tick)
  then have "loop_ok (d_loops d ! i)" by (simp add: d_inv_def list_all_length)
  then show ?case using d_reconnect reconnect_d_inv loop_in_d_inv by metis
next
  case (d_keepalive d i env tick)
  then have "loop_ok (d_loops d ! i)" by (simp add: d_inv_def list_all_length)
  then show ?case using d_keepalive keepalive_d_inv loop_in_d_inv by metis
qed

subsection \<open>Giving up\<close>

definition unreachable :: "('w, 'v, 'c, 'd) daemon_env \<Rightarrow> bool" where
  "unreachable env \<longleftrightarrow> (\<forall>cl. \<exists>e cl'. ListNodes (de_api env) cl = (Inl e, cl'))"

lemma prepare_unreachable:
  assumes "unreachable env"
  shows "\<exists>e. fst (connect_prepare env c n f d) = Inl e"
proof -
  obtain i d1 where p: "prepareCorplinkControlPlane env d = (i, d1)" by fastforce
  obtain e cl where "ListNodes (de_api env) (d_client d1) = (Inl e, cl)"
    using assms unfolding unreachable_def by blast
  then show ?thesis by (simp add: connect_prepare_def p)
qed

abbreviation run :: "('w, 'v, 'c, 'd) daemon_env \<Rightarrow> nat \<Rightarrow> ('w, 'v, 'c, 'd) daemon \<times> conn_loop \<Rightarrow>
    ('w, 'v, 'c, 'd) daemon \<times> conn_loop" where
  "run env n \<equiv> (reconnect_step env True ^^ n)"

lemma run_add: "run env (m + n) s = run env n (run env m s)"
  by (simp add: funpow_add add.commute [of m] )

text \<open>A loop between attempts: the tunnel is down, the connection current, \<open>k\<close> attempts were made.\<close>

definition trying :: "int \<Rightarrow> ('w, 'v, 'c, 'd) daemon \<times> conn_loop \<Rightarrow> bool" where
  "trying k s \<longleftrightarrow> rpc (snd s) = R_Wait \<and> attempts (snd s) = k \<and> lp_reconnecting (snd s) \<and>
     IsCurrent (d_sup (fst s)) (lp_gen (snd s)) \<and> \<not> Connected (m_status (d_vm (fst s))) \<and>
     res_none (d_vm (fst s))"

lemma hosts_only_down:
  "hosts_only m m' \<Longrightarrow> m_status m' = m_status m \<and> res_none m' = res_none m"
  by (auto simp: hosts_only_def res_none_def set_hosts_def split: option.splits)

lemma attempt_step:
  assumes "unreachable env" "rpc l = R_Attempt"
  shows "\<exists>d'. reconnect_step env True (d, l) = (d', l\<lparr>rpc := R_Wait\<rparr>) \<and> net_only d d'"
proof -
  let ?d = "snd (prepareCorplinkControlPlane env d)"
  let ?r = "connect_prepare env (ctx_done (d_sup d) (lp_ctx l)) (lp_nodeID l) (lp_follow l) ?d"
  obtain e where "fst ?r = Inl e" using prepare_unreachable [OF assms(1)] by blast
  moreover have "net_only d (snd ?r)" using prepare_net connect_prepare_net net_only_trans by blast
  ultimately show ?thesis
    using assms(2) by (cases ?r) (auto simp: reconnect_step_def Let_def)
qed

lemma decide_attempt:
  assumes "unreachable env" "rpc l = R_Decide" "attempts l = k" "k < 10" "IsCurrent (d_sup d) (lp_gen l)"
    "\<not> Connected (m_status (d_vm d))" "res_none (d_vm d)"
  shows "trying (k + 1) (run env 2 (d, l))"
proof -
  let ?l = "l\<lparr>lp_reconnecting := True, attempts := k + 1, rpc := R_Attempt\<rparr>"
  obtain d' where "reconnect_step env True (d, ?l) = (d', ?l\<lparr>rpc := R_Wait\<rparr>)" "net_only d d'"
    using attempt_step [OF assms(1), of ?l d] by auto
  moreover have "reconnect_step env True (d, l) = (d, ?l)"
    using assms(2-4) by (simp add: reconnect_step_def)
  ultimately show ?thesis
    using assms(5-7) net_only_frame [of d d'] hosts_only_down [of "d_vm d" "d_vm d'"]
    by (simp add: trying_def numeral_2_eq_2)
qed

lemma trying_to_decide:
  assumes "trying k s"
  shows "run env 3 s = (fst s, (snd s)\<lparr>rpc := R_Decide\<rparr>)"
  using assms by (cases s) (simp add: trying_def reconnect_step_def GetStatus_def numeral_3_eq_3)

lemma trying_round:
  assumes "unreachable env" "trying k s" "k < 10"
  shows "trying (k + 1) (run env 5 s)"
proof -
  have "run env 5 s = run env 2 (run env 3 s)" using run_add [of 3 2 env] by simp
  also have "\<dots> = run env 2 (fst s, (snd s)\<lparr>rpc := R_Decide\<rparr>)" by (simp only: trying_to_decide [OF assms(2)])
  finally show ?thesis
    using decide_attempt [OF assms(1), of "(snd s)\<lparr>rpc := R_Decide\<rparr>" k "fst s"] assms(2,3)
    by (simp add: trying_def)
qed

lemma trying_rounds:
  assumes "unreachable env" "trying k s"
  shows "k + int n \<le> 10 \<Longrightarrow> trying (k + int n) (run env (5 * n) s)"
proof (induction n)
  case (Suc n)
  then have "trying (k + int n) (run env (5 * n) s)" by simp
  then have "trying (k + int n + 1) (run env 5 (run env (5 * n) s))"
    using Suc.prems by (intro trying_round [OF assms(1)]) simp_all
  then show ?case using run_add [of "5 * n" 5 env] by (simp add: algebra_simps)
qed (use assms in simp)

definition gave_up :: "('w, 'v, 'c, 'd) daemon \<times> conn_loop \<Rightarrow> bool" where
  "gave_up s \<longleftrightarrow> rpc (snd s) = R_Exit \<and> attempts (snd s) = 10 \<and> \<not> Connected (GetStatus (d_vm (fst s))) \<and>
     \<not> reconnecting (d_vm (fst s)) \<and> res_none (d_vm (fst s))"

lemma trying_last:
  assumes "trying 10 s"
  shows "gave_up (run env 5 s)"
proof -
  have "run env 5 s = run env 2 (run env 3 s)" using run_add [of 3 2 env] by simp
  also have "\<dots> = run env 2 (fst s, (snd s)\<lparr>rpc := R_Decide\<rparr>)" by (simp only: trying_to_decide [OF assms])
  finally show ?thesis
    using assms
    by (simp add: gave_up_def trying_def reconnect_step_def GetStatus_def SetReconnecting_def res_none_def numeral_2_eq_2)
qed

lemma disconnect_down:
  "m_status (Manager_Disconnect env m) = no_status" "res_none (Manager_Disconnect env m)"
  using cleanup_none [of env m] by (simp_all add: Manager_Disconnect_def res_none_def)

lemma cleanupPersisted_frame [simp]:
  "d_sup (cleanupPersistedRoutes env d) = d_sup d" "m_status (d_vm (cleanupPersistedRoutes env d)) = m_status (d_vm d)"
  "res_none (d_vm (cleanupPersistedRoutes env d)) = res_none (d_vm d)"
  by (simp_all add: cleanupPersistedRoutes_def Let_def res_none_def set_hosts_def split: prod.splits option.splits)

lemma dead_to_decide:
  assumes "rpc l = R_Wait" "IsCurrent (d_sup d) (lp_gen l)" "Connected (m_status (d_vm d))"
    "fst (IsConnectionDead (de_vpn env) (d_vm d))"
  shows "\<exists>d'. run env 7 (d, l) = (d', l\<lparr>rpc := R_Decide\<rparr>) \<and> d_sup d' = d_sup d \<and>
    m_status (d_vm d') = no_status \<and> res_none (d_vm d')"
proof -
  obtain m where "IsConnectionDead (de_vpn env) (d_vm d) = (True, m)" using assms(4) by (metis prod.collapse eqTrueI)
  then show ?thesis
    using assms(1-3) by (simp add: reconnect_step_def GetStatus_def disconnect_down eval_nat_numeral)
qed

subsection \<open>Properties\<close>


text \<open>
  Property C12: when the tunnel is dead and the server cannot be reached, the reconnect loop ends: after
  ten attempts it exits, with the tunnel torn down and the status neither connected nor reconnecting.
\<close>

theorem reconnect_gives_up:
  assumes "unreachable env" "rpc l = R_Wait" "attempts l = 0" "IsCurrent (d_sup d) (lp_gen l)"
    "Connected (m_status (d_vm d))" "fst (IsConnectionDead (de_vpn env) (d_vm d))"
  shows "\<exists>n. gave_up (run env n (d, l))"
proof -
  obtain d' where d': "run env 7 (d, l) = (d', l\<lparr>rpc := R_Decide\<rparr>)" "d_sup d' = d_sup d"
    "m_status (d_vm d') = no_status" "res_none (d_vm d')"
    using dead_to_decide [OF assms(2,4,5,6)] by blast
  then have "trying 1 (run env 2 (d', l\<lparr>rpc := R_Decide\<rparr>))"
    using decide_attempt [OF assms(1), of "l\<lparr>rpc := R_Decide\<rparr>" 0 d'] assms(3,4) by (simp add: no_status_def)
  then have "trying 1 (run env 9 (d, l))" using d'(1) run_add [of 7 2 env] by simp
  then have "trying 10 (run env 45 (run env 9 (d, l)))" using trying_rounds [OF assms(1), of 1 _ 9] by simp
  then have "gave_up (run env 5 (run env 45 (run env 9 (d, l))))" by (rule trying_last)
  then show ?thesis by (metis run_add)
qed

text \<open>A system on which connecting succeeds, and one whose server does not answer.\<close>

definition up_cfg :: Config where
  "up_cfg = (DefaultConfig ''linux'')\<lparr>DNS := \<lparr>Upstream = [], Hijack = [], SystemHijack = False\<rparr>, Rules := [],
     DirectOutbound_Interface := ''en0''\<rparr>"

definition up_net :: net_env where
  "up_net = sample_env\<lparr>InterfaceByName := (\<lambda>n. Ok \<lparr>if_Index = 2, if_Name = n, FlagUp = True\<rparr>)\<rparr>"

definition up_ve :: "(unit, nat) vpn_env" where
  "up_ve = sample_ve\<lparr>ve_fw := sample_fe\<lparr>fe_net := up_net\<rparr>, geoip_Open := (\<lambda>p. Ok (\<lambda>ip. Err []))\<rparr>"

lemma and_then_ok:
  assumes "fst r = None \<and> P (snd r)" "\<And>s. P s \<Longrightarrow> fst (k s) = None \<and> Q (snd (k s))"
  shows "fst (and_then r k) = None \<and> Q (snd (and_then r k))"
  using assms by (cases r) (auto simp: and_then_def)

lemma add_capture_ok:
  assumes "\<And>c w. AddRoute r c w = (None, w)"
  shows "fst (add_capture r cs ms w) = None"
  by (induction cs arbitrary: ms) (simp_all add: add_capture.simps assms Let_def case_prod_beta split: option.splits)

lemma AddRoutes_ok:
  assumes "\<And>c w. AddRoute (router rm) c w = (None, w)"
  shows "fst (AddRoutes True rm pool extra w) = None"
  using add_capture_ok [of "router rm", OF assms]
  by (auto simp: AddRoutes_def save_def split: prod.splits option.splits) (metis fst_conv option.distinct(1))

lemma NewPool_default: "\<exists>p. NewPool ''198.18.0.0/15'' = Ok p"
proof -
  have "v4_cidr_string [198, 18, 0, 0] 15 = ''198.18.0.0/15''"
    by (simp add: v4_cidr_string_def v4_string_def Uitoa.simps digit_char_def string_eval)
  then have "ParseCIDR ''198.18.0.0/15'' = Some (v4InV6Prefix @ [198, 18, 0, 0], v4_net [198, 18, 0, 0] 15)"
    using ParseCIDR_v4 [of "[198, 18, 0, 0]" 15] by simp
  then show ?thesis
    using Mask_Size_v4 [of 15] by (simp add: NewPool_def v4_net_def length_4_ne Let_def)
qed

definition up_down :: "(unit, nat) Manager \<Rightarrow> bool" where
  "up_down m \<longleftrightarrow> m_cfg m = up_cfg \<and> m_fwd m = None"

lemma up_ve_simps:
  "geoip_Open up_ve p = Ok (\<lambda>ip. Err [])" "ve_wg up_ve = ve_wg sample_ve" "ve_fw up_ve = sample_fe\<lparr>fe_net := up_net\<rparr>"
  "tun_NewDevice up_ve c = Ok (tun_Name c)" "nic_error up_ve = None" "ve_write up_ve"
  "NewPlatformRouter up_ve = NewPlatformRouter sample_ve" "fe_net (sample_fe\<lparr>fe_net := n\<rparr>) = n"
  by (simp_all add: up_ve_def sample_ve_def)

lemma up_cfg_simps:
  "Rules up_cfg = []" "Upstream (DNS up_cfg) = []" "FakeIP_Pool up_cfg = ''198.18.0.0/15''"
  "DirectOutbound_Interface up_cfg = ''en0''" "\<not> Enabled (SOCKS5 up_cfg)" "\<not> SystemHijack (DNS up_cfg)"
  by (simp_all add: up_cfg_def DefaultConfig_def)

lemma up_start:
  assumes "up_down m"
  shows "fst (startLocked up_ve sample_cc m) = None"
proof -
  let ?F = "\<lambda>m :: (unit, nat) Manager. m_cfg m = up_cfg"
  have engine: "fst (start_engine up_ve m) = None \<and> up_down (snd (start_engine up_ve m))"
    using assms by (simp add: start_engine_def up_down_def up_cfg_simps up_ve_simps RuleStrings_def EnabledStrings_def NewEngine_def)
  have tunnel: "fst (start_tunnel up_ve sample_cc s) = None \<and> up_down (snd (start_tunnel up_ve sample_cc s))"
    if "up_down s" for s
    using that
    by (simp add: start_tunnel_def up_down_def up_ve_simps sample_ve_def sample_cc_def wg_New_def b64_DecodeString_def Let_def)
  have device: "fst (start_device up_ve s) = None \<and> up_down (snd (start_device up_ve s))" if "up_down s" for s
    using that by (simp add: start_device_def up_down_def up_ve_simps Let_def)
  obtain p where p: "NewPool ''198.18.0.0/15'' = Ok p" using NewPool_default by blast
  have fwd: "fst (start_forwarder up_ve sample_cc s) = None \<and> ?F (snd (start_forwarder up_ve sample_cc s))"
    if "up_down s" for s
    using that p
    by (simp add: start_forwarder_def up_down_def up_cfg_simps up_ve_simps up_net_def Let_def
        Init_def NewDirect_def split: prod.splits)
  have socks: "fst (startSOCKS5Locked up_ve s) = None \<and> ?F (snd (startSOCKS5Locked up_ve s))" if "?F s" for s
    using that by (simp add: startSOCKS5Locked_def socks_Start_def up_cfg_simps)
  have routes: "fst (start_routes up_ve s) = None \<and> True" for s
  proof (cases "m_fwd s")
    case (Some f)
    have "fst (AddRoutes True (NewRouteManager (NewPlatformRouter up_ve t) fl) pool extra w) = None" for t fl pool extra w
      by (rule AddRoutes_ok) (simp add: NewRouteManager_def load_def up_ve_simps sample_ve_def split: option.splits)
    then show ?thesis by (simp add: start_routes_def Some Let_def case_prod_beta up_ve_simps(6))
  qed (simp add: start_routes_def)
  have rules: "fst (start_rules sample_cc s) = None \<and> True" for s
    by (simp add: start_rules_def Let_def)
  note 1 = and_then_ok [where P = up_down and Q = up_down, OF engine tunnel]
  note 2 = and_then_ok [where P = up_down and Q = up_down, OF 1 device]
  note 3 = and_then_ok [where P = up_down and Q = ?F, OF 2 fwd]
  note 4 = and_then_ok [where P = ?F and Q = ?F, OF 3 socks]
  note 5 = and_then_ok [where P = ?F and Q = "\<lambda>_. True", OF 4 routes]
  note 6 = and_then_ok [where P = "\<lambda>_. True" and Q = "\<lambda>_. True", OF 5 rules]
  show ?thesis unfolding startLocked_def by (rule 6 [THEN conjunct1])
qed

definition sample_api :: "unit corplink_api" where
  "sample_api = \<lparr>DiscoverCompany = (\<lambda>c s. (None, s)), LoginMethods = (\<lambda>s. (Err ''offline'', s)),
     SendCode = (\<lambda>t a s. (None, s)), VerifyCode = (\<lambda>t a c s. (None, s)), LoginV1 = (\<lambda>a p s. (None, s)),
     LoginWithLDAPPassword = (\<lambda>a p s. (None, s)), LoginWithPassword = (\<lambda>a p s. (None, s)),
     GetQRCode = (\<lambda>s. (Err ''offline'', s)), PollQRLogin = (\<lambda>t s. (None, s)), Logout = (\<lambda>s. s),
     IsAuthenticated = (\<lambda>s. True), ListNodes = (\<lambda>s. (Err ''offline'', s)), PingNode = (\<lambda>n s. (9999, s)),
     GenerateKeyPair = (\<lambda>s. (Err ''offline'', s)), GetWGConfig = (\<lambda>n k s. (Err ''offline'', s)),
     ReportVPN = (\<lambda>n i k s. (Err ''offline'', s)), Session_Save = (\<lambda>s. s), Session_Server = (\<lambda>s. []),
     Configure = (\<lambda>c s. s), SetDialContext = (\<lambda>d s. s)\<rparr>"

definition sample_de :: "(unit, nat, unit, unit) daemon_env" where
  "sample_de = \<lparr>de_vpn = up_ve, de_api = sample_api, setupSystemDNS = (\<lambda>t i d. d), cleanupSystemDNS = (\<lambda>d. d),
     url_Hostname = (\<lambda>u. Some u), LookupHost = (\<lambda>r h. Err h), reloaded = Ok up_cfg\<rparr>"

definition sample_node :: VPNNode where
  "sample_node = \<lparr>node_ID = 4, node_Name = ''n4'', node_IP = ''203.0.113.4'', APIPort = 8443, VPNPort = 51820, node_ProtocolMode = 2\<rparr>"

definition sample_details :: connectDetails where
  "sample_details = \<lparr>cd_node = sample_node, cd_wgInfo = \<lparr>wi_VpnIP = Addr4 [10, 0, 0, 2], wi_ServerPublicKey = [],
     wi_MTU = 1400, wi_DNSServers = [], wi_SplitRoutes = [], wi_DomainSuffixes = [], wi_ProtocolMode = 2,
     wi_ServerEndpoint = ''203.0.113.4:51820''\<rparr>, cd_pubB64 = []\<rparr>"

definition sample_loop :: conn_loop where
  "sample_loop = startConnectionLoops 0 1 4 True sample_details"

text \<open>A tunnel connected at time 1 that never completed a handshake, seen at time 1000.\<close>

definition dead_daemon :: "(unit, nat, unit, unit) daemon" where
  "dead_daemon = (new_daemon ((New_Manager up_cfg sample_hosts None)\<lparr>active := True, m_wgDev := Some 7,
     m_status := no_status\<lparr>Connected := True, ConnectedAt := 1\<rparr>\<rparr>) () ())
     \<lparr>d_sup := snd (sup_Start new_supervisor), d_loops := [sample_loop]\<rparr>"


theorem reconnect_gives_up_witness: "\<exists>n. gave_up (run sample_de n (dead_daemon, sample_loop))"
proof (rule reconnect_gives_up)
  show "unreachable sample_de" by (simp add: unreachable_def sample_de_def sample_api_def)
  show "rpc sample_loop = R_Wait" "attempts sample_loop = 0"
    by (simp_all add: sample_loop_def startConnectionLoops_def)
  show "IsCurrent (d_sup dead_daemon) (lp_gen sample_loop)"
    by (simp add: dead_daemon_def sample_loop_def startConnectionLoops_def IsCurrent_def sup_defs)
  show "Connected (m_status (d_vm dead_daemon))" by (simp add: dead_daemon_def new_daemon_def)
  show "fst (IsConnectionDead (de_vpn sample_de) (d_vm dead_daemon))"
    by (simp add: IsConnectionDead_def dead_daemon_def new_daemon_def sample_de_def up_ve_def sample_ve_def GetStats_def
        zero_stats_def evaluateConnectionDead_def Split_def stats_line_def no_status_def string_eval)
qed


definition disconnect_cmd :: Cmd where
  "disconnect_cmd = \<lparr>cmd_Action = ''disconnect'', Company = [], CodeType = [], Account = [], Code = [], Password = [],
     Token = [], NodeID = 0, cmd_FollowSplitRoutes = False\<rparr>"


end
