(* ===== verification/Corplink_Session.thy ===== *)
theory Corplink_Session
  imports Daemon
begin

section \<open>The Corplink session (internal/corplink/session.go)\<close>

text \<open>
  The persisted session and its cookie jar. The session and the HTTP client hold references to jars and may
  come to hold different ones, so jars live in a store. The jar is the one of \<^verbatim>\<open>net/http/cookiejar\<close> without a
  public suffix list; a cookie that the server has expired is removed.
\<close>

subsection \<open>Cookies\<close>

record Cookie =
  ck_Name :: string
  ck_Value :: string
  ck_Domain :: string
  ck_Path :: string
  ck_Secure :: bool
  ck_expired :: bool

record URL =
  u_Scheme :: string
  u_Host :: string
  u_Path :: string
  u_Query :: "string \<Rightarrow> string"

record jar_entry =
  je_Name :: string
  je_Value :: string
  je_Domain :: string
  je_Path :: string
  je_Secure :: bool
  je_HostOnly :: bool

type_synonym jar = "jar_entry list"

definition hasDotSuffix :: "string \<Rightarrow> string \<Rightarrow> bool" where
  "hasDotSuffix s t = HasSuffix s (''.'' @ t)"

definition hasPort :: "string \<Rightarrow> bool" where
  "hasPort host =
     (let colons = length (filter (\<lambda>c. c = CHR '':'') host)
      in if colons = 0 then False
         else if colons = 1 then True
         else hd host = CHR ''['' \<and> Contains host '']:'')"

definition canonicalHost :: "string \<Rightarrow> string option" where
  "canonicalHost host =
     (if hasPort host then map_option (\<lambda>hp. ToLower (TrimSuffix (fst hp) ''.'')) (SplitHostPort host)
      else Some (ToLower (TrimSuffix host ''.'')))"

definition defaultPath :: "string \<Rightarrow> string" where
  "defaultPath p =
     (case p of
        [] \<Rightarrow> ''/''
      | c # _ \<Rightarrow>
          if c \<noteq> CHR ''/'' then ''/''
          else let d = rev (drop 1 (dropWhile (\<lambda>c. c \<noteq> CHR ''/'') (rev p))) in if d = [] then ''/'' else d)"

definition domainAndType :: "string \<Rightarrow> string \<Rightarrow> (string \<times> bool) option" where
  "domainAndType host domain =
     (if domain = [] then Some (host, True)
      else if ParseIP host \<noteq> [] then (if host \<noteq> domain then None else Some (host, True))
      else
        let d = (if hd domain = CHR ''.'' then tl domain else domain)
        in if d = [] \<or> hd d = CHR ''.'' then None
           else let d' = ToLower d
                in if last d' = CHR ''.'' then None
                   else if host \<noteq> d' \<and> \<not> hasDotSuffix host d' then None
                   else Some (d', False))"

definition new_jar_entry :: "string \<Rightarrow> string \<Rightarrow> Cookie \<Rightarrow> jar_entry option" where
  "new_jar_entry defPath host c =
     map_option (\<lambda>(d, hostOnly).
       \<lparr>je_Name = ck_Name c, je_Value = ck_Value c, je_Domain = d,
        je_Path = (if ck_Path c = [] \<or> hd (ck_Path c) \<noteq> CHR ''/'' then defPath else ck_Path c),
        je_Secure = ck_Secure c, je_HostOnly = hostOnly\<rparr>)
     (domainAndType host (ck_Domain c))"

definition same_id :: "jar_entry \<Rightarrow> jar_entry \<Rightarrow> bool" where
  "same_id a b \<longleftrightarrow> je_Domain a = je_Domain b \<and> je_Path a = je_Path b \<and> je_Name a = je_Name b"

fun put_entry :: "jar_entry \<Rightarrow> jar \<Rightarrow> jar" where
  "put_entry e [] = [e]"
| "put_entry e (x # xs) = (if same_id e x then e # xs else x # put_entry e xs)"

definition set_cookie :: "string \<Rightarrow> string \<Rightarrow> Cookie \<Rightarrow> jar \<Rightarrow> jar" where
  "set_cookie defPath host c j =
     (case new_jar_entry defPath host c of
        None \<Rightarrow> j
      | Some e \<Rightarrow> if ck_expired c then filter (\<lambda>x. \<not> same_id e x) j else put_entry e j)"

definition Jar_SetCookies :: "URL \<Rightarrow> Cookie list \<Rightarrow> jar \<Rightarrow> jar" where
  "Jar_SetCookies u cs j =
     (if cs = [] \<or> u_Scheme u \<noteq> ''http'' \<and> u_Scheme u \<noteq> ''https'' then j
      else case canonicalHost (u_Host u) of
             None \<Rightarrow> j
           | Some host \<Rightarrow> fold (set_cookie (defaultPath (u_Path u)) host) cs j)"

definition domainMatch :: "string \<Rightarrow> jar_entry \<Rightarrow> bool" where
  "domainMatch host e \<longleftrightarrow> je_Domain e = host \<or> \<not> je_HostOnly e \<and> hasDotSuffix host (je_Domain e)"

definition pathMatch :: "string \<Rightarrow> jar_entry \<Rightarrow> bool" where
  "pathMatch requestPath e =
     (if requestPath = je_Path e then True
      else HasPrefix requestPath (je_Path e) \<and>
           (last (je_Path e) = CHR ''/'' \<or> requestPath ! length (je_Path e) = CHR ''/''))"

text \<open>The cookies to send: name and value of the entries that match, longest path first, oldest first.\<close>

definition Jar_Cookies :: "URL \<Rightarrow> jar \<Rightarrow> (string \<times> string) list" where
  "Jar_Cookies u j =
     (if u_Scheme u \<noteq> ''http'' \<and> u_Scheme u \<noteq> ''https'' then []
      else case canonicalHost (u_Host u) of
             None \<Rightarrow> []
           | Some host \<Rightarrow>
               (let path = (if u_Path u = [] then ''/'' else u_Path u)
                in map (\<lambda>e. (je_Name e, je_Value e))
                     (sort_key (\<lambda>e. - int (length (je_Path e)))
                       (filter (\<lambda>e. domainMatch host e \<and> pathMatch path e \<and> (u_Scheme u = ''https'' \<or> \<not> je_Secure e)) j))))"

subsection \<open>The session\<close>

record SerialCookie =
  sc_Name :: string
  sc_Value :: string
  sc_Domain :: string
  sc_Path :: string

record saved_session =
  ss_CompanyName :: string
  ss_Server :: string
  ss_DeviceID :: string
  ss_DeviceName :: string
  ss_TOTPSecret :: string
  ss_Cookies :: "SerialCookie list"

record Session = saved_session +
  ses_jar :: nat

text \<open>
  The client with its session. \<open>'w\<close> is the network and the system, \<open>cl_file\<close> the session file as decoded
  from JSON; \<open>hc_\<close> are the fields of the current HTTP client.
\<close>

record 'w Client =
  cl_session :: Session
  cl_jars :: "nat \<Rightarrow> jar"
  cl_next :: nat
  cl_debugBody :: bool
  cl_insecureTLS :: bool
  cl_dialContext :: "Dialer option"
  cl_platform :: string
  cl_dateOffsetSec :: int
  hc_Jar :: nat
  hc_insecure :: bool
  hc_dial :: "Dialer option"
  cl_file :: "saved_session option"
  cl_world :: 'w

abbreviation session_jar :: "'w Client \<Rightarrow> jar" where
  "session_jar c \<equiv> cl_jars c (ses_jar (cl_session c))"

definition plain_cookie :: "string \<Rightarrow> string \<Rightarrow> string \<Rightarrow> string \<Rightarrow> Cookie" where
  "plain_cookie n v d p = \<lparr>ck_Name = n, ck_Value = v, ck_Domain = d, ck_Path = p, ck_Secure = False, ck_expired = False\<rparr>"

definition device_cookies :: "Session \<Rightarrow> Cookie list" where
  "device_cookies s =
     (if ss_DeviceID s \<noteq> [] then [plain_cookie ''device_id'' (ss_DeviceID s) [] ''/''] else []) @
     (if ss_DeviceName s \<noteq> [] then [plain_cookie ''device_name'' (ss_DeviceName s) [] ''/''] else [])"

definition rebuilt_jar :: "(string \<Rightarrow> URL option) \<Rightarrow> Session \<Rightarrow> jar" where
  "rebuilt_jar url_Parse s =
     (if ss_Server s = [] then []
      else case url_Parse (ss_Server s) of
             None \<Rightarrow> []
           | Some u \<Rightarrow>
               Jar_SetCookies u
                 (device_cookies s @ map (\<lambda>k. plain_cookie (sc_Name k) (sc_Value k) (sc_Domain k) (sc_Path k)) (ss_Cookies s)) [])"

text \<open>A new jar replaces the session's; the old one stays where the HTTP client may still hold it.\<close>

definition rebuildJar :: "(string \<Rightarrow> URL option) \<Rightarrow> 'w Client \<Rightarrow> 'w Client" where
  "rebuildJar url_Parse c =
     c\<lparr>cl_jars := (cl_jars c)(cl_next c := rebuilt_jar url_Parse (cl_session c)),
       cl_session := (cl_session c)\<lparr>ses_jar := cl_next c\<rparr>, cl_next := cl_next c + 1\<rparr>"

definition syncCookiesFromJar :: "(string \<Rightarrow> URL option) \<Rightarrow> 'w Client \<Rightarrow> 'w Client" where
  "syncCookiesFromJar url_Parse c =
     (let s = cl_session c
      in if ss_Server s = [] then c
         else case url_Parse (ss_Server s) of
                None \<Rightarrow> c
              | Some u \<Rightarrow>
                  c\<lparr>cl_session := s\<lparr>ss_Cookies :=
                      map (\<lambda>(n, v). \<lparr>sc_Name = n, sc_Value = v, sc_Domain = [], sc_Path = []\<rparr>) (Jar_Cookies u (session_jar c))\<rparr>\<rparr>)"

definition Session_save :: "(string \<Rightarrow> URL option) \<Rightarrow> ('w \<Rightarrow> string option) \<Rightarrow> 'w Client \<Rightarrow> string option \<times> 'w Client" where
  "Session_save url_Parse write_err c =
     (let c1 = syncCookiesFromJar url_Parse c
      in case write_err (cl_world c1) of
           Some e \<Rightarrow> (Some e, c1)
         | None \<Rightarrow> (None, c1\<lparr>cl_file := Some (saved_session.truncate (cl_session c1))\<rparr>))"

definition Session_IsAuthenticated :: "'w Client \<Rightarrow> bool" where
  "Session_IsAuthenticated c \<longleftrightarrow> ss_Server (cl_session c) \<noteq> [] \<and> ss_Cookies (cl_session c) \<noteq> []"

definition newUUID :: "byte list \<Rightarrow> string" where
  "newUUID rnd =
     (let b = rnd[6 := (rnd ! 6 AND 0x0f) OR 0x40, 8 := (rnd ! 8 AND 0x3f) OR 0x80]
      in hexString (take 4 b) @ ''-'' @ hexString (take 2 (drop 4 b)) @ ''-'' @ hexString (take 2 (drop 6 b)) @ ''-'' @
         hexString (take 2 (drop 8 b)) @ ''-'' @ hexString (drop 10 b))"

definition machineName :: "string option \<Rightarrow> string" where
  "machineName host = (case host of None \<Rightarrow> ''macOS-device'' | Some h \<Rightarrow> ''macOS-'' @ h)"

definition empty_session :: Session where
  "empty_session =
     \<lparr>ss_CompanyName = [], ss_Server = [], ss_DeviceID = [], ss_DeviceName = [], ss_TOTPSecret = [], ss_Cookies = [], ses_jar = 0\<rparr>"

text \<open>The session part of \<^verbatim>\<open>LoadSession\<close>: the file's fields, with the device fields filled in.\<close>

definition loaded_session :: "byte list \<Rightarrow> string option \<Rightarrow> saved_session option \<Rightarrow> Session" where
  "loaded_session rnd host f =
     (let s = (case f of None \<Rightarrow> empty_session | Some x \<Rightarrow> saved_session.extend x \<lparr>ses_jar = 0\<rparr>);
          s1 = (if ss_DeviceID s = [] then s\<lparr>ss_DeviceID := newUUID rnd\<rparr> else s)
      in if ss_DeviceName s1 = [] then s1\<lparr>ss_DeviceName := machineName host\<rparr> else s1)"

end
