(* ===== verification/Corplink.thy ===== *)
theory Corplink
  imports Corplink_Session
begin

section \<open>The Corplink client (internal/corplink/api.go, auth.go, vpn.go, totp.go)\<close>

text \<open>
  Requests, their logging, logging in and out, one-time passwords and the VPN requests. JSON texts are
  values of a datatype; the exchange with the server, the parser of URLs and the cryptographic functions are
  parameters. The operations make up a \<^typ>\<open>'c corplink_api\<close>, so that the daemon runs on this client.
\<close>

subsection \<open>JSON\<close>

datatype json = JNull | JBool bool | JInt int | JFloat string | JStr string | JArr "json list" | JObj "(string \<times> json) list"

text \<open>Decoding into a Go struct: the last field whose name matches up to case; missing and null leave the zero value.\<close>

definition json_field :: "string \<Rightarrow> json \<Rightarrow> json" where
  "json_field name v =
     (case v of
        JObj kvs \<Rightarrow> (case find (\<lambda>(k, x). EqualFold k name) (rev kvs) of Some (k, x) \<Rightarrow> x | None \<Rightarrow> JNull)
      | _ \<Rightarrow> JNull)"

fun dec_str :: "json \<Rightarrow> string option" where
  "dec_str JNull = Some []"
| "dec_str (JStr s) = Some s"
| "dec_str _ = None"

fun dec_int :: "json \<Rightarrow> int option" where
  "dec_int JNull = Some 0"
| "dec_int (JInt i) = Some i"
| "dec_int _ = None"

fun dec_bool :: "json \<Rightarrow> bool option" where
  "dec_bool JNull = Some False"
| "dec_bool (JBool b) = Some b"
| "dec_bool _ = None"

fun dec_list :: "(json \<Rightarrow> 'a option) \<Rightarrow> json \<Rightarrow> 'a list option" where
  "dec_list f JNull = Some []"
| "dec_list f (JArr xs) = those (map f xs)"
| "dec_list f _ = None"

definition dec_any :: "json \<Rightarrow> unit option" where
  "dec_any v = Some ()"

definition is_struct :: "json \<Rightarrow> bool" where
  "is_struct v = (case v of JNull \<Rightarrow> True | JObj _ \<Rightarrow> True | _ \<Rightarrow> False)"

definition dec_member :: "string \<Rightarrow> json \<Rightarrow> string option" where
  "dec_member name v = (if is_struct v then dec_str (json_field name v) else None)"

record 'a apiResp =
  resp_Code :: int
  resp_Action :: string
  resp_Message :: string
  resp_Data :: 'a

definition dec_resp :: "(json \<Rightarrow> 'a option) \<Rightarrow> json \<Rightarrow> 'a apiResp option" where
  "dec_resp dec v =
     (if \<not> is_struct v then None
      else case (dec_int (json_field ''code'' v), dec_str (json_field ''action'' v), dec_str (json_field ''message'' v), dec (json_field ''data'' v)) of
             (Some c, Some a, Some m, Some d) \<Rightarrow> Some \<lparr>resp_Code = c, resp_Action = a, resp_Message = m, resp_Data = d\<rparr>
           | _ \<Rightarrow> None)"

subsection \<open>Logging without secrets\<close>

definition sensitive_keys :: "string list" where
  "sensitive_keys =
     [''authorization'', ''code'', ''cookie'', ''cookies'', ''csrf-token'', ''jwt'', ''login-url'', ''password'', ''private-key'',
      ''public-key'', ''qr-token'', ''server-public-key'', ''set-cookie'', ''token'', ''totp-secret'', ''user-name'', ''vpn-ip'']"

definition sensitiveHTTPLogKey :: "string \<Rightarrow> bool" where
  "sensitiveHTTPLogKey key =
     (let k = ReplaceAllChar (ToLower (TrimSpace key)) (CHR ''_'') ''-''
      in if k \<in> set sensitive_keys then True
         else Contains k ''token'' \<or> Contains k ''secret'' \<or> Contains k ''cookie'')"

text \<open>
  The map is changed while it is iterated; whatever the order, sensitive entries are deleted, \<^verbatim>\<open>redacted\<close> is
  set if there was one, and the other children are redacted.
\<close>

fun redactJSONValue :: "json \<Rightarrow> json" where
  "redactJSONValue (JObj kvs) =
     (let kept = map (\<lambda>(k, v). (k, redactJSONValue v)) (filter (\<lambda>(k, v). \<not> sensitiveHTTPLogKey k) kvs)
      in JObj (if list_ex (\<lambda>(k, v). sensitiveHTTPLogKey k) kvs
               then (''redacted'', JStr ''[masked]'') # filter (\<lambda>(k, v). k \<noteq> ''redacted'') kept
               else kept))"
| "redactJSONValue (JArr vs) = JArr (map redactJSONValue vs)"
| "redactJSONValue v = v"

definition truncate_log :: "nat \<Rightarrow> string \<Rightarrow> string" where
  "truncate_log n s = (if n < length s then take n s @ map char_of [226 :: nat, 128, 166] else s)"

definition redactHTTPLogBody :: "(string \<Rightarrow> json option) \<Rightarrow> (json \<Rightarrow> string) \<Rightarrow> string \<Rightarrow> nat \<Rightarrow> string" where
  "redactHTTPLogBody unmarshal marshal body n =
     (case unmarshal body of
        None \<Rightarrow> ''<redacted non-json body>''
      | Some v \<Rightarrow> (let out = marshal (redactJSONValue v) in if n < length out then truncate_log n out else out))"

definition redactURLForLog :: "(string \<Rightarrow> URL option) \<Rightarrow> (URL \<Rightarrow> string) \<Rightarrow> string \<Rightarrow> string" where
  "redactURLForLog url_Parse url_String rawURL =
     (case url_Parse rawURL of
        None \<Rightarrow> ''<redacted-url>''
      | Some u \<Rightarrow> url_String (if u_Host u \<noteq> [] then u\<lparr>u_Host := ''<redacted-host>''\<rparr> else u))"

definition redactHostForLog :: "string \<Rightarrow> string" where
  "redactHostForLog host = (if host = [] then [] else ''<redacted-host>'')"

text \<open>
  \<^verbatim>\<open>ipv4LogPattern\<close>: four runs of one to three digits separated by dots, not adjacent to a word character. A
  shorter run of digits never matches where the whole run does not, so the match is found without
  backtracking.
\<close>

definition word_char :: "char \<Rightarrow> bool" where
  "word_char c \<longleftrightarrow> is_digit c \<or> upper_char c \<noteq> c \<or> lower_char c \<noteq> c \<or> c = CHR ''_''"

definition digit_run :: "string \<Rightarrow> (string \<times> string) option" where
  "digit_run s =
     (let d = takeWhile is_digit s in if 1 \<le> length d \<and> length d \<le> 3 then Some (d, drop (length d) s) else None)"

fun dotted_runs :: "nat \<Rightarrow> string \<Rightarrow> string option" where
  "dotted_runs 0 s =
     (case digit_run s of
        Some (_, r) \<Rightarrow> if r \<noteq> [] \<and> word_char (hd r) then None else Some r
      | None \<Rightarrow> None)"
| "dotted_runs (Suc n) s =
     (case digit_run s of
        Some (_, c # r) \<Rightarrow> if c = CHR ''.'' then dotted_runs n r else None
      | _ \<Rightarrow> None)"

lemma digit_run_shorter: "digit_run s = Some (d, r) \<Longrightarrow> length r < length s"
  by (cases s) (auto simp: digit_run_def Let_def split: if_splits)

lemma dotted_runs_shorter: "dotted_runs n s = Some r \<Longrightarrow> length r < length s"
proof (induction n s rule: dotted_runs.induct)
  case (1 s)
  then show ?case by (auto split: option.splits if_splits dest: digit_run_shorter)
next
  case (2 n s)
  then obtain d r' where d: "digit_run s = Some (d, CHR ''.'' # r')" "dotted_runs n r' = Some r"
    by (auto split: option.splits list.splits if_splits)
  then show ?case using 2(1) [OF d(1) refl refl refl d(2)] digit_run_shorter [OF d(1)] by simp
qed

function redact_ips :: "bool \<Rightarrow> string \<Rightarrow> string" where
  "redact_ips prev_word [] = []"
| "redact_ips prev_word (c # s) =
     (case (if prev_word then None else dotted_runs 3 (c # s)) of
        Some r \<Rightarrow> ''<redacted-ip>'' @ redact_ips True r
      | None \<Rightarrow> c # redact_ips (word_char c) s)"
  by pat_completeness auto
termination
  by (relation "measure (length \<circ> snd)") (auto split: if_splits dest: dotted_runs_shorter)

definition redactErrorForLog :: "(string \<Rightarrow> URL option) \<Rightarrow> (URL \<Rightarrow> string) \<Rightarrow> string \<Rightarrow> string \<Rightarrow> string" where
  "redactErrorForLog url_Parse url_String rawURL msg =
     redact_ips False
       (if rawURL \<noteq> [] then Join (Split msg rawURL) (redactURLForLog url_Parse url_String rawURL) else msg)"

subsection \<open>Requests\<close>

record request =
  rq_Method :: string
  rq_URL :: string
  rq_Headers :: "(string \<times> string) list"
  rq_Body :: "json option"

text \<open>
  A response: its status, the offset of the server's clock if the \<^verbatim>\<open>Date\<close> header can be read, its cookies, and
  its body, an error of reading it or a text that is JSON or not.
\<close>

record response =
  rs_Status :: int
  rs_DateOffset :: "int option"
  rs_Cookies :: "Cookie list"
  rs_Body :: "(string, json option) res"

text \<open>
  The parameters: \<open>ce_RoundTrip\<close> is the transport with its TLS and dialing settings, \<open>ce_write\<close> the error of
  writing the session file, \<open>ce_clock\<close> the time in nanoseconds, \<open>ce_sleep\<close> a wait of so many
  nanoseconds; \<open>feilian_cbc\<close> is the encryption under the fixed key of the vendor's client.
\<close>

record 'w corp_env =
  url_Parse :: "string \<Rightarrow> URL option"
  url_String :: "URL \<Rightarrow> string"
  ce_RoundTrip :: "bool \<Rightarrow> Dialer option \<Rightarrow> request \<Rightarrow> 'w \<Rightarrow> (string, response) res \<times> 'w"
  ce_write :: "'w \<Rightarrow> string option"
  ce_clock :: "'w \<Rightarrow> nat"
  ce_sleep :: "nat \<Rightarrow> 'w \<Rightarrow> 'w"
  sha256 :: "byte list \<Rightarrow> byte list"
  hmac_sha1 :: "byte list \<Rightarrow> byte list \<Rightarrow> byte list"
  base32_Decode :: "string \<Rightarrow> byte list option"
  feilian_cbc :: "byte list \<Rightarrow> byte list"
  GenerateKeyPair_of :: "'w \<Rightarrow> (string, string \<times> string) res \<times> 'w"

abbreviation (input) osQuery :: string where "osQuery \<equiv> ''os=Android&os_version=2''"
abbreviation (input) userAgent :: string where "userAgent \<equiv> ''CorpLink/201000 (GooglePixel; Android 10; en)''"
abbreviation (input) matchURL :: string where "matchURL \<equiv> ''https://corplink.volcengine.cn/api/match''"

definition Header_Set :: "string \<Rightarrow> string \<Rightarrow> (string \<times> string) list \<Rightarrow> (string \<times> string) list" where
  "Header_Set k v hs = filter (\<lambda>(k', v'). k' \<noteq> k) hs @ [(k, v)]"

definition newHTTPClientLocked :: "'w Client \<Rightarrow> 'w Client" where
  "newHTTPClientLocked c =
     c\<lparr>hc_Jar := ses_jar (cl_session c), hc_insecure := cl_insecureTLS c, hc_dial := cl_dialContext c\<rparr>"

definition Client_Configure :: "CorplinkConfig \<Rightarrow> 'w Client \<Rightarrow> 'w Client" where
  "Client_Configure cfg c =
     newHTTPClientLocked (c\<lparr>cl_insecureTLS := InsecureSkipVerify cfg, cl_debugBody := DebugHTTPBody cfg, cl_platform := Platform cfg\<rparr>)"

definition Client_SetDialContext :: "Dialer option \<Rightarrow> 'w Client \<Rightarrow> 'w Client" where
  "Client_SetDialContext dial c = newHTTPClientLocked (c\<lparr>cl_dialContext := dial\<rparr>)"

text \<open>The session's cookies are put into the header by hand, so that they reach the VPN nodes too.\<close>

definition cookie_headers :: "(string \<times> string) list \<Rightarrow> (string \<times> string) list" where
  "cookie_headers cookies =
     (if cookies = [] then []
      else
        let csrf = filter (\<lambda>(n, v). n = ''csrf-token'') cookies
        in (if csrf = [] then [] else [(''X-Csrf-Token'', snd (last csrf)), (''Csrf-Token'', snd (last csrf))]) @
           [(''Cookie'', Join (map (\<lambda>(n, v). n @ ''='' @ v) cookies) ''; '')])"

definition request_headers :: "'w corp_env \<Rightarrow> 'w Client \<Rightarrow> (string \<times> string) list" where
  "request_headers env c =
     [(''Content-Type'', ''application/json''), (''User-Agent'', userAgent)] @
     (if ss_Server (cl_session c) = [] then []
      else case url_Parse env (ss_Server (cl_session c)) of
             None \<Rightarrow> []
           | Some serverURL \<Rightarrow> cookie_headers (Jar_Cookies serverURL (session_jar c)))"

text \<open>The HTTP client adds the cookies of its own jar to those in the header and stores the ones it receives there.\<close>

definition add_jar_cookies :: "(string \<times> string) list \<Rightarrow> (string \<times> string) list \<Rightarrow> (string \<times> string) list" where
  "add_jar_cookies cookies hs =
     fold (\<lambda>(n, v) hs. case find (\<lambda>(k, x). k = ''Cookie'') hs of
                         None \<Rightarrow> Header_Set ''Cookie'' (n @ ''='' @ v) hs
                       | Some (k, x) \<Rightarrow> Header_Set ''Cookie'' (x @ ''; '' @ n @ ''='' @ v) hs) cookies hs"

definition httpClient_Do :: "'w corp_env \<Rightarrow> request \<Rightarrow> 'w Client \<Rightarrow> (string, response) res \<times> 'w Client" where
  "httpClient_Do env req c =
     (case url_Parse env (rq_URL req) of
        None \<Rightarrow> (Err ''parse url'', c)
      | Some u \<Rightarrow>
          let sent = req\<lparr>rq_Headers := add_jar_cookies (Jar_Cookies u (cl_jars c (hc_Jar c))) (rq_Headers req)\<rparr>
          in case ce_RoundTrip env (hc_insecure c) (hc_dial c) sent (cl_world c) of
               (Inl e, w) \<Rightarrow> (Err e, c\<lparr>cl_world := w\<rparr>)
             | (Inr rs, w) \<Rightarrow>
                 (Ok rs, c\<lparr>cl_world := w,
                           cl_jars := (cl_jars c)(hc_Jar c := Jar_SetCookies u (rs_Cookies rs) (cl_jars c (hc_Jar c)))\<rparr>))"

definition expired_code :: "json \<Rightarrow> string option" where
  "expired_code v =
     (if \<not> is_struct v then None
      else case (dec_int (json_field ''code'' v), dec_str (json_field ''message'' v)) of
             (Some code, Some m) \<Rightarrow> if code = 101 \<or> code = 10220002 then Some (''session expired: '' @ m) else None
           | _ \<Rightarrow> None)"

definition api_do ::
    "'w corp_env \<Rightarrow> string \<Rightarrow> string \<Rightarrow> json option \<Rightarrow> (json \<Rightarrow> 'a option) \<Rightarrow> 'w Client \<Rightarrow>
     (string, 'a apiResp) res \<times> 'w Client" where
  "api_do env meth rawURL body dec c =
     (case httpClient_Do env \<lparr>rq_Method = meth, rq_URL = rawURL, rq_Headers = request_headers env c, rq_Body = body\<rparr> c of
        (Inl e, c1) \<Rightarrow> (Err (redactErrorForLog (url_Parse env) (url_String env) rawURL e), c1)
      | (Inr rs, c1) \<Rightarrow>
          let c2 = (case rs_DateOffset rs of None \<Rightarrow> c1 | Some d \<Rightarrow> c1\<lparr>cl_dateOffsetSec := d\<rparr>)
          in case rs_Body rs of
               Inl e \<Rightarrow> (Err (''read response: '' @ e), c2)
             | Inr b \<Rightarrow>
                 if rs_Status rs \<noteq> 200 then (Err (''HTTP '' @ Itoa (rs_Status rs)), c2)
                 else case b of
                        None \<Rightarrow> (Err ''invalid character'', c2)
                      | Some v \<Rightarrow>
                          (case dec_resp dec v of
                             None \<Rightarrow> (Err ''cannot unmarshal'', c2)
                           | Some out \<Rightarrow>
                               (case expired_code v of
                                  Some e \<Rightarrow> (Err e, c2)
                                | None \<Rightarrow> (Ok out, c2))))"

definition IsSessionExpired :: "string option \<Rightarrow> bool" where
  "IsSessionExpired err = (case err of None \<Rightarrow> False | Some e \<Rightarrow> Contains e ''session expired'')"

definition apiURL :: "string \<Rightarrow> 'w Client \<Rightarrow> string" where
  "apiURL path c = ss_Server (cl_session c) @ path @ ''?'' @ osQuery"

definition api_post where
  "api_post env rawURL body dec c = api_do env ''POST'' rawURL (Some body) dec c"

definition api_get where
  "api_get env rawURL dec c = api_do env ''GET'' rawURL None dec c"

text \<open>The answer of a request, with the server's own error code turned into an error.\<close>

definition checked :: "string \<Rightarrow> (string, 'a apiResp) res \<times> 'w Client \<Rightarrow> (string, 'a) res \<times> 'w Client" where
  "checked what r =
     (case r of
        (Inl e, c) \<Rightarrow> (Err e, c)
      | (Inr resp, c) \<Rightarrow> (if resp_Code resp \<noteq> 0 then Err (what @ '': '' @ resp_Message resp) else Ok (resp_Data resp), c))"

definition CopySessionCookiesToURL :: "'w corp_env \<Rightarrow> string \<Rightarrow> 'w Client \<Rightarrow> 'w Client" where
  "CopySessionCookiesToURL env nodeBaseURL c =
     (if ss_Server (cl_session c) = [] then c
      else case (url_Parse env (ss_Server (cl_session c)), url_Parse env nodeBaseURL) of
             (Some serverURL, Some nodeURL) \<Rightarrow>
               (let cookies = Jar_Cookies serverURL (session_jar c)
                in if cookies = [] then c
                   else c\<lparr>cl_jars := (cl_jars c)(ses_jar (cl_session c) :=
                          Jar_SetCookies nodeURL (map (\<lambda>(n, v). plain_cookie n v [] ''/'') cookies) (session_jar c))\<rparr>)
           | _ \<Rightarrow> c)"

subsection \<open>Discovery and login methods\<close>

definition cl_DiscoverCompany :: "'w corp_env \<Rightarrow> string \<Rightarrow> 'w Client \<Rightarrow> string option \<times> 'w Client" where
  "cl_DiscoverCompany env code c =
     (case checked ''discover company'' (api_post env matchURL (JObj [(''code'', JStr code)]) (dec_member ''domain'') c) of
        (Inl e, c1) \<Rightarrow> (Some e, c1)
      | (Inr domain, c1) \<Rightarrow>
          if domain = [] then (Some ''discover company: empty domain in response'', c1)
          else let c2 = rebuildJar (url_Parse env) (c1\<lparr>cl_session := (cl_session c1)\<lparr>ss_Server := domain, ss_CompanyName := code\<rparr>\<rparr>)
               in (None, c2\<lparr>hc_Jar := ses_jar (cl_session c2)\<rparr>))"

record loginSetting =
  ls_LoginOrders :: "string list"
  ls_LoginAccount :: "string list"
  ls_ScanCodeLoginEnable :: bool
  ls_ScanCodeTps :: "string list"
  ls_LoginVerifyType :: "string list"
  ls_LoginEnableLDAP :: bool

definition dec_setting :: "json \<Rightarrow> loginSetting option" where
  "dec_setting v =
     (if \<not> is_struct v then None
      else case (dec_list dec_str (json_field ''login_orders'' v), dec_list dec_str (json_field ''login_account'' v),
                 dec_bool (json_field ''scan_code_login_enable'' v), dec_list dec_str (json_field ''scan_code_tps'' v),
                 dec_list dec_str (json_field ''login_verify_type'' v), dec_bool (json_field ''login_enable_ldap'' v)) of
             (Some a, Some b, Some x, Some d, Some e, Some f) \<Rightarrow>
               Some \<lparr>ls_LoginOrders = a, ls_LoginAccount = b, ls_ScanCodeLoginEnable = x, ls_ScanCodeTps = d,
                     ls_LoginVerifyType = e, ls_LoginEnableLDAP = f\<rparr>
           | _ \<Rightarrow> None)"

definition add_method :: "string \<Rightarrow> string list \<Rightarrow> string list" where
  "add_method m ms = (if m \<in> set ms then ms else ms @ [m])"

definition order_methods :: "loginSetting \<Rightarrow> string \<Rightarrow> string list \<Rightarrow> string list" where
  "order_methods d order ms =
     (let password = ''password'' \<in> set (ls_LoginVerifyType d)
      in if order = ''ldap'' then (if ls_LoginEnableLDAP d \<and> password then add_method ''password'' ms else ms)
         else if order = ''feilian'' \<or> order = ''feilian_v1'' \<or> order = ''mobile_auth'' then
           fold (\<lambda>acc ms. if acc = ''email'' then add_method ''email'' ms
                          else if acc = ''mobile'' then add_method ''mobile'' ms else ms)
             (ls_LoginAccount d) (if password then add_method ''password'' ms else ms)
         else if order = ''lark'' then add_method ''lark'' ms
         else ms)"

definition login_methods :: "loginSetting \<Rightarrow> string list" where
  "login_methods d =
     (let ms = fold (order_methods d) (ls_LoginOrders d) []
      in if ls_ScanCodeLoginEnable d then fold (\<lambda>tps ms. if tps = ''lark'' then add_method ''lark'' ms else ms) (ls_ScanCodeTps d) ms
         else ms)"

definition cl_LoginMethods :: "'w corp_env \<Rightarrow> 'w Client \<Rightarrow> (string, LoginMethodInfo) res \<times> 'w Client" where
  "cl_LoginMethods env c =
     (case checked ''login setting'' (api_get env (apiURL ''/api/login/setting'' c) dec_setting c) of
        (Inl e, c1) \<Rightarrow> (Err e, c1)
      | (Inr d, c1) \<Rightarrow>
          (Ok \<lparr>Methods = login_methods d, info_VerifyTypes = ls_LoginVerifyType d, info_LoginOrders = ls_LoginOrders d,
               info_LoginEnableLDAP = ls_LoginEnableLDAP d\<rparr>, c1))"

subsection \<open>One-time passwords\<close>

text \<open>\<open>PadLeft\<close> is the zero padding of \<^verbatim>\<open>%06d\<close>. The code reads four bytes of the digest; \<open>None\<close> is a read out of range.\<close>

definition pad6 :: "string \<Rightarrow> string" where
  "pad6 s = replicate (6 - length s) (CHR ''0'') @ s"

definition BE_bytes8 :: "64 word \<Rightarrow> byte list" where
  "BE_bytes8 w = map (\<lambda>i. ucast (drop_bit (8 * (7 - i)) w)) [0..<8]"

definition totp_truncate :: "byte list \<Rightarrow> 32 word option" where
  "totp_truncate h =
     (if h = [] then None
      else
        let offset = unat (last h AND 0x0f)
        in if offset + 3 < length h then
             Some (push_bit 24 (ucast (h ! offset) AND 0x7f) OR push_bit 16 (ucast (h ! (offset + 1))) OR
                   push_bit 8 (ucast (h ! (offset + 2))) OR ucast (h ! (offset + 3)))
           else None)"

definition totp_secret :: "string \<Rightarrow> string" where
  "totp_secret s =
     (let t = ToUpper (filter (\<lambda>c. c \<noteq> CHR '' '') s)
      in if length t mod 8 \<noteq> 0 then t @ replicate (8 - length t mod 8) (CHR ''='') else t)"

definition TOTPWithOffset :: "'w corp_env \<Rightarrow> string \<Rightarrow> int \<Rightarrow> 'w \<Rightarrow> (string, string) res option" where
  "TOTPWithOffset env secret offsetSec w =
     (case base32_Decode env (totp_secret secret) of
        None \<Rightarrow> Some (Err ''totp: decode secret'')
      | Some key \<Rightarrow>
          let counter = (word_of_int (int (ce_clock env w div 1000000000) + offsetSec) :: 64 word) div 30
          in map_option (\<lambda>code. Ok (pad6 (Uitoa (unat (code mod 1000000))))) (totp_truncate (hmac_sha1 env key (BE_bytes8 counter))))"

definition ExtractTOTPSecretFromURL :: "'w corp_env \<Rightarrow> string \<Rightarrow> string" where
  "ExtractTOTPSecretFromURL env uri =
     (case url_Parse env uri of
        None \<Rightarrow> []
      | Some u \<Rightarrow> if u_Scheme u \<noteq> ''otpauth'' then [] else u_Query u ''secret'')"

definition RequestOTP :: "'w corp_env \<Rightarrow> 'w Client \<Rightarrow> (string, string) res \<times> 'w Client" where
  "RequestOTP env c =
     checked ''request otp'' (api_post env (apiURL ''/api/v2/p/otp'' c) (JObj []) (dec_member ''url'') c)"

definition extractAndSaveTOTPSecret :: "'w corp_env \<Rightarrow> string \<Rightarrow> 'w Client \<Rightarrow> 'w Client" where
  "extractAndSaveTOTPSecret env loginURL c =
     (let secret0 = (if loginURL \<noteq> [] then ExtractTOTPSecretFromURL env loginURL else []);
          (secret, c1) = (if secret0 \<noteq> [] then (secret0, c)
                          else case RequestOTP env c of
                                 (Inl _, c1) \<Rightarrow> ([], c1)
                               | (Inr otpURL, c1) \<Rightarrow> (if otpURL \<noteq> [] then ExtractTOTPSecretFromURL env otpURL else [], c1))
      in if secret \<noteq> [] then c1\<lparr>cl_session := (cl_session c1)\<lparr>ss_TOTPSecret := secret\<rparr>\<rparr> else c1)"

subsection \<open>Logging in and out\<close>

definition string_bytes :: "string \<Rightarrow> byte list" where
  "string_bytes s = map (\<lambda>c. of_nat (of_char c)) s"

definition CorplinkLoginMethods :: "'w corp_env \<Rightarrow> string \<Rightarrow> 'w Client \<Rightarrow> (string, bool \<times> string list) res \<times> 'w Client" where
  "CorplinkLoginMethods env account c =
     checked ''lookup login methods''
       (api_post env (apiURL ''/api/lookup'' c) (JObj [(''forget_password'', JBool False), (''user_name'', JStr account)])
         (\<lambda>v. if \<not> is_struct v then None
              else case (dec_bool (json_field ''mfa'' v), dec_list dec_str (json_field ''auth'' v)) of
                     (Some m, Some a) \<Rightarrow> Some (m, a)
                   | _ \<Rightarrow> None) c)"

text \<open>The password as it is sent without LDAP.\<close>

definition sent_password :: "'w corp_env \<Rightarrow> string \<Rightarrow> string" where
  "sent_password env pw = (if length pw \<noteq> 64 then hexString (sha256 env (string_bytes pw)) else pw)"

definition loginWithPassword :: "'w corp_env \<Rightarrow> string \<Rightarrow> string \<Rightarrow> bool \<Rightarrow> 'w Client \<Rightarrow> string option \<times> 'w Client" where
  "loginWithPassword env account0 pw ldap c =
     (let account = TrimSpace account0;
          (prep, c1) =
            (if ldap then
               (case CorplinkLoginMethods env account c of
                  (Inl e, c1) \<Rightarrow> (Err e, c1)
                | (Inr (_, auth), c1) \<Rightarrow>
                    if ''password'' \<notin> set auth then (Err ''lookup login methods: password auth unavailable'', c1)
                    else (Ok [(''password'', JStr pw), (''user_name'', JStr account), (''platform'', JStr ''ldap'')], c1))
             else (Ok [(''password'', JStr (sent_password env pw)), (''user_name'', JStr account)], c))
      in case prep of
           Inl e \<Rightarrow> (Some e, c1)
         | Inr body \<Rightarrow>
             (case checked ''login'' (api_post env (apiURL ''/api/login'' c1) (JObj body) (dec_member ''url'') c1) of
                (Inl e, c2) \<Rightarrow> (Some e, c2)
              | (Inr u, c2) \<Rightarrow> (None, extractAndSaveTOTPSecret env u c2)))"

definition pkcs7Pad :: "byte list \<Rightarrow> nat \<Rightarrow> byte list" where
  "pkcs7Pad data blockSize =
     (let padding = blockSize - length data mod blockSize in data @ replicate padding (of_nat padding))"

definition feilianV1EncryptPassword :: "'w corp_env \<Rightarrow> string \<Rightarrow> string" where
  "feilianV1EncryptPassword env pw = hexString (feilian_cbc env (pkcs7Pad (string_bytes pw) 16))"

definition cl_LoginV1 :: "'w corp_env \<Rightarrow> string \<Rightarrow> string \<Rightarrow> 'w Client \<Rightarrow> string option \<times> 'w Client" where
  "cl_LoginV1 env account pw c =
     (case checked ''v1 login''
             (api_post env (apiURL ''/api/v1/login'' c @ ''&client_source=FeiLian'')
               (JObj [(''login_scene'', JStr ''feilian''), (''account_type'', JStr ''userid''), (''account'', JStr account),
                      (''password'', JStr (feilianV1EncryptPassword env pw))])
               (dec_member ''result'') c) of
        (Inl e, c1) \<Rightarrow> (Some e, c1)
      | (Inr result, c1) \<Rightarrow>
          if result \<noteq> ''success'' then (Some (''v1 login returned unexpected result: '' @ result), c1)
          else (None, extractAndSaveTOTPSecret env [] c1))"

definition cl_SendCode :: "'w corp_env \<Rightarrow> string \<Rightarrow> string \<Rightarrow> 'w Client \<Rightarrow> string option \<times> 'w Client" where
  "cl_SendCode env codeType account c =
     (case checked ''send code''
             (api_post env (apiURL ''/api/login/code/send'' c)
               (JObj [(''forget_password'', JBool False), (''code_type'', JStr codeType), (''user_name'', JStr account)]) dec_any c) of
        (Inl e, c1) \<Rightarrow> (Some e, c1)
      | (Inr _, c1) \<Rightarrow> (None, c1))"

definition cl_VerifyCode :: "'w corp_env \<Rightarrow> string \<Rightarrow> string \<Rightarrow> string \<Rightarrow> 'w Client \<Rightarrow> string option \<times> 'w Client" where
  "cl_VerifyCode env codeType account code c =
     (case checked ''verify code''
             (api_post env (apiURL ''/api/login/code/verify'' c)
               (JObj [(''forget_password'', JBool False), (''code_type'', JStr codeType), (''user_name'', JStr account), (''code'', JStr code)])
               (dec_member ''url'') c) of
        (Inl e, c1) \<Rightarrow> (Some e, c1)
      | (Inr u, c1) \<Rightarrow> (None, extractAndSaveTOTPSecret env u c1))"

definition cl_GetQRCode :: "'w corp_env \<Rightarrow> 'w Client \<Rightarrow> (string, string \<times> string) res \<times> 'w Client" where
  "cl_GetQRCode env c =
     (case checked ''get qr code''
             (api_get env (apiURL ''/api/tpslogin/link'' c)
               (dec_list (\<lambda>v. case (dec_member ''alias_key'' v, dec_member ''login_url'' v, dec_member ''token'' v) of
                                (Some _, Some u, Some t) \<Rightarrow> Some (u, t)
                              | _ \<Rightarrow> None)) c) of
        (Inl e, c1) \<Rightarrow> (Err e, c1)
      | (Inr [], c1) \<Rightarrow> (Err ''get qr code: no TPS items returned'', c1)
      | (Inr (item # _), c1) \<Rightarrow> (Ok item, c1))"

definition cl_Logout :: "'w corp_env \<Rightarrow> 'w Client \<Rightarrow> 'w Client" where
  "cl_Logout env c =
     (let c1 = snd (api_get env (apiURL ''/api/logout'' c @ ''&logout_all=false'') dec_any c)
      in rebuildJar (url_Parse env) (c1\<lparr>cl_session := (cl_session c1)\<lparr>ss_Cookies := [], ss_TOTPSecret := []\<rparr>\<rparr>))"

text \<open>
  The loop of \<^verbatim>\<open>PollQRLogin\<close>, which the daemon runs with a context that is never cancelled; \<open>k\<close> counts the
  requests. It is a partial function: that it returns is a property below.
\<close>

partial_function (option) poll_loop ::
    "'w corp_env \<Rightarrow> nat \<Rightarrow> string \<Rightarrow> nat \<Rightarrow> 'w Client \<Rightarrow> (string option \<times> nat \<times> 'w Client) option" where
  [code]: "poll_loop env deadline token k c =
     (if deadline < ce_clock env (cl_world c) then Some (Some ''QR login timed out after 3 minutes'', k, c)
      else
        let c1 = c\<lparr>cl_world := ce_sleep env 2000000000 (cl_world c)\<rparr>
        in case api_post env (apiURL ''/api/tpslogin/token/check'' c1) (JObj [(''token'', JStr token)]) (dec_member ''url'') c1 of
             (Inl _, c2) \<Rightarrow> poll_loop env deadline token (k + 1) c2
           | (Inr resp, c2) \<Rightarrow>
               if resp_Code resp = 0 then Some (None, k + 1, extractAndSaveTOTPSecret env (resp_Data resp) c2)
               else if resp_Code resp = 101 then poll_loop env deadline token (k + 1) c2
               else Some (Some (''qr login error: '' @ resp_Message resp), k + 1, c2))"

definition poll_qr :: "'w corp_env \<Rightarrow> string \<Rightarrow> 'w Client \<Rightarrow> (string option \<times> nat \<times> 'w Client) option" where
  "poll_qr env token c = poll_loop env (ce_clock env (cl_world c) + 180000000000) token 0 c"

definition cl_PollQRLogin :: "'w corp_env \<Rightarrow> string \<Rightarrow> 'w Client \<Rightarrow> string option \<times> 'w Client" where
  "cl_PollQRLogin env token c = (case the (poll_qr env token c) of (e, k, c') \<Rightarrow> (e, c'))"

subsection \<open>The VPN requests\<close>

definition dec_node :: "json \<Rightarrow> VPNNode option" where
  "dec_node v =
     (if \<not> is_struct v then None
      else case (dec_int (json_field ''id'' v), dec_str (json_field ''name'' v), dec_str (json_field ''ip'' v), dec_int (json_field ''api_port'' v),
                 dec_int (json_field ''vpn_port'' v), dec_int (json_field ''protocol_mode'' v), dec_int (json_field ''timeout'' v)) of
             (Some i, Some n, Some a, Some p, Some q, Some m, Some _) \<Rightarrow>
               Some \<lparr>node_ID = i, node_Name = n, node_IP = a, APIPort = p, VPNPort = q, node_ProtocolMode = m\<rparr>
           | _ \<Rightarrow> None)"

definition cl_ListNodes :: "'w corp_env \<Rightarrow> 'w Client \<Rightarrow> (string, VPNNode list) res \<times> 'w Client" where
  "cl_ListNodes env c = checked ''list nodes'' (api_get env (apiURL ''/api/vpn/list'' c) (dec_list dec_node) c)"

definition node_url :: "VPNNode \<Rightarrow> string" where
  "node_url n = ''https://'' @ node_IP n @ '':'' @ Itoa (APIPort n)"

text \<open>The request has a timeout of five seconds, which is part of the exchange.\<close>

definition cl_PingNode :: "'w corp_env \<Rightarrow> VPNNode \<Rightarrow> 'w Client \<Rightarrow> int \<times> 'w Client" where
  "cl_PingNode env node c =
     (let c1 = CopySessionCookiesToURL env (node_url node) c; start = ce_clock env (cl_world c1)
      in case api_get env (node_url node @ ''/vpn/ping?'' @ osQuery) dec_any c1 of
           (Inl _, c2) \<Rightarrow> (9999, c2)
         | (Inr _, c2) \<Rightarrow> (int ((ce_clock env (cl_world c2) - start) div 1000000), c2))"

record wgSetting =
  vs_MTU :: int
  vs_DNS :: string
  vs_DNSBackup :: string
  vs_DomainSplit :: "string list"
  vs_RouteSplit :: "string list"

record wgConnRespData =
  wr_IP :: string
  wr_PublicKey :: string
  wr_Setting :: wgSetting

definition dec_wgsetting :: "json \<Rightarrow> wgSetting option" where
  "dec_wgsetting v =
     (if \<not> is_struct v then None
      else case (dec_int (json_field ''vpn_mtu'' v), dec_str (json_field ''vpn_dns'' v), dec_str (json_field ''vpn_dns_backup'' v),
                 dec_list dec_str (json_field ''vpn_dns_domain_split'' v), dec_list dec_str (json_field ''vpn_route_split'' v)) of
             (Some m, Some a, Some b, Some ds, Some rs) \<Rightarrow>
               Some \<lparr>vs_MTU = m, vs_DNS = a, vs_DNSBackup = b, vs_DomainSplit = ds, vs_RouteSplit = rs\<rparr>
           | _ \<Rightarrow> None)"

definition dec_wgconn :: "json \<Rightarrow> wgConnRespData option" where
  "dec_wgconn v =
     (if \<not> is_struct v then None
      else case (dec_str (json_field ''ip'' v), dec_str (json_field ''public_key'' v), dec_wgsetting (json_field ''setting'' v)) of
             (Some i, Some k, Some s) \<Rightarrow> Some \<lparr>wr_IP = i, wr_PublicKey = k, wr_Setting = s\<rparr>
           | _ \<Rightarrow> None)"

text \<open>\<open>None\<close> is a one-time password read outside the digest, where Go would panic.\<close>

definition cl_GetWGConfig :: "'w corp_env \<Rightarrow> VPNNode \<Rightarrow> string \<Rightarrow> string \<Rightarrow> 'w Client \<Rightarrow> ((string, WGConnInfo) res \<times> 'w Client) option" where
  "cl_GetWGConfig env node pubB64 totpSecret c =
     (let c1 = CopySessionCookiesToURL env (node_url node) c
      in case (if totpSecret = [] then Some (Ok []) else TOTPWithOffset env totpSecret (cl_dateOffsetSec c1) (cl_world c1)) of
           None \<Rightarrow> None
         | Some (Inl e) \<Rightarrow> Some (Err (''totp: '' @ e), c1)
         | Some (Inr otp) \<Rightarrow>
             (case checked ''get wg config''
                     (api_post env (node_url node @ ''/vpn/conn?'' @ osQuery) (JObj [(''public_key'', JStr pubB64), (''otp'', JStr otp)]) dec_wgconn c1) of
                (Inl e, c2) \<Rightarrow> Some (Err e, c2)
              | (Inr d, c2) \<Rightarrow>
                  (case ParseAddr (wr_IP d) of
                     None \<Rightarrow> Some (Err (''parse vpn ip '' @ wr_IP d), c2)
                   | Some vpnIP \<Rightarrow>
                       Some (Ok \<lparr>wi_VpnIP = vpnIP, wi_ServerPublicKey = wr_PublicKey d, wi_MTU = vs_MTU (wr_Setting d),
                                 wi_DNSServers = List.map_filter ParseAddr (filter (\<lambda>s. s \<noteq> []) [vs_DNS (wr_Setting d), vs_DNSBackup (wr_Setting d)]),
                                 wi_SplitRoutes = vs_RouteSplit (wr_Setting d), wi_DomainSuffixes = vs_DomainSplit (wr_Setting d),
                                 wi_ProtocolMode = node_ProtocolMode node,
                                 wi_ServerEndpoint = node_IP node @ '':'' @ Itoa (VPNPort node)\<rparr>, c2))))"

definition cl_ReportVPN ::
    "'w corp_env \<Rightarrow> VPNNode \<Rightarrow> string \<Rightarrow> string \<Rightarrow> 'w Client \<Rightarrow> (string, (string list \<times> string list) option) res \<times> 'w Client" where
  "cl_ReportVPN env node vpnIP pubB64 c =
     (let c1 = CopySessionCookiesToURL env (node_url node) c
      in case api_post env (node_url node @ ''/vpn/report?'' @ osQuery)
                (JObj [(''ip'', JStr vpnIP), (''public_key'', JStr pubB64), (''mode'', JStr ''Split''), (''type'', JStr ''100'')]) dec_wgconn c1 of
           (Inl e, c2) \<Rightarrow> (Err e, c2)
         | (Inr resp, c2) \<Rightarrow>
             if resp_Code resp \<noteq> 0 then
               (if resp_Code resp = 1000 \<and> resp_Action resp = ''alert'' then Ok None
                else Err (''vpn report: '' @ resp_Message resp), c2)
             else (Ok (Some (vs_RouteSplit (wr_Setting (resp_Data resp)), vs_DomainSplit (wr_Setting (resp_Data resp)))), c2))"

subsection \<open>The client of the daemon\<close>

definition NewClientWithConfig :: "CorplinkConfig \<Rightarrow> Session \<Rightarrow> jar \<Rightarrow> saved_session option \<Rightarrow> 'w \<Rightarrow> 'w Client" where
  "NewClientWithConfig cfg s j f w =
     newHTTPClientLocked
       \<lparr>cl_session = s\<lparr>ses_jar := 0\<rparr>, cl_jars = (\<lambda>_. j), cl_next = 1, cl_debugBody = DebugHTTPBody cfg,
        cl_insecureTLS = InsecureSkipVerify cfg, cl_dialContext = None, cl_platform = Platform cfg, cl_dateOffsetSec = 0,
        hc_Jar = 0, hc_insecure = False, hc_dial = None, cl_file = f, cl_world = w\<rparr>"

definition NewManagerWithConfig ::
    "'w corp_env \<Rightarrow> byte list \<Rightarrow> string option \<Rightarrow> saved_session option \<Rightarrow> CorplinkConfig \<Rightarrow> 'w \<Rightarrow> 'w Client" where
  "NewManagerWithConfig env rnd host f cfg w =
     (let s = loaded_session rnd host f in NewClientWithConfig cfg s (rebuilt_jar (url_Parse env) s) f w)"

definition client_api :: "'w corp_env \<Rightarrow> 'w Client corplink_api" where
  "client_api env =
     \<lparr>DiscoverCompany = cl_DiscoverCompany env, LoginMethods = cl_LoginMethods env, SendCode = cl_SendCode env,
      VerifyCode = cl_VerifyCode env, LoginV1 = cl_LoginV1 env,
      LoginWithLDAPPassword = (\<lambda>a p. loginWithPassword env a p True),
      LoginWithPassword = (\<lambda>a p c. loginWithPassword env a p (cl_platform c = ''ldap'') c),
      GetQRCode = cl_GetQRCode env, PollQRLogin = cl_PollQRLogin env, Logout = cl_Logout env,
      IsAuthenticated = Session_IsAuthenticated, ListNodes = cl_ListNodes env, PingNode = cl_PingNode env,
      GenerateKeyPair = (\<lambda>c. case GenerateKeyPair_of env (cl_world c) of (r, w) \<Rightarrow> (r, c\<lparr>cl_world := w\<rparr>)),
      GetWGConfig = (\<lambda>n pub c. the (cl_GetWGConfig env n pub (ss_TOTPSecret (cl_session c)) c)),
      ReportVPN = cl_ReportVPN env,
      Session_Save = (\<lambda>c. snd (Session_save (url_Parse env) (ce_write env) c)),
      Session_Server = (\<lambda>c. ss_Server (cl_session c)), Configure = Client_Configure, SetDialContext = Client_SetDialContext\<rparr>"

subsection \<open>What the requests change\<close>

lemma httpClient_Do_keeps: "cl_session (snd (httpClient_Do env rq c)) = cl_session c"
  by (auto simp: httpClient_Do_def Let_def split: option.splits prod.splits sum.splits)

lemma httpClient_Do_world:
  "cl_world (snd (httpClient_Do env rq c)) = cl_world c \<or>
   (\<exists>i dl r. cl_world (snd (httpClient_Do env rq c)) = snd (ce_RoundTrip env i dl r (cl_world c)))"
proof (cases "url_Parse env (rq_URL rq)")
  case (Some u)
  let ?sent = "rq\<lparr>rq_Headers := add_jar_cookies (Jar_Cookies u (cl_jars c (hc_Jar c))) (rq_Headers rq)\<rparr>"
  have "cl_world (snd (httpClient_Do env rq c)) = snd (ce_RoundTrip env (hc_insecure c) (hc_dial c) ?sent (cl_world c))"
    using Some by (auto simp: httpClient_Do_def Let_def split: prod.splits sum.splits)
  then show ?thesis by blast
qed (simp add: httpClient_Do_def)

lemma api_do_client:
  "\<exists>rq d. snd (api_do env meth u body dec c) = (snd (httpClient_Do env rq c))\<lparr>cl_dateOffsetSec := d\<rparr>"
proof -
  let ?rq = "\<lparr>rq_Method = meth, rq_URL = u, rq_Headers = request_headers env c, rq_Body = body\<rparr>"
  obtain r c1 where h: "httpClient_Do env ?rq c = (r, c1)" by fastforce
  have self: "c1 = c1\<lparr>cl_dateOffsetSec := cl_dateOffsetSec c1\<rparr>" by simp
  have "\<exists>d. snd (api_do env meth u body dec c) = c1\<lparr>cl_dateOffsetSec := d\<rparr>"
  proof (cases r)
    case (Inl e)
    then have "snd (api_do env meth u body dec c) = c1" using h by (simp add: api_do_def)
    then show ?thesis using self by metis
  next
    case (Inr rs)
    have "snd (api_do env meth u body dec c) = (case rs_DateOffset rs of None \<Rightarrow> c1 | Some d \<Rightarrow> c1\<lparr>cl_dateOffsetSec := d\<rparr>)"
      using h Inr by (simp add: api_do_def Let_def split: sum.split option.split)
    also have "\<dots> = c1\<lparr>cl_dateOffsetSec := (case rs_DateOffset rs of None \<Rightarrow> cl_dateOffsetSec c1 | Some d \<Rightarrow> d)\<rparr>"
      by (simp split: option.split)
    finally show ?thesis by blast
  qed
  then show ?thesis using h by (metis snd_conv)
qed

lemma api_do_session [simp]: "cl_session (snd (api_do env meth u body dec c)) = cl_session c"
  using api_do_client [of env meth u body dec c] httpClient_Do_keeps by force

lemma api_do_world:
  "cl_world (snd (api_do env meth u body dec c)) = cl_world c \<or>
   (\<exists>i dl r. cl_world (snd (api_do env meth u body dec c)) = snd (ce_RoundTrip env i dl r (cl_world c)))"
proof -
  obtain rq d where "snd (api_do env meth u body dec c) = (snd (httpClient_Do env rq c))\<lparr>cl_dateOffsetSec := d\<rparr>"
    using api_do_client by blast
  then have "cl_world (snd (api_do env meth u body dec c)) = cl_world (snd (httpClient_Do env rq c))" by simp
  then show ?thesis using httpClient_Do_world [of env rq c] by simp
qed

subsection \<open>Polling\<close>

definition clock_laws :: "'w corp_env \<Rightarrow> bool" where
  "clock_laws env \<longleftrightarrow>
     (\<forall>n w. ce_clock env w + n \<le> ce_clock env (ce_sleep env n w)) \<and>
     (\<forall>i dl r w. ce_clock env w \<le> ce_clock env (snd (ce_RoundTrip env i dl r w)))"

lemma post_clock:
  assumes "clock_laws env"
  shows "ce_clock env (cl_world c) \<le> ce_clock env (cl_world (snd (api_post env u body dec c)))"
  using api_do_world [of env "''POST''" u "Some body" dec c] assms by (auto simp: api_post_def clock_laws_def)

lemma poll_loop_returns:
  "clock_laws env \<Longrightarrow> deadline < ce_clock env (cl_world c) + 2000000000 * m \<Longrightarrow>
   \<exists>e k' c'. poll_loop env deadline token k c = Some (e, k', c') \<and> k' \<le> k + m"
proof (induction m arbitrary: k c)
  case 0
  then show ?case by (subst poll_loop.simps) simp
next
  case (Suc m)
  let ?c1 = "c\<lparr>cl_world := ce_sleep env 2000000000 (cl_world c)\<rparr>"
  obtain r c2 where p: "api_post env (apiURL ''/api/tpslogin/token/check'' ?c1) (JObj [(''token'', JStr token)]) (dec_member ''url'') ?c1 = (r, c2)"
    by fastforce
  have "ce_clock env (cl_world c) + 2000000000 \<le> ce_clock env (cl_world ?c1)" using Suc.prems(1) by (simp add: clock_laws_def)
  also have "\<dots> \<le> ce_clock env (cl_world c2)"
    using post_clock [OF Suc.prems(1), of ?c1 "apiURL ''/api/tpslogin/token/check'' ?c1" "JObj [(''token'', JStr token)]" "dec_member ''url''"] p by simp
  finally have "deadline < ce_clock env (cl_world c2) + 2000000000 * m" using Suc.prems(2) by simp
  then obtain e k' c' where IH: "poll_loop env deadline token (k + 1) c2 = Some (e, k', c')" "k' \<le> k + 1 + m"
    using Suc.IH [OF Suc.prems(1)] by blast
  show ?case
  proof (cases "deadline < ce_clock env (cl_world c)")
    case True
    then show ?thesis by (subst poll_loop.simps) simp
  next
    case False
    then show ?thesis using IH p by (subst poll_loop.simps) (auto simp: Let_def split: sum.split)
  qed
qed

subsection \<open>Device cookies\<close>

definition http_url :: "URL \<Rightarrow> bool" where
  "http_url u \<longleftrightarrow> (u_Scheme u = ''http'' \<or> u_Scheme u = ''https'') \<and> canonicalHost (u_Host u) \<noteq> None \<and>
     (u_Path u = [] \<or> hd (u_Path u) = CHR ''/'')"

definition keeps_cookie :: "jar_entry \<Rightarrow> jar \<Rightarrow> bool" where
  "keeps_cookie e j \<longleftrightarrow> (\<exists>x\<in>set j. same_id e x \<and> \<not> je_Secure x)"

lemma same_id_props: "same_id e e" "same_id e x \<Longrightarrow> same_id x e" "same_id e x \<Longrightarrow> same_id x y \<Longrightarrow> same_id e y"
  by (auto simp: same_id_def)

lemma keeps_put: "keeps_cookie e j \<Longrightarrow> \<not> je_Secure y \<Longrightarrow> keeps_cookie e (put_entry y j)"
  by (induction y j rule: put_entry.induct) (auto simp: keeps_cookie_def same_id_def)

lemma put_keeps: "\<not> je_Secure e \<Longrightarrow> keeps_cookie e (put_entry e j)"
  by (induction e j rule: put_entry.induct) (auto simp: keeps_cookie_def same_id_def)

lemma plain_entry: "new_jar_entry dp host (plain_cookie n v d p) = Some y \<Longrightarrow> \<not> je_Secure y"
  by (auto simp: new_jar_entry_def plain_cookie_def)

lemma keeps_set: "keeps_cookie e j \<Longrightarrow> keeps_cookie e (set_cookie dp host (plain_cookie n v d p) j)"
  by (auto simp: set_cookie_def plain_cookie_def keeps_put dest: plain_entry [unfolded plain_cookie_def] split: option.splits)

lemma keeps_fold: "keeps_cookie e j \<Longrightarrow> keeps_cookie e (fold (set_cookie dp host) (map (\<lambda>k. plain_cookie (f k) (g k) (h k) (q k)) ks) j)"
  by (induction ks arbitrary: j) (simp_all add: keeps_set)

lemma sort_key_empty: "sort_key f xs = [] \<longleftrightarrow> xs = []"
  by (metis set_empty set_sort)

lemma device_cookie_sent:
  assumes u: "http_url u" and server: "ss_Server s \<noteq> []" "P (ss_Server s) = Some u" and dev: "ss_DeviceID s \<noteq> []"
  shows "Jar_Cookies u (rebuilt_jar P s) \<noteq> []"
proof -
  obtain host where h: "canonicalHost (u_Host u) = Some host" using u by (auto simp: http_url_def)
  let ?e = "\<lparr>je_Name = ''device_id'', je_Value = ss_DeviceID s, je_Domain = host, je_Path = ''/'', je_Secure = False, je_HostOnly = True\<rparr>"
  define rest where "rest = tl (device_cookies s) @ map (\<lambda>k. plain_cookie (sc_Name k) (sc_Value k) (sc_Domain k) (sc_Path k)) (ss_Cookies s)"
  let ?set = "set_cookie (defaultPath (u_Path u)) host"
  have dc: "device_cookies s = plain_cookie ''device_id'' (ss_DeviceID s) [] ''/'' # tl (device_cookies s)"
    using dev by (simp add: device_cookies_def)
  have tl: "tl (device_cookies s) = map (\<lambda>k. plain_cookie ''device_name'' (ss_DeviceName s) [] ''/'') (tl (device_cookies s))"
    using dev by (simp add: device_cookies_def)
  have jar: "rebuilt_jar P s = fold ?set rest (?set (plain_cookie ''device_id'' (ss_DeviceID s) [] ''/'') [])"
  proof -
    have "device_cookies s @ map (\<lambda>k. plain_cookie (sc_Name k) (sc_Value k) (sc_Domain k) (sc_Path k)) (ss_Cookies s) =
        plain_cookie ''device_id'' (ss_DeviceID s) [] ''/'' # rest"
      unfolding rest_def by (subst dc) simp
    then show ?thesis using u server h by (auto simp: rebuilt_jar_def Jar_SetCookies_def http_url_def)
  qed
  have "?set (plain_cookie ''device_id'' (ss_DeviceID s) [] ''/'') [] = [?e]"
    by (simp add: set_cookie_def new_jar_entry_def plain_cookie_def domainAndType_def)
  then have "keeps_cookie ?e (rebuilt_jar P s)"
    unfolding jar rest_def fold_append comp_apply
    by (subst tl) (intro keeps_fold, simp add: keeps_cookie_def same_id_def)
  then obtain x where x: "x \<in> set (rebuilt_jar P s)" "same_id ?e x" "\<not> je_Secure x" by (auto simp: keeps_cookie_def)
  have "domainMatch host x" using x(2) by (simp add: domainMatch_def same_id_def)
  moreover have "pathMatch (if u_Path u = [] then ''/'' else u_Path u) x"
  proof -
    have "je_Path x = ''/''" using x(2) by (simp add: same_id_def)
    then show ?thesis using u by (cases "u_Path u") (auto simp: pathMatch_def http_url_def HasPrefix_def)
  qed
  ultimately show ?thesis
    using u h x by (auto simp: Jar_Cookies_def http_url_def Let_def filter_empty_conv sort_key_empty)
qed

lemma saved_cookies:
  assumes "http_url u" "ss_Server (cl_session c) \<noteq> []" "url_Parse env (ss_Server (cl_session c)) = Some u" "ss_DeviceID (cl_session c) \<noteq> []"
  shows "Session_IsAuthenticated (snd (Session_save (url_Parse env) f (rebuildJar (url_Parse env) c)))"
proof -
  let ?c = "rebuildJar (url_Parse env) c"
  have s: "session_jar ?c = rebuilt_jar (url_Parse env) (cl_session c)" "ss_Server (cl_session ?c) = ss_Server (cl_session c)"
    by (simp_all add: rebuildJar_def)
  have "Jar_Cookies u (session_jar ?c) \<noteq> []" unfolding s(1) using device_cookie_sent [where P = "url_Parse env", OF assms(1,2,3,4)] .
  then have "Session_IsAuthenticated (syncCookiesFromJar (url_Parse env) ?c)"
    using assms(2,3) s(2) by (simp add: syncCookiesFromJar_def Session_IsAuthenticated_def Let_def)
  then show ?thesis by (auto simp: Session_save_def Session_IsAuthenticated_def Let_def split: option.splits)
qed

lemma prepare_session:
  "de_api denv = client_api env \<Longrightarrow>
   cl_session (d_client (snd (prepareCorplinkControlPlane denv d))) = cl_session (d_client d)"
proof -
  assume api: "de_api denv = client_api env"
  have set: "cl_session (SetDialContext (de_api denv) x c) = cl_session c" for x c
    by (simp add: api client_api_def Client_SetDialContext_def newHTTPClientLocked_def)
  have conf: "configureCorplinkClientNetwork denv cfg c = (p, x) \<Longrightarrow> cl_session x = cl_session c" for cfg c p x
    by (auto simp: configureCorplinkClientNetwork_def Let_def set split: prod.splits option.splits)
  then show ?thesis by (auto simp: prepareCorplinkControlPlane_def Let_def set split: prod.splits)
qed

lemma unat_mod_million: "unat ((x :: 32 word) mod 1000000) < 1000000"
  by (simp add: unat_mod_distrib)

lemma Uitoa_length: "n < 10 ^ Suc k \<Longrightarrow> length (Uitoa n) \<le> Suc k"
proof (induction n arbitrary: k rule: Uitoa.induct)
  case (1 n)
  show ?case
  proof (cases "n < 10")
    case False
    then obtain j where k: "k = Suc j" using 1(2) by (cases k) simp_all
    have "n div 10 < 10 ^ Suc j" using 1(2) k by (simp add: less_mult_imp_div_less mult.commute)
    then show ?thesis using 1(1) [OF False] False k by (subst Uitoa.simps) simp
  qed (simp add: Uitoa.simps)
qed

subsection \<open>Properties\<close>

primrec no_secrets :: "json \<Rightarrow> bool" where
  "no_secrets JNull = True"
| "no_secrets (JBool b) = True"
| "no_secrets (JInt i) = True"
| "no_secrets (JFloat s) = True"
| "no_secrets (JStr s) = True"
| "no_secrets (JArr vs) = list_all id (map no_secrets vs)"
| "no_secrets (JObj kvs) = list_all (\<lambda>(k, b). \<not> sensitiveHTTPLogKey k \<and> b) (map (map_prod id no_secrets) kvs)"

lemma no_secrets_simps [simp]:
  "no_secrets (JArr vs) \<longleftrightarrow> (\<forall>v\<in>set vs. no_secrets v)"
  "no_secrets (JObj kvs) \<longleftrightarrow> (\<forall>(k, v)\<in>set kvs. \<not> sensitiveHTTPLogKey k \<and> no_secrets v)"
  by (auto simp: list_all_iff)

declare no_secrets.simps(6,7) [simp del]

lemma redacted_key: "\<not> sensitiveHTTPLogKey ''redacted''"
  by code_simp

lemma redact_no_secrets: "no_secrets (redactJSONValue v)"
proof (induction v rule: redactJSONValue.induct)
  case (1 kvs)
  then show ?case by (auto simp: redacted_key Let_def)
qed auto

lemma redact_id: "no_secrets v \<Longrightarrow> redactJSONValue v = v"
proof (induction v rule: redactJSONValue.induct)
  case (1 kvs)
  have keep: "filter (\<lambda>(k, v). \<not> sensitiveHTTPLogKey k) kvs = kvs" "\<not> list_ex (\<lambda>(k, v). sensitiveHTTPLogKey k) kvs"
    using 1(2) by (auto simp: filter_id_conv list_ex_iff)
  have "map (\<lambda>(k, v). (k, redactJSONValue v)) kvs = kvs"
    using 1 keep(1) by (intro map_idI) auto
  then show ?case using keep by simp
qed (auto intro!: map_idI)


text \<open>
  Property C21: polling for the scan of a QR code returns: provided that a wait takes at least as long as asked
  and the clock does not run backwards, it ends after at most 91 requests, whatever the server answers.
\<close>

theorem poll_returns:
  assumes "clock_laws env"
  shows "\<exists>e k c'. poll_qr env token c = Some (e, k, c') \<and> k \<le> 91"
  using poll_loop_returns [OF assms, of "ce_clock env (cl_world c) + 180000000000" c 91 token 0] by (simp add: poll_qr_def)

definition corp_sample_env :: "nat corp_env" where
  "corp_sample_env =
     \<lparr>url_Parse = (\<lambda>s. Some \<lparr>u_Scheme = ''https'', u_Host = ''corp.example'', u_Path = [], u_Query = (\<lambda>k. [])\<rparr>),
      url_String = u_Host, ce_RoundTrip = (\<lambda>i dl r w. (Err ''no route to host'', w + 1)), ce_write = (\<lambda>w. None), ce_clock = id,
      ce_sleep = (\<lambda>n w. w + n), sha256 = (\<lambda>b. replicate 32 0), hmac_sha1 = (\<lambda>k m. replicate 20 0xff),
      base32_Decode = (\<lambda>s. Some []), feilian_cbc = id, GenerateKeyPair_of = (\<lambda>w. (Err ''none'', w))\<rparr>"

definition sample_client :: "nat Client" where
  "sample_client =
     NewManagerWithConfig corp_sample_env (replicate 16 0) None
       (Some \<lparr>ss_CompanyName = ''acme'', ss_Server = ''https://corp.example'', ss_DeviceID = ''d'', ss_DeviceName = ''m'',
              ss_TOTPSecret = [], ss_Cookies = []\<rparr>)
       \<lparr>CompanyName = ''acme'', Platform = [], InsecureSkipVerify = False, DebugHTTPBody = False\<rparr> 0"

theorem poll_returns_witness: "\<exists>e k c'. poll_qr corp_sample_env ''t'' sample_client = Some (e, k, c') \<and> k \<le> 91"
proof -
  have "clock_laws corp_sample_env" by (simp add: clock_laws_def corp_sample_env_def)
  then show ?thesis by (rule poll_returns)
qed

text \<open>
  A one-time password is six digits: when the digest has the twenty bytes of SHA-1, no read falls
  outside it, and the code is the truncated digest modulo a million.
\<close>

theorem totp_six_digits:
  assumes "\<And>k m. length (hmac_sha1 env k m) = 20" "base32_Decode env (totp_secret secret) = Some key"
  shows "\<exists>v code. totp_truncate (hmac_sha1 env key (BE_bytes8 (word_of_int (int (ce_clock env w div 1000000000) + offset) div 30))) = Some v \<and>
    TOTPWithOffset env secret offset w = Some (Ok code) \<and> length code = 6 \<and> list_all is_digit code \<and>
    digits_val 0 code = unat (v mod 1000000)"
proof -
  define h where "h = hmac_sha1 env key (BE_bytes8 (word_of_int (int (ce_clock env w div 1000000000) + offset) div 30))"
  have len: "length h = 20" unfolding h_def by (rule assms(1))
  then have ne: "h \<noteq> []" by auto
  have "unat (last h AND 0x0f) \<le> 15"
    using word_and_le1 [of "last h" "0x0f"] by (simp add: word_le_nat_alt)
  then obtain v where v: "totp_truncate h = Some v" using len ne by (simp add: totp_truncate_def Let_def)
  let ?n = "unat (v mod 1000000)"
  have l: "length (Uitoa ?n) \<le> 6" using Uitoa_length [of ?n 5] unat_mod_million [of v] by simp
  have t: "TOTPWithOffset env secret offset w = Some (Ok (pad6 (Uitoa ?n)))"
    using assms(2) v unfolding TOTPWithOffset_def h_def by (simp only: option.case Let_def option.map)
  have zeros: "digits_val 0 (replicate k (CHR ''0'')) = 0" for k
    by (induction k) (simp_all add: digits_val_def digit_val_def)
  have "length (pad6 (Uitoa ?n)) = 6" using l by (simp add: pad6_def)
  moreover have "list_all is_digit (pad6 (Uitoa ?n))"
    using Uitoa_digits [of ?n] by (auto simp: pad6_def list_all_iff is_digit_def)
  moreover have "digits_val 0 (pad6 (Uitoa ?n)) = ?n" by (simp add: pad6_def digits_val_append zeros)
  ultimately show ?thesis using t v unfolding h_def by blast
qed

theorem totp_six_digits_witness:
  "\<exists>v code. totp_truncate (hmac_sha1 corp_sample_env [] (BE_bytes8 (word_of_int (int (ce_clock corp_sample_env 5 div 1000000000) + 0) div 30))) = Some v \<and>
    TOTPWithOffset corp_sample_env ''abc'' 0 5 = Some (Ok code) \<and> length code = 6 \<and> list_all is_digit code \<and>
    digits_val 0 code = unat (v mod 1000000)"
  by (rule totp_six_digits) (simp_all add: corp_sample_env_def)

end
