(* ===== verification/Tcp_Bind.thy ===== *)
theory Tcp_Bind
  imports Go_Net "HOL-Library.Multiset"
begin

section \<open>WireGuard over TCP (wireguard-go/conn/bind\_tcp.go)\<close>

text \<open>
  The frames of the TCP transport, the goroutine that reads them, the receive function that hands packets
  to the device, and the table of connections. Buffers are addresses of a store, since what the
  device receives depends on no two packets in flight sharing one.
\<close>

subsection \<open>The length header\<close>

abbreviation (input) MaxSegmentSize :: nat where "MaxSegmentSize \<equiv> 65535"

definition reqLen_Len :: "byte list \<Rightarrow> int" where
  "reqLen_Len l = uint (l ! 0) + push_bit 8 (uint (l ! 1)) + push_bit 16 (uint (l ! 2)) + push_bit 24 (uint (l ! 3))"

definition reqLen_FromLen :: "int \<Rightarrow> byte list" where
  "reqLen_FromLen n =
     [of_int (n AND 0xff), of_int (drop_bit 8 n AND 0xff), of_int (drop_bit 16 n AND 0xff), of_int (drop_bit 24 n AND 0xff)]"

lemma int_and_255: "n AND 255 = n mod (256 :: int)"
  using take_bit_eq_mask [of 8 n] by (simp add: take_bit_eq_mod mask_eq_exp_minus_1)

lemma top_byte:
  assumes "0 \<le> n" "n < 2 ^ 32"
  shows "n div 16777216 mod 256 = n div (16777216 :: int)"
proof (rule mod_pos_pos_trivial)
  show "0 \<le> n div 16777216" using assms(1) by simp
  show "n div 16777216 < 256" using assms(2) by simp
qed

lemma four_digits:
  "n = a * 256 + r0 \<Longrightarrow> a = b * 256 + r1 \<Longrightarrow> b = c * 256 + r2 \<Longrightarrow>
   r0 + r1 * 256 + r2 * 65536 + c * 16777216 = (n :: int)"
  by simp

lemma Len_FromLen:
  assumes "0 \<le> n" "n < 2 ^ 32"
  shows "reqLen_Len (reqLen_FromLen n) = n"
proof -
  have "uint (of_int (m AND 255) :: byte) = m mod 256" for m :: int
    by (simp add: int_and_255 uint_word_ariths unsigned_of_int take_bit_eq_mod)
  then have "reqLen_Len (reqLen_FromLen n) = n mod 256 + (n div 256 mod 256) * 256 + (n div 65536 mod 256) * 65536 +
      (n div 16777216 mod 256) * 16777216"
    by (simp add: reqLen_Len_def reqLen_FromLen_def drop_bit_eq_div push_bit_eq_mult)
  also have "\<dots> = n mod 256 + (n div 256 mod 256) * 256 + (n div 65536 mod 256) * 65536 + n div 16777216 * 16777216"
    by (simp only: top_byte [OF assms])
  also have "\<dots> = n"
  proof (rule four_digits)
    have "n div 65536 = n div 256 div 256" "n div 16777216 = n div 65536 div 256"
      using zdiv_zmult2_eq [of 256 n 256] zdiv_zmult2_eq [of 256 n 65536] by simp_all
    then show "n div 256 = n div 65536 * 256 + n div 256 mod 256" "n div 65536 = n div 16777216 * 256 + n div 65536 mod 256"
      by (simp_all only: div_mult_mod_eq)
  qed (simp only: div_mult_mod_eq)
  finally show ?thesis .
qed

lemma length_FromLen [simp]: "length (reqLen_FromLen n) = 4"
  by (simp add: reqLen_FromLen_def)

subsection \<open>Sending and reading frames\<close>

definition tcp_frame :: "byte list \<Rightarrow> byte list" where
  "tcp_frame buf = reqLen_FromLen (int (length buf)) @ buf"

text \<open>
  What \<^verbatim>\<open>handleConn\<close> reads from a stream that ends: the packets, until a header or a body is cut short or a
  length exceeds the buffer. \<^verbatim>\<open>io.ReadFull\<close> returns either all the bytes asked for or an error.
\<close>

definition ReadFull :: "nat \<Rightarrow> byte list \<Rightarrow> (byte list \<times> byte list) option" where
  "ReadFull n s = (if n \<le> length s then Some (take n s, drop n s) else None)"

function read_packets :: "byte list \<Rightarrow> byte list list" where
  "read_packets s =
     (case ReadFull 4 s of
        None \<Rightarrow> []
      | Some (hdr, s1) \<Rightarrow>
          (let size = reqLen_Len hdr
           in if size < 0 \<or> int MaxSegmentSize < size then []
              else case ReadFull (nat size) s1 of
                     None \<Rightarrow> []
                   | Some (body, s2) \<Rightarrow> body # read_packets s2))"
  by pat_completeness auto
termination
  by (relation "measure length") (auto simp: ReadFull_def split: if_splits)

declare read_packets.simps [simp del]

lemma ReadFull_append: "length a = n \<Longrightarrow> ReadFull n (a @ b) = Some (a, b)"
  by (auto simp: ReadFull_def)

lemma read_packets_frame:
  assumes "length buf \<le> 65535"
  shows "read_packets (tcp_frame buf @ s) = buf # read_packets s"
proof -
  have "reqLen_Len (reqLen_FromLen (int (length buf))) = int (length buf)"
    using assms by (intro Len_FromLen) simp_all
  then show ?thesis
    using assms by (subst read_packets.simps) (simp add: tcp_frame_def ReadFull_append Let_def)
qed

lemma read_packets_frames:
  "list_all (\<lambda>b. length b \<le> 65535) bufs \<Longrightarrow> read_packets (concat (map tcp_frame bufs) @ s) = bufs @ read_packets s"
  by (induction bufs) (simp_all add: read_packets_frame)

lemma read_packets_bound: "list_all (\<lambda>b. length b \<le> 65535) (read_packets s)"
proof (induction s rule: read_packets.induct)
  case (1 s)
  show ?case
    using 1 by (subst read_packets.simps) (auto simp: Let_def ReadFull_def split: option.splits)
qed

subsection \<open>Buffers in flight\<close>

text \<open>
  Each connection has a reading goroutine. It takes a buffer from the pool, or a new one, reads a packet
  into it and puts the buffer into the channel; the receive function takes buffers from the channel,
  copies them out and returns them to the pool. \<open>sent\<close> and \<open>received\<close> record, for the statements only,
  the packets put into the channel and those handed to the device.
\<close>

datatype reader = Idle | Holding nat | Filled nat nat

record 'e tcp_recv =
  store :: "nat \<Rightarrow> byte list"
  next_buf :: nat
  pool :: "nat list"
  recvChan :: "(nat \<times> nat \<times> 'e) list"
  readers :: "(reader \<times> 'e) list"
  sent :: "(byte list \<times> 'e) list"
  received :: "(byte list \<times> 'e) list"

definition new_tcp_recv :: "'e list \<Rightarrow> 'e tcp_recv" where
  "new_tcp_recv eps =
     \<lparr>store = (\<lambda>a. replicate 65535 0), next_buf = 0, pool = [], recvChan = [], readers = map (Pair Idle) eps,
      sent = [], received = []\<rparr>"

definition put_reader :: "nat \<Rightarrow> reader \<Rightarrow> 'e tcp_recv \<Rightarrow> 'e tcp_recv" where
  "put_reader i r s = s\<lparr>readers := (readers s)[i := (r, snd (readers s ! i))]\<rparr>"

definition pool_get_old :: "nat \<Rightarrow> nat \<Rightarrow> 'e tcp_recv \<Rightarrow> 'e tcp_recv" where
  "pool_get_old i a s = put_reader i (Holding a) (s\<lparr>pool := remove1 a (pool s)\<rparr>)"

definition pool_get_new :: "nat \<Rightarrow> 'e tcp_recv \<Rightarrow> 'e tcp_recv" where
  "pool_get_new i s = put_reader i (Holding (next_buf s)) (s\<lparr>next_buf := next_buf s + 1\<rparr>)"

definition fill_buffer :: "nat \<Rightarrow> nat \<Rightarrow> byte list \<Rightarrow> 'e tcp_recv \<Rightarrow> 'e tcp_recv" where
  "fill_buffer i a pkt s =
     put_reader i (Filled a (length pkt)) (s\<lparr>store := (store s)(a := pkt @ drop (length pkt) (store s a))\<rparr>)"

definition chan_send :: "nat \<Rightarrow> nat \<Rightarrow> nat \<Rightarrow> 'e tcp_recv \<Rightarrow> 'e tcp_recv" where
  "chan_send i a n s =
     (let ep = snd (readers s ! i)
      in put_reader i Idle (s\<lparr>recvChan := recvChan s @ [(a, n, ep)], sent := sent s @ [(take n (store s a), ep)]\<rparr>))"

definition give_back :: "nat \<Rightarrow> nat \<Rightarrow> 'e tcp_recv \<Rightarrow> 'e tcp_recv" where
  "give_back i a s = put_reader i Idle (s\<lparr>pool := a # pool s\<rparr>)"

definition copyReceivedData :: "'e tcp_recv \<Rightarrow> 'e tcp_recv" where
  "copyReceivedData s =
     (case recvChan s of
        [] \<Rightarrow> s
      | (a, n, ep) # ch \<Rightarrow>
          s\<lparr>recvChan := ch, received := received s @ [(take n (store s a), ep)], pool := a # pool s\<rparr>)"

text \<open>The receive function fills as many of the \<open>k\<close> slots as there are packets waiting.\<close>

fun makeReceive :: "nat \<Rightarrow> 'e tcp_recv \<Rightarrow> 'e tcp_recv" where
  "makeReceive 0 s = s"
| "makeReceive (Suc k) s = (if recvChan s = [] then s else makeReceive k (copyReceivedData s))"

inductive tcp_step :: "'e tcp_recv \<Rightarrow> 'e tcp_recv \<Rightarrow> bool" where
  ts_reuse: "i < length (readers s) \<Longrightarrow> fst (readers s ! i) = Idle \<Longrightarrow> a \<in> set (pool s) \<Longrightarrow>
    tcp_step s (pool_get_old i a s)"
| ts_new: "i < length (readers s) \<Longrightarrow> fst (readers s ! i) = Idle \<Longrightarrow> tcp_step s (pool_get_new i s)"
| ts_fill: "i < length (readers s) \<Longrightarrow> fst (readers s ! i) = Holding a \<Longrightarrow> length pkt \<le> 65535 \<Longrightarrow>
    tcp_step s (fill_buffer i a pkt s)"
| ts_send: "i < length (readers s) \<Longrightarrow> fst (readers s ! i) = Filled a n \<Longrightarrow> length (recvChan s) < 1024 \<Longrightarrow>
    tcp_step s (chan_send i a n s)"
| ts_fail: "i < length (readers s) \<Longrightarrow> fst (readers s ! i) = Holding a \<or> fst (readers s ! i) = Filled a n \<Longrightarrow>
    tcp_step s (give_back i a s)"
| ts_receive: "tcp_step s (makeReceive k s)"

inductive_cases tcp_stepE: "tcp_step s s'"

inductive tcp_reach :: "'e list \<Rightarrow> 'e tcp_recv \<Rightarrow> bool" for eps where
  tr_new: "tcp_reach eps (new_tcp_recv eps)"
| tr_step: "tcp_reach eps s \<Longrightarrow> tcp_step s s' \<Longrightarrow> tcp_reach eps s'"

subsection \<open>No two packets share a buffer\<close>

fun held :: "reader \<Rightarrow> nat list" where
  "held Idle = []"
| "held (Holding a) = [a]"
| "held (Filled a n) = [a]"

definition all_held :: "'e tcp_recv \<Rightarrow> nat list" where
  "all_held s = concat (map (held \<circ> fst) (readers s))"

definition in_use :: "'e tcp_recv \<Rightarrow> nat list" where
  "in_use s = pool s @ map fst (recvChan s) @ all_held s"

definition waiting :: "'e tcp_recv \<Rightarrow> (byte list \<times> 'e) list" where
  "waiting s = map (\<lambda>(a, n, ep). (take n (store s a), ep)) (recvChan s)"

definition tcp_inv :: "'e tcp_recv \<Rightarrow> bool" where
  "tcp_inv s \<longleftrightarrow> distinct (in_use s) \<and> (\<forall>a\<in>set (in_use s). a < next_buf s) \<and> received s @ waiting s = sent s"

lemma held_update:
  assumes "i < length rs"
  shows "mset (concat (map (held \<circ> fst) (rs[i := (r, e)]))) + mset (held (fst (rs ! i))) =
    mset (concat (map (held \<circ> fst) rs)) + mset (held r)"
  using assms
proof (induction rs arbitrary: i)
  case (Cons x rs)
  then show ?case by (cases i) (auto simp: ac_simps)
qed simp

lemma in_use_put:
  assumes "i < length (readers s)"
  shows "mset (in_use (put_reader i r s)) + mset (held (fst (readers s ! i))) = mset (in_use s) + mset (held r)"
  using held_update [OF assms, of r "snd (readers s ! i)"]
  by (simp add: in_use_def all_held_def put_reader_def ac_simps)

lemma put_reader_frame [simp]:
  "store (put_reader i r s) = store s" "next_buf (put_reader i r s) = next_buf s" "pool (put_reader i r s) = pool s"
  "recvChan (put_reader i r s) = recvChan s" "sent (put_reader i r s) = sent s"
  "received (put_reader i r s) = received s" "waiting (put_reader i r s) = waiting s"
  by (simp_all add: put_reader_def waiting_def)

text \<open>A step that moves buffers around keeps the invariant.\<close>

lemma tcp_inv_mset:
  assumes "tcp_inv s" "mset (in_use s') = mset (in_use s)" "next_buf s' = next_buf s"
    "received s' @ waiting s' = sent s'"
  shows "tcp_inv s'"
  using assms mset_eq_imp_distinct_iff [OF assms(2)] mset_eq_setD [OF assms(2)] by (simp add: tcp_inv_def)

lemma held_not_waiting:
  assumes "tcp_inv s" "i < length (readers s)" "a \<in> set (held (fst (readers s ! i)))"
  shows "a \<notin> fst ` set (recvChan s)"
proof -
  have "a \<in> set (all_held s)" using assms(2,3) by (auto simp: all_held_def intro!: bexI [of _ "readers s ! i"])
  then show ?thesis using assms(1) by (auto simp: tcp_inv_def in_use_def)
qed

lemma reuse_inv:
  assumes "tcp_inv s" "i < length (readers s)" "fst (readers s ! i) = Idle" "a \<in> set (pool s)"
  shows "tcp_inv (pool_get_old i a s)"
proof (rule tcp_inv_mset [OF assms(1)])
  let ?s = "s\<lparr>pool := remove1 a (pool s)\<rparr>"
  have "mset (in_use (put_reader i (Holding a) ?s)) = add_mset a (mset (in_use ?s))"
    using in_use_put [of i ?s "Holding a"] assms(2,3) by simp
  also have "\<dots> = mset (in_use s)" using assms(4) by (simp add: in_use_def all_held_def)
  finally show "mset (in_use (pool_get_old i a s)) = mset (in_use s)" by (simp add: pool_get_old_def)
qed (use assms(1) in \<open>simp_all add: pool_get_old_def tcp_inv_def waiting_def\<close>)

lemma new_inv:
  assumes "tcp_inv s" "i < length (readers s)" "fst (readers s ! i) = Idle"
  shows "tcp_inv (pool_get_new i s)"
proof -
  let ?s = "s\<lparr>next_buf := next_buf s + 1\<rparr>"
  have "mset (in_use (pool_get_new i s)) = mset (next_buf s # in_use s)"
    using in_use_put [of i ?s "Holding (next_buf s)"] assms(2,3)
    by (simp add: pool_get_new_def) (simp add: in_use_def all_held_def)
  then have "distinct (in_use (pool_get_new i s)) = distinct (next_buf s # in_use s)"
    "set (in_use (pool_get_new i s)) = set (next_buf s # in_use s)"
    by (rule mset_eq_imp_distinct_iff, rule mset_eq_setD)
  moreover have "waiting ?s = waiting s" by (simp add: waiting_def)
  ultimately show ?thesis using assms(1) by (auto simp: tcp_inv_def pool_get_new_def)
qed

lemma fill_inv:
  assumes "tcp_inv s" "i < length (readers s)" "fst (readers s ! i) = Holding a"
  shows "tcp_inv (fill_buffer i a pkt s)"
proof (rule tcp_inv_mset [OF assms(1)])
  let ?s = "s\<lparr>store := (store s)(a := pkt @ drop (length pkt) (store s a))\<rparr>"
  have "mset (in_use (put_reader i (Filled a (length pkt)) ?s)) = mset (in_use ?s)"
    using in_use_put [of i ?s "Filled a (length pkt)"] assms(2,3) by simp
  then show "mset (in_use (fill_buffer i a pkt s)) = mset (in_use s)"
    by (simp add: fill_buffer_def) (simp add: in_use_def all_held_def)
  have "a \<notin> fst ` set (recvChan s)" using held_not_waiting [OF assms(1,2)] assms(3) by simp
  then have "waiting ?s = waiting s" by (force simp: waiting_def)
  then show "received (fill_buffer i a pkt s) @ waiting (fill_buffer i a pkt s) = sent (fill_buffer i a pkt s)"
    using assms(1) by (simp add: fill_buffer_def tcp_inv_def)
qed (simp add: fill_buffer_def)

lemma send_inv:
  assumes "tcp_inv s" "i < length (readers s)" "fst (readers s ! i) = Filled a n"
  shows "tcp_inv (chan_send i a n s)"
proof (rule tcp_inv_mset [OF assms(1)])
  let ?e = "snd (readers s ! i)"
  let ?s = "s\<lparr>recvChan := recvChan s @ [(a, n, ?e)], sent := sent s @ [(take n (store s a), ?e)]\<rparr>"
  have "mset (in_use (put_reader i Idle ?s)) + {#a#} = mset (in_use ?s)"
    using in_use_put [of i ?s Idle] assms(2,3) by simp
  also have "\<dots> = mset (in_use s) + {#a#}" by (simp add: in_use_def all_held_def)
  finally show "mset (in_use (chan_send i a n s)) = mset (in_use s)" by (simp add: chan_send_def Let_def)
  show "received (chan_send i a n s) @ waiting (chan_send i a n s) = sent (chan_send i a n s)"
    using assms(1) by (simp add: chan_send_def Let_def tcp_inv_def waiting_def)
qed (simp add: chan_send_def Let_def)

lemma give_back_inv:
  assumes "tcp_inv s" "i < length (readers s)" "held (fst (readers s ! i)) = [a]"
  shows "tcp_inv (give_back i a s)"
proof (rule tcp_inv_mset [OF assms(1)])
  let ?s = "s\<lparr>pool := a # pool s\<rparr>"
  have "mset (in_use (put_reader i Idle ?s)) + {#a#} = mset (in_use ?s)"
    using in_use_put [of i ?s Idle] assms(2,3) by simp
  also have "\<dots> = mset (in_use s) + {#a#}" by (simp add: in_use_def all_held_def)
  finally show "mset (in_use (give_back i a s)) = mset (in_use s)" by (simp add: give_back_def)
qed (use assms(1) in \<open>simp_all add: give_back_def tcp_inv_def waiting_def\<close>)

lemma copy_inv: "tcp_inv s \<Longrightarrow> tcp_inv (copyReceivedData s)"
proof (cases "recvChan s")
  case (Cons x ch)
  assume inv: "tcp_inv s"
  obtain a n ep where x: "x = (a, n, ep)" using prod_cases3 by blast
  show ?thesis
    using inv Cons x
    by (intro tcp_inv_mset [OF inv])
       (simp_all add: copyReceivedData_def in_use_def all_held_def waiting_def tcp_inv_def)
qed (simp add: copyReceivedData_def)

lemma receive_inv: "tcp_inv s \<Longrightarrow> tcp_inv (makeReceive k s)"
  by (induction k s rule: makeReceive.induct) (simp_all add: copy_inv)

lemma tcp_step_inv: "tcp_step s s' \<Longrightarrow> tcp_inv s \<Longrightarrow> tcp_inv s'"
  by (erule tcp_stepE) (auto simp: reuse_inv new_inv fill_inv send_inv receive_inv intro!: give_back_inv)

lemma tcp_reach_inv: "tcp_reach eps s \<Longrightarrow> tcp_inv s"
proof (induction rule: tcp_reach.induct)
  case tr_new
  have "all_held (new_tcp_recv eps) = []" by (induction eps) (simp_all add: all_held_def new_tcp_recv_def)
  then show ?case by (simp add: tcp_inv_def in_use_def waiting_def) (simp add: new_tcp_recv_def)
qed (simp add: tcp_step_inv)

subsection \<open>The table of connections\<close>

text \<open>
  Connections are numbered. The map is \<open>None\<close> where the Go map is nil; \<open>closedConns\<close> are the connections
  on which \<^verbatim>\<open>Close\<close> was called, \<open>wire\<close> what was written to each.
\<close>

record tcp_table =
  tcpConnMap :: "(string \<rightharpoonup> nat) option"
  tb_closed :: bool
  tb_listening :: bool
  next_conn :: nat
  closedConns :: "nat set"
  wire :: "nat \<Rightarrow> byte list"

definition new_table :: tcp_table where
  "new_table = \<lparr>tcpConnMap = None, tb_closed = False, tb_listening = False, next_conn = 0, closedConns = {}, wire = (\<lambda>c. [])\<rparr>"

definition close_conn :: "nat \<Rightarrow> tcp_table \<Rightarrow> tcp_table" where
  "close_conn c t = t\<lparr>closedConns := insert c (closedConns t)\<rparr>"

definition loadConn :: "string \<Rightarrow> tcp_table \<Rightarrow> nat option" where
  "loadConn ep t = (if tb_closed t then None else case tcpConnMap t of None \<Rightarrow> None | Some m \<Rightarrow> m ep)"

definition storeConn :: "string \<Rightarrow> nat \<Rightarrow> tcp_table \<Rightarrow> tcp_table" where
  "storeConn ep c t =
     (if tb_closed t then close_conn c t
      else
        let m = (case tcpConnMap t of None \<Rightarrow> Map.empty | Some m \<Rightarrow> m);
            t1 = (case m ep of Some old \<Rightarrow> if old \<noteq> c then close_conn old t else t | None \<Rightarrow> t)
        in t1\<lparr>tcpConnMap := Some (m(ep \<mapsto> c))\<rparr>)"

definition deleteConn :: "string \<Rightarrow> nat \<Rightarrow> tcp_table \<Rightarrow> tcp_table" where
  "deleteConn ep c t =
     (case tcpConnMap t of
        None \<Rightarrow> t
      | Some m \<Rightarrow> if m ep = Some c then t\<lparr>tcpConnMap := Some (m(ep := None))\<rparr> else t)"

text \<open>The end of a reading goroutine and a failed write both remove the connection and close it.\<close>

definition drop_conn :: "string \<Rightarrow> nat \<Rightarrow> tcp_table \<Rightarrow> tcp_table" where
  "drop_conn ep c t = close_conn c (deleteConn ep c t)"

definition tcp_Open :: "bool \<Rightarrow> tcp_table \<Rightarrow> tcp_table" where
  "tcp_Open listen_ok t = t\<lparr>tcpConnMap := Some Map.empty, tb_closed := False, tb_listening := listen_ok\<rparr>"

definition tcp_Close :: "tcp_table \<Rightarrow> tcp_table" where
  "tcp_Close t =
     (if tb_closed t then t
      else t\<lparr>tb_closed := True, tcpConnMap := None, tb_listening := False,
             closedConns := closedConns t \<union> (case tcpConnMap t of None \<Rightarrow> {} | Some m \<Rightarrow> ran m)\<rparr>)"

text \<open>A new connection, dialed or accepted, before it is stored.\<close>

definition dial_conn :: "tcp_table \<Rightarrow> nat \<times> tcp_table" where
  "dial_conn t = (next_conn t, t\<lparr>next_conn := next_conn t + 1\<rparr>)"

definition getConn :: "string \<Rightarrow> (string, unit) res \<Rightarrow> tcp_table \<Rightarrow> (string, nat) res \<times> tcp_table" where
  "getConn ep dialed t =
     (case loadConn ep t of
        Some c \<Rightarrow> (Ok c, t)
      | None \<Rightarrow>
          if tb_closed t then (Err ''use of closed network connection'', t)
          else case dialed of
                 Inl e \<Rightarrow> (Err e, t)
               | Inr _ \<Rightarrow> (case dial_conn t of (c, t1) \<Rightarrow> (Ok c, storeConn ep c t1)))"

text \<open>
  \<^verbatim>\<open>Send\<close>: \<open>w k\<close> is what the k-th write of the call does, the number of bytes written and an error. Header
  and payload are one vectored write.
\<close>

fun send_frames ::
    "string \<Rightarrow> nat \<Rightarrow> (nat \<Rightarrow> nat \<times> string option) \<Rightarrow> nat \<Rightarrow> byte list list \<Rightarrow> tcp_table \<Rightarrow>
     string option \<times> tcp_table" where
  "send_frames ep c w k [] t = (None, t)"
| "send_frames ep c w k (buf # bufs) t =
     (case w k of
        (n, err) \<Rightarrow>
          let t1 = t\<lparr>wire := (wire t)(c := wire t c @ take n (tcp_frame buf))\<rparr>
          in if err \<noteq> None \<or> n \<noteq> 4 + length buf
             then (Some (case err of Some e \<Rightarrow> e | None \<Rightarrow> ''short write''), drop_conn ep c t1)
             else send_frames ep c w (k + 1) bufs t1)"

definition tcp_Send ::
    "string \<Rightarrow> (string, unit) res \<Rightarrow> (nat \<Rightarrow> nat \<times> string option) \<Rightarrow> byte list list \<Rightarrow> tcp_table \<Rightarrow>
     string option \<times> tcp_table" where
  "tcp_Send ep dialed w bufs t =
     (case getConn ep dialed t of
        (Inl e, t1) \<Rightarrow> (Some e, t1)
      | (Inr c, t1) \<Rightarrow> send_frames ep c w 0 bufs t1)"

inductive table_reach :: "nat set \<Rightarrow> tcp_table \<Rightarrow> bool" where
  tb_new: "table_reach {} new_table"
| tb_open: "table_reach P t \<Longrightarrow> tcpConnMap t = None \<or> tcpConnMap t = Some Map.empty \<Longrightarrow> table_reach P (tcp_Open ok t)"
| tb_close: "table_reach P t \<Longrightarrow> table_reach P (tcp_Close t)"
| tb_dial: "table_reach P t \<Longrightarrow> dial_conn t = (c, t') \<Longrightarrow> table_reach (insert c P) t'"
| tb_store: "table_reach P t \<Longrightarrow> c \<in> P \<Longrightarrow> table_reach (P - {c}) (storeConn ep c t)"
| tb_drop: "table_reach P t \<Longrightarrow> table_reach P (drop_conn ep c t)"
| tb_send: "table_reach P t \<Longrightarrow> table_reach P (snd (send_frames ep c w k bufs t))"

definition registered :: "tcp_table \<Rightarrow> nat set" where
  "registered t = (case tcpConnMap t of None \<Rightarrow> {} | Some m \<Rightarrow> ran m)"

definition table_inv :: "nat set \<Rightarrow> tcp_table \<Rightarrow> bool" where
  "table_inv P t \<longleftrightarrow> {..<next_conn t} \<subseteq> P \<union> registered t \<union> closedConns t \<and> (tb_closed t \<longrightarrow> tcpConnMap t = None)"

lemma deleteConn_registered: "registered t \<subseteq> insert c (registered (deleteConn ep c t))"
proof
  fix x
  assume "x \<in> registered t"
  then obtain m k where m: "tcpConnMap t = Some m" "m k = Some x"
    by (auto simp: registered_def ran_def split: option.splits)
  have "x = c \<or> k \<noteq> ep \<or> m ep \<noteq> Some c" using m by auto
  then show "x \<in> insert c (registered (deleteConn ep c t))"
    using m by (auto simp: registered_def deleteConn_def ran_def)
qed

lemma deleteConn_frame:
  "next_conn (deleteConn ep c t) = next_conn t" "closedConns (deleteConn ep c t) = closedConns t"
  "tb_closed (deleteConn ep c t) = tb_closed t" "tcpConnMap t = None \<Longrightarrow> tcpConnMap (deleteConn ep c t) = None"
  by (simp_all add: deleteConn_def split: option.splits)

lemma drop_inv:
  assumes "table_inv P t"
  shows "table_inv P (drop_conn ep c t)"
proof -
  have "registered (drop_conn ep c t) = registered (deleteConn ep c t)"
    by (simp add: drop_conn_def close_conn_def registered_def)
  then show ?thesis
    using assms deleteConn_registered [of t c ep]
    by (auto simp: table_inv_def drop_conn_def close_conn_def deleteConn_frame)
qed

lemma wire_inv: "table_inv P (t\<lparr>wire := x\<rparr>) = table_inv P t"
  by (simp add: table_inv_def registered_def)

lemma send_inv_table: "table_inv P t \<Longrightarrow> table_inv P (snd (send_frames ep c w k bufs t))"
  by (induction ep c w k bufs t rule: send_frames.induct) (auto simp: Let_def wire_inv intro: drop_inv split: prod.splits)

lemma store_inv:
  assumes "table_inv P t"
  shows "table_inv (P - {c}) (storeConn ep c t)"
proof (cases "tb_closed t")
  case True
  then show ?thesis using assms by (auto simp: table_inv_def storeConn_def close_conn_def registered_def)
next
  case False
  let ?m = "case tcpConnMap t of None \<Rightarrow> Map.empty | Some m \<Rightarrow> m"
  have "registered t = ran ?m" by (simp add: registered_def split: option.splits)
  then have "registered t \<subseteq> ran (?m(ep \<mapsto> c)) \<union> set_option (?m ep)" by (auto simp: ran_def)
  moreover have "registered (storeConn ep c t) = ran (?m(ep \<mapsto> c))" "c \<in> ran (?m(ep \<mapsto> c))"
    using False by (auto simp: storeConn_def registered_def Let_def ran_def)
  moreover have "closedConns (storeConn ep c t) = closedConns t \<union> (set_option (?m ep) - {c})"
    "next_conn (storeConn ep c t) = next_conn t" "\<not> tb_closed (storeConn ep c t)"
    using False by (auto simp: storeConn_def Let_def close_conn_def split: option.splits)
  ultimately show ?thesis using assms by (auto simp: table_inv_def)
qed

lemma close_inv: "table_inv P t \<Longrightarrow> table_inv P (tcp_Close t)"
  by (auto simp: table_inv_def tcp_Close_def registered_def split: option.splits)

lemma table_reach_inv: "table_reach P t \<Longrightarrow> table_inv P t"
proof (induction rule: table_reach.induct)
  case tb_new
  show ?case by (simp add: table_inv_def new_table_def)
next
  case (tb_open P t ok)
  then show ?case by (auto simp: table_inv_def tcp_Open_def registered_def)
next
  case (tb_dial P t c t')
  then show ?case by (auto simp: table_inv_def dial_conn_def registered_def less_Suc_eq)
qed (simp_all add: close_inv store_inv drop_inv send_inv_table)

lemma send_frames_wire:
  "send_frames ep c w k bufs t = (None, t') \<Longrightarrow> wire t' c = wire t c @ concat (map tcp_frame bufs)"
proof (induction ep c w k bufs t rule: send_frames.induct)
  case (2 ep c w k buf bufs t)
  then have "w k = (4 + length buf, None)" by (auto simp: Let_def split: prod.splits if_splits)
  with 2 show ?case by (auto simp: Let_def tcp_frame_def)
qed simp

subsection \<open>Properties\<close>





text \<open>
  No connection is lost: every connection that was dialed or accepted is waiting to be
  stored, registered, or closed; and when nothing is waiting, closing the bind closes all of them.
\<close>

theorem conns_accounted:
  assumes "table_reach P t" "c < next_conn t" "c \<notin> P"
  shows "c \<in> registered t \<union> closedConns t \<and> c \<in> closedConns (tcp_Close t)"
proof -
  have inv: "table_inv P t" using assms(1) by (rule table_reach_inv)
  then have 1: "c \<in> registered t \<union> closedConns t" using assms(2,3) by (auto simp: table_inv_def)
  have "c \<in> closedConns (tcp_Close t)"
    using 1 inv by (auto simp: tcp_Close_def registered_def table_inv_def split: option.splits)
  with 1 show ?thesis by blast
qed

theorem conns_accounted_witness:
  "0 \<in> closedConns (tcp_Close (storeConn ''h:1'' 0 (snd (dial_conn (tcp_Open True new_table)))))"
proof -
  have "table_reach {} (tcp_Open True new_table)" by (rule tb_open [OF tb_new]) (simp add: new_table_def)
  then have "table_reach (insert 0 {}) (snd (dial_conn (tcp_Open True new_table)))"
    by (rule tb_dial) (simp add: dial_conn_def tcp_Open_def new_table_def)
  from conns_accounted [OF tb_store [OF this, of 0 "''h:1''"], of 0] show ?thesis
    by (simp add: storeConn_def dial_conn_def tcp_Open_def new_table_def Let_def)
qed

end
