(* ===== verification/Noise_Messages.thy ===== *)
theory Noise_Messages
  imports Byte_Order
begin

section \<open>Keys, timestamps and messages of the handshake (wireguard-go/device, wireguard-go/tai64n)\<close>

text \<open>
  The primitives of \<^verbatim>\<open>golang.org/x/crypto\<close> are the fields of a record; the key derivation, the timestamps and the
  layout of the messages are defined over them as in \<^verbatim>\<open>noise-helpers.go\<close>, \<^verbatim>\<open>tai64n.go\<close> and
  \<^verbatim>\<open>noise-protocol.go\<close>. A fixed-size array is a list whose length the predicates \<open>wf_...\<close> state.
\<close>

subsection \<open>Primitives and key derivation\<close>

record noise_lib =
  blake2s_Sum256 :: "byte list \<Rightarrow> byte list"
  curve25519_ScalarMult :: "byte list \<Rightarrow> byte list \<Rightarrow> byte list"
  curve25519_ScalarBaseMult :: "byte list \<Rightarrow> byte list"
  aead_Seal :: "byte list \<Rightarrow> byte list \<Rightarrow> byte list \<Rightarrow> byte list \<Rightarrow> byte list"
  aead_Open :: "byte list \<Rightarrow> byte list \<Rightarrow> byte list \<Rightarrow> byte list \<Rightarrow> byte list option"

text \<open>
  \<^verbatim>\<open>crypto/hmac\<close> with the 64-byte blocks of BLAKE2s. A shorter key is padded with zeros, a longer one hashed first.
\<close>

definition hmac_key :: "noise_lib \<Rightarrow> byte list \<Rightarrow> byte list" where
  "hmac_key lib key =
     (let k = (if 64 < length key then blake2s_Sum256 lib key else key) in k @ replicate (64 - length k) 0)"

definition hmac :: "noise_lib \<Rightarrow> byte list \<Rightarrow> byte list \<Rightarrow> byte list" where
  "hmac lib key m =
     (let k = hmac_key lib key
      in blake2s_Sum256 lib (map (\<lambda>b. b XOR 0x5c) k @ blake2s_Sum256 lib (map (\<lambda>b. b XOR 0x36) k @ m)))"

definition HMAC1 :: "noise_lib \<Rightarrow> byte list \<Rightarrow> byte list \<Rightarrow> byte list" where
  "HMAC1 lib key in0 = hmac lib key in0"

definition HMAC2 :: "noise_lib \<Rightarrow> byte list \<Rightarrow> byte list \<Rightarrow> byte list \<Rightarrow> byte list" where
  "HMAC2 lib key in0 in1 = hmac lib key (in0 @ in1)"

definition KDF1 :: "noise_lib \<Rightarrow> byte list \<Rightarrow> byte list \<Rightarrow> byte list" where
  "KDF1 lib key input = HMAC1 lib (HMAC1 lib key input) [1]"

definition KDF2 :: "noise_lib \<Rightarrow> byte list \<Rightarrow> byte list \<Rightarrow> byte list \<times> byte list" where
  "KDF2 lib key input =
     (let prk = HMAC1 lib key input; t0 = HMAC1 lib prk [1]; t1 = HMAC2 lib prk t0 [2] in (t0, t1))"

definition KDF3 :: "noise_lib \<Rightarrow> byte list \<Rightarrow> byte list \<Rightarrow> byte list \<times> byte list \<times> byte list" where
  "KDF3 lib key input =
     (let prk = HMAC1 lib key input; t0 = HMAC1 lib prk [1]; t1 = HMAC2 lib prk t0 [2]; t2 = HMAC2 lib prk t1 [3]
      in (t0, t1, t2))"

fun isZero_acc :: "bool \<Rightarrow> byte list \<Rightarrow> bool" where
  "isZero_acc acc [] = acc"
| "isZero_acc acc (b # bs) = isZero_acc (acc \<and> b = 0) bs"

definition isZero :: "byte list \<Rightarrow> bool" where
  "isZero val = isZero_acc True val"

definition setZero :: "byte list \<Rightarrow> byte list" where
  "setZero arr = map (\<lambda>_. 0) arr"

definition clamp :: "byte list \<Rightarrow> byte list" where
  "clamp sk = (let s0 = sk[0 := sk ! 0 AND 248] in s0[31 := (s0 ! 31 AND 127) OR 64])"

text \<open>The bytes the random source delivers are an argument; a second component says whether it failed.\<close>

definition newPrivateKey :: "byte list \<times> bool \<Rightarrow> byte list \<times> bool" where
  "newPrivateKey r = (clamp (fst r), snd r)"

definition publicKey :: "noise_lib \<Rightarrow> byte list \<Rightarrow> byte list" where
  "publicKey lib sk = curve25519_ScalarBaseMult lib sk"

definition sharedSecret :: "noise_lib \<Rightarrow> byte list \<Rightarrow> byte list \<Rightarrow> byte list \<times> bool" where
  "sharedSecret lib sk pk = (let ss = curve25519_ScalarMult lib sk pk in (ss, \<not> isZero ss))"

lemma isZero_acc_iff: "isZero_acc acc val \<longleftrightarrow> acc \<and> (\<forall>b\<in>set val. b = 0)"
  by (induction val arbitrary: acc) auto

lemma isZero_iff: "isZero val \<longleftrightarrow> (\<forall>b\<in>set val. b = 0)"
  by (simp add: isZero_def isZero_acc_iff)

lemma length_clamp [simp]: "length (clamp sk) = length sk"
  by (simp add: clamp_def Let_def)

text \<open>A clamped scalar is a multiple of the cofactor 8 with bit 254 set and bit 255 clear.\<close>

lemma clamp_bits:
  assumes "length sk = 32"
  shows "clamp sk ! 0 AND 7 = 0" "bit (clamp sk ! 31) 6" "\<not> bit (clamp sk ! 31) 7"
proof -
  have "(x AND 248) AND 7 = (0 :: byte)" for x
    by (simp add: and.assoc)
  then show "clamp sk ! 0 AND 7 = 0" using assms by (simp add: clamp_def Let_def)
  show "bit (clamp sk ! 31) 6" "\<not> bit (clamp sk ! 31) 7"
    using assms by (simp_all add: clamp_def Let_def bit_simps)
qed

text \<open>
  What the handshake relies on: the two sides of a key exchange get the same secret, opening inverts sealing under
  the same key, nonce and data, and the results have the sizes their types state.
\<close>

definition noise_laws :: "noise_lib \<Rightarrow> bool" where
  "noise_laws lib \<longleftrightarrow>
     (\<forall>a b. curve25519_ScalarMult lib a (curve25519_ScalarBaseMult lib b) =
            curve25519_ScalarMult lib b (curve25519_ScalarBaseMult lib a)) \<and>
     (\<forall>k n p a. aead_Open lib k n (aead_Seal lib k n p a) a = Some p) \<and>
     (\<forall>k n p a. length (aead_Seal lib k n p a) = length p + 16) \<and>
     (\<forall>m. length (blake2s_Sum256 lib m) = 32) \<and>
     (\<forall>sk. length (curve25519_ScalarBaseMult lib sk) = 32)"

lemma noise_dh: "noise_laws lib \<Longrightarrow> sharedSecret lib a (publicKey lib b) = sharedSecret lib b (publicKey lib a)"
  by (simp add: noise_laws_def sharedSecret_def publicKey_def)

lemma noise_open: "noise_laws lib \<Longrightarrow> aead_Open lib k n (aead_Seal lib k n p a) a = Some p"
  by (simp add: noise_laws_def)

lemma noise_lengths:
  assumes "noise_laws lib"
  shows "length (aead_Seal lib k n p a) = length p + 16" "length (publicKey lib sk) = 32" "length (hmac lib k m) = 32"
  using assms by (simp_all add: noise_laws_def publicKey_def hmac_def Let_def)

subsection \<open>Timestamps\<close>

abbreviation (input) tai64n_base :: "64 word" where "tai64n_base \<equiv> 0x400000000000000a"
abbreviation (input) whitenerMask :: "32 word" where "whitenerMask \<equiv> 0xffffff"

text \<open>The time is its Unix seconds and nanoseconds, as \<^verbatim>\<open>time.Time\<close> gives them.\<close>

definition BE_PutUint64 :: "64 word \<Rightarrow> byte list" where
  "BE_PutUint64 w = map (\<lambda>i. ucast (drop_bit (8 * (7 - i)) w)) [0..<8]"

definition stamp :: "int \<Rightarrow> nat \<Rightarrow> byte list" where
  "stamp unix nanosecond =
     BE_PutUint64 (tai64n_base + word_of_int unix) @ BE_PutUint32 (of_nat nanosecond AND NOT whitenerMask)"

text \<open>\<^verbatim>\<open>bytes.Compare\<close> orders byte strings lexicographically.\<close>

fun bytes_less :: "byte list \<Rightarrow> byte list \<Rightarrow> bool" where
  "bytes_less [] ys = (ys \<noteq> [])"
| "bytes_less (x # xs) [] = False"
| "bytes_less (x # xs) (y # ys) = (x < y \<or> x = y \<and> bytes_less xs ys)"

definition Timestamp_After :: "byte list \<Rightarrow> byte list \<Rightarrow> bool" where
  "Timestamp_After t1 t2 = bytes_less t2 t1"

lemma bytes_less_irrefl [simp]: "\<not> bytes_less xs xs"
  by (induction xs) auto

lemma bytes_less_trans: "bytes_less xs ys \<Longrightarrow> bytes_less ys zs \<Longrightarrow> bytes_less xs zs"
proof (induction xs ys arbitrary: zs rule: bytes_less.induct)
  case (1 ys)
  then show ?case by (cases zs; cases ys) auto
next
  case (3 x xs y ys)
  then show ?case by (cases zs) auto
qed simp

lemma bytes_less_total: "xs \<noteq> ys \<Longrightarrow> \<not> bytes_less xs ys \<Longrightarrow> bytes_less ys xs"
  by (induction xs ys rule: bytes_less.induct) (auto simp: neq_Nil_conv)

subsection \<open>Messages\<close>

record MessageInitiation =
  mi_Type :: "32 word"
  mi_Sender :: "32 word"
  mi_Ephemeral :: "byte list"
  mi_Static :: "byte list"
  mi_Timestamp :: "byte list"
  mi_MAC1 :: "byte list"
  mi_MAC2 :: "byte list"

record MessageResponse =
  mr_Type :: "32 word"
  mr_Sender :: "32 word"
  mr_Receiver :: "32 word"
  mr_Ephemeral :: "byte list"
  mr_Empty :: "byte list"
  mr_MAC1 :: "byte list"
  mr_MAC2 :: "byte list"

record MessageCookieReply =
  mc_Type :: "32 word"
  mc_Receiver :: "32 word"
  mc_Nonce :: "byte list"
  mc_Cookie :: "byte list"

abbreviation (input) MessageInitiationType :: "32 word" where "MessageInitiationType \<equiv> 1"
abbreviation (input) MessageResponseType :: "32 word" where "MessageResponseType \<equiv> 2"
abbreviation (input) MessageCookieReplyType :: "32 word" where "MessageCookieReplyType \<equiv> 3"
abbreviation (input) MessageTransportType :: "32 word" where "MessageTransportType \<equiv> 4"
abbreviation (input) MessageInitiationSize :: nat where "MessageInitiationSize \<equiv> 148"
abbreviation (input) MessageResponseSize :: nat where "MessageResponseSize \<equiv> 92"
abbreviation (input) MessageCookieReplySize :: nat where "MessageCookieReplySize \<equiv> 64"

definition errMessageLengthMismatch :: string where
  "errMessageLengthMismatch = ''message length mismatch''"

text \<open>
  \<^verbatim>\<open>copy\<close> into a slice that starts at an offset: as many bytes as both sides have are overwritten.
\<close>

definition copy_at :: "nat \<Rightarrow> byte list \<Rightarrow> byte list \<Rightarrow> byte list" where
  "copy_at i src b =
     (let n = min (length src) (length b - i) in take i b @ take n src @ drop (i + n) b)"

definition MessageInitiation_unmarshal :: "byte list \<Rightarrow> (string, MessageInitiation) res" where
  "MessageInitiation_unmarshal b =
     (if length b \<noteq> MessageInitiationSize then Err errMessageLengthMismatch
      else Ok \<lparr>mi_Type = LE_Uint32 b, mi_Sender = LE_Uint32 (drop 4 b), mi_Ephemeral = take 32 (drop 8 b),
               mi_Static = take 48 (drop (8 + 32) b), mi_Timestamp = take 28 (drop (8 + 32 + 48) b),
               mi_MAC1 = take 16 (drop (8 + 32 + 48 + 28) b), mi_MAC2 = take 16 (drop (8 + 32 + 48 + 28 + 16) b)\<rparr>)"

definition MessageInitiation_marshal :: "MessageInitiation \<Rightarrow> byte list \<Rightarrow> (string, byte list) res" where
  "MessageInitiation_marshal msg b =
     (if length b \<noteq> MessageInitiationSize then Err errMessageLengthMismatch
      else Ok
        (let b = copy_at 0 (LE_PutUint32 (mi_Type msg)) b;
             b = copy_at 4 (LE_PutUint32 (mi_Sender msg)) b;
             b = copy_at 8 (mi_Ephemeral msg) b;
             o1 = 8 + length (mi_Ephemeral msg); b = copy_at o1 (mi_Static msg) b;
             o2 = o1 + length (mi_Static msg); b = copy_at o2 (mi_Timestamp msg) b;
             o3 = o2 + length (mi_Timestamp msg); b = copy_at o3 (mi_MAC1 msg) b;
             o4 = o3 + length (mi_MAC1 msg); b = copy_at o4 (mi_MAC2 msg) b
         in b))"

definition MessageResponse_unmarshal :: "byte list \<Rightarrow> (string, MessageResponse) res" where
  "MessageResponse_unmarshal b =
     (if length b \<noteq> MessageResponseSize then Err errMessageLengthMismatch
      else Ok \<lparr>mr_Type = LE_Uint32 b, mr_Sender = LE_Uint32 (drop 4 b), mr_Receiver = LE_Uint32 (drop 8 b),
               mr_Ephemeral = take 32 (drop 12 b), mr_Empty = take 16 (drop (12 + 32) b),
               mr_MAC1 = take 16 (drop (12 + 32 + 16) b), mr_MAC2 = take 16 (drop (12 + 32 + 16 + 16) b)\<rparr>)"

definition MessageResponse_marshal :: "MessageResponse \<Rightarrow> byte list \<Rightarrow> (string, byte list) res" where
  "MessageResponse_marshal msg b =
     (if length b \<noteq> MessageResponseSize then Err errMessageLengthMismatch
      else Ok
        (let b = copy_at 0 (LE_PutUint32 (mr_Type msg)) b;
             b = copy_at 4 (LE_PutUint32 (mr_Sender msg)) b;
             b = copy_at 8 (LE_PutUint32 (mr_Receiver msg)) b;
             b = copy_at 12 (mr_Ephemeral msg) b;
             o1 = 12 + length (mr_Ephemeral msg); b = copy_at o1 (mr_Empty msg) b;
             o2 = o1 + length (mr_Empty msg); b = copy_at o2 (mr_MAC1 msg) b;
             o3 = o2 + length (mr_MAC1 msg); b = copy_at o3 (mr_MAC2 msg) b
         in b))"

definition MessageCookieReply_unmarshal :: "byte list \<Rightarrow> (string, MessageCookieReply) res" where
  "MessageCookieReply_unmarshal b =
     (if length b \<noteq> MessageCookieReplySize then Err errMessageLengthMismatch
      else Ok \<lparr>mc_Type = LE_Uint32 b, mc_Receiver = LE_Uint32 (drop 4 b), mc_Nonce = take 24 (drop 8 b),
               mc_Cookie = take 32 (drop (8 + 24) b)\<rparr>)"

definition MessageCookieReply_marshal :: "MessageCookieReply \<Rightarrow> byte list \<Rightarrow> (string, byte list) res" where
  "MessageCookieReply_marshal msg b =
     (if length b \<noteq> MessageCookieReplySize then Err errMessageLengthMismatch
      else Ok
        (let b = copy_at 0 (LE_PutUint32 (mc_Type msg)) b;
             b = copy_at 4 (LE_PutUint32 (mc_Receiver msg)) b;
             b = copy_at 8 (mc_Nonce msg) b;
             b = copy_at (8 + length (mc_Nonce msg)) (mc_Cookie msg) b
         in b))"

definition wf_initiation :: "MessageInitiation \<Rightarrow> bool" where
  "wf_initiation m \<longleftrightarrow> length (mi_Ephemeral m) = 32 \<and> length (mi_Static m) = 48 \<and> length (mi_Timestamp m) = 28 \<and>
     length (mi_MAC1 m) = 16 \<and> length (mi_MAC2 m) = 16"

definition wf_response :: "MessageResponse \<Rightarrow> bool" where
  "wf_response m \<longleftrightarrow> length (mr_Ephemeral m) = 32 \<and> length (mr_Empty m) = 16 \<and>
     length (mr_MAC1 m) = 16 \<and> length (mr_MAC2 m) = 16"

definition wf_cookie_reply :: "MessageCookieReply \<Rightarrow> bool" where
  "wf_cookie_reply m \<longleftrightarrow> length (mc_Nonce m) = 24 \<and> length (mc_Cookie m) = 32"

subsection \<open>The codec contract\<close>

lemma LE_Put_rev: "LE_PutUint32 n = rev (BE_PutUint32 n)"
  by (simp add: LE_PutUint32_def BE_PutUint32_def)

lemma LE_Uint32_rev: "LE_Uint32 (p # q # r # s # t) = BE_Uint32 [s, r, q, p]"
  by (simp add: LE_Uint32_def BE_Uint32_def or.assoc or.left_commute or.commute)

lemma length_LE_Put [simp]: "length (LE_PutUint32 n) = 4"
  by (simp add: LE_PutUint32_def)

lemma LE_Uint32_Put [simp]: "LE_Uint32 (LE_PutUint32 n @ xs) = n"
  by (simp add: LE_PutUint32_def LE_Uint32_rev flip: BE_PutUint32_def)

lemma LE_Put_Uint32: "4 \<le> length b \<Longrightarrow> LE_PutUint32 (LE_Uint32 b) = take 4 b"
proof -
  assume "4 \<le> length b"
  then obtain p q r s t where b: "b = p # q # r # s # t"
    by (auto simp: numeral_eq_Suc Suc_le_length_iff)
  then show ?thesis by (simp add: LE_Put_rev LE_Uint32_rev)
qed

text \<open>
  A layout is a list of fields: copying the fields one after the other fills the buffer with their concatenation.
\<close>

lemma copy_at_fill:
  assumes "length done = i" "length rest = n" "length src \<le> n"
  shows "copy_at i src (done @ rest) = (done @ src) @ drop (length src) rest"
  using assms by (simp add: copy_at_def Let_def)

locale message_codec =
  fixes wf :: "'m \<Rightarrow> bool" and sz :: nat
    and marshal :: "'m \<Rightarrow> byte list \<Rightarrow> (string, byte list) res"
    and unmarshal :: "byte list \<Rightarrow> (string, 'm) res"
  assumes marshal_size: "length b \<noteq> sz \<Longrightarrow> marshal m b = Err errMessageLengthMismatch"
    and unmarshal_size: "length b \<noteq> sz \<Longrightarrow> unmarshal b = Err errMessageLengthMismatch"
    and marshal_unmarshal: "wf m \<Longrightarrow> length b = sz \<Longrightarrow> \<exists>c. marshal m b = Ok c \<and> length c = sz \<and> unmarshal c = Ok m"
    and unmarshal_marshal: "length b = sz \<Longrightarrow> \<exists>m. unmarshal b = Ok m \<and> wf m \<and> marshal m b = Ok b"
begin

lemma decodes_iff: "(\<exists>m. unmarshal b = Ok m) \<longleftrightarrow> length b = sz"
  using unmarshal_size unmarshal_marshal by (metis Inl_Inr_False)

lemma decoded_wf: "unmarshal b = Ok m \<Longrightarrow> wf m"
  using unmarshal_marshal [of b] decodes_iff [of b] by (metis sum.inject(2))

lemma roundtrip: "wf m \<Longrightarrow> marshal m b = Ok c \<Longrightarrow> unmarshal c = Ok m"
  using marshal_size [of b m] marshal_unmarshal [of m b] by (cases "length b = sz") auto

lemma marshal_injective: "wf m \<Longrightarrow> wf m' \<Longrightarrow> marshal m b = Ok c \<Longrightarrow> marshal m' b = Ok c \<Longrightarrow> m = m'"
  using roundtrip [of m b c] roundtrip [of m' b c] by simp

end

fun copy_fields :: "nat \<Rightarrow> byte list list \<Rightarrow> byte list \<Rightarrow> byte list" where
  "copy_fields i [] b = b"
| "copy_fields i (f # fs) b = copy_fields (i + length f) fs (copy_at i f b)"

lemma copy_fields_fill:
  "length pre = i \<Longrightarrow> length rest = sum_list (map length fs) \<Longrightarrow> copy_fields i fs (pre @ rest) = pre @ concat fs"
proof (induction fs arbitrary: i pre rest)
  case (Cons f fs)
  have "copy_at i f (pre @ rest) = (pre @ f) @ drop (length f) rest"
    using Cons.prems by (intro copy_at_fill) auto
  with Cons.IH [of "pre @ f" "i + length f" "drop (length f) rest"] Cons.prems show ?case by simp
qed simp

lemmas copy_fields_all = copy_fields_fill [of "[]" 0, simplified]

lemma initiation_bytes:
  assumes "wf_initiation m" "length b = MessageInitiationSize"
  shows "MessageInitiation_marshal m b = Ok (LE_PutUint32 (mi_Type m) @ LE_PutUint32 (mi_Sender m) @
    mi_Ephemeral m @ mi_Static m @ mi_Timestamp m @ mi_MAC1 m @ mi_MAC2 m)"
  using assms copy_fields_all [of b "[LE_PutUint32 (mi_Type m), LE_PutUint32 (mi_Sender m), mi_Ephemeral m, mi_Static m,
    mi_Timestamp m, mi_MAC1 m, mi_MAC2 m]"]
  by (simp add: MessageInitiation_marshal_def wf_initiation_def Let_def)

lemma response_bytes:
  assumes "wf_response m" "length b = MessageResponseSize"
  shows "MessageResponse_marshal m b = Ok (LE_PutUint32 (mr_Type m) @ LE_PutUint32 (mr_Sender m) @
    LE_PutUint32 (mr_Receiver m) @ mr_Ephemeral m @ mr_Empty m @ mr_MAC1 m @ mr_MAC2 m)"
  using assms copy_fields_all [of b "[LE_PutUint32 (mr_Type m), LE_PutUint32 (mr_Sender m), LE_PutUint32 (mr_Receiver m),
    mr_Ephemeral m, mr_Empty m, mr_MAC1 m, mr_MAC2 m]"]
  by (simp add: MessageResponse_marshal_def wf_response_def Let_def)

lemma cookie_reply_bytes:
  assumes "wf_cookie_reply m" "length b = MessageCookieReplySize"
  shows "MessageCookieReply_marshal m b = Ok (LE_PutUint32 (mc_Type m) @ LE_PutUint32 (mc_Receiver m) @
    mc_Nonce m @ mc_Cookie m)"
  using assms copy_fields_all [of b "[LE_PutUint32 (mc_Type m), LE_PutUint32 (mc_Receiver m), mc_Nonce m, mc_Cookie m]"]
  by (simp add: MessageCookieReply_marshal_def wf_cookie_reply_def Let_def)

lemma take_drop_append: "take i b @ take j (drop i b) = take (i + j) b"
  by (simp add: take_add)

interpretation initiation: message_codec wf_initiation 148 MessageInitiation_marshal MessageInitiation_unmarshal
proof
  fix m b
  assume "wf_initiation m" "length (b :: byte list) = 148"
  from initiation_bytes [OF this] this(1)
  show "\<exists>c. MessageInitiation_marshal m b = Ok c \<and> length c = 148 \<and> MessageInitiation_unmarshal c = Ok m"
    by (simp add: MessageInitiation_unmarshal_def wf_initiation_def)
next
  fix b :: "byte list"
  assume "length b = 148"
  then show "\<exists>m. MessageInitiation_unmarshal b = Ok m \<and> wf_initiation m \<and> MessageInitiation_marshal m b = Ok b"
    by (simp add: MessageInitiation_unmarshal_def initiation_bytes wf_initiation_def LE_Put_Uint32)
       (simp add: wf_initiation_def take_drop_append flip: append_assoc)
qed (simp_all add: MessageInitiation_marshal_def MessageInitiation_unmarshal_def)

interpretation response: message_codec wf_response 92 MessageResponse_marshal MessageResponse_unmarshal
proof
  fix m b
  assume "wf_response m" "length (b :: byte list) = 92"
  from response_bytes [OF this] this(1)
  show "\<exists>c. MessageResponse_marshal m b = Ok c \<and> length c = 92 \<and> MessageResponse_unmarshal c = Ok m"
    by (simp add: MessageResponse_unmarshal_def wf_response_def)
next
  fix b :: "byte list"
  assume "length b = 92"
  then show "\<exists>m. MessageResponse_unmarshal b = Ok m \<and> wf_response m \<and> MessageResponse_marshal m b = Ok b"
    by (simp add: MessageResponse_unmarshal_def response_bytes wf_response_def LE_Put_Uint32)
       (simp add: wf_response_def take_drop_append flip: append_assoc)
qed (simp_all add: MessageResponse_marshal_def MessageResponse_unmarshal_def)

interpretation cookie_reply: message_codec wf_cookie_reply 64 MessageCookieReply_marshal MessageCookieReply_unmarshal
proof
  fix m b
  assume "wf_cookie_reply m" "length (b :: byte list) = 64"
  from cookie_reply_bytes [OF this] this(1)
  show "\<exists>c. MessageCookieReply_marshal m b = Ok c \<and> length c = 64 \<and> MessageCookieReply_unmarshal c = Ok m"
    by (simp add: MessageCookieReply_unmarshal_def wf_cookie_reply_def)
next
  fix b :: "byte list"
  assume "length b = 64"
  then show "\<exists>m. MessageCookieReply_unmarshal b = Ok m \<and> wf_cookie_reply m \<and> MessageCookieReply_marshal m b = Ok b"
    by (simp add: MessageCookieReply_unmarshal_def cookie_reply_bytes wf_cookie_reply_def LE_Put_Uint32)
       (simp add: wf_cookie_reply_def take_drop_append flip: append_assoc)
qed (simp_all add: MessageCookieReply_marshal_def MessageCookieReply_unmarshal_def)

text \<open>
  Property C31: the three messages of the handshake survive the wire: a message whose arrays have their declared
  sizes is written over any buffer of the message's size and read back as it was, every buffer of that size is the
  encoding of such a message, and a buffer of another size is refused in both directions.
\<close>

theorem handshake_messages_roundtrip:
  "(wf_initiation m \<and> MessageInitiation_marshal m b = Ok c \<longrightarrow> MessageInitiation_unmarshal c = Ok m) \<and>
   (wf_response m' \<and> MessageResponse_marshal m' b = Ok c \<longrightarrow> MessageResponse_unmarshal c = Ok m') \<and>
   (wf_cookie_reply m'' \<and> MessageCookieReply_marshal m'' b = Ok c \<longrightarrow> MessageCookieReply_unmarshal c = Ok m'') \<and>
   ((\<exists>m. MessageInitiation_unmarshal b = Ok m \<and> wf_initiation m \<and> MessageInitiation_marshal m b = Ok b) \<longleftrightarrow> length b = 148) \<and>
   ((\<exists>m. MessageResponse_unmarshal b = Ok m \<and> wf_response m \<and> MessageResponse_marshal m b = Ok b) \<longleftrightarrow> length b = 92) \<and>
   ((\<exists>m. MessageCookieReply_unmarshal b = Ok m \<and> wf_cookie_reply m \<and> MessageCookieReply_marshal m b = Ok b) \<longleftrightarrow> length b = 64)"
  using initiation.roundtrip response.roundtrip cookie_reply.roundtrip
    initiation.unmarshal_marshal response.unmarshal_marshal cookie_reply.unmarshal_marshal
    initiation.decodes_iff response.decodes_iff cookie_reply.decodes_iff
  by blast

definition sample_cookie_reply :: MessageCookieReply where
  "sample_cookie_reply = \<lparr>mc_Type = 3, mc_Receiver = 7, mc_Nonce = replicate 24 1, mc_Cookie = replicate 32 2\<rparr>"

theorem handshake_messages_roundtrip_witness:
  "MessageCookieReply_unmarshal (LE_PutUint32 3 @ LE_PutUint32 7 @ replicate 24 1 @ replicate 32 2) = Ok sample_cookie_reply"
proof -
  have "wf_cookie_reply sample_cookie_reply" by (simp add: sample_cookie_reply_def wf_cookie_reply_def)
  moreover have "MessageCookieReply_marshal sample_cookie_reply (replicate 64 0) =
      Ok (LE_PutUint32 3 @ LE_PutUint32 7 @ replicate 24 1 @ replicate 32 2)"
    using cookie_reply_bytes [OF calculation, of "replicate 64 0"] by (simp add: sample_cookie_reply_def)
  ultimately show ?thesis using handshake_messages_roundtrip by blast
qed

end
