(* ===== verification/Replay_Filter.thy ===== *)
theory Replay_Filter
  imports Main "HOL-Library.Word"
begin

section \<open>The anti-replay window (wireguard-go/replay)\<close>

text \<open>
  \<^verbatim>\<open>replay.go\<close>: a ring of 128 blocks of 64 bits remembers which message counters of the last blocks were
  accepted. The specification is the set of the counters accepted since the last reset.
\<close>

unbundle bit_operations_syntax

subsection \<open>The filter\<close>

abbreviation (input) blockBitLog :: nat where "blockBitLog \<equiv> 6"
abbreviation (input) ringBlocks :: "64 word" where "ringBlocks \<equiv> 128"
abbreviation (input) windowSize :: "64 word" where "windowSize \<equiv> 8128"
abbreviation (input) blockMask :: "64 word" where "blockMask \<equiv> 127"
abbreviation (input) bitMask :: "64 word" where "bitMask \<equiv> 63"

record Filter =
  last_counter :: "64 word"
  ring :: "64 word list"

definition zero_Filter :: Filter where
  "zero_Filter = \<lparr>last_counter = 0, ring = replicate 128 0\<rparr>"

definition Filter_Reset :: "Filter \<Rightarrow> Filter" where
  "Filter_Reset f = f\<lparr>last_counter := 0, ring := (ring f)[0 := 0]\<rparr>"

text \<open>The loop that empties the blocks after \<open>current\<close>; the block numbers are far below \<open>2^64\<close>.\<close>

definition clear_blocks :: "64 word \<Rightarrow> 64 word \<Rightarrow> 64 word list \<Rightarrow> 64 word list" where
  "clear_blocks current diff r =
     fold (\<lambda>k r. r[unat ((current + 1 + of_nat k) AND blockMask) := 0]) [0..<unat diff] r"

definition ValidateCounter :: "64 word \<Rightarrow> 64 word \<Rightarrow> Filter \<Rightarrow> bool \<times> Filter" where
  "ValidateCounter counter limit f =
     (if limit \<le> counter then (False, f)
      else
        let indexBlock = drop_bit blockBitLog counter;
            moved = (if last_counter f < counter then
                       (let current = drop_bit blockBitLog (last_counter f);
                            diff0 = indexBlock - current;
                            diff = (if ringBlocks < diff0 then ringBlocks else diff0)
                        in Some (f\<lparr>ring := clear_blocks current diff (ring f), last_counter := counter\<rparr>))
                     else if windowSize < last_counter f - counter then None
                     else Some f)
        in case moved of
             None \<Rightarrow> (False, f)
           | Some f1 \<Rightarrow>
               (let i = unat (indexBlock AND blockMask);
                    indexBit = counter AND bitMask;
                    old = ring f1 ! i;
                    new = old OR push_bit (unat indexBit) 1
                in (old \<noteq> new, f1\<lparr>ring := (ring f1)[i := new]\<rparr>)))"

subsection \<open>Blocks and bits\<close>

lemma unat_and_127: "unat (w AND 127 :: 64 word) = unat w mod 128"
proof -
  have "w AND 127 = take_bit 7 w" using take_bit_eq_mask [of 7 w] by (simp add: mask_eq_exp_minus_1)
  then show ?thesis by (simp add: take_bit_eq_mod unat_mod_distrib)
qed

lemma unat_and_63: "unat (w AND 63 :: 64 word) = unat w mod 64"
proof -
  have "w AND 63 = take_bit 6 w" using take_bit_eq_mask [of 6 w] by (simp add: mask_eq_exp_minus_1)
  then show ?thesis by (simp add: take_bit_eq_mod unat_mod_distrib)
qed

lemma unat_block: "unat (drop_bit 6 w :: 64 word) = unat w div 64"
  by (simp add: drop_bit_eq_div unat_div_distrib)

lemma block_bound: "unat (w :: 64 word) div 64 < 2 ^ 58"
  using unsigned_less [of w, where 'a = nat] by (simp add: less_mult_imp_div_less)

lemma length_fold_clear [simp]: "length (fold (\<lambda>k r. r[g k := 0]) ks r) = length r"
  by (induction ks arbitrary: r) simp_all

lemma length_clear_blocks [simp]: "length (clear_blocks c d r) = length r"
  by (simp add: clear_blocks_def)

lemma fold_clear_nth:
  "j < length r \<Longrightarrow> fold (\<lambda>k r. r[g k := 0]) ks r ! j = (if j \<in> g ` set ks then 0 else r ! j)"
  by (induction ks arbitrary: r) (auto simp: nth_list_update)

lemma clear_blocks_nth:
  assumes "j < length r" "unat c + unat d < 2 ^ 60"
  shows "clear_blocks c d r ! j = (if \<exists>b. unat c < b \<and> b \<le> unat c + unat d \<and> b mod 128 = j then 0 else r ! j)"
proof -
  have "unat (c + 1 + of_nat k) = unat c + 1 + k" if "k < unat d" for k
  proof -
    have "c + 1 + of_nat k = of_nat (unat c + 1 + k)" by simp
    moreover have "unat c + 1 + k < 2 ^ 64" using assms(2) that by simp
    then have "unat (of_nat (unat c + 1 + k) :: 64 word) = unat c + 1 + k"
      by (simp only: unat_of_nat take_bit_nat_eq_self len_bit0 len_num1) simp
    ultimately show ?thesis by (simp add: ac_simps)
  qed
  then have "(\<lambda>k. unat ((c + 1 + of_nat k) AND 127)) ` set [0..<unat d] = (\<lambda>k. (unat c + 1 + k) mod 128) ` {..<unat d}"
    by (auto simp: unat_and_127 lessThan_atLeast0)
  moreover have "j \<in> (\<lambda>k. (unat c + 1 + k) mod 128) ` {..<unat d} \<longleftrightarrow>
      (\<exists>b. unat c < b \<and> b \<le> unat c + unat d \<and> b mod 128 = j)"
  proof
    assume "\<exists>b. unat c < b \<and> b \<le> unat c + unat d \<and> b mod 128 = j"
    then obtain b where "unat c < b" "b \<le> unat c + unat d" "b mod 128 = j" by blast
    then show "j \<in> (\<lambda>k. (unat c + 1 + k) mod 128) ` {..<unat d}"
      by (intro image_eqI [of _ _ "b - unat c - 1"]) auto
  next
    assume "j \<in> (\<lambda>k. (unat c + 1 + k) mod 128) ` {..<unat d}"
    then obtain k where "k < unat d" "j = (unat c + 1 + k) mod 128" by auto
    then show "\<exists>b. unat c < b \<and> b \<le> unat c + unat d \<and> b mod 128 = j"
      by (intro exI [of _ "unat c + 1 + k"]) simp
  qed
  ultimately show ?thesis
    using fold_clear_nth [OF assms(1), of "\<lambda>k. unat ((c + 1 + of_nat k) AND 127)" "[0..<unat d]"]
    by (simp add: clear_blocks_def)
qed

subsection \<open>The specification\<close>

text \<open>
  A counter is acceptable when it is below the limit, was not accepted before, and is not more than
  8128 behind the highest counter seen.
\<close>

record window =
  seen :: "nat set"
  top :: nat

definition spec_accepts :: "nat \<Rightarrow> nat \<Rightarrow> window \<Rightarrow> bool" where
  "spec_accepts limit c w \<longleftrightarrow> c < limit \<and> c \<notin> seen w \<and> top w \<le> c + 8128"

definition spec_validate :: "nat \<Rightarrow> nat \<Rightarrow> window \<Rightarrow> window" where
  "spec_validate limit c w =
     (if spec_accepts limit c w then \<lparr>seen = insert c (seen w), top = max c (top w)\<rparr> else w)"

text \<open>
  The ring represents the window: for every block that can still be asked for, the bits say which
  counters were accepted. Older blocks, and those above after a reset, hold anything.
\<close>

definition replay_inv :: "window \<Rightarrow> Filter \<Rightarrow> bool" where
  "replay_inv w f \<longleftrightarrow> length (ring f) = 128 \<and> unat (last_counter f) = top w \<and> (\<forall>c\<in>seen w. c \<le> top w) \<and>
     (\<forall>c. c div 64 \<le> top w div 64 \<and> top w div 64 < c div 64 + 128 \<longrightarrow>
        bit (ring f ! (c div 64 mod 128)) (c mod 64) = (c \<in> seen w))"

lemma mod_128_inj:
  assumes "(a :: nat) mod 128 = b mod 128" "a < b + 128" "b < a + 128"
  shows "a = b"
proof (cases "a \<le> b")
  case True
  then have "128 dvd b - a" using assms(1) by (metis mod_eq_dvd_iff_nat)
  then show ?thesis using assms(3) True nat_dvd_not_less [of "b - a" 128] by force
next
  case False
  then have "128 dvd a - b" using assms(1) by (metis mod_eq_dvd_iff_nat nat_le_linear)
  then show ?thesis using assms(2) False nat_dvd_not_less [of "a - b" 128] by force
qed

lemma mod_128_window:
  "(a :: nat) mod 128 = b mod 128 \<Longrightarrow> a \<le> t \<Longrightarrow> t < a + 128 \<Longrightarrow> b \<le> t \<Longrightarrow> t < b + 128 \<Longrightarrow> a = b"
  by (rule mod_128_inj) linarith+

lemma kept_block:
  assumes "x \<le> (t :: nat)" "u < x + 128" "t < b" "b \<le> t + min 128 (u - t)" "t \<le> u"
  shows "b mod 128 \<noteq> x mod 128"
proof
  assume "b mod 128 = x mod 128"
  moreover have "b \<le> u" "u < b + 128" using assms by auto
  ultimately have "b = x" using assms(1,2,5) by (intro mod_128_window [of b x u]) simp_all
  with assms(1,3) show False by simp
qed

lemma residue_in_window: "\<exists>b. t < b \<and> b \<le> t + 128 \<and> b mod 128 = y mod (128 :: nat)"
proof (intro exI conjI)
  let ?b = "t + 1 + (y + 127 * (t + 1)) mod 128"
  have "?b mod 128 = (t + 1 + (y + 127 * (t + 1))) mod 128" by (rule mod_add_right_eq)
  also have "t + 1 + (y + 127 * (t + 1)) = y + (t + 1) * 128" by simp
  also have "\<dots> mod 128 = y mod 128" by (rule mod_mult_self1)
  finally show "?b mod 128 = y mod 128" .
qed (simp_all add: less_Suc_eq_le [symmetric])

lemma new_bits:
  assumes "length r = 128"
  shows "bit (r[c div 64 mod 128 := r ! (c div 64 mod 128) OR push_bit (c mod 64) 1] ! (x div 64 mod 128)) (x mod 64) \<longleftrightarrow>
    bit (r ! (x div 64 mod 128) :: 64 word) (x mod 64) \<or> (x div 64 mod 128 = c div 64 mod 128 \<and> x mod 64 = c mod 64)"
  using assms by (auto simp: nth_list_update bit_or_iff bit_push_bit_iff bit_1_iff bit_exp_iff possible_bit_word)

lemma old_bits:
  assumes "n < 64"
  shows "old = old OR 2 ^ n \<longleftrightarrow> bit (old :: 64 word) n"
proof
  assume "bit old n"
  then show "old = old OR 2 ^ n"
    by (intro bit_word_eqI) (auto simp: bit_or_iff bit_exp_iff possible_bit_word)
next
  assume "old = old OR 2 ^ n"
  moreover have "bit (old OR 2 ^ n) n" using assms by (simp add: bit_or_iff bit_exp_iff possible_bit_word)
  ultimately show "bit old n" by metis
qed

text \<open>Setting the bit of an admissible counter.\<close>

lemma set_bit_inv:
  assumes "replay_inv w f" "unat counter = c" "c div 64 \<le> top w div 64" "top w div 64 < c div 64 + 128" "c \<le> top w"
  shows "replay_inv (w\<lparr>seen := insert c (seen w)\<rparr>) (f\<lparr>ring := (ring f)[c div 64 mod 128 :=
      ring f ! (c div 64 mod 128) OR push_bit (c mod 64) 1]\<rparr>)"
proof -
  have "x = c" if "x div 64 mod 128 = c div 64 mod 128" "x mod 64 = c mod 64"
      "x div 64 \<le> top w div 64" "top w div 64 < x div 64 + 128" for x
  proof -
    have "x div 64 = c div 64" by (rule mod_128_window [OF that(1,3,4) assms(3,4)])
    then show ?thesis using that(2) by (metis div_mult_mod_eq)
  qed
  moreover have "length (ring f) = 128" using assms(1) by (simp add: replay_inv_def)
  ultimately have "bit ((ring f)[c div 64 mod 128 := ring f ! (c div 64 mod 128) OR push_bit (c mod 64) 1] !
      (x div 64 mod 128)) (x mod 64) = (x \<in> insert c (seen w))"
    if "x div 64 \<le> top w div 64" "top w div 64 < x div 64 + 128" for x
    using that assms(1) unfolding new_bits [OF \<open>length (ring f) = 128\<close>] replay_inv_def by blast
  then show ?thesis
    using assms(1,5) by (simp add: replay_inv_def)
qed

text \<open>Moving the window forward.\<close>

definition advance :: "64 word \<Rightarrow> Filter \<Rightarrow> Filter" where
  "advance counter f =
     (let current = drop_bit blockBitLog (last_counter f);
          diff0 = drop_bit blockBitLog counter - current;
          diff = (if ringBlocks < diff0 then ringBlocks else diff0)
      in f\<lparr>ring := clear_blocks current diff (ring f), last_counter := counter\<rparr>)"

lemma advance_inv:
  assumes "replay_inv w f" "last_counter f < counter"
  shows "replay_inv (w\<lparr>top := unat counter\<rparr>) (advance counter f)"
proof -
  let ?cur = "drop_bit 6 (last_counter f)" and ?idx = "drop_bit 6 counter"
  let ?d = "if 128 < ?idx - ?cur then 128 else ?idx - ?cur"
  have lt: "top w < unat counter" using assms by (simp add: replay_inv_def word_less_nat_alt)
  have cur: "unat ?cur = top w div 64" "unat ?idx = unat counter div 64"
    using assms(1) by (simp_all add: unat_block replay_inv_def)
  have "?cur \<le> ?idx" using lt by (simp add: word_le_nat_alt cur div_le_mono)
  then have diff: "unat (?idx - ?cur) = unat counter div 64 - top w div 64" by (simp add: unat_sub cur)
  then have d: "unat ?d = min 128 (unat counter div 64 - top w div 64)"
    by (auto simp: word_less_nat_alt min_def)
  have "unat ?cur + unat ?d < 2 ^ 60"
    using block_bound [of "last_counter f"] assms(1) unfolding cur d by (simp add: replay_inv_def)
  note cleared = clear_blocks_nth [OF _ this]
  have "bit (clear_blocks ?cur ?d (ring f) ! (x div 64 mod 128)) (x mod 64) = (x \<in> seen w)"
    if x: "x div 64 \<le> unat counter div 64" "unat counter div 64 < x div 64 + 128" for x
  proof -
    let ?hit = "\<exists>b. top w div 64 < b \<and> b \<le> top w div 64 + min 128 (unat counter div 64 - top w div 64) \<and>
        b mod 128 = x div 64 mod 128"
    have "x div 64 mod 128 < length (ring f)" using assms(1) by (simp add: replay_inv_def)
    from cleared [OF this]
    have block: "clear_blocks ?cur ?d (ring f) ! (x div 64 mod 128) = (if ?hit then 0 else ring f ! (x div 64 mod 128))"
      unfolding cur d .
    have le: "top w div 64 \<le> unat counter div 64" using lt by (simp add: div_le_mono)
    show ?thesis
    proof (cases "x div 64 \<le> top w div 64")
      case True
      have "\<not> ?hit" using kept_block [OF True x(2) _ _ le] by blast
      moreover have "top w div 64 < x div 64 + 128" using x(2) le by linarith
      ultimately show ?thesis
        using assms(1) True unfolding block by (simp only: if_False) (simp add: replay_inv_def)
    next
      case False
      have "?hit"
      proof (cases "unat counter div 64 - top w div 64 \<le> 128")
        case near: True
        then show ?thesis using False x by (intro exI [of _ "x div 64"]) (auto simp: min_def)
      next
        case far: False
        then show ?thesis using residue_in_window by (simp add: min_def)
      qed
      moreover have "x \<notin> seen w" using assms(1) False div_le_mono by (auto simp: replay_inv_def)
      ultimately show ?thesis unfolding block by simp
    qed
  qed
  then show ?thesis
    using assms(1) lt by (auto simp: replay_inv_def advance_def Let_def)
qed

subsection \<open>Refinement\<close>

lemma Validate_steps:
  "ValidateCounter counter limit f =
     (if limit \<le> counter then (False, f)
      else if \<not> last_counter f < counter \<and> windowSize < last_counter f - counter then (False, f)
      else
        let f1 = (if last_counter f < counter then advance counter f else f);
            c = unat counter;
            old = ring f1 ! (c div 64 mod 128);
            new = old OR push_bit (c mod 64) 1
        in (old \<noteq> new, f1\<lparr>ring := (ring f1)[c div 64 mod 128 := new]\<rparr>))"
  by (simp add: ValidateCounter_def advance_def Let_def unat_and_127 unat_and_63 unat_block)

lemma near_top:
  assumes "(c :: nat) \<le> t" "t \<le> c + 8128"
  shows "c div 64 \<le> t div 64" "t div 64 < c div 64 + 128"
proof -
  show "c div 64 \<le> t div 64" using assms(1) by (rule div_le_mono)
  have "t div 64 \<le> (c + 127 * 64) div 64" using assms(2) by (intro div_le_mono) simp
  then show "t div 64 < c div 64 + 128" by simp
qed

lemma Validate_refines:
  assumes "replay_inv w f"
  shows "fst (ValidateCounter counter limit f) = spec_accepts (unat limit) (unat counter) w \<and>
    replay_inv (spec_validate (unat limit) (unat counter) w) (snd (ValidateCounter counter limit f))"
proof -
  let ?c = "unat counter"
  have top: "unat (last_counter f) = top w" using assms by (simp add: replay_inv_def)
  have lim: "limit \<le> counter \<longleftrightarrow> unat limit \<le> ?c" by (simp add: word_le_nat_alt)
  have new: "last_counter f < counter \<longleftrightarrow> top w < ?c" by (simp add: word_less_nat_alt top)
  have old: "windowSize < last_counter f - counter \<longleftrightarrow> ?c + 8128 < top w" if "\<not> top w < ?c"
  proof -
    have "unat (last_counter f - counter) = top w - ?c" using that by (simp add: unat_sub word_le_nat_alt top)
    moreover have "unat (8128 :: 64 word) = 8128" by simp
    ultimately show ?thesis unfolding word_less_nat_alt by linarith
  qed
  consider "unat limit \<le> ?c" | "\<not> unat limit \<le> ?c" "?c + 8128 < top w"
    | "\<not> unat limit \<le> ?c" "top w < ?c" | "\<not> unat limit \<le> ?c" "?c \<le> top w" "top w \<le> ?c + 8128"
    by linarith
  then show ?thesis
  proof cases
    case 1
    then show ?thesis using assms by (simp add: Validate_steps lim spec_accepts_def spec_validate_def)
  next
    case 2
    then show ?thesis using assms old by (simp add: Validate_steps lim new spec_accepts_def spec_validate_def)
  next
    case 3
    let ?f = "advance counter f" and ?w = "w\<lparr>top := ?c\<rparr>"
    have inv: "replay_inv ?w ?f" using advance_inv [OF assms] 3 new by simp
    have "?c \<notin> seen w" using assms 3(2) by (auto simp: replay_inv_def)
    then have "\<not> bit (ring ?f ! (?c div 64 mod 128)) (?c mod 64)" using inv by (auto simp: replay_inv_def)
    moreover have "replay_inv (?w\<lparr>seen := insert ?c (seen ?w)\<rparr>) (?f\<lparr>ring := (ring ?f)[?c div 64 mod 128 :=
        ring ?f ! (?c div 64 mod 128) OR push_bit (?c mod 64) 1]\<rparr>)"
      by (rule set_bit_inv [OF inv, of counter]) simp_all
    moreover have "?w\<lparr>seen := insert ?c (seen ?w)\<rparr> = spec_validate (unat limit) ?c w"
      using 3 \<open>?c \<notin> seen w\<close> by (cases w) (simp add: spec_validate_def spec_accepts_def max_def)
    ultimately show ?thesis
      using 3 \<open>?c \<notin> seen w\<close>
      by (simp add: Validate_steps lim new Let_def spec_accepts_def old_bits)
  next
    case 4
    have near: "?c div 64 \<le> top w div 64" "top w div 64 < ?c div 64 + 128" using near_top [OF 4(2,3)] .
    have bit: "bit (ring f ! (?c div 64 mod 128)) (?c mod 64) = (?c \<in> seen w)"
      using assms near by (simp add: replay_inv_def)
    have "replay_inv (w\<lparr>seen := insert ?c (seen w)\<rparr>) (f\<lparr>ring := (ring f)[?c div 64 mod 128 :=
        ring f ! (?c div 64 mod 128) OR push_bit (?c mod 64) 1]\<rparr>)"
      by (rule set_bit_inv [OF assms refl near 4(2)])
    moreover have "w\<lparr>seen := insert ?c (seen w)\<rparr> = spec_validate (unat limit) ?c w"
      using 4 by (auto simp: spec_validate_def spec_accepts_def max_def insert_absorb)
    ultimately show ?thesis
      using 4 old bit by (simp add: Validate_steps lim new Let_def spec_accepts_def old_bits)
  qed
qed

lemma Reset_inv: "replay_inv w f \<Longrightarrow> replay_inv \<lparr>seen = {}, top = 0\<rparr> (Filter_Reset f)"
  by (auto simp: replay_inv_def Filter_Reset_def)

lemma zero_inv: "replay_inv \<lparr>seen = {}, top = 0\<rparr> zero_Filter"
  by (auto simp: replay_inv_def zero_Filter_def)

subsection \<open>Histories\<close>

datatype replay_op = Validate "64 word" "64 word" | Reset

fun replay_run :: "replay_op list \<Rightarrow> Filter \<Rightarrow> bool list" where
  "replay_run [] f = []"
| "replay_run (Validate c l # ops) f = (case ValidateCounter c l f of (b, f') \<Rightarrow> b # replay_run ops f')"
| "replay_run (Reset # ops) f = replay_run ops (Filter_Reset f)"

fun spec_run :: "replay_op list \<Rightarrow> window \<Rightarrow> bool list" where
  "spec_run [] w = []"
| "spec_run (Validate c l # ops) w =
     spec_accepts (unat l) (unat c) w # spec_run ops (spec_validate (unat l) (unat c) w)"
| "spec_run (Reset # ops) w = spec_run ops \<lparr>seen = {}, top = 0\<rparr>"

lemma replay_run_spec: "replay_inv w f \<Longrightarrow> replay_run ops f = spec_run ops w"
proof (induction ops f arbitrary: w rule: replay_run.induct)
  case (2 c l ops f)
  obtain b f' where v: "ValidateCounter c l f = (b, f')" by fastforce
  with Validate_refines [OF 2(2), of c l]
  have "b = spec_accepts (unat l) (unat c) w" "replay_inv (spec_validate (unat l) (unat c) w) f'" by simp_all
  with 2(1) [OF v [symmetric]] v show ?case by simp
qed (simp_all add: Reset_inv)

text \<open>The counters that were accepted, in order.\<close>

fun accepted :: "64 word list \<Rightarrow> 64 word \<Rightarrow> Filter \<Rightarrow> 64 word list" where
  "accepted [] l f = []"
| "accepted (c # cs) l f = (case ValidateCounter c l f of (b, f') \<Rightarrow> (if b then [c] else []) @ accepted cs l f')"

lemma accepted_fresh:
  "replay_inv w f \<Longrightarrow> distinct (accepted cs l f) \<and> unat ` set (accepted cs l f) \<inter> seen w = {} \<and>
     list_all (\<lambda>c. c < l) (accepted cs l f)"
proof (induction cs l f arbitrary: w rule: accepted.induct)
  case (2 c cs l f)
  obtain b f' where v: "ValidateCounter c l f = (b, f')" by fastforce
  let ?w = "spec_validate (unat l) (unat c) w"
  have b: "b = spec_accepts (unat l) (unat c) w" and inv: "replay_inv ?w f'"
    using Validate_refines [OF 2(2), of c l] v by simp_all
  have sub: "seen w \<subseteq> seen ?w" "b \<Longrightarrow> unat c \<in> seen ?w" using b by (auto simp: spec_validate_def)
  have IH: "distinct (accepted cs l f')" "unat ` set (accepted cs l f') \<inter> seen ?w = {}"
    "list_all (\<lambda>c. c < l) (accepted cs l f')"
    using 2(1) [OF v [symmetric] inv] by auto
  have "c \<notin> set (accepted cs l f')" if b using IH(2) sub(2) [OF that] by (metis disjoint_iff imageI)
  moreover have "unat c \<notin> seen w" "c < l" if b using that b by (simp_all add: spec_accepts_def word_less_nat_alt)
  ultimately show ?case using IH sub v by auto
qed simp

subsection \<open>Properties\<close>

text \<open>
  Property C15: whatever sequence of counters, limits and resets, the filter answers as the specification
  does: a counter is accepted exactly when it is below the limit, has not been accepted since the
  last reset, and is at most 8128 behind the highest one accepted.
\<close>

theorem replay_refines_window: "replay_run ops zero_Filter = spec_run ops \<lparr>seen = {}, top = 0\<rparr>"
  by (rule replay_run_spec [OF zero_inv])

text \<open>
  Between resets no counter is accepted twice and none at or above the limit is accepted.
\<close>

theorem no_replay: "distinct (accepted cs limit zero_Filter) \<and> list_all (\<lambda>c. c < limit) (accepted cs limit zero_Filter)"
  using accepted_fresh [OF zero_inv] by blast

end
