(* ===== verification/Noise.thy ===== *)
theory Noise
  imports Noise_Messages Replay_Filter
begin

section \<open>The handshake of WireGuard (wireguard-go/device)\<close>

text \<open>
  \<^verbatim>\<open>noise-protocol.go\<close>, \<^verbatim>\<open>indextable.go\<close>, \<^verbatim>\<open>keypair.go\<close> and the operations of \<^verbatim>\<open>peer.go\<close> and \<^verbatim>\<open>device.go\<close> on
  handshakes and key pairs. Peers and key pairs are objects that the tables share by pointer: a pointer is a number
  and the device maps it to the object. Times are nanoseconds since 1970. The random source is an argument: the bytes
  of a key and the list of the indices drawn, each with a flag that is false when the source fails. Two operations
  read under a lock, release it and write under it again; they are modelled as two parts, which other operations may
  separate.
\<close>

subsection \<open>State\<close>

datatype handshakeState =
  handshakeZeroed | handshakeInitiationCreated | handshakeInitiationConsumed | handshakeResponseCreated | handshakeResponseConsumed

record Handshake =
  hs_state :: handshakeState
  hs_hash :: "byte list"
  hs_chainKey :: "byte list"
  hs_presharedKey :: "byte list"
  hs_localEphemeral :: "byte list"
  hs_localIndex :: "32 word"
  hs_remoteIndex :: "32 word"
  hs_remoteStatic :: "byte list"
  hs_remoteEphemeral :: "byte list"
  hs_precomputedStaticStatic :: "byte list"
  hs_lastTimestamp :: "byte list"
  hs_lastInitiationConsumption :: int
  hs_lastSentHandshake :: int

record Keypair =
  kp_sendNonce :: "64 word"
  kp_send :: "byte list"
  kp_receive :: "byte list"
  kp_replayFilter :: Filter
  kp_isInitiator :: bool
  kp_created :: int
  kp_localIndex :: "32 word"
  kp_remoteIndex :: "32 word"

record Keypairs =
  ks_current :: "nat option"
  ks_previous :: "nat option"
  ks_next :: "nat option"

record NPeer =
  np_isRunning :: bool
  np_keypairs :: Keypairs
  np_handshake :: Handshake

record IndexTableEntry =
  ie_peer :: "nat option"
  ie_handshake :: "nat option"
  ie_keypair :: "nat option"

type_synonym index_table = "32 word \<Rightarrow> IndexTableEntry option"

record NDevice =
  nd_closed :: bool
  nd_privateKey :: "byte list"
  nd_publicKey :: "byte list"
  nd_keyMap :: "(byte list \<times> nat) list"
  nd_peers :: "nat \<Rightarrow> NPeer"
  nd_npeers :: nat
  nd_table :: index_table
  nd_kps :: "nat \<Rightarrow> Keypair"
  nd_nkps :: nat

abbreviation (input) RejectAfterMessages :: "64 word" where "RejectAfterMessages \<equiv> 18446744073709543423"
abbreviation (input) RekeyTimeout :: int where "RekeyTimeout \<equiv> 5000000000"
abbreviation (input) second :: int where "second \<equiv> 1000000000"
abbreviation (input) HandshakeInitationRate :: int where "HandshakeInitationRate \<equiv> 20000000"
abbreviation (input) MaxPeers :: nat where "MaxPeers \<equiv> 65536"

definition zero_time :: int where
  "zero_time = - 62135596800000000000"

definition zero_Handshake :: Handshake where
  "zero_Handshake =
     \<lparr>hs_state = handshakeZeroed, hs_hash = replicate 32 0, hs_chainKey = replicate 32 0, hs_presharedKey = replicate 32 0,
      hs_localEphemeral = replicate 32 0, hs_localIndex = 0, hs_remoteIndex = 0, hs_remoteStatic = replicate 32 0,
      hs_remoteEphemeral = replicate 32 0, hs_precomputedStaticStatic = replicate 32 0,
      hs_lastTimestamp = replicate 12 0, hs_lastInitiationConsumption = zero_time, hs_lastSentHandshake = zero_time\<rparr>"

definition put_handshake :: "nat \<Rightarrow> Handshake \<Rightarrow> NDevice \<Rightarrow> NDevice" where
  "put_handshake p h dv = dv\<lparr>nd_peers := (nd_peers dv)(p := (nd_peers dv p)\<lparr>np_handshake := h\<rparr>)\<rparr>"

definition put_keypairs :: "nat \<Rightarrow> Keypairs \<Rightarrow> NDevice \<Rightarrow> NDevice" where
  "put_keypairs p ks dv = dv\<lparr>nd_peers := (nd_peers dv)(p := (nd_peers dv p)\<lparr>np_keypairs := ks\<rparr>)\<rparr>"

subsection \<open>The index table\<close>

definition IndexTable_Delete :: "32 word \<Rightarrow> NDevice \<Rightarrow> NDevice" where
  "IndexTable_Delete i dv = dv\<lparr>nd_table := (nd_table dv)(i := None)\<rparr>"

definition SwapIndexForKeypair :: "32 word \<Rightarrow> nat \<Rightarrow> NDevice \<Rightarrow> NDevice" where
  "SwapIndexForKeypair i k dv =
     (case nd_table dv i of
        None \<Rightarrow> dv
      | Some e \<Rightarrow> dv\<lparr>nd_table := (nd_table dv)(i \<mapsto> \<lparr>ie_peer = ie_peer e, ie_handshake = None, ie_keypair = Some k\<rparr>)\<rparr>)"

text \<open>
  The loop draws until an index is free; \<open>None\<close> is a loop that is still running when the draws are used up. The code
  tests under the read lock and again under the write lock, which in one step of the model is one test.
\<close>

fun NewIndexForHandshake :: "(32 word \<times> bool) list \<Rightarrow> nat \<Rightarrow> index_table \<Rightarrow> ((32 word \<times> bool) \<times> index_table) option" where
  "NewIndexForHandshake [] p t = None"
| "NewIndexForHandshake ((i, ok) # ds) p t =
     (if \<not> ok then Some ((i, False), t)
      else if t i \<noteq> None then NewIndexForHandshake ds p t
      else Some ((i, True), t(i \<mapsto> \<lparr>ie_peer = Some p, ie_handshake = Some p, ie_keypair = None\<rparr>)))"

definition IndexTable_Lookup :: "32 word \<Rightarrow> NDevice \<Rightarrow> IndexTableEntry" where
  "IndexTable_Lookup i dv =
     (case nd_table dv i of None \<Rightarrow> \<lparr>ie_peer = None, ie_handshake = None, ie_keypair = None\<rparr> | Some e \<Rightarrow> e)"

definition DeleteKeypair :: "nat option \<Rightarrow> NDevice \<Rightarrow> NDevice" where
  "DeleteKeypair key dv = (case key of None \<Rightarrow> dv | Some k \<Rightarrow> IndexTable_Delete (kp_localIndex (nd_kps dv k)) dv)"

subsection \<open>Hashes and keys of a handshake\<close>

definition NoiseConstruction :: string where
  "NoiseConstruction = ''Noise_IKpsk2_25519_ChaChaPoly_BLAKE2s''"

definition WGIdentifier :: string where
  "WGIdentifier = ''CorpLink v1 vpn@feilian-----------''"

definition ZeroNonce :: "byte list" where
  "ZeroNonce = replicate 12 0"

definition mixKey :: "noise_lib \<Rightarrow> byte list \<Rightarrow> byte list \<Rightarrow> byte list" where
  "mixKey lib c data = KDF1 lib c data"

definition mixHash :: "noise_lib \<Rightarrow> byte list \<Rightarrow> byte list \<Rightarrow> byte list" where
  "mixHash lib h data = blake2s_Sum256 lib (h @ data)"

definition InitialChainKey :: "noise_lib \<Rightarrow> byte list" where
  "InitialChainKey lib = blake2s_Sum256 lib (map of_char NoiseConstruction)"

definition InitialHash :: "noise_lib \<Rightarrow> byte list" where
  "InitialHash lib = mixHash lib (InitialChainKey lib) (map of_char WGIdentifier)"

definition Handshake_Clear :: "Handshake \<Rightarrow> Handshake" where
  "Handshake_Clear h = h\<lparr>hs_localEphemeral := setZero (hs_localEphemeral h), hs_remoteEphemeral := setZero (hs_remoteEphemeral h),
     hs_chainKey := setZero (hs_chainKey h), hs_hash := setZero (hs_hash h), hs_localIndex := 0, hs_state := handshakeZeroed\<rparr>"

definition Handshake_mixHash :: "noise_lib \<Rightarrow> byte list \<Rightarrow> Handshake \<Rightarrow> Handshake" where
  "Handshake_mixHash lib data h = h\<lparr>hs_hash := mixHash lib (hs_hash h) data\<rparr>"

definition Handshake_mixKey :: "noise_lib \<Rightarrow> byte list \<Rightarrow> Handshake \<Rightarrow> Handshake" where
  "Handshake_mixKey lib data h = h\<lparr>hs_chainKey := mixKey lib (hs_chainKey h) data\<rparr>"

subsection \<open>Initiation\<close>

definition errInvalidPublicKey :: string where
  "errInvalidPublicKey = ''invalid public key''"

text \<open>
  The part before the index is assigned works on the handshake alone; an error keeps what was written until then.
\<close>

definition initiation_static :: "noise_lib \<Rightarrow> byte list \<times> bool \<Rightarrow> byte list \<Rightarrow> Handshake \<Rightarrow> (string, byte list \<times> byte list) res \<times> Handshake" where
  "initiation_static lib rk pk h =
     (let (sk, ok) = newPrivateKey rk;
          h = h\<lparr>hs_hash := InitialHash lib, hs_chainKey := InitialChainKey lib, hs_localEphemeral := sk\<rparr>
      in if \<not> ok then (Err ''rand'', h)
         else
           let h = Handshake_mixHash lib (hs_remoteStatic h) h;
               eph = publicKey lib (hs_localEphemeral h);
               h = Handshake_mixKey lib eph h;
               h = Handshake_mixHash lib eph h;
               (ss, ok) = sharedSecret lib (hs_localEphemeral h) (hs_remoteStatic h)
           in if \<not> ok then (Err errInvalidPublicKey, h)
              else
                let (ck, key) = KDF2 lib (hs_chainKey h) ss;
                    h = h\<lparr>hs_chainKey := ck\<rparr>;
                    st = aead_Seal lib key ZeroNonce pk (hs_hash h)
                in (Ok (eph, st), Handshake_mixHash lib st h))"

definition CreateMessageInitiation ::
  "noise_lib \<Rightarrow> byte list \<times> bool \<Rightarrow> byte list \<Rightarrow> (32 word \<times> bool) list \<Rightarrow> nat \<Rightarrow> NDevice \<Rightarrow>
   ((string, MessageInitiation) res \<times> NDevice) option" where
  "CreateMessageInitiation lib rk timestamp draws p dv =
     (case initiation_static lib rk (nd_publicKey dv) (np_handshake (nd_peers dv p)) of
        (Err e, h) \<Rightarrow> Some (Err e, put_handshake p h dv)
      | (Ok (eph, st), h) \<Rightarrow>
          if isZero (hs_precomputedStaticStatic h) then Some (Err errInvalidPublicKey, put_handshake p h dv)
          else
            let (ck, key) = KDF2 lib (hs_chainKey h) (hs_precomputedStaticStatic h);
                h = h\<lparr>hs_chainKey := ck\<rparr>;
                ts = aead_Seal lib key ZeroNonce timestamp (hs_hash h);
                dv = IndexTable_Delete (hs_localIndex h) dv
            in case NewIndexForHandshake draws p (nd_table dv) of
                 None \<Rightarrow> None
               | Some ((i, ok), t) \<Rightarrow>
                   if \<not> ok then Some (Err ''rand'', put_handshake p h dv)
                   else Some (Ok \<lparr>mi_Type = MessageInitiationType, mi_Sender = i, mi_Ephemeral = eph, mi_Static = st,
                                  mi_Timestamp = ts, mi_MAC1 = replicate 16 0, mi_MAC2 = replicate 16 0\<rparr>,
                     put_handshake p
                       ((Handshake_mixHash lib ts (h\<lparr>hs_localIndex := i\<rparr>))\<lparr>hs_state := handshakeInitiationCreated\<rparr>)
                       (dv\<lparr>nd_table := t\<rparr>)))"

definition LookupPeer :: "byte list \<Rightarrow> NDevice \<Rightarrow> nat option" where
  "LookupPeer pk dv = map_of (nd_keyMap dv) pk"

text \<open>
  \<open>check_initiation\<close> is the part of \<^verbatim>\<open>ConsumeMessageInitiation\<close> that reads, \<open>commit_initiation\<close> the part that
  writes under the lock taken again.
\<close>

record initiation_result =
  ir_peer :: nat
  ir_hash :: "byte list"
  ir_chainKey :: "byte list"
  ir_timestamp :: "byte list"

definition open_initiation :: "noise_lib \<Rightarrow> MessageInitiation \<Rightarrow> NDevice \<Rightarrow> initiation_result option" where
  "open_initiation lib msg dv =
     (if mi_Type msg \<noteq> MessageInitiationType then None
      else
        let hash = mixHash lib (InitialHash lib) (nd_publicKey dv);
            hash = mixHash lib hash (mi_Ephemeral msg);
            ck = mixKey lib (InitialChainKey lib) (mi_Ephemeral msg);
            (ss, ok) = sharedSecret lib (nd_privateKey dv) (mi_Ephemeral msg)
        in if \<not> ok then None
           else
             let (ck, key) = KDF2 lib ck ss
             in case aead_Open lib key ZeroNonce (mi_Static msg) hash of
                  None \<Rightarrow> None
                | Some peerPK \<Rightarrow>
                    let hash = mixHash lib hash (mi_Static msg)
                    in case LookupPeer peerPK dv of
                         None \<Rightarrow> None
                       | Some p \<Rightarrow>
                           let h = np_handshake (nd_peers dv p)
                           in if \<not> np_isRunning (nd_peers dv p) \<or> isZero (hs_precomputedStaticStatic h) then None
                              else
                                let (ck, key) = KDF2 lib ck (hs_precomputedStaticStatic h)
                                in case aead_Open lib key ZeroNonce (mi_Timestamp msg) hash of
                                     None \<Rightarrow> None
                                   | Some ts \<Rightarrow>
                                       Some \<lparr>ir_peer = p, ir_hash = mixHash lib hash (mi_Timestamp msg),
                                             ir_chainKey = ck, ir_timestamp = ts\<rparr>)"

definition check_initiation :: "noise_lib \<Rightarrow> int \<Rightarrow> MessageInitiation \<Rightarrow> NDevice \<Rightarrow> initiation_result option" where
  "check_initiation lib now msg dv =
     (case open_initiation lib msg dv of
        None \<Rightarrow> None
      | Some r \<Rightarrow>
          let h = np_handshake (nd_peers dv (ir_peer r));
              replay = (\<not> Timestamp_After (ir_timestamp r) (hs_lastTimestamp h));
              flood = (now - hs_lastInitiationConsumption h \<le> HandshakeInitationRate)
          in if replay then None else if flood then None else Some r)"

definition commit_initiation :: "int \<Rightarrow> MessageInitiation \<Rightarrow> initiation_result \<Rightarrow> NDevice \<Rightarrow> NDevice" where
  "commit_initiation now msg r dv =
     (let h = np_handshake (nd_peers dv (ir_peer r));
          h = h\<lparr>hs_hash := ir_hash r, hs_chainKey := ir_chainKey r, hs_remoteIndex := mi_Sender msg, hs_remoteEphemeral := mi_Ephemeral msg\<rparr>;
          h = (if Timestamp_After (ir_timestamp r) (hs_lastTimestamp h) then h\<lparr>hs_lastTimestamp := ir_timestamp r\<rparr> else h);
          h = (if hs_lastInitiationConsumption h < now then h\<lparr>hs_lastInitiationConsumption := now\<rparr> else h);
          h = h\<lparr>hs_state := handshakeInitiationConsumed\<rparr>
      in put_handshake (ir_peer r) h dv)"

definition ConsumeMessageInitiation :: "noise_lib \<Rightarrow> int \<Rightarrow> MessageInitiation \<Rightarrow> NDevice \<Rightarrow> nat option \<times> NDevice" where
  "ConsumeMessageInitiation lib now msg dv =
     (case check_initiation lib now msg dv of
        None \<Rightarrow> (None, dv)
      | Some r \<Rightarrow> (Some (ir_peer r), commit_initiation now msg r dv))"

subsection \<open>Response\<close>

definition response_keys :: "noise_lib \<Rightarrow> byte list \<times> bool \<Rightarrow> Handshake \<Rightarrow> (string, byte list \<times> byte list) res \<times> Handshake" where
  "response_keys lib rk h =
     (let (sk, ok) = newPrivateKey rk; h = h\<lparr>hs_localEphemeral := sk\<rparr>
      in if \<not> ok then (Err ''rand'', h)
         else
           let eph = publicKey lib (hs_localEphemeral h);
               h = Handshake_mixHash lib eph h;
               h = Handshake_mixKey lib eph h;
               (ss, ok) = sharedSecret lib (hs_localEphemeral h) (hs_remoteEphemeral h)
           in if \<not> ok then (Err errInvalidPublicKey, h)
              else
                let h = Handshake_mixKey lib ss h;
                    (ss, ok) = sharedSecret lib (hs_localEphemeral h) (hs_remoteStatic h)
                in if \<not> ok then (Err errInvalidPublicKey, h)
                   else
                     let h = Handshake_mixKey lib ss h;
                         (ck, tau, key) = KDF3 lib (hs_chainKey h) (hs_presharedKey h);
                         h = Handshake_mixHash lib tau (h\<lparr>hs_chainKey := ck\<rparr>);
                         em = aead_Seal lib key ZeroNonce [] (hs_hash h)
                     in (Ok (eph, em), (Handshake_mixHash lib em h)\<lparr>hs_state := handshakeResponseCreated\<rparr>))"

definition CreateMessageResponse ::
  "noise_lib \<Rightarrow> byte list \<times> bool \<Rightarrow> (32 word \<times> bool) list \<Rightarrow> nat \<Rightarrow> NDevice \<Rightarrow> ((string, MessageResponse) res \<times> NDevice) option" where
  "CreateMessageResponse lib rk draws p dv =
     (let h = np_handshake (nd_peers dv p)
      in if hs_state h \<noteq> handshakeInitiationConsumed then Some (Err ''handshake initiation must be consumed first'', dv)
         else
           let dv = IndexTable_Delete (hs_localIndex h) dv
           in case NewIndexForHandshake draws p (nd_table dv) of
                None \<Rightarrow> None
              | Some ((i, ok), t) \<Rightarrow>
                  let h = h\<lparr>hs_localIndex := i\<rparr>; dv = dv\<lparr>nd_table := t\<rparr>
                  in if \<not> ok then Some (Err ''rand'', put_handshake p h dv)
                     else case response_keys lib rk h of
                            (Err e, h') \<Rightarrow> Some (Err e, put_handshake p h' dv)
                          | (Ok (eph, em), h') \<Rightarrow>
                              Some (Ok \<lparr>mr_Type = MessageResponseType, mr_Sender = hs_localIndex h, mr_Receiver = hs_remoteIndex h,
                                        mr_Ephemeral = eph, mr_Empty = em, mr_MAC1 = replicate 16 0, mr_MAC2 = replicate 16 0\<rparr>,
                                    put_handshake p h' dv))"

record response_result =
  rr_handshake :: nat
  rr_peer :: "nat option"
  rr_hash :: "byte list"
  rr_chainKey :: "byte list"

definition check_response :: "noise_lib \<Rightarrow> MessageResponse \<Rightarrow> NDevice \<Rightarrow> response_result option" where
  "check_response lib msg dv =
     (if mr_Type msg \<noteq> MessageResponseType then None
      else
        let e = IndexTable_Lookup (mr_Receiver msg) dv
        in case ie_handshake e of
             None \<Rightarrow> None
           | Some p \<Rightarrow>
               let h = np_handshake (nd_peers dv p)
               in if hs_state h \<noteq> handshakeInitiationCreated then None
                  else
                    let hash = mixHash lib (hs_hash h) (mr_Ephemeral msg);
                        ck = mixKey lib (hs_chainKey h) (mr_Ephemeral msg);
                        (ss, ok) = sharedSecret lib (hs_localEphemeral h) (mr_Ephemeral msg)
                    in if \<not> ok then None
                       else
                         let ck = mixKey lib ck ss;
                             (ss, ok) = sharedSecret lib (nd_privateKey dv) (mr_Ephemeral msg)
                         in if \<not> ok then None
                            else
                              let ck = mixKey lib ck ss;
                                  (ck, tau, key) = KDF3 lib ck (hs_presharedKey h);
                                  hash = mixHash lib hash tau
                              in case aead_Open lib key ZeroNonce (mr_Empty msg) hash of
                                   None \<Rightarrow> None
                                 | Some _ \<Rightarrow>
                                     Some \<lparr>rr_handshake = p, rr_peer = ie_peer e,
                                           rr_hash = mixHash lib hash (mr_Empty msg), rr_chainKey = ck\<rparr>)"

definition commit_response :: "MessageResponse \<Rightarrow> response_result \<Rightarrow> NDevice \<Rightarrow> NDevice" where
  "commit_response msg r dv =
     put_handshake (rr_handshake r)
       ((np_handshake (nd_peers dv (rr_handshake r)))
          \<lparr>hs_hash := rr_hash r, hs_chainKey := rr_chainKey r, hs_remoteIndex := mr_Sender msg, hs_state := handshakeResponseConsumed\<rparr>) dv"

definition ConsumeMessageResponse :: "noise_lib \<Rightarrow> MessageResponse \<Rightarrow> NDevice \<Rightarrow> nat option \<times> NDevice" where
  "ConsumeMessageResponse lib msg dv =
     (case check_response lib msg dv of
        None \<Rightarrow> (None, dv)
      | Some r \<Rightarrow> (rr_peer r, commit_response msg r dv))"

subsection \<open>Sessions\<close>

definition session_keys :: "noise_lib \<Rightarrow> Handshake \<Rightarrow> (bool \<times> byte list \<times> byte list) option" where
  "session_keys lib h =
     (case hs_state h of
        handshakeResponseConsumed \<Rightarrow> (let (s, r) = KDF2 lib (hs_chainKey h) [] in Some (True, s, r))
      | handshakeResponseCreated \<Rightarrow> (let (r, s) = KDF2 lib (hs_chainKey h) [] in Some (False, s, r))
      | _ \<Rightarrow> None)"

definition rotate_keypairs :: "bool \<Rightarrow> nat \<Rightarrow> nat \<Rightarrow> NDevice \<Rightarrow> NDevice" where
  "rotate_keypairs initiator k p dv =
     (let ks = np_keypairs (nd_peers dv p)
      in if initiator then
           let dv = (if ks_next ks \<noteq> None
                     then DeleteKeypair (ks_current ks) (put_keypairs p (ks\<lparr>ks_next := None, ks_previous := ks_next ks\<rparr>) dv)
                     else put_keypairs p (ks\<lparr>ks_previous := ks_current ks\<rparr>) dv);
               dv = DeleteKeypair (ks_previous ks) dv
           in put_keypairs p ((np_keypairs (nd_peers dv p))\<lparr>ks_current := Some k\<rparr>) dv
         else
           let dv = DeleteKeypair (ks_next ks) (put_keypairs p (ks\<lparr>ks_next := Some k\<rparr>) dv);
               dv = put_keypairs p ((np_keypairs (nd_peers dv p))\<lparr>ks_previous := None\<rparr>) dv
           in DeleteKeypair (ks_previous ks) dv)"

definition BeginSymmetricSession :: "noise_lib \<Rightarrow> int \<Rightarrow> nat \<Rightarrow> NDevice \<Rightarrow> string option \<times> NDevice" where
  "BeginSymmetricSession lib now p dv =
     (let h = np_handshake (nd_peers dv p)
      in case session_keys lib h of
           None \<Rightarrow> (Some ''invalid state for keypair derivation'', dv)
         | Some (initiator, s, r) \<Rightarrow>
             let kp = \<lparr>kp_sendNonce = 0, kp_send = s, kp_receive = r, kp_replayFilter = Filter_Reset zero_Filter,
                       kp_isInitiator = initiator, kp_created = now, kp_localIndex = hs_localIndex h, kp_remoteIndex = hs_remoteIndex h\<rparr>;
                 k = nd_nkps dv;
                 dv = dv\<lparr>nd_kps := (nd_kps dv)(k := kp), nd_nkps := Suc k\<rparr>;
                 dv = SwapIndexForKeypair (hs_localIndex h) k dv;
                 h' = h\<lparr>hs_chainKey := setZero (hs_chainKey h), hs_hash := setZero (hs_hash h),
                        hs_localEphemeral := setZero (hs_localEphemeral h), hs_state := handshakeZeroed, hs_localIndex := 0\<rparr>
             in (None, rotate_keypairs initiator k p (put_handshake p h' dv)))"

definition ReceivedWithKeypair :: "nat \<Rightarrow> nat \<Rightarrow> NDevice \<Rightarrow> bool \<times> NDevice" where
  "ReceivedWithKeypair p k dv =
     (let ks = np_keypairs (nd_peers dv p)
      in if ks_next ks \<noteq> Some k then (False, dv)
         else (True, put_keypairs p \<lparr>ks_current = ks_next ks, ks_previous = ks_current ks, ks_next = None\<rparr> (DeleteKeypair (ks_previous ks) dv)))"

subsection \<open>Peers\<close>

definition ZeroAndFlushAll :: "nat \<Rightarrow> NDevice \<Rightarrow> NDevice" where
  "ZeroAndFlushAll p dv =
     (let ks = np_keypairs (nd_peers dv p);
          dv = DeleteKeypair (ks_next ks) (DeleteKeypair (ks_current ks) (DeleteKeypair (ks_previous ks) dv));
          dv = put_keypairs p \<lparr>ks_current = None, ks_previous = None, ks_next = None\<rparr> dv;
          h = np_handshake (nd_peers dv p);
          dv = IndexTable_Delete (hs_localIndex h) dv
      in put_handshake p (Handshake_Clear h) dv)"

definition expire_keypair :: "nat option \<Rightarrow> NDevice \<Rightarrow> NDevice" where
  "expire_keypair key dv =
     (case key of
        None \<Rightarrow> dv
      | Some k \<Rightarrow> dv\<lparr>nd_kps := (nd_kps dv)(k := (nd_kps dv k)\<lparr>kp_sendNonce := RejectAfterMessages\<rparr>)\<rparr>)"

definition ExpireCurrentKeypairs :: "int \<Rightarrow> nat \<Rightarrow> NDevice \<Rightarrow> NDevice" where
  "ExpireCurrentKeypairs now p dv =
     (let h = np_handshake (nd_peers dv p);
          dv = IndexTable_Delete (hs_localIndex h) dv;
          dv = put_handshake p ((Handshake_Clear h)\<lparr>hs_lastSentHandshake := now - (RekeyTimeout + second)\<rparr>) dv;
          ks = np_keypairs (nd_peers dv p)
      in expire_keypair (ks_next ks) (expire_keypair (ks_current ks) dv))"

text \<open>The goroutines, timers and queues that starting and stopping a peer concerns are not part of this state.\<close>

definition put_running :: "nat \<Rightarrow> bool \<Rightarrow> NDevice \<Rightarrow> NDevice" where
  "put_running p b dv = dv\<lparr>nd_peers := (nd_peers dv)(p := (nd_peers dv p)\<lparr>np_isRunning := b\<rparr>)\<rparr>"

definition Peer_Start :: "int \<Rightarrow> nat \<Rightarrow> NDevice \<Rightarrow> NDevice" where
  "Peer_Start now p dv =
     (if nd_closed dv \<or> np_isRunning (nd_peers dv p) then dv
      else put_running p True
        (put_handshake p ((np_handshake (nd_peers dv p))\<lparr>hs_lastSentHandshake := now - (RekeyTimeout + second)\<rparr>) dv))"

definition Peer_Stop :: "nat \<Rightarrow> NDevice \<Rightarrow> NDevice" where
  "Peer_Stop p dv = (if \<not> np_isRunning (nd_peers dv p) then dv else ZeroAndFlushAll p (put_running p False dv))"

definition NewPeer :: "noise_lib \<Rightarrow> byte list \<Rightarrow> NDevice \<Rightarrow> (string, nat) res \<times> NDevice" where
  "NewPeer lib pk dv =
     (if nd_closed dv then (Err ''device closed'', dv)
      else if MaxPeers \<le> length (nd_keyMap dv) then (Err ''too many peers'', dv)
      else if map_of (nd_keyMap dv) pk \<noteq> None then (Err ''adding existing peer'', dv)
      else
        let p = nd_npeers dv;
            h = zero_Handshake\<lparr>hs_precomputedStaticStatic := fst (sharedSecret lib (nd_privateKey dv) pk), hs_remoteStatic := pk\<rparr>
        in (Ok p, dv\<lparr>nd_peers := (nd_peers dv)(p := \<lparr>np_isRunning = False,
                          np_keypairs = \<lparr>ks_current = None, ks_previous = None, ks_next = None\<rparr>, np_handshake = h\<rparr>),
                      nd_npeers := Suc p, nd_keyMap := (pk, p) # nd_keyMap dv\<rparr>))"

definition removePeerLocked :: "nat \<Rightarrow> byte list \<Rightarrow> NDevice \<Rightarrow> NDevice" where
  "removePeerLocked p key dv = (Peer_Stop p dv)\<lparr>nd_keyMap := filter (\<lambda>(k, _). k \<noteq> key) (nd_keyMap dv)\<rparr>"

definition RemovePeer :: "byte list \<Rightarrow> NDevice \<Rightarrow> NDevice" where
  "RemovePeer key dv = (case map_of (nd_keyMap dv) key of None \<Rightarrow> dv | Some p \<Rightarrow> removePeerLocked p key dv)"

definition RemoveAllPeers :: "NDevice \<Rightarrow> NDevice" where
  "RemoveAllPeers dv = (fold (\<lambda>(key, p). removePeerLocked p key) (nd_keyMap dv) dv)\<lparr>nd_keyMap := []\<rparr>"

definition SetPrivateKey :: "noise_lib \<Rightarrow> int \<Rightarrow> byte list \<Rightarrow> NDevice \<Rightarrow> NDevice" where
  "SetPrivateKey lib now sk dv =
     (if sk = nd_privateKey dv then dv
      else
        let pk = publicKey lib sk;
            dv = fold (\<lambda>(key, p) dv. if hs_remoteStatic (np_handshake (nd_peers dv p)) = pk then removePeerLocked p key dv else dv)
                   (nd_keyMap dv) dv;
            dv = dv\<lparr>nd_privateKey := sk, nd_publicKey := pk\<rparr>;
            dv = fold (\<lambda>(key, p) dv.
                         let h = np_handshake (nd_peers dv p)
                         in put_handshake p (h\<lparr>hs_precomputedStaticStatic := fst (sharedSecret lib sk (hs_remoteStatic h))\<rparr>) dv)
                   (nd_keyMap dv) dv
        in fold (\<lambda>(key, p). ExpireCurrentKeypairs now p) (nd_keyMap dv) dv)"

subsection \<open>Agreement\<close>

text \<open>
  \<open>paired lib A p B q\<close>: each device has the other as a peer, which runs on the responder, with the keys that
  \<^verbatim>\<open>NewPeer\<close> computes, and both have the same preshared key.
\<close>

abbreviation nd_handshake :: "NDevice \<Rightarrow> nat \<Rightarrow> Handshake" where
  "nd_handshake dv p \<equiv> np_handshake (nd_peers dv p)"

definition knows_peer :: "noise_lib \<Rightarrow> NDevice \<Rightarrow> nat \<Rightarrow> byte list \<Rightarrow> bool" where
  "knows_peer lib dv p pk \<longleftrightarrow>
     nd_publicKey dv = publicKey lib (nd_privateKey dv) \<and> hs_remoteStatic (nd_handshake dv p) = pk \<and>
     hs_precomputedStaticStatic (nd_handshake dv p) = fst (sharedSecret lib (nd_privateKey dv) pk)"

definition paired :: "noise_lib \<Rightarrow> NDevice \<Rightarrow> nat \<Rightarrow> NDevice \<Rightarrow> nat \<Rightarrow> bool" where
  "paired lib A p B q \<longleftrightarrow>
     knows_peer lib A p (nd_publicKey B) \<and> knows_peer lib B q (nd_publicKey A) \<and>
     LookupPeer (nd_publicKey A) B = Some q \<and> np_isRunning (nd_peers B q) \<and>
     hs_presharedKey (nd_handshake A p) = hs_presharedKey (nd_handshake B q)"

lemma put_handshake_simps [simp]:
  "nd_handshake (put_handshake p h dv) q = (if q = p then h else nd_handshake dv q)"
  "np_keypairs (nd_peers (put_handshake p h dv) q) = np_keypairs (nd_peers dv q)"
  "np_isRunning (nd_peers (put_handshake p h dv) q) = np_isRunning (nd_peers dv q)"
  "nd_table (put_handshake p h dv) = nd_table dv" "nd_kps (put_handshake p h dv) = nd_kps dv"
  "nd_nkps (put_handshake p h dv) = nd_nkps dv" "nd_npeers (put_handshake p h dv) = nd_npeers dv"
  "nd_privateKey (put_handshake p h dv) = nd_privateKey dv" "nd_publicKey (put_handshake p h dv) = nd_publicKey dv"
  "nd_keyMap (put_handshake p h dv) = nd_keyMap dv" "nd_closed (put_handshake p h dv) = nd_closed dv"
  by (simp_all add: put_handshake_def)

lemma put_keypairs_simps [simp]:
  "np_keypairs (nd_peers (put_keypairs p ks dv) q) = (if q = p then ks else np_keypairs (nd_peers dv q))"
  "nd_handshake (put_keypairs p ks dv) q = nd_handshake dv q"
  "np_isRunning (nd_peers (put_keypairs p ks dv) q) = np_isRunning (nd_peers dv q)"
  "nd_table (put_keypairs p ks dv) = nd_table dv" "nd_kps (put_keypairs p ks dv) = nd_kps dv"
  "nd_nkps (put_keypairs p ks dv) = nd_nkps dv" "nd_npeers (put_keypairs p ks dv) = nd_npeers dv"
  "nd_privateKey (put_keypairs p ks dv) = nd_privateKey dv" "nd_publicKey (put_keypairs p ks dv) = nd_publicKey dv"
  "nd_keyMap (put_keypairs p ks dv) = nd_keyMap dv" "nd_closed (put_keypairs p ks dv) = nd_closed dv"
  by (simp_all add: put_keypairs_def)

lemma table_ops_simps [simp]:
  "nd_peers (IndexTable_Delete i dv) = nd_peers dv" "nd_peers (SwapIndexForKeypair i k dv) = nd_peers dv" "nd_peers (DeleteKeypair key dv) = nd_peers dv"
  "nd_kps (IndexTable_Delete i dv) = nd_kps dv" "nd_kps (SwapIndexForKeypair i k dv) = nd_kps dv" "nd_kps (DeleteKeypair key dv) = nd_kps dv"
  "nd_nkps (IndexTable_Delete i dv) = nd_nkps dv" "nd_nkps (SwapIndexForKeypair i k dv) = nd_nkps dv" "nd_nkps (DeleteKeypair key dv) = nd_nkps dv"
  "nd_npeers (IndexTable_Delete i dv) = nd_npeers dv" "nd_npeers (SwapIndexForKeypair i k dv) = nd_npeers dv" "nd_npeers (DeleteKeypair key dv) = nd_npeers dv"
  "nd_privateKey (IndexTable_Delete i dv) = nd_privateKey dv" "nd_privateKey (SwapIndexForKeypair i k dv) = nd_privateKey dv" "nd_privateKey (DeleteKeypair key dv) = nd_privateKey dv"
  "nd_publicKey (IndexTable_Delete i dv) = nd_publicKey dv" "nd_publicKey (SwapIndexForKeypair i k dv) = nd_publicKey dv" "nd_publicKey (DeleteKeypair key dv) = nd_publicKey dv"
  "nd_keyMap (IndexTable_Delete i dv) = nd_keyMap dv" "nd_keyMap (SwapIndexForKeypair i k dv) = nd_keyMap dv" "nd_keyMap (DeleteKeypair key dv) = nd_keyMap dv"
  by (simp_all add: IndexTable_Delete_def SwapIndexForKeypair_def DeleteKeypair_def split: option.split)

lemma mix_simps [simp]:
  "hs_hash (Handshake_mixHash lib d h) = mixHash lib (hs_hash h) d" "hs_hash (Handshake_mixKey lib d h) = hs_hash h"
  "hs_chainKey (Handshake_mixHash lib d h) = hs_chainKey h" "hs_chainKey (Handshake_mixKey lib d h) = mixKey lib (hs_chainKey h) d"
  "hs_localEphemeral (Handshake_mixHash lib d h) = hs_localEphemeral h" "hs_localEphemeral (Handshake_mixKey lib d h) = hs_localEphemeral h"
  "hs_remoteStatic (Handshake_mixHash lib d h) = hs_remoteStatic h" "hs_remoteStatic (Handshake_mixKey lib d h) = hs_remoteStatic h"
  "hs_remoteEphemeral (Handshake_mixHash lib d h) = hs_remoteEphemeral h" "hs_remoteEphemeral (Handshake_mixKey lib d h) = hs_remoteEphemeral h"
  "hs_presharedKey (Handshake_mixHash lib d h) = hs_presharedKey h" "hs_presharedKey (Handshake_mixKey lib d h) = hs_presharedKey h"
  "hs_localIndex (Handshake_mixHash lib d h) = hs_localIndex h" "hs_localIndex (Handshake_mixKey lib d h) = hs_localIndex h"
  "hs_remoteIndex (Handshake_mixHash lib d h) = hs_remoteIndex h" "hs_remoteIndex (Handshake_mixKey lib d h) = hs_remoteIndex h"
  "hs_precomputedStaticStatic (Handshake_mixHash lib d h) = hs_precomputedStaticStatic h" "hs_precomputedStaticStatic (Handshake_mixKey lib d h) = hs_precomputedStaticStatic h"
  "hs_lastTimestamp (Handshake_mixHash lib d h) = hs_lastTimestamp h" "hs_lastTimestamp (Handshake_mixKey lib d h) = hs_lastTimestamp h"
  by (simp_all add: Handshake_mixHash_def Handshake_mixKey_def)

lemma NewIndex_Some:
  "NewIndexForHandshake ds p t = Some ((i, True), t') \<Longrightarrow>
   t i = None \<and> (i, True) \<in> set ds \<and> t' = t(i \<mapsto> \<lparr>ie_peer = Some p, ie_handshake = Some p, ie_keypair = None\<rparr>)"
  by (induction ds) (auto split: if_splits)

text \<open>
  The transcript of the two messages, computed from the secrets both sides can derive: the sealed fields, the hash and
  the chaining key.
\<close>

definition init_transcript ::
  "noise_lib \<Rightarrow> byte list \<Rightarrow> byte list \<Rightarrow> byte list \<Rightarrow> byte list \<Rightarrow> byte list \<Rightarrow> byte list \<Rightarrow> byte list \<times> byte list \<times> byte list \<times> byte list" where
  "init_transcript lib responder eph ss initiator pss ts =
     (let h1 = mixHash lib (mixHash lib (InitialHash lib) responder) eph;
          (c1, k1) = KDF2 lib (mixKey lib (InitialChainKey lib) eph) ss;
          st = aead_Seal lib k1 ZeroNonce initiator h1;
          h2 = mixHash lib h1 st;
          (c2, k2) = KDF2 lib c1 pss;
          t = aead_Seal lib k2 ZeroNonce ts h2
      in (st, t, mixHash lib h2 t, c2))"

definition resp_transcript ::
  "noise_lib \<Rightarrow> byte list \<Rightarrow> byte list \<Rightarrow> byte list \<Rightarrow> byte list \<Rightarrow> byte list \<Rightarrow> byte list \<Rightarrow> byte list \<times> byte list \<times> byte list" where
  "resp_transcript lib hash ck eph ee se psk =
     (let h1 = mixHash lib hash eph;
          (c, tau, k) = KDF3 lib (mixKey lib (mixKey lib (mixKey lib ck eph) ee) se) psk;
          h2 = mixHash lib h1 tau;
          em = aead_Seal lib k ZeroNonce [] h2
      in (em, mixHash lib h2 em, c))"

lemma create_initiation_Ok:
  assumes "CreateMessageInitiation lib rk ts draws p A = Some (Ok m, A1)"
    and tr: "init_transcript lib (hs_remoteStatic (nd_handshake A p)) (publicKey lib (clamp (fst rk)))
      (fst (sharedSecret lib (clamp (fst rk)) (hs_remoteStatic (nd_handshake A p)))) (nd_publicKey A)
      (hs_precomputedStaticStatic (nd_handshake A p)) ts = (st, t, hash, ck)"
  shows "snd (sharedSecret lib (clamp (fst rk)) (hs_remoteStatic (nd_handshake A p)))"
    and "\<not> isZero (hs_precomputedStaticStatic (nd_handshake A p))"
    and "m = \<lparr>mi_Type = 1, mi_Sender = mi_Sender m, mi_Ephemeral = publicKey lib (clamp (fst rk)), mi_Static = st, mi_Timestamp = t,
      mi_MAC1 = replicate 16 0, mi_MAC2 = replicate 16 0\<rparr>"
    and "A1 = put_handshake p ((nd_handshake A p)\<lparr>hs_localEphemeral := clamp (fst rk), hs_chainKey := ck,
        hs_localIndex := mi_Sender m, hs_hash := hash, hs_state := handshakeInitiationCreated\<rparr>)
      ((IndexTable_Delete (hs_localIndex (nd_handshake A p)) A)
         \<lparr>nd_table := (nd_table (IndexTable_Delete (hs_localIndex (nd_handshake A p)) A))
         (mi_Sender m \<mapsto> \<lparr>ie_peer = Some p, ie_handshake = Some p, ie_keypair = None\<rparr>)\<rparr>)"
    and "(mi_Sender m, True) \<in> set draws" "nd_table (IndexTable_Delete (hs_localIndex (nd_handshake A p)) A) (mi_Sender m) = None"
  using assms
  by (auto simp: CreateMessageInitiation_def initiation_static_def init_transcript_def newPrivateKey_def
      Handshake_mixHash_def Handshake_mixKey_def Let_def
      split: prod.splits if_splits option.splits sum.splits dest!: NewIndex_Some)

lemma open_initiation_transcript:
  assumes laws: "noise_laws lib" and "mi_Type m = 1" "mi_Static m = st" "mi_Timestamp m = t"
    and tr: "init_transcript lib (nd_publicKey B) (mi_Ephemeral m) (fst (sharedSecret lib (nd_privateKey B) (mi_Ephemeral m)))
      initiator (hs_precomputedStaticStatic (nd_handshake B q)) ts = (st, t, hash, ck)"
    and "snd (sharedSecret lib (nd_privateKey B) (mi_Ephemeral m))" "LookupPeer initiator B = Some q"
    and "np_isRunning (nd_peers B q)" "\<not> isZero (hs_precomputedStaticStatic (nd_handshake B q))"
  shows "open_initiation lib m B = Some \<lparr>ir_peer = q, ir_hash = hash, ir_chainKey = ck, ir_timestamp = ts\<rparr>"
  using assms
  by (cases m) (auto simp: open_initiation_def init_transcript_def noise_open Let_def split: prod.splits)

lemma create_response_Ok:
  assumes "CreateMessageResponse lib rk draws q B = Some (Ok m, B1)"
    and tr: "resp_transcript lib (hs_hash (nd_handshake B q)) (hs_chainKey (nd_handshake B q)) (publicKey lib (clamp (fst rk)))
      (fst (sharedSecret lib (clamp (fst rk)) (hs_remoteEphemeral (nd_handshake B q))))
      (fst (sharedSecret lib (clamp (fst rk)) (hs_remoteStatic (nd_handshake B q))))
      (hs_presharedKey (nd_handshake B q)) = (em, hash, ck)"
  shows "hs_state (nd_handshake B q) = handshakeInitiationConsumed"
    and "snd (sharedSecret lib (clamp (fst rk)) (hs_remoteEphemeral (nd_handshake B q)))"
    and "snd (sharedSecret lib (clamp (fst rk)) (hs_remoteStatic (nd_handshake B q)))"
    and "m = \<lparr>mr_Type = 2, mr_Sender = mr_Sender m, mr_Receiver = hs_remoteIndex (nd_handshake B q),
      mr_Ephemeral = publicKey lib (clamp (fst rk)), mr_Empty = em, mr_MAC1 = replicate 16 0, mr_MAC2 = replicate 16 0\<rparr>"
    and "B1 = put_handshake q ((nd_handshake B q)\<lparr>hs_localIndex := mr_Sender m, hs_localEphemeral := clamp (fst rk),
        hs_chainKey := ck, hs_hash := hash, hs_state := handshakeResponseCreated\<rparr>)
      ((IndexTable_Delete (hs_localIndex (nd_handshake B q)) B)
         \<lparr>nd_table := (nd_table (IndexTable_Delete (hs_localIndex (nd_handshake B q)) B))
         (mr_Sender m \<mapsto> \<lparr>ie_peer = Some q, ie_handshake = Some q, ie_keypair = None\<rparr>)\<rparr>)"
    and "(mr_Sender m, True) \<in> set draws" "nd_table (IndexTable_Delete (hs_localIndex (nd_handshake B q)) B) (mr_Sender m) = None"
  using assms
  by (auto simp: CreateMessageResponse_def response_keys_def resp_transcript_def newPrivateKey_def
      Handshake_mixHash_def Handshake_mixKey_def Let_def
      split: prod.splits if_splits option.splits sum.splits dest!: NewIndex_Some)

lemma check_response_transcript:
  assumes laws: "noise_laws lib" and "mr_Type m = 2" "mr_Empty m = em"
    and "nd_table A (mr_Receiver m) = Some \<lparr>ie_peer = Some p, ie_handshake = Some p, ie_keypair = None\<rparr>"
    and "hs_state (nd_handshake A p) = handshakeInitiationCreated"
    and tr: "resp_transcript lib (hs_hash (nd_handshake A p)) (hs_chainKey (nd_handshake A p)) (mr_Ephemeral m)
      (fst (sharedSecret lib (hs_localEphemeral (nd_handshake A p)) (mr_Ephemeral m)))
      (fst (sharedSecret lib (nd_privateKey A) (mr_Ephemeral m)))
      (hs_presharedKey (nd_handshake A p)) = (em, hash, ck)"
    and "snd (sharedSecret lib (hs_localEphemeral (nd_handshake A p)) (mr_Ephemeral m))"
    and "snd (sharedSecret lib (nd_privateKey A) (mr_Ephemeral m))"
  shows "check_response lib m A = Some \<lparr>rr_handshake = p, rr_peer = Some p, rr_hash = hash, rr_chainKey = ck\<rparr>"
  using assms
  by (cases m) (auto simp: check_response_def resp_transcript_def IndexTable_Lookup_def noise_open Let_def split: prod.splits)

lemma NewIndex_returns:
  "\<forall>x\<in>set ds. snd x \<Longrightarrow> (i, True) \<in> set ds \<Longrightarrow> t i = None \<Longrightarrow>
   \<exists>i t'. NewIndexForHandshake ds p t = Some ((i, True), t')"
  by (induction ds) auto

lemma NewIndex_after_delete:
  assumes "\<forall>x\<in>set ds. snd x" "(i, True) \<in> set ds" "nd_table dv i = None"
  obtains i t where "NewIndexForHandshake ds p (nd_table (IndexTable_Delete j dv)) = Some ((i, True), t)"
proof -
  have "nd_table (IndexTable_Delete j dv) i = None" using assms(3) by (simp add: IndexTable_Delete_def)
  from NewIndex_returns [of ds i "nd_table (IndexTable_Delete j dv)", OF assms(1,2) this] that show thesis by blast
qed

lemma create_initiation_returns:
  assumes "snd rk" "snd (sharedSecret lib (clamp (fst rk)) (hs_remoteStatic (nd_handshake A p)))"
    "\<not> isZero (hs_precomputedStaticStatic (nd_handshake A p))"
    "\<forall>x\<in>set draws. snd x" "(i, True) \<in> set draws" "nd_table A i = None"
  shows "\<exists>m A1. CreateMessageInitiation lib rk ts draws p A = Some (Ok m, A1)"
proof -
  obtain i t where "NewIndexForHandshake draws p (nd_table (IndexTable_Delete (hs_localIndex (nd_handshake A p)) A)) = Some ((i, True), t)"
    using NewIndex_after_delete [OF assms(4-)] .
  with assms(1-3) show ?thesis
    by (auto simp: CreateMessageInitiation_def initiation_static_def newPrivateKey_def Handshake_mixHash_def Handshake_mixKey_def Let_def
        split: prod.splits)
qed

lemma create_response_returns:
  assumes "hs_state (nd_handshake B q) = handshakeInitiationConsumed" "snd rk"
    "snd (sharedSecret lib (clamp (fst rk)) (hs_remoteEphemeral (nd_handshake B q)))"
    "snd (sharedSecret lib (clamp (fst rk)) (hs_remoteStatic (nd_handshake B q)))"
    "\<forall>x\<in>set draws. snd x" "(i, True) \<in> set draws" "nd_table B i = None"
  shows "\<exists>m B1. CreateMessageResponse lib rk draws q B = Some (Ok m, B1)"
proof -
  obtain i t where "NewIndexForHandshake draws q (nd_table (IndexTable_Delete (hs_localIndex (nd_handshake B q)) B)) = Some ((i, True), t)"
    using NewIndex_after_delete [OF assms(5-)] .
  with assms(1-4) show ?thesis
    by (auto simp: CreateMessageResponse_def response_keys_def newPrivateKey_def Handshake_mixHash_def Handshake_mixKey_def Let_def
        split: prod.splits)
qed

text \<open>What a session holds after the keys are derived.\<close>

lemma rotate_simps [simp]:
  "nd_kps (rotate_keypairs b k p dv) = nd_kps dv" "nd_nkps (rotate_keypairs b k p dv) = nd_nkps dv"
  "nd_npeers (rotate_keypairs b k p dv) = nd_npeers dv" "nd_handshake (rotate_keypairs b k p dv) q = nd_handshake dv q"
  "np_isRunning (nd_peers (rotate_keypairs b k p dv) q) = np_isRunning (nd_peers dv q)" "nd_keyMap (rotate_keypairs b k p dv) = nd_keyMap dv"
  "nd_privateKey (rotate_keypairs b k p dv) = nd_privateKey dv" "nd_publicKey (rotate_keypairs b k p dv) = nd_publicKey dv"
  by (simp_all add: rotate_keypairs_def Let_def)

lemma rotate_keypairs_slots:
  "np_keypairs (nd_peers (rotate_keypairs b k p dv) q) =
     (let ks = np_keypairs (nd_peers dv q) in
      if q \<noteq> p then ks
      else if b then ks\<lparr>ks_current := Some k, ks_previous := (if ks_next ks \<noteq> None then ks_next ks else ks_current ks), ks_next := None\<rparr>
      else ks\<lparr>ks_next := Some k, ks_previous := None\<rparr>)"
  by (auto simp: rotate_keypairs_def Let_def)

lemma begin_session:
  assumes "session_keys lib (nd_handshake dv p) = Some (b, s, r)"
  shows "fst (BeginSymmetricSession lib now p dv) = None"
    and "(if b then ks_current else ks_next) (np_keypairs (nd_peers (snd (BeginSymmetricSession lib now p dv)) p)) = Some (nd_nkps dv)"
    and "nd_kps (snd (BeginSymmetricSession lib now p dv)) (nd_nkps dv) =
      \<lparr>kp_sendNonce = 0, kp_send = s, kp_receive = r, kp_replayFilter = Filter_Reset zero_Filter, kp_isInitiator = b, kp_created = now,
       kp_localIndex = hs_localIndex (nd_handshake dv p), kp_remoteIndex = hs_remoteIndex (nd_handshake dv p)\<rparr>"
  using assms by (simp_all add: BeginSymmetricSession_def rotate_keypairs_slots Let_def)

lemma paired_secrets:
  assumes "noise_laws lib" "paired lib A p B q"
  shows "hs_precomputedStaticStatic (nd_handshake B q) = hs_precomputedStaticStatic (nd_handshake A p)"
    "\<And>e. sharedSecret lib e (nd_publicKey B) = sharedSecret lib (nd_privateKey B) (publicKey lib e)"
    "\<And>e. sharedSecret lib e (nd_publicKey A) = sharedSecret lib (nd_privateKey A) (publicKey lib e)"
  using assms(2) noise_dh [OF assms(1)] by (simp_all add: paired_def knows_peer_def)

lemma initiation_accepted:
  assumes laws: "noise_laws lib" and pr: "paired lib A p B q"
    and cr: "CreateMessageInitiation lib rk ts draws p A = Some (Ok m, A1)"
    and new: "Timestamp_After ts (hs_lastTimestamp (nd_handshake B q))"
      "hs_lastInitiationConsumption (nd_handshake B q) + HandshakeInitationRate < now"
    and co: "ConsumeMessageInitiation lib now (m\<lparr>mi_MAC1 := x, mi_MAC2 := y\<rparr>) B = (r, B1)"
  shows "r = Some q" "hs_state (nd_handshake B1 q) = handshakeInitiationConsumed"
    "hs_hash (nd_handshake B1 q) = hs_hash (nd_handshake A1 p)" "hs_chainKey (nd_handshake B1 q) = hs_chainKey (nd_handshake A1 p)"
    "hs_remoteIndex (nd_handshake B1 q) = mi_Sender m" "hs_remoteEphemeral (nd_handshake B1 q) = publicKey lib (clamp (fst rk))"
    "hs_remoteStatic (nd_handshake B1 q) = nd_publicKey A" "hs_presharedKey (nd_handshake B1 q) = hs_presharedKey (nd_handshake A p)"
    "nd_table B1 = nd_table B"
proof -
  let ?ha = "nd_handshake A p" and ?e = "clamp (fst rk)" and ?m = "m\<lparr>mi_MAC1 := x, mi_MAC2 := y\<rparr>"
  have keys: "hs_remoteStatic ?ha = nd_publicKey B" "hs_remoteStatic (nd_handshake B q) = nd_publicKey A"
    "hs_presharedKey (nd_handshake B q) = hs_presharedKey ?ha"
    and look: "LookupPeer (nd_publicKey A) B = Some q" "np_isRunning (nd_peers B q)"
    using pr by (auto simp: paired_def knows_peer_def)
  obtain st t hash ck where tr: "init_transcript lib (nd_publicKey B) (publicKey lib ?e)
      (fst (sharedSecret lib ?e (nd_publicKey B))) (nd_publicKey A) (hs_precomputedStaticStatic ?ha) ts = (st, t, hash, ck)"
    by (metis prod_cases4)
  note c = create_initiation_Ok [OF cr, unfolded keys(1), OF tr]
  have m: "mi_Type ?m = 1" "mi_Ephemeral ?m = publicKey lib ?e" "mi_Static ?m = st" "mi_Timestamp ?m = t"
    by (subst c(3), simp)+
  have "open_initiation lib ?m B = Some \<lparr>ir_peer = q, ir_hash = hash, ir_chainKey = ck, ir_timestamp = ts\<rparr>"
    by (rule open_initiation_transcript [OF laws m(1,3,4)])
      (use tr c(1,2) paired_secrets [OF laws pr] look m(2) in simp_all)
  with new co have r: "r = Some q" and B1: "B1 = commit_initiation now ?m \<lparr>ir_peer = q, ir_hash = hash, ir_chainKey = ck, ir_timestamp = ts\<rparr> B"
    by (auto simp: ConsumeMessageInitiation_def check_initiation_def Let_def)
  show "r = Some q" by (rule r)
  show "hs_state (nd_handshake B1 q) = handshakeInitiationConsumed"
    "hs_hash (nd_handshake B1 q) = hs_hash (nd_handshake A1 p)" "hs_chainKey (nd_handshake B1 q) = hs_chainKey (nd_handshake A1 p)"
    "hs_remoteIndex (nd_handshake B1 q) = mi_Sender m" "hs_remoteEphemeral (nd_handshake B1 q) = publicKey lib ?e"
    "hs_remoteStatic (nd_handshake B1 q) = nd_publicKey A" "hs_presharedKey (nd_handshake B1 q) = hs_presharedKey ?ha" "nd_table B1 = nd_table B"
    using keys m(2) unfolding B1 c(4) by (simp_all add: commit_initiation_def Let_def)
qed

text \<open>
  Property C23: a handshake between two devices that have each other as peers ends with the same keys on both sides.
  The initiation is accepted when its timestamp is new and the last one is not too recent, whatever MACs are
  added to it on the way; the response to it is accepted by the initiator; deriving the keys succeeds on both sides; and what one side sends
  under, the other receives under, each naming the index the other listens at.
\<close>

theorem handshake_agreement:
  assumes laws: "noise_laws lib" and pr: "paired lib A p B q"
    and cr: "CreateMessageInitiation lib rk ts draws p A = Some (Ok m1, A1)"
    and new: "Timestamp_After ts (hs_lastTimestamp (nd_handshake B q))"
      "hs_lastInitiationConsumption (nd_handshake B q) + HandshakeInitationRate < now"
    and co: "ConsumeMessageInitiation lib now (m1\<lparr>mi_MAC1 := x, mi_MAC2 := y\<rparr>) B = (r1, B1)"
    and re: "CreateMessageResponse lib rk' draws' q B1 = Some (Ok m2, B2)"
    and fi: "ConsumeMessageResponse lib (m2\<lparr>mr_MAC1 := x', mr_MAC2 := y'\<rparr>) A1 = (r2, A2)"
  shows "r1 = Some q \<and> r2 = Some p \<and>
    (\<exists>A3 B3 ka kb. BeginSymmetricSession lib tA p A2 = (None, A3) \<and> BeginSymmetricSession lib tB q B2 = (None, B3) \<and>
       ks_current (np_keypairs (nd_peers A3 p)) = Some ka \<and> ks_next (np_keypairs (nd_peers B3 q)) = Some kb \<and>
       kp_send (nd_kps A3 ka) = kp_receive (nd_kps B3 kb) \<and> kp_receive (nd_kps A3 ka) = kp_send (nd_kps B3 kb) \<and>
       kp_localIndex (nd_kps A3 ka) = kp_remoteIndex (nd_kps B3 kb) \<and> kp_remoteIndex (nd_kps A3 ka) = kp_localIndex (nd_kps B3 kb))"
proof -
  let ?m2 = "m2\<lparr>mr_MAC1 := x', mr_MAC2 := y'\<rparr>" and ?e = "clamp (fst rk)" and ?f = "clamp (fst rk')"
  note hb = initiation_accepted [OF laws pr cr new co]
  obtain st t hash ck where "init_transcript lib (hs_remoteStatic (nd_handshake A p)) (publicKey lib ?e)
      (fst (sharedSecret lib ?e (hs_remoteStatic (nd_handshake A p)))) (nd_publicKey A) (hs_precomputedStaticStatic (nd_handshake A p)) ts = (st, t, hash, ck)"
    by (metis prod_cases4)
  note c = create_initiation_Ok [OF cr this]
  obtain em hash' ck' where tr: "resp_transcript lib (hs_hash (nd_handshake A1 p)) (hs_chainKey (nd_handshake A1 p)) (publicKey lib ?f)
      (fst (sharedSecret lib ?f (publicKey lib ?e))) (fst (sharedSecret lib ?f (nd_publicKey A))) (hs_presharedKey (nd_handshake A p)) = (em, hash', ck')"
    by (metis prod_cases3)
  note d = create_response_Ok [OF re, unfolded hb, OF tr]
  have m2: "mr_Type ?m2 = 2" "mr_Receiver ?m2 = mi_Sender m1" "mr_Ephemeral ?m2 = publicKey lib ?f" "mr_Empty ?m2 = em" "mr_Sender ?m2 = mr_Sender m2"
    by (subst d(4), simp)+
  have dh: "sharedSecret lib ?f (publicKey lib ?e) = sharedSecret lib ?e (publicKey lib ?f)" by (rule noise_dh [OF laws])
  have "check_response lib ?m2 A1 = Some \<lparr>rr_handshake = p, rr_peer = Some p, rr_hash = hash', rr_chainKey = ck'\<rparr>"
    by (rule check_response_transcript [OF laws m2(1,4)])
      (use tr d(2,3) dh paired_secrets(3) [OF laws pr] m2(2,3) in \<open>simp_all add: c(4)\<close>)
  with fi have r2: "r2 = Some p" and A2: "A2 = commit_response ?m2 \<lparr>rr_handshake = p, rr_peer = Some p, rr_hash = hash', rr_chainKey = ck'\<rparr> A1"
    by (auto simp: ConsumeMessageResponse_def)
  obtain u v where kdf: "KDF2 lib ck' [] = (u, v)" by fastforce
  have sa: "session_keys lib (nd_handshake A2 p) = Some (True, u, v)" "hs_localIndex (nd_handshake A2 p) = mi_Sender m1"
    "hs_remoteIndex (nd_handshake A2 p) = mr_Sender m2"
    unfolding A2 using m2(5) by (simp_all add: commit_response_def session_keys_def kdf c(4))
  have sb: "session_keys lib (nd_handshake B2 q) = Some (False, v, u)" "hs_localIndex (nd_handshake B2 q) = mr_Sender m2"
    "hs_remoteIndex (nd_handshake B2 q) = mi_Sender m1"
    using hb(5) by (simp_all add: d(5) session_keys_def kdf)
  show ?thesis
    using hb(1) r2 begin_session [OF sa(1), of tA] begin_session [OF sb(1), of tB] sa(2,3) sb(2,3)
    by (intro conjI exI [of _ "snd (BeginSymmetricSession lib tA p A2)"] exI [of _ "snd (BeginSymmetricSession lib tB q B2)"]
        exI [of _ "nd_nkps A2"] exI [of _ "nd_nkps B2"]) (simp_all add: prod_eq_iff)
qed

text \<open>A library that satisfies the laws: secrets depend on the first byte of a key, sealing appends a tag.\<close>

definition first_byte :: "byte list \<Rightarrow> byte" where
  "first_byte xs = (case xs of [] \<Rightarrow> 0 | x # _ \<Rightarrow> x)"

definition sample_noise :: noise_lib where
  "sample_noise = \<lparr>blake2s_Sum256 = (\<lambda>m. replicate 32 (first_byte m)),
     curve25519_ScalarMult = (\<lambda>a b. replicate 32 ((first_byte a XOR first_byte b) OR 1)),
     curve25519_ScalarBaseMult = (\<lambda>a. replicate 32 (first_byte a)),
     aead_Seal = (\<lambda>k n p a. p @ replicate 16 (first_byte k)),
     aead_Open = (\<lambda>k n c a. if drop (length c - 16) c = replicate 16 (first_byte k) then Some (take (length c - 16) c) else None)\<rparr>"

lemma sample_noise_laws: "noise_laws sample_noise"
proof -
  have "first_byte (replicate 32 b) = b" for b by (simp add: first_byte_def eval_nat_numeral)
  then show ?thesis by (simp add: noise_laws_def sample_noise_def xor.commute)
qed

lemma sample_secret: "snd (sharedSecret sample_noise a b)" "\<not> isZero (fst (sharedSecret sample_noise a b))"
proof -
  have "x OR 1 \<noteq> 0" for x :: byte by (metis bit_0 bit_or_iff bit_1_iff bit_0_eq bot_apply bot_bool_def)
  then show "snd (sharedSecret sample_noise a b)" "\<not> isZero (fst (sharedSecret sample_noise a b))"
    by (simp_all add: sharedSecret_def sample_noise_def isZero_iff Let_def)
qed

definition new_ndevice :: "byte list \<Rightarrow> NDevice" where
  "new_ndevice sk = \<lparr>nd_closed = False, nd_privateKey = sk, nd_publicKey = publicKey sample_noise sk, nd_keyMap = [],
     nd_peers = (\<lambda>_. \<lparr>np_isRunning = False, np_keypairs = \<lparr>ks_current = None, ks_previous = None, ks_next = None\<rparr>, np_handshake = zero_Handshake\<rparr>),
     nd_npeers = 0, nd_table = Map.empty,
     nd_kps = (\<lambda>_. \<lparr>kp_sendNonce = 0, kp_send = [], kp_receive = [], kp_replayFilter = zero_Filter, kp_isInitiator = False, kp_created = 0, kp_localIndex = 0, kp_remoteIndex = 0\<rparr>),
     nd_nkps = 0\<rparr>"

definition sample_sk :: "byte \<Rightarrow> byte list" where
  "sample_sk b = replicate 32 b"

definition sample_device :: "byte \<Rightarrow> byte \<Rightarrow> NDevice" where
  "sample_device own other = Peer_Start 0 0 (snd (NewPeer sample_noise (publicKey sample_noise (sample_sk other)) (new_ndevice (sample_sk own))))"

lemma sample_device_simps:
  "nd_table (sample_device a b) = Map.empty" "nd_privateKey (sample_device a b) = sample_sk a"
  "nd_publicKey (sample_device a b) = publicKey sample_noise (sample_sk a)"
  "nd_keyMap (sample_device a b) = [(publicKey sample_noise (sample_sk b), 0)]" "np_isRunning (nd_peers (sample_device a b) 0)"
  "nd_handshake (sample_device a b) 0 = zero_Handshake\<lparr>hs_precomputedStaticStatic := fst (sharedSecret sample_noise (sample_sk a) (publicKey sample_noise (sample_sk b))),
     hs_remoteStatic := publicKey sample_noise (sample_sk b), hs_lastSentHandshake := - 6000000000\<rparr>"
  by (simp_all add: sample_device_def Peer_Start_def NewPeer_def new_ndevice_def put_running_def put_handshake_def Let_def)

lemma sample_paired: "paired sample_noise (sample_device a b) 0 (sample_device b a) 0"
  by (simp add: paired_def knows_peer_def sample_device_simps LookupPeer_def)

lemma sample_timing:
  "Timestamp_After (stamp 1 0) (hs_lastTimestamp (nd_handshake (sample_device 2 1) 0))"
  "hs_lastInitiationConsumption (nd_handshake (sample_device 2 1) 0) + 20000000 < 0"
proof -
  have "stamp 1 0 \<noteq> [] \<and> hd (stamp 1 0) = 64" "replicate 12 0 = (0 :: byte) # replicate 11 0"
    by (simp_all add: stamp_def BE_PutUint64_def upt_conv_Cons flip: replicate_Suc)
  then show "Timestamp_After (stamp 1 0) (hs_lastTimestamp (nd_handshake (sample_device 2 1) 0))"
    by (cases "stamp 1 0") (simp_all add: sample_device_simps zero_Handshake_def Timestamp_After_def)
qed (simp add: sample_device_simps zero_Handshake_def zero_time_def)

lemma sample_initiation:
  obtains m A1 where "CreateMessageInitiation sample_noise (sample_sk 3, True) (stamp 1 0) [(5, True)] 0 (sample_device 1 2) = Some (Ok m, A1)"
  using create_initiation_returns [of "(sample_sk 3, True)" sample_noise "sample_device 1 2" 0 "[(5, True)]" 5 "stamp 1 0"] sample_secret
  by (auto simp: sample_device_simps)

theorem handshake_agreement_witness:
  "\<exists>m1 A1 B1 m2 B2 A2 A3 B3 ka kb.
     CreateMessageInitiation sample_noise (sample_sk 3, True) (stamp 1 0) [(5, True)] 0 (sample_device 1 2) = Some (Ok m1, A1) \<and>
     ConsumeMessageInitiation sample_noise 0 m1 (sample_device 2 1) = (Some 0, B1) \<and>
     CreateMessageResponse sample_noise (sample_sk 4, True) [(9, True)] 0 B1 = Some (Ok m2, B2) \<and>
     ConsumeMessageResponse sample_noise m2 A1 = (Some 0, A2) \<and>
     BeginSymmetricSession sample_noise 0 0 A2 = (None, A3) \<and> BeginSymmetricSession sample_noise 0 0 B2 = (None, B3) \<and>
     ks_current (np_keypairs (nd_peers A3 0)) = Some ka \<and> ks_next (np_keypairs (nd_peers B3 0)) = Some kb \<and>
     kp_send (nd_kps A3 ka) = kp_receive (nd_kps B3 kb)"
proof -
  let ?A = "sample_device 1 2" and ?B = "sample_device 2 1"
  obtain m1 A1 where m1: "CreateMessageInitiation sample_noise (sample_sk 3, True) (stamp 1 0) [(5, True)] 0 ?A = Some (Ok m1, A1)"
    by (rule sample_initiation)
  note t = sample_timing(1) and n = sample_timing(2)
  obtain r1 B1 where r1: "ConsumeMessageInitiation sample_noise 0 m1 ?B = (r1, B1)" by fastforce
  have mac: "m1\<lparr>mi_MAC1 := mi_MAC1 m1, mi_MAC2 := mi_MAC2 m1\<rparr> = m1" by simp
  note acc = initiation_accepted [OF sample_noise_laws sample_paired m1 t n, where x = "mi_MAC1 m1" and y = "mi_MAC2 m1", unfolded mac, OF r1]
  obtain m2 B2 where m2: "CreateMessageResponse sample_noise (sample_sk 4, True) [(9, True)] 0 B1 = Some (Ok m2, B2)"
    using create_response_returns [of B1 0 "(sample_sk 4, True)" sample_noise "[(9, True)]" 9] sample_secret(1) acc(2,9)
    by (auto simp: sample_device_simps)
  obtain r2 A2 where r2: "ConsumeMessageResponse sample_noise m2 A1 = (r2, A2)" by fastforce
  have mac2: "m2\<lparr>mr_MAC1 := mr_MAC1 m2, mr_MAC2 := mr_MAC2 m2\<rparr> = m2"
    by simp
  from handshake_agreement [OF sample_noise_laws sample_paired m1 t n, where x = "mi_MAC1 m1" and y = "mi_MAC2 m1", unfolded mac, OF r1 m2,
      where x' = "mr_MAC1 m2" and y' = "mr_MAC2 m2" and tA = 0 and tB = 0, unfolded mac2, OF r2] m1 r1 m2 r2
  show ?thesis by blast
qed

end
