(* ===== verification/Noise_Sessions.thy ===== *)
theory Noise_Sessions
  imports Noise
begin

section \<open>Sessions of a device over time (wireguard-go/device)\<close>

text \<open>
  The operations of \<open>Noise\<close> as the steps of a device, in any order. The index table is shown to hold exactly the
  indices that handshakes and key pairs in use listen at, and the timestamps of the initiations a peer accepts to
  increase.
\<close>

subsection \<open>Steps\<close>

text \<open>
  The random source does not fail (\<^verbatim>\<open>crypto/rand\<close> ends the program instead) and an index drawn is not 0, the value
  that marks a handshake without index. The two parts of consuming a message are separate steps; the part that
  writes may store whatever a part that read at some earlier time has computed.
\<close>

definition draws_ok :: "(32 word \<times> bool) list \<Rightarrow> bool" where
  "draws_ok ds \<longleftrightarrow> (\<forall>x\<in>set ds. snd x \<and> fst x \<noteq> 0)"

definition use_keypair :: "nat \<Rightarrow> 64 word \<Rightarrow> Filter \<Rightarrow> NDevice \<Rightarrow> NDevice" where
  "use_keypair k n f dv = dv\<lparr>nd_kps := (nd_kps dv)(k := (nd_kps dv k)\<lparr>kp_sendNonce := n, kp_replayFilter := f\<rparr>)\<rparr>"

inductive peer_step :: "noise_lib \<Rightarrow> NDevice \<Rightarrow> NDevice \<Rightarrow> bool" for lib where
  create_initiation: "p < nd_npeers dv \<Longrightarrow> draws_ok ds \<Longrightarrow> CreateMessageInitiation lib rk ts ds p dv = Some (r, dv') \<Longrightarrow> peer_step lib dv dv'"
| accept_initiation: "ir_peer r < nd_npeers dv \<Longrightarrow> peer_step lib dv (commit_initiation now m r dv)"
| create_response: "p < nd_npeers dv \<Longrightarrow> draws_ok ds \<Longrightarrow> CreateMessageResponse lib rk ds p dv = Some (r', dv') \<Longrightarrow> peer_step lib dv dv'"
| accept_response: "rr_handshake r'' < nd_npeers dv \<Longrightarrow> peer_step lib dv (commit_response m' r'' dv)"
| new_session: "p < nd_npeers dv \<Longrightarrow> peer_step lib dv (snd (BeginSymmetricSession lib now p dv))"
| confirm_session: "p < nd_npeers dv \<Longrightarrow> peer_step lib dv (snd (ReceivedWithKeypair p k dv))"
| zero_keys: "p < nd_npeers dv \<Longrightarrow> peer_step lib dv (ZeroAndFlushAll p dv)"
| expire_keys: "p < nd_npeers dv \<Longrightarrow> peer_step lib dv (ExpireCurrentKeypairs now p dv)"
| start_peer: "p < nd_npeers dv \<Longrightarrow> peer_step lib dv (Peer_Start now p dv)"
| stop_peer: "p < nd_npeers dv \<Longrightarrow> peer_step lib dv (Peer_Stop p dv)"
| traffic: "peer_step lib dv (use_keypair k n f dv)"
| handshake_sent: "p < nd_npeers dv \<Longrightarrow> peer_step lib dv (put_handshake p ((np_handshake (nd_peers dv p))\<lparr>hs_lastSentHandshake := now\<rparr>) dv)"
| new_preshared: "p < nd_npeers dv \<Longrightarrow> peer_step lib dv (put_handshake p ((np_handshake (nd_peers dv p))\<lparr>hs_presharedKey := key\<rparr>) dv)"

inductive device_step :: "noise_lib \<Rightarrow> NDevice \<Rightarrow> NDevice \<Rightarrow> bool" for lib where
  peer: "peer_step lib dv dv' \<Longrightarrow> device_step lib dv dv'"
| new_peer: "device_step lib dv (snd (NewPeer lib pk dv))"
| remove_peer: "device_step lib dv (RemovePeer pk dv)"
| remove_all: "device_step lib dv (RemoveAllPeers dv)"
| set_key: "device_step lib dv (SetPrivateKey lib now sk dv)"
| close_device: "device_step lib dv (dv\<lparr>nd_closed := True\<rparr>)"

definition fresh_device :: "NDevice \<Rightarrow> bool" where
  "fresh_device dv \<longleftrightarrow> nd_npeers dv = 0 \<and> nd_keyMap dv = [] \<and> nd_table dv = Map.empty \<and> nd_nkps dv = 0"

subsection \<open>Who owns an index\<close>

datatype owner = HS nat | KP nat nat

fun entry_of :: "owner \<Rightarrow> IndexTableEntry" where
  "entry_of (HS p) = \<lparr>ie_peer = Some p, ie_handshake = Some p, ie_keypair = None\<rparr>"
| "entry_of (KP p k) = \<lparr>ie_peer = Some p, ie_handshake = None, ie_keypair = Some k\<rparr>"

definition live :: "Keypairs \<Rightarrow> nat set" where
  "live ks = set_option (ks_current ks) \<union> set_option (ks_previous ks) \<union> set_option (ks_next ks)"

fun index_of :: "NDevice \<Rightarrow> owner \<Rightarrow> 32 word" where
  "index_of dv (HS p) = hs_localIndex (nd_handshake dv p)"
| "index_of dv (KP p k) = kp_localIndex (nd_kps dv k)"

definition owners :: "NDevice \<Rightarrow> owner set" where
  "owners dv = (\<Union>p<nd_npeers dv. insert (HS p) (KP p ` live (np_keypairs (nd_peers dv p))))"

definition tracks :: "index_table \<Rightarrow> owner set \<Rightarrow> (owner \<Rightarrow> 32 word) \<Rightarrow> bool" where
  "tracks t os ix \<longleftrightarrow> t 0 = None \<and> (\<forall>i e. i \<noteq> 0 \<longrightarrow> (t i = Some e \<longleftrightarrow> (\<exists>own\<in>os. e = entry_of own \<and> ix own = i)))"

lemma entry_of_inject [simp]: "entry_of a = entry_of b \<longleftrightarrow> a = b"
  by (cases a; cases b) auto

lemma tracks_cong: "(\<And>own. own \<in> os \<Longrightarrow> ix own = ix' own) \<Longrightarrow> tracks t os ix = tracks t os ix'"
  by (simp add: tracks_def cong: bex_cong)

lemma tracks_owner: "tracks t os ix \<Longrightarrow> own \<in> os \<Longrightarrow> ix own \<noteq> 0 \<Longrightarrow> t (ix own) = Some (entry_of own)"
  by (auto simp: tracks_def)

lemma tracks_delete:
  assumes "tracks t os ix" "own \<in> os"
  shows "tracks (t(ix own := None)) (os - {own}) ix"
proof (cases "ix own = 0")
  case True
  then show ?thesis using assms by (auto simp: tracks_def)
next
  case False
  then have o: "t (ix own) = Some (entry_of own)" using assms by (rule tracks_owner [rotated 2])
  have "own' = own" if "own' \<in> os" "ix own' = ix own" for own'
    using tracks_owner [OF assms(1) that(1)] that(2) o False by simp
  then show ?thesis using assms(1) False unfolding tracks_def by (auto; metis)
qed

lemma tracks_insert:
  assumes "tracks t os ix" "own \<notin> os" "i \<noteq> 0" "t i = None"
  shows "tracks (t(i \<mapsto> entry_of own)) (insert own os) (ix(own := i))"
proof -
  have free: "\<forall>own'\<in>os. ix own' \<noteq> i"
    using tracks_owner [OF assms(1)] assms(3,4) by fastforce
  have upd: "\<forall>own'\<in>os. (ix(own := i)) own' = ix own'" using assms(2) by auto
  have "(t(i \<mapsto> entry_of own)) j = Some e \<longleftrightarrow> (\<exists>own'\<in>insert own os. e = entry_of own' \<and> (ix(own := i)) own' = j)"
    if "j \<noteq> 0" for j e
  proof (cases "j = i")
    case True
    then show ?thesis using free upd by auto
  next
    case False
    moreover have "t j = Some e \<longleftrightarrow> (\<exists>own'\<in>os. e = entry_of own' \<and> ix own' = j)"
      using assms(1) that by (simp add: tracks_def)
    ultimately show ?thesis using upd by (simp cong: bex_cong)
  qed
  then show ?thesis using assms(1,3) by (simp add: tracks_def)
qed

lemma tracks_zero: "tracks t os ix \<Longrightarrow> own \<notin> os \<Longrightarrow> tracks t (insert own os) (ix(own := 0))"
  unfolding tracks_def by auto

text \<open>An index changes hands: the entry of one owner becomes the entry of another.\<close>

lemma tracks_swap:
  assumes "tracks t os ix" "own \<in> os" "own' \<notin> os"
  shows "tracks (case t (ix own) of None \<Rightarrow> t | Some e \<Rightarrow> t(ix own \<mapsto> entry_of own')) (insert own' (os - {own})) (ix(own' := ix own))"
proof (cases "ix own = 0")
  case True
  then have "t (ix own) = None" "t(ix own := None) = t" using assms(1) by (auto simp: tracks_def)
  with tracks_delete [OF assms(1,2)] have "tracks t (os - {own}) ix" by simp
  from tracks_zero [OF this, of own'] True assms(3) \<open>t (ix own) = None\<close> show ?thesis by simp
next
  case False
  then have "t (ix own) = Some (entry_of own)" using assms by (intro tracks_owner)
  with tracks_insert [OF tracks_delete [OF assms(1,2)], of own' "ix own"] False assms(3) show ?thesis by simp
qed

subsection \<open>The invariant\<close>

definition slots_ok :: "nat \<Rightarrow> Keypairs \<Rightarrow> bool" where
  "slots_ok n ks \<longleftrightarrow> (\<forall>k\<in>live ks. k < n) \<and>
     (\<forall>k. ks_current ks = Some k \<longrightarrow> ks_previous ks \<noteq> Some k \<and> ks_next ks \<noteq> Some k) \<and>
     (\<forall>k. ks_previous ks = Some k \<longrightarrow> ks_next ks \<noteq> Some k)"

definition index_inv :: "NDevice \<Rightarrow> bool" where
  "index_inv dv \<longleftrightarrow> tracks (nd_table dv) (owners dv) (index_of dv) \<and>
     (\<forall>p<nd_npeers dv. slots_ok (nd_nkps dv) (np_keypairs (nd_peers dv p))) \<and> (\<forall>(key, p)\<in>set (nd_keyMap dv). p < nd_npeers dv)"

lemma owner_in_owners [simp]:
  "HS p \<in> owners dv \<longleftrightarrow> p < nd_npeers dv"
  "KP p k \<in> owners dv \<longleftrightarrow> p < nd_npeers dv \<and> k \<in> live (np_keypairs (nd_peers dv p))"
  by (auto simp: owners_def)

lemma owners_eqI:
  "nd_npeers dv' = nd_npeers dv \<Longrightarrow> (\<And>p. live (np_keypairs (nd_peers dv' p)) = live (np_keypairs (nd_peers dv p))) \<Longrightarrow> owners dv' = owners dv"
  by (simp add: owners_def)

lemma owner_ext: "(\<And>p. f (HS p) = g (HS p)) \<Longrightarrow> (\<And>p k. f (KP p k) = g (KP p k)) \<Longrightarrow> f = g"
  by (rule ext) (metis owner.exhaust)

lemma owner_set_eqI: "(\<And>p. HS p \<in> A \<longleftrightarrow> HS p \<in> B) \<Longrightarrow> (\<And>p k. KP p k \<in> A \<longleftrightarrow> KP p k \<in> B) \<Longrightarrow> A = B"
  by (rule set_eqI) (metis owner.exhaust)

lemma index_of_frame [simp]:
  "index_of (put_keypairs p ks dv) = index_of dv" "index_of (IndexTable_Delete i dv) = index_of dv"
  "index_of (SwapIndexForKeypair i k dv) = index_of dv" "index_of (DeleteKeypair key dv) = index_of dv"
  "index_of (dv\<lparr>nd_table := t\<rparr>) = index_of dv" "index_of (put_handshake p h dv) = (index_of dv)(HS p := hs_localIndex h)"
  by (auto intro!: owner_ext)

lemma owners_frame [simp]:
  "owners (IndexTable_Delete i dv) = owners dv" "owners (SwapIndexForKeypair i k dv) = owners dv" "owners (DeleteKeypair key dv) = owners dv"
  "owners (dv\<lparr>nd_table := t\<rparr>) = owners dv" "owners (put_handshake p h dv) = owners dv"
  by (auto intro!: owners_eqI)

lemma owners_put_keypairs:
  "p < nd_npeers dv \<Longrightarrow> owners (put_keypairs p ks dv) = (owners dv - KP p ` live (np_keypairs (nd_peers dv p))) \<union> KP p ` live ks"
  by (auto simp: owners_def split: if_splits)

lemma nd_table_Delete [simp]: "nd_table (IndexTable_Delete i dv) = (nd_table dv)(i := None)"
  by (simp add: IndexTable_Delete_def)

lemma index_inv_handshake:
  assumes "index_inv dv" "hs_localIndex h = hs_localIndex (nd_handshake dv p)"
  shows "index_inv (put_handshake p h dv)"
proof -
  have "(index_of dv)(HS p := hs_localIndex h) = index_of dv" using assms(2) by (auto intro!: owner_ext)
  with assms(1) show ?thesis by (simp add: index_inv_def)
qed

lemma index_inv_reindex:
  assumes "index_inv dv" "p < nd_npeers dv" "i \<noteq> 0" "nd_table (IndexTable_Delete (hs_localIndex (nd_handshake dv p)) dv) i = None"
    and "hs_localIndex h = i"
  shows "index_inv (put_handshake p h ((IndexTable_Delete (hs_localIndex (nd_handshake dv p)) dv)
    \<lparr>nd_table := (nd_table (IndexTable_Delete (hs_localIndex (nd_handshake dv p)) dv))(i \<mapsto> \<lparr>ie_peer = Some p, ie_handshake = Some p, ie_keypair = None\<rparr>)\<rparr>))"
proof -
  have "tracks (nd_table dv) (owners dv) (index_of dv)" using assms(1) by (simp add: index_inv_def)
  from tracks_insert [OF tracks_delete [OF this, of "HS p"], of "HS p" i] assms(2-5)
  have "tracks (((nd_table dv)(hs_localIndex (nd_handshake dv p) := None))(i \<mapsto> entry_of (HS p))) (owners dv) ((index_of dv)(HS p := i))"
    by (simp add: insert_absorb)
  with assms(1,5) show ?thesis by (simp add: index_inv_def)
qed

lemma index_inv_drop:
  assumes "index_inv dv" "p < nd_npeers dv" "hs_localIndex h = 0"
  shows "index_inv (put_handshake p h (IndexTable_Delete (hs_localIndex (nd_handshake dv p)) dv))"
proof -
  have "tracks (nd_table dv) (owners dv) (index_of dv)" using assms(1) by (simp add: index_inv_def)
  from tracks_zero [OF tracks_delete [OF this, of "HS p"], of "HS p"] assms(2)
  have "tracks ((nd_table dv)(hs_localIndex (nd_handshake dv p) := None)) (owners dv) ((index_of dv)(HS p := 0))"
    by (simp add: insert_absorb)
  with assms(1,3) show ?thesis by (simp add: index_inv_def)
qed

lemma DeleteKeypair_tracks:
  assumes "tracks (nd_table dv) os (index_of dv)" "KP p ` set_option key \<subseteq> os"
  shows "tracks (nd_table (DeleteKeypair key dv)) (os - KP p ` set_option key) (index_of (DeleteKeypair key dv))"
  using tracks_delete [OF assms(1), of "KP p (the key)"] assms by (cases key) (simp_all add: DeleteKeypair_def)

lemma Delete_put_keypairs: "DeleteKeypair key (put_keypairs p ks dv) = put_keypairs p ks (DeleteKeypair key dv)"
  by (simp add: DeleteKeypair_def IndexTable_Delete_def put_keypairs_def split: option.split)

text \<open>Key pairs are dropped from a peer together with their entries.\<close>

lemma live_update: "p < nd_npeers dv \<Longrightarrow> live ks = live (np_keypairs (nd_peers dv p)) - S \<Longrightarrow> owners (put_keypairs p ks dv) = owners dv - KP p ` S"
  by (auto simp: owners_put_keypairs)

lemma index_inv_keypairs:
  assumes "index_inv dv" "p < nd_npeers dv" "slots_ok (nd_nkps dv) ks"
    and "tracks (nd_table dv') (owners (put_keypairs p ks dv)) (index_of dv)"
    and "dv' = put_keypairs p ks (dv\<lparr>nd_table := nd_table dv'\<rparr>)"
  shows "index_inv dv'"
proof -
  have "index_inv (put_keypairs p ks (dv\<lparr>nd_table := nd_table dv'\<rparr>))"
    using assms(1-4) by (auto simp: index_inv_def owners_put_keypairs)
  with assms(5) show ?thesis by simp
qed

lemma DeleteKeypair_frame: "DeleteKeypair key dv = dv\<lparr>nd_table := nd_table (DeleteKeypair key dv)\<rparr>"
  by (simp add: DeleteKeypair_def IndexTable_Delete_def split: option.split)

lemma KP_in_owners: "p < nd_npeers dv \<Longrightarrow> KP p ` S \<subseteq> owners dv \<longleftrightarrow> S \<subseteq> live (np_keypairs (nd_peers dv p))"
  by auto

lemma index_invD:
  assumes "index_inv dv" "p < nd_npeers dv"
  shows "tracks (nd_table dv) (owners dv) (index_of dv)" "slots_ok (nd_nkps dv) (np_keypairs (nd_peers dv p))"
  using assms by (auto simp: index_inv_def)

lemma confirm_inv:
  assumes "index_inv dv" "p < nd_npeers dv"
  shows "index_inv (snd (ReceivedWithKeypair p k dv))"
proof (cases "ks_next (np_keypairs (nd_peers dv p)) = Some k")
  case True
  let ?ks = "np_keypairs (nd_peers dv p)"
  let ?ks' = "\<lparr>ks_current = ks_next ?ks, ks_previous = ks_current ?ks, ks_next = None\<rparr>"
  note inv = index_invD [OF assms]
  have "live ?ks' = live ?ks - set_option (ks_previous ?ks)"
    using inv(2) by (auto simp: live_def slots_ok_def)
  then have o: "owners (put_keypairs p ?ks' dv) = owners dv - KP p ` set_option (ks_previous ?ks)"
    by (rule live_update [OF assms(2)])
  have sub: "KP p ` set_option (ks_previous ?ks) \<subseteq> owners dv" unfolding KP_in_owners [OF assms(2)] by (auto simp: live_def)
  have "index_inv (put_keypairs p ?ks' (DeleteKeypair (ks_previous ?ks) dv))"
  proof (rule index_inv_keypairs [OF assms])
    show "slots_ok (nd_nkps dv) ?ks'" using inv(2) by (auto simp: slots_ok_def live_def)
    show "tracks (nd_table (put_keypairs p ?ks' (DeleteKeypair (ks_previous ?ks) dv))) (owners (put_keypairs p ?ks' dv)) (index_of dv)"
      using DeleteKeypair_tracks [OF inv(1) sub] o by simp
  qed (use DeleteKeypair_frame [of "ks_previous ?ks" dv] in simp)
  with True show ?thesis by (simp add: ReceivedWithKeypair_def Let_def)
qed (use assms in \<open>simp add: ReceivedWithKeypair_def Let_def\<close>)

lemma zero_keypairs_inv:
  assumes "index_inv dv" "p < nd_npeers dv"
  defines "ks \<equiv> np_keypairs (nd_peers dv p)"
  shows "index_inv (put_keypairs p \<lparr>ks_current = None, ks_previous = None, ks_next = None\<rparr>
    (DeleteKeypair (ks_next ks) (DeleteKeypair (ks_current ks) (DeleteKeypair (ks_previous ks) dv))))"
proof (rule index_inv_keypairs [OF assms(1,2)])
  let ?dv = "DeleteKeypair (ks_next ks) (DeleteKeypair (ks_current ks) (DeleteKeypair (ks_previous ks) dv))"
  let ?ks' = "\<lparr>ks_current = None, ks_previous = None, ks_next = None\<rparr>"
  note inv = index_invD [OF assms(1,2), folded ks_def]
  show "slots_ok (nd_nkps dv) ?ks'" by (simp add: slots_ok_def live_def)
  have sub: "KP p ` set_option (ks_previous ks) \<subseteq> owners dv" "KP p ` set_option (ks_current ks) \<subseteq> owners dv - KP p ` set_option (ks_previous ks)"
    "KP p ` set_option (ks_next ks) \<subseteq> owners dv - KP p ` set_option (ks_previous ks) - KP p ` set_option (ks_current ks)"
    using inv(2) assms(2) by (auto simp: live_def slots_ok_def ks_def)
  have t: "tracks (nd_table ?dv) (owners dv - KP p ` set_option (ks_previous ks) - KP p ` set_option (ks_current ks) - KP p ` set_option (ks_next ks)) (index_of dv)"
    using DeleteKeypair_tracks [OF DeleteKeypair_tracks [OF DeleteKeypair_tracks [OF inv(1) sub(1)] sub(2)] sub(3)] by simp
  have "owners (put_keypairs p ?ks' dv) = owners dv - KP p ` live ks"
    by (rule live_update [OF assms(2)]) (simp add: live_def ks_def)
  also have "\<dots> = owners dv - KP p ` set_option (ks_previous ks) - KP p ` set_option (ks_current ks) - KP p ` set_option (ks_next ks)"
    by (auto simp: live_def)
  finally show "tracks (nd_table (put_keypairs p ?ks' ?dv)) (owners (put_keypairs p ?ks' dv)) (index_of dv)" using t by simp
qed (simp add: DeleteKeypair_def IndexTable_Delete_def put_keypairs_def split: option.split)

lemma flush_inv:
  assumes "index_inv dv" "p < nd_npeers dv"
  shows "index_inv (ZeroAndFlushAll p dv)"
  using index_inv_drop [OF zero_keypairs_inv [OF assms], of p] assms(2)
  by (simp add: ZeroAndFlushAll_def Let_def Handshake_Clear_def)

text \<open>
  A session is added: the index of the handshake passes to the new key pair, then the key pairs that rotation drops
  lose theirs.
\<close>

lemma rotate_tracks:
  fixes dv p k
  defines "ks \<equiv> np_keypairs (nd_peers dv p)"
  assumes t: "tracks (nd_table dv) (insert (KP p k) (owners dv)) (index_of dv)" and p: "p < nd_npeers dv"
    and slots: "slots_ok k ks"
  shows "tracks (nd_table (rotate_keypairs b k p dv)) (owners (rotate_keypairs b k p dv)) (index_of (rotate_keypairs b k p dv))"
proof -
  let ?dv = "rotate_keypairs b k p dv"
  let ?O = "insert (KP p k) (owners dv)"
  have ix: "index_of ?dv = index_of dv" by (auto intro!: owner_ext)
  have k: "k \<notin> live ks" using slots by (auto simp: slots_ok_def)
  define a where "a = (if b then if ks_next ks \<noteq> None then ks_current ks else None else ks_next ks)"
  have tab: "nd_table ?dv = nd_table (DeleteKeypair (ks_previous ks) (DeleteKeypair a dv))"
    by (simp add: rotate_keypairs_def a_def ks_def Let_def Delete_put_keypairs) (simp add: DeleteKeypair_def)
  have sub: "KP p ` set_option a \<subseteq> ?O" "KP p ` set_option (ks_previous ks) \<subseteq> ?O - KP p ` set_option a"
    using slots p by (auto simp: a_def live_def slots_ok_def ks_def split: if_splits)
  have own: "owners ?dv = ?O - KP p ` set_option a - KP p ` set_option (ks_previous ks)"
  proof -
    have "live (np_keypairs (nd_peers ?dv p)) = insert k (live ks) - set_option a - set_option (ks_previous ks)"
      using slots k by (auto simp: rotate_keypairs_slots a_def live_def slots_ok_def ks_def Let_def split: if_splits)
    moreover have "np_keypairs (nd_peers ?dv q) = np_keypairs (nd_peers dv q)" if "q \<noteq> p" for q
      using that by (simp add: rotate_keypairs_slots Let_def)
    ultimately have "live (np_keypairs (nd_peers ?dv q)) =
        (if q = p then insert k (live ks) - set_option a - set_option (ks_previous ks) else live (np_keypairs (nd_peers dv q)))" for q
      by simp
    then show ?thesis using p by (intro owner_set_eqI) (auto simp: ks_def split: if_splits)
  qed
  show ?thesis
    using DeleteKeypair_tracks [OF DeleteKeypair_tracks [OF t sub(1)] sub(2)] by (simp add: ix tab own)
qed

lemma session_inv:
  assumes "index_inv dv" "p < nd_npeers dv"
  shows "index_inv (snd (BeginSymmetricSession lib now p dv))"
proof (cases "session_keys lib (nd_handshake dv p)")
  case None
  then show ?thesis using assms by (simp add: BeginSymmetricSession_def)
next
  case (Some x)
  obtain b s r where x: "x = (b, s, r)" by (cases x)
  let ?h = "nd_handshake dv p" and ?k = "nd_nkps dv"
  define kp where "kp = \<lparr>kp_sendNonce = 0, kp_send = s, kp_receive = r, kp_replayFilter = Filter_Reset zero_Filter,
    kp_isInitiator = b, kp_created = now, kp_localIndex = hs_localIndex ?h, kp_remoteIndex = hs_remoteIndex ?h\<rparr>"
  define h' where "h' = ?h\<lparr>hs_chainKey := setZero (hs_chainKey ?h), hs_hash := setZero (hs_hash ?h),
    hs_localEphemeral := setZero (hs_localEphemeral ?h), hs_state := handshakeZeroed, hs_localIndex := 0\<rparr>"
  define d1 where "d1 = SwapIndexForKeypair (hs_localIndex ?h) ?k (dv\<lparr>nd_kps := (nd_kps dv)(?k := kp), nd_nkps := Suc ?k\<rparr>)"
  define d2 where "d2 = put_handshake p h' d1"
  have dv': "snd (BeginSymmetricSession lib now p dv) = rotate_keypairs b ?k p d2"
    using Some x by (simp add: BeginSymmetricSession_def Let_def kp_def h'_def d1_def d2_def)
  note inv = index_invD [OF assms]
  have slots: "slots_ok ?k (np_keypairs (nd_peers dv q))" if "q < nd_npeers dv" for q using index_invD(2) [OF assms(1) that] .
  have fresh: "KP p ?k \<notin> owners dv" using inv(2) by (auto simp: slots_ok_def)
  have peers: "nd_peers d1 = nd_peers dv" "nd_npeers d1 = nd_npeers dv" "nd_nkps d1 = Suc ?k" "nd_keyMap d1 = nd_keyMap dv"
    by (simp_all add: d1_def)
  have old: "index_of d2 own = index_of dv own" if "own \<in> owners dv - {HS p}" for own
    using that slots by (cases own) (auto simp: d1_def d2_def slots_ok_def)
  have "e = entry_of (HS p)" if "nd_table dv (hs_localIndex ?h) = Some e" for e
    using that tracks_owner [OF inv(1), of "HS p"] assms(2) inv(1) by (cases "hs_localIndex ?h = 0") (auto simp: tracks_def)
  then have tab: "nd_table d1 = (case nd_table dv (hs_localIndex ?h) of None \<Rightarrow> nd_table dv | Some e \<Rightarrow> (nd_table dv)(hs_localIndex ?h \<mapsto> entry_of (KP p ?k)))"
    by (cases "nd_table dv (hs_localIndex ?h)") (auto simp: d1_def SwapIndexForKeypair_def)
  have "tracks (nd_table d1) (insert (KP p ?k) (owners dv - {HS p})) ((index_of dv)(KP p ?k := hs_localIndex ?h))"
    using tracks_swap [OF inv(1), of "HS p" "KP p ?k", unfolded index_of.simps] assms(2) fresh by (simp add: tab)
  from tracks_zero [OF this, of "HS p"]
  have "tracks (nd_table d2) (insert (KP p ?k) (owners dv)) (((index_of dv)(KP p ?k := hs_localIndex ?h))(HS p := 0))"
    using assms(2) by (simp add: d2_def insert_commute [of "HS p"] insert_absorb)
  also have "?this \<longleftrightarrow> tracks (nd_table d2) (insert (KP p ?k) (owners dv)) (index_of d2)"
    using old by (intro tracks_cong) (auto simp: d1_def d2_def kp_def h'_def)
  finally have t: "tracks (nd_table d2) (insert (KP p ?k) (owners d2)) (index_of d2)"
    using owners_eqI [of d2 dv] peers by (simp add: d2_def)
  have "slots_ok ?k (np_keypairs (nd_peers d2 p))" using slots [OF assms(2)] peers by (simp add: d2_def)
  from rotate_tracks [OF t _ this, of b] have tr: "tracks (nd_table (rotate_keypairs b ?k p d2)) (owners (rotate_keypairs b ?k p d2)) (index_of (rotate_keypairs b ?k p d2))"
    using assms(2) peers by (simp add: d2_def)
  have "slots_ok (Suc ?k) (np_keypairs (nd_peers (rotate_keypairs b ?k p d2) q))" if "q < nd_npeers dv" for q
    using slots [OF that] peers by (auto simp: rotate_keypairs_slots d2_def slots_ok_def live_def Let_def less_Suc_eq split: if_splits)
  moreover have "nd_nkps d2 = Suc ?k" "nd_npeers d2 = nd_npeers dv" "nd_keyMap d2 = nd_keyMap dv" using peers by (simp_all add: d2_def)
  ultimately show ?thesis using tr assms(1) unfolding dv' by (simp add: index_inv_def)
qed

text \<open>What creating a message does to the device, on every branch.\<close>

lemma NewIndex_ok: "NewIndexForHandshake ds p t = Some ((i, ok), t') \<Longrightarrow> \<forall>x\<in>set ds. snd x \<Longrightarrow> ok"
  by (induction ds) (auto split: if_splits)

lemma initiation_static_frame:
  assumes "initiation_static lib rk pk h = (r, h')"
  shows "hs_localIndex h' = hs_localIndex h" "hs_lastTimestamp h' = hs_lastTimestamp h"
    "hs_precomputedStaticStatic h' = hs_precomputedStaticStatic h"
  using assms by (auto simp: initiation_static_def newPrivateKey_def Let_def split: prod.splits if_splits)

lemma create_initiation_Err:
  assumes "CreateMessageInitiation lib rk ts ds p dv = Some (Err e, dv')" "\<forall>x\<in>set ds. snd x"
  obtains h where "dv' = put_handshake p h dv" "hs_localIndex h = hs_localIndex (nd_handshake dv p)"
    "hs_lastTimestamp h = hs_lastTimestamp (nd_handshake dv p)"
    "hs_precomputedStaticStatic h = hs_precomputedStaticStatic (nd_handshake dv p)"
proof -
  obtain r h where i: "initiation_static lib rk (nd_publicKey dv) (nd_handshake dv p) = (r, h)" by fastforce
  have "dv' = put_handshake p h dv"
    using assms i by (auto simp: CreateMessageInitiation_def Let_def split: prod.splits sum.splits if_splits option.splits dest: NewIndex_ok)
  with that initiation_static_frame [OF i] show thesis by blast
qed

lemma response_keys_frame:
  assumes "response_keys lib rk h = (r, h')"
  shows "hs_localIndex h' = hs_localIndex h" "hs_lastTimestamp h' = hs_lastTimestamp h"
    "hs_precomputedStaticStatic h' = hs_precomputedStaticStatic h"
  using assms by (auto simp: response_keys_def newPrivateKey_def Let_def split: prod.splits if_splits)

lemma create_response_cases:
  assumes "CreateMessageResponse lib rk ds p dv = Some (r, dv')" "\<forall>x\<in>set ds. snd x"
  obtains (refused) "dv' = dv"
  | (indexed) i h where "(i, True) \<in> set ds" "nd_table (IndexTable_Delete (hs_localIndex (nd_handshake dv p)) dv) i = None" "hs_localIndex h = i"
      "hs_lastTimestamp h = hs_lastTimestamp (nd_handshake dv p)"
      "hs_precomputedStaticStatic h = hs_precomputedStaticStatic (nd_handshake dv p)"
      "dv' = put_handshake p h ((IndexTable_Delete (hs_localIndex (nd_handshake dv p)) dv)
        \<lparr>nd_table := (nd_table (IndexTable_Delete (hs_localIndex (nd_handshake dv p)) dv))(i \<mapsto> \<lparr>ie_peer = Some p, ie_handshake = Some p, ie_keypair = None\<rparr>)\<rparr>)"
proof (cases "hs_state (nd_handshake dv p) = handshakeInitiationConsumed")
  case False
  then show thesis using assms refused by (simp add: CreateMessageResponse_def Let_def)
next
  case True
  let ?d = "IndexTable_Delete (hs_localIndex (nd_handshake dv p)) dv"
  obtain i ok t where n: "NewIndexForHandshake ds p (nd_table ?d) = Some ((i, ok), t)"
    using assms(1) True by (auto simp: CreateMessageResponse_def Let_def split: option.splits prod.splits)
  have ok by (rule NewIndex_ok [OF n assms(2)])
  then have new: "nd_table ?d i = None" "(i, True) \<in> set ds"
      "t = (nd_table ?d)(i \<mapsto> \<lparr>ie_peer = Some p, ie_handshake = Some p, ie_keypair = None\<rparr>)"
    using n NewIndex_Some [of ds p "nd_table ?d" i t] by auto
  obtain r' h' where r': "response_keys lib rk ((nd_handshake dv p)\<lparr>hs_localIndex := i\<rparr>) = (r', h')" by fastforce
  have "dv' = put_handshake p h' (?d\<lparr>nd_table := t\<rparr>)"
    using assms(1) True n \<open>ok\<close> r' by (auto simp: CreateMessageResponse_def Let_def split: sum.splits prod.splits)
  with new response_keys_frame [OF r'] show thesis by (intro indexed) simp_all
qed

lemma create_initiation_inv:
  assumes "index_inv dv" "p < nd_npeers dv" "draws_ok ds" "CreateMessageInitiation lib rk ts ds p dv = Some (r, dv')"
  shows "index_inv dv'"
proof (cases r)
  case (Inl e)
  have "\<forall>x\<in>set ds. snd x" using assms(3) by (auto simp: draws_ok_def)
  with assms(4) Inl obtain h where "dv' = put_handshake p h dv" "hs_localIndex h = hs_localIndex (nd_handshake dv p)"
    using create_initiation_Err [of lib rk ts ds p dv e dv'] by auto
  with index_inv_handshake [OF assms(1)] show ?thesis by simp
next
  case (Inr m)
  obtain st t hash ck where tr: "init_transcript lib (hs_remoteStatic (nd_handshake dv p)) (publicKey lib (clamp (fst rk)))
      (fst (sharedSecret lib (clamp (fst rk)) (hs_remoteStatic (nd_handshake dv p)))) (nd_publicKey dv)
      (hs_precomputedStaticStatic (nd_handshake dv p)) ts = (st, t, hash, ck)" by (metis prod_cases4)
  note c = create_initiation_Ok [OF assms(4) [unfolded Inr] tr]
  have "mi_Sender m \<noteq> 0" using c(5) assms(3) by (auto simp: draws_ok_def)
  from index_inv_reindex [OF assms(1,2) this c(6)] show ?thesis unfolding c(4) by simp
qed

lemma create_response_inv:
  assumes "index_inv dv" "p < nd_npeers dv" "draws_ok ds" "CreateMessageResponse lib rk ds p dv = Some (r, dv')"
  shows "index_inv dv'"
proof -
  have "\<forall>x\<in>set ds. snd x" "\<And>i. (i, True) \<in> set ds \<Longrightarrow> i \<noteq> 0" using assms(3) by (auto simp: draws_ok_def)
  note ok = this
  from assms(4) ok(1) show ?thesis
  proof (cases rule: create_response_cases)
    case refused
    then show ?thesis using assms(1) by simp
  next
    case (indexed i h)
    then show ?thesis using index_inv_reindex [OF assms(1,2) ok(2) [OF indexed(1)] indexed(2,3)] by simp
  qed
qed

lemma expire_inv: "index_inv dv \<Longrightarrow> index_inv (expire_keypair key dv)"
proof -
  assume inv: "index_inv dv"
  have "index_of (expire_keypair key dv) = index_of dv"
    by (auto intro!: owner_ext simp: expire_keypair_def split: option.split)
  moreover have "owners (expire_keypair key dv) = owners dv"
    by (rule owners_eqI) (auto simp: expire_keypair_def split: option.split)
  ultimately show ?thesis using inv by (auto simp: index_inv_def expire_keypair_def split: option.split)
qed

lemma ExpireCurrent_inv:
  assumes "index_inv dv" "p < nd_npeers dv"
  shows "index_inv (ExpireCurrentKeypairs now p dv)"
  using index_inv_drop [OF assms] by (auto intro!: expire_inv simp: ExpireCurrentKeypairs_def Let_def Handshake_Clear_def)

lemma running_inv: "index_inv dv \<Longrightarrow> index_inv (put_running p b dv)"
proof -
  assume inv: "index_inv dv"
  have "index_of (put_running p b dv) = index_of dv" by (auto intro!: owner_ext simp: put_running_def)
  moreover have "owners (put_running p b dv) = owners dv" by (rule owners_eqI) (auto simp: put_running_def)
  ultimately show ?thesis using inv by (auto simp: index_inv_def put_running_def)
qed

lemma use_keypair_inv: "index_inv dv \<Longrightarrow> index_inv (use_keypair k n f dv)"
proof -
  assume inv: "index_inv dv"
  have "index_of (use_keypair k n f dv) = index_of dv" by (auto intro!: owner_ext simp: use_keypair_def)
  moreover have "owners (use_keypair k n f dv) = owners dv" by (rule owners_eqI) (auto simp: use_keypair_def)
  ultimately show ?thesis using inv by (auto simp: index_inv_def use_keypair_def)
qed

lemma stop_inv: "index_inv dv \<Longrightarrow> p < nd_npeers dv \<Longrightarrow> index_inv (Peer_Stop p dv)"
  using flush_inv [OF running_inv, of dv p p False] by (auto simp: Peer_Stop_def put_running_def)

lemma peer_step_inv: "peer_step lib dv dv' \<Longrightarrow> index_inv dv \<Longrightarrow> index_inv dv'"
proof (induction rule: peer_step.induct)
  case (accept_initiation r dv now m)
  then show ?case by (auto intro!: index_inv_handshake simp: commit_initiation_def Let_def)
next
  case (accept_response r dv m)
  then show ?case by (auto intro!: index_inv_handshake simp: commit_response_def)
next
  case (start_peer p dv now)
  then show ?case by (auto intro!: running_inv index_inv_handshake simp: Peer_Start_def)
next
  case (handshake_sent p dv now)
  then show ?case by (auto intro!: index_inv_handshake)
next
  case (new_preshared p dv key)
  then show ?case by (auto intro!: index_inv_handshake)
qed (auto intro: create_initiation_inv create_response_inv session_inv confirm_inv flush_inv ExpireCurrent_inv stop_inv use_keypair_inv)

subsection \<open>Devices\<close>

lemma peer_ops_frame [simp]:
  "nd_npeers (put_running p b dv) = nd_npeers dv" "nd_keyMap (put_running p b dv) = nd_keyMap dv"
  "nd_npeers (expire_keypair key dv) = nd_npeers dv" "nd_keyMap (expire_keypair key dv) = nd_keyMap dv"
  "nd_npeers (Peer_Stop p dv) = nd_npeers dv" "nd_keyMap (Peer_Stop p dv) = nd_keyMap dv"
  "nd_npeers (ExpireCurrentKeypairs now p dv) = nd_npeers dv" "nd_keyMap (ExpireCurrentKeypairs now p dv) = nd_keyMap dv"
  by (simp_all add: put_running_def expire_keypair_def Peer_Stop_def ZeroAndFlushAll_def ExpireCurrentKeypairs_def Let_def split: option.split)

lemma fold_inv:
  assumes "\<And>x d. x \<in> set xs \<Longrightarrow> index_inv d \<Longrightarrow> nd_npeers d = n \<Longrightarrow> index_inv (f x d) \<and> nd_npeers (f x d) = n"
    and "index_inv d" "nd_npeers d = n"
  shows "index_inv (fold f xs d) \<and> nd_npeers (fold f xs d) = n"
  using assms by (induction xs arbitrary: d) auto

lemma index_inv_keyMap:
  "index_inv dv \<Longrightarrow> set xs \<subseteq> set (nd_keyMap dv) \<Longrightarrow> index_inv (dv\<lparr>nd_keyMap := xs\<rparr>)"
proof -
  assume inv: "index_inv dv" "set xs \<subseteq> set (nd_keyMap dv)"
  have "index_of (dv\<lparr>nd_keyMap := xs\<rparr>) = index_of dv" by (auto intro!: owner_ext)
  moreover have "owners (dv\<lparr>nd_keyMap := xs\<rparr>) = owners dv" by (rule owners_eqI) auto
  ultimately show ?thesis using inv by (auto simp: index_inv_def)
qed

lemma remove_npeers [simp]: "nd_npeers (removePeerLocked p key dv) = nd_npeers dv"
  by (simp add: removePeerLocked_def)

lemma remove_inv:
  assumes "index_inv dv" "p < nd_npeers dv"
  shows "index_inv (removePeerLocked p key dv)"
  using index_inv_keyMap [OF stop_inv [OF assms]] by (auto simp: removePeerLocked_def)

lemma new_peer_inv:
  assumes "index_inv dv"
  shows "index_inv (snd (NewPeer lib pk dv))"
proof -
  define q where "q = \<lparr>np_isRunning = False, np_keypairs = \<lparr>ks_current = None, ks_previous = None, ks_next = None\<rparr>,
    np_handshake = zero_Handshake\<lparr>hs_precomputedStaticStatic := fst (sharedSecret lib (nd_privateKey dv) pk), hs_remoteStatic := pk\<rparr>\<rparr>"
  let ?n = "nd_npeers dv"
  let ?dv = "dv\<lparr>nd_peers := (nd_peers dv)(?n := q), nd_npeers := Suc ?n, nd_keyMap := (pk, ?n) # nd_keyMap dv\<rparr>"
  have ix: "index_of ?dv = (index_of dv)(HS ?n := 0)"
    by (auto intro!: owner_ext simp: q_def zero_Handshake_def)
  have own: "owners ?dv = insert (HS ?n) (owners dv)"
    by (rule owner_set_eqI) (auto simp: q_def live_def less_Suc_eq)
  have "tracks (nd_table dv) (insert (HS ?n) (owners dv)) ((index_of dv)(HS ?n := 0))"
    using assms by (intro tracks_zero) (auto simp: index_inv_def)
  with assms have "index_inv ?dv"
    unfolding index_inv_def own ix by (auto simp: q_def slots_ok_def live_def less_Suc_eq)
  with assms show ?thesis by (simp add: NewPeer_def q_def Let_def)
qed

lemma keyMap_peer: "index_inv dv \<Longrightarrow> (key, p) \<in> set (nd_keyMap dv) \<Longrightarrow> p < nd_npeers dv"
  by (auto simp: index_inv_def)

lemma index_inv_keys: "index_inv dv \<Longrightarrow> index_inv (dv\<lparr>nd_privateKey := sk, nd_publicKey := pk\<rparr>)"
proof -
  assume inv: "index_inv dv"
  have "index_of (dv\<lparr>nd_privateKey := sk, nd_publicKey := pk\<rparr>) = index_of dv" by (auto intro!: owner_ext)
  moreover have "owners (dv\<lparr>nd_privateKey := sk, nd_publicKey := pk\<rparr>) = owners dv" by (rule owners_eqI) auto
  ultimately show ?thesis using inv by (auto simp: index_inv_def)
qed

lemma set_key_inv:
  assumes "index_inv dv"
  shows "index_inv (SetPrivateKey lib now sk dv)"
proof -
  let ?pk = "publicKey lib sk"
  let ?f = "\<lambda>(key, p) dv. if hs_remoteStatic (nd_handshake dv p) = ?pk then removePeerLocked p key dv else dv"
  let ?g = "\<lambda>(key :: byte list, p) dv. let h = nd_handshake dv p in put_handshake p (h\<lparr>hs_precomputedStaticStatic := fst (sharedSecret lib sk (hs_remoteStatic h))\<rparr>) dv"
  define d1 where "d1 = (fold ?f (nd_keyMap dv) dv)\<lparr>nd_privateKey := sk, nd_publicKey := ?pk\<rparr>"
  define d2 where "d2 = fold ?g (nd_keyMap d1) d1"
  have "index_inv (fold ?f (nd_keyMap dv) dv) \<and> nd_npeers (fold ?f (nd_keyMap dv) dv) = nd_npeers dv"
    using assms keyMap_peer [OF assms] by (intro fold_inv) (auto split: if_splits intro!: remove_inv)
  then have d1: "index_inv d1" by (auto simp: d1_def intro!: index_inv_keys)
  have "index_inv d2 \<and> nd_npeers d2 = nd_npeers d1"
    unfolding d2_def using d1 by (intro fold_inv) (auto simp: Let_def intro!: index_inv_handshake)
  then have "index_inv (fold (\<lambda>(key, p). ExpireCurrentKeypairs now p) (nd_keyMap d2) d2) \<and>
      nd_npeers (fold (\<lambda>(key, p). ExpireCurrentKeypairs now p) (nd_keyMap d2) d2) = nd_npeers d2"
    by (intro fold_inv) (auto dest: keyMap_peer intro!: ExpireCurrent_inv)
  with assms show ?thesis by (simp add: SetPrivateKey_def Let_def d1_def d2_def)
qed

lemma remove_all_inv:
  assumes "index_inv dv"
  shows "index_inv (RemoveAllPeers dv)"
proof -
  have "index_inv (fold (\<lambda>(key, p). removePeerLocked p key) (nd_keyMap dv) dv) \<and>
      nd_npeers (fold (\<lambda>(key, p). removePeerLocked p key) (nd_keyMap dv) dv) = nd_npeers dv"
    using assms by (intro fold_inv) (auto intro: keyMap_peer [OF assms] intro!: remove_inv)
  then show ?thesis unfolding RemoveAllPeers_def by (auto intro!: index_inv_keyMap)
qed

lemma closed_inv: "index_inv dv \<Longrightarrow> index_inv (dv\<lparr>nd_closed := True\<rparr>)"
proof -
  assume inv: "index_inv dv"
  have "index_of (dv\<lparr>nd_closed := True\<rparr>) = index_of dv" by (auto intro!: owner_ext)
  moreover have "owners (dv\<lparr>nd_closed := True\<rparr>) = owners dv" by (rule owners_eqI) auto
  ultimately show ?thesis using inv by (auto simp: index_inv_def)
qed

lemma device_step_inv: "device_step lib dv dv' \<Longrightarrow> index_inv dv \<Longrightarrow> index_inv dv'"
proof (induction rule: device_step.induct)
  case (remove_peer dv pk)
  then show ?case
    by (auto simp: RemovePeer_def dest!: map_of_SomeD keyMap_peer intro!: remove_inv split: option.split)
qed (auto intro: peer_step_inv new_peer_inv remove_all_inv set_key_inv closed_inv)

lemma fresh_inv: "fresh_device dv \<Longrightarrow> index_inv dv"
  by (simp add: fresh_device_def index_inv_def tracks_def owners_def)

lemma device_reach_inv: "(device_step lib)\<^sup>*\<^sup>* dv0 dv \<Longrightarrow> fresh_device dv0 \<Longrightarrow> index_inv dv"
  by (induction rule: rtranclp_induct) (auto intro: device_step_inv fresh_inv)

subsection \<open>Timestamps\<close>

text \<open>What no step of a peer changes: the keys, the table of peers, and downwards the last timestamp.\<close>

definition keeps :: "NDevice \<Rightarrow> NDevice \<Rightarrow> bool" where
  "keeps dv dv' \<longleftrightarrow> nd_privateKey dv' = nd_privateKey dv \<and> nd_publicKey dv' = nd_publicKey dv \<and> nd_keyMap dv' = nd_keyMap dv \<and>
     (\<forall>p. hs_precomputedStaticStatic (nd_handshake dv' p) = hs_precomputedStaticStatic (nd_handshake dv p) \<and>
          \<not> bytes_less (hs_lastTimestamp (nd_handshake dv' p)) (hs_lastTimestamp (nd_handshake dv p)))"

lemma keeps_refl [simp]: "keeps dv dv"
  by (simp add: keeps_def)

lemma keeps_trans: "keeps a b \<Longrightarrow> keeps b c \<Longrightarrow> keeps a c"
  unfolding keeps_def by (metis bytes_less_total bytes_less_trans)

lemma keeps_frame:
  assumes "nd_privateKey dv' = nd_privateKey dv" "nd_publicKey dv' = nd_publicKey dv" "nd_keyMap dv' = nd_keyMap dv"
    "\<And>p. hs_precomputedStaticStatic (nd_handshake dv' p) = hs_precomputedStaticStatic (nd_handshake dv p)"
    "\<And>p. hs_lastTimestamp (nd_handshake dv' p) = hs_lastTimestamp (nd_handshake dv p)"
  shows "keeps dv dv'"
  using assms by (simp add: keeps_def)

lemma peer_ops_keys [simp]:
  "nd_privateKey (put_running p b dv) = nd_privateKey dv" "nd_publicKey (put_running p b dv) = nd_publicKey dv"
  "nd_handshake (put_running p b dv) q = nd_handshake dv q"
  "nd_privateKey (expire_keypair key dv) = nd_privateKey dv" "nd_publicKey (expire_keypair key dv) = nd_publicKey dv"
  "nd_peers (expire_keypair key dv) = nd_peers dv"
  by (simp_all add: put_running_def expire_keypair_def split: option.split)

lemma zero_keeps: "keeps dv (ZeroAndFlushAll p dv)"
  by (rule keeps_frame) (simp_all add: ZeroAndFlushAll_def Handshake_Clear_def Let_def)

lemma begin_keeps: "keeps dv (snd (BeginSymmetricSession lib now p dv))"
  by (cases "session_keys lib (nd_handshake dv p)") (auto intro!: keeps_frame simp: BeginSymmetricSession_def Let_def)

lemma commit_keeps: "keeps dv (commit_initiation now m r dv)"
  by (auto simp: keeps_def commit_initiation_def Let_def Timestamp_After_def dest: bytes_less_trans)

lemma create_initiation_keeps:
  assumes "CreateMessageInitiation lib rk ts ds p dv = Some (r, dv')" "draws_ok ds"
  shows "keeps dv dv'"
proof (cases r)
  case (Inl e)
  have "\<forall>x\<in>set ds. snd x" using assms(2) by (auto simp: draws_ok_def)
  then obtain h where "dv' = put_handshake p h dv" "hs_lastTimestamp h = hs_lastTimestamp (nd_handshake dv p)"
    "hs_precomputedStaticStatic h = hs_precomputedStaticStatic (nd_handshake dv p)"
    using create_initiation_Err [OF assms(1) [unfolded Inl]] by metis
  then show ?thesis by (auto intro!: keeps_frame)
next
  case (Inr m)
  obtain st t hash ck where tr: "init_transcript lib (hs_remoteStatic (nd_handshake dv p)) (publicKey lib (clamp (fst rk)))
      (fst (sharedSecret lib (clamp (fst rk)) (hs_remoteStatic (nd_handshake dv p)))) (nd_publicKey dv)
      (hs_precomputedStaticStatic (nd_handshake dv p)) ts = (st, t, hash, ck)" by (metis prod_cases4)
  show ?thesis unfolding create_initiation_Ok(4) [OF assms(1) [unfolded Inr] tr] by (rule keeps_frame) simp_all
qed

lemma create_response_keeps:
  assumes "CreateMessageResponse lib rk ds p dv = Some (r, dv')" "draws_ok ds"
  shows "keeps dv dv'"
proof -
  have "\<forall>x\<in>set ds. snd x" using assms(2) by (auto simp: draws_ok_def)
  with assms(1) show ?thesis by (cases rule: create_response_cases) (auto intro!: keeps_frame)
qed

lemma other_keeps:
  "keeps dv (commit_response m r dv)" "keeps dv (snd (ReceivedWithKeypair p k dv))" "keeps dv (ExpireCurrentKeypairs now p dv)"
  "keeps dv (Peer_Start now p dv)" "keeps dv (use_keypair k n f dv)" "keeps dv (put_running p b dv)"
  "keeps dv (put_handshake p ((np_handshake (nd_peers dv p))\<lparr>hs_lastSentHandshake := now\<rparr>) dv)"
  "keeps dv (put_handshake p ((np_handshake (nd_peers dv p))\<lparr>hs_presharedKey := key\<rparr>) dv)"
  by (rule keeps_frame; simp add: commit_response_def ReceivedWithKeypair_def ExpireCurrentKeypairs_def Handshake_Clear_def
      Peer_Start_def use_keypair_def Let_def)+

lemma stop_keeps: "keeps dv (Peer_Stop p dv)"
  using keeps_trans [OF other_keeps(6) zero_keeps] by (simp add: Peer_Stop_def)

lemma peer_step_keeps: "peer_step lib dv dv' \<Longrightarrow> keeps dv dv'"
  by (induction rule: peer_step.induct)
    (auto intro: create_initiation_keeps create_response_keeps begin_keeps zero_keeps commit_keeps other_keeps stop_keeps)

lemma peer_steps_keep: "(peer_step lib)\<^sup>*\<^sup>* dv dv' \<Longrightarrow> keeps dv dv'"
  by (induction rule: rtranclp_induct) (auto intro: peer_step_keeps keeps_trans)

lemma open_initiation_keeps:
  assumes "keeps dv dv'" "open_initiation lib m dv = Some r" "open_initiation lib m dv' = Some r'"
  shows "r' = r"
  using assms by (auto simp: open_initiation_def keeps_def LookupPeer_def Let_def split: if_splits prod.splits option.splits)


lemma card_live: "finite (live ks)" "card (live ks) \<le> 3"
proof -
  have "card (set_option x) \<le> 1" for x :: "nat option" by (cases x) auto
  from this [of "ks_current ks"] this [of "ks_previous ks"] this [of "ks_next ks"]
  show "card (live ks) \<le> 3"
    unfolding live_def using card_Un_le [of "set_option (ks_current ks) \<union> set_option (ks_previous ks)" "set_option (ks_next ks)"]
      card_Un_le [of "set_option (ks_current ks)" "set_option (ks_previous ks)"] by linarith
qed (simp add: live_def)


definition sample_fresh_device :: NDevice where
  "sample_fresh_device = new_ndevice (sample_sk 1)"



end
