(* ===== verification/Address_Trie.thy ===== *)
theory Address_Trie
  imports Go_Net "HOL-Library.Monad_Syntax"
begin

section \<open>Tries of addresses (wireguard-go/device/allowedips.go)\<close>

text \<open>
  The compressed tries that map prefixes to peers. A pointer to a node or to a child field is the path of
  child bits from the root; a node is known to the list of its peer by its bits and length, which no
  operation changes. Out-of-range accesses and the explicit panics are \<open>None\<close>. The lengths and counts
  are at most 128, so \<^verbatim>\<open>uint8\<close> does not wrap.
\<close>

subsection \<open>Bits of an address\<close>

definition BigEndian :: "byte list \<Rightarrow> 'a :: len word" where
  "BigEndian bs = foldl (\<lambda>w b. push_bit 8 w OR ucast b) 0 bs"

definition LeadingZeros :: "'a :: len word \<Rightarrow> nat" where
  "LeadingZeros w = length (takeWhile (\<lambda>i. \<not> bit w i) (rev [0..<LENGTH('a)]))"

definition commonBits :: "byte list \<Rightarrow> byte list \<Rightarrow> nat option" where
  "commonBits ip1 ip2 =
     (if length ip1 = 4 then
        Some (LeadingZeros (BigEndian ip1 XOR BigEndian ip2 :: 32 word))
      else if length ip1 = 16 then
        (let x = BigEndian (take 8 ip1) XOR BigEndian (take 8 ip2) :: 64 word
         in if x \<noteq> 0 then Some (LeadingZeros x)
            else Some (64 + LeadingZeros (BigEndian (drop 8 ip1) XOR BigEndian (drop 8 ip2) :: 64 word)))
      else None)"

definition maskBits :: "byte list \<Rightarrow> nat \<Rightarrow> byte list" where
  "maskBits bs cidr = (let m = CIDRMask (int cidr) (length bs * 8) in map2 (AND) (take (length m) bs) m @ drop (length m) bs)"

definition byte_bits :: "byte \<Rightarrow> bool list" where
  "byte_bits b = map (bit b) (rev [0..<8])"

definition bits_of :: "byte list \<Rightarrow> bool list" where
  "bits_of bs = concat (map byte_bits bs)"

lemma length_byte_bits [simp]: "length (byte_bits b) = 8"
  by (simp add: byte_bits_def)

lemma bits_of_simps [simp]:
  "bits_of [] = []" "bits_of (b # bs) = byte_bits b @ bits_of bs" "bits_of (as @ bs) = bits_of as @ bits_of bs"
  by (simp_all add: bits_of_def)

lemma length_bits_of [simp]: "length (bits_of bs) = 8 * length bs"
  by (induction bs) simp_all

lemma byte_bits_nth: "j < 8 \<Longrightarrow> byte_bits b ! j = bit b (7 - j)"
  by (simp add: byte_bits_def rev_nth)

lemma byte_bits_inject [simp]: "byte_bits a = byte_bits b \<longleftrightarrow> a = b"
proof
  assume eq: "byte_bits a = byte_bits b"
  show "a = b"
  proof (rule bit_word_eqI)
    fix n assume "n < LENGTH(8)"
    then have "n < 8" by simp
    then have "bit a n = byte_bits a ! (7 - n)" "bit b n = byte_bits b ! (7 - n)"
      by (simp_all add: byte_bits_nth)
    then show "bit a n = bit b n" by (simp add: eq)
  qed
qed simp

lemma bits_of_inject: "length a = length b \<Longrightarrow> bits_of a = bits_of b \<longleftrightarrow> a = b"
  by (induction a b rule: list_induct2) simp_all

lemma bits_of_nth: "i < 8 * length bs \<Longrightarrow> bits_of bs ! i = bit (bs ! (i div 8)) (7 - i mod 8)"
proof (induction bs arbitrary: i)
  case (Cons b bs)
  show ?case
  proof (cases "i < 8")
    case True
    then show ?thesis by (simp add: nth_append byte_bits_nth)
  next
    case False
    then have "i div 8 = Suc ((i - 8) div 8)" "i mod 8 = (i - 8) mod 8" by (simp_all add: le_div_geq le_mod_geq)
    then show ?thesis using False Cons by (simp add: nth_append)
  qed
qed simp

lemma length_lcp_map:
  "length (longest_common_prefix (map f L) (map g L)) = length (takeWhile (\<lambda>i. f i = g i) L)"
  by (induction L) simp_all

lemma bits_BigEndian:
  "8 * length bs \<le> LENGTH('a) \<Longrightarrow> map (bit (BigEndian bs :: 'a :: len word)) (rev [0..<8 * length bs]) = bits_of bs"
proof (induction bs rule: rev_induct)
  case (snoc b bs)
  let ?n = "8 * length bs"
  have "[0..<8 * length (bs @ [b])] = [0..<8] @ map (\<lambda>i. i + 8) [0..<?n]"
    by (metis add.commute add.left_neutral length_append_singleton map_add_upt mult_Suc_right upt_add_eq_append zero_le)
  then have split: "rev [0..<8 * length (bs @ [b])] = map (\<lambda>i. i + 8) (rev [0..<?n]) @ rev [0..<8]"
    by (simp add: rev_map)
  have big: "bit b k \<Longrightarrow> k < 8" for k using bit_imp_le_length [of b k] by simp
  have hi: "bit (BigEndian (bs @ [b]) :: 'a word) (i + 8) = bit (BigEndian bs :: 'a word) i" if "i < ?n" for i
    using that snoc.prems by (auto simp: BigEndian_def bit_simps dest: big)
  have lo: "bit (BigEndian (bs @ [b]) :: 'a word) i = bit b i" if "i < 8" for i
    using that snoc.prems by (auto simp: BigEndian_def bit_simps)
  have "map (bit (BigEndian (bs @ [b]) :: 'a word)) (map (\<lambda>i. i + 8) (rev [0..<?n])) = bits_of bs"
  proof -
    have "map (bit (BigEndian (bs @ [b]) :: 'a word)) (map (\<lambda>i. i + 8) (rev [0..<?n])) = map (bit (BigEndian bs :: 'a word)) (rev [0..<?n])"
      using hi by simp
    also have "\<dots> = bits_of bs" using snoc by simp
    finally show ?thesis .
  qed
  moreover have "map (bit (BigEndian (bs @ [b]) :: 'a word)) (rev [0..<8]) = byte_bits b"
    using lo by (simp add: byte_bits_def)
  ultimately show ?case by (simp only: split map_append bits_of_simps append_Nil2)
qed simp

lemma LeadingZeros_XOR:
  assumes "8 * length a = LENGTH('a)" "length b = length a"
  shows "LeadingZeros (BigEndian a XOR BigEndian b :: 'a :: len word) = length (longest_common_prefix (bits_of a) (bits_of b))"
proof -
  have "bits_of a = map (bit (BigEndian a :: 'a word)) (rev [0..<LENGTH('a)])"
    "bits_of b = map (bit (BigEndian b :: 'a word)) (rev [0..<LENGTH('a)])"
    using bits_BigEndian [of a, where 'a = 'a] bits_BigEndian [of b, where 'a = 'a] assms by simp_all
  then show ?thesis by (simp add: length_lcp_map LeadingZeros_def bit_xor_iff)
qed

lemma xor_zero_iff: "x XOR y = 0 \<longleftrightarrow> x = (y :: 'a :: len word)"
  by (auto simp: bit_eq_iff bit_xor_iff)

lemma BigEndian_inject:
  assumes "8 * length a = LENGTH('a)" "length b = length a"
  shows "(BigEndian a :: 'a :: len word) = BigEndian b \<longleftrightarrow> a = b"
  using bits_BigEndian [of a, where 'a = 'a] bits_BigEndian [of b, where 'a = 'a] assms bits_of_inject [of a b] by auto

lemma lcp_append_same: "length (longest_common_prefix (xs @ ys) (xs @ zs)) = length xs + length (longest_common_prefix ys zs)"
  by (induction xs) simp_all

lemma lcp_append_differ:
  "length xs = length us \<Longrightarrow> xs \<noteq> us \<Longrightarrow>
   length (longest_common_prefix (xs @ ys) (us @ vs)) = length (longest_common_prefix xs us)"
  by (induction xs us rule: list_induct2) auto

definition ip_size :: "nat \<Rightarrow> bool" where
  "ip_size n \<longleftrightarrow> n = 4 \<or> n = 16"

lemma commonBits_lcp:
  assumes "ip_size (length a)" "length b = length a"
  shows "commonBits a b = Some (length (longest_common_prefix (bits_of a) (bits_of b)))"
proof (cases "length a = 4")
  case True
  then show ?thesis using assms(2) by (simp add: commonBits_def LeadingZeros_XOR)
next
  case False
  then have l: "length a = 16" using assms(1) by (simp add: ip_size_def)
  have len: "8 * length (take 8 a) = LENGTH(64)" "length (take 8 b) = length (take 8 a)"
    "8 * length (drop 8 a) = LENGTH(64)" "length (drop 8 b) = length (drop 8 a)"
    using l assms(2) by simp_all
  have bits: "bits_of a = bits_of (take 8 a) @ bits_of (drop 8 a)" "bits_of b = bits_of (take 8 b) @ bits_of (drop 8 b)"
    by (simp_all flip: bits_of_simps(3))
  have zero: "(BigEndian (take 8 a) XOR BigEndian (take 8 b) :: 64 word) = 0 \<longleftrightarrow> take 8 a = take 8 b"
    using BigEndian_inject [OF len(1,2)] by (simp add: xor_zero_iff)
  show ?thesis
  proof (cases "take 8 a = take 8 b")
    case True
    have "length (longest_common_prefix (bits_of a) (bits_of b)) =
        64 + length (longest_common_prefix (bits_of (drop 8 a)) (bits_of (drop 8 b)))"
      using l by (simp only: bits True lcp_append_same) (simp add: assms(2) l)
    then show ?thesis
      using True False l zero LeadingZeros_XOR [OF len(3,4)] by (simp add: commonBits_def Let_def)
  next
    case differ: False
    have "length (longest_common_prefix (bits_of a) (bits_of b)) =
        length (longest_common_prefix (bits_of (take 8 a)) (bits_of (take 8 b)))"
      by (simp only: bits) (rule lcp_append_differ, use len differ bits_of_inject [OF len(2)] in auto)
    then show ?thesis
      using differ False l zero LeadingZeros_XOR [OF len(1,2)] by (simp add: commonBits_def Let_def)
  qed
qed

lemma lcp_ge_iff:
  "n \<le> length xs \<Longrightarrow> length xs = length ys \<Longrightarrow> n \<le> length (longest_common_prefix xs ys) \<longleftrightarrow> take n xs = take n ys"
proof (induction xs ys arbitrary: n rule: longest_common_prefix.induct)
  case (1 x xs y ys)
  then show ?case by (cases n) auto
qed auto

lemma lcp_differ:
  "length (longest_common_prefix xs ys) < length xs \<Longrightarrow> length xs = length ys \<Longrightarrow>
   xs ! length (longest_common_prefix xs ys) \<noteq> ys ! length (longest_common_prefix xs ys)"
  by (induction xs ys rule: longest_common_prefix.induct) auto

lemma byte_bits_mask: "byte_bits (b AND CIDRMask_byte n) = take n (byte_bits b) @ replicate (8 - n) False"
proof (rule nth_equalityI)
  fix j
  assume "j < length (byte_bits (b AND CIDRMask_byte n))"
  then have j: "j < 8" by simp
  have "CIDRMask_byte n = (if 8 \<le> n then mask 8 else NOT (drop_bit n (mask 8)))"
    by (simp add: CIDRMask_byte_def mask_eq_exp_minus_1)
  moreover have "bit (NOT (drop_bit n (mask 8)) :: byte) (7 - j) \<longleftrightarrow> j < n" if "n < 8"
    using that j by (simp add: bit_not_iff bit_drop_bit_eq bit_mask_iff possible_bit_word) arith
  ultimately have "bit (CIDRMask_byte n) (7 - j) \<longleftrightarrow> j < n"
    using j by (simp add: bit_mask_iff possible_bit_word) arith
  then show "byte_bits (b AND CIDRMask_byte n) ! j = (take n (byte_bits b) @ replicate (8 - n) False) ! j"
    using j by (auto simp: byte_bits_nth bit_and_iff nth_append)
qed simp

lemma bits_of_mask_bytes:
  "n \<le> 8 * length bs \<Longrightarrow>
   bits_of (map2 (AND) bs (CIDRMask_bytes (length bs) n)) = take n (bits_of bs) @ replicate (8 * length bs - n) False"
proof (induction bs arbitrary: n)
  case (Cons b bs)
  show ?case
  proof (cases "8 \<le> n")
    case True
    then show ?thesis using Cons.IH [of "n - 8"] Cons.prems by (simp add: byte_bits_mask)
  next
    case False
    then have "replicate (8 * length (b # bs) - n) False = replicate (8 - n) False @ replicate (8 * length bs) False"
      by (simp flip: replicate_add)
    then show ?thesis using False Cons.IH [of 0] by (simp add: byte_bits_mask)
  qed
qed simp

lemma bits_maskBits:
  assumes "ip_size (length bs)" "c \<le> 8 * length bs"
  shows "bits_of (maskBits bs c) = take c (bits_of bs) @ replicate (8 * length bs - c) False" "length (maskBits bs c) = length bs"
proof -
  have "CIDRMask (int c) (length bs * 8) = CIDRMask_bytes (length bs) c"
    using assms by (auto simp: CIDRMask_def ip_size_def)
  then show "bits_of (maskBits bs c) = take c (bits_of bs) @ replicate (8 * length bs - c) False"
    "length (maskBits bs c) = length bs"
    using bits_of_mask_bytes [OF assms(2)] by (simp_all add: maskBits_def)
qed

subsection \<open>The trie\<close>

record 'p trieEntry =
  te_peer :: "'p option"
  te_bits :: "byte list"
  te_cidr :: nat
  bitAtByte :: nat
  bitAtShift :: nat

datatype 'p trie = TNil | TNode "'p trieEntry" "'p trie" "'p trie"

type_synonym path = "bool list"
type_synonym key = "byte list \<times> nat"

text \<open>A new node, masked as \<^verbatim>\<open>maskSelf\<close> does.\<close>

definition new_entry :: "'p option \<Rightarrow> byte list \<Rightarrow> nat \<Rightarrow> 'p trieEntry" where
  "new_entry peer ip cidr =
     \<lparr>te_peer = peer, te_bits = maskBits ip cidr, te_cidr = cidr, bitAtByte = cidr div 8, bitAtShift = 7 - cidr mod 8\<rparr>"

definition choose_bit :: "'p trieEntry \<Rightarrow> byte list \<Rightarrow> bool option" where
  "choose_bit e ip = (if bitAtByte e < length ip then Some (drop_bit (bitAtShift e) (ip ! bitAtByte e) AND 1 = 1) else None)"

definition te_key :: "'p trieEntry \<Rightarrow> key" where
  "te_key e = (te_bits e, te_cidr e)"

definition addToPeerEntries :: "'p trieEntry \<Rightarrow> ('p \<Rightarrow> key list) \<Rightarrow> ('p \<Rightarrow> key list)" where
  "addToPeerEntries e es = (case te_peer e of None \<Rightarrow> es | Some p \<Rightarrow> es(p := es p @ [te_key e]))"

definition removeFromPeerEntries :: "'p trieEntry \<Rightarrow> ('p \<Rightarrow> key list) \<Rightarrow> ('p \<Rightarrow> key list)" where
  "removeFromPeerEntries e es = (case te_peer e of None \<Rightarrow> es | Some p \<Rightarrow> es(p := remove1 (te_key e) (es p)))"

fun child :: "bool \<Rightarrow> 'p trie \<Rightarrow> 'p trie" where
  "child b TNil = TNil"
| "child b (TNode e l r) = (if b then r else l)"

fun set_child :: "bool \<Rightarrow> 'p trie \<Rightarrow> 'p trie \<Rightarrow> 'p trie" where
  "set_child b c TNil = TNil"
| "set_child b c (TNode e l r) = (if b then TNode e l c else TNode e c r)"

fun get_at :: "path \<Rightarrow> 'p trie \<Rightarrow> 'p trie" where
  "get_at [] t = t"
| "get_at (b # path) t = get_at path (child b t)"

fun put_at :: "path \<Rightarrow> 'p trie \<Rightarrow> 'p trie \<Rightarrow> 'p trie" where
  "put_at [] s t = s"
| "put_at (b # path) s t = set_child b (put_at path s (child b t)) t"

fun nodePlacement :: "'p trie \<Rightarrow> byte list \<Rightarrow> nat \<Rightarrow> path \<Rightarrow> path option \<Rightarrow> (path option \<times> bool) option" where
  "nodePlacement TNil ip cidr here parent = Some (parent, False)"
| "nodePlacement (TNode e l r) ip cidr here parent =
     (if cidr < te_cidr e then Some (parent, False)
      else case commonBits (te_bits e) ip of
             None \<Rightarrow> None
           | Some common \<Rightarrow>
               if common < te_cidr e then Some (parent, False)
               else if te_cidr e = cidr then Some (Some here, True)
               else case choose_bit e ip of
                      None \<Rightarrow> None
                    | Some b \<Rightarrow> nodePlacement (if b then r else l) ip cidr (here @ [b]) (Some here))"

text \<open>The child field under which the code links a new node: the root field, or one of the node found.\<close>

definition slot_of :: "path option \<Rightarrow> byte list \<Rightarrow> 'p trie \<Rightarrow> path option" where
  "slot_of node ip t =
     (case node of
        None \<Rightarrow> Some []
      | Some path \<Rightarrow>
          (case get_at path t of
             TNil \<Rightarrow> None
           | TNode e l r \<Rightarrow> map_option (\<lambda>b. path @ [b]) (choose_bit e ip)))"

text \<open>
  The subtrie that takes the place of \<^verbatim>\<open>down\<close>, and the bits by which its child field is chosen. The bits of
  the new node share the array of \<^verbatim>\<open>ip\<close>, so that \<^verbatim>\<open>maskSelf\<close> masks \<^verbatim>\<open>ip\<close> too.
\<close>

definition join_down :: "'p trieEntry \<Rightarrow> 'p trie \<Rightarrow> ('p trie \<times> byte list) option" where
  "join_down newNode down =
     (case down of
        TNil \<Rightarrow> Some (TNode newNode TNil TNil, te_bits newNode)
      | TNode d dl dr \<Rightarrow> do {
          common \<leftarrow> commonBits (te_bits d) (te_bits newNode);
          let cidr = (if common < te_cidr newNode then common else te_cidr newNode);
          if te_cidr newNode = cidr then do {
            b \<leftarrow> choose_bit newNode (te_bits d);
            Some (set_child b down (TNode newNode TNil TNil), te_bits newNode)
          } else do {
            let fork = new_entry None (te_bits newNode) cidr;
            b \<leftarrow> choose_bit fork (te_bits d);
            b' \<leftarrow> choose_bit fork (te_bits newNode);
            Some (set_child b' (TNode newNode TNil TNil) (set_child b down (TNode fork TNil TNil)), te_bits fork)
          }
        })"

text \<open>The part of \<^verbatim>\<open>insert\<close> after \<^verbatim>\<open>nodePlacement\<close>.\<close>

definition insert_at :: "path option \<Rightarrow> bool \<Rightarrow> byte list \<Rightarrow> nat \<Rightarrow> 'p \<Rightarrow> 'p trie \<Rightarrow> 'p trie option" where
  "insert_at node exact ip cidr peer t =
     (if exact then
        (case node of
           None \<Rightarrow> None
         | Some path \<Rightarrow>
             (case get_at path t of
                TNil \<Rightarrow> None
              | TNode e l r \<Rightarrow> Some (put_at path (TNode (e\<lparr>te_peer := Some peer\<rparr>) l r) t)))
      else
        let newNode = new_entry (Some peer) ip cidr
        in do {
          slot \<leftarrow> slot_of node (te_bits newNode) t;
          (sub, bits) \<leftarrow> join_down newNode (get_at slot t);
          slot' \<leftarrow> slot_of node bits t;
          Some (put_at slot' sub t)
        })"

definition insert_trie :: "byte list \<Rightarrow> nat \<Rightarrow> 'p \<Rightarrow> 'p trie \<Rightarrow> 'p trie option" where
  "insert_trie ip cidr peer t =
     (case t of
        TNil \<Rightarrow> Some (TNode (new_entry (Some peer) ip cidr) TNil TNil)
      | TNode e l r \<Rightarrow>
          (case nodePlacement t ip cidr [] None of
             None \<Rightarrow> None
           | Some (node, exact) \<Rightarrow> insert_at node exact ip cidr peer t))"

fun lookup :: "'p trie \<Rightarrow> byte list \<Rightarrow> 'p option \<Rightarrow> 'p option option" where
  "lookup TNil ip found = Some found"
| "lookup (TNode e l r) ip found =
     (case commonBits (te_bits e) ip of
        None \<Rightarrow> None
      | Some common \<Rightarrow>
          if common < te_cidr e then Some found
          else
            let found' = (if te_peer e \<noteq> None then te_peer e else found)
            in if bitAtByte e = length ip then Some found'
               else case choose_bit e ip of
                      None \<Rightarrow> None
                    | Some b \<Rightarrow> lookup (if b then r else l) ip found')"

definition remove_at :: "path \<Rightarrow> 'p trie \<Rightarrow> 'p trie" where
  "remove_at path t =
     (case get_at path t of
        TNil \<Rightarrow> t
      | TNode e l r \<Rightarrow>
          let t1 = put_at path (TNode (e\<lparr>te_peer := None\<rparr>) l r) t
          in if l \<noteq> TNil \<and> r \<noteq> TNil then t1
             else
               let c = (if l = TNil then r else l); t2 = put_at path c t1
               in if l \<noteq> TNil \<or> r \<noteq> TNil \<or> path = [] then t2
                  else case get_at (butlast path) t2 of
                         TNil \<Rightarrow> t2
                       | TNode pe pl pr \<Rightarrow>
                           if te_peer pe \<noteq> None then t2
                           else put_at (butlast path) (child (\<not> List.last path) (TNode pe pl pr)) t2)"

subsection \<open>Well-formed tries and the map they stand for\<close>

definition te_pre :: "'p trieEntry \<Rightarrow> bool list" where
  "te_pre e = take (te_cidr e) (bits_of (te_bits e))"

definition entry_ok :: "nat \<Rightarrow> 'p trieEntry \<Rightarrow> bool" where
  "entry_ok n e \<longleftrightarrow> length (te_bits e) = n \<and> te_cidr e \<le> 8 * n \<and> bitAtByte e = te_cidr e div 8 \<and>
     bitAtShift e = 7 - te_cidr e mod 8 \<and> bits_of (te_bits e) = te_pre e @ replicate (8 * n - te_cidr e) False"

fun twf :: "nat \<Rightarrow> bool list \<Rightarrow> 'p trie \<Rightarrow> bool" where
  "twf n pre TNil \<longleftrightarrow> True"
| "twf n pre (TNode e l r) \<longleftrightarrow>
     entry_ok n e \<and> prefix pre (te_pre e) \<and> (te_peer e = None \<longrightarrow> l \<noteq> TNil \<and> r \<noteq> TNil) \<and>
     twf n (te_pre e @ [False]) l \<and> twf n (te_pre e @ [True]) r"

fun tmap :: "'p trie \<Rightarrow> bool list \<rightharpoonup> 'p" where
  "tmap TNil = Map.empty"
| "tmap (TNode e l r) = (tmap l ++ tmap r)(te_pre e := te_peer e)"

lemma length_te_pre: "entry_ok n e \<Longrightarrow> length (te_pre e) = te_cidr e"
  by (simp add: entry_ok_def te_pre_def)

lemma entry_ok_len: "entry_ok n e \<Longrightarrow> length (te_bits e) = n \<and> te_cidr e \<le> 8 * n"
  by (simp add: entry_ok_def)

lemma te_pre_update [simp]: "te_pre (e\<lparr>te_peer := x\<rparr>) = te_pre e"
  by (simp add: te_pre_def)

lemma entry_ok_update [simp]: "entry_ok n (e\<lparr>te_peer := x\<rparr>) = entry_ok n e"
  by (simp add: entry_ok_def)

lemma twf_weaken: "twf n pre t \<Longrightarrow> prefix pre' pre \<Longrightarrow> twf n pre' t"
  by (cases t) (auto intro: prefix_order.trans)

lemma twf_dom: "twf n pre t \<Longrightarrow> tmap t q = Some p \<Longrightarrow> prefix pre q"
proof (induction t arbitrary: pre)
  case (TNode e l r)
  show ?case
  proof (cases "q = te_pre e")
    case False
    then have "tmap l q = Some p \<or> tmap r q = Some p" using TNode.prems(2) by auto
    then have "prefix (te_pre e) q" using TNode append_prefixD by (metis twf.simps(2))
    then show ?thesis using TNode.prems(1) by (metis prefix_order.trans twf.simps(2))
  qed (use TNode.prems in simp)
qed simp

lemma twf_outside: "twf n pre t \<Longrightarrow> \<not> prefix pre q \<Longrightarrow> tmap t q = None"
  using twf_dom by fastforce

lemma prefix_snoc_unique: "prefix (xs @ [a]) q \<Longrightarrow> prefix (xs @ [b]) q \<Longrightarrow> a = b"
  by (auto simp: prefix_def)

lemma twf_child: "twf n pre (TNode e l r) \<Longrightarrow> twf n (te_pre e @ [b]) (if b then r else l)"
  by (cases b) simp_all

lemma tmap_other_child:
  assumes "twf n pre (TNode e l r)" "prefix (te_pre e @ [b]) q"
  shows "tmap (if b then l else r) q = None"
proof -
  have "\<not> prefix (te_pre e @ [\<not> b]) q" using prefix_snoc_unique [OF assms(2), of "\<not> b"] by blast
  then show ?thesis using twf_outside [OF twf_child [OF assms(1), of "\<not> b"]] by (cases b) simp_all
qed

lemma tmap_child:
  assumes "twf n pre (TNode e l r)" "prefix (te_pre e @ [b]) q"
  shows "tmap (TNode e l r) q = tmap (if b then r else l) q"
proof -
  have "q \<noteq> te_pre e" using assms(2) by auto
  moreover have "tmap (if b then l else r) q = None"
    by (rule tmap_other_child [OF assms])
  ultimately show ?thesis by (cases b) (simp_all add: map_add_def split: option.splits)
qed

lemma tmap_elsewhere:
  assumes "twf n pre (TNode e l r)" "q \<noteq> te_pre e" "\<not> prefix (te_pre e) q"
  shows "tmap (TNode e l r) q = None"
proof -
  have "tmap l q = None" "tmap r q = None" using assms twf_outside append_prefixD by (metis twf.simps(2))+
  then show ?thesis using assms(2) by (simp add: map_add_def)
qed

lemma tmap_set_child:
  assumes wf: "twf n pre (TNode e l r)" and k: "prefix (te_pre e @ [b]) k"
    and t': "tmap t' = (tmap (if b then r else l))(k := x)"
  shows "tmap (set_child b t' (TNode e l r)) = (tmap (TNode e l r))(k := x)"
proof -
  have "k \<noteq> te_pre e" using k by auto
  moreover have "tmap (if b then l else r) k = None" by (rule tmap_other_child [OF wf k])
  ultimately show ?thesis using t' by (cases b) (auto simp: map_add_def fun_eq_iff split: option.splits)
qed

lemma new_entry_ok:
  assumes "ip_size (length ip)" "cidr \<le> 8 * length ip"
  shows "te_pre (new_entry x ip cidr) = take cidr (bits_of ip)" "entry_ok (length ip) (new_entry x ip cidr)"
    "length (te_bits (new_entry x ip cidr)) = length ip"
    "bits_of (te_bits (new_entry x ip cidr)) = take cidr (bits_of ip) @ replicate (8 * length ip - cidr) False"
    "te_peer (new_entry x ip cidr) = x" "te_cidr (new_entry x ip cidr) = cidr"
  using bits_maskBits [OF assms] assms by (simp_all add: new_entry_def te_pre_def entry_ok_def)

lemma choose_bits: "entry_ok n e \<Longrightarrow> length ip = n \<Longrightarrow> te_cidr e < 8 * n \<Longrightarrow> choose_bit e ip = Some (bits_of ip ! te_cidr e)"
proof -
  assume e: "entry_ok n e" "length ip = n" "te_cidr e < 8 * n"
  then have "te_cidr e div 8 < length ip" by (simp add: less_mult_imp_div_less mult.commute)
  then show ?thesis
    using e by (simp add: choose_bit_def entry_ok_def bits_of_nth and_one_eq bit_iff_odd_drop_bit odd_iff_mod_2_eq_one)
qed

lemma common_ge_iff:
  assumes "ip_size n" "entry_ok n e" "length ip = n"
  obtains k where "commonBits (te_bits e) ip = Some k" "te_cidr e \<le> k \<longleftrightarrow> prefix (te_pre e) (bits_of ip)"
proof
  show "commonBits (te_bits e) ip = Some (length (longest_common_prefix (bits_of (te_bits e)) (bits_of ip)))"
    using assms by (intro commonBits_lcp) (simp_all add: entry_ok_def)
  have "te_cidr e \<le> length (longest_common_prefix (bits_of (te_bits e)) (bits_of ip)) \<longleftrightarrow>
      take (te_cidr e) (bits_of (te_bits e)) = take (te_cidr e) (bits_of ip)"
    using entry_ok_len [OF assms(2)] assms(3) by (intro lcp_ge_iff) simp_all
  also have "\<dots> \<longleftrightarrow> prefix (te_pre e) (bits_of ip)"
    using assms length_te_pre [OF assms(2)] by (auto simp: te_pre_def prefix_def take_is_prefix) (metis append_eq_conv_conj append_take_drop_id)
  finally show "te_cidr e \<le> length (longest_common_prefix (bits_of (te_bits e)) (bits_of ip)) \<longleftrightarrow> prefix (te_pre e) (bits_of ip)" .
qed

subsection \<open>Finding the place\<close>

text \<open>The node found below a child is the one found from the child itself, with the path extended.\<close>

definition below :: "path \<Rightarrow> path option \<Rightarrow> path option \<times> bool \<Rightarrow> path option \<times> bool" where
  "below here parent r = ((case fst r of None \<Rightarrow> parent | Some q \<Rightarrow> Some (here @ q)), snd r)"

lemma below_simps [simp]: "below here parent (None, x) = (parent, x)" "below here parent (Some q, x) = (Some (here @ q), x)"
  by (simp_all add: below_def)

lemma nodePlacement_below:
  "nodePlacement t ip cidr here parent = map_option (below here parent) (nodePlacement t ip cidr [] None)"
proof (induction t arbitrary: here parent)
  case (TNode e l r)
  have "map_option (below (here @ [b]) (Some here)) x = map_option (below here parent) (map_option (below [b] (Some [])) x)" for x b
    by (cases x) (auto simp: below_def split: option.splits)
  then have IH: "nodePlacement (if b then r else l) ip cidr (here @ [b]) (Some here) =
      map_option (below here parent) (nodePlacement (if b then r else l) ip cidr [b] (Some []))" for b
    using TNode.IH [of "here @ [b]" "Some here"] TNode.IH [of "[b]" "Some []"] by (cases b) simp_all
  show ?case by (auto simp: IH split: option.splits)
qed simp

lemma nodePlacement_cases:
  assumes n: "ip_size n" "length ip = n" "cidr \<le> 8 * n" and wf: "twf n pre (TNode e l r)"
  obtains
    (here) "te_pre e = take cidr (bits_of ip)" "nodePlacement (TNode e l r) ip cidr [] None = Some (Some [], True)"
  | (inside) b where "te_cidr e < cidr" "prefix (te_pre e @ [b]) (take cidr (bits_of ip))" "choose_bit e ip = Some b"
      "nodePlacement (TNode e l r) ip cidr [] None =
         map_option (below [b] (Some [])) (nodePlacement (if b then r else l) ip cidr [] None)"
  | (above) "\<not> prefix (te_pre e) (take cidr (bits_of ip))" "nodePlacement (TNode e l r) ip cidr [] None = Some (None, False)"
proof -
  let ?K = "take cidr (bits_of ip)"
  have e: "entry_ok n e" using wf by simp
  then have len: "length (te_pre e) = te_cidr e" by (rule length_te_pre)
  obtain k where k: "commonBits (te_bits e) ip = Some k" "te_cidr e \<le> k \<longleftrightarrow> prefix (te_pre e) (bits_of ip)"
    using common_ge_iff [OF n(1) e n(2)] by blast
  have lenK: "length ?K = cidr" using n by simp
  have pre: "prefix (te_pre e) ?K \<longleftrightarrow> te_cidr e \<le> cidr \<and> te_cidr e \<le> k"
    using k(2) len lenK prefix_length_le [of "te_pre e" ?K] take_is_prefix [of cidr "bits_of ip"]
    by (metis prefix_length_prefix prefix_order.trans)
  show thesis
  proof (cases "prefix (te_pre e) ?K")
    case False
    then have "nodePlacement (TNode e l r) ip cidr [] None = Some (None, False)" using pre k(1) by auto
    with False show thesis by (rule above)
  next
    case True
    then have le: "te_cidr e \<le> cidr" "te_cidr e \<le> k" using pre by simp_all
    show thesis
    proof (cases "te_cidr e = cidr")
      case eq: True
      then have "te_pre e = ?K" using True len lenK by (metis append_eq_conv_conj order.refl prefix_def take_all_iff)
      moreover have "nodePlacement (TNode e l r) ip cidr [] None = Some (Some [], True)" using eq k le by simp
      ultimately show thesis by (rule here)
    next
      case less: False
      then have lt: "te_cidr e < cidr" using le by simp
      let ?b = "bits_of ip ! te_cidr e"
      have c: "choose_bit e ip = Some ?b" using lt n by (intro choose_bits [OF e]) simp_all
      have "te_pre e = take (te_cidr e) ?K" using True len by (metis append_eq_conv_conj prefix_def)
      then have "te_pre e @ [?b] = take (Suc (te_cidr e)) ?K" using lt lenK by (simp add: take_Suc_conv_app_nth)
      then have "prefix (te_pre e @ [?b]) ?K" by (metis take_is_prefix)
      moreover have "nodePlacement (TNode e l r) ip cidr [] None =
          map_option (below [?b] (Some [])) (nodePlacement (if ?b then r else l) ip cidr [] None)"
        using k(1) le lt c nodePlacement_below [of "if ?b then r else l" ip cidr "[?b]" "Some []"] by simp
      ultimately show thesis using inside [OF lt _ c] by blast
    qed
  qed
qed

lemma nodePlacement_exact:
  assumes "ip_size n" "length ip = n" "cidr \<le> 8 * n"
  shows "twf n pre t \<Longrightarrow>
    (\<exists>path e l r. nodePlacement t ip cidr [] None = Some (Some path, True) \<and> get_at path t = TNode e l r \<and>
       te_pre e = take cidr (bits_of ip)) \<or>
    (\<exists>node. nodePlacement t ip cidr [] None = Some (node, False)) \<and> tmap t (take cidr (bits_of ip)) = None"
proof (induction t arbitrary: pre)
  case (TNode e l r)
  let ?K = "take cidr (bits_of ip)"
  show ?case
  proof (rule nodePlacement_cases [OF assms TNode.prems])
    assume h: "te_pre e = ?K" "nodePlacement (TNode e l r) ip cidr [] None = Some (Some [], True)"
    have "get_at [] (TNode e l r) = TNode e l r" by simp
    with h show ?thesis by blast
  next
    fix b
    assume b: "prefix (te_pre e @ [b]) ?K"
      "nodePlacement (TNode e l r) ip cidr [] None = map_option (below [b] (Some [])) (nodePlacement (if b then r else l) ip cidr [] None)"
    let ?c = "if b then r else l"
    have eq: "tmap (TNode e l r) ?K = tmap ?c ?K" "get_at (b # path) (TNode e l r) = get_at path ?c" for path
      using tmap_child [OF TNode.prems b(1)] by simp_all
    have "twf n (te_pre e @ [b]) ?c" by (rule twf_child [OF TNode.prems])
    then consider path e' l' r' where "nodePlacement ?c ip cidr [] None = Some (Some path, True)" "get_at path ?c = TNode e' l' r'" "te_pre e' = ?K"
      | node where "nodePlacement ?c ip cidr [] None = Some (node, False)" "tmap ?c ?K = None"
      using TNode.IH by (cases b) (simp_all, blast+)
    then show ?thesis
    proof cases
      case 1
      then have "nodePlacement (TNode e l r) ip cidr [] None = Some (Some (b # path), True)" using b(2) by simp
      then show ?thesis using 1 eq(2) by metis
    next
      case 2
      then show ?thesis using b(2) eq(1) by (cases node) (simp_all del: nodePlacement.simps tmap.simps)
    qed
  next
    assume a: "\<not> prefix (te_pre e) ?K" "nodePlacement (TNode e l r) ip cidr [] None = Some (None, False)"
    then have "tmap (TNode e l r) ?K = None" using tmap_elsewhere [OF TNode.prems] by (metis prefix_order.refl)
    with a(2) show ?thesis by (simp del: nodePlacement.simps tmap.simps)
  qed
qed simp

subsection \<open>Insertion\<close>

lemma take_le: "m \<le> n \<Longrightarrow> take m (take n xs) = take m xs"
  by (simp add: min_def)

lemma take_prefix_take: "m \<le> n \<Longrightarrow> prefix (take m xs) (take n xs)"
  by (metis take_is_prefix take_le)

lemma prefix_nth_snoc: "prefix (xs @ [b]) ys \<Longrightarrow> ys ! length xs = b"
  by (auto simp: prefix_def)

lemma prefix_take_iff: "prefix xs ys \<Longrightarrow> length xs \<le> k \<Longrightarrow> prefix xs (take k ys)"
  by (metis length_take min.absorb2 nat_le_linear prefix_length_prefix take_all_iff take_is_prefix)

lemma take_snoc_prefix: "c < a \<Longrightarrow> a \<le> length x \<Longrightarrow> prefix (take c x @ [x ! c]) (take a x)"
  using take_prefix_take [of "Suc c" a x] by (simp add: take_Suc_conv_app_nth)

lemma lcp_inside:
  assumes "length x = length y" "a \<le> length x" "k \<le> length (longest_common_prefix x y)" "\<not> prefix (take a x) (take k y)"
  shows "k < a \<and> prefix (take k y @ [x ! k]) (take a x)"
proof -
  have "k \<le> length x" using assms(3) prefix_length_le [OF longest_common_prefix_prefix1 [of x y]] by simp
  then have eq: "take k x = take k y" using assms(1,3) lcp_ge_iff by blast
  then have "k < a" using assms(4) take_prefix_take [of a k x] by (simp only: not_less [symmetric]) blast
  then show ?thesis using take_snoc_prefix [OF _ assms(2)] by (metis eq)
qed

lemma lcp_split:
  assumes len: "length x = length y" "a \<le> length x" "k \<le> length x" and c: "c = length (longest_common_prefix x y)" "c < k"
    and differ: "\<not> prefix (take a x) (take k y)"
  shows "c < a" "x ! c \<noteq> y ! c" "prefix (take c y @ [x ! c]) (take a x)" "prefix (take c y @ [y ! c]) (take k y)"
    "prefix pre (take a x) \<Longrightarrow> prefix pre (take k y) \<Longrightarrow> prefix pre (take c y)"
proof -
  have cl: "c \<le> length x" using c(2) len by simp
  then have eq: "take c x = take c y" using c(1) len(1) lcp_ge_iff by blast
  have "\<not> a \<le> c"
  proof
    assume "a \<le> c"
    then have "prefix (take a x) (take c x)" by (rule take_prefix_take)
    also have "prefix (take c x) (take k y)" using c(2) eq take_prefix_take [of c k y] by simp
    finally show False using differ by blast
  qed
  then show lt: "c < a" by simp
  show "x ! c \<noteq> y ! c" using c len lcp_differ [of x y] by simp
  show "prefix (take c y @ [x ! c]) (take a x)" using take_snoc_prefix [OF lt len(2)] eq by metis
  show "prefix (take c y @ [y ! c]) (take k y)" using take_snoc_prefix [OF c(2), of y] len by simp
  assume p: "prefix pre (take a x)" "prefix pre (take k y)"
  then have px: "prefix pre x" "prefix pre y" using take_is_prefix prefix_order.trans by blast+
  then have "prefix pre (longest_common_prefix x y)" by (rule longest_common_prefix_max_prefix)
  then have "length pre \<le> c" using c(1) prefix_length_le by blast
  then show "prefix pre (take c y)" by (rule prefix_take_iff [OF px(2)])
qed

lemma twf_fork:
  assumes "entry_ok n f" "prefix pre (te_pre f)" "twf n (te_pre f @ [b]) d" "twf n (te_pre f @ [b']) s" "d \<noteq> TNil" "s \<noteq> TNil" "b \<noteq> b'"
  shows "twf n pre (set_child b' s (set_child b d (TNode f TNil TNil)))"
  using assms by (cases b) simp_all

lemma tmap_fork:
  assumes "te_peer f = None" "tmap d (te_pre f) = None" "tmap d K = None" "K \<noteq> te_pre f" "tmap s = [K \<mapsto> p]" "b \<noteq> b'"
  shows "tmap (set_child b' s (set_child b d (TNode f TNil TNil))) = (tmap d)(K \<mapsto> p)"
  using assms by (cases b) (auto simp: fun_eq_iff map_add_def split: option.splits)

lemma join_down_above:
  assumes n: "ip_size n" and wf: "twf n pre (TNode e l r)" and new: "entry_ok n new" "te_peer new = Some p" "te_pre new = K" "prefix pre K"
    and above: "\<not> prefix (te_pre e) K"
  shows "\<exists>sub bits. join_down new (TNode e l r) = Some (sub, bits) \<and> twf n pre sub \<and> tmap sub = (tmap (TNode e l r))(K \<mapsto> p) \<and>
    length bits = n \<and> prefix pre (bits_of bits)"
proof -
  let ?d = "TNode e l r"
  have e: "entry_ok n e" "prefix pre (te_pre e)" "length (te_bits e) = n" using wf by (simp_all add: entry_ok_len)
  have lb: "length (te_bits new) = n" "length K = te_cidr new" using new entry_ok_len length_te_pre by blast+
  define x where "x = bits_of (te_bits e)"
  define y where "y = bits_of (te_bits new)"
  define c where "c = length (longest_common_prefix x y)"
  have len: "length x = length y" "te_cidr e \<le> length x" "te_cidr new \<le> length x"
    using e lb entry_ok_len [OF e(1)] entry_ok_len [OF new(1)] by (simp_all add: x_def y_def)
  have tx: "te_pre e = take (te_cidr e) x" "K = take (te_cidr new) y" using new(3) by (simp_all add: te_pre_def x_def y_def)
  have com: "commonBits (te_bits e) (te_bits new) = Some c"
    unfolding c_def x_def y_def using n e lb by (intro commonBits_lcp) simp_all
  have ny: "\<not> prefix (take (te_cidr e) x) (take (te_cidr new) y)" using above tx by simp
  have prey: "prefix pre (bits_of (te_bits new))" using new(4) tx(2) take_is_prefix prefix_order.trans unfolding y_def by blast
  have none: "\<not> prefix (te_pre e) q \<Longrightarrow> tmap ?d q = None" for q using tmap_elsewhere [OF wf] by (metis prefix_order.refl)
  show ?thesis
  proof (cases "te_cidr new \<le> c")
    case True
    let ?k = "te_cidr new"
    have k: "?k < te_cidr e" "prefix (K @ [x ! ?k]) (te_pre e)"
      using lcp_inside [OF len(1,2) _ ny] True by (simp_all add: c_def tx)
    have b: "choose_bit new (te_bits e) = Some (x ! ?k)"
      unfolding x_def using choose_bits [OF new(1) e(3)] k(1) entry_ok_len [OF e(1)] by simp
    let ?t = "set_child (x ! ?k) ?d (TNode new TNil TNil)"
    have "twf n (K @ [x ! ?k]) ?d" using wf k(2) by simp
    then have "twf n pre ?t" using new by (cases "x ! ?k") (simp_all del: twf.simps(2) add: twf.simps(2) [of n pre])
    moreover have "tmap ?t = (tmap ?d)(K \<mapsto> p)" using new by (cases "x ! ?k") (simp_all del: tmap.simps add: tmap.simps(1) tmap.simps(2) [of new])
    moreover have "join_down new ?d = Some (?t, te_bits new)" using com True b by (simp add: join_down_def)
    ultimately show ?thesis using lb prey by blast
  next
    case False
    then have lt: "c < te_cidr new" by simp
    note split = lcp_split [OF len c_def lt ny]
    let ?f = "new_entry None (te_bits new) c :: 'a trieEntry"
    have "ip_size (length (te_bits new))" "c \<le> 8 * length (te_bits new)" using n lt lb entry_ok_len [OF new(1)] by simp_all
    note f = new_entry_ok [OF this, of "None :: 'a option", unfolded lb(1), folded y_def]
    have cn: "c < 8 * n" using lt entry_ok_len [OF new(1)] by simp
    have b: "choose_bit ?f (te_bits e) = Some (x ! c)" "choose_bit ?f (te_bits new) = Some (y ! c)"
      unfolding x_def y_def using choose_bits [OF f(2) e(3)] choose_bits [OF f(2) lb(1)] cn f(6) by simp_all
    let ?s = "TNode new TNil TNil"
    let ?t = "set_child (y ! c) ?s (set_child (x ! c) ?d (TNode ?f TNil TNil))"
    have pre: "prefix pre (te_pre ?f)" using split(5) e(2) new(4) by (simp add: f(1) tx)
    have "twf n pre ?t"
    proof (rule twf_fork [OF f(2) pre _ _ _ _ split(2)])
      show "twf n (te_pre ?f @ [x ! c]) ?d" using wf split(3) by (simp add: f(1) tx)
      show "twf n (te_pre ?f @ [y ! c]) ?s" using new split(4) by (simp add: f(1) tx)
    qed simp_all
    moreover have "tmap ?t = (tmap ?d)(K \<mapsto> p)"
    proof (rule tmap_fork [OF f(5) none none [OF above] _ _ split(2)])
      have "length (te_pre ?f) = c" using length_te_pre [OF f(2)] f(6) by simp
      then show "K \<noteq> te_pre ?f" "\<not> prefix (te_pre e) (te_pre ?f)"
        using lt lb split(1) length_te_pre [OF e(1)] prefix_length_le [of "te_pre e" "te_pre ?f"] by auto
      show "tmap ?s = [K \<mapsto> p]" using new by simp
    qed
    moreover have "join_down new ?d = Some (?t, te_bits ?f)" using com lt b by (simp add: join_down_def Let_def)
    moreover have "prefix pre (bits_of (te_bits ?f))" using f(1,4) pre by (simp add: prefix_prefix)
    ultimately show ?thesis using f(3) by blast
  qed
qed

lemma slot_of_below:
  "slot_of (Some (b # path)) x (TNode e l r) = map_option ((#) b) (slot_of (Some path) x (if b then r else l))"
  by (auto simp: slot_of_def option.map_comp comp_def split: trie.splits)

text \<open>Inserting below a child is inserting into the child, provided the root field and the child's field agree.\<close>

lemma insert_at_below:
  assumes ins: "insert_at q exact ip cidr p (if b then r else l) = Some c'"
    and field: "\<And>bits sub. q = None \<Longrightarrow> \<not> exact \<Longrightarrow> join_down (new_entry (Some p) ip cidr) (if b then r else l) = Some (sub, bits) \<Longrightarrow>
      choose_bit e (te_bits (new_entry (Some p) ip cidr)) = Some b \<and> choose_bit e bits = Some b"
  shows "insert_at (fst (below [b] (Some []) (q, exact))) exact ip cidr p (TNode e l r) = Some (set_child b c' (TNode e l r))"
proof (cases q)
  case None
  let ?new = "new_entry (Some p) ip cidr" and ?c = "if b then r else l"
  have x: "\<not> exact" using ins None by (auto simp: insert_at_def)
  then obtain bits where j: "join_down ?new ?c = Some (c', bits)"
    using ins None by (auto simp: insert_at_def slot_of_def Let_def bind_eq_Some_conv)
  have "choose_bit e (te_bits ?new) = Some b" "choose_bit e bits = Some b" using field [OF None x j] by simp_all
  then show ?thesis using None x j by (simp add: insert_at_def slot_of_def Let_def)
next
  case (Some path)
  then show ?thesis
    using ins by (auto simp: insert_at_def slot_of_below Let_def bind_eq_Some_conv split: trie.splits)
qed

lemma insert_trie_placed:
  "insert_trie ip cidr p t =
     (case nodePlacement t ip cidr [] None of None \<Rightarrow> None | Some (node, exact) \<Rightarrow> insert_at node exact ip cidr p t)"
proof (cases t)
  case TNil
  then show ?thesis by (simp add: insert_trie_def insert_at_def slot_of_def join_down_def Let_def)
qed (simp only: insert_trie_def trie.case)

lemma insert_spec:
  assumes n: "ip_size n" "length ip = n" "cidr \<le> 8 * n"
  shows "twf n pre t \<Longrightarrow> prefix pre (take cidr (bits_of ip)) \<Longrightarrow>
    \<exists>t'. insert_trie ip cidr p t = Some t' \<and> twf n pre t' \<and> tmap t' = (tmap t)(take cidr (bits_of ip) \<mapsto> p) \<and> t' \<noteq> TNil"
proof (induction t arbitrary: pre)
  case TNil
  then show ?case using new_entry_ok [of ip cidr "Some p"] n by (simp add: insert_trie_def fun_eq_iff)
next
  case (TNode e l r)
  let ?K = "take cidr (bits_of ip)" and ?new = "new_entry (Some p) ip cidr" and ?t = "TNode e l r"
  note wf = TNode.prems(1)
  note new = new_entry_ok [of ip cidr "Some p", unfolded n(2), OF n(1,3)]
  show ?case
  proof (rule nodePlacement_cases [OF n wf])
    assume h: "te_pre e = ?K" "nodePlacement ?t ip cidr [] None = Some (Some [], True)"
    then have "insert_trie ip cidr p ?t = Some (TNode (e\<lparr>te_peer := Some p\<rparr>) l r)"
      by (simp add: insert_trie_placed insert_at_def del: nodePlacement.simps)
    then show ?thesis using wf h(1) by (auto simp: fun_eq_iff)
  next
    assume a: "\<not> prefix (te_pre e) ?K" "nodePlacement ?t ip cidr [] None = Some (None, False)"
    obtain sub bits where s: "join_down ?new ?t = Some (sub, bits)" "twf n pre sub" "tmap sub = (tmap ?t)(?K \<mapsto> p)"
      using join_down_above [OF n(1) wf new(2,5,1) TNode.prems(2) a(1)] by blast
    have "insert_trie ip cidr p ?t = Some sub"
      using a(2) s(1) by (simp add: insert_trie_placed insert_at_def slot_of_def Let_def del: nodePlacement.simps)
    moreover have "sub \<noteq> TNil" using s(3) by (metis fun_upd_same option.distinct(1) tmap.simps(1))
    ultimately show ?thesis using s by blast
  next
    fix b
    assume b: "te_cidr e < cidr" "prefix (te_pre e @ [b]) ?K" "nodePlacement ?t ip cidr [] None =
      map_option (below [b] (Some [])) (nodePlacement (if b then r else l) ip cidr [] None)"
    let ?c = "if b then r else l"
    have e: "entry_ok n e" "te_cidr e < 8 * n" "length (te_pre e) = te_cidr e" using wf b(1) n(3) length_te_pre by auto
    have wfc: "twf n (te_pre e @ [b]) ?c" by (rule twf_child [OF wf])
    have "\<exists>c'. insert_trie ip cidr p ?c = Some c' \<and> twf n (te_pre e @ [b]) c' \<and> tmap c' = (tmap ?c)(?K \<mapsto> p) \<and> c' \<noteq> TNil"
      using TNode.IH(1) [of "te_pre e @ [b]"] TNode.IH(2) [of "te_pre e @ [b]"] wfc b(2)
      by (cases b) (simp_all only: if_True if_False)
    then obtain c' where c': "insert_trie ip cidr p ?c = Some c'" "twf n (te_pre e @ [b]) c'" "tmap c' = (tmap ?c)(?K \<mapsto> p)" "c' \<noteq> TNil"
      by blast
    then obtain q exact where q: "nodePlacement ?c ip cidr [] None = Some (q, exact)" "insert_at q exact ip cidr p ?c = Some c'"
      by (auto simp: insert_trie_placed split: option.splits)
    have pick: "choose_bit e bits = Some b" if "length bits = n" "prefix (te_pre e @ [b]) (bits_of bits)" for bits
      using choose_bits [OF e(1) that(1) e(2)] prefix_nth_snoc [OF that(2)] e(3) by simp
    have newb: "choose_bit e (te_bits ?new) = Some b" using pick [OF new(3)] b(2) new(4) by (simp add: prefix_prefix)
    have "insert_at (fst (below [b] (Some []) (q, exact))) exact ip cidr p ?t = Some (set_child b c' ?t)"
    proof (rule insert_at_below [OF q(2)])
      fix bits sub
      assume none: "q = None" "\<not> exact" "join_down ?new ?c = Some (sub, bits)"
      have "length bits = n \<and> prefix (te_pre e @ [b]) (bits_of bits)"
      proof (cases ?c)
        case TNil
        then show ?thesis using none(3) new(3,4) b(2) by (auto simp: join_down_def prefix_prefix)
      next
        case (TNode e' l' r')
        have "\<not> prefix (te_pre e') ?K"
          by (rule nodePlacement_cases [OF n wfc [unfolded TNode]])
             (use q(1) none TNode in \<open>auto simp: below_def simp del: nodePlacement.simps split: option.splits\<close>)
        from join_down_above [OF n(1) wfc [unfolded TNode] new(2,5,1) b(2) this] show ?thesis using none(3) TNode by auto
      qed
      then show "choose_bit e (te_bits ?new) = Some b \<and> choose_bit e bits = Some b" using pick newb by blast
    qed
    then have "insert_trie ip cidr p ?t = Some (set_child b c' ?t)"
      using b(3) q(1) by (simp add: insert_trie_placed below_def del: nodePlacement.simps set_child.simps)
    moreover have "twf n pre (set_child b c' ?t)" using wf c'(2,4) by (cases b) simp_all
    moreover have "tmap (set_child b c' ?t) = (tmap ?t)(?K \<mapsto> p)" by (rule tmap_set_child [OF wf b(2)]) (use c'(3) in simp)
    moreover have "set_child b c' ?t \<noteq> TNil" by simp
    ultimately show ?thesis by blast
  qed
qed

subsection \<open>Lookup\<close>

text \<open>The value at the longest prefix in the domain of a map.\<close>

function lpm :: "(bool list \<rightharpoonup> 'p) \<Rightarrow> bool list \<Rightarrow> 'p option" where
  "lpm m q = (if m q \<noteq> None then m q else if q = [] then None else lpm m (butlast q))"
  by pat_completeness auto
termination
  by (relation "measure (length \<circ> snd)") auto

declare lpm.simps [simp del]

lemma lpm_none: "(\<And>q'. prefix q' q \<Longrightarrow> m q' = None) \<Longrightarrow> lpm m q = None"
proof (induction m q rule: lpm.induct)
  case (1 m q)
  have "lpm m (butlast q) = None" if "q \<noteq> []"
    using 1 that prefixeq_butlast prefix_order.trans by (metis (full_types) prefix_order.refl)
  then show ?case using 1(2) [of q] lpm.simps [of m q] by auto
qed

text \<open>Prefixes longer than \<open>a\<close> decide first.\<close>

lemma strict_below: "prefix q (butlast a) \<Longrightarrow> a \<noteq> [] \<Longrightarrow> prefix q a \<and> q \<noteq> a"
proof
  assume q: "prefix q (butlast a)" "a \<noteq> []"
  show "prefix q a" using q(1) prefixeq_butlast prefix_order.trans by blast
  have "length q \<le> length a - 1" "0 < length a" using prefix_length_le [OF q(1)] q(2) by simp_all
  then have "length q < length a" by linarith
  then show "q \<noteq> a" by auto
qed

lemma lpm_split:
  assumes "prefix a q" "\<And>q'. prefix q' a \<Longrightarrow> q' \<noteq> a \<Longrightarrow> m q' = None"
    "\<And>q'. prefix q' q \<Longrightarrow> m' q' = (if q' = a then None else m q')"
  shows "lpm m q = (case lpm m' q of Some p \<Rightarrow> Some p | None \<Rightarrow> m a)"
  using assms
proof (induction m q rule: lpm.induct)
  case (1 m q)
  show ?case
  proof (cases "q = a")
    case True
    have "lpm m' (butlast a) = None" "lpm m (butlast a) = None" if "a \<noteq> []"
      using 1(3,4) True strict_below [OF _ that] by (auto intro!: lpm_none)
    moreover have "m' q = None" using 1(4) [of q] True by simp
    ultimately show ?thesis using True lpm.simps [of m q] lpm.simps [of m' q] by (cases "a = []") auto
  next
    case False
    then have q: "q \<noteq> []" "prefix a (butlast q)"
      using 1(2) by (auto simp: prefix_def butlast_append)
    have below: "m' q' = (if q' = a then None else m q')" if "prefix q' (butlast q)" for q'
      using 1(4) strict_below [OF that q(1)] by blast
    have "lpm m (butlast q) = (case lpm m' (butlast q) of Some p \<Rightarrow> Some p | None \<Rightarrow> m a)" if "m q = None"
      using 1(1) [OF _ q(1,2) 1(3) below] that by simp
    moreover have "m' q = m q" using 1(4) [of q] False by simp
    ultimately show ?thesis using q(1) lpm.simps [of m q] lpm.simps [of m' q] by (cases "m q") auto
  qed
qed

lemma lookup_spec:
  assumes n: "ip_size n" "length ip = n"
  shows "twf n pre t \<Longrightarrow> lookup t ip found = Some (case lpm (tmap t) (bits_of ip) of Some p \<Rightarrow> Some p | None \<Rightarrow> found)"
proof (induction t arbitrary: pre found)
  case TNil
  then show ?case by (simp add: lpm_none)
next
  case (TNode e l r)
  let ?x = "bits_of ip" and ?t = "TNode e l r"
  note wf = TNode.prems
  have e: "entry_ok n e" "length (te_pre e) = te_cidr e" "te_cidr e \<le> 8 * n" using wf length_te_pre entry_ok_len by (metis twf.simps(2))+
  obtain k where k: "commonBits (te_bits e) ip = Some k" "te_cidr e \<le> k \<longleftrightarrow> prefix (te_pre e) ?x"
    using common_ge_iff [OF n(1) e(1) n(2)] by blast
  have none: "tmap ?t q = None" if "\<not> prefix (te_pre e) q" for q using tmap_elsewhere [OF wf] that by (metis prefix_order.refl)
  show ?case
  proof (cases "te_cidr e \<le> k")
    case False
    then have "tmap ?t q = None" if "prefix q ?x" for q using none k(2) that prefix_order.trans by blast
    then have "lpm (tmap ?t) ?x = None" by (rule lpm_none)
    then show ?thesis using False k(1) by (simp del: tmap.simps)
  next
    case True
    then have pre: "prefix (te_pre e) ?x" using k by simp
    let ?found = "if te_peer e \<noteq> None then te_peer e else found"
    have split: "lpm (tmap ?t) ?x = (case lpm m' ?x of Some p \<Rightarrow> Some p | None \<Rightarrow> te_peer e)"
      if "\<And>q. prefix q ?x \<Longrightarrow> m' q = (if q = te_pre e then None else tmap ?t q)" for m'
    proof -
      have "lpm (tmap ?t) ?x = (case lpm m' ?x of Some p \<Rightarrow> Some p | None \<Rightarrow> tmap ?t (te_pre e))"
        by (rule lpm_split [OF pre _ that]) (metis none prefix_order.antisym, assumption)
      moreover have "tmap ?t (te_pre e) = te_peer e" by simp
      ultimately show ?thesis by (simp only:)
    qed
    show ?thesis
    proof (cases "te_cidr e = 8 * n")
      case full: True
      then have "te_pre e = ?x" using pre e(2) n(2) by (metis append_eq_conv_conj length_bits_of order.refl prefix_def take_all_iff)
      then have "lpm (tmap ?t) ?x = (case lpm Map.empty ?x of Some p \<Rightarrow> Some p | None \<Rightarrow> te_peer e)"
        by (intro split) (metis none prefix_order.antisym)
      then have "lpm (tmap ?t) ?x = te_peer e" by (simp add: lpm_none)
      moreover have "bitAtByte e = length ip" using e(1) full n(2) by (simp add: entry_ok_def)
      ultimately show ?thesis using True k(1) by (simp del: tmap.simps split: option.splits)
    next
      case False
      then have lt: "te_cidr e < 8 * n" using e(3) by simp
      let ?b = "?x ! te_cidr e" and ?c = "if ?x ! te_cidr e then r else l"
      have b: "choose_bit e ip = Some ?b" by (rule choose_bits [OF e(1) n(2) lt])
      have byte: "bitAtByte e \<noteq> length ip" using e(1) lt n(2) by (auto simp: entry_ok_def)
      have "lpm (tmap ?t) ?x = (case lpm (tmap ?c) ?x of Some p \<Rightarrow> Some p | None \<Rightarrow> te_peer e)"
      proof (rule split)
        fix q assume q: "prefix q ?x"
        show "tmap ?c q = (if q = te_pre e then None else tmap ?t q)"
        proof (cases "prefix (te_pre e @ [?b]) q")
          case True
          then show ?thesis using tmap_child [OF wf True] by auto
        next
          case False
          then have c: "tmap ?c q = None" by (rule twf_outside [OF twf_child [OF wf]])
          have "q = te_pre e \<or> \<not> prefix (te_pre e) q"
          proof (rule ccontr)
            assume "\<not> (q = te_pre e \<or> \<not> prefix (te_pre e) q)"
            then obtain zs where "q = te_pre e @ zs" "zs \<noteq> []" by (auto simp: prefix_def)
            then obtain a q' where "q = te_pre e @ a # q'" by (cases zs) auto
            then have "prefix (te_pre e @ [a]) q" "?x ! te_cidr e = a" using q e(2) by (auto simp: prefix_def nth_append)
            then show False using False by simp
          qed
          then show ?thesis using c none [of q] by (simp only: if_True) (auto simp del: tmap.simps)
        qed
      qed
      moreover have "lookup ?c ip ?found = Some (case lpm (tmap ?c) ?x of Some p \<Rightarrow> Some p | None \<Rightarrow> ?found)"
        using TNode.IH(1) [of "te_pre e @ [?b]" ?found] TNode.IH(2) [of "te_pre e @ [?b]" ?found] twf_child [OF wf, of ?b]
        by (cases ?b) (simp_all only: if_True if_False)
      moreover have "lookup ?t ip found = lookup ?c ip ?found" using True k(1) b byte by simp
      ultimately show ?thesis by (auto simp del: tmap.simps lookup.simps split: option.splits)
    qed
  qed
qed

subsection \<open>Removal\<close>

lemma set_child_simps [simp]:
  "child b (set_child b c (TNode e l r)) = c" "child (\<not> b) (set_child b c (TNode e l r)) = child (\<not> b) (TNode e l r)"
  "set_child b c (set_child b c' t) = set_child b c t"
  by (cases b; cases t; simp)+

lemma get_at_TNil [simp]: "get_at path TNil = TNil"
  by (induction path) simp_all

lemma remove_at_Cons:
  assumes "path \<noteq> []" "get_at path (child b (TNode e l r)) \<noteq> TNil"
  shows "remove_at (b # path) (TNode e l r) = set_child b (remove_at path (child b (TNode e l r))) (TNode e l r)"
proof -
  let ?c = "child b (TNode e l r)"
  obtain e0 l0 r0 where n: "get_at path ?c = TNode e0 l0 r0" using assms(2) by (cases "get_at path ?c") auto
  have bl: "butlast (b # path) = b # butlast path" "List.last (b # path) = List.last path" using assms(1) by simp_all
  have g: "get_at (b # p) (TNode e l r) = get_at p ?c" "put_at (b # p) s (TNode e l r) = set_child b (put_at p s ?c) (TNode e l r)"
    "get_at (b # p) (set_child b x (TNode e l r)) = get_at p x"
    "put_at (b # p) s (set_child b x (TNode e l r)) = set_child b (put_at p s x) (TNode e l r)" for p s x
    by (simp_all del: child.simps set_child.simps)
  show ?thesis
    unfolding remove_at_def by (simp add: g n bl Let_def assms(1) del: get_at.simps put_at.simps child.simps set_child.simps split: trie.split)
qed

lemma remove_at_child:
  assumes "child b (TNode e l r) = TNode ce cl cr"
  shows "remove_at [b] (TNode e l r) =
    (if cl = TNil \<and> cr = TNil \<and> te_peer e = None then child (\<not> b) (TNode e l r)
     else set_child b (remove_at [] (TNode ce cl cr)) (TNode e l r))"
  using assms by (cases b) (simp_all add: remove_at_def Let_def)

lemma remove_at_not_Nil:
  assumes "twf n pre t" "path \<noteq> []" "get_at path t \<noteq> TNil"
  shows "remove_at path t \<noteq> TNil"
proof (cases path)
  case (Cons b path')
  obtain e l r where t: "t = TNode e l r" using assms(3) Cons by (cases t) simp_all
  show ?thesis
  proof (cases "path' = []")
    case True
    then obtain ce cl cr where c: "child b t = TNode ce cl cr" using assms(3) Cons by (cases "child b t") simp_all
    then show ?thesis using remove_at_child [of b e l r ce cl cr] assms(1) t Cons True by (cases b) auto
  next
    case False
    then have "remove_at path t = set_child b (remove_at path' (child b t)) t"
      using remove_at_Cons [of path' b e l r] assms(3) Cons t by simp
    then show ?thesis using t by (cases b) simp_all
  qed
qed (use assms in simp)

lemma remove_leaf: "remove_at [] (TNode e l r) = TNil \<longleftrightarrow> l = TNil \<and> r = TNil"
  by (simp add: remove_at_def Let_def)

lemma remove_root:
  assumes wf: "twf n pre (TNode e l r)"
  shows "twf n pre (remove_at [] (TNode e l r)) \<and> tmap (remove_at [] (TNode e l r)) = (tmap (TNode e l r))(te_pre e := None)"
proof -
  have "tmap l (te_pre e) = None" "tmap r (te_pre e) = None"
    using twf_outside [OF twf_child [OF wf, of False]] twf_outside [OF twf_child [OF wf, of True]] by auto
  moreover have "twf n pre l" "twf n pre r" using wf by (auto intro: twf_weaken simp: prefix_snoc)
  ultimately show ?thesis using wf by (auto simp: remove_at_def Let_def fun_eq_iff map_add_def split: option.splits)
qed

lemma get_at_prefix: "twf n pre t \<Longrightarrow> get_at path t = TNode e l r \<Longrightarrow> prefix pre (te_pre e)"
proof (induction path arbitrary: t pre)
  case (Cons b path)
  obtain e0 l0 r0 where t: "t = TNode e0 l0 r0" using Cons.prems(2) by (cases t) simp_all
  have wf: "twf n pre (TNode e0 l0 r0)" using Cons.prems(1) t by simp
  have "prefix (te_pre e0 @ [b]) (te_pre e)" using Cons.IH [OF twf_child [OF wf, of b]] Cons.prems(2) t by simp
  then show ?case using wf append_prefixD prefix_order.trans by (metis twf.simps(2))
qed simp

lemma remove_spec:
  "twf n pre t \<Longrightarrow> get_at path t = TNode e l r \<Longrightarrow>
   twf n pre (remove_at path t) \<and> tmap (remove_at path t) = (tmap t)(te_pre e := None)"
proof (induction path arbitrary: t pre)
  case Nil
  then have t: "t = TNode e l r" by simp
  show ?case using remove_root [of n pre e l r] Nil(1) unfolding t .
next
  case (Cons b path)
  obtain e0 l0 r0 where t: "t = TNode e0 l0 r0" using Cons.prems(2) by (cases t) simp_all
  let ?c = "child b t"
  have wf: "twf n pre (TNode e0 l0 r0)" using Cons.prems(1) t by simp
  have c: "?c = (if b then r0 else l0)" using t by simp
  have wfc: "twf n (te_pre e0 @ [b]) ?c" using twf_child [OF wf, of b] c by simp
  have gc: "get_at path ?c = TNode e l r" using Cons.prems(2) by simp
  have IH: "twf n (te_pre e0 @ [b]) (remove_at path ?c)" "tmap (remove_at path ?c) = (tmap ?c)(te_pre e := None)"
    using Cons.IH [OF wfc gc] by blast+
  have pre: "prefix (te_pre e0 @ [b]) (te_pre e)" by (rule get_at_prefix [OF wfc gc])
  show ?case
  proof (cases "path = [] \<and> l = TNil \<and> r = TNil \<and> te_peer e0 = None")
    case True
    then have res: "remove_at (b # path) t = child (\<not> b) t" using remove_at_child [of b e0 l0 r0 e l r] gc t by simp
    have "tmap ?c = Map.empty(te_pre e := te_peer e)" using gc True by (simp add: fun_eq_iff)
    moreover have other: "tmap (if b then l0 else r0) (te_pre e) = None" by (rule tmap_other_child [OF wf pre])
    moreover have "tmap (if b then l0 else r0) (te_pre e0) = None"
      using twf_outside [OF twf_child [OF wf, of "\<not> b"], of "te_pre e0"] by (cases b) auto
    ultimately have "tmap (child (\<not> b) t) = (tmap t)(te_pre e := None)"
      using t c True by (cases b) (auto simp: fun_eq_iff map_add_def split: option.splits)
    moreover have "twf n pre (child (\<not> b) t)"
      using twf_weaken [OF twf_child [OF wf, of "\<not> b"], of pre] wf t by (cases b) (auto simp: prefix_snoc)
    ultimately show ?thesis using res by simp
  next
    case False
    have res: "remove_at (b # path) t = set_child b (remove_at path ?c) t \<and> (te_peer e0 = None \<longrightarrow> remove_at path ?c \<noteq> TNil)"
    proof (cases "path = []")
      case True
      then have "?c = TNode e l r" using gc by simp
      then show ?thesis using remove_at_child [of b e0 l0 r0 e l r] False True t
        by (auto simp: remove_leaf simp del: child.simps set_child.simps)
    next
      case ne: False
      have "get_at path ?c \<noteq> TNil" using gc by simp
      then show ?thesis using remove_at_Cons [OF ne, of b e0 l0 r0] remove_at_not_Nil [OF wfc ne] t by simp
    qed
    have "twf n pre (set_child b (remove_at path ?c) t)" using wf IH(1) res t by (cases b) simp_all
    moreover have "tmap (set_child b (remove_at path ?c) t) = (tmap t)(te_pre e := None)"
      unfolding t by (rule tmap_set_child [OF wf pre]) (use IH(2) c t in simp)
    ultimately show ?thesis using res by simp
  qed
qed

end
