(* ===== verification/Allowed_IPs.thy ===== *)
theory Allowed_IPs
  imports Address_Trie
begin

section \<open>The table of allowed addresses (wireguard-go/device/allowedips.go)\<close>

text \<open>
  The table of a device: a trie for each address family and the list of prefixes of each peer, refined to
  a map from prefixes to peers with lookup by longest prefix.
\<close>

subsection \<open>The table\<close>

text \<open>
  Both tries and the list of entries of each peer. Prefixes come from \<^verbatim>\<open>netip.ParsePrefix\<close>, so an address has
  4 or 16 bytes; a zero address, for which the code panics, does not reach the table.
\<close>

record 'p AllowedIPs =
  trie4 :: "'p trie"
  trie6 :: "'p trie"
  trieEntries :: "'p \<Rightarrow> key list"

definition empty_table :: "'p AllowedIPs" where
  "empty_table = \<lparr>trie4 = TNil, trie6 = TNil, trieEntries = (\<lambda>p. [])\<rparr>"

definition addr_bytes :: "netip_addr \<Rightarrow> byte list" where
  "addr_bytes a = (case a of Addr4 ip \<Rightarrow> ip | Addr6 ip _ \<Rightarrow> ip)"

definition trie_for :: "nat \<Rightarrow> 'p AllowedIPs \<Rightarrow> 'p trie" where
  "trie_for n tbl = (if n = 16 then trie6 tbl else trie4 tbl)"

definition put_trie :: "nat \<Rightarrow> 'p trie \<Rightarrow> 'p AllowedIPs \<Rightarrow> 'p AllowedIPs" where
  "put_trie n t tbl = (if n = 16 then tbl\<lparr>trie6 := t\<rparr> else tbl\<lparr>trie4 := t\<rparr>)"

text \<open>The calls of \<^verbatim>\<open>insert\<close> that keep the lists of the peers.\<close>

definition insert_entries :: "byte list \<Rightarrow> nat \<Rightarrow> 'p \<Rightarrow> 'p trie \<Rightarrow> ('p \<Rightarrow> key list) \<Rightarrow> ('p \<Rightarrow> key list)" where
  "insert_entries ip cidr peer t es =
     (case nodePlacement t ip cidr [] None of
        Some (Some path, True) \<Rightarrow>
          (case get_at path t of
             TNil \<Rightarrow> es
           | TNode e l r \<Rightarrow> addToPeerEntries (e\<lparr>te_peer := Some peer\<rparr>) (removeFromPeerEntries e es))
      | _ \<Rightarrow> addToPeerEntries (new_entry (Some peer) ip cidr) es)"

definition AllowedIPs_Insert :: "netip_addr \<times> nat \<Rightarrow> 'p \<Rightarrow> 'p AllowedIPs \<Rightarrow> 'p AllowedIPs option" where
  "AllowedIPs_Insert pfx peer tbl =
     (let ip = addr_bytes (fst pfx); t = trie_for (length ip) tbl
      in case insert_trie ip (snd pfx) peer t of
           None \<Rightarrow> None
         | Some t' \<Rightarrow>
             Some ((put_trie (length ip) t' tbl)\<lparr>trieEntries := insert_entries ip (snd pfx) peer t (trieEntries tbl)\<rparr>))"

definition remove_node :: "nat \<Rightarrow> path \<Rightarrow> 'p AllowedIPs \<Rightarrow> 'p AllowedIPs" where
  "remove_node n path tbl =
     (case get_at path (trie_for n tbl) of
        TNil \<Rightarrow> tbl
      | TNode e l r \<Rightarrow>
          (put_trie n (remove_at path (trie_for n tbl)) tbl)\<lparr>trieEntries := removeFromPeerEntries e (trieEntries tbl)\<rparr>)"

definition AllowedIPs_Remove :: "netip_addr \<times> nat \<Rightarrow> 'p \<Rightarrow> 'p AllowedIPs \<Rightarrow> 'p AllowedIPs option" where
  "AllowedIPs_Remove pfx peer tbl =
     (let ip = addr_bytes (fst pfx); t = trie_for (length ip) tbl
      in case nodePlacement t ip (snd pfx) [] None of
           None \<Rightarrow> None
         | Some (node, exact) \<Rightarrow>
             (case node of
                None \<Rightarrow> Some tbl
              | Some path \<Rightarrow>
                  if \<not> exact then Some tbl
                  else case get_at path t of
                         TNil \<Rightarrow> Some tbl
                       | TNode e l r \<Rightarrow> if te_peer e \<noteq> Some peer then Some tbl else Some (remove_node (length ip) path tbl)))"

text \<open>
  \<^verbatim>\<open>RemoveByPeer\<close> walks the peer's list, which holds pointers to nodes; here the node is found again by its
  bits and length.
\<close>

definition remove_key :: "key \<Rightarrow> 'p AllowedIPs \<Rightarrow> 'p AllowedIPs" where
  "remove_key k tbl =
     (case nodePlacement (trie_for (length (fst k)) tbl) (fst k) (snd k) [] None of
        Some (Some path, True) \<Rightarrow> remove_node (length (fst k)) path tbl
      | _ \<Rightarrow> tbl)"

definition AllowedIPs_RemoveByPeer :: "'p \<Rightarrow> 'p AllowedIPs \<Rightarrow> 'p AllowedIPs" where
  "AllowedIPs_RemoveByPeer peer tbl = fold remove_key (trieEntries tbl peer) tbl"

definition AllowedIPs_Lookup :: "byte list \<Rightarrow> 'p AllowedIPs \<Rightarrow> 'p option option" where
  "AllowedIPs_Lookup ip tbl =
     (if length ip = 16 then lookup (trie6 tbl) ip None
      else if length ip = 4 then lookup (trie4 tbl) ip None
      else None)"

fun each_entry :: "(netip_addr option \<times> nat \<Rightarrow> 's \<Rightarrow> bool \<times> 's) \<Rightarrow> key list \<Rightarrow> 's \<Rightarrow> 's" where
  "each_entry cb [] s = s"
| "each_entry cb ((bits, cidr) # ks) s =
     (case cb (AddrFromSlice bits, cidr) s of (True, s') \<Rightarrow> each_entry cb ks s' | (False, s') \<Rightarrow> s')"

definition EntriesForPeer :: "'p \<Rightarrow> (netip_addr option \<times> nat \<Rightarrow> 's \<Rightarrow> bool \<times> 's) \<Rightarrow> 'p AllowedIPs \<Rightarrow> 's \<Rightarrow> 's" where
  "EntriesForPeer peer cb tbl s = each_entry cb (trieEntries tbl peer) s"

subsection \<open>The table as a map\<close>

text \<open>A prefix is its size in bytes and its bits; the table stands for a map from prefixes to peers.\<close>

definition akey :: "key \<Rightarrow> nat \<times> bool list" where
  "akey k = (length (fst k), take (snd k) (bits_of (fst k)))"

definition canon :: "key \<Rightarrow> bool" where
  "canon k \<longleftrightarrow> ip_size (length (fst k)) \<and> snd k \<le> 8 * length (fst k) \<and>
     bits_of (fst k) = take (snd k) (bits_of (fst k)) @ replicate (8 * length (fst k) - snd k) False"

definition table_map :: "'p AllowedIPs \<Rightarrow> nat \<times> bool list \<rightharpoonup> 'p" where
  "table_map tbl k = (if fst k = 4 then tmap (trie4 tbl) (snd k) else if fst k = 16 then tmap (trie6 tbl) (snd k) else None)"

definition lists_ok :: "('p \<Rightarrow> key list) \<Rightarrow> (nat \<times> bool list \<rightharpoonup> 'p) \<Rightarrow> bool" where
  "lists_ok es m \<longleftrightarrow> (\<forall>p. distinct (es p) \<and> (\<forall>k\<in>set (es p). canon k) \<and> akey ` set (es p) = {k. m k = Some p})"

definition allowed_ok :: "'p AllowedIPs \<Rightarrow> bool" where
  "allowed_ok tbl \<longleftrightarrow> twf 4 [] (trie4 tbl) \<and> twf 16 [] (trie6 tbl) \<and> lists_ok (trieEntries tbl) (table_map tbl)"

lemma akey_inj: "canon k \<Longrightarrow> canon k' \<Longrightarrow> akey k = akey k' \<Longrightarrow> k = k'"
proof -
  assume c: "canon k" "canon k'" "akey k = akey k'"
  have len: "length (fst k) = length (fst k')" and pre: "take (snd k) (bits_of (fst k)) = take (snd k') (bits_of (fst k'))"
    using c(3) by (simp_all add: akey_def)
  have "length (take (snd k) (bits_of (fst k))) = length (take (snd k') (bits_of (fst k')))" by (simp only: pre)
  then have "snd k = snd k'" using c(1,2) by (simp add: canon_def)
  moreover have "bits_of (fst k) = bits_of (fst k')" using c(1,2) len pre calculation unfolding canon_def by metis
  ultimately show ?thesis using bits_of_inject [OF len] by (simp add: prod_eq_iff)
qed

lemma lists_add:
  assumes "lists_ok es m" "canon k" "m (akey k) = None"
  shows "lists_ok (es(p := es p @ [k])) (m(akey k \<mapsto> p))"
  unfolding lists_ok_def
proof
  fix q
  have old: "distinct (es q)" "\<forall>k\<in>set (es q). canon k" "akey ` set (es q) = {k. m k = Some q}"
    using assms(1) by (simp_all add: lists_ok_def)
  have "k \<notin> set (es q)" using old(3) assms(3) by force
  then show "distinct ((es(p := es p @ [k])) q) \<and> (\<forall>k\<in>set ((es(p := es p @ [k])) q). canon k) \<and>
      akey ` set ((es(p := es p @ [k])) q) = {k'. (m(akey k \<mapsto> p)) k' = Some q}"
    using old assms(2,3) by (cases "q = p") auto
qed

lemma lists_remove:
  assumes "lists_ok es m" "canon k" "m (akey k) = Some p"
  shows "lists_ok (es(p := remove1 k (es p))) (m(akey k := None))"
  unfolding lists_ok_def
proof
  fix q
  have old: "distinct (es q)" "\<forall>k\<in>set (es q). canon k" "akey ` set (es q) = {k. m k = Some q}"
    using assms(1) by (simp_all add: lists_ok_def)
  have "akey ` (set (es q) - {k}) = akey ` set (es q) - {akey k}" using old(2) assms(2) akey_inj by blast
  then show "distinct ((es(p := remove1 k (es p))) q) \<and> (\<forall>k\<in>set ((es(p := remove1 k (es p))) q). canon k) \<and>
      akey ` set ((es(p := remove1 k (es p))) q) = {k'. (m(akey k := None)) k' = Some q}"
    using old assms(3) by (cases "q = p") (auto dest: notin_set_remove1 simp: set_remove1_eq)
qed

lemma entry_canon: "ip_size n \<Longrightarrow> entry_ok n e \<Longrightarrow> canon (te_key e) \<and> akey (te_key e) = (n, te_pre e)"
  by (auto simp: canon_def akey_def te_key_def entry_ok_def te_pre_def)

lemma get_at_entry: "twf n pre t \<Longrightarrow> get_at path t = TNode e l r \<Longrightarrow> entry_ok n e \<and> tmap t (te_pre e) = te_peer e"
proof (induction path arbitrary: t pre)
  case (Cons b path)
  obtain e0 l0 r0 where t: "t = TNode e0 l0 r0" using Cons.prems(2) by (cases t) simp_all
  have wf: "twf n pre (TNode e0 l0 r0)" using Cons.prems(1) t by simp
  have gc: "get_at path (if b then r0 else l0) = TNode e l r" using Cons.prems(2) t by simp
  have "prefix (te_pre e0 @ [b]) (te_pre e)" by (rule get_at_prefix [OF twf_child [OF wf] gc])
  then show ?case using Cons.IH [OF twf_child [OF wf] gc] tmap_child [OF wf] t by (simp del: tmap.simps)
qed simp

lemma trie_for_ok: "allowed_ok tbl \<Longrightarrow> ip_size n \<Longrightarrow> twf n [] (trie_for n tbl)"
  by (auto simp: allowed_ok_def ip_size_def trie_for_def)

lemma table_map_for: "ip_size n \<Longrightarrow> table_map tbl (n, q) = tmap (trie_for n tbl) q"
  by (auto simp: table_map_def ip_size_def trie_for_def)

lemma put_trie_ok:
  assumes "allowed_ok tbl" "ip_size n" "twf n [] t" "tmap t = (tmap (trie_for n tbl))(q := x)"
    "lists_ok es ((table_map tbl)((n, q) := x))"
  shows "allowed_ok ((put_trie n t tbl)\<lparr>trieEntries := es\<rparr>) \<and>
    table_map ((put_trie n t tbl)\<lparr>trieEntries := es\<rparr>) = (table_map tbl)((n, q) := x)"
proof -
  have "table_map ((put_trie n t tbl)\<lparr>trieEntries := es\<rparr>) = (table_map tbl)((n, q) := x)"
    using assms(2,4) by (auto simp: table_map_def put_trie_def trie_for_def ip_size_def fun_eq_iff)
  then show ?thesis using assms by (auto simp: allowed_ok_def put_trie_def ip_size_def)
qed

lemma removed_entries:
  assumes "lists_ok es m" "ip_size n" "entry_ok n e" "m (n, te_pre e) = te_peer e"
  shows "lists_ok (removeFromPeerEntries e es) (m((n, te_pre e) := None))"
proof (cases "te_peer e")
  case None
  then have "m((n, te_pre e) := None) = m" using assms(4) by auto
  then show ?thesis using assms(1) None by (simp add: removeFromPeerEntries_def)
next
  case (Some p)
  then show ?thesis
    using lists_remove [OF assms(1), of "te_key e" p] entry_canon [OF assms(2,3)] assms(4) by (simp add: removeFromPeerEntries_def)
qed

lemma added_entries:
  assumes "lists_ok es m" "ip_size n" "entry_ok n e" "m (n, te_pre e) = None" "te_peer e = Some p"
  shows "lists_ok (addToPeerEntries e es) (m((n, te_pre e) \<mapsto> p))"
  using lists_add [OF assms(1), of "te_key e" p] entry_canon [OF assms(2,3)] assms(4,5) by (simp add: addToPeerEntries_def)

definition valid_prefix :: "netip_addr \<times> nat \<Rightarrow> bool" where
  "valid_prefix pfx \<longleftrightarrow> (case fst pfx of Addr4 ip \<Rightarrow> length ip = 4 | Addr6 ip _ \<Rightarrow> length ip = 16) \<and> snd pfx \<le> 8 * length (addr_bytes (fst pfx))"

lemma valid_prefix_size: "valid_prefix pfx \<Longrightarrow> ip_size (length (addr_bytes (fst pfx))) \<and> snd pfx \<le> 8 * length (addr_bytes (fst pfx))"
  by (auto simp: valid_prefix_def addr_bytes_def ip_size_def split: netip_addr.splits)

definition prefix_key :: "netip_addr \<times> nat \<Rightarrow> nat \<times> bool list" where
  "prefix_key pfx = akey (addr_bytes (fst pfx), snd pfx)"

lemma Insert_ok:
  assumes "allowed_ok tbl" "valid_prefix pfx"
  shows "\<exists>tbl'. AllowedIPs_Insert pfx p tbl = Some tbl' \<and> allowed_ok tbl' \<and> table_map tbl' = (table_map tbl)(prefix_key pfx \<mapsto> p)"
proof -
  define ip cidr where "ip = addr_bytes (fst pfx)" and "cidr = snd pfx"
  define n where "n = length ip"
  let ?K = "take cidr (bits_of ip)" and ?t = "trie_for n tbl" and ?m = "table_map tbl"
  have n: "ip_size n" "length ip = n" "cidr \<le> 8 * n"
    using valid_prefix_size [OF assms(2)] by (simp_all add: n_def ip_def cidr_def)
  have key: "prefix_key pfx = (n, ?K)" by (simp add: prefix_key_def akey_def ip_def cidr_def n_def)
  have wf: "twf n [] ?t" by (rule trie_for_ok [OF assms(1) n(1)])
  have lists: "lists_ok (trieEntries tbl) ?m" using assms(1) by (simp add: allowed_ok_def)
  obtain t' where t': "insert_trie ip cidr p ?t = Some t'" "twf n [] t'" "tmap t' = (tmap ?t)(?K \<mapsto> p)"
    using insert_spec [OF n wf] by fastforce
  let ?es = "insert_entries ip cidr p ?t (trieEntries tbl)"
  from nodePlacement_exact [OF n wf] have "lists_ok ?es (?m((n, ?K) \<mapsto> p))"
  proof
    assume "\<exists>path e l r. nodePlacement ?t ip cidr [] None = Some (Some path, True) \<and> get_at path ?t = TNode e l r \<and> te_pre e = ?K"
    then obtain path e l r where at: "nodePlacement ?t ip cidr [] None = Some (Some path, True)" "get_at path ?t = TNode e l r" "te_pre e = ?K"
      by blast
    have e: "entry_ok n e" "?m (n, te_pre e) = te_peer e"
      using get_at_entry [OF wf at(2)] table_map_for [OF n(1), of tbl] by simp_all
    have "lists_ok (addToPeerEntries (e\<lparr>te_peer := Some p\<rparr>) (removeFromPeerEntries e (trieEntries tbl)))
        ((?m((n, te_pre e) := None))((n, te_pre (e\<lparr>te_peer := Some p\<rparr>)) \<mapsto> p))"
      using removed_entries [OF lists n(1) e] e(1) by (intro added_entries [OF _ n(1)]) simp_all
    then show ?thesis using at by (simp add: insert_entries_def)
  next
    assume "(\<exists>node. nodePlacement ?t ip cidr [] None = Some (node, False)) \<and> tmap ?t ?K = None"
    then obtain node where at: "nodePlacement ?t ip cidr [] None = Some (node, False)" "tmap ?t ?K = None" by blast
    note new = new_entry_ok [of ip cidr "Some p", unfolded n(2), OF n(1,3)]
    have "?es = addToPeerEntries (new_entry (Some p) ip cidr) (trieEntries tbl)"
      using at(1) by (simp add: insert_entries_def split: option.split)
    then show ?thesis
      using added_entries [OF lists n(1) new(2) _ new(5)] at(2) table_map_for [OF n(1), of tbl] by (simp add: new(1))
  qed
  from put_trie_ok [OF assms(1) n(1) t'(2,3) this] show ?thesis
    using t'(1) by (auto simp: AllowedIPs_Insert_def key Let_def simp flip: ip_def cidr_def n_def)
qed

lemma remove_node_ok:
  assumes "allowed_ok tbl" "ip_size n" "get_at path (trie_for n tbl) = TNode e l r"
  shows "allowed_ok (remove_node n path tbl) \<and> table_map (remove_node n path tbl) = (table_map tbl)((n, te_pre e) := None)"
proof -
  have wf: "twf n [] (trie_for n tbl)" by (rule trie_for_ok [OF assms(1,2)])
  have e: "entry_ok n e" "table_map tbl (n, te_pre e) = te_peer e"
    using get_at_entry [OF wf assms(3)] table_map_for [OF assms(2), of tbl] by simp_all
  have lists: "lists_ok (removeFromPeerEntries e (trieEntries tbl)) ((table_map tbl)((n, te_pre e) := None))"
    using removed_entries [of "trieEntries tbl" "table_map tbl", OF _ assms(2) e] assms(1) by (simp add: allowed_ok_def)
  show ?thesis
    using put_trie_ok [OF assms(1,2) _ _ lists, of "remove_at path (trie_for n tbl)"] remove_spec [OF wf assms(3)] assms(3)
    by (simp add: remove_node_def)
qed

lemma Remove_ok:
  assumes "allowed_ok tbl" "valid_prefix pfx"
  shows "\<exists>tbl'. AllowedIPs_Remove pfx p tbl = Some tbl' \<and> allowed_ok tbl' \<and>
    table_map tbl' = (if table_map tbl (prefix_key pfx) = Some p then (table_map tbl)(prefix_key pfx := None) else table_map tbl)"
proof -
  define ip cidr where "ip = addr_bytes (fst pfx)" and "cidr = snd pfx"
  define n where "n = length ip"
  let ?K = "take cidr (bits_of ip)" and ?t = "trie_for n tbl"
  have n: "ip_size n" "length ip = n" "cidr \<le> 8 * n"
    using valid_prefix_size [OF assms(2)] by (simp_all add: n_def ip_def cidr_def)
  have key: "prefix_key pfx = (n, ?K)" by (simp add: prefix_key_def akey_def ip_def cidr_def n_def)
  have wf: "twf n [] ?t" by (rule trie_for_ok [OF assms(1) n(1)])
  note defs = AllowedIPs_Remove_def [of pfx p tbl, folded ip_def cidr_def, folded n_def, unfolded Let_def, folded n_def]
  from nodePlacement_exact [OF n wf] show ?thesis
  proof
    assume "\<exists>path e l r. nodePlacement ?t ip cidr [] None = Some (Some path, True) \<and> get_at path ?t = TNode e l r \<and> te_pre e = ?K"
    then obtain path e l r where at: "nodePlacement ?t ip cidr [] None = Some (Some path, True)" "get_at path ?t = TNode e l r" "te_pre e = ?K"
      by blast
    have "table_map tbl (n, ?K) = te_peer e" using get_at_entry [OF wf at(2)] at(3) table_map_for [OF n(1), of tbl] by simp
    then show ?thesis using remove_node_ok [OF assms(1) n(1) at(2)] at defs key assms(1) by auto
  next
    assume "(\<exists>node. nodePlacement ?t ip cidr [] None = Some (node, False)) \<and> tmap ?t ?K = None"
    then obtain node where at: "nodePlacement ?t ip cidr [] None = Some (node, False)" "tmap ?t ?K = None" by blast
    have "table_map tbl (n, ?K) = None" using at(2) table_map_for [OF n(1), of tbl] by simp
    then show ?thesis using at(1) defs key assms(1) by (cases node) simp_all
  qed
qed

lemma remove_key_ok:
  assumes "allowed_ok tbl" "canon k" "table_map tbl (akey k) \<noteq> None"
  shows "allowed_ok (remove_key k tbl) \<and> table_map (remove_key k tbl) = (table_map tbl)(akey k := None)"
proof -
  define n where "n = length (fst k)"
  let ?K = "take (snd k) (bits_of (fst k))" and ?t = "trie_for n tbl"
  have n: "ip_size n" "length (fst k) = n" "snd k \<le> 8 * n" using assms(2) by (simp_all add: canon_def n_def)
  have key: "akey k = (n, ?K)" by (simp add: akey_def n_def)
  have wf: "twf n [] ?t" by (rule trie_for_ok [OF assms(1) n(1)])
  have "tmap ?t ?K \<noteq> None" using assms(3) table_map_for [OF n(1), of tbl] key by simp
  then obtain path e l r where at: "nodePlacement ?t (fst k) (snd k) [] None = Some (Some path, True)" "get_at path ?t = TNode e l r" "te_pre e = ?K"
    using nodePlacement_exact [OF n wf] by (elim disjE exE conjE) blast+
  then have "remove_key k tbl = remove_node n path tbl" by (simp add: remove_key_def n(2))
  then show ?thesis using remove_node_ok [OF assms(1) n(1) at(2)] at(3) key by simp
qed

lemma remove_keys_ok:
  "allowed_ok tbl \<Longrightarrow> distinct ks \<Longrightarrow> \<forall>k\<in>set ks. canon k \<and> table_map tbl (akey k) = Some p \<Longrightarrow>
   allowed_ok (fold remove_key ks tbl) \<and>
   table_map (fold remove_key ks tbl) = (\<lambda>q. if q \<in> akey ` set ks then None else table_map tbl q)"
proof (induction ks arbitrary: tbl)
  case (Cons k ks)
  have 1: "allowed_ok (remove_key k tbl)" "table_map (remove_key k tbl) = (table_map tbl)(akey k := None)"
    using remove_key_ok [OF Cons.prems(1), of k] Cons.prems(3) by auto
  have "\<forall>k'\<in>set ks. canon k' \<and> table_map (remove_key k tbl) (akey k') = Some p"
  proof
    fix k' assume k': "k' \<in> set ks"
    then have "canon k'" "table_map tbl (akey k') = Some p" "k' \<noteq> k" "canon k" using Cons.prems(2,3) by auto
    then show "canon k' \<and> table_map (remove_key k tbl) (akey k') = Some p" using akey_inj [of k' k] by (auto simp: 1(2))
  qed
  then have "allowed_ok (fold remove_key ks (remove_key k tbl))"
    "table_map (fold remove_key ks (remove_key k tbl)) = (\<lambda>q. if q \<in> akey ` set ks then None else table_map (remove_key k tbl) q)"
    using Cons.IH [OF 1(1)] Cons.prems(2) by simp_all
  then show ?case using 1(2) by auto
qed simp

lemma RemoveByPeer_ok:
  assumes "allowed_ok tbl"
  shows "allowed_ok (AllowedIPs_RemoveByPeer p tbl) \<and>
    table_map (AllowedIPs_RemoveByPeer p tbl) = (\<lambda>q. if table_map tbl q = Some p then None else table_map tbl q)"
proof -
  have l: "distinct (trieEntries tbl p)" "\<forall>k\<in>set (trieEntries tbl p). canon k" "akey ` set (trieEntries tbl p) = {k. table_map tbl k = Some p}"
    using assms by (simp_all add: allowed_ok_def lists_ok_def)
  then have "\<forall>k\<in>set (trieEntries tbl p). canon k \<and> table_map tbl (akey k) = Some p" by blast
  from remove_keys_ok [OF assms l(1) this] show ?thesis by (simp add: AllowedIPs_RemoveByPeer_def l(3))
qed

subsection \<open>Sequences of operations\<close>

datatype 'p allowed_op = Op_Insert "netip_addr \<times> nat" 'p | Op_Remove "netip_addr \<times> nat" 'p | Op_RemoveByPeer 'p

fun op_step :: "'p allowed_op \<Rightarrow> 'p AllowedIPs \<Rightarrow> 'p AllowedIPs option" where
  "op_step (Op_Insert pfx p) tbl = AllowedIPs_Insert pfx p tbl"
| "op_step (Op_Remove pfx p) tbl = AllowedIPs_Remove pfx p tbl"
| "op_step (Op_RemoveByPeer p) tbl = Some (AllowedIPs_RemoveByPeer p tbl)"

fun op_run :: "'p allowed_op list \<Rightarrow> 'p AllowedIPs \<Rightarrow> 'p AllowedIPs option" where
  "op_run [] tbl = Some tbl"
| "op_run (x # xs) tbl = (case op_step x tbl of None \<Rightarrow> None | Some tbl' \<Rightarrow> op_run xs tbl')"

fun valid_op :: "'p allowed_op \<Rightarrow> bool" where
  "valid_op (Op_Insert pfx p) = valid_prefix pfx"
| "valid_op (Op_Remove pfx p) = valid_prefix pfx"
| "valid_op (Op_RemoveByPeer p) = True"

text \<open>The specification: a map from prefixes to peers.\<close>

fun map_step :: "'p allowed_op \<Rightarrow> (nat \<times> bool list \<rightharpoonup> 'p) \<Rightarrow> (nat \<times> bool list \<rightharpoonup> 'p)" where
  "map_step (Op_Insert pfx p) m = m(prefix_key pfx \<mapsto> p)"
| "map_step (Op_Remove pfx p) m = (if m (prefix_key pfx) = Some p then m(prefix_key pfx := None) else m)"
| "map_step (Op_RemoveByPeer p) m = (\<lambda>q. if m q = Some p then None else m q)"

lemma step_refines:
  assumes "allowed_ok tbl" "valid_op x"
  shows "\<exists>tbl'. op_step x tbl = Some tbl' \<and> allowed_ok tbl' \<and> table_map tbl' = map_step x (table_map tbl)"
proof (cases x)
  case (Op_Insert pfx p)
  then show ?thesis using Insert_ok [OF assms(1), of pfx p] assms(2) by simp
next
  case (Op_Remove pfx p)
  then show ?thesis using Remove_ok [OF assms(1), of pfx p] assms(2) by simp
next
  case (Op_RemoveByPeer p)
  then show ?thesis using RemoveByPeer_ok [OF assms(1), of p] by simp
qed

lemma run_refines:
  "allowed_ok tbl \<Longrightarrow> list_all valid_op xs \<Longrightarrow>
   \<exists>tbl'. op_run xs tbl = Some tbl' \<and> allowed_ok tbl' \<and> table_map tbl' = fold map_step xs (table_map tbl)"
proof (induction xs arbitrary: tbl)
  case (Cons x xs)
  obtain tbl1 where 1: "op_step x tbl = Some tbl1" "allowed_ok tbl1" "table_map tbl1 = map_step x (table_map tbl)"
    using step_refines [OF Cons.prems(1), of x] Cons.prems(2) by auto
  then show ?case using Cons.IH [OF 1(2)] Cons.prems(2) by simp
qed simp

lemma empty_table_ok: "allowed_ok empty_table" "table_map empty_table = Map.empty"
proof -
  show m: "table_map empty_table = Map.empty" by (simp add: table_map_def empty_table_def fun_eq_iff)
  show "allowed_ok empty_table" unfolding allowed_ok_def m by (simp add: lists_ok_def empty_table_def)
qed

lemma run_from_empty:
  assumes "list_all valid_op xs"
  shows "\<exists>tbl. op_run xs empty_table = Some tbl \<and> allowed_ok tbl \<and> table_map tbl = fold map_step xs Map.empty"
  using run_refines [OF empty_table_ok(1) assms] by (simp add: empty_table_ok(2))

lemma Lookup_lpm:
  assumes "allowed_ok tbl" "ip_size (length ip)"
  shows "AllowedIPs_Lookup ip tbl = Some (lpm (\<lambda>q. table_map tbl (length ip, q)) (bits_of ip))"
proof -
  have "AllowedIPs_Lookup ip tbl = lookup (trie_for (length ip) tbl) ip None"
    using assms(2) by (auto simp: AllowedIPs_Lookup_def ip_size_def trie_for_def)
  also have "\<dots> = Some (lpm (tmap (trie_for (length ip) tbl)) (bits_of ip))"
    using lookup_spec [OF assms(2) refl trie_for_ok [OF assms]] by (simp split: option.splits)
  finally show ?thesis using table_map_for [OF assms(2), of tbl] by simp
qed

subsection \<open>Properties\<close>

text \<open>
  Property C18: no sequence of insertions, removals and removals by peer makes the table panic, and after
  it a lookup returns the peer of the longest prefix that contains the address, as the map of prefixes says.
\<close>

theorem allowed_ips_longest_prefix:
  assumes "list_all valid_op xs" "ip_size (length ip)"
  shows "\<exists>tbl. op_run xs empty_table = Some tbl \<and>
    AllowedIPs_Lookup ip tbl = Some (lpm (\<lambda>q. fold map_step xs Map.empty (length ip, q)) (bits_of ip))"
proof -
  obtain tbl where tbl: "op_run xs empty_table = Some tbl" "allowed_ok tbl" "table_map tbl = fold map_step xs Map.empty"
    using run_from_empty [OF assms(1)] by blast
  then show ?thesis using Lookup_lpm [OF tbl(2) assms(2)] by simp
qed

theorem allowed_ips_longest_prefix_witness:
  "\<exists>tbl. op_run [Op_Insert (Addr4 [10, 0, 0, 0], 8) ''a'', Op_Insert (Addr4 [10, 1, 0, 0], 16) ''b''] empty_table = Some tbl \<and>
     AllowedIPs_Lookup [10, 1, 2, 3] tbl = Some (Some ''b'')"
proof -
  let ?xs = "[Op_Insert (Addr4 [10, 0, 0, 0], 8) ''a'', Op_Insert (Addr4 [10, 1, 0, 0], 16) ''b'']"
  have "list_all valid_op ?xs" "ip_size (length [10, 1, 2, 3 :: byte])" by (simp_all add: valid_prefix_def addr_bytes_def ip_size_def)
  note t = allowed_ips_longest_prefix [OF this]
  have "lpm (\<lambda>q. fold map_step ?xs Map.empty (length [10, 1, 2, 3 :: byte], q)) (bits_of [10, 1, 2, 3]) = Some ''b''"
    by code_simp
  with t show ?thesis by (simp only:)
qed

text \<open>
  After any sequence of operations the list of a peer holds, each once, exactly the prefixes
  that belong to the peer; every node without a peer has two children.
\<close>

theorem allowed_ips_peer_lists:
  assumes "list_all valid_op xs" "op_run xs empty_table = Some tbl"
  shows "distinct (trieEntries tbl p) \<and> akey ` set (trieEntries tbl p) = {k. fold map_step xs Map.empty k = Some p} \<and>
    twf 4 [] (trie4 tbl) \<and> twf 16 [] (trie6 tbl)"
proof -
  have "allowed_ok tbl" "table_map tbl = fold map_step xs Map.empty"
    using run_from_empty [OF assms(1)] assms(2) by auto
  then show ?thesis by (simp add: allowed_ok_def lists_ok_def)
qed

theorem allowed_ips_peer_lists_witness:
  "\<exists>tbl. op_run [Op_Insert (Addr4 [10, 0, 0, 0], 8) ''a'', Op_RemoveByPeer ''a''] empty_table = Some tbl \<and> trieEntries tbl ''a'' = []"
proof -
  let ?xs = "[Op_Insert (Addr4 [10, 0, 0, 0], 8) ''a'', Op_RemoveByPeer ''a'']"
  have v: "list_all valid_op ?xs" by (simp add: valid_prefix_def addr_bytes_def)
  then obtain tbl where t: "op_run ?xs empty_table = Some tbl" using run_from_empty by blast
  have "{k. fold map_step ?xs Map.empty k = Some ''a''} = {}" by auto
  then have "akey ` set (trieEntries tbl ''a'') = {}" using allowed_ips_peer_lists [OF v t, of "''a''"] by metis
  then have "trieEntries tbl ''a'' = []" by simp
  with t show ?thesis by blast
qed

end
