(* ===== verification/Transport.thy ===== *)
theory Transport
  imports Noise_Sessions Allowed_IPs "HOL-Library.Multiset"
begin

section \<open>Transport messages (wireguard-go/device/send.go, receive.go)\<close>

text \<open>
  A packet from the TUN device is staged for the peer that its destination belongs to, given a nonce of the current key pair,
  padded, sealed and sent. A datagram is looked up by its receiver index, opened, checked against the replay
  filter, cut to the length its IP header states and, if its source belongs to the peer, written to the TUN
  device. Buffers and the queues between the goroutines are not modelled: each definition is the work on one
  element, or on the batch where a batch shares state.
\<close>

subsection \<open>Sending\<close>

text \<open>The packet size is not negative, so Go's remainder is the one by the absolute value.\<close>

definition calculatePaddingSize :: "int \<Rightarrow> int \<Rightarrow> int" where
  "calculatePaddingSize packetSize mtu =
     (let lastUnit = packetSize
      in if mtu = 0 then ((lastUnit + 16 - 1) AND NOT (16 - 1)) - lastUnit
         else
           let lastUnit = (if mtu < lastUnit then lastUnit mod \<bar>mtu\<bar> else lastUnit);
               paddedSize = (lastUnit + 16 - 1) AND NOT (16 - 1);
               paddedSize = (if mtu < paddedSize then mtu else paddedSize)
           in paddedSize - lastUnit)"

definition transport_header :: "32 word \<Rightarrow> 64 word \<Rightarrow> byte list" where
  "transport_header receiver nonce = LE_PutUint32 MessageTransportType @ LE_PutUint32 receiver @ LE_PutUint64 nonce"

definition transport_nonce :: "64 word \<Rightarrow> byte list" where
  "transport_nonce nonce = replicate 4 0 @ LE_PutUint64 nonce"

definition encrypt_element :: "noise_lib \<Rightarrow> int \<Rightarrow> Keypair \<Rightarrow> 64 word \<Rightarrow> byte list \<Rightarrow> byte list" where
  "encrypt_element lib mtu kp nonce packet =
     (let paddingSize = calculatePaddingSize (int (length packet)) mtu;
          packet = packet @ take (nat paddingSize) (replicate 16 0)
      in transport_header (kp_remoteIndex kp) nonce @ aead_Seal lib (kp_send kp) (transport_nonce nonce) packet [])"

text \<open>
  The peer of a packet read from the TUN device; the outer \<open>None\<close> is a panic of the table.
\<close>

definition tun_destination :: "nat AllowedIPs \<Rightarrow> byte list \<Rightarrow> nat option option" where
  "tun_destination allowed packet =
     (if packet = [] then Some None
      else if drop_bit 4 (hd packet) = 4 then
        if length packet < 20 then Some None else AllowedIPs_Lookup (take 4 (drop 16 packet)) allowed
      else if drop_bit 4 (hd packet) = 6 then
        if length packet < 40 then Some None else AllowedIPs_Lookup (take 16 (drop 24 packet)) allowed
      else Some None)"

text \<open>
  The nonces of a container: an element whose nonce is beyond the limit sets the counter back to the limit and is
  staged again.
\<close>

fun assign_nonces :: "64 word \<Rightarrow> 'e list \<Rightarrow> ('e \<times> 64 word) list \<times> 'e list \<times> 64 word" where
  "assign_nonces n [] = ([], [], n)"
| "assign_nonces n (e # es) =
     (let nonce = n; n = n + 1
      in if RejectAfterMessages \<le> nonce
         then (case assign_nonces RejectAfterMessages es of (kept, ooo, n') \<Rightarrow> (kept, e # ooo, n'))
         else (case assign_nonces n es of (kept, ooo, n') \<Rightarrow> ((e, nonce) # kept, ooo, n')))"

abbreviation (input) QueueStagedSize :: nat where "QueueStagedSize \<equiv> 128"
abbreviation (input) RejectAfterTime :: int where "RejectAfterTime \<equiv> 180000000000"
abbreviation (input) RekeyAfterTime :: int where "RekeyAfterTime \<equiv> 120000000000"
abbreviation (input) RekeyAfterMessages :: "64 word" where "RekeyAfterMessages \<equiv> 1152921504606846976"
abbreviation (input) KeepaliveTimeout :: int where "KeepaliveTimeout \<equiv> 10000000000"

text \<open>\<open>StagePackets\<close>: the oldest container makes room for a new one when the queue is full.\<close>

definition StagePackets :: "'e list \<Rightarrow> 'e list list \<Rightarrow> 'e list list" where
  "StagePackets elems staged = (if length staged < QueueStagedSize then staged @ [elems] else tl staged @ [elems])"

record 'e send_state =
  ss_staged :: "'e list list"
  ss_nonce :: "64 word"
  ss_sent :: "('e \<times> 64 word) list"

text \<open>
  The inner loop of \<open>SendStagedPackets\<close> takes the containers one by one; its result says whether the code goes back to the
  top. \<open>ss_sent\<close> collects what is handed to the encryption queue, which needs a running peer.
\<close>

fun send_inner :: "bool \<Rightarrow> 'e list list \<Rightarrow> 64 word \<Rightarrow> ('e \<times> 64 word) list \<Rightarrow> bool \<times> 'e send_state" where
  "send_inner running [] n sent = (False, \<lparr>ss_staged = [], ss_nonce = n, ss_sent = sent\<rparr>)"
| "send_inner running (c # cs) n sent =
     (case assign_nonces n c of
        (kept, ooo, n') \<Rightarrow>
          let staged = (if ooo \<noteq> [] then StagePackets ooo cs else cs);
              sent' = (if running then sent @ kept else sent)
          in if kept = [] then (True, \<lparr>ss_staged = staged, ss_nonce = n', ss_sent = sent\<rparr>)
             else if ooo \<noteq> [] then (True, \<lparr>ss_staged = staged, ss_nonce = n', ss_sent = sent'\<rparr>)
             else send_inner running cs n' sent')"

lemma assign_nonces_limit: "assign_nonces n es = (kept, ooo, n') \<Longrightarrow> ooo \<noteq> [] \<Longrightarrow> RejectAfterMessages \<le> n'"
proof (induction es arbitrary: n kept ooo n')
  case (Cons e es)
  have lim: "RejectAfterMessages \<le> n''" if "assign_nonces m xs = (k, o', n'')" "RejectAfterMessages \<le> m" for m and xs :: "'a list" and k o' n''
    using that by (induction xs arbitrary: m k o' n'') (auto simp: Let_def split: prod.splits if_splits)
  from Cons show ?case by (auto simp: Let_def dest: lim split: prod.splits if_splits)
qed simp

lemma send_inner_again:
  "send_inner running cs n sent = (True, st) \<Longrightarrow>
   length (ss_staged st) < length cs \<or> RejectAfterMessages \<le> ss_nonce st"
proof (induction cs arbitrary: n sent)
  case (Cons c cs)
  obtain kept ooo n' where a: "assign_nonces n c = (kept, ooo, n')" using prod_cases3 by blast
  show ?case
  proof (cases "ooo = []")
    case True
    show ?thesis
    proof (cases "kept = []")
      case True
      with \<open>ooo = []\<close> Cons.prems a show ?thesis by auto
    next
      case False
      with \<open>ooo = []\<close> Cons.prems a have "send_inner running cs n' (if running then sent @ kept else sent) = (True, st)" by auto
      from Cons.IH [OF this] show ?thesis by auto
    qed
  next
    case False
    from assign_nonces_limit [OF a False] Cons.prems a False show ?thesis by (auto simp: Let_def split: if_splits)
  qed
qed simp

text \<open>
  \<open>SendStagedPackets\<close> with the current key pair: \<open>created\<close> is when it was made, \<open>None\<close> when there is none. The second result is whether
  a handshake is started.
\<close>

function SendStagedPackets :: "bool \<Rightarrow> bool \<Rightarrow> int \<Rightarrow> int option \<Rightarrow> 'e send_state \<Rightarrow> bool \<times> 'e send_state" where
  "SendStagedPackets up running now created st =
     (if ss_staged st = [] \<or> \<not> up then (False, st)
      else if created = None \<or> RejectAfterMessages \<le> ss_nonce st \<or> RejectAfterTime \<le> now - the created then (True, st)
      else case send_inner running (ss_staged st) (ss_nonce st) (ss_sent st) of
             (False, st') \<Rightarrow> (False, st')
           | (True, st') \<Rightarrow> SendStagedPackets up running now created st')"
  by auto
termination
  by (relation "measure (\<lambda>(_, _, _, _, st). if RejectAfterMessages \<le> ss_nonce st then 0 else Suc (length (ss_staged st)))")
    (auto dest!: send_inner_again [OF sym])

declare SendStagedPackets.simps [simp del]

definition keepKeyFreshSending :: "int \<Rightarrow> Keypair option \<Rightarrow> bool" where
  "keepKeyFreshSending now kp =
     (case kp of
        None \<Rightarrow> False
      | Some k \<Rightarrow> RekeyAfterMessages < kp_sendNonce k \<or> kp_isInitiator k \<and> RekeyAfterTime < now - kp_created k)"

definition keepKeyFreshReceiving :: "int \<Rightarrow> bool \<Rightarrow> Keypair option \<Rightarrow> bool" where
  "keepKeyFreshReceiving now sentLast kp =
     (if sentLast then False
      else case kp of
             None \<Rightarrow> False
           | Some k \<Rightarrow> kp_isInitiator k \<and> RejectAfterTime - KeepaliveTimeout - RekeyTimeout < now - kp_created k)"

subsection \<open>Receiving\<close>

datatype wg_inbound = Dropped | To_decryption nat nat | To_handshake "32 word"

definition receive_incoming :: "int \<Rightarrow> byte list \<Rightarrow> NDevice \<Rightarrow> wg_inbound" where
  "receive_incoming now packet dv =
     (if length packet < 32 then Dropped
      else
        let msgType = LE_Uint32 (take 4 packet)
        in if msgType = MessageTransportType then
             let value = IndexTable_Lookup (LE_Uint32 (take 4 (drop 4 packet))) dv
             in case ie_keypair value of
                  None \<Rightarrow> Dropped
                | Some k \<Rightarrow>
                    if kp_created (nd_kps dv k) + RejectAfterTime < now then Dropped
                    else (case ie_peer value of None \<Rightarrow> Dropped | Some p \<Rightarrow> To_decryption p k)
           else if msgType = MessageInitiationType then (if length packet \<noteq> MessageInitiationSize then Dropped else To_handshake msgType)
           else if msgType = MessageResponseType then (if length packet \<noteq> MessageResponseSize then Dropped else To_handshake msgType)
           else if msgType = MessageCookieReplyType then (if length packet \<noteq> MessageCookieReplySize then Dropped else To_handshake msgType)
           else Dropped)"

definition decrypt_element :: "noise_lib \<Rightarrow> Keypair \<Rightarrow> byte list \<Rightarrow> 64 word \<times> byte list option" where
  "decrypt_element lib kp packet =
     (let counter = LE_Uint64 (take 8 (drop 8 packet));
          content = drop 16 packet
      in (counter, aead_Open lib (kp_receive kp) (transport_nonce counter) content []))"

text \<open>
  The checks of the IP header: the packet that is written to the TUN device, \<open>None\<close> when it is not. The length of an IPv6
  packet is computed in 16 bits; the source address is read from the buffer, beyond the cut.
\<close>

definition accept_packet :: "nat AllowedIPs \<Rightarrow> nat \<Rightarrow> byte list \<Rightarrow> byte list option" where
  "accept_packet allowed p packet =
     (if packet = [] then None
      else if drop_bit 4 (hd packet) = 4 then
        if length packet < 20 then None
        else
          let len = BE_field16 (take 2 (drop 2 packet))
          in if length packet < unat len \<or> unat len < 20 then None
             else if AllowedIPs_Lookup (take 4 (drop 12 packet)) allowed \<noteq> Some (Some p) then None
             else Some (take (unat len) packet)
      else if drop_bit 4 (hd packet) = 6 then
        if length packet < 40 then None
        else
          let len = BE_field16 (take 2 (drop 4 packet)) + 40
          in if length packet < unat len then None
             else if AllowedIPs_Lookup (take 16 (drop 8 packet)) allowed \<noteq> Some (Some p) then None
             else Some (take (unat len) packet)
      else None)"

text \<open>
  One element of a batch in \<open>RoutineSequentialReceiver\<close>: whether it was authenticated and new, what is written to the TUN
  device, and the device afterwards.
\<close>

definition receive_element :: "nat AllowedIPs \<Rightarrow> nat \<Rightarrow> nat \<Rightarrow> 64 word \<times> byte list option \<Rightarrow> NDevice \<Rightarrow> (bool \<times> byte list option) \<times> NDevice" where
  "receive_element allowed p k elem dv =
     (case elem of
        (counter, None) \<Rightarrow> ((False, None), dv)
      | (counter, Some packet) \<Rightarrow>
          let (ok, f) = ValidateCounter counter RejectAfterMessages (kp_replayFilter (nd_kps dv k));
              dv = use_keypair k (kp_sendNonce (nd_kps dv k)) f dv
          in if \<not> ok then ((False, None), dv)
             else ((True, accept_packet allowed p packet), snd (ReceivedWithKeypair p k dv)))"

text \<open>A datagram from the socket to the TUN device: the three routines it passes.\<close>

definition receive_datagram :: "noise_lib \<Rightarrow> int \<Rightarrow> nat AllowedIPs \<Rightarrow> byte list \<Rightarrow> NDevice \<Rightarrow> (bool \<times> byte list option) \<times> NDevice" where
  "receive_datagram lib now allowed packet dv =
     (case receive_incoming now packet dv of
        To_decryption p k \<Rightarrow> receive_element allowed p k (decrypt_element lib (nd_kps dv k) packet) dv
      | _ \<Rightarrow> ((False, None), dv))"

subsection \<open>Padding\<close>

lemma round_down_16: "15 + x AND - 16 = 16 * ((x + 15) div 16)" for x :: int
proof -
  have "y AND NOT (mask 4) = push_bit 4 (drop_bit 4 y)" for y :: int by (rule bit_eqI) (auto simp: bit_simps)
  from this [of "15 + x"] show ?thesis by (simp add: mask_eq_exp_minus_1 push_bit_eq_mult drop_bit_eq_div add.commute)
qed

lemma padding_value:
  assumes "0 \<le> mtu"
  shows "calculatePaddingSize sz mtu =
    (if mtu = 0 then 16 * ((sz + 15) div 16) - sz
     else if sz \<le> mtu then min mtu (16 * ((sz + 15) div 16)) - sz
     else min mtu (16 * ((sz mod mtu + 15) div 16)) - sz mod mtu)"
  using assms by (cases "sz \<le> mtu") (auto simp: calculatePaddingSize_def round_down_16 Let_def not_less min_def)

lemma round_up_16: "(x :: int) \<le> 16 * ((x + 15) div 16) \<and> 16 * ((x + 15) div 16) \<le> x + 15 \<and> 16 dvd 16 * ((x + 15) div 16)"
  by simp linarith

text \<open>
  The padding of a packet is at least 0 and at most 15 bytes, so the slice of the zero bytes
  never fails; a packet that fits the MTU stays within it and is padded to a multiple of 16 or to the MTU.
\<close>

theorem padding_bounds:
  assumes "0 \<le> sz" "0 \<le> mtu"
  shows "0 \<le> calculatePaddingSize sz mtu \<and> calculatePaddingSize sz mtu \<le> 15 \<and>
    (mtu = 0 \<longrightarrow> 16 dvd sz + calculatePaddingSize sz mtu) \<and>
    (sz \<le> mtu \<longrightarrow> sz + calculatePaddingSize sz mtu \<le> mtu \<or> mtu = 0) \<and>
    (sz \<le> mtu \<longrightarrow> 16 dvd sz + calculatePaddingSize sz mtu \<or> sz + calculatePaddingSize sz mtu = mtu)"
proof -
  consider "mtu = 0" | "mtu \<noteq> 0" "sz \<le> mtu" | "mtu \<noteq> 0" "\<not> sz \<le> mtu" by blast
  then show ?thesis
  proof cases
    case 1
    then show ?thesis using assms round_up_16 [of sz] by (simp add: padding_value)
  next
    case 2
    then show ?thesis using assms round_up_16 [of sz] by (simp add: padding_value min_def)
  next
    case 3
    moreover have "0 \<le> sz mod mtu" "sz mod mtu < mtu" using assms 3 by simp_all
    ultimately show ?thesis using assms round_up_16 [of "sz mod mtu"] by (simp add: padding_value min_def)
  qed
qed

theorem padding_bounds_witness: "calculatePaddingSize 1413 1420 = 7 \<and> calculatePaddingSize 1413 1420 \<le> (15 :: int)"
  using padding_bounds [of 1413 1420] by (simp add: calculatePaddingSize_def)

subsection \<open>Nonces\<close>

text \<open>What a run over staged containers adds: fresh, increasing nonces below the limit, and no element lost.\<close>

definition nonces_from :: "64 word \<Rightarrow> ('e \<times> 64 word) list \<Rightarrow> 64 word \<Rightarrow> bool" where
  "nonces_from n new n' \<longleftrightarrow>
     n \<le> n' \<and> sorted_wrt (<) (map snd new) \<and> (\<forall>x\<in>set (map snd new). n \<le> x \<and> x < n' \<and> x < RejectAfterMessages)"

lemma nonces_from_Nil [simp]: "nonces_from n [] n' \<longleftrightarrow> n \<le> n'"
  by (simp add: nonces_from_def)

lemma nonces_from_append:
  assumes "nonces_from n xs m" "nonces_from m ys n'"
  shows "nonces_from n (xs @ ys) n'"
  using assms by (fastforce simp: nonces_from_def sorted_wrt_append)

lemma assign_nonces_ok:
  assumes "assign_nonces n es = (kept, ooo, n')" "n \<le> RejectAfterMessages"
  shows "nonces_from n kept n' \<and> n' \<le> RejectAfterMessages \<and> es = map fst kept @ ooo"
  using assms
proof (induction es arbitrary: n kept ooo n')
  case (Cons e es)
  show ?case
  proof (cases "RejectAfterMessages \<le> n")
    case True
    with Cons.prems(2) have n: "n = RejectAfterMessages" by simp
    obtain k o' m where a: "assign_nonces RejectAfterMessages es = (k, o', m)" using prod_cases3 by blast
    from Cons.IH [OF a] have "nonces_from RejectAfterMessages k m" "m \<le> RejectAfterMessages" "es = map fst k @ o'" by simp_all
    moreover from this have "k = []" by (cases k) (auto simp: nonces_from_def)
    ultimately show ?thesis using Cons.prems(1) a n by (auto simp: Let_def)
  next
    case False
    then have le: "n + 1 \<le> RejectAfterMessages" "n < n + 1"
      by (simp_all add: not_le inc_le word_less_nat_alt unat_word_ariths) 
    obtain k o' m where a: "assign_nonces (n + 1) es = (k, o', m)" using prod_cases3 by blast
    from Cons.IH [OF a le(1)] have "nonces_from (n + 1) k m" "m \<le> RejectAfterMessages" "es = map fst k @ o'" by simp_all
    moreover have "nonces_from n [(e, n)] (n + 1)" using le False by (auto simp: nonces_from_def)
    ultimately show ?thesis
      using Cons.prems(1) a False nonces_from_append [of n "[(e, n)]" "n + 1" k m] by (auto simp: Let_def)
  qed
qed simp

text \<open>
  A run sends \<open>new\<close>: nothing is dropped as long as the queue holds at most its capacity, because a container was taken
  out before another is put in.
\<close>

definition sends :: "'e list list \<Rightarrow> 64 word \<Rightarrow> ('e \<times> 64 word) list \<Rightarrow> 'e send_state \<Rightarrow> bool" where
  "sends cs n sent st \<longleftrightarrow>
     (\<exists>new. ss_sent st = sent @ new \<and> nonces_from n new (ss_nonce st) \<and> ss_nonce st \<le> RejectAfterMessages \<and>
        length (ss_staged st) \<le> QueueStagedSize \<and> mset (map fst new) + mset (concat (ss_staged st)) = mset (concat cs))"

lemma sends_trans:
  assumes "nonces_from n new m" "sends cs' m (sent @ new) st" "mset (map fst new) + mset (concat cs') = mset (concat cs)"
  shows "sends cs n sent st"
proof -
  from assms(2) obtain more where more: "ss_sent st = sent @ new @ more" "nonces_from m more (ss_nonce st)" "ss_nonce st \<le> RejectAfterMessages"
    "length (ss_staged st) \<le> QueueStagedSize" "mset (map fst more) + mset (concat (ss_staged st)) = mset (concat cs')"
    by (auto simp: sends_def)
  have "mset (map fst (new @ more)) + mset (concat (ss_staged st)) = mset (concat cs)"
    using assms(3) more(5) [symmetric] by (simp add: add.assoc)
  with more nonces_from_append [OF assms(1) more(2)] show ?thesis unfolding sends_def by blast
qed

lemma sends_stop:
  assumes "nonces_from n new m" "m \<le> RejectAfterMessages" "length cs' \<le> QueueStagedSize"
    "mset (map fst new) + mset (concat cs') = mset (concat cs)"
  shows "sends cs n sent \<lparr>ss_staged = cs', ss_nonce = m, ss_sent = sent @ new\<rparr>"
  using assms by (simp add: sends_def)

lemma send_inner_sends:
  assumes "n \<le> RejectAfterMessages" "length cs \<le> QueueStagedSize"
  shows "sends cs n sent (snd (send_inner True cs n sent))"
  using assms
proof (induction cs arbitrary: n sent)
  case Nil
  then show ?case by (simp add: sends_def)
next
  case (Cons c cs)
  obtain kept ooo m where a: "assign_nonces n c = (kept, ooo, m)" using prod_cases3 by blast
  note ok = assign_nonces_ok [OF a Cons.prems(1)]
  consider "ooo \<noteq> []" | "kept = []" "ooo = []" | "kept \<noteq> []" "ooo = []" by blast
  then show ?case
  proof cases
    case 1
    then show ?thesis using a ok Cons.prems(2) sends_stop [of n kept m "cs @ [ooo]" "c # cs" sent]
      by (auto simp: StagePackets_def Let_def)
  next
    case 2
    then show ?thesis using a ok Cons.prems(2) sends_stop [of n kept m cs "c # cs" sent] by auto
  next
    case 3
    have "sends cs m (sent @ kept) (snd (send_inner True cs m (sent @ kept)))" using Cons ok by simp
    from sends_trans [OF _ this] ok 3 a show ?thesis by simp
  qed
qed

lemma send_inner_done: "send_inner running cs n sent = (False, st) \<Longrightarrow> ss_staged st = []"
  by (induction cs arbitrary: n sent) (auto simp: Let_def split: prod.splits if_splits)

lemma SendStaged_sends:
  assumes "ss_nonce st \<le> RejectAfterMessages" "length (ss_staged st) \<le> QueueStagedSize"
  shows "sends (ss_staged st) (ss_nonce st) (ss_sent st) (snd (SendStagedPackets up True now created st))"
  using assms
proof (induction up "True" now created st rule: SendStagedPackets.induct)
  case (1 up now created st)
  have refl: "sends (ss_staged st) (ss_nonce st) (ss_sent st) st" using 1(2-) by (simp add: sends_def)
  obtain again st' where i: "send_inner True (ss_staged st) (ss_nonce st) (ss_sent st) = (again, st')" by fastforce
  have step: "sends (ss_staged st) (ss_nonce st) (ss_sent st) st'" using send_inner_sends [OF 1(2,3), of "ss_sent st"] i by simp
  have "sends (ss_staged st) (ss_nonce st) (ss_sent st) (snd (SendStagedPackets up True now created st'))"
    if "again" "\<not> (ss_staged st = [] \<or> \<not> up)"
      "\<not> (created = None \<or> RejectAfterMessages \<le> ss_nonce st \<or> RejectAfterTime \<le> now - the created)"
  proof -
    from step obtain new where new: "ss_sent st' = ss_sent st @ new" "nonces_from (ss_nonce st) new (ss_nonce st')"
      "ss_nonce st' \<le> RejectAfterMessages" "length (ss_staged st') \<le> QueueStagedSize"
      "mset (map fst new) + mset (concat (ss_staged st')) = mset (concat (ss_staged st))"
      by (auto simp: sends_def)
    have "sends (ss_staged st') (ss_nonce st') (ss_sent st') (snd (SendStagedPackets up True now created st'))"
      using 1(1) [OF that(2,3) i [symmetric]] that(1) new(3,4) by simp
    with new(1) show ?thesis using sends_trans [OF new(2) _ new(5)] by simp
  qed
  then show ?case using refl step i
    by (subst SendStagedPackets.simps) (auto split: prod.splits bool.splits)
qed

lemma SendStaged_result:
  assumes "SendStagedPackets True running now created st = (hs, st')"
  shows "if hs then created = None \<or> RejectAfterMessages \<le> ss_nonce st' \<or> RejectAfterTime \<le> now - the created else ss_staged st' = []"
  using assms
proof (induction "True" running now created st rule: SendStagedPackets.induct)
  case (1 running now created st)
  obtain again st1 where i: "send_inner running (ss_staged st) (ss_nonce st) (ss_sent st) = (again, st1)" by fastforce
  from 1(2) show ?case
    by (subst (asm) SendStagedPackets.simps) (use 1(1) i send_inner_done in \<open>auto split: if_splits bool.splits\<close>)
qed

text \<open>
  Property C27: a run of \<open>SendStagedPackets\<close> of a running peer gives every packet it sends a nonce of its own: the nonces
  increase strictly, start at the counter of the key pair, stay below \<open>RejectAfterMessages\<close> and below the counter the run
  leaves, so no nonce is used twice within a run or by the next one. No packet is lost: each is sent or staged. Without a
  handshake the queue is empty at the end; with one there was no usable key pair.
\<close>

theorem nonces_never_reused:
  assumes "SendStagedPackets True True now created st = (hs, st')"
    "ss_nonce st \<le> RejectAfterMessages" "length (ss_staged st) \<le> QueueStagedSize"
  shows "\<exists>new. ss_sent st' = ss_sent st @ new \<and> sorted_wrt (<) (map snd new) \<and>
      (\<forall>x\<in>set (map snd new). ss_nonce st \<le> x \<and> x < ss_nonce st' \<and> x < RejectAfterMessages) \<and>
      ss_nonce st \<le> ss_nonce st' \<and> ss_nonce st' \<le> RejectAfterMessages \<and> length (ss_staged st') \<le> QueueStagedSize \<and>
      mset (map fst new) + mset (concat (ss_staged st')) = mset (concat (ss_staged st)) \<and>
      (if hs then created = None \<or> RejectAfterMessages \<le> ss_nonce st' \<or> RejectAfterTime \<le> now - the created else ss_staged st' = [])"
  using SendStaged_sends [OF assms(2,3), of True now created] SendStaged_result [OF assms(1)] assms(1)
  by (auto simp: sends_def nonces_from_def)

theorem nonces_never_reused_witness:
  "\<exists>new st'. SendStagedPackets True True 0 (Some 0) \<lparr>ss_staged = [[''a'', ''b'', ''c'']], ss_nonce = 18446744073709543421, ss_sent = []\<rparr> = (True, st') \<and>
     ss_sent st' = new \<and> sorted_wrt (<) (map snd new) \<and> mset (map fst new) + mset (concat (ss_staged st')) = {#''a'', ''b'', ''c''#}"
proof -
  let ?st = "\<lparr>ss_staged = [[''a'', ''b'', ''c'']], ss_nonce = 18446744073709543421 :: 64 word, ss_sent = []\<rparr>"
  have run: "SendStagedPackets True True 0 (Some 0) ?st =
      (True, \<lparr>ss_staged = [[''c'']], ss_nonce = 18446744073709543423, ss_sent = [(''a'', 18446744073709543421), (''b'', 18446744073709543422)]\<rparr>)"
    by (subst SendStagedPackets.simps, simp add: StagePackets_def Let_def, subst SendStagedPackets.simps, simp)
  from nonces_never_reused [OF this] show ?thesis unfolding run by fastforce
qed

subsection \<open>From sender to receiver\<close>

definition ip_version :: "byte list \<Rightarrow> 8 word" where
  "ip_version packet = drop_bit 4 (hd packet)"

definition ip_packet :: "byte list \<Rightarrow> bool" where
  "ip_packet packet \<longleftrightarrow>
     20 \<le> length packet \<and> ip_version packet = 4 \<and> unat (BE_field16 (take 2 (drop 2 packet))) = length packet \<or>
     40 \<le> length packet \<and> ip_version packet = 6 \<and> unat (BE_field16 (take 2 (drop 4 packet))) + 40 = length packet \<and> length packet < 2 ^ 16"

definition ip_source :: "byte list \<Rightarrow> byte list" where
  "ip_source packet = (if ip_version packet = 4 then take 4 (drop 12 packet) else take 16 (drop 8 packet))"

lemma accept_padded:
  assumes "ip_packet packet" "AllowedIPs_Lookup (ip_source packet) allowed = Some (Some p)"
  shows "accept_packet allowed p (packet @ padding) = Some packet"
proof -
  have ne: "packet \<noteq> []" using assms(1) by (auto simp: ip_packet_def)
  consider (v4) "20 \<le> length packet" "ip_version packet = 4" "unat (BE_field16 (take 2 (drop 2 packet))) = length packet"
    | (v6) "40 \<le> length packet" "ip_version packet = 6" "unat (BE_field16 (take 2 (drop 4 packet))) + 40 = length packet" "length packet < 65536"
    using assms(1) by (auto simp: ip_packet_def)
  then show ?thesis
  proof cases
    case v4
    then show ?thesis using ne assms(2) by (simp add: accept_packet_def ip_version_def ip_source_def)
  next
    case v6
    then have "unat (BE_field16 (take 2 (drop 4 packet)) + 40) = length packet"
      by (subst unat_add_lem [THEN iffD1]) simp_all
    with v6 ne assms(2) show ?thesis by (simp add: accept_packet_def ip_version_def ip_source_def)
  qed
qed

lemma encrypted_header:
  assumes "noise_laws lib"
  shows "32 \<le> length (encrypt_element lib mtu kp nonce packet)" "LE_Uint32 (take 4 (encrypt_element lib mtu kp nonce packet)) = MessageTransportType"
    "LE_Uint32 (take 4 (drop 4 (encrypt_element lib mtu kp nonce packet))) = kp_remoteIndex kp"
    "LE_Uint64 (take 8 (drop 8 (encrypt_element lib mtu kp nonce packet))) = nonce"
    "drop 16 (encrypt_element lib mtu kp nonce packet) =
       aead_Seal lib (kp_send kp) (transport_nonce nonce) (packet @ take (nat (calculatePaddingSize (int (length packet)) mtu)) (replicate 16 0)) []"
  using assms LE_Uint64_Put [of nonce "[]"] LE_Uint32_Put [of _ "[]"]
  by (simp_all add: encrypt_element_def transport_header_def Let_def noise_lengths del: LE_Uint64_Put LE_Uint32_Put)

lemma decrypt_encrypted:
  assumes "noise_laws lib" "kp_receive kp' = kp_send kp"
  shows "decrypt_element lib kp' (encrypt_element lib mtu kp nonce packet) =
    (nonce, Some (packet @ take (nat (calculatePaddingSize (int (length packet)) mtu)) (replicate 16 0)))"
  by (simp add: decrypt_element_def encrypted_header [OF assms(1)] assms(2) noise_open [OF assms(1)] Let_def)

lemma incoming_encrypted:
  assumes "noise_laws lib" "nd_table dv (kp_remoteIndex kp) = Some (entry_of (KP p k))"
  shows "receive_incoming now (encrypt_element lib mtu kp nonce packet) dv =
    (if kp_created (nd_kps dv k) + RejectAfterTime < now then Dropped else To_decryption p k)"
  using assms(2) encrypted_header [OF assms(1), of mtu kp nonce packet]
  by (simp add: receive_incoming_def IndexTable_Lookup_def Let_def not_less [symmetric])

lemma receive_table:
  "nd_table (snd (receive_element allowed p k elem dv)) i = nd_table dv i \<or> nd_table (snd (receive_element allowed p k elem dv)) i = None"
  by (cases elem)
    (auto simp: receive_element_def ReceivedWithKeypair_def use_keypair_def DeleteKeypair_def IndexTable_Delete_def put_keypairs_def Let_def
      split: option.splits prod.splits)

lemma receive_keypair:
  assumes "ValidateCounter counter RejectAfterMessages (kp_replayFilter (nd_kps dv k)) = (ok, f)"
  shows "nd_kps (snd (receive_element allowed p k (counter, Some packet) dv)) k = (nd_kps dv k)\<lparr>kp_replayFilter := f\<rparr>"
  using assms
  by (auto simp: receive_element_def ReceivedWithKeypair_def use_keypair_def DeleteKeypair_def IndexTable_Delete_def put_keypairs_def Let_def
      split: option.splits prod.splits)

lemma dropped_datagram:
  assumes "noise_laws lib" "nd_table dv (kp_remoteIndex kp) = Some (entry_of (KP p k)) \<or> nd_table dv (kp_remoteIndex kp) = None"
    "kp_receive (nd_kps dv k) = kp_send kp" "\<not> fst (ValidateCounter nonce RejectAfterMessages (kp_replayFilter (nd_kps dv k)))"
  shows "fst (receive_datagram lib now allowed (encrypt_element lib mtu kp nonce packet) dv) = (False, None)"
proof (cases "nd_table dv (kp_remoteIndex kp)")
  case None
  then show ?thesis using encrypted_header [OF assms(1), of mtu kp nonce packet]
    by (simp add: receive_datagram_def receive_incoming_def IndexTable_Lookup_def Let_def not_less [symmetric])
next
  case (Some e)
  then have "nd_table dv (kp_remoteIndex kp) = Some (entry_of (KP p k))" using assms(2) by simp
  then show ?thesis using assms(4)
    by (auto simp: receive_datagram_def incoming_encrypted [OF assms(1)] decrypt_encrypted [OF assms(1,3)] receive_element_def split: prod.splits)
qed

text \<open>
  Property C26: a packet that one device encrypts arrives at the other exactly once. The receiver looks the key pair up by
  the index in the header, opens the message with the key the sender sealed it with, finds the counter new, cuts the
  padding off and, since the source belongs to the peer, writes the packet that was sent; the same datagram
  again is rejected.
\<close>

theorem transport_delivers_once:
  assumes "noise_laws lib" "ip_packet packet" "AllowedIPs_Lookup (ip_source packet) allowed = Some (Some p)"
    "nd_table dv (kp_remoteIndex kp) = Some (entry_of (KP p k))" "kp_receive (nd_kps dv k) = kp_send kp"
    "now \<le> kp_created (nd_kps dv k) + RejectAfterTime"
    "replay_inv w (kp_replayFilter (nd_kps dv k))" "spec_accepts (unat RejectAfterMessages) (unat nonce) w"
    "receive_datagram lib now allowed (encrypt_element lib mtu kp nonce packet) dv = (r, dv')"
  shows "r = (True, Some packet) \<and>
    fst (receive_datagram lib later allowed (encrypt_element lib mtu kp nonce packet) dv') = (False, None)"
proof -
  let ?content = "packet @ take (nat (calculatePaddingSize (int (length packet)) mtu)) (replicate 16 0)"
  obtain ok f where v: "ValidateCounter nonce RejectAfterMessages (kp_replayFilter (nd_kps dv k)) = (ok, f)" by fastforce
  with Validate_refines [OF assms(7), of nonce RejectAfterMessages] assms(8)
  have ok: "ok" "replay_inv \<lparr>seen = insert (unat nonce) (seen w), top = max (unat nonce) (top w)\<rparr> f"
    by (simp_all add: spec_validate_def)
  have "receive_datagram lib now allowed (encrypt_element lib mtu kp nonce packet) dv = receive_element allowed p k (nonce, Some ?content) dv"
    using assms(6) by (simp add: receive_datagram_def incoming_encrypted [OF assms(1,4)] decrypt_encrypted [OF assms(1,5)])
  with assms(9) have r: "receive_element allowed p k (nonce, Some ?content) dv = (r, dv')" by simp
  then have "r = (True, Some packet)"
    using ok(1) v accept_padded [OF assms(2,3)] by (auto simp: receive_element_def)
  moreover have kp: "nd_kps dv' k = (nd_kps dv k)\<lparr>kp_replayFilter := f\<rparr>"
    using receive_keypair [OF v, of allowed p ?content] r by simp
  moreover have "\<not> fst (ValidateCounter nonce RejectAfterMessages f)"
    using Validate_refines [OF ok(2), of nonce RejectAfterMessages] by (simp add: spec_accepts_def)
  moreover have "nd_table dv' (kp_remoteIndex kp) = Some (entry_of (KP p k)) \<or> nd_table dv' (kp_remoteIndex kp) = None"
    using receive_table [of allowed p k "(nonce, Some ?content)" dv "kp_remoteIndex kp"] r assms(4) by simp
  ultimately show ?thesis using dropped_datagram [OF assms(1), of dv' kp p k nonce] assms(5) by simp
qed

lemma unat_less_16: "unat (w :: 16 word) < 65536"
  using unsigned_less [of w] by simp

text \<open>
  Property C32: the length of an IPv6 packet is computed in 16 bits, so a payload length of 65496 or more
  wraps to less than a header: instead of being rejected, the packet is cut to that length and written to the TUN device.
\<close>

theorem ipv6_length_wraps:
  assumes "40 \<le> length packet" "ip_version packet = 6" "65496 \<le> unat (BE_field16 (take 2 (drop 4 packet)))"
    "AllowedIPs_Lookup (ip_source packet) allowed = Some (Some p)"
  shows "accept_packet allowed p packet = Some (take (unat (BE_field16 (take 2 (drop 4 packet))) - 65496) packet) \<and>
    unat (BE_field16 (take 2 (drop 4 packet))) - 65496 < 40"
proof -
  let ?f = "BE_field16 (take 2 (drop 4 packet))"
  have "unat (?f + 40) = unat ?f - 65496" "unat ?f - 65496 < 40"
    using assms(3) unat_less_16 [of ?f] by (simp_all add: unat_word_ariths mod_if)
  moreover have "packet \<noteq> []" using assms(1) by auto
  ultimately show ?thesis using assms by (simp add: accept_packet_def ip_version_def ip_source_def)
qed

subsection \<open>Samples\<close>

definition sample_allowed :: "nat AllowedIPs" where
  "sample_allowed = the (AllowedIPs_Insert (Addr4 [10, 0, 0, 0], 8) 0 (the (AllowedIPs_Insert (Addr6 (replicate 16 0) [], 0) 0 empty_table)))"

definition sample_keypair :: "32 word \<Rightarrow> 32 word \<Rightarrow> Keypair" where
  "sample_keypair own other = \<lparr>kp_sendNonce = 0, kp_send = sample_sk 7, kp_receive = sample_sk 7, kp_replayFilter = zero_Filter,
     kp_isInitiator = False, kp_created = 0, kp_localIndex = own, kp_remoteIndex = other\<rparr>"

definition sample_session :: NDevice where
  "sample_session = (sample_device 2 1)\<lparr>nd_table := [9 \<mapsto> entry_of (KP 0 0)], nd_kps := (\<lambda>_. sample_keypair 9 5)\<rparr>"

definition sample_packet :: "byte list" where
  "sample_packet = [69, 0, 0, 20, 0, 0, 0, 0, 64, 17, 0, 0, 10, 0, 0, 1, 10, 0, 0, 2]"

definition sample_packet6 :: "byte list" where
  "sample_packet6 = [96, 0, 0, 0, 255, 255] @ replicate 34 0"

lemma sample_packet_ok: "ip_packet sample_packet" "AllowedIPs_Lookup (ip_source sample_packet) sample_allowed = Some (Some 0)"
  by code_simp+

lemma sample_packet6_ok: "ip_version sample_packet6 = 6" "BE_field16 (take 2 (drop 4 sample_packet6)) = 65535"
  "AllowedIPs_Lookup (ip_source sample_packet6) sample_allowed = Some (Some 0)" "length sample_packet6 = 40"
  by code_simp+

theorem transport_delivers_once_witness:
  "fst (receive_datagram sample_noise 1 sample_allowed (encrypt_element sample_noise 1420 (sample_keypair 5 9) 0 sample_packet) sample_session) =
     (True, Some sample_packet)"
proof -
  obtain r dv' where r: "receive_datagram sample_noise 1 sample_allowed (encrypt_element sample_noise 1420 (sample_keypair 5 9) 0 sample_packet) sample_session = (r, dv')"
    by fastforce
  have "spec_accepts (unat RejectAfterMessages) (unat (0 :: 64 word)) \<lparr>seen = {}, top = 0\<rparr>" by (simp add: spec_accepts_def)
  from transport_delivers_once [OF sample_noise_laws sample_packet_ok _ _ _ _ this r] Replay_Filter.zero_inv r show ?thesis
    by (simp add: sample_session_def sample_keypair_def)
qed

theorem ipv6_length_wraps_witness: "accept_packet sample_allowed 0 sample_packet6 = Some (take 39 sample_packet6)"
  using ipv6_length_wraps [of sample_packet6 sample_allowed 0] sample_packet6_ok by simp

end
