(* ===== verification/Cookies.thy ===== *)
theory Cookies
  imports Noise_Messages
begin

section \<open>MACs and cookies of handshake messages (wireguard-go/device/cookie.go)\<close>

text \<open>
  Every handshake message ends with two MACs. The first is keyed with the receiver's public key; the second, which a
  receiver under load asks for, with a cookie that it has sent, encrypted, to the sender's address. The primitives
  are parameters. A message is at least 32 bytes long, as its callers guarantee.
\<close>

record cookie_lib =
  ck_Sum256 :: "byte list \<Rightarrow> byte list"
  ck_MAC128 :: "byte list \<Rightarrow> byte list \<Rightarrow> byte list"
  ck_SealX :: "byte list \<Rightarrow> byte list \<Rightarrow> byte list \<Rightarrow> byte list \<Rightarrow> byte list"
  ck_OpenX :: "byte list \<Rightarrow> byte list \<Rightarrow> byte list \<Rightarrow> byte list \<Rightarrow> byte list option"

record CookieChecker =
  cc_mac1_key :: "byte list"
  cc_secret :: "byte list"
  cc_secretSet :: int
  cc_encryptionKey :: "byte list"

record CookieGenerator =
  cg_mac1_key :: "byte list"
  cg_cookie :: "byte list"
  cg_cookieSet :: int
  cg_hasLastMAC1 :: bool
  cg_lastMAC1 :: "byte list"
  cg_encryptionKey :: "byte list"

abbreviation (input) CookieRefreshTime :: int where "CookieRefreshTime \<equiv> 120000000000"

definition zero_Time :: int where
  "zero_Time = - 62135596800000000000"

definition label_key :: "cookie_lib \<Rightarrow> string \<Rightarrow> byte list \<Rightarrow> byte list" where
  "label_key lib label pk = ck_Sum256 lib (map of_char label @ pk)"

definition CookieChecker_Init :: "cookie_lib \<Rightarrow> byte list \<Rightarrow> CookieChecker \<Rightarrow> CookieChecker" where
  "CookieChecker_Init lib pk st = st\<lparr>cc_mac1_key := label_key lib ''mac1----'' pk, cc_encryptionKey := label_key lib ''cookie--'' pk,
     cc_secretSet := zero_Time\<rparr>"

definition CookieGenerator_Init :: "cookie_lib \<Rightarrow> byte list \<Rightarrow> CookieGenerator \<Rightarrow> CookieGenerator" where
  "CookieGenerator_Init lib pk st = st\<lparr>cg_mac1_key := label_key lib ''mac1----'' pk, cg_encryptionKey := label_key lib ''cookie--'' pk,
     cg_cookieSet := zero_Time\<rparr>"

definition smac2 :: "byte list \<Rightarrow> nat" where
  "smac2 msg = length msg - 16"

definition smac1 :: "byte list \<Rightarrow> nat" where
  "smac1 msg = smac2 msg - 16"

definition mac1_of :: "byte list \<Rightarrow> byte list" where
  "mac1_of msg = take (smac2 msg - smac1 msg) (drop (smac1 msg) msg)"

definition CheckMAC1 :: "cookie_lib \<Rightarrow> byte list \<Rightarrow> CookieChecker \<Rightarrow> bool" where
  "CheckMAC1 lib msg st \<longleftrightarrow> ck_MAC128 lib (cc_mac1_key st) (take (smac1 msg) msg) = mac1_of msg"

definition CheckMAC2 :: "cookie_lib \<Rightarrow> int \<Rightarrow> byte list \<Rightarrow> byte list \<Rightarrow> CookieChecker \<Rightarrow> bool" where
  "CheckMAC2 lib now msg src st \<longleftrightarrow>
     (if CookieRefreshTime < now - cc_secretSet st then False
      else
        let cookie = ck_MAC128 lib (cc_secret st) src
        in ck_MAC128 lib cookie (take (smac2 msg) msg) = drop (smac2 msg) msg)"

text \<open>The random secret and the nonce, each with a flag that is false when the random source fails, are arguments.\<close>

definition CreateReply ::
  "cookie_lib \<Rightarrow> int \<Rightarrow> byte list \<times> bool \<Rightarrow> byte list \<times> bool \<Rightarrow> byte list \<Rightarrow> 32 word \<Rightarrow> byte list \<Rightarrow> CookieChecker \<Rightarrow>
   (string, MessageCookieReply) res \<times> CookieChecker" where
  "CreateReply lib now secret nonce msg recv src st =
     (let refresh = (CookieRefreshTime < now - cc_secretSet st);
          st1 = (if refresh then st\<lparr>cc_secret := fst secret\<rparr> else st)
      in if refresh \<and> \<not> snd secret then (Err ''rand'', st1)
         else
           let st2 = (if refresh then st1\<lparr>cc_secretSet := now\<rparr> else st1);
               cookie = ck_MAC128 lib (cc_secret st2) src
           in if \<not> snd nonce then (Err ''rand'', st2)
              else (Ok \<lparr>mc_Type = MessageCookieReplyType, mc_Receiver = recv, mc_Nonce = fst nonce,
                        mc_Cookie = ck_SealX lib (cc_encryptionKey st2) (fst nonce) cookie (mac1_of msg)\<rparr>, st2))"

definition ConsumeReply :: "cookie_lib \<Rightarrow> int \<Rightarrow> MessageCookieReply \<Rightarrow> CookieGenerator \<Rightarrow> bool \<times> CookieGenerator" where
  "ConsumeReply lib now msg st =
     (if \<not> cg_hasLastMAC1 st then (False, st)
      else case ck_OpenX lib (cg_encryptionKey st) (mc_Nonce msg) (mc_Cookie msg) (cg_lastMAC1 st) of
             None \<Rightarrow> (False, st)
           | Some cookie \<Rightarrow> (True, st\<lparr>cg_cookieSet := now, cg_cookie := cookie\<rparr>))"

definition AddMacs :: "cookie_lib \<Rightarrow> int \<Rightarrow> byte list \<Rightarrow> CookieGenerator \<Rightarrow> byte list \<times> CookieGenerator" where
  "AddMacs lib now msg st =
     (let m1 = ck_MAC128 lib (cg_mac1_key st) (take (smac1 msg) msg);
          msg1 = take (smac1 msg) msg @ m1 @ drop (smac2 msg) msg;
          st1 = st\<lparr>cg_lastMAC1 := m1, cg_hasLastMAC1 := True\<rparr>
      in if CookieRefreshTime < now - cg_cookieSet st then (msg1, st1)
         else (take (smac2 msg) msg1 @ ck_MAC128 lib (cg_cookie st) (take (smac2 msg) msg1), st1))"

definition cookie_laws :: "cookie_lib \<Rightarrow> bool" where
  "cookie_laws lib \<longleftrightarrow> (\<forall>k m. length (ck_MAC128 lib k m) = 16) \<and> (\<forall>k n p a. ck_OpenX lib k n (ck_SealX lib k n p a) a = Some p)"

subsection \<open>Lemmas\<close>

definition shares_key :: "cookie_lib \<Rightarrow> CookieGenerator \<Rightarrow> CookieChecker \<Rightarrow> bool" where
  "shares_key lib g c \<longleftrightarrow> cg_mac1_key g = cc_mac1_key c \<and> cg_encryptionKey g = cc_encryptionKey c"

lemma Init_shares: "shares_key lib (CookieGenerator_Init lib pk g) (CookieChecker_Init lib pk c)"
  by (simp add: shares_key_def CookieGenerator_Init_def CookieChecker_Init_def)

lemma AddMacs_frame: "AddMacs lib now msg g = (p, g') \<Longrightarrow> cg_mac1_key g' = cg_mac1_key g \<and> cg_encryptionKey g' = cg_encryptionKey g \<and>
    cg_hasLastMAC1 g' \<and> cg_cookie g' = cg_cookie g \<and> cg_cookieSet g' = cg_cookieSet g"
  by (auto simp: AddMacs_def Let_def split: if_splits)

lemma AddMacs_layout:
  assumes "cookie_laws lib" "32 \<le> length msg" "AddMacs lib now msg g = (p, g')"
  shows "length p = length msg" "take (smac1 p) p = take (smac1 msg) msg"
    "mac1_of p = ck_MAC128 lib (cg_mac1_key g) (take (smac1 msg) msg)" "mac1_of p = cg_lastMAC1 g'"
  using assms by (auto simp: AddMacs_def cookie_laws_def smac1_def smac2_def mac1_of_def Let_def split: if_splits)

lemma AddMacs_MAC2:
  assumes "cookie_laws lib" "32 \<le> length msg" "AddMacs lib now msg g = (p, g')" "now - cg_cookieSet g \<le> CookieRefreshTime"
  shows "drop (smac2 p) p = ck_MAC128 lib (cg_cookie g) (take (smac2 p) p)"
  using assms by (auto simp: AddMacs_def cookie_laws_def smac1_def smac2_def Let_def)

text \<open>
  Property C29: a sender that is asked for a cookie gets through. Its first message passes the first check of the receiver;
  the reply the receiver makes to that message, under whatever secret and nonce, is accepted by the sender as long as it has sent no other
  message since; and a message the sender makes within two minutes of that passes both checks while the receiver's secret
  is not older than two minutes, when it comes from the address the cookie was made for.
\<close>

theorem cookie_exchange:
  assumes laws: "cookie_laws lib" and key: "shares_key lib g c"
    and len: "32 \<le> length m1" "32 \<le> length m2"
    and send1: "AddMacs lib t0 m1 g = (p1, g1)"
    and reply: "CreateReply lib t1 secret nonce p1 recv src c = (Ok rep, c1)"
    and recv: "ConsumeReply lib t2 rep g1 = (ok, g2)"
    and send2: "AddMacs lib t3 m2 g2 = (p2, g3)"
    and fresh: "t3 - t2 \<le> CookieRefreshTime" "t4 - cc_secretSet c1 \<le> CookieRefreshTime"
  shows "CheckMAC1 lib p1 c \<and> ok \<and> CheckMAC1 lib p2 c1 \<and> CheckMAC2 lib t4 p2 src c1"
proof -
  have c1: "cc_mac1_key c1 = cc_mac1_key c" "cc_encryptionKey c1 = cc_encryptionKey c"
    and rep: "mc_Cookie rep = ck_SealX lib (cc_encryptionKey c) (mc_Nonce rep) (ck_MAC128 lib (cc_secret c1) src) (mac1_of p1)"
    using reply by (auto simp: CreateReply_def Let_def split: if_splits)
  note l1 = AddMacs_layout [OF laws len(1) send1] and f1 = AddMacs_frame [OF send1]
  have "ck_OpenX lib (cg_encryptionKey g1) (mc_Nonce rep) (mc_Cookie rep) (cg_lastMAC1 g1) = Some (ck_MAC128 lib (cc_secret c1) src)"
    using laws key f1 rep l1(4) by (simp add: cookie_laws_def shares_key_def)
  with recv f1 have ok: "ok" and g2: "g2 = g1\<lparr>cg_cookieSet := t2, cg_cookie := ck_MAC128 lib (cc_secret c1) src\<rparr>"
    by (auto simp: ConsumeReply_def)
  note l2 = AddMacs_layout [OF laws len(2) send2]
  have "drop (smac2 p2) p2 = ck_MAC128 lib (cg_cookie g2) (take (smac2 p2) p2)"
    using AddMacs_MAC2 [OF laws len(2) send2] fresh(1) g2 by simp
  then show ?thesis
    using ok key l1(2,3) l2(2,3) c1 f1 g2 fresh(2) by (simp add: CheckMAC1_def CheckMAC2_def shares_key_def Let_def)
qed

definition sample_cookie_lib :: cookie_lib where
  "sample_cookie_lib = \<lparr>ck_Sum256 = (\<lambda>m. replicate 32 0), ck_MAC128 = (\<lambda>k m. replicate 16 (of_nat (length k + length m))),
     ck_SealX = (\<lambda>k n p a. p @ a), ck_OpenX = (\<lambda>k n c a. if drop (length c - length a) c = a then Some (take (length c - length a) c) else None)\<rparr>"

definition sample_generator :: CookieGenerator where
  "sample_generator = CookieGenerator_Init sample_cookie_lib (replicate 32 1)
     \<lparr>cg_mac1_key = [], cg_cookie = [], cg_cookieSet = 0, cg_hasLastMAC1 = False, cg_lastMAC1 = [], cg_encryptionKey = []\<rparr>"

definition sample_checker :: CookieChecker where
  "sample_checker = CookieChecker_Init sample_cookie_lib (replicate 32 1)
     \<lparr>cc_mac1_key = [], cc_secret = [], cc_secretSet = 0, cc_encryptionKey = []\<rparr>"

theorem cookie_exchange_witness:
  "\<exists>p1 g1 rep c1 g2 p2 g3. AddMacs sample_cookie_lib 0 (replicate 148 0) sample_generator = (p1, g1) \<and>
     CreateReply sample_cookie_lib 1 ([4], True) ([5], True) p1 7 [192, 0, 2, 1] sample_checker = (Ok rep, c1) \<and>
     ConsumeReply sample_cookie_lib 2 rep g1 = (True, g2) \<and>
     AddMacs sample_cookie_lib 3 (replicate 148 0) g2 = (p2, g3) \<and> CheckMAC2 sample_cookie_lib 4 p2 [192, 0, 2, 1] c1"
proof -
  have laws: "cookie_laws sample_cookie_lib" by (simp add: cookie_laws_def sample_cookie_lib_def)
  have key: "shares_key sample_cookie_lib sample_generator sample_checker"
    unfolding sample_generator_def sample_checker_def by (rule Init_shares)
  obtain p1 g1 where s1: "AddMacs sample_cookie_lib 0 (replicate 148 0) sample_generator = (p1, g1)" by fastforce
  obtain rep c1 where r: "CreateReply sample_cookie_lib 1 ([4], True) ([5], True) p1 7 [192, 0, 2, 1] sample_checker = (Ok rep, c1)"
    and c1: "cc_secretSet c1 = 1"
    by (simp add: CreateReply_def sample_checker_def CookieChecker_Init_def zero_Time_def)
  obtain ok g2 where co: "ConsumeReply sample_cookie_lib 2 rep g1 = (ok, g2)" by fastforce
  obtain p2 g3 where s2: "AddMacs sample_cookie_lib 3 (replicate 148 0) g2 = (p2, g3)" by fastforce
  from cookie_exchange [OF laws key _ _ s1 r co s2, of 4] c1 s1 r co s2 show ?thesis by auto
qed

end
