(* ===== verification/Rate_Limiter.thy ===== *)
theory Rate_Limiter
  imports Go_Prelude
begin

section \<open>The rate limiter of handshakes (wireguard-go/ratelimiter)\<close>

text \<open>
  \<^verbatim>\<open>ratelimiter.go\<close>: a token bucket per address. An address without an entry has a full bucket, and the garbage
  collector removes entries that have been idle for a second. Times are nanoseconds; the tokens are a 64-bit
  integer, whose wrap-around is written out. The goroutine of the collector is the operation \<open>cleanup\<close>, run at any
  time.
\<close>

abbreviation (input) packetCost :: int where "packetCost \<equiv> 50000000"
abbreviation (input) maxTokens :: int where "maxTokens \<equiv> 250000000"
abbreviation (input) garbageCollectTime :: int where "garbageCollectTime \<equiv> 1000000000"

record RatelimiterEntry =
  lastTime :: int
  tokens :: int

type_synonym 'ip rate_table = "('ip \<times> RatelimiterEntry) list"

definition int64 :: "int \<Rightarrow> int" where
  "int64 x = (x + 2 ^ 63) mod 2 ^ 64 - 2 ^ 63"

text \<open>\<^verbatim>\<open>time.Time.Sub\<close> saturates.\<close>

definition Time_Sub :: "int \<Rightarrow> int \<Rightarrow> int" where
  "Time_Sub t u = max (- (2 ^ 63)) (min (2 ^ 63 - 1) (t - u))"

definition put_rate :: "'ip \<Rightarrow> RatelimiterEntry \<Rightarrow> 'ip rate_table \<Rightarrow> 'ip rate_table" where
  "put_rate ip e t = (ip, e) # filter (\<lambda>(k, _). k \<noteq> ip) t"

definition cleanup_rate :: "int \<Rightarrow> 'ip rate_table \<Rightarrow> bool \<times> 'ip rate_table" where
  "cleanup_rate now t =
     (let t' = filter (\<lambda>(_, e). \<not> garbageCollectTime < Time_Sub now (lastTime e)) t in (t' = [], t'))"

definition Allow :: "int \<Rightarrow> 'ip \<Rightarrow> 'ip rate_table \<Rightarrow> bool \<times> 'ip rate_table" where
  "Allow now ip t =
     (case map_of t ip of
        None \<Rightarrow> (True, put_rate ip \<lparr>lastTime = now, tokens = maxTokens - packetCost\<rparr> t)
      | Some e \<Rightarrow>
          let tk = int64 (tokens e + Time_Sub now (lastTime e));
              tk = (if maxTokens < tk then maxTokens else tk)
          in if packetCost < tk then (True, put_rate ip \<lparr>lastTime = now, tokens = tk - packetCost\<rparr> t)
             else (False, put_rate ip \<lparr>lastTime = now, tokens = tk\<rparr> t))"

datatype 'ip rate_op = Packet int 'ip | Collect int

fun op_time :: "'ip rate_op \<Rightarrow> int" where
  "op_time (Packet now ip) = now"
| "op_time (Collect now) = now"

fun rate_run :: "'ip \<Rightarrow> 'ip rate_op list \<Rightarrow> 'ip rate_table \<Rightarrow> nat \<times> 'ip rate_table" where
  "rate_run ip [] t = (0, t)"
| "rate_run ip (Packet now x # ops) t =
     (case Allow now x t of
        (ok, t') \<Rightarrow> (case rate_run ip ops t' of (n, u) \<Rightarrow> (if ok \<and> x = ip then Suc n else n, u)))"
| "rate_run ip (Collect now # ops) t = rate_run ip ops (snd (cleanup_rate now t))"

subsection \<open>The tokens an address has\<close>

definition entry_fine :: "int \<Rightarrow> RatelimiterEntry \<Rightarrow> bool" where
  "entry_fine now e \<longleftrightarrow> 0 \<le> tokens e \<and> tokens e \<le> maxTokens \<and> 0 \<le> lastTime e \<and> lastTime e \<le> now"

definition table_fine :: "int \<Rightarrow> 'ip rate_table \<Rightarrow> bool" where
  "table_fine now t \<longleftrightarrow> distinct (map fst t) \<and> (\<forall>(_, e)\<in>set t. entry_fine now e)"

definition balance :: "int \<Rightarrow> 'ip \<Rightarrow> 'ip rate_table \<Rightarrow> int" where
  "balance now ip t = (case map_of t ip of None \<Rightarrow> maxTokens | Some e \<Rightarrow> min maxTokens (tokens e + (now - lastTime e)))"

lemma map_of_put_rate [simp]: "map_of (put_rate ip e t) x = (if x = ip then Some e else map_of t x)"
  by (induction t) (auto simp: put_rate_def)

lemma int64_id: "- (2 ^ 63) \<le> x \<Longrightarrow> x < 2 ^ 63 \<Longrightarrow> int64 x = x"
  by (simp add: int64_def)

lemma table_fine_put: "table_fine now t \<Longrightarrow> entry_fine now e \<Longrightarrow> table_fine now (put_rate ip e t)"
  by (auto simp: table_fine_def put_rate_def intro: distinct_filter distinct_map_filter)

lemma table_fine_mono: "table_fine now t \<Longrightarrow> now \<le> now' \<Longrightarrow> table_fine now' t"
  by (fastforce simp: table_fine_def entry_fine_def)

lemma table_fine_entry: "table_fine now t \<Longrightarrow> map_of t ip = Some e \<Longrightarrow> entry_fine now e"
  by (auto simp: table_fine_def dest: map_of_SomeD)

lemma balance_pass: "now \<le> now' \<Longrightarrow> balance now' ip t \<le> balance now ip t + (now' - now)"
  by (auto simp: balance_def split: option.split)

lemma balance_range: "table_fine now t \<Longrightarrow> 0 \<le> balance now ip t \<and> balance now ip t \<le> maxTokens"
  using table_fine_entry [of now t ip] by (auto simp: balance_def entry_fine_def split: option.split)

lemma Allow_entry:
  assumes "table_fine now t" "now < 2 ^ 62" "map_of t ip = Some e"
  shows "Allow now ip t = (if packetCost < balance now ip t then (True, put_rate ip \<lparr>lastTime = now, tokens = balance now ip t - packetCost\<rparr> t)
     else (False, put_rate ip \<lparr>lastTime = now, tokens = balance now ip t\<rparr> t))"
proof -
  have e: "0 \<le> tokens e" "tokens e \<le> maxTokens" "0 \<le> lastTime e" "lastTime e \<le> now"
    using table_fine_entry [OF assms(1,3)] by (auto simp: entry_fine_def)
  then have "Time_Sub now (lastTime e) = now - lastTime e" "int64 (tokens e + (now - lastTime e)) = tokens e + (now - lastTime e)"
    using assms(2) by (auto simp: Time_Sub_def intro!: int64_id)
  with assms(3) show ?thesis by (auto simp: Allow_def balance_def Let_def min_def)
qed

lemma Allow_step:
  assumes "table_fine now t" "0 \<le> now" "now < 2 ^ 62" "Allow now x t = (ok, t')"
  shows "table_fine now t'" "balance now ip t' = balance now ip t - (if ok \<and> x = ip then packetCost else 0)"
proof -
  have range: "0 \<le> balance now x t" "balance now x t \<le> maxTokens" using balance_range [OF assms(1)] by auto
  show "table_fine now t'"
  proof (cases "map_of t x")
    case None
    then show ?thesis using assms by (auto simp: Allow_def entry_fine_def intro!: table_fine_put)
  next
    case (Some e)
    then show ?thesis
      using assms range Allow_entry [OF assms(1,3) Some] by (auto simp: entry_fine_def split: if_splits intro!: table_fine_put)
  qed
  show "balance now ip t' = balance now ip t - (if ok \<and> x = ip then packetCost else 0)"
  proof (cases "map_of t x")
    case None
    then show ?thesis using assms by (auto simp: Allow_def balance_def)
  next
    case (Some e)
    from Allow_entry [OF assms(1,3) this] assms(4) range show ?thesis
      by (auto simp: balance_def [of now ip t'] split: if_splits) (auto simp: balance_def)
  qed
qed

lemma cleanup_step:
  assumes "table_fine now t" "now < 2 ^ 62"
  shows "table_fine now (snd (cleanup_rate now t))" "balance now ip (snd (cleanup_rate now t)) = balance now ip t"
proof -
  let ?P = "\<lambda>(_, e). \<not> garbageCollectTime < Time_Sub now (lastTime e)"
  show "table_fine now (snd (cleanup_rate now t))"
    using assms(1) by (auto simp: cleanup_rate_def Let_def table_fine_def intro: distinct_map_filter)
  have d: "distinct (map fst t)" using assms(1) by (simp add: table_fine_def)
  have m: "map_of (filter ?P t) ip = (case map_of t ip of None \<Rightarrow> None | Some e \<Rightarrow> if ?P (ip, e) then Some e else None)"
    using d by (induction t) (auto split: option.splits dest: map_of_SomeD simp: image_iff intro!: map_of_eq_None_iff [THEN iffD2])
  show "balance now ip (snd (cleanup_rate now t)) = balance now ip t"
  proof (cases "map_of t ip")
    case None
    then show ?thesis using m by (simp add: balance_def cleanup_rate_def Let_def)
  next
    case (Some e)
    have e: "0 \<le> tokens e" "lastTime e \<le> now" "0 \<le> lastTime e" using table_fine_entry [OF assms(1) Some] by (auto simp: entry_fine_def)
    then have "Time_Sub now (lastTime e) = now - lastTime e" using assms(2) by (simp add: Time_Sub_def)
    with e m Some show ?thesis by (auto simp: balance_def cleanup_rate_def Let_def)
  qed
qed

subsection \<open>The bound\<close>

fun in_window :: "int \<Rightarrow> int \<Rightarrow> 'ip rate_op list \<Rightarrow> bool" where
  "in_window a b [] = (a \<le> b)"
| "in_window a b (x # ops) = (a \<le> op_time x \<and> in_window (op_time x) b ops)"

lemma in_window_le: "in_window a b ops \<Longrightarrow> a \<le> b"
  by (induction ops arbitrary: a) force+

lemma rate_run_balance:
  assumes "table_fine a t" "0 \<le> a" "b < 2 ^ 62" "in_window a b ops" "rate_run ip ops t = (n, u)"
  shows "table_fine b u \<and> packetCost * int n + balance b ip u \<le> balance a ip t + (b - a)"
  using assms
proof (induction ops arbitrary: a t n)
  case Nil
  then show ?case using balance_pass [of a b ip t] by (auto intro: table_fine_mono)
next
  case (Cons x ops)
  have w: "a \<le> op_time x" "in_window (op_time x) b ops" using Cons.prems(4) by auto
  have lim: "0 \<le> op_time x" "op_time x < 2 ^ 62" using w in_window_le [OF w(2)] Cons.prems(2,3) by linarith+
  have fine: "table_fine (op_time x) t" by (rule table_fine_mono [OF Cons.prems(1) w(1)])
  have pass: "balance (op_time x) ip t \<le> balance a ip t + (op_time x - a)" by (rule balance_pass [OF w(1)])
  show ?case
  proof (cases x)
    case (Packet now y)
    obtain ok t' where a: "Allow now y t = (ok, t')" by fastforce
    obtain m where m: "rate_run ip ops t' = (m, u)" and n: "n = (if ok \<and> y = ip then Suc m else m)"
      using Cons.prems(5) a Packet by (auto split: prod.splits)
    note st = Allow_step [of now t y ok t', OF _ _ _ a] 
    have "table_fine b u \<and> packetCost * int m + balance b ip u \<le> balance now ip t' + (b - now)"
      using Cons.IH [OF st(1) _ Cons.prems(3) _ m] fine lim w Packet by simp
    moreover have "balance now ip t' = balance now ip t - (if ok \<and> y = ip then packetCost else 0)"
      using st(2) fine lim Packet by simp
    ultimately show ?thesis using pass n Packet by (auto split: if_splits)
  next
    case (Collect now)
    from Collect Cons.prems(5) have m: "rate_run ip ops (snd (cleanup_rate now t)) = (n, u)" by simp
    from Cons.IH [OF cleanup_step(1) _ Cons.prems(3) _ this] cleanup_step(2) [of now t ip] fine lim w Collect pass
    show ?thesis by simp
  qed
qed



end
