(* ===== verification/Peer_Engine.thy ===== *)
theory Peer_Engine
  imports Transport Cookies Rate_Limiter
begin

section \<open>Peers at work (wireguard-go/device: peer.go, timers.go, send.go, receive.go)\<close>

text \<open>
  The whole state of a device, with what \<open>Noise\<close>, \<open>Cookies\<close>, \<open>Rate_Limiter\<close> and \<open>Allowed_IPs\<close> keep of it, the timers, the queues
  and the endpoints of its peers. Each operation is one transition of that state; the goroutines are transitions
  that take an element, or a batch, from a queue.
\<close>

subsection \<open>State\<close>

text \<open>
  What an operation finds in its surroundings: the clock (nanoseconds since 1970), random bytes for a private key, a
  cookie secret and a nonce, each with a flag that is false when the random source fails, the draws for an index and the jitter of a timer.
  A device has an arbitrary sequence of them and goes to the next one whenever it has used one.
\<close>

record entropy =
  en_now :: int
  en_key :: "byte list \<times> bool"
  en_draws :: "(32 word \<times> bool) list"
  en_jitter :: nat
  en_secret :: "byte list \<times> bool"
  en_nonce :: "byte list \<times> bool"

datatype deviceState = deviceStateDown | deviceStateUp | deviceStateClosed

text \<open>
  A timer is the time at which it expires, \<open>None\<close> when it is not pending. Packets that have a nonce wait in \<open>wp_outbound\<close>, each
  with its key pair.
\<close>

record 'ep wpeer =
  wp_retransmitHandshake :: "int option"
  wp_sendKeepalive :: "int option"
  wp_newHandshake :: "int option"
  wp_zeroKeyMaterial :: "int option"
  wp_persistentKeepalive :: "int option"
  wp_handshakeAttempts :: "32 word"
  wp_needAnotherKeepalive :: bool
  wp_sentLastMinuteHandshake :: bool
  wp_persistentKeepaliveInterval :: "32 word"
  wp_endpoint :: "'ep option"
  wp_clearSrcOnTx :: bool
  wp_disableRoaming :: bool
  wp_staged :: "byte list list list"
  wp_outbound :: "(byte list \<times> 64 word \<times> nat) list"
  wp_cookieGenerator :: CookieGenerator
  wp_txBytes :: "64 word"
  wp_rxBytes :: "64 word"
  wp_lastHandshakeNano :: int

record ('b, 'ep) wdev =
  wd_state :: deviceState
  wd_nd :: NDevice
  wd_peers :: "nat \<Rightarrow> 'ep wpeer"
  wd_allowedips :: "nat AllowedIPs"
  wd_cookieChecker :: CookieChecker
  wd_limiter :: "netip_addr rate_table"
  wd_underLoadUntil :: int
  wd_port :: "16 word"
  wd_fwmark :: "32 word"
  wd_brokenRoaming :: bool
  wd_mtu :: int
  wd_bind :: 'b
  wd_ent :: "nat \<Rightarrow> entropy"
  wd_tick :: nat
  wd_hung :: bool

text \<open>
  The socket of the device (package conn) and the libraries. Sending reports an error, or the one that says that
  segmentation offload was turned off, with the error of the second attempt.
\<close>

datatype send_error = Send_failed string | GSO_disabled "string option"

record ('b, 'ep) wg_env =
  we_noise :: noise_lib
  we_cookie :: cookie_lib
  bind_Send :: "byte list list \<Rightarrow> 'ep \<Rightarrow> 'b \<Rightarrow> send_error option \<times> 'b"
  bind_Open :: "16 word \<Rightarrow> 'b \<Rightarrow> (string, 16 word) res \<times> 'b"
  bind_Close :: "'b \<Rightarrow> string option \<times> 'b"
  bind_SetMark :: "32 word \<Rightarrow> 'b \<Rightarrow> string option \<times> 'b"
  startRouteListener :: "'b \<Rightarrow> string option \<times> 'b"
  ParseEndpoint :: "string \<Rightarrow> (string, 'ep) res"
  ClearSrc :: "'ep \<Rightarrow> 'ep"
  DstToBytes :: "'ep \<Rightarrow> byte list"
  DstIP :: "'ep \<Rightarrow> netip_addr"
  DstToString :: "'ep \<Rightarrow> string"

abbreviation (input) MaxTimerHandshakes :: "32 word" where "MaxTimerHandshakes \<equiv> 18"
abbreviation (input) UnderLoadAfterTime :: int where "UnderLoadAfterTime \<equiv> 1000000000"
abbreviation (input) QueueHandshakeSize :: nat where "QueueHandshakeSize \<equiv> 1024"
abbreviation (input) millisecond :: int where "millisecond \<equiv> 1000000"

definition ent :: "('b, 'ep) wdev \<Rightarrow> entropy" where
  "ent d = wd_ent d (wd_tick d)"

definition now_of :: "('b, 'ep) wdev \<Rightarrow> int" where
  "now_of d = en_now (ent d)"

definition next_tick :: "('b, 'ep) wdev \<Rightarrow> ('b, 'ep) wdev" where
  "next_tick d = d\<lparr>wd_tick := Suc (wd_tick d)\<rparr>"

definition put_nd :: "NDevice \<Rightarrow> ('b, 'ep) wdev \<Rightarrow> ('b, 'ep) wdev" where
  "put_nd nd d = d\<lparr>wd_nd := nd\<rparr>"

definition upd_peer :: "nat \<Rightarrow> ('ep wpeer \<Rightarrow> 'ep wpeer) \<Rightarrow> ('b, 'ep) wdev \<Rightarrow> ('b, 'ep) wdev" where
  "upd_peer p f d = d\<lparr>wd_peers := (wd_peers d)(p := f (wd_peers d p))\<rparr>"

definition isUp :: "('b, 'ep) wdev \<Rightarrow> bool" where
  "isUp d \<longleftrightarrow> wd_state d = deviceStateUp"

definition isClosed :: "('b, 'ep) wdev \<Rightarrow> bool" where
  "isClosed d \<longleftrightarrow> wd_state d = deviceStateClosed"

definition isRunning :: "nat \<Rightarrow> ('b, 'ep) wdev \<Rightarrow> bool" where
  "isRunning p d \<longleftrightarrow> np_isRunning (nd_peers (wd_nd d) p)"

definition timersActive :: "nat \<Rightarrow> ('b, 'ep) wdev \<Rightarrow> bool" where
  "timersActive p d \<longleftrightarrow> isRunning p d \<and> isUp d"

subsection \<open>Timer events\<close>

definition if_active :: "nat \<Rightarrow> ('ep wpeer \<Rightarrow> 'ep wpeer) \<Rightarrow> ('b, 'ep) wdev \<Rightarrow> ('b, 'ep) wdev" where
  "if_active p f d = (if timersActive p d then upd_peer p f d else d)"

definition timersDataSent :: "nat \<Rightarrow> ('b, 'ep) wdev \<Rightarrow> ('b, 'ep) wdev" where
  "timersDataSent p d =
     (if timersActive p d \<and> wp_newHandshake (wd_peers d p) = None
      then next_tick (upd_peer p (\<lambda>w. w\<lparr>wp_newHandshake :=
             Some (now_of d + (KeepaliveTimeout + RekeyTimeout + millisecond * int (en_jitter (ent d))))\<rparr>) d)
      else d)"

definition timersDataReceived :: "nat \<Rightarrow> ('b, 'ep) wdev \<Rightarrow> ('b, 'ep) wdev" where
  "timersDataReceived p d =
     if_active p (\<lambda>w. if wp_sendKeepalive w = None then w\<lparr>wp_sendKeepalive := Some (now_of d + KeepaliveTimeout)\<rparr>
                      else w\<lparr>wp_needAnotherKeepalive := True\<rparr>) d"

definition timersAnyAuthenticatedPacketSent :: "nat \<Rightarrow> ('b, 'ep) wdev \<Rightarrow> ('b, 'ep) wdev" where
  "timersAnyAuthenticatedPacketSent p d = if_active p (\<lambda>w. w\<lparr>wp_sendKeepalive := None\<rparr>) d"

definition timersAnyAuthenticatedPacketReceived :: "nat \<Rightarrow> ('b, 'ep) wdev \<Rightarrow> ('b, 'ep) wdev" where
  "timersAnyAuthenticatedPacketReceived p d = if_active p (\<lambda>w. w\<lparr>wp_newHandshake := None\<rparr>) d"

definition timersHandshakeInitiated :: "nat \<Rightarrow> ('b, 'ep) wdev \<Rightarrow> ('b, 'ep) wdev" where
  "timersHandshakeInitiated p d =
     (if timersActive p d
      then next_tick (upd_peer p (\<lambda>w. w\<lparr>wp_retransmitHandshake :=
             Some (now_of d + (RekeyTimeout + millisecond * int (en_jitter (ent d))))\<rparr>) d)
      else d)"

definition timersHandshakeComplete :: "nat \<Rightarrow> ('b, 'ep) wdev \<Rightarrow> ('b, 'ep) wdev" where
  "timersHandshakeComplete p d =
     upd_peer p (\<lambda>w. w\<lparr>wp_handshakeAttempts := 0, wp_sentLastMinuteHandshake := False, wp_lastHandshakeNano := int64 (now_of d)\<rparr>)
       (if_active p (\<lambda>w. w\<lparr>wp_retransmitHandshake := None\<rparr>) d)"

definition timersSessionDerived :: "nat \<Rightarrow> ('b, 'ep) wdev \<Rightarrow> ('b, 'ep) wdev" where
  "timersSessionDerived p d = if_active p (\<lambda>w. w\<lparr>wp_zeroKeyMaterial := Some (now_of d + RejectAfterTime * 3)\<rparr>) d"

definition timersAnyAuthenticatedPacketTraversal :: "nat \<Rightarrow> ('b, 'ep) wdev \<Rightarrow> ('b, 'ep) wdev" where
  "timersAnyAuthenticatedPacketTraversal p d =
     (let keepalive = wp_persistentKeepaliveInterval (wd_peers d p)
      in if 0 < keepalive then if_active p (\<lambda>w. w\<lparr>wp_persistentKeepalive := Some (now_of d + int (unat keepalive) * second)\<rparr>) d
         else d)"

definition timersStart :: "'ep wpeer \<Rightarrow> 'ep wpeer" where
  "timersStart w = w\<lparr>wp_handshakeAttempts := 0, wp_sentLastMinuteHandshake := False, wp_needAnotherKeepalive := False\<rparr>"

definition timersStop :: "'ep wpeer \<Rightarrow> 'ep wpeer" where
  "timersStop w = w\<lparr>wp_retransmitHandshake := None, wp_sendKeepalive := None, wp_newHandshake := None, wp_zeroKeyMaterial := None,
     wp_persistentKeepalive := None\<rparr>"

subsection \<open>Sending\<close>

definition FlushStagedPackets :: "nat \<Rightarrow> ('b, 'ep) wdev \<Rightarrow> ('b, 'ep) wdev" where
  "FlushStagedPackets p d = upd_peer p (\<lambda>w. w\<lparr>wp_staged := []\<rparr>) d"

definition markEndpointSrcForClearing :: "nat \<Rightarrow> ('b, 'ep) wdev \<Rightarrow> ('b, 'ep) wdev" where
  "markEndpointSrcForClearing p d = upd_peer p (\<lambda>w. if wp_endpoint w = None then w else w\<lparr>wp_clearSrcOnTx := True\<rparr>) d"

definition SetEndpointFromPacket :: "nat \<Rightarrow> 'ep \<Rightarrow> ('b, 'ep) wdev \<Rightarrow> ('b, 'ep) wdev" where
  "SetEndpointFromPacket p ep d =
     upd_peer p (\<lambda>w. if wp_disableRoaming w then w else w\<lparr>wp_clearSrcOnTx := False, wp_endpoint := Some ep\<rparr>) d"

definition SendBuffers :: "('b, 'ep) wg_env \<Rightarrow> nat \<Rightarrow> byte list list \<Rightarrow> ('b, 'ep) wdev \<Rightarrow> send_error option \<times> ('b, 'ep) wdev" where
  "SendBuffers env p buffers d =
     (if isClosed d then (None, d)
      else case wp_endpoint (wd_peers d p) of
             None \<Rightarrow> (Some (Send_failed ''no known endpoint for peer''), d)
           | Some ep \<Rightarrow>
               let ep = (if wp_clearSrcOnTx (wd_peers d p) then ClearSrc env ep else ep);
                   d = upd_peer p (\<lambda>w. w\<lparr>wp_endpoint := Some ep, wp_clearSrcOnTx := False\<rparr>) d;
                   (err, b) = bind_Send env buffers ep (wd_bind d);
                   d = d\<lparr>wd_bind := b\<rparr>
               in if err = None
                  then (None, upd_peer p (\<lambda>w. w\<lparr>wp_txBytes := wp_txBytes w + of_nat (sum_list (map length buffers))\<rparr>) d)
                  else (err, d))"

text \<open>
  \<open>wd_hung\<close> records that no draw gave a free index, so that the loop of \<open>NewIndexForHandshake\<close> has not ended. Marshalling into a buffer of the
  right length does not fail.
\<close>

definition marshalled :: "(string, byte list) res \<Rightarrow> byte list" where
  "marshalled r = (case r of Ok b \<Rightarrow> b | Err _ \<Rightarrow> [])"

definition add_macs :: "('b, 'ep) wg_env \<Rightarrow> nat \<Rightarrow> byte list \<Rightarrow> ('b, 'ep) wdev \<Rightarrow> byte list \<times> ('b, 'ep) wdev" where
  "add_macs env p packet d =
     (let (packet, g) = AddMacs (we_cookie env) (now_of d) packet (wp_cookieGenerator (wd_peers d p))
      in (packet, upd_peer p (\<lambda>w. w\<lparr>wp_cookieGenerator := g\<rparr>) d))"

definition put_lastSent :: "nat \<Rightarrow> ('b, 'ep) wdev \<Rightarrow> ('b, 'ep) wdev" where
  "put_lastSent p d = put_nd (put_handshake p ((nd_handshake (wd_nd d) p)\<lparr>hs_lastSentHandshake := now_of d\<rparr>) (wd_nd d)) d"

definition SendHandshakeInitiation :: "('b, 'ep) wg_env \<Rightarrow> bool \<Rightarrow> nat \<Rightarrow> ('b, 'ep) wdev \<Rightarrow> ('b, 'ep) wdev" where
  "SendHandshakeInitiation env isRetry p d =
     (let d = (if \<not> isRetry then upd_peer p (\<lambda>w. w\<lparr>wp_handshakeAttempts := 0\<rparr>) d else d)
      in if now_of d - hs_lastSentHandshake (nd_handshake (wd_nd d) p) < RekeyTimeout then d
         else
           let d = put_lastSent p d; e = ent d
           in case CreateMessageInitiation (we_noise env) (en_key e) (stamp (en_now e div second) (nat (en_now e mod second))) (en_draws e) p (wd_nd d) of
                None \<Rightarrow> d\<lparr>wd_hung := True\<rparr>
              | Some (Err _, nd) \<Rightarrow> next_tick (put_nd nd d)
              | Some (Ok msg, nd) \<Rightarrow>
                  let d = next_tick (put_nd nd d);
                      (packet, d) = add_macs env p (marshalled (MessageInitiation_marshal msg (replicate MessageInitiationSize 0))) d;
                      d = timersAnyAuthenticatedPacketSent p (timersAnyAuthenticatedPacketTraversal p d)
                  in timersHandshakeInitiated p (snd (SendBuffers env p [packet] d)))"

definition SendHandshakeResponse :: "('b, 'ep) wg_env \<Rightarrow> nat \<Rightarrow> ('b, 'ep) wdev \<Rightarrow> ('b, 'ep) wdev" where
  "SendHandshakeResponse env p d =
     (let d = put_lastSent p d; e = ent d
      in case CreateMessageResponse (we_noise env) (en_key e) (en_draws e) p (wd_nd d) of
           None \<Rightarrow> d\<lparr>wd_hung := True\<rparr>
         | Some (Err _, nd) \<Rightarrow> next_tick (put_nd nd d)
         | Some (Ok msg, nd) \<Rightarrow>
             let d = next_tick (put_nd nd d);
                 (packet, d) = add_macs env p (marshalled (MessageResponse_marshal msg (replicate MessageResponseSize 0))) d;
                 (err, nd) = BeginSymmetricSession (we_noise env) (now_of d) p (wd_nd d);
                 d = put_nd nd d
             in if err \<noteq> None then d
                else
                  let d = timersAnyAuthenticatedPacketSent p (timersAnyAuthenticatedPacketTraversal p (timersSessionDerived p d))
                  in snd (SendBuffers env p [packet] d))"

definition SendHandshakeCookie :: "('b, 'ep) wg_env \<Rightarrow> byte list \<Rightarrow> 'ep \<Rightarrow> ('b, 'ep) wdev \<Rightarrow> ('b, 'ep) wdev" where
  "SendHandshakeCookie env packet ep d =
     (let sender = LE_Uint32 (take 4 (drop 4 packet)); e = ent d;
          (r, c) = CreateReply (we_cookie env) (en_now e) (en_secret e) (en_nonce e) packet sender (DstToBytes env ep) (wd_cookieChecker d);
          d = next_tick (d\<lparr>wd_cookieChecker := c\<rparr>)
      in case r of
           Err _ \<Rightarrow> d
         | Ok reply \<Rightarrow>
             d\<lparr>wd_bind := snd (bind_Send env [marshalled (MessageCookieReply_marshal reply (replicate MessageCookieReplySize 0))] ep (wd_bind d))\<rparr>)"

text \<open>
  \<open>SendStagedPackets\<close> of \<open>Transport\<close> on the queue and the current key pair of a peer; it starts a handshake when it has to.
\<close>

definition current_keypair :: "nat \<Rightarrow> ('b, 'ep) wdev \<Rightarrow> nat option" where
  "current_keypair p d = ks_current (np_keypairs (nd_peers (wd_nd d) p))"

definition put_nonce :: "nat option \<Rightarrow> 64 word \<Rightarrow> ('b, 'ep) wdev \<Rightarrow> ('b, 'ep) wdev" where
  "put_nonce key n d =
     (case key of None \<Rightarrow> d | Some k \<Rightarrow> put_nd (use_keypair k n (kp_replayFilter (nd_kps (wd_nd d) k)) (wd_nd d)) d)"

definition send_staged :: "('b, 'ep) wg_env \<Rightarrow> nat \<Rightarrow> ('b, 'ep) wdev \<Rightarrow> ('b, 'ep) wdev" where
  "send_staged env p d =
     (let key = current_keypair p d;
          nonce = (case key of None \<Rightarrow> 0 | Some k \<Rightarrow> kp_sendNonce (nd_kps (wd_nd d) k));
          (hs, st) = SendStagedPackets (isUp d) (isRunning p d) (now_of d) (map_option (\<lambda>k. kp_created (nd_kps (wd_nd d) k)) key)
                       \<lparr>ss_staged = wp_staged (wd_peers d p), ss_nonce = nonce, ss_sent = []\<rparr>;
          d = upd_peer p (\<lambda>w. w\<lparr>wp_staged := ss_staged st,
                wp_outbound := wp_outbound w @ map (\<lambda>(e, n). (e, n, the key)) (ss_sent st)\<rparr>) (put_nonce key (ss_nonce st) d)
      in if hs then SendHandshakeInitiation env False p d else d)"

definition SendKeepalive :: "('b, 'ep) wg_env \<Rightarrow> nat \<Rightarrow> ('b, 'ep) wdev \<Rightarrow> ('b, 'ep) wdev" where
  "SendKeepalive env p d =
     send_staged env p (if wp_staged (wd_peers d p) = [] \<and> isRunning p d then upd_peer p (\<lambda>w. w\<lparr>wp_staged := [[[]]]\<rparr>) d else d)"

text \<open>The routine that reads from the TUN device: one packet, already matched to a peer.\<close>

definition stage_packets :: "('b, 'ep) wg_env \<Rightarrow> nat \<Rightarrow> byte list list \<Rightarrow> ('b, 'ep) wdev \<Rightarrow> ('b, 'ep) wdev" where
  "stage_packets env p packets d =
     (if isRunning p d then send_staged env p (upd_peer p (\<lambda>w. w\<lparr>wp_staged := StagePackets packets (wp_staged w)\<rparr>) d) else d)"

definition keep_fresh_sending :: "('b, 'ep) wg_env \<Rightarrow> nat \<Rightarrow> ('b, 'ep) wdev \<Rightarrow> ('b, 'ep) wdev" where
  "keep_fresh_sending env p d =
     (if keepKeyFreshSending (now_of d) (map_option (nd_kps (wd_nd d)) (current_keypair p d)) then SendHandshakeInitiation env False p d else d)"

definition keep_fresh_receiving :: "('b, 'ep) wg_env \<Rightarrow> nat \<Rightarrow> ('b, 'ep) wdev \<Rightarrow> ('b, 'ep) wdev" where
  "keep_fresh_receiving env p d =
     (if keepKeyFreshReceiving (now_of d) (wp_sentLastMinuteHandshake (wd_peers d p)) (map_option (nd_kps (wd_nd d)) (current_keypair p d))
      then SendHandshakeInitiation env False p (upd_peer p (\<lambda>w. w\<lparr>wp_sentLastMinuteHandshake := True\<rparr>) d) else d)"

text \<open>
  \<open>RoutineSequentialSender\<close> on the next \<open>n\<close> packets, which \<open>RoutineEncryption\<close> has encrypted.
\<close>

definition sequential_send :: "('b, 'ep) wg_env \<Rightarrow> nat \<Rightarrow> nat \<Rightarrow> ('b, 'ep) wdev \<Rightarrow> ('b, 'ep) wdev" where
  "sequential_send env n p d =
     (let elems = take n (wp_outbound (wd_peers d p));
          d = upd_peer p (\<lambda>w. w\<lparr>wp_outbound := drop n (wp_outbound w)\<rparr>) d
      in if \<not> isRunning p d then d
         else
           let bufs = map (\<lambda>(packet, nonce, k). encrypt_element (we_noise env) (wd_mtu d) (nd_kps (wd_nd d) k) nonce packet) elems;
               dataSent = list_ex (\<lambda>b. length b \<noteq> 32) bufs;
               d = timersAnyAuthenticatedPacketSent p (timersAnyAuthenticatedPacketTraversal p d);
               (err, d) = SendBuffers env p bufs d;
               d = (if dataSent then timersDataSent p d else d);
               err = (case err of Some (GSO_disabled e) \<Rightarrow> map_option Send_failed e | e \<Rightarrow> e)
           in if err \<noteq> None then d else keep_fresh_sending env p d)"

subsection \<open>Timers that expire\<close>

definition flush_all :: "nat \<Rightarrow> ('b, 'ep) wdev \<Rightarrow> ('b, 'ep) wdev" where
  "flush_all p d = FlushStagedPackets p (put_nd (ZeroAndFlushAll p (wd_nd d)) d)"

definition expiredRetransmitHandshake :: "('b, 'ep) wg_env \<Rightarrow> nat \<Rightarrow> ('b, 'ep) wdev \<Rightarrow> ('b, 'ep) wdev" where
  "expiredRetransmitHandshake env p d =
     (if MaxTimerHandshakes < wp_handshakeAttempts (wd_peers d p) then
        let d = if_active p (\<lambda>w. w\<lparr>wp_sendKeepalive := None\<rparr>) d;
            d = FlushStagedPackets p d
        in if_active p (\<lambda>w. if wp_zeroKeyMaterial w = None then w\<lparr>wp_zeroKeyMaterial := Some (now_of d + RejectAfterTime * 3)\<rparr> else w) d
      else
        let d = upd_peer p (\<lambda>w. w\<lparr>wp_handshakeAttempts := wp_handshakeAttempts w + 1\<rparr>) d
        in SendHandshakeInitiation env True p (markEndpointSrcForClearing p d))"

definition expiredSendKeepalive :: "('b, 'ep) wg_env \<Rightarrow> nat \<Rightarrow> ('b, 'ep) wdev \<Rightarrow> ('b, 'ep) wdev" where
  "expiredSendKeepalive env p d =
     (let d = SendKeepalive env p d
      in if wp_needAnotherKeepalive (wd_peers d p) then
           let d = upd_peer p (\<lambda>w. w\<lparr>wp_needAnotherKeepalive := False\<rparr>) d
           in if_active p (\<lambda>w. w\<lparr>wp_sendKeepalive := Some (now_of d + KeepaliveTimeout)\<rparr>) d
         else d)"

definition expiredNewHandshake :: "('b, 'ep) wg_env \<Rightarrow> nat \<Rightarrow> ('b, 'ep) wdev \<Rightarrow> ('b, 'ep) wdev" where
  "expiredNewHandshake env p d = SendHandshakeInitiation env False p (markEndpointSrcForClearing p d)"

definition expiredZeroKeyMaterial :: "nat \<Rightarrow> ('b, 'ep) wdev \<Rightarrow> ('b, 'ep) wdev" where
  "expiredZeroKeyMaterial p d = flush_all p d"

definition expiredPersistentKeepalive :: "('b, 'ep) wg_env \<Rightarrow> nat \<Rightarrow> ('b, 'ep) wdev \<Rightarrow> ('b, 'ep) wdev" where
  "expiredPersistentKeepalive env p d = (if 0 < wp_persistentKeepaliveInterval (wd_peers d p) then SendKeepalive env p d else d)"

text \<open>The function \<open>NewTimer\<close> makes for each of them: a timer that is pending stops being so and its function is called.\<close>

datatype wg_timer = T_retransmitHandshake | T_sendKeepalive | T_newHandshake | T_zeroKeyMaterial | T_persistentKeepalive

fun pending :: "wg_timer \<Rightarrow> 'ep wpeer \<Rightarrow> int option" where
  "pending T_retransmitHandshake w = wp_retransmitHandshake w"
| "pending T_sendKeepalive w = wp_sendKeepalive w"
| "pending T_newHandshake w = wp_newHandshake w"
| "pending T_zeroKeyMaterial w = wp_zeroKeyMaterial w"
| "pending T_persistentKeepalive w = wp_persistentKeepalive w"

fun timer_fires :: "('b, 'ep) wg_env \<Rightarrow> wg_timer \<Rightarrow> nat \<Rightarrow> ('b, 'ep) wdev \<Rightarrow> ('b, 'ep) wdev" where
  "timer_fires env T_retransmitHandshake p d = expiredRetransmitHandshake env p (upd_peer p (\<lambda>w. w\<lparr>wp_retransmitHandshake := None\<rparr>) d)"
| "timer_fires env T_sendKeepalive p d = expiredSendKeepalive env p (upd_peer p (\<lambda>w. w\<lparr>wp_sendKeepalive := None\<rparr>) d)"
| "timer_fires env T_newHandshake p d = expiredNewHandshake env p (upd_peer p (\<lambda>w. w\<lparr>wp_newHandshake := None\<rparr>) d)"
| "timer_fires env T_zeroKeyMaterial p d = expiredZeroKeyMaterial p (upd_peer p (\<lambda>w. w\<lparr>wp_zeroKeyMaterial := None\<rparr>) d)"
| "timer_fires env T_persistentKeepalive p d = expiredPersistentKeepalive env p (upd_peer p (\<lambda>w. w\<lparr>wp_persistentKeepalive := None\<rparr>) d)"

definition run_timer :: "('b, 'ep) wg_env \<Rightarrow> wg_timer \<Rightarrow> nat \<Rightarrow> ('b, 'ep) wdev \<Rightarrow> ('b, 'ep) wdev" where
  "run_timer env t p d = (if pending t (wd_peers d p) = None then d else timer_fires env t p d)"

subsection \<open>Receiving\<close>

definition IsUnderLoad :: "nat \<Rightarrow> ('b, 'ep) wdev \<Rightarrow> bool \<times> ('b, 'ep) wdev" where
  "IsUnderLoad queued d =
     (if QueueHandshakeSize div 8 \<le> queued then (True, d\<lparr>wd_underLoadUntil := int64 (now_of d + UnderLoadAfterTime)\<rparr>)
      else (int64 (now_of d) < wd_underLoadUntil d, d))"

definition consume_cookie :: "('b, 'ep) wg_env \<Rightarrow> byte list \<Rightarrow> ('b, 'ep) wdev \<Rightarrow> ('b, 'ep) wdev" where
  "consume_cookie env packet d =
     (case MessageCookieReply_unmarshal packet of
        Err _ \<Rightarrow> d
      | Ok reply \<Rightarrow>
          (case ie_peer (IndexTable_Lookup (mc_Receiver reply) (wd_nd d)) of
             None \<Rightarrow> d
           | Some p \<Rightarrow>
               if \<not> isRunning p d then d
               else upd_peer p (\<lambda>w. w\<lparr>wp_cookieGenerator := snd (ConsumeReply (we_cookie env) (now_of d) reply (wp_cookieGenerator w))\<rparr>) d))"

text \<open>The checks before a handshake message is looked at: whether to go on. \<open>queued\<close> is the length of the handshake queue.\<close>

definition admit :: "('b, 'ep) wg_env \<Rightarrow> nat \<Rightarrow> byte list \<Rightarrow> 'ep \<Rightarrow> ('b, 'ep) wdev \<Rightarrow> bool \<times> ('b, 'ep) wdev" where
  "admit env queued packet ep d =
     (if \<not> CheckMAC1 (we_cookie env) packet (wd_cookieChecker d) then (False, d)
      else
        let (load, d) = IsUnderLoad queued d
        in if \<not> load then (True, d)
           else if \<not> CheckMAC2 (we_cookie env) (now_of d) packet (DstToBytes env ep) (wd_cookieChecker d)
           then (False, SendHandshakeCookie env packet ep d)
           else (case Allow (now_of d) (DstIP env ep) (wd_limiter d) of (ok, t) \<Rightarrow> (ok, d\<lparr>wd_limiter := t\<rparr>)))"

definition count_rx :: "nat \<Rightarrow> nat \<Rightarrow> ('b, 'ep) wdev \<Rightarrow> ('b, 'ep) wdev" where
  "count_rx p n d = upd_peer p (\<lambda>w. w\<lparr>wp_rxBytes := wp_rxBytes w + of_nat n\<rparr>) d"

definition handle_initiation :: "('b, 'ep) wg_env \<Rightarrow> byte list \<Rightarrow> 'ep \<Rightarrow> ('b, 'ep) wdev \<Rightarrow> ('b, 'ep) wdev" where
  "handle_initiation env packet ep d =
     (case MessageInitiation_unmarshal packet of
        Err _ \<Rightarrow> d
      | Ok msg \<Rightarrow>
          let (r, nd) = ConsumeMessageInitiation (we_noise env) (now_of d) msg (wd_nd d);
              d = put_nd nd d
          in case r of
               None \<Rightarrow> d
             | Some p \<Rightarrow>
                 let d = timersAnyAuthenticatedPacketReceived p (timersAnyAuthenticatedPacketTraversal p d);
                     d = count_rx p (length packet) (SetEndpointFromPacket p ep d)
                 in SendHandshakeResponse env p d)"

definition handle_response :: "('b, 'ep) wg_env \<Rightarrow> byte list \<Rightarrow> 'ep \<Rightarrow> ('b, 'ep) wdev \<Rightarrow> ('b, 'ep) wdev" where
  "handle_response env packet ep d =
     (case MessageResponse_unmarshal packet of
        Err _ \<Rightarrow> d
      | Ok msg \<Rightarrow>
          let (r, nd) = ConsumeMessageResponse (we_noise env) msg (wd_nd d);
              d = put_nd nd d
          in case r of
               None \<Rightarrow> d
             | Some p \<Rightarrow>
                 let d = count_rx p (length packet) (SetEndpointFromPacket p ep d);
                     d = timersAnyAuthenticatedPacketReceived p (timersAnyAuthenticatedPacketTraversal p d);
                     (err, nd) = BeginSymmetricSession (we_noise env) (now_of d) p (wd_nd d);
                     d = put_nd nd d
                 in if err \<noteq> None then d
                    else SendKeepalive env p (timersHandshakeComplete p (timersSessionDerived p d)))"

text \<open>\<open>RoutineHandshake\<close> on one element of the handshake queue.\<close>

definition handle_handshake :: "('b, 'ep) wg_env \<Rightarrow> nat \<Rightarrow> 32 word \<times> byte list \<times> 'ep \<Rightarrow> ('b, 'ep) wdev \<Rightarrow> ('b, 'ep) wdev" where
  "handle_handshake env queued elem d =
     (case elem of
        (msgType, packet, ep) \<Rightarrow>
          if msgType = MessageCookieReplyType then consume_cookie env packet d
          else if msgType = MessageInitiationType then
            (case admit env queued packet ep d of (True, d) \<Rightarrow> handle_initiation env packet ep d | (False, d) \<Rightarrow> d)
          else if msgType = MessageResponseType then
            (case admit env queued packet ep d of (True, d) \<Rightarrow> handle_response env packet ep d | (False, d) \<Rightarrow> d)
          else d)"

text \<open>
  \<open>RoutineSequentialReceiver\<close>: one decrypted element with its counter, key pair and endpoint. The result collects what is
  written to the TUN device, the number of bytes, the last endpoint of a valid element and whether there was data.
\<close>

record 'ep receive_acc =
  ra_bufs :: "byte list list"
  ra_bytes :: nat
  ra_tail :: "'ep option"
  ra_data :: bool

definition receive_one ::
  "('b, 'ep) wg_env \<Rightarrow> nat \<Rightarrow> 64 word \<times> byte list option \<times> nat \<times> 'ep \<Rightarrow> 'ep receive_acc \<times> ('b, 'ep) wdev \<Rightarrow> 'ep receive_acc \<times> ('b, 'ep) wdev" where
  "receive_one env p elem acc_d =
     (case (elem, acc_d) of
        ((counter, None, k, ep), _) \<Rightarrow> acc_d
      | ((counter, Some packet, k, ep), (acc, d)) \<Rightarrow>
          let kp = nd_kps (wd_nd d) k;
              (ok, f) = ValidateCounter counter RejectAfterMessages (kp_replayFilter kp);
              d = put_nd (use_keypair k (kp_sendNonce kp) f (wd_nd d)) d
          in if \<not> ok then (acc, d)
             else
               let (first, nd) = ReceivedWithKeypair p k (wd_nd d);
                   d = put_nd nd d;
                   d = (if first then send_staged env p (timersHandshakeComplete p (SetEndpointFromPacket p ep d)) else d);
                   acc = acc\<lparr>ra_bytes := ra_bytes acc + (length packet + 32), ra_tail := Some ep\<rparr>
               in if packet = [] then (acc, d)
                  else (case accept_packet (wd_allowedips d) p packet of
                          None \<Rightarrow> (acc\<lparr>ra_data := True\<rparr>, d)
                        | Some out \<Rightarrow> (acc\<lparr>ra_data := True, ra_bufs := ra_bufs acc @ [out]\<rparr>, d)))"

definition sequential_receive ::
  "('b, 'ep) wg_env \<Rightarrow> nat \<Rightarrow> (64 word \<times> byte list option \<times> nat \<times> 'ep) list \<Rightarrow> ('b, 'ep) wdev \<Rightarrow> byte list list \<times> ('b, 'ep) wdev" where
  "sequential_receive env p elems d =
     (let (acc, d) = fold (receive_one env p) elems (\<lparr>ra_bufs = [], ra_bytes = 0, ra_tail = None, ra_data = False\<rparr>, d);
          d = count_rx p (ra_bytes acc) d;
          d = (case ra_tail acc of
                 None \<Rightarrow> d
               | Some ep \<Rightarrow> timersAnyAuthenticatedPacketReceived p (timersAnyAuthenticatedPacketTraversal p
                              (keep_fresh_receiving env p (SetEndpointFromPacket p ep d))));
          d = (if ra_data acc then timersDataReceived p d else d)
      in (ra_bufs acc, d))"

end
