(* ===== verification/Device_Life.thy ===== *)
theory Device_Life
  imports Peer_Engine
begin

section \<open>The life of a device (wireguard-go/device: device.go, peer.go, tun.go)\<close>

text \<open>
  Starting and stopping peers with their timers and queues, opening and closing the socket, the three states of a
  device, and what every operation of a device together with the goroutines of its peers can do.
\<close>

subsection \<open>Peers\<close>

text \<open>A queue is flushed when its peer starts, and what is left in it when the peer stops is dropped.\<close>

definition start_peer :: "nat \<Rightarrow> ('b, 'ep) wdev \<Rightarrow> ('b, 'ep) wdev" where
  "start_peer p d =
     (if isClosed d \<or> isRunning p d then d
      else upd_peer p (\<lambda>w. (timersStart w)\<lparr>wp_outbound := []\<rparr>) (put_nd (Peer_Start (now_of d) p (wd_nd d)) d))"

definition stop_peer :: "nat \<Rightarrow> ('b, 'ep) wdev \<Rightarrow> ('b, 'ep) wdev" where
  "stop_peer p d =
     (if \<not> isRunning p d then d
      else upd_peer p (\<lambda>w. (timersStop w)\<lparr>wp_outbound := [], wp_staged := []\<rparr>) (put_nd (Peer_Stop p (wd_nd d)) d))"

definition new_wpeer :: "('b, 'ep) wg_env \<Rightarrow> byte list \<Rightarrow> 'ep wpeer" where
  "new_wpeer env pk = \<lparr>wp_retransmitHandshake = None, wp_sendKeepalive = None, wp_newHandshake = None, wp_zeroKeyMaterial = None,
     wp_persistentKeepalive = None, wp_handshakeAttempts = 0, wp_needAnotherKeepalive = False, wp_sentLastMinuteHandshake = False,
     wp_persistentKeepaliveInterval = 0, wp_endpoint = None, wp_clearSrcOnTx = False, wp_disableRoaming = False, wp_staged = [], wp_outbound = [],
     wp_cookieGenerator = CookieGenerator_Init (we_cookie env) pk \<lparr>cg_mac1_key = replicate 32 0, cg_cookie = replicate 16 0, cg_cookieSet = zero_Time,
       cg_hasLastMAC1 = False, cg_lastMAC1 = replicate 16 0, cg_encryptionKey = replicate 32 0\<rparr>,
     wp_txBytes = 0, wp_rxBytes = 0, wp_lastHandshakeNano = 0\<rparr>"

definition new_peer :: "('b, 'ep) wg_env \<Rightarrow> byte list \<Rightarrow> ('b, 'ep) wdev \<Rightarrow> (string, nat) res \<times> ('b, 'ep) wdev" where
  "new_peer env pk d =
     (case NewPeer (we_noise env) pk (wd_nd d) of
        (Err e, nd) \<Rightarrow> (Err e, d)
      | (Ok p, nd) \<Rightarrow> (Ok p, upd_peer p (\<lambda>_. new_wpeer env pk) (put_nd nd d)))"

definition remove_from_map :: "byte list \<Rightarrow> ('b, 'ep) wdev \<Rightarrow> ('b, 'ep) wdev" where
  "remove_from_map key d = put_nd ((wd_nd d)\<lparr>nd_keyMap := filter (\<lambda>(k, _). k \<noteq> key) (nd_keyMap (wd_nd d))\<rparr>) d"

definition remove_peer_locked :: "nat \<Rightarrow> byte list \<Rightarrow> ('b, 'ep) wdev \<Rightarrow> ('b, 'ep) wdev" where
  "remove_peer_locked p key d =
     remove_from_map key (stop_peer p (d\<lparr>wd_allowedips := AllowedIPs_RemoveByPeer p (wd_allowedips d)\<rparr>))"

definition remove_peer :: "byte list \<Rightarrow> ('b, 'ep) wdev \<Rightarrow> ('b, 'ep) wdev" where
  "remove_peer key d = (case LookupPeer key (wd_nd d) of None \<Rightarrow> d | Some p \<Rightarrow> remove_peer_locked p key d)"

definition remove_all_peers :: "('b, 'ep) wdev \<Rightarrow> ('b, 'ep) wdev" where
  "remove_all_peers d =
     (let d = fold (\<lambda>(key, p). remove_peer_locked p key) (nd_keyMap (wd_nd d)) d
      in put_nd ((wd_nd d)\<lparr>nd_keyMap := []\<rparr>) d)"

text \<open>
  A new private key: peers with the public key of the device go, and the others get new shared secrets and expired key
  pairs. The \<open>Noise\<close> part of the state is that of \<open>SetPrivateKey\<close> there.
\<close>

definition set_private_key :: "('b, 'ep) wg_env \<Rightarrow> byte list \<Rightarrow> ('b, 'ep) wdev \<Rightarrow> ('b, 'ep) wdev" where
  "set_private_key env sk d =
     (if sk = nd_privateKey (wd_nd d) then d
      else
        let lib = we_noise env; pk = publicKey lib sk;
            d = fold (\<lambda>(key, p) d. if hs_remoteStatic (nd_handshake (wd_nd d) p) = pk then remove_peer_locked p key d else d) (nd_keyMap (wd_nd d)) d;
            d = put_nd ((wd_nd d)\<lparr>nd_privateKey := sk, nd_publicKey := pk\<rparr>) d;
            d = d\<lparr>wd_cookieChecker := CookieChecker_Init (we_cookie env) pk (wd_cookieChecker d)\<rparr>;
            d = fold (\<lambda>(key, p) d.
                        let h = nd_handshake (wd_nd d) p
                        in put_nd (put_handshake p (h\<lparr>hs_precomputedStaticStatic := fst (sharedSecret lib sk (hs_remoteStatic h))\<rparr>) (wd_nd d)) d)
                  (nd_keyMap (wd_nd d)) d
        in fold (\<lambda>(key, p) d. put_nd (ExpireCurrentKeypairs (now_of d) p (wd_nd d)) d) (nd_keyMap (wd_nd d)) d)"

subsection \<open>The socket\<close>

definition each_peer :: "(nat \<Rightarrow> ('b, 'ep) wdev \<Rightarrow> ('b, 'ep) wdev) \<Rightarrow> ('b, 'ep) wdev \<Rightarrow> ('b, 'ep) wdev" where
  "each_peer f d = fold f (map snd (nd_keyMap (wd_nd d))) d"

definition closeBindLocked :: "('b, 'ep) wg_env \<Rightarrow> ('b, 'ep) wdev \<Rightarrow> string option \<times> ('b, 'ep) wdev" where
  "closeBindLocked env d = (case bind_Close env (wd_bind d) of (err, b) \<Rightarrow> (err, d\<lparr>wd_bind := b\<rparr>))"

definition BindUpdate :: "('b, 'ep) wg_env \<Rightarrow> ('b, 'ep) wdev \<Rightarrow> string option \<times> ('b, 'ep) wdev" where
  "BindUpdate env d =
     (case closeBindLocked env d of
        (Some e, d) \<Rightarrow> (Some e, d)
      | (None, d) \<Rightarrow>
          if \<not> isUp d then (None, d)
          else case bind_Open env (wd_port d) (wd_bind d) of
                 (Err e, b) \<Rightarrow> (Some e, d\<lparr>wd_bind := b, wd_port := 0\<rparr>)
               | (Ok port, b) \<Rightarrow>
                   let d = d\<lparr>wd_bind := b, wd_port := port\<rparr>
                   in case startRouteListener env (wd_bind d) of
                        (Some e, b) \<Rightarrow> (Some e, d\<lparr>wd_bind := snd (bind_Close env b), wd_port := 0\<rparr>)
                      | (None, b) \<Rightarrow>
                          let (err, b) = (if wd_fwmark d \<noteq> 0 then bind_SetMark env (wd_fwmark d) b else (None, b));
                              d = d\<lparr>wd_bind := b\<rparr>
                          in if err \<noteq> None then (err, d) else (None, each_peer markEndpointSrcForClearing d))"

definition BindClose :: "('b, 'ep) wg_env \<Rightarrow> ('b, 'ep) wdev \<Rightarrow> string option \<times> ('b, 'ep) wdev" where
  "BindClose env d = closeBindLocked env d"

definition BindSetMark :: "('b, 'ep) wg_env \<Rightarrow> 32 word \<Rightarrow> ('b, 'ep) wdev \<Rightarrow> string option \<times> ('b, 'ep) wdev" where
  "BindSetMark env mark d =
     (if wd_fwmark d = mark then (None, d)
      else
        let d = d\<lparr>wd_fwmark := mark\<rparr>;
            (err, b) = (if isUp d then bind_SetMark env mark (wd_bind d) else (None, wd_bind d));
            d = d\<lparr>wd_bind := b\<rparr>
        in if err \<noteq> None then (err, d) else (None, each_peer markEndpointSrcForClearing d))"

subsection \<open>Up, down and closed\<close>

definition upLocked :: "('b, 'ep) wg_env \<Rightarrow> ('b, 'ep) wdev \<Rightarrow> string option \<times> ('b, 'ep) wdev" where
  "upLocked env d =
     (case BindUpdate env d of
        (Some e, d) \<Rightarrow> (Some e, d)
      | (None, d) \<Rightarrow>
          (None, each_peer (\<lambda>p d.
             let d = start_peer p d
             in if 0 < wp_persistentKeepaliveInterval (wd_peers d p) then SendKeepalive env p d else d) d))"

definition downLocked :: "('b, 'ep) wg_env \<Rightarrow> ('b, 'ep) wdev \<Rightarrow> string option \<times> ('b, 'ep) wdev" where
  "downLocked env d = (case BindClose env d of (err, d) \<Rightarrow> (err, each_peer stop_peer d))"

definition changeState :: "('b, 'ep) wg_env \<Rightarrow> deviceState \<Rightarrow> ('b, 'ep) wdev \<Rightarrow> string option \<times> ('b, 'ep) wdev" where
  "changeState env want d =
     (let old = wd_state d
      in if old = deviceStateClosed \<or> want = old then (None, d)
         else
           let (err, d) = (if want = deviceStateUp then upLocked env (d\<lparr>wd_state := deviceStateUp\<rparr>) else (None, d))
           in if want = deviceStateDown \<or> want = deviceStateUp \<and> err \<noteq> None then
                (case downLocked env (d\<lparr>wd_state := deviceStateDown\<rparr>) of
                   (errDown, d) \<Rightarrow> (if err = None then errDown else err, d))
              else (err, d))"

definition device_Up :: "('b, 'ep) wg_env \<Rightarrow> ('b, 'ep) wdev \<Rightarrow> string option \<times> ('b, 'ep) wdev" where
  "device_Up env d = changeState env deviceStateUp d"

definition device_Down :: "('b, 'ep) wg_env \<Rightarrow> ('b, 'ep) wdev \<Rightarrow> string option \<times> ('b, 'ep) wdev" where
  "device_Down env d = changeState env deviceStateDown d"

definition device_Close :: "('b, 'ep) wg_env \<Rightarrow> ('b, 'ep) wdev \<Rightarrow> ('b, 'ep) wdev" where
  "device_Close env d =
     (if isClosed d then d
      else remove_all_peers (snd (downLocked env
             (put_nd ((wd_nd d)\<lparr>nd_closed := True\<rparr>) (d\<lparr>wd_state := deviceStateClosed\<rparr>)))))"

definition SendKeepalivesToPeersWithCurrentKeypair :: "('b, 'ep) wg_env \<Rightarrow> ('b, 'ep) wdev \<Rightarrow> ('b, 'ep) wdev" where
  "SendKeepalivesToPeersWithCurrentKeypair env d =
     (if \<not> isUp d then d
      else each_peer (\<lambda>p d.
             case current_keypair p d of
               None \<Rightarrow> d
             | Some k \<Rightarrow> if now_of d \<le> kp_created (nd_kps (wd_nd d) k) + RejectAfterTime then SendKeepalive env p d else d) d)"

text \<open>The events of the TUN device: a new MTU, up, down. The largest content is 65503 bytes.\<close>

definition tun_mtu :: "(string, int) res \<Rightarrow> ('b, 'ep) wdev \<Rightarrow> ('b, 'ep) wdev" where
  "tun_mtu r d =
     (case r of
        Err _ \<Rightarrow> d
      | Ok mtu \<Rightarrow> if mtu < 0 then d else d\<lparr>wd_mtu := (if 65503 < mtu then 65503 else mtu)\<rparr>)"

definition zero_checker :: CookieChecker where
  "zero_checker = \<lparr>cc_mac1_key = replicate 32 0, cc_secret = replicate 32 0, cc_secretSet = zero_Time, cc_encryptionKey = replicate 32 0\<rparr>"

definition no_peer :: NPeer where
  "no_peer = \<lparr>np_isRunning = False, np_keypairs = \<lparr>ks_current = None, ks_previous = None, ks_next = None\<rparr>, np_handshake = zero_Handshake\<rparr>"

definition zero_keypair :: Keypair where
  "zero_keypair = \<lparr>kp_sendNonce = 0, kp_send = [], kp_receive = [], kp_replayFilter = zero_Filter, kp_isInitiator = False, kp_created = zero_time,
     kp_localIndex = 0, kp_remoteIndex = 0\<rparr>"

definition NewDevice :: "('b, 'ep) wg_env \<Rightarrow> (string, int) res \<Rightarrow> 'b \<Rightarrow> (nat \<Rightarrow> entropy) \<Rightarrow> ('b, 'ep) wdev" where
  "NewDevice env mtu b en =
     \<lparr>wd_state = deviceStateDown,
      wd_nd = \<lparr>nd_closed = False, nd_privateKey = replicate 32 0, nd_publicKey = replicate 32 0, nd_keyMap = [], nd_peers = (\<lambda>_. no_peer), nd_npeers = 0,
               nd_table = Map.empty, nd_kps = (\<lambda>_. zero_keypair), nd_nkps = 0\<rparr>,
      wd_peers = (\<lambda>_. new_wpeer env []), wd_allowedips = empty_table, wd_cookieChecker = zero_checker, wd_limiter = [], wd_underLoadUntil = 0,
      wd_port = 0, wd_fwmark = 0, wd_brokenRoaming = False, wd_mtu = (case mtu of Ok m \<Rightarrow> sint (word_of_int m :: 32 word) | Err _ \<Rightarrow> 1420), wd_bind = b,
      wd_ent = en, wd_tick = 0, wd_hung = False\<rparr>"

end
