(* ===== verification/Device_Runs.thy ===== *)
theory Device_Runs
  imports Device_Life
begin

section \<open>Runs of a device (wireguard-go/device)\<close>

text \<open>
  Every operation of \<open>Peer_Engine\<close> and \<open>Device_Life\<close> refines steps of \<open>Noise_Sessions\<close>, so that what holds there of handshakes and the
  index table holds of the whole device; peers run only while the device is up, and a peer that does not run has no
  timer pending and no packet waiting.
\<close>

subsection \<open>What the operations of a peer keep\<close>

definition same_peers :: "NDevice \<Rightarrow> NDevice \<Rightarrow> bool" where
  "same_peers nd nd' \<longleftrightarrow> nd_npeers nd' = nd_npeers nd \<and> nd_keyMap nd' = nd_keyMap nd \<and> nd_closed nd' = nd_closed nd \<and>
     (\<forall>q. np_isRunning (nd_peers nd' q) = np_isRunning (nd_peers nd q))"

lemma same_peers_refl [simp]: "same_peers nd nd"
  by (simp add: same_peers_def)

lemma closed_simps [simp]:
  "nd_closed (IndexTable_Delete i dv) = nd_closed dv" "nd_closed (SwapIndexForKeypair i k dv) = nd_closed dv"
  "nd_closed (DeleteKeypair key dv) = nd_closed dv" "nd_closed (rotate_keypairs b k p dv) = nd_closed dv"
  by (simp_all add: IndexTable_Delete_def SwapIndexForKeypair_def DeleteKeypair_def rotate_keypairs_def Let_def split: option.split)

lemma same_peers_ops:
  "same_peers dv (put_handshake p h dv)" "same_peers dv (use_keypair k n f dv)"
  "same_peers dv (snd (ReceivedWithKeypair p k dv))" "same_peers dv (ZeroAndFlushAll p dv)" "same_peers dv (commit_initiation now m r dv)"
  "same_peers dv (commit_response m' r' dv)" "same_peers dv (snd (BeginSymmetricSession lib now p dv))" "same_peers dv (ExpireCurrentKeypairs now p dv)"
  by (simp_all add: same_peers_def use_keypair_def ReceivedWithKeypair_def ZeroAndFlushAll_def commit_initiation_def commit_response_def
      BeginSymmetricSession_def ExpireCurrentKeypairs_def expire_keypair_def Let_def split: option.split prod.split)

lemma same_peers_create:
  "CreateMessageInitiation lib rk ts ds p dv = Some (r, dv') \<Longrightarrow> same_peers dv dv'"
  "CreateMessageResponse lib rk ds p dv = Some (r', dv') \<Longrightarrow> same_peers dv dv'"
  by (auto simp: same_peers_def CreateMessageInitiation_def CreateMessageResponse_def Let_def
      split: prod.splits sum.splits option.splits if_splits)

definition quiet :: "'ep wpeer \<Rightarrow> bool" where
  "quiet w \<longleftrightarrow> (\<forall>t. pending t w = None) \<and> wp_staged w = [] \<and> wp_outbound w = []"

lemma quiet_iff:
  "quiet w \<longleftrightarrow> wp_retransmitHandshake w = None \<and> wp_sendKeepalive w = None \<and> wp_newHandshake w = None \<and> wp_zeroKeyMaterial w = None \<and>
     wp_persistentKeepalive w = None \<and> wp_staged w = [] \<and> wp_outbound w = []"
  unfolding quiet_def by (metis pending.simps wg_timer.exhaust)

definition ready :: "('b, 'ep) wdev \<Rightarrow> bool" where
  "ready d \<longleftrightarrow> index_inv (wd_nd d) \<and> (\<forall>i. draws_ok (en_draws (wd_ent d i)))"

text \<open>An operation of the peers: steps of the sessions that neither start nor stop a peer, and leave quiet peers quiet.\<close>

definition advances :: "('b, 'ep) wg_env \<Rightarrow> ('b, 'ep) wdev \<Rightarrow> ('b, 'ep) wdev \<Rightarrow> bool" where
  "advances env d d' \<longleftrightarrow> (peer_step (we_noise env))\<^sup>*\<^sup>* (wd_nd d) (wd_nd d') \<and> same_peers (wd_nd d) (wd_nd d') \<and> wd_ent d' = wd_ent d \<and>
     wd_state d' = wd_state d \<and> (\<forall>q. \<not> isRunning q d \<longrightarrow> quiet (wd_peers d q) \<longrightarrow> quiet (wd_peers d' q))"

lemma adv_refl [simp]: "advances env d d"
  by (simp add: advances_def)

lemma adv_trans: "advances env a b \<Longrightarrow> advances env b c \<Longrightarrow> advances env a c"
  by (auto simp: advances_def same_peers_def isRunning_def)

lemma peer_steps_device: "(peer_step lib)\<^sup>*\<^sup>* a b \<Longrightarrow> (device_step lib)\<^sup>*\<^sup>* a b"
  by (induction rule: rtranclp_induct) (auto intro: device_step.peer rtranclp.rtrancl_into_rtrancl)

lemma peer_steps_inv: "(peer_step lib)\<^sup>*\<^sup>* a b \<Longrightarrow> index_inv a \<Longrightarrow> index_inv b"
  by (induction rule: rtranclp_induct) (auto intro: peer_step_inv)

lemma adv_ready: "advances env d d' \<Longrightarrow> ready d \<Longrightarrow> ready d'"
  by (auto simp: advances_def ready_def intro: peer_steps_inv)

definition peer_ready :: "nat \<Rightarrow> ('b, 'ep) wdev \<Rightarrow> bool" where
  "peer_ready p d \<longleftrightarrow> ready d \<and> p < nd_npeers (wd_nd d)"

lemma adv_peer_ready: "advances env d d' \<Longrightarrow> peer_ready p d \<Longrightarrow> peer_ready p d'"
  using adv_ready by (auto simp: peer_ready_def advances_def same_peers_def)

lemma adv_then:
  assumes "peer_ready p d" "advances env d d'" "peer_ready p d' \<Longrightarrow> advances env d' d''"
  shows "advances env d d''"
  using assms adv_trans adv_peer_ready by blast

lemma adv_peer:
  assumes "\<And>w. quiet w \<Longrightarrow> \<not> isRunning p d \<Longrightarrow> quiet (f w)"
  shows "advances env d (upd_peer p f d)"
  using assms by (auto simp: advances_def upd_peer_def)

lemma adv_if_active: "advances env d (if_active p f d)"
  by (auto simp: if_active_def timersActive_def intro: adv_peer)

lemma adv_step:
  assumes "peer_step (we_noise env) (wd_nd d) nd" "same_peers (wd_nd d) nd"
  shows "advances env d (put_nd nd d)"
  using assms by (auto simp: advances_def put_nd_def)

lemma adv_frame:
  "advances env d (next_tick d)" "advances env d (d\<lparr>wd_bind := b\<rparr>)" "advances env d (d\<lparr>wd_hung := x\<rparr>)" "advances env d (d\<lparr>wd_cookieChecker := c\<rparr>)"
  "advances env d (d\<lparr>wd_limiter := t\<rparr>)" "advances env d (d\<lparr>wd_underLoadUntil := u\<rparr>)"
  by (simp_all add: advances_def next_tick_def)

lemma adv_timers:
  "advances env d (timersDataSent p d)" "advances env d (timersDataReceived p d)" "advances env d (timersAnyAuthenticatedPacketSent p d)"
  "advances env d (timersAnyAuthenticatedPacketReceived p d)" "advances env d (timersHandshakeInitiated p d)"
  "advances env d (timersHandshakeComplete p d)" "advances env d (timersSessionDerived p d)" "advances env d (timersAnyAuthenticatedPacketTraversal p d)"
proof -
  have t: "advances env d (next_tick (upd_peer p f d))" if "timersActive p d" for f
    using that by (intro adv_trans [OF adv_peer adv_frame(1)]) (auto simp: timersActive_def)
  show "advances env d (timersDataSent p d)" "advances env d (timersHandshakeInitiated p d)"
    by (auto simp: timersDataSent_def timersHandshakeInitiated_def intro: t)
  show "advances env d (timersHandshakeComplete p d)"
    unfolding timersHandshakeComplete_def by (rule adv_trans [OF adv_if_active adv_peer]) (simp add: quiet_iff)
qed (simp_all add: timersDataReceived_def timersAnyAuthenticatedPacketSent_def timersAnyAuthenticatedPacketReceived_def timersSessionDerived_def
    timersAnyAuthenticatedPacketTraversal_def Let_def adv_if_active)

lemma adv_plain:
  "advances env d (FlushStagedPackets p d)" "advances env d (markEndpointSrcForClearing p d)" "advances env d (SetEndpointFromPacket p ep d)"
  "advances env d (snd (add_macs env p packet d))" "advances env d (count_rx p n d)"
  by (auto simp: FlushStagedPackets_def markEndpointSrcForClearing_def SetEndpointFromPacket_def add_macs_def count_rx_def quiet_iff
      split: prod.split intro!: adv_peer)

lemma quiet_send [simp]:
  "quiet (w\<lparr>wp_endpoint := e, wp_clearSrcOnTx := x\<rparr>) = quiet w" "quiet (w\<lparr>wp_txBytes := n\<rparr>) = quiet w"
  by (simp_all add: quiet_iff)

lemma adv_SendBuffers: "advances env d (snd (SendBuffers env p bufs d))"
proof -
  have a: "advances env d ((upd_peer p (\<lambda>w. w\<lparr>wp_endpoint := e, wp_clearSrcOnTx := x\<rparr>) d)\<lparr>wd_bind := b\<rparr>)" for e x b
    by (rule adv_trans [OF adv_peer adv_frame(2)]) simp
  show ?thesis
    unfolding SendBuffers_def Let_def
    by (auto split: option.split prod.split intro!: a adv_trans [OF a adv_peer])
qed

lemma adv_lastSent: "peer_ready p d \<Longrightarrow> advances env d (put_lastSent p d)"
  unfolding put_lastSent_def by (rule adv_step) (auto simp: peer_ready_def same_peers_ops intro: peer_step.handshake_sent)

lemma adv_add_macs: "add_macs env p packet d = (packet', d') \<Longrightarrow> advances env d d'"
  using adv_plain(4) [of env d p packet] by simp

lemma ent_draws: "peer_ready p d \<Longrightarrow> draws_ok (en_draws (ent d))"
  by (simp add: peer_ready_def ready_def ent_def)

lemma adv_created:
  assumes "peer_ready p d"
  shows "CreateMessageInitiation (we_noise env) k ts (en_draws (ent d)) p (wd_nd d) = Some (r, nd) \<Longrightarrow> advances env d (next_tick (put_nd nd d))"
    "CreateMessageResponse (we_noise env) k (en_draws (ent d)) p (wd_nd d) = Some (r', nd) \<Longrightarrow> advances env d (next_tick (put_nd nd d))"
  using assms ent_draws [OF assms]
  by (auto simp: peer_ready_def intro!: adv_trans [OF adv_step adv_frame(1)] dest: same_peers_create
      intro: peer_step.create_initiation peer_step.create_response)

lemma adv_session:
  assumes "peer_ready p d"
  shows "advances env d (put_nd (snd (BeginSymmetricSession (we_noise env) now p (wd_nd d))) d)"
  using assms by (auto simp: peer_ready_def same_peers_ops intro!: adv_step peer_step.new_session)

lemma adv_mark_sent: "advances env d d' \<Longrightarrow> advances env d (timersAnyAuthenticatedPacketSent p (timersAnyAuthenticatedPacketTraversal p d'))"
  by (blast intro: adv_trans [OF _ adv_trans [OF adv_timers(8) adv_timers(3)]])

lemma adv_mark_received: "advances env d d' \<Longrightarrow> advances env d (timersAnyAuthenticatedPacketReceived p (timersAnyAuthenticatedPacketTraversal p d'))"
  by (blast intro: adv_trans [OF _ adv_trans [OF adv_timers(8) adv_timers(4)]])

lemma adv_initiation: "peer_ready p d \<Longrightarrow> advances env d (SendHandshakeInitiation env isRetry p d)"
proof -
  assume r: "peer_ready p d"
  define d1 where "d1 = (if \<not> isRetry then upd_peer p (\<lambda>w. w\<lparr>wp_handshakeAttempts := 0\<rparr>) d else d)"
  define d2 where "d2 = put_lastSent p d1"
  have 1: "advances env d d1" by (auto simp: d1_def quiet_iff intro!: adv_peer)
  have 2: "advances env d d2" unfolding d2_def using adv_then [OF r 1] adv_lastSent by blast
  have r2: "peer_ready p d2" by (rule adv_peer_ready [OF 2 r])
  define c where "c = CreateMessageInitiation (we_noise env) (en_key (ent d2)) (stamp (en_now (ent d2) div second) (nat (en_now (ent d2) mod second)))
    (en_draws (ent d2)) p (wd_nd d2)"
  have "advances env d2 (timersHandshakeInitiated p (snd (SendBuffers env p [packet]
      (timersAnyAuthenticatedPacketSent p (timersAnyAuthenticatedPacketTraversal p d4)))))"
    if "c = Some (x, nd)" "add_macs env p m (next_tick (put_nd nd d2)) = (packet, d4)" for x nd m packet d4
  proof -
    have "advances env d2 (next_tick (put_nd nd d2))" using adv_created(1) [OF r2] that(1) unfolding c_def by blast
    from adv_trans [OF this adv_add_macs [OF that(2)]] show ?thesis
      by (rule adv_trans [OF adv_mark_sent adv_trans [OF adv_SendBuffers adv_timers(5)]])
  qed
  moreover have "advances env d2 (next_tick (put_nd nd d2))" if "c = Some (x, nd)" for x nd
    using adv_created(1) [OF r2] that unfolding c_def by blast
  moreover have "SendHandshakeInitiation env isRetry p d =
      (if now_of d1 - hs_lastSentHandshake (nd_handshake (wd_nd d1) p) < RekeyTimeout then d1
       else case c of
         None \<Rightarrow> d2\<lparr>wd_hung := True\<rparr>
       | Some (Err _, nd) \<Rightarrow> next_tick (put_nd nd d2)
       | Some (Ok msg, nd) \<Rightarrow>
           (case add_macs env p (marshalled (MessageInitiation_marshal msg (replicate MessageInitiationSize 0))) (next_tick (put_nd nd d2)) of
              (packet, d4) \<Rightarrow> timersHandshakeInitiated p (snd (SendBuffers env p [packet]
                 (timersAnyAuthenticatedPacketSent p (timersAnyAuthenticatedPacketTraversal p d4))))))"
    unfolding SendHandshakeInitiation_def Let_def d1_def [symmetric] d2_def [symmetric] c_def by simp
  ultimately have "SendHandshakeInitiation env isRetry p d = d1 \<or> advances env d2 (SendHandshakeInitiation env isRetry p d)"
    by (auto simp: adv_frame split: option.split prod.split sum.split)
  then show ?thesis using 1 2 adv_trans by metis
qed

lemma adv_response: "peer_ready p d \<Longrightarrow> advances env d (SendHandshakeResponse env p d)"
proof -
  assume r: "peer_ready p d"
  define d2 where "d2 = put_lastSent p d"
  have 2: "advances env d d2" unfolding d2_def using adv_lastSent [OF r] .
  have r2: "peer_ready p d2" by (rule adv_peer_ready [OF 2 r])
  define c where "c = CreateMessageResponse (we_noise env) (en_key (ent d2)) (en_draws (ent d2)) p (wd_nd d2)"
  have created: "advances env d2 (next_tick (put_nd nd d2))" if "c = Some (x, nd)" for x nd
    using adv_created(2) [OF r2] that unfolding c_def by blast
  have session: "advances env d2 (put_nd (snd (BeginSymmetricSession (we_noise env) (now_of d4) p (wd_nd d4))) d4)"
    if "c = Some (x, nd)" "add_macs env p m (next_tick (put_nd nd d2)) = (packet, d4)" for x nd m packet d4
  proof -
    have "advances env d2 d4" using created [OF that(1)] adv_add_macs [OF that(2)] adv_trans by blast
    from adv_then [OF r2 this] adv_session show ?thesis by blast
  qed
  have "advances env d2 (snd (SendBuffers env p [packet] (timersAnyAuthenticatedPacketSent p
      (timersAnyAuthenticatedPacketTraversal p (timersSessionDerived p d5)))))" if "advances env d2 d5" for packet d5
    using that by (rule adv_trans [OF adv_mark_sent [OF adv_trans [OF _ adv_timers(7)]] adv_SendBuffers])
  note sent = this
  have begun: "advances env d2 (put_nd nd' d4)"
    if "c = Some (x, nd)" "add_macs env p m (next_tick (put_nd nd d2)) = (packet, d4)"
      "BeginSymmetricSession (we_noise env) (now_of d4) p (wd_nd d4) = (err, nd')" for x nd m packet d4 err nd'
    using session [OF that(1,2)] that(3) by simp
  have "advances env d2 (SendHandshakeResponse env p d)"
    unfolding SendHandshakeResponse_def Let_def d2_def [symmetric] c_def [symmetric]
    by (cases c) (auto simp: adv_frame simp del: not_None_eq split: prod.split sum.split intro: created begun sent [OF begun])
  with 2 show ?thesis by (rule adv_trans)
qed

lemma adv_cookie: "advances env d (SendHandshakeCookie env packet ep d)"
proof -
  have a: "advances env d (next_tick (d\<lparr>wd_cookieChecker := c\<rparr>))" for c by (rule adv_trans [OF adv_frame(4,1)])
  show ?thesis
    unfolding SendHandshakeCookie_def Let_def
    by (auto split: prod.split sum.split intro: a adv_trans [OF a adv_frame(2)])
qed

text \<open>A peer that does not run has nothing staged, so a run of \<open>SendStagedPackets\<close> finds nothing to send.\<close>

lemma send_nothing: "ss_staged st = [] \<Longrightarrow> SendStagedPackets up running now created st = (False, st)"
  by (simp add: SendStagedPackets.simps)

lemma adv_nonce: "advances env d (put_nonce key n d)"
  by (auto simp: put_nonce_def same_peers_ops split: option.split intro!: adv_step peer_step.traffic)

lemma adv_staged: "peer_ready p d \<Longrightarrow> advances env d (send_staged env p d)"
proof -
  assume r: "peer_ready p d"
  define key where "key = current_keypair p d"
  define nonce where "nonce = (case key of None \<Rightarrow> 0 | Some k \<Rightarrow> kp_sendNonce (nd_kps (wd_nd d) k))"
  obtain hs st where st: "SendStagedPackets (isUp d) (isRunning p d) (now_of d) (map_option (\<lambda>k. kp_created (nd_kps (wd_nd d) k)) key)
      \<lparr>ss_staged = wp_staged (wd_peers d p), ss_nonce = nonce, ss_sent = []\<rparr> = (hs, st)" by fastforce
  define d1 where "d1 = put_nonce key (ss_nonce st) d"
  define d2 where "d2 = upd_peer p (\<lambda>w. w\<lparr>wp_staged := ss_staged st, wp_outbound := wp_outbound w @ map (\<lambda>(e, n). (e, n, the key)) (ss_sent st)\<rparr>) d1"
  have 1: "advances env d d1" unfolding d1_def by (rule adv_nonce)
  have peers: "wd_peers d1 = wd_peers d" by (simp add: d1_def put_nonce_def put_nd_def split: option.split)
  have "ss_staged st = [] \<and> ss_sent st = []" if "quiet (wd_peers d p)"
    using st that by (auto simp: send_nothing quiet_iff)
  then have "advances env d d2"
    using 1 peers unfolding d2_def advances_def by (auto simp: upd_peer_def quiet_iff)
  moreover have "send_staged env p d = (if hs then SendHandshakeInitiation env False p d2 else d2)"
    unfolding send_staged_def Let_def key_def [symmetric] nonce_def [symmetric] st d1_def [symmetric] by (simp add: d1_def d2_def)
  ultimately show ?thesis by (auto intro: adv_then [OF r _ adv_initiation])
qed

lemma adv_stage:
  assumes "peer_ready p d" "isRunning p d"
  shows "advances env d (send_staged env p (upd_peer p f d))"
  using adv_then [OF assms(1) adv_peer] adv_staged assms(2) by blast

lemma adv_keepalive: "peer_ready p d \<Longrightarrow> advances env d (SendKeepalive env p d)"
  by (auto simp: SendKeepalive_def intro: adv_staged adv_stage)

lemma adv_stage_packets: "peer_ready p d \<Longrightarrow> advances env d (stage_packets env p packets d)"
  by (auto simp: stage_packets_def intro: adv_stage)

lemma adv_fresh_sending: "peer_ready p d \<Longrightarrow> advances env d (keep_fresh_sending env p d)"
  by (auto simp: keep_fresh_sending_def intro: adv_initiation)

lemma adv_fresh_receiving: "peer_ready p d \<Longrightarrow> advances env d (keep_fresh_receiving env p d)"
  unfolding keep_fresh_receiving_def
  by (auto intro!: adv_then [OF _ adv_peer adv_initiation] simp: quiet_iff)

lemma adv_sequential_send: "peer_ready p d \<Longrightarrow> advances env d (sequential_send env n p d)"
proof -
  assume r: "peer_ready p d"
  define d1 where "d1 = upd_peer p (\<lambda>w. w\<lparr>wp_outbound := drop n (wp_outbound w)\<rparr>) d"
  define d2 where "d2 = timersAnyAuthenticatedPacketSent p (timersAnyAuthenticatedPacketTraversal p d1)"
  have 1: "advances env d d1" unfolding d1_def by (rule adv_peer) (simp add: quiet_iff)
  have 2: "advances env d d2" unfolding d2_def by (rule adv_mark_sent [OF 1])
  have 3: "advances env d d3" if "SendBuffers env p bufs d2 = (err, d3)" for bufs err d3
    using adv_trans [OF 2 adv_SendBuffers [of env d2 p bufs]] that by simp
  have 4: "advances env d (timersDataSent p d3)" if "SendBuffers env p bufs d2 = (err, d3)" for bufs err d3
    by (rule adv_trans [OF 3 [OF that] adv_timers(1)])
  show ?thesis
    unfolding sequential_send_def Let_def d1_def [symmetric] d2_def [symmetric]
    using 1 by (auto split: prod.split intro: 3 4 adv_then [OF r 3 adv_fresh_sending] adv_then [OF r 4 adv_fresh_sending])
qed

lemma adv_zero: "peer_ready p d \<Longrightarrow> advances env d (flush_all p d)"
  unfolding flush_all_def
  by (rule adv_trans [OF adv_step adv_plain(1)]) (auto simp: peer_ready_def same_peers_ops intro: peer_step.zero_keys)

lemma adv_retransmit: "peer_ready p d \<Longrightarrow> advances env d (expiredRetransmitHandshake env p d)"
proof -
  assume r: "peer_ready p d"
  have up: "advances env d (upd_peer p (\<lambda>w. w\<lparr>wp_handshakeAttempts := wp_handshakeAttempts w + 1\<rparr>) d)" by (rule adv_peer) (simp add: quiet_iff)
  show ?thesis
    unfolding expiredRetransmitHandshake_def Let_def
    by (auto intro!: adv_trans [OF adv_if_active adv_trans [OF adv_plain(1) adv_if_active]] adv_then [OF r adv_trans [OF up adv_plain(2)] adv_initiation])
qed

lemma adv_timer: "peer_ready p d \<Longrightarrow> advances env d (run_timer env t p d)"
proof -
  assume r: "peer_ready p d"
  have off: "advances env d (upd_peer p f d)" if "\<And>w. quiet w \<Longrightarrow> quiet (f w)" for f
    by (rule adv_peer) (rule that)
  have keep: "advances env d' (expiredSendKeepalive env p d')" if "peer_ready p d'" for d'
    unfolding expiredSendKeepalive_def Let_def
    by (auto intro!: adv_keepalive [OF that] adv_trans [OF adv_keepalive [OF that] adv_trans [OF adv_peer adv_if_active]] simp: quiet_iff)
  have new: "advances env d' (expiredNewHandshake env p d')" if "peer_ready p d'" for d'
    unfolding expiredNewHandshake_def by (rule adv_then [OF that adv_plain(2) adv_initiation])
  have pers: "advances env d' (expiredPersistentKeepalive env p d')" if "peer_ready p d'" for d'
    using adv_keepalive [OF that] by (simp add: expiredPersistentKeepalive_def)
  have "advances env d (timer_fires env t p d)"
    by (cases t) (auto intro!: adv_then [OF r off adv_retransmit] adv_then [OF r off keep] adv_then [OF r off new] adv_then [OF r off pers]
      adv_then [OF r off adv_zero] simp: quiet_iff expiredZeroKeyMaterial_def)
  then show ?thesis by (simp add: run_timer_def)
qed

lemma adv_underload: "advances env d (snd (IsUnderLoad queued d))"
  by (simp add: IsUnderLoad_def adv_frame)

lemma adv_consume_cookie: "advances env d (consume_cookie env packet d)"
  by (auto simp: consume_cookie_def quiet_iff split: sum.split option.split intro!: adv_peer)

lemma adv_admit: "advances env d (snd (admit env queued packet ep d))"
  using adv_underload [of env d queued]
  by (auto simp: admit_def Let_def split: prod.split intro: adv_trans [OF _ adv_cookie] adv_trans [OF _ adv_frame(5)])

lemma consumed_peer:
  assumes "ConsumeMessageInitiation lib now m dv = (Some p, dv')" "index_inv dv"
  shows "peer_step lib dv dv'" "same_peers dv dv'" "p < nd_npeers dv"
proof -
  obtain r where r: "check_initiation lib now m dv = Some r" "p = ir_peer r" "dv' = commit_initiation now m r dv"
    using assms(1) by (auto simp: ConsumeMessageInitiation_def split: option.splits)
  then obtain key where "(key, p) \<in> set (nd_keyMap dv)"
    by (auto simp: check_initiation_def open_initiation_def LookupPeer_def Let_def split: option.splits if_splits prod.splits dest!: map_of_SomeD)
  then show "p < nd_npeers dv" by (rule keyMap_peer [OF assms(2)])
  with r show "peer_step lib dv dv'" "same_peers dv dv'" by (auto simp: same_peers_ops intro: peer_step.accept_initiation)
qed

lemma table_peer:
  assumes "index_inv dv" "nd_table dv i = Some e"
  shows "\<exists>own\<in>owners dv. e = entry_of own"
  using assms by (cases "i = 0") (auto simp: index_inv_def tracks_def)

lemma responded_peer:
  assumes "ConsumeMessageResponse lib m dv = (Some p, dv')" "index_inv dv"
  shows "peer_step lib dv dv'" "same_peers dv dv'" "p < nd_npeers dv"
proof -
  obtain r where r: "check_response lib m dv = Some r" "rr_peer r = Some p" "dv' = commit_response m r dv"
    using assms(1) by (auto simp: ConsumeMessageResponse_def split: option.splits)
  then have h: "ie_handshake (IndexTable_Lookup (mr_Receiver m) dv) = Some (rr_handshake r)" "ie_peer (IndexTable_Lookup (mr_Receiver m) dv) = Some p"
    by (auto simp: check_response_def Let_def split: option.splits if_splits prod.splits)
  then obtain e where "nd_table dv (mr_Receiver m) = Some e" by (auto simp: IndexTable_Lookup_def split: option.splits)
  with table_peer [OF assms(2) this] h have p: "rr_handshake r = p" "p < nd_npeers dv"
    by (auto simp: IndexTable_Lookup_def owners_def)
  then show "p < nd_npeers dv" by simp
  with r p show "peer_step lib dv dv'" "same_peers dv dv'" by (auto simp: same_peers_ops intro: peer_step.accept_response)
qed

lemma adv_put:
  assumes "ready d" "peer_step (we_noise env) (wd_nd d) nd" "same_peers (wd_nd d) nd" "p < nd_npeers (wd_nd d)"
  shows "advances env d (put_nd nd d)" "peer_ready p (put_nd nd d)"
  using adv_step [OF assms(2,3)] adv_peer_ready [of env d "put_nd nd d" p] assms(1,4) by (auto simp: peer_ready_def)

lemma adv_handle_initiation: "ready d \<Longrightarrow> advances env d (handle_initiation env packet ep d)"
proof -
  assume r: "ready d"
  have "advances env d (SendHandshakeResponse env p (count_rx p n (SetEndpointFromPacket p ep
      (timersAnyAuthenticatedPacketReceived p (timersAnyAuthenticatedPacketTraversal p (put_nd nd d))))))"
    if "ConsumeMessageInitiation (we_noise env) (now_of d) msg (wd_nd d) = (Some p, nd)" for msg p nd n
  proof -
    note s = adv_put [OF r consumed_peer [OF that r [unfolded ready_def, THEN conjunct1]]]
    have "advances env (put_nd nd d) (count_rx p n (SetEndpointFromPacket p ep
        (timersAnyAuthenticatedPacketReceived p (timersAnyAuthenticatedPacketTraversal p (put_nd nd d)))))"
      by (rule adv_trans [OF adv_mark_received [OF adv_refl] adv_trans [OF adv_plain(3,5)]])
    from adv_trans [OF s(1) adv_then [OF s(2) this adv_response]] show ?thesis .
  qed
  moreover have "advances env d (put_nd nd d)" if "ConsumeMessageInitiation (we_noise env) (now_of d) msg (wd_nd d) = (None, nd)" for msg nd
    using that by (auto simp: ConsumeMessageInitiation_def put_nd_def split: option.splits)
  ultimately show ?thesis
    by (auto simp: handle_initiation_def Let_def split: sum.split prod.split option.split)
qed

lemma adv_handle_response: "ready d \<Longrightarrow> advances env d (handle_response env packet ep d)"
proof -
  assume r: "ready d"
  define rec where "rec p n nd = timersAnyAuthenticatedPacketReceived p (timersAnyAuthenticatedPacketTraversal p
      (count_rx p n (SetEndpointFromPacket p ep (put_nd nd d))))" for p n nd
  have begun: "advances env d (put_nd nd' (rec p n nd)) \<and> peer_ready p (put_nd nd' (rec p n nd))"
    if "ConsumeMessageResponse (we_noise env) msg (wd_nd d) = (Some p, nd)"
      "BeginSymmetricSession (we_noise env) (now_of (rec p n nd)) p (wd_nd (rec p n nd)) = (err, nd')" for msg p nd n err nd'
  proof -
    note s = adv_put [OF r responded_peer [OF that(1) r [unfolded ready_def, THEN conjunct1]]]
    have "advances env (put_nd nd d) (rec p n nd)" unfolding rec_def by (rule adv_mark_received [OF adv_trans [OF adv_plain(3,5)]])
    then have 1: "advances env d (rec p n nd)" "peer_ready p (rec p n nd)" using s adv_trans adv_peer_ready by blast+
    have "advances env (rec p n nd) (put_nd nd' (rec p n nd))" using adv_session [OF 1(2), of env "now_of (rec p n nd)"] that(2) by simp
    with 1 show ?thesis using adv_trans adv_peer_ready by blast
  qed
  have up: "advances env d (SendKeepalive env p (timersHandshakeComplete p (timersSessionDerived p d')))"
    if "advances env d d' \<and> peer_ready p d'" for p d'
    using that by (meson adv_trans [OF _ adv_then [OF _ adv_trans [OF adv_timers(7,6)] adv_keepalive]])
  have "advances env d (put_nd nd d)" if "ConsumeMessageResponse (we_noise env) msg (wd_nd d) = (None, nd)" "ready d" for msg nd
  proof (cases "check_response (we_noise env) msg (wd_nd d)")
    case None
    with that show ?thesis by (auto simp: ConsumeMessageResponse_def put_nd_def)
  next
    case (Some x)
    then have h: "ie_handshake (IndexTable_Lookup (mr_Receiver msg) (wd_nd d)) = Some (rr_handshake x)"
      by (auto simp: check_response_def Let_def split: option.splits if_splits prod.splits)
    then obtain e where "nd_table (wd_nd d) (mr_Receiver msg) = Some e" by (auto simp: IndexTable_Lookup_def split: option.splits)
    with table_peer [OF that(2) [unfolded ready_def, THEN conjunct1] this] h have "rr_handshake x < nd_npeers (wd_nd d)"
      by (auto simp: IndexTable_Lookup_def owners_def)
    with Some that(1) show ?thesis
      by (auto simp: ConsumeMessageResponse_def same_peers_ops intro!: adv_step peer_step.accept_response)
  qed
  with r begun up show ?thesis
    unfolding handle_response_def Let_def rec_def
    by (auto split: sum.split prod.split option.split)
qed

lemma adv_handshake: "ready d \<Longrightarrow> advances env d (handle_handshake env queued elem d)"
proof -
  assume r: "ready d"
  obtain ty packet ep where e: "elem = (ty, packet, ep)" using prod_cases3 by blast
  obtain ok d1 where a: "admit env queued packet ep d = (ok, d1)" by fastforce
  then have 1: "advances env d d1" using adv_admit [of env d queued packet ep] by simp
  have "advances env d (handle_initiation env packet ep d1)" "advances env d (handle_response env packet ep d1)"
    by (rule adv_trans [OF 1 adv_handle_initiation [OF adv_ready [OF 1 r]]], rule adv_trans [OF 1 adv_handle_response [OF adv_ready [OF 1 r]]])
  with 1 show ?thesis
    by (cases ok) (auto simp: handle_handshake_def e a adv_consume_cookie)
qed

lemma adv_receive_one:
  assumes "peer_ready p d"
  shows "advances env d (snd (receive_one env p elem (acc, d)))"
proof -
  obtain counter packet k ep where e: "elem = (counter, packet, k, ep)" using prod_cases4 by blast
  show ?thesis
  proof (cases packet)
    case None
    then show ?thesis by (simp add: receive_one_def e)
  next
    case (Some pk)
    obtain ok f where v: "ValidateCounter counter RejectAfterMessages (kp_replayFilter (nd_kps (wd_nd d) k)) = (ok, f)" by fastforce
    define d1 where "d1 = put_nd (use_keypair k (kp_sendNonce (nd_kps (wd_nd d) k)) f (wd_nd d)) d"
    obtain first nd where rk: "ReceivedWithKeypair p k (wd_nd d1) = (first, nd)" by fastforce
    define d2 where "d2 = put_nd nd d1"
    define d3 where "d3 = (if first then send_staged env p (timersHandshakeComplete p (SetEndpointFromPacket p ep d2)) else d2)"
    have 1: "advances env d d1" unfolding d1_def by (rule adv_step) (auto simp: same_peers_ops intro: peer_step.traffic)
    have r1: "peer_ready p d1" by (rule adv_peer_ready [OF 1 assms])
    have "advances env d1 d2"
      using adv_step [of env d1 "snd (ReceivedWithKeypair p k (wd_nd d1))"] peer_step.confirm_session [of p "wd_nd d1" "we_noise env" k] r1
        same_peers_ops(3) [of "wd_nd d1" p k] by (auto simp: d2_def rk peer_ready_def)
    then have 2: "advances env d d2" "peer_ready p d2" by (rule adv_trans [OF 1], rule adv_peer_ready [OF _ r1])
    have "advances env d d3"
      using 2(1) adv_trans [OF 2(1) adv_then [OF 2(2) adv_trans [OF adv_plain(3) adv_timers(6)] adv_staged]] by (simp add: d3_def)
    with 1 show ?thesis
      unfolding d3_def by (auto simp: receive_one_def e Some v d1_def [symmetric] rk d2_def [symmetric] Let_def split: option.split)
  qed
qed

lemma adv_receive_fold: "peer_ready p d \<Longrightarrow> advances env d (snd (fold (receive_one env p) elems (acc, d)))"
proof (induction elems arbitrary: acc d)
  case (Cons e es)
  obtain acc' d' where o: "receive_one env p e (acc, d) = (acc', d')" by fastforce
  have "advances env d d'" using adv_receive_one [OF Cons.prems, of env e acc] o by simp
  from adv_then [OF Cons.prems this Cons.IH] show ?case by (simp add: o)
qed simp

lemma adv_receive: "peer_ready p d \<Longrightarrow> advances env d (snd (sequential_receive env p elems d))"
proof -
  assume r: "peer_ready p d"
  obtain acc d1 where f: "fold (receive_one env p) elems (\<lparr>ra_bufs = [], ra_bytes = 0, ra_tail = None, ra_data = False\<rparr>, d) = (acc, d1)" by fastforce
  have 1: "advances env d d1" using adv_receive_fold [OF r] f by (metis snd_conv)
  define d2 where "d2 = count_rx p (ra_bytes acc) d1"
  have 2: "advances env d d2" unfolding d2_def by (rule adv_trans [OF 1 adv_plain(5)])
  define d3 where "d3 = (case ra_tail acc of None \<Rightarrow> d2 | Some ep \<Rightarrow> timersAnyAuthenticatedPacketReceived p
      (timersAnyAuthenticatedPacketTraversal p (keep_fresh_receiving env p (SetEndpointFromPacket p ep d2))))"
  have "advances env d2 (timersAnyAuthenticatedPacketReceived p
      (timersAnyAuthenticatedPacketTraversal p (keep_fresh_receiving env p (SetEndpointFromPacket p ep d2))))" for ep
    by (rule adv_mark_received [OF adv_then [OF adv_peer_ready [OF 2 r] adv_plain(3) adv_fresh_receiving]])
  then have 3: "advances env d d3" using 2 adv_trans [OF 2] by (auto simp: d3_def split: option.split)
  show ?thesis
    using 3 adv_trans [OF 3 adv_timers(2)] unfolding d3_def d2_def by (simp add: sequential_receive_def Let_def f)
qed

subsection \<open>What the operations of the device keep\<close>

definition moves :: "('b, 'ep) wg_env \<Rightarrow> ('b, 'ep) wdev \<Rightarrow> ('b, 'ep) wdev \<Rightarrow> bool" where
  "moves env d d' \<longleftrightarrow> (device_step (we_noise env))\<^sup>*\<^sup>* (wd_nd d) (wd_nd d') \<and> wd_ent d' = wd_ent d"

definition kept :: "('b, 'ep) wdev \<Rightarrow> bool" where
  "kept d \<longleftrightarrow> distinct (map fst (nd_keyMap (wd_nd d))) \<and> (\<forall>p. isRunning p d \<longrightarrow> p \<in> snd ` set (nd_keyMap (wd_nd d))) \<and>
     (\<forall>p. \<not> isRunning p d \<longrightarrow> quiet (wd_peers d p)) \<and> (nd_closed (wd_nd d) \<longleftrightarrow> isClosed d)"

definition life :: "('b, 'ep) wdev \<Rightarrow> bool" where
  "life d \<longleftrightarrow> kept d \<and> (\<forall>p. isRunning p d \<longrightarrow> isUp d) \<and> (isClosed d \<longrightarrow> nd_keyMap (wd_nd d) = [])"

lemma moves_refl [simp]: "moves env d d"
  by (simp add: moves_def)

lemma moves_trans: "moves env a b \<Longrightarrow> moves env b c \<Longrightarrow> moves env a c"
  by (auto simp: moves_def)

lemma moves_same: "wd_nd d' = wd_nd d \<Longrightarrow> wd_ent d' = wd_ent d \<Longrightarrow> moves env d d'"
  by (simp add: moves_def)

lemma moves_step: "device_step (we_noise env) (wd_nd d) (wd_nd d') \<Longrightarrow> wd_ent d' = wd_ent d \<Longrightarrow> moves env d d'"
  by (auto simp: moves_def)

lemma device_steps_inv: "(device_step lib)\<^sup>*\<^sup>* a b \<Longrightarrow> index_inv a \<Longrightarrow> index_inv b"
  by (induction rule: rtranclp_induct) (auto intro: device_step_inv)

lemma moves_ready: "moves env d d' \<Longrightarrow> ready d \<Longrightarrow> ready d'"
  by (auto simp: moves_def ready_def intro: device_steps_inv)

lemma adv_moves: "advances env d d' \<Longrightarrow> moves env d d'"
  by (auto simp: advances_def moves_def intro: peer_steps_device)

lemma adv_life: "advances env d d' \<Longrightarrow> life d \<Longrightarrow> life d'"
  by (auto simp: advances_def life_def kept_def same_peers_def isRunning_def isUp_def isClosed_def)

lemma life_put: "same_peers (wd_nd d) nd \<Longrightarrow> life d \<Longrightarrow> life (put_nd nd d)"
  by (auto simp: life_def kept_def same_peers_def isRunning_def isUp_def isClosed_def put_nd_def)

lemma kept_frame:
  assumes "wd_nd d' = wd_nd d" "wd_peers d' = wd_peers d" "wd_state d' = wd_state d"
  shows "kept d' = kept d" "life d' = life d"
  using assms by (simp_all add: kept_def life_def isRunning_def isUp_def isClosed_def)

text \<open>Stopping and removing peers.\<close>

lemma Peer_Stop_frame:
  "nd_closed (Peer_Stop p dv) = nd_closed dv" "np_isRunning (nd_peers (Peer_Stop p dv) q) = (np_isRunning (nd_peers dv q) \<and> q \<noteq> p)"
  by (auto simp: Peer_Stop_def ZeroAndFlushAll_def put_running_def Let_def)

lemma stop_nd: "wd_nd (stop_peer p d) = Peer_Stop p (wd_nd d)"
  by (simp add: stop_peer_def put_nd_def upd_peer_def isRunning_def Peer_Stop_def)

lemma stop_simps [simp]:
  "wd_nd (stop_peer p d) = Peer_Stop p (wd_nd d)" "wd_ent (stop_peer p d) = wd_ent d" "wd_state (stop_peer p d) = wd_state d"
  "isRunning q (stop_peer p d) \<longleftrightarrow> isRunning q d \<and> q \<noteq> p" "now_of (stop_peer p d) = now_of d"
  by (simp_all add: stop_nd isRunning_def Peer_Stop_frame) (simp_all add: stop_peer_def put_nd_def upd_peer_def now_of_def ent_def)

lemma quiet_stopped: "quiet ((timersStop w)\<lparr>wp_outbound := [], wp_staged := []\<rparr>)"
  by (simp add: quiet_iff timersStop_def)

lemma stop_kept: "kept d \<Longrightarrow> kept (stop_peer p d)"
proof -
  assume k: "kept d"
  then have "quiet (wd_peers d q)" if "\<not> isRunning q d" for q using that by (simp add: kept_def)
  then have "quiet (wd_peers (stop_peer p d) q)" if "\<not> (isRunning q d \<and> q \<noteq> p)" for q
    using that by (cases "q = p") (simp_all add: stop_peer_def upd_peer_def put_nd_def quiet_stopped)
  with k show ?thesis unfolding kept_def by (simp add: isClosed_def Peer_Stop_frame)
qed

lemma remove_simps [simp]:
  "wd_nd (remove_peer_locked p key d) = removePeerLocked p key (wd_nd d)" "wd_ent (remove_peer_locked p key d) = wd_ent d"
  "wd_state (remove_peer_locked p key d) = wd_state d" "now_of (remove_peer_locked p key d) = now_of d"
proof -
  have a: "now_of (d\<lparr>wd_allowedips := a\<rparr>) = now_of d" for d :: "('a, 'b) wdev" and a by (simp add: now_of_def ent_def)
  have "now_of (remove_from_map key d) = now_of d" for d :: "('a, 'b) wdev" by (simp add: remove_from_map_def put_nd_def now_of_def ent_def)
  then show "now_of (remove_peer_locked p key d) = now_of d" by (simp add: remove_peer_locked_def a)
qed (simp_all add: remove_peer_locked_def remove_from_map_def put_nd_def removePeerLocked_def)

lemma remove_kept:
  assumes "kept d" "\<And>q. (key, q) \<in> set (nd_keyMap (wd_nd d)) \<Longrightarrow> q = p"
  shows "kept (remove_peer_locked p key d)"
proof -
  let ?d = "stop_peer p (d\<lparr>wd_allowedips := AllowedIPs_RemoveByPeer p (wd_allowedips d)\<rparr>)"
  have k: "kept ?d" using assms(1) kept_frame(1) [of "d\<lparr>wd_allowedips := AllowedIPs_RemoveByPeer p (wd_allowedips d)\<rparr>" d]
    by (intro stop_kept) simp
  have "q \<in> snd ` set (filter (\<lambda>(k, _). k \<noteq> key) (nd_keyMap (wd_nd d)))" if "isRunning q ?d" for q
  proof -
    have "isRunning q (d\<lparr>wd_allowedips := AllowedIPs_RemoveByPeer p (wd_allowedips d)\<rparr>)" "q \<noteq> p" using that by simp_all
    then have "isRunning q d" by (simp add: isRunning_def)
    then obtain key' where "(key', q) \<in> set (nd_keyMap (wd_nd d))" using assms(1) by (auto simp: kept_def)
    with assms(2) \<open>q \<noteq> p\<close> show ?thesis by force
  qed
  moreover have "nd_keyMap (wd_nd ?d) = nd_keyMap (wd_nd d)" by simp
  moreover have "isRunning q (remove_from_map key ?d) = isRunning q ?d" for q by (simp add: remove_from_map_def put_nd_def isRunning_def)
  ultimately show ?thesis using k unfolding kept_def remove_peer_locked_def
    by (simp add: remove_from_map_def put_nd_def isClosed_def distinct_map_filter)
qed

lemma kept_unique: "kept d \<Longrightarrow> (key, p) \<in> set (nd_keyMap (wd_nd d)) \<Longrightarrow> (key, q) \<in> set (nd_keyMap (wd_nd d)) \<Longrightarrow> q = p"
  by (auto simp: kept_def dest: eq_key_imp_eq_value)

lemma life_kept: "life d \<Longrightarrow> kept d"
  by (simp add: life_def)

lemma running_removed: "isRunning q (remove_peer_locked p key d) \<longleftrightarrow> isRunning q d \<and> q \<noteq> p"
  by (simp add: isRunning_def removePeerLocked_def Peer_Stop_frame)

lemma keyMap_removed: "nd_keyMap (removePeerLocked p key dv) = filter (\<lambda>(k, _). k \<noteq> key) (nd_keyMap dv)"
  by (simp add: removePeerLocked_def)

lemma life_remove:
  assumes "life d" "\<And>q. (key, q) \<in> set (nd_keyMap (wd_nd d)) \<Longrightarrow> q = p"
  shows "life (remove_peer_locked p key d)"
  using remove_kept [OF life_kept [OF assms(1)] assms(2)] assms(1)
  by (auto simp: life_def running_removed keyMap_removed isUp_def isClosed_def)

lemma remove_peer_ok: "life d \<Longrightarrow> life (remove_peer key d) \<and> moves env d (remove_peer key d)"
proof (cases "LookupPeer key (wd_nd d)")
  case None
  then show "life d \<Longrightarrow> ?thesis" by (simp add: remove_peer_def)
next
  case (Some p)
  assume l: "life d"
  have "(key, p) \<in> set (nd_keyMap (wd_nd d))" using Some by (auto simp: LookupPeer_def dest: map_of_SomeD)
  then have "life (remove_peer_locked p key d)" using kept_unique [OF life_kept [OF l]] by (intro life_remove [OF l])
  moreover have "moves env d (remove_peer_locked p key d)"
    using device_step.remove_peer [of "we_noise env" "wd_nd d" key] Some by (intro moves_step) (simp_all add: RemovePeer_def LookupPeer_def)
  ultimately show ?thesis by (simp add: remove_peer_def Some)
qed

text \<open>Removing the peers of a list that the map of peers agrees with, some of them or all.\<close>

definition agree :: "(byte list \<times> nat) list \<Rightarrow> ('b, 'ep) wdev \<Rightarrow> bool" where
  "agree xs d \<longleftrightarrow> (\<forall>key p q. (key, p) \<in> set xs \<longrightarrow> (key, q) \<in> set (nd_keyMap (wd_nd d)) \<longrightarrow> q = p)"

definition remove_if :: "(('b, 'ep) wdev \<Rightarrow> nat \<Rightarrow> bool) \<Rightarrow> byte list \<times> nat \<Rightarrow> ('b, 'ep) wdev \<Rightarrow> ('b, 'ep) wdev" where
  "remove_if P x d = (if P d (snd x) then remove_peer_locked (snd x) (fst x) d else d)"

lemma remove_if_step:
  assumes "kept d" "agree (x # xs) d"
  shows "kept (remove_if P x d)" "agree xs (remove_if P x d)"
    "wd_ent (remove_if P x d) = wd_ent d" "wd_state (remove_if P x d) = wd_state d" "now_of (remove_if P x d) = now_of d"
    "set (nd_keyMap (wd_nd (remove_if P x d))) \<subseteq> set (nd_keyMap (wd_nd d))" "isRunning q (remove_if P x d) \<Longrightarrow> isRunning q d"
proof -
  have "\<And>q. (fst x, q) \<in> set (nd_keyMap (wd_nd d)) \<Longrightarrow> q = snd x" using assms(2) by (cases x) (simp add: agree_def)
  then show "kept (remove_if P x d)" using assms(1) by (simp add: remove_if_def remove_kept)
  show sub: "set (nd_keyMap (wd_nd (remove_if P x d))) \<subseteq> set (nd_keyMap (wd_nd d))" by (auto simp: remove_if_def keyMap_removed)
  then show "agree xs (remove_if P x d)" using assms(2) unfolding agree_def by (meson list.set_intros(2) subsetD)
qed (simp_all add: remove_if_def running_removed split: if_splits)

lemma fold_remove:
  assumes "kept d" "agree xs d"
  shows "kept (fold (remove_if P) xs d) \<and> wd_ent (fold (remove_if P) xs d) = wd_ent d \<and> wd_state (fold (remove_if P) xs d) = wd_state d \<and>
    now_of (fold (remove_if P) xs d) = now_of d \<and> set (nd_keyMap (wd_nd (fold (remove_if P) xs d))) \<subseteq> set (nd_keyMap (wd_nd d)) \<and>
    (\<forall>q. isRunning q (fold (remove_if P) xs d) \<longrightarrow> isRunning q d)"
  using assms
proof (induction xs arbitrary: d)
  case (Cons x xs)
  note st = remove_if_step [OF Cons.prems, where P = P]
  from Cons.IH [OF st(1,2)] st(3-7) show ?case by (simp add: subset_trans) (meson subset_trans st(6,7))
qed simp

lemma remove_if_eq: "(\<lambda>(key, p). remove_peer_locked p key) = remove_if (\<lambda>_ _. True)"
  "(\<lambda>(key, p) d. if Q d p then remove_peer_locked p key d else d) = remove_if Q"
  by (auto simp: remove_if_def fun_eq_iff)

lemma kept_agree: "kept d \<Longrightarrow> agree (nd_keyMap (wd_nd d)) d"
  unfolding agree_def using kept_unique by blast

lemma remove_all_nd: "wd_nd (remove_all_peers d) = RemoveAllPeers (wd_nd d)"
proof -
  have "wd_nd (fold (\<lambda>(key, p). remove_peer_locked p key) xs d) = fold (\<lambda>(key, p). removePeerLocked p key) xs (wd_nd d)" for xs and d :: "('a, 'b) wdev"
    by (induction xs arbitrary: d) auto
  then show ?thesis by (simp add: remove_all_peers_def RemoveAllPeers_def put_nd_def Let_def)
qed

lemma not_running_removed: "\<not> isRunning q d \<Longrightarrow> \<not> isRunning q (fold (\<lambda>(key, p). remove_peer_locked p key) xs d)"
proof (induction xs arbitrary: d)
  case (Cons x xs)
  obtain key p where x: "x = (key, p)" by fastforce
  have "\<not> isRunning q (remove_peer_locked p key d)" using Cons.prems by (simp add: running_removed)
  from Cons.IH [OF this] show ?case by (simp add: x)
qed simp

lemma fold_removed: "(key, q) \<in> set xs \<Longrightarrow> \<not> isRunning q (fold (\<lambda>(key, p). remove_peer_locked p key) xs d)"
proof (induction xs arbitrary: d)
  case (Cons x xs)
  show ?case
  proof (cases "x = (key, q)")
    case True
    have "\<not> isRunning q (remove_peer_locked q key d)" by (simp add: running_removed)
    from not_running_removed [OF this] show ?thesis by (simp add: True)
  next
    case False
    then show ?thesis using Cons by simp
  qed
qed simp

text \<open>After all peers are removed none runs, whatever the state of the device.\<close>

lemma remove_all_ok:
  assumes "kept d"
  shows "life (remove_all_peers d) \<and> moves env d (remove_all_peers d)"
proof -
  let ?f = "fold (\<lambda>(key, p). remove_peer_locked p key) (nd_keyMap (wd_nd d)) d"
  have k: "kept ?f \<and> wd_ent ?f = wd_ent d \<and> wd_state ?f = wd_state d \<and> (\<forall>q. isRunning q ?f \<longrightarrow> isRunning q d)"
    unfolding remove_if_eq using fold_remove [OF assms kept_agree [OF assms]] by blast
  have off: "\<not> isRunning q ?f" for q
  proof (cases "isRunning q d")
    case True
    then obtain key where "(key, q) \<in> set (nd_keyMap (wd_nd d))" using assms unfolding kept_def by auto
    then show ?thesis by (rule fold_removed)
  next
    case False
    then show ?thesis by (rule not_running_removed)
  qed
  have run: "isRunning q (remove_all_peers d) = isRunning q ?f" for q by (simp add: remove_all_peers_def put_nd_def isRunning_def Let_def)
  have "kept (remove_all_peers d)"
    using k off run unfolding kept_def by (simp add: remove_all_peers_def put_nd_def isClosed_def Let_def)
  then have "life (remove_all_peers d)" using off run by (simp add: life_def remove_all_nd RemoveAllPeers_def)
  moreover have "moves env d (remove_all_peers d)"
  proof (rule moves_step)
    show "device_step (we_noise env) (wd_nd d) (wd_nd (remove_all_peers d))" unfolding remove_all_nd by (rule device_step.remove_all)
    show "wd_ent (remove_all_peers d) = wd_ent d" using k by (simp add: remove_all_peers_def put_nd_def Let_def)
  qed
  ultimately show ?thesis by blast
qed

text \<open>The private key.\<close>

lemma put_nd_simps [simp]:
  "wd_nd (put_nd nd d) = nd" "now_of (put_nd nd d) = now_of d" "wd_ent (put_nd nd d) = wd_ent d" "wd_state (put_nd nd d) = wd_state d"
  by (simp_all add: put_nd_def now_of_def ent_def)

definition each_nd :: "(int \<Rightarrow> nat \<Rightarrow> NDevice \<Rightarrow> NDevice) \<Rightarrow> (byte list \<times> nat) list \<Rightarrow> ('b, 'ep) wdev \<Rightarrow> ('b, 'ep) wdev" where
  "each_nd g xs d = fold (\<lambda>(key, p) d. put_nd (g (now_of d) p (wd_nd d)) d) xs d"

lemma each_nd_frame: "wd_nd (each_nd g xs d) = fold (\<lambda>(key, p). g (now_of d) p) xs (wd_nd d) \<and> wd_ent (each_nd g xs d) = wd_ent d \<and> now_of (each_nd g xs d) = now_of d"
proof (induction xs arbitrary: d)
  case (Cons x xs)
  obtain key p where x: "x = (key, p)" by fastforce
  from Cons.IH [of "put_nd (g (now_of d) p (wd_nd d)) d"] show ?case by (simp add: each_nd_def x)
qed (simp add: each_nd_def)

lemma each_nd_life: "(\<And>t p nd. same_peers nd (g t p nd)) \<Longrightarrow> life d \<Longrightarrow> life (each_nd g xs d)"
proof (induction xs arbitrary: d)
  case (Cons x xs)
  obtain key p where x: "x = (key, p)" by fastforce
  have "life (put_nd (g (now_of d) p (wd_nd d)) d)" using Cons.prems by (intro life_put)
  from Cons.IH [OF Cons.prems(1) this] show ?case by (simp add: each_nd_def x)
qed (simp add: each_nd_def)

lemma remove_if_nd:
  "wd_nd (fold (remove_if (\<lambda>d p. Q (wd_nd d) p)) xs d) = fold (\<lambda>(key, p) dv. if Q dv p then removePeerLocked p key dv else dv) xs (wd_nd d)"
proof (induction xs arbitrary: d)
  case (Cons x xs)
  obtain key p where x: "x = (key, p)" by fastforce
  from Cons.IH [of "remove_if (\<lambda>d p. Q (wd_nd d) p) x d"] show ?case by (simp add: remove_if_def x)
qed simp

lemma set_key_ok:
  assumes "life d"
  shows "life (set_private_key env sk d) \<and> moves env d (set_private_key env sk d)"
proof (cases "sk = nd_privateKey (wd_nd d)")
  case True
  then show ?thesis using assms by (simp add: set_private_key_def)
next
  case False
  let ?lib = "we_noise env" and ?pk = "publicKey (we_noise env) sk"
  let ?Q = "\<lambda>dv p. hs_remoteStatic (nd_handshake dv p) = ?pk"
  define d1 where "d1 = fold (remove_if (\<lambda>d p. ?Q (wd_nd d) p)) (nd_keyMap (wd_nd d)) d"
  define d2 where "d2 = (put_nd ((wd_nd d1)\<lparr>nd_privateKey := sk, nd_publicKey := ?pk\<rparr>) d1)
    \<lparr>wd_cookieChecker := CookieChecker_Init (we_cookie env) ?pk (wd_cookieChecker (put_nd ((wd_nd d1)\<lparr>nd_privateKey := sk, nd_publicKey := ?pk\<rparr>) d1))\<rparr>"
  let ?g = "\<lambda>_ p dv. put_handshake p ((nd_handshake dv p)\<lparr>hs_precomputedStaticStatic := fst (sharedSecret ?lib sk (hs_remoteStatic (nd_handshake dv p)))\<rparr>) dv"
  define d3 where "d3 = each_nd ?g (nd_keyMap (wd_nd d2)) d2"
  have eq: "set_private_key env sk d = each_nd ExpireCurrentKeypairs (nd_keyMap (wd_nd d3)) d3"
    using False unfolding set_private_key_def Let_def d3_def d2_def d1_def each_nd_def remove_if_eq by simp
  note r = fold_remove [OF life_kept [OF assms] kept_agree [OF life_kept [OF assms]], of "\<lambda>d p. ?Q (wd_nd d) p", folded d1_def]
  have "life d1" using r assms unfolding life_def by (auto simp: isUp_def isClosed_def)
  then have "life d2" using kept_frame(2) [of d2 "put_nd (wd_nd d2) d1"] life_put [of d1 "wd_nd d2"]
    by (simp add: d2_def same_peers_def put_nd_def)
  then have "life d3" unfolding d3_def by (intro each_nd_life) (simp_all add: same_peers_ops)
  then have "life (set_private_key env sk d)" unfolding eq by (intro each_nd_life) (simp_all add: same_peers_ops)
  moreover have "wd_nd (set_private_key env sk d) = SetPrivateKey ?lib (now_of d) sk (wd_nd d) \<and> wd_ent (set_private_key env sk d) = wd_ent d"
  proof -
    have n2: "now_of d2 = now_of d" "wd_ent d2 = wd_ent d" "wd_nd d2 = (wd_nd d1)\<lparr>nd_privateKey := sk, nd_publicKey := ?pk\<rparr>"
      using r by (auto simp: d2_def now_of_def ent_def put_nd_def)
    have n3: "now_of d3 = now_of d" "wd_ent d3 = wd_ent d" using each_nd_frame [of ?g "nd_keyMap (wd_nd d2)" d2] n2 by (simp_all add: d3_def)
    have w1: "wd_nd d1 = fold (\<lambda>(key, p) dv. if ?Q dv p then removePeerLocked p key dv else dv) (nd_keyMap (wd_nd d)) (wd_nd d)"
      unfolding d1_def by (rule remove_if_nd)
    have w3: "wd_nd d3 = fold (\<lambda>(key, p). ?g (now_of d) p) (nd_keyMap (wd_nd d2)) (wd_nd d2)"
      unfolding d3_def using each_nd_frame [of ?g "nd_keyMap (wd_nd d2)" d2] by simp
    have w4: "wd_nd (set_private_key env sk d) = fold (\<lambda>(key, p). ExpireCurrentKeypairs (now_of d) p) (nd_keyMap (wd_nd d3)) (wd_nd d3)"
      "wd_ent (set_private_key env sk d) = wd_ent d"
      unfolding eq using each_nd_frame [of ExpireCurrentKeypairs "nd_keyMap (wd_nd d3)" d3] n3 by simp_all
    show ?thesis using False w4(2) unfolding w4(1) w3 n2(3) w1 by (simp add: SetPrivateKey_def Let_def)
  qed
  ultimately show ?thesis using device_step.set_key [of ?lib "wd_nd d" "now_of d" sk] by (auto intro!: moves_step)
qed

text \<open>New peers and starting them.\<close>

lemma quiet_new: "quiet (new_wpeer env pk)"
  by (simp add: quiet_iff new_wpeer_def)

lemma new_peer_ok:
  assumes "life d"
  shows "life (snd (new_peer env pk d)) \<and> moves env d (snd (new_peer env pk d))"
proof (cases "NewPeer (we_noise env) pk (wd_nd d)")
  case (Pair r nd)
  show ?thesis
  proof (cases r)
    case (Inl e)
    then show ?thesis using assms Pair by (simp add: new_peer_def)
  next
    case (Inr p)
    have nd: "device_step (we_noise env) (wd_nd d) nd" using device_step.new_peer [of "we_noise env" "wd_nd d" pk] Pair by simp
    have f: "nd_keyMap nd = (pk, p) # nd_keyMap (wd_nd d)" "nd_closed nd = nd_closed (wd_nd d)" "map_of (nd_keyMap (wd_nd d)) pk = None"
      "np_isRunning (nd_peers nd q) = (np_isRunning (nd_peers (wd_nd d) q) \<and> q \<noteq> p)" "\<not> nd_closed (wd_nd d)" for q
      using Pair Inr by (auto simp: NewPeer_def Let_def split: if_splits)
    let ?d = "upd_peer p (\<lambda>_. new_wpeer env pk) (put_nd nd d)"
    have d: "snd (new_peer env pk d) = ?d" using Pair Inr by (simp add: new_peer_def)
    have run: "isRunning q ?d \<longleftrightarrow> isRunning q d \<and> q \<noteq> p" for q using f(4) by (simp add: isRunning_def upd_peer_def put_nd_def)
    have w: "wd_peers ?d q = (if q = p then new_wpeer env pk else wd_peers d q)" "wd_nd ?d = nd" "wd_state ?d = wd_state d" "wd_ent ?d = wd_ent d" for q
      by (simp_all add: upd_peer_def put_nd_def)
    have "pk \<notin> fst ` set (nd_keyMap (wd_nd d))" using f(3) by (simp add: map_of_eq_None_iff)
    then have "kept ?d"
      using life_kept [OF assms] f(1,2) unfolding kept_def run w isClosed_def by (auto simp: quiet_new)
    moreover have "\<not> isClosed ?d" using life_kept [OF assms] f(5) unfolding kept_def by (simp add: isClosed_def w)
    ultimately have "life ?d" using assms run unfolding life_def by (auto simp: isUp_def w)
    then show ?thesis unfolding d using moves_step [of env d ?d] nd w by simp
  qed
qed

lemma start_frame [simp]: "nd_keyMap (wd_nd (start_peer p d)) = nd_keyMap (wd_nd d)" "wd_state (start_peer p d) = wd_state d"
  by (simp_all add: start_peer_def upd_peer_def Peer_Start_def put_running_def)

lemma start_ok:
  assumes "life d" "isUp d" "p \<in> snd ` set (nd_keyMap (wd_nd d))" "p < nd_npeers (wd_nd d)"
  shows "life (start_peer p d) \<and> moves env d (start_peer p d)"
proof (cases "isRunning p d")
  case True
  then show ?thesis using assms by (simp add: start_peer_def)
next
  case False
  let ?nd = "Peer_Start (now_of d) p (wd_nd d)"
  have closed: "\<not> isClosed d" "\<not> nd_closed (wd_nd d)" using assms(1,2) by (auto simp: life_def kept_def isUp_def isClosed_def)
  have d: "start_peer p d = upd_peer p (\<lambda>w. (timersStart w)\<lparr>wp_outbound := []\<rparr>) (put_nd ?nd d)" using False closed by (simp add: start_peer_def)
  have run: "isRunning q (start_peer p d) \<longleftrightarrow> isRunning q d \<or> q = p" for q
    using False closed by (auto simp: d isRunning_def upd_peer_def Peer_Start_def put_running_def)
  have w: "wd_peers (start_peer p d) q = wd_peers d q" if "q \<noteq> p" for q using that by (simp add: d upd_peer_def put_nd_def)
  have f: "wd_nd (start_peer p d) = ?nd" "wd_ent (start_peer p d) = wd_ent d" "nd_closed ?nd = nd_closed (wd_nd d)" "nd_keyMap ?nd = nd_keyMap (wd_nd d)"
    by (simp_all add: d upd_peer_def Peer_Start_def put_running_def)
  have "kept (start_peer p d)"
    using life_kept [OF assms(1)] assms(3) w unfolding kept_def run f(1) by (auto simp: f isClosed_def)
  then have "life (start_peer p d)" using assms(1,2) closed unfolding life_def f(1) by (simp add: isUp_def isClosed_def)
  moreover have "moves env d (start_peer p d)"
    using assms(4) f by (auto intro!: moves_step device_step.peer peer_step.start_peer)
  ultimately show ?thesis by blast
qed

lemma each_peer_ok:
  assumes "ready d" "life d" "isUp d"
    and "\<And>p d. ready d \<Longrightarrow> life d \<Longrightarrow> isUp d \<Longrightarrow> p \<in> snd ` set (nd_keyMap (wd_nd d)) \<Longrightarrow> p < nd_npeers (wd_nd d) \<Longrightarrow>
      life (f p d) \<and> moves env d (f p d) \<and> wd_state (f p d) = wd_state d \<and> nd_keyMap (wd_nd (f p d)) = nd_keyMap (wd_nd d)"
  shows "life (each_peer f d) \<and> moves env d (each_peer f d)"
proof -
  have "life (fold f ps d) \<and> moves env d (fold f ps d)" if "set ps \<subseteq> snd ` set (nd_keyMap (wd_nd d))" for ps
    using assms(1-3) that
  proof (induction ps arbitrary: d)
    case (Cons p ps)
    then have p: "p \<in> snd ` set (nd_keyMap (wd_nd d))" by simp
    then have "p < nd_npeers (wd_nd d)" using Cons.prems(1) by (auto simp: ready_def intro: keyMap_peer)
    note f = assms(4) [OF Cons.prems(1-3) p this]
    have "ready (f p d)" using f Cons.prems(1) by (blast intro: moves_ready)
    moreover have "isUp (f p d)" using f Cons.prems(3) by (simp add: isUp_def)
    ultimately have "life (fold f ps (f p d)) \<and> moves env (f p d) (fold f ps (f p d))" using f Cons.prems(4) by (intro Cons.IH) simp_all
    with f show ?case using moves_trans [of env d "f p d"] by simp
  qed simp
  then show ?thesis by (simp add: each_peer_def)
qed

text \<open>Sockets: they touch neither the sessions nor the peers, but for the flag that clears a source address.\<close>

definition idle :: "('b, 'ep) wdev \<Rightarrow> ('b, 'ep) wdev \<Rightarrow> bool" where
  "idle d d' \<longleftrightarrow> wd_nd d' = wd_nd d \<and> wd_ent d' = wd_ent d \<and> wd_state d' = wd_state d \<and> (\<forall>p. quiet (wd_peers d p) \<longrightarrow> quiet (wd_peers d' p))"

lemma idle_refl [simp]: "idle d d"
  by (simp add: idle_def)

lemma idle_trans: "idle a b \<Longrightarrow> idle b c \<Longrightarrow> idle a c"
  by (auto simp: idle_def)

lemma idle_upd:
  "idle d (d\<lparr>wd_bind := b\<rparr>)" "idle d (d\<lparr>wd_bind := b, wd_port := q\<rparr>)" "idle d (d\<lparr>wd_fwmark := m\<rparr>)" "idle d (d\<lparr>wd_port := q\<rparr>)"
  by (simp_all add: idle_def)

lemma idle_kept: "idle d d' \<Longrightarrow> kept d \<Longrightarrow> kept d'" "idle d d' \<Longrightarrow> life d \<Longrightarrow> life d'" "idle d d' \<Longrightarrow> moves env d d'"
  by (auto simp: idle_def kept_def life_def isRunning_def isUp_def isClosed_def intro: moves_same)

lemma idle_clear: "idle d (each_peer markEndpointSrcForClearing d)"
proof -
  have "idle d (fold markEndpointSrcForClearing ps d)" for ps
  proof (induction ps arbitrary: d)
    case (Cons p ps)
    have "idle d (markEndpointSrcForClearing p d)" by (auto simp: idle_def markEndpointSrcForClearing_def upd_peer_def quiet_iff)
    with Cons.IH show ?case by (metis fold_simps(2) idle_trans)
  qed simp
  then show ?thesis by (simp add: each_peer_def)
qed

lemma idle_close: "idle d (snd (closeBindLocked env d))"
  by (simp add: closeBindLocked_def idle_upd split: prod.split)

lemma idle_BindUpdate: "idle d (snd (BindUpdate env d))"
proof -
  obtain err d1 where c: "closeBindLocked env d = (err, d1)" by fastforce
  have 1: "idle d d1" using idle_close [of d env] c by simp
  have "idle d1 (d1\<lparr>wd_bind := b, wd_port := q, wd_bind := b'\<rparr>)" "idle d1 (d1\<lparr>wd_bind := b, wd_port := q, wd_bind := b', wd_port := q'\<rparr>)"
    "idle d1 (each_peer markEndpointSrcForClearing (d1\<lparr>wd_bind := b, wd_port := q, wd_bind := b'\<rparr>))" for b q b' q'
    by (simp_all add: idle_def) (use idle_clear [of "d1\<lparr>wd_bind := b, wd_port := q, wd_bind := b'\<rparr>"] in \<open>auto simp: idle_def\<close>)
  then have "idle d1 (snd (BindUpdate env d))"
    unfolding BindUpdate_def c by (auto simp: Let_def idle_upd split: option.split prod.split sum.split)
  with 1 show ?thesis by (rule idle_trans)
qed

lemma idle_SetMark: "idle d (snd (BindSetMark env mark d))"
proof -
  have "idle d (d\<lparr>wd_fwmark := mark, wd_bind := b\<rparr>)" for b by (simp add: idle_def)
  note a = this idle_trans [OF this idle_clear] idle_trans [OF idle_upd(3) idle_clear]
  show ?thesis unfolding BindSetMark_def by (auto simp: Let_def a split: prod.split)
qed

subsection \<open>Up, down, closed\<close>

lemma stop_all:
  assumes "kept d" "ready d"
  shows "kept (each_peer stop_peer d)" "moves env d (each_peer stop_peer d)" "\<And>q. \<not> isRunning q (each_peer stop_peer d)"
    "wd_state (each_peer stop_peer d) = wd_state d" "nd_keyMap (wd_nd (each_peer stop_peer d)) = nd_keyMap (wd_nd d)"
proof -
  have fold: "kept (fold stop_peer ps d) \<and> moves env d (fold stop_peer ps d) \<and> (\<forall>q. isRunning q (fold stop_peer ps d) \<longleftrightarrow> isRunning q d \<and> q \<notin> set ps) \<and>
      wd_state (fold stop_peer ps d) = wd_state d \<and> nd_keyMap (wd_nd (fold stop_peer ps d)) = nd_keyMap (wd_nd d)"
    if "set ps \<subseteq> snd ` set (nd_keyMap (wd_nd d))" for ps
    using assms that
  proof (induction ps arbitrary: d)
    case (Cons p ps)
    have "p < nd_npeers (wd_nd d)" using Cons.prems by (auto simp: ready_def intro: keyMap_peer)
    then have m: "moves env d (stop_peer p d)" by (auto intro!: moves_step device_step.peer peer_step.stop_peer)
    have "ready (stop_peer p d)" by (rule moves_ready [OF m Cons.prems(2)])
    moreover have "set ps \<subseteq> snd ` set (nd_keyMap (wd_nd (stop_peer p d)))" using Cons.prems(3) by simp
    ultimately show ?case using Cons.IH [OF stop_kept [OF Cons.prems(1)], of p] moves_trans [OF m] by auto
  qed simp
  have all: "q \<in> set (map snd (nd_keyMap (wd_nd d)))" if "isRunning q d" for q using assms(1) that by (auto simp: kept_def)
  show "kept (each_peer stop_peer d)" "moves env d (each_peer stop_peer d)" "\<And>q. \<not> isRunning q (each_peer stop_peer d)"
    "wd_state (each_peer stop_peer d) = wd_state d" "nd_keyMap (wd_nd (each_peer stop_peer d)) = nd_keyMap (wd_nd d)"
    using fold [of "map snd (nd_keyMap (wd_nd d))"] all by (auto simp: each_peer_def)
qed

lemma down_ok:
  assumes "kept d" "ready d"
  shows "kept (snd (downLocked env d))" "moves env d (snd (downLocked env d))" "\<not> isRunning q (snd (downLocked env d))"
    "wd_state (snd (downLocked env d)) = wd_state d"
proof -
  obtain err d1 where c: "BindClose env d = (err, d1)" by fastforce
  have i: "idle d d1" using idle_close [of d env] c by (simp add: BindClose_def)
  have r: "ready d1" using moves_ready [OF idle_kept(3) [OF i] assms(2)] .
  note s = stop_all [OF idle_kept(1) [OF i assms(1)] r]
  show "kept (snd (downLocked env d))" "moves env d (snd (downLocked env d))" "\<not> isRunning q (snd (downLocked env d))"
    "wd_state (snd (downLocked env d)) = wd_state d"
    using s moves_trans [OF idle_kept(3) [OF i] s(2)] i by (simp_all add: downLocked_def c idle_def)
qed

lemma kept_state: "s \<noteq> deviceStateClosed \<Longrightarrow> wd_state d \<noteq> deviceStateClosed \<Longrightarrow> kept (d\<lparr>wd_state := s\<rparr>) = kept d"
  by (simp add: kept_def isRunning_def isClosed_def)

lemma down_life:
  assumes "kept d" "ready d" "wd_state d = deviceStateDown"
  shows "life (snd (downLocked env d)) \<and> moves env d (snd (downLocked env d))"
  using down_ok [OF assms(1,2), where env = env] assms(3) by (auto simp: life_def isClosed_def)

lemma up_ok:
  assumes "life d" "ready d" "isUp d"
  shows "life (snd (upLocked env d)) \<and> moves env d (snd (upLocked env d))"
proof -
  obtain err d1 where b: "BindUpdate env d = (err, d1)" by fastforce
  have i: "idle d d1" using idle_BindUpdate [of d env] b by simp
  have 1: "life d1" "ready d1" "moves env d d1" "isUp d1"
    using idle_kept(2,3) [OF i] assms moves_ready [OF idle_kept(3) [OF i]] i by (auto simp: idle_def isUp_def)
  let ?f = "\<lambda>p d. let d = start_peer p d in if 0 < wp_persistentKeepaliveInterval (wd_peers d p) then SendKeepalive env p d else d"
  have "life (?f p d') \<and> moves env d' (?f p d') \<and> wd_state (?f p d') = wd_state d' \<and> nd_keyMap (wd_nd (?f p d')) = nd_keyMap (wd_nd d')"
    if "ready d'" "life d'" "isUp d'" "p \<in> snd ` set (nd_keyMap (wd_nd d'))" "p < nd_npeers (wd_nd d')" for p d'
  proof -
    have s: "life (start_peer p d')" "moves env d' (start_peer p d')" using start_ok [OF that(2-5)] by blast+
    have "p < nd_npeers (wd_nd (start_peer p d'))" using that(5) by (simp add: start_peer_def upd_peer_def Peer_Start_def put_running_def)
    then have "peer_ready p (start_peer p d')" using moves_ready [OF s(2) that(1)] by (simp add: peer_ready_def)
    from adv_keepalive [OF this] have a: "advances env (start_peer p d') (SendKeepalive env p (start_peer p d'))" .
    show ?thesis using s adv_life [OF a] moves_trans [OF s(2) adv_moves [OF a]] a by (auto simp: Let_def advances_def same_peers_def)
  qed
  from each_peer_ok [OF 1(2,1,4), of ?f env] this have "life (each_peer ?f d1) \<and> moves env d1 (each_peer ?f d1)" by blast
  then show ?thesis
    using 1 moves_trans [OF 1(3)] by (cases err) (auto simp: upLocked_def b)
qed

lemma change_ok:
  assumes "life d" "ready d"
  shows "life (snd (changeState env want d)) \<and> moves env d (snd (changeState env want d))"
proof -
  have down: "life (snd (downLocked env (d'\<lparr>wd_state := deviceStateDown\<rparr>))) \<and> moves env d' (snd (downLocked env (d'\<lparr>wd_state := deviceStateDown\<rparr>)))"
    if "life d'" "ready d'" "wd_state d' \<noteq> deviceStateClosed" for d' :: "('a, 'b) wdev"
  proof -
    have m: "moves env d' (d'\<lparr>wd_state := deviceStateDown\<rparr>)" by (rule moves_same) simp_all
    show ?thesis
      using down_life [of "d'\<lparr>wd_state := deviceStateDown\<rparr>"] that life_kept [OF that(1)] kept_state [of deviceStateDown d'] moves_ready [OF m that(2)]
        moves_trans [OF m] by simp
  qed
  show ?thesis
  proof (cases "wd_state d = deviceStateClosed \<or> want = wd_state d \<or> want = deviceStateClosed")
    case True
    then show ?thesis using assms by (auto simp: changeState_def Let_def)
  next
    case False
    show ?thesis
    proof (cases "want = deviceStateDown")
      case True
      with False down [OF assms] show ?thesis by (simp add: changeState_def Let_def split: prod.split)
    next
      case up: False
      with False have want: "want = deviceStateUp" using deviceState.exhaust by blast
      let ?u = "d\<lparr>wd_state := deviceStateUp\<rparr>"
      have m: "moves env d ?u" by (rule moves_same) simp_all
      have l: "life ?u" using assms(1) False kept_state [of deviceStateUp d] by (simp add: life_def isUp_def isClosed_def)
      have r: "ready ?u" by (rule moves_ready [OF m assms(2)])
      obtain err d1 where u: "upLocked env ?u = (err, d1)" by fastforce
      have 1: "life d1" "moves env d d1" using up_ok [OF l r, of env] u moves_trans [OF m, of d1] by (auto simp: isUp_def)
      have nc: "wd_state d1 \<noteq> deviceStateClosed" if "err \<noteq> None"
        using u that idle_BindUpdate [of ?u env] by (auto simp: upLocked_def idle_def split: prod.splits option.splits)
      have "life (snd (downLocked env (d1\<lparr>wd_state := deviceStateDown\<rparr>))) \<and> moves env d (snd (downLocked env (d1\<lparr>wd_state := deviceStateDown\<rparr>)))"
        if "err \<noteq> None" using down [OF 1(1) moves_ready [OF 1(2) assms(2)] nc [OF that]] moves_trans [OF 1(2)] by blast
      then show ?thesis using False want u 1 by (auto simp: changeState_def Let_def split: prod.split)
    qed
  qed
qed

lemma close_ok:
  assumes "life d" "ready d"
  shows "life (device_Close env d) \<and> moves env d (device_Close env d)"
proof (cases "isClosed d")
  case True
  then show ?thesis using assms by (simp add: device_Close_def)
next
  case False
  let ?c = "put_nd ((wd_nd d)\<lparr>nd_closed := True\<rparr>) (d\<lparr>wd_state := deviceStateClosed\<rparr>)"
  have m: "moves env d ?c" by (rule moves_step) (auto intro: device_step.close_device simp: put_nd_def)
  have "kept ?c" using life_kept [OF assms(1)] by (simp add: kept_def isRunning_def isClosed_def put_nd_def)
  note d = down_ok [OF this moves_ready [OF m assms(2)], where env = env]
  show ?thesis using False remove_all_ok [OF d(1), of env] moves_trans [OF m d(2)] moves_trans by (auto simp: device_Close_def)
qed

lemma keepalives_ok:
  assumes "life d" "ready d"
  shows "life (SendKeepalivesToPeersWithCurrentKeypair env d) \<and> moves env d (SendKeepalivesToPeersWithCurrentKeypair env d)"
proof (cases "isUp d")
  case True
  let ?f = "\<lambda>p d. case current_keypair p d of None \<Rightarrow> d | Some k \<Rightarrow> if now_of d \<le> kp_created (nd_kps (wd_nd d) k) + RejectAfterTime then SendKeepalive env p d else d"
  have "life (?f p d') \<and> moves env d' (?f p d') \<and> wd_state (?f p d') = wd_state d' \<and> nd_keyMap (wd_nd (?f p d')) = nd_keyMap (wd_nd d')"
    if "ready d'" "life d'" "p < nd_npeers (wd_nd d')" for p d'
  proof -
    have "peer_ready p d'" using that by (simp add: peer_ready_def)
    then have a: "advances env d' (SendKeepalive env p d')" by (rule adv_keepalive)
    show ?thesis using adv_life [OF a that(2)] adv_moves [OF a] a that(2) by (auto simp: advances_def same_peers_def split: option.split)
  qed
  with each_peer_ok [OF assms(2,1) True, of ?f env] True show ?thesis by (simp add: SendKeepalivesToPeersWithCurrentKeypair_def)
qed (use assms in \<open>simp add: SendKeepalivesToPeersWithCurrentKeypair_def\<close>)

subsection \<open>Runs\<close>

text \<open>
  The steps of a device: what its goroutines and timers do, and what its owner asks for. A configuration sets fields of
  a peer that concern neither its timers nor its queues.
\<close>

inductive wg_step :: "('b, 'ep) wg_env \<Rightarrow> ('b, 'ep) wdev \<Rightarrow> ('b, 'ep) wdev \<Rightarrow> bool" for env where
  timer: "p < nd_npeers (wd_nd d) \<Longrightarrow> wg_step env d (run_timer env t p d)"
| from_tun: "p < nd_npeers (wd_nd d) \<Longrightarrow> wg_step env d (stage_packets env p packets d)"
| to_socket: "p < nd_npeers (wd_nd d) \<Longrightarrow> wg_step env d (sequential_send env n p d)"
| handshake: "wg_step env d (handle_handshake env queued elem d)"
| to_tun: "p < nd_npeers (wd_nd d) \<Longrightarrow> wg_step env d (snd (sequential_receive env p elems d))"
| keepalive: "p < nd_npeers (wd_nd d) \<Longrightarrow> wg_step env d (SendKeepalive env p d)"
| staged: "p < nd_npeers (wd_nd d) \<Longrightarrow> wg_step env d (send_staged env p d)"
| keepalives: "wg_step env d (SendKeepalivesToPeersWithCurrentKeypair env d)"
| change: "wg_step env d (snd (changeState env want d))"
| close: "wg_step env d (device_Close env d)"
| start: "isUp d \<Longrightarrow> LookupPeer key (wd_nd d) = Some p \<Longrightarrow> wg_step env d (start_peer p d)"
| create: "wg_step env d (snd (new_peer env pk d))"
| remove: "wg_step env d (remove_peer pk d)"
| remove_all: "wg_step env d (remove_all_peers d)"
| private_key: "wg_step env d (set_private_key env sk d)"
| preshared_key: "p < nd_npeers (wd_nd d) \<Longrightarrow> wg_step env d (put_nd (put_handshake p ((nd_handshake (wd_nd d) p)\<lparr>hs_presharedKey := psk\<rparr>) (wd_nd d)) d)"
| configure: "(\<And>w. quiet w \<Longrightarrow> quiet (f w)) \<Longrightarrow> wg_step env d (upd_peer p f d)"
| allowed_ips: "wg_step env d (d\<lparr>wd_allowedips := a\<rparr>)"
| listen_port: "wg_step env d (snd (BindUpdate env (d\<lparr>wd_port := q\<rparr>)))"
| mark: "wg_step env d (snd (BindSetMark env m d))"
| mtu: "wg_step env d (tun_mtu r d)"

lemma adv_ok: "advances env d d' \<Longrightarrow> life d \<Longrightarrow> life d' \<and> moves env d d'"
  using adv_life adv_moves by blast

lemma idle_ok: "idle d d' \<Longrightarrow> life d \<Longrightarrow> life d' \<and> moves env d d'"
  using idle_kept by blast

lemma adv_preshared:
  "p < nd_npeers (wd_nd d) \<Longrightarrow> advances env d (put_nd (put_handshake p ((nd_handshake (wd_nd d) p)\<lparr>hs_presharedKey := psk\<rparr>) (wd_nd d)) d)"
  by (rule adv_step) (auto simp: same_peers_ops intro: peer_step.new_preshared)

lemma wg_step_ok: "wg_step env d d' \<Longrightarrow> life d \<Longrightarrow> ready d \<Longrightarrow> life d' \<and> moves env d d'"
proof (induction rule: wg_step.induct)
  case (start d key p)
  then have "(key, p) \<in> set (nd_keyMap (wd_nd d))" by (auto simp: LookupPeer_def dest: map_of_SomeD)
  with start show ?case by (intro start_ok) (force simp: ready_def intro: keyMap_peer)+
next
  case (listen_port d q)
  have "idle d (snd (BindUpdate env (d\<lparr>wd_port := q\<rparr>)))" by (rule idle_trans [OF idle_upd(4) idle_BindUpdate])
  then show ?case using listen_port by (intro idle_ok)
next
  case (mtu d r)
  have "idle d (tun_mtu r d)" by (auto simp: tun_mtu_def idle_def split: sum.split)
  then show ?case using mtu by (intro idle_ok)
next
  case (allowed_ips d a)
  have "idle d (d\<lparr>wd_allowedips := a\<rparr>)" by (simp add: idle_def)
  then show ?case using allowed_ips by (intro idle_ok)
next
  case (mark d m)
  then show ?case by (intro idle_ok [OF idle_SetMark])
next
  case (configure f d p)
  then show ?case by (intro adv_ok [OF adv_peer])
qed (auto simp: peer_ready_def intro!: adv_ok [OF adv_timer] adv_ok [OF adv_stage_packets] adv_ok [OF adv_sequential_send] adv_ok [OF adv_handshake]
    adv_ok [OF adv_receive] adv_ok [OF adv_keepalive] adv_ok [OF adv_staged] adv_ok [OF adv_preshared]
    dest: keepalives_ok change_ok close_ok new_peer_ok remove_peer_ok remove_all_ok [OF life_kept] set_key_ok)

lemma wg_run_ok: "(wg_step env)\<^sup>*\<^sup>* d0 d \<Longrightarrow> life d0 \<Longrightarrow> ready d0 \<Longrightarrow> life d \<and> moves env d0 d"
proof (induction rule: rtranclp_induct)
  case (step d d')
  then have "life d" "moves env d0 d" by blast+
  with step wg_step_ok [OF step.hyps(2)] moves_ready moves_trans show ?case by blast
qed simp

lemma NewDevice_ok:
  "life (NewDevice env mtu b en)" "fresh_device (wd_nd (NewDevice env mtu b en))" "wd_ent (NewDevice env mtu b en) = en"
  by (simp_all add: NewDevice_def life_def kept_def isRunning_def isUp_def isClosed_def quiet_new no_peer_def fresh_device_def)



subsection \<open>Giving up a handshake\<close>

lemma attempts_frame:
  "wp_handshakeAttempts (wd_peers (timersAnyAuthenticatedPacketSent p d) q) = wp_handshakeAttempts (wd_peers d q)"
  "wp_handshakeAttempts (wd_peers (timersAnyAuthenticatedPacketTraversal p d) q) = wp_handshakeAttempts (wd_peers d q)"
  "wp_handshakeAttempts (wd_peers (timersHandshakeInitiated p d) q) = wp_handshakeAttempts (wd_peers d q)"
  "wp_handshakeAttempts (wd_peers (snd (add_macs env p m d)) q) = wp_handshakeAttempts (wd_peers d q)"
  "wp_handshakeAttempts (wd_peers (snd (SendBuffers env p bufs d)) q) = wp_handshakeAttempts (wd_peers d q)"
  "wp_handshakeAttempts (wd_peers (put_lastSent p d) q) = wp_handshakeAttempts (wd_peers d q)"
  by (simp_all add: timersAnyAuthenticatedPacketSent_def timersAnyAuthenticatedPacketTraversal_def timersHandshakeInitiated_def add_macs_def
      SendBuffers_def put_lastSent_def if_active_def upd_peer_def put_nd_def next_tick_def Let_def split: prod.split option.split)

lemma retry_attempts: "wp_handshakeAttempts (wd_peers (SendHandshakeInitiation env True p d) q) = wp_handshakeAttempts (wd_peers d q)"
proof -
  have "wp_handshakeAttempts (wd_peers d4 q) = wp_handshakeAttempts (wd_peers d3 q)" if "add_macs env p m d3 = (x, d4)" for m d3 x d4
    using attempts_frame(4) [of env p m d3 q] that by simp
  then show ?thesis
    by (simp add: SendHandshakeInitiation_def Let_def attempts_frame split: option.split prod.split sum.split) (simp add: next_tick_def put_nd_def attempts_frame)
qed

abbreviation retransmit :: "('b, 'ep) wg_env \<Rightarrow> nat \<Rightarrow> ('b, 'ep) wdev \<Rightarrow> ('b, 'ep) wdev" where
  "retransmit env p \<equiv> run_timer env T_retransmitHandshake p"

lemma give_up:
  assumes "pending T_retransmitHandshake (wd_peers d p) \<noteq> None" "18 < wp_handshakeAttempts (wd_peers d p)"
  shows "pending T_retransmitHandshake (wd_peers (retransmit env p d) p) = None" "wp_staged (wd_peers (retransmit env p d) p) = []"
    "wd_bind (retransmit env p d) = wd_bind d"
  using assms by (auto simp: run_timer_def expiredRetransmitHandshake_def Let_def if_active_def upd_peer_def FlushStagedPackets_def)

lemma retry:
  assumes "pending T_retransmitHandshake (wd_peers d p) \<noteq> None" "wp_handshakeAttempts (wd_peers d p) \<le> 18"
  shows "wp_handshakeAttempts (wd_peers (retransmit env p d) p) = wp_handshakeAttempts (wd_peers d p) + 1"
proof -
  have "\<not> 18 < wp_handshakeAttempts (wd_peers (upd_peer p (\<lambda>w. w\<lparr>wp_retransmitHandshake := None\<rparr>) d) p)"
    using assms(2) by (simp add: upd_peer_def not_less)
  with assms(1) show ?thesis
    by (simp add: run_timer_def expiredRetransmitHandshake_def retry_attempts Let_def) (simp add: upd_peer_def markEndpointSrcForClearing_def)
qed

lemma unat_retry:
  assumes "(a :: 32 word) \<le> 18"
  shows "unat (a + 1) = unat a + 1"
proof -
  have "unat a \<le> 18" using assms by (simp add: word_le_nat_alt)
  then show ?thesis by (simp add: unat_word_ariths)
qed

lemma run_timer_off: "pending t (wd_peers d p) = None \<Longrightarrow> run_timer env t p d = d"
  by (simp add: run_timer_def)

lemma retries:
  assumes "unat (wp_handshakeAttempts (wd_peers d p)) \<le> 19"
    "pending T_retransmitHandshake (wd_peers ((retransmit env p ^^ n) d) p) \<noteq> None"
  shows "unat (wp_handshakeAttempts (wd_peers ((retransmit env p ^^ n) d) p)) = unat (wp_handshakeAttempts (wd_peers d p)) + n \<and>
    unat (wp_handshakeAttempts (wd_peers d p)) + n \<le> 19"
  using assms(2)
proof (induction n)
  case (Suc n)
  let ?d = "(retransmit env p ^^ n) d"
  have on: "pending T_retransmitHandshake (wd_peers ?d p) \<noteq> None"
    using Suc.prems run_timer_off [of T_retransmitHandshake ?d p env] by (cases "pending T_retransmitHandshake (wd_peers ?d p)") simp_all
  have le: "wp_handshakeAttempts (wd_peers ?d p) \<le> 18" using give_up(1) [OF on, of env] Suc.prems by (fastforce simp: not_le)
  from retry [OF on le, of env] unat_retry [OF le] Suc.IH [OF on] le show ?case by (simp add: word_le_nat_alt)
qed (use assms(1) in simp)


subsection \<open>Under load\<close>

text \<open>
  Property C36: under load a handshake message is looked at only when it carries both authentication codes, the second one made with
  the cookie for its sender's address, and the address is within its rate. Otherwise the sessions, the peers and the state of the
  device stay as they are; a message without the first code leaves everything but the time of the overload as it is.
\<close>

theorem overload_refuses:
  assumes "fst (IsUnderLoad queued d)" "ty \<noteq> MessageCookieReplyType"
    "\<not> (CheckMAC1 (we_cookie env) packet (wd_cookieChecker d) \<and>
        CheckMAC2 (we_cookie env) (now_of d) packet (DstToBytes env ep) (wd_cookieChecker d) \<and> fst (Allow (now_of d) (DstIP env ep) (wd_limiter d)))"
  shows "wd_nd (handle_handshake env queued (ty, packet, ep) d) = wd_nd d \<and> wd_peers (handle_handshake env queued (ty, packet, ep) d) = wd_peers d \<and>
    wd_state (handle_handshake env queued (ty, packet, ep) d) = wd_state d \<and>
    (\<not> CheckMAC1 (we_cookie env) packet (wd_cookieChecker d) \<longrightarrow> handle_handshake env queued (ty, packet, ep) d = d)"
proof -
  obtain d1 where u: "IsUnderLoad queued d = (True, d1)" using assms(1) by (cases "IsUnderLoad queued d") auto
  then have d1: "wd_nd d1 = wd_nd d" "wd_peers d1 = wd_peers d" "wd_state d1 = wd_state d" "wd_cookieChecker d1 = wd_cookieChecker d"
    "wd_limiter d1 = wd_limiter d" "now_of d1 = now_of d"
    by (auto simp: IsUnderLoad_def now_of_def ent_def split: if_splits)
  have c: "wd_nd (SendHandshakeCookie env packet ep d1) = wd_nd d" "wd_peers (SendHandshakeCookie env packet ep d1) = wd_peers d"
    "wd_state (SendHandshakeCookie env packet ep d1) = wd_state d"
    using d1 by (simp_all add: SendHandshakeCookie_def next_tick_def Let_def split: prod.split sum.split)
  have "\<not> fst (admit env queued packet ep d)" "wd_nd (snd (admit env queued packet ep d)) = wd_nd d"
    "wd_peers (snd (admit env queued packet ep d)) = wd_peers d" "wd_state (snd (admit env queued packet ep d)) = wd_state d"
    "\<not> CheckMAC1 (we_cookie env) packet (wd_cookieChecker d) \<Longrightarrow> snd (admit env queued packet ep d) = d"
    using assms(3) c d1 by (auto simp: admit_def u split: prod.split)
  then show ?thesis using assms(2) by (auto simp: handle_handshake_def split: prod.splits bool.splits)
qed

subsection \<open>Samples\<close>

definition sample_wg_env :: "(byte list list, unit) wg_env" where
  "sample_wg_env = \<lparr>we_noise = sample_noise, we_cookie = sample_cookie_lib, bind_Send = (\<lambda>bufs ep b. (None, b @ bufs)), bind_Open = (\<lambda>q b. (Ok q, b)),
     bind_Close = (\<lambda>b. (None, b)), bind_SetMark = (\<lambda>m b. (None, b)), startRouteListener = (\<lambda>b. (None, b)), ParseEndpoint = (\<lambda>s. Ok ()), ClearSrc = (\<lambda>e. e),
     DstToBytes = (\<lambda>e. []), DstIP = (\<lambda>e. Addr4 [10, 0, 0, 1]), DstToString = (\<lambda>e. [])\<rparr>"

definition sample_entropy :: entropy where
  "sample_entropy = \<lparr>en_now = 0, en_key = (sample_sk 3, True), en_draws = [(5, True)], en_jitter = 0, en_secret = ([], True), en_nonce = ([], True)\<rparr>"

definition sample_wdev :: "(byte list list, unit) wdev" where
  "sample_wdev = NewDevice sample_wg_env (Ok 1420) [] (\<lambda>_. sample_entropy)"

definition sample_up :: "(byte list list, unit) wdev" where
  "sample_up = snd (changeState sample_wg_env deviceStateUp (snd (new_peer sample_wg_env (sample_sk 2) sample_wdev)))"

lemma sample_run: "(wg_step sample_wg_env)\<^sup>*\<^sup>* sample_wdev sample_up" "\<forall>i :: nat. draws_ok (en_draws sample_entropy)"
proof -
  have "wg_step sample_wg_env sample_wdev (snd (new_peer sample_wg_env (sample_sk 2) sample_wdev))" by (rule wg_step.create)
  moreover have "wg_step sample_wg_env (snd (new_peer sample_wg_env (sample_sk 2) sample_wdev)) sample_up" unfolding sample_up_def by (rule wg_step.change)
  ultimately show "(wg_step sample_wg_env)\<^sup>*\<^sup>* sample_wdev sample_up" by simp
qed (simp add: sample_entropy_def draws_ok_def)


lemma sample_up_runs: "isRunning 0 sample_up"
  by (simp add: sample_up_def sample_wdev_def new_peer_def NewDevice_def NewPeer_def Let_def changeState_def upLocked_def BindUpdate_def closeBindLocked_def
      sample_wg_env_def isUp_def put_nd_def upd_peer_def each_peer_def markEndpointSrcForClearing_def start_peer_def isClosed_def isRunning_def Peer_Start_def
      put_running_def no_peer_def new_wpeer_def timersStart_def)



theorem overload_refuses_witness:
  "wd_nd (handle_handshake sample_wg_env 200 (1, replicate 148 0, ()) sample_wdev) = wd_nd sample_wdev"
proof -
  have "\<not> CheckMAC1 (we_cookie sample_wg_env) (replicate 148 0) (wd_cookieChecker sample_wdev)"
    by (simp add: CheckMAC1_def sample_wg_env_def sample_cookie_lib_def sample_wdev_def NewDevice_def zero_checker_def smac1_def smac2_def mac1_of_def
        replicate_eq_replicate)
  with overload_refuses [of 200 sample_wdev 1 sample_wg_env "replicate 148 0" "()"] show ?thesis by (simp add: IsUnderLoad_def)
qed

end
