(* ===== verification/Uapi.thy ===== *)
theory Uapi
  imports Device_Runs WG_Device "HOL-Library.Signed_Division"
begin

section \<open>The configuration protocol (wireguard-go/device: uapi.go, noise-types.go)\<close>

text \<open>
  The set and get operations of a device. A set operation is a text of lines \<^verbatim>\<open>key=value\<close>; it changes the device line by line, and what the lines
  before an erroneous one did stays done. The names of keys, prefixes and numbers are parsed as the Go library does.
\<close>

subsection \<open>Keys, numbers and prefixes\<close>

fun hex_DecodeString :: "string \<Rightarrow> byte list option" where
  "hex_DecodeString [] = Some []"
| "hex_DecodeString [_] = None"
| "hex_DecodeString (a # b # s) =
     (if is_hex a \<and> is_hex b then map_option ((#) (of_nat (hex_digit a * 16 + hex_digit b))) (hex_DecodeString s) else None)"

definition loadExactHex :: "nat \<Rightarrow> string \<Rightarrow> byte list option" where
  "loadExactHex n src = (case hex_DecodeString src of None \<Rightarrow> None | Some b \<Rightarrow> if length b \<noteq> n then None else Some b)"

definition key_FromHex :: "string \<Rightarrow> byte list option" where
  "key_FromHex src = loadExactHex 32 src"

definition FromMaybeZeroHex :: "string \<Rightarrow> byte list option" where
  "FromMaybeZeroHex src = map_option (\<lambda>k. if k = replicate 32 0 then k else clamp k) (loadExactHex 32 src)"

definition ParseUint32 :: "string \<Rightarrow> 32 word option" where
  "ParseUint32 s =
     (if s = [] \<or> \<not> list_all is_digit s then None
      else let v = digits_val 0 s in if v < 2 ^ 32 then Some (of_nat v) else None)"

definition ParsePrefix :: "string \<Rightarrow> (netip_addr \<times> nat) option" where
  "ParsePrefix s =
     (case last_cut (CHR ''/'') s of
        None \<Rightarrow> None
      | Some (a, bits) \<Rightarrow>
          (case ParseAddr a of
             None \<Rightarrow> None
           | Some ip \<Rightarrow>
               if Zone ip \<noteq> [] then None
               else if bits = [] \<or> \<not> list_all is_digit bits \<or> 1 < length bits \<and> hd bits = CHR ''0'' then None
               else if BitLen ip < digits_val 0 bits then None
               else Some (ip, digits_val 0 bits)))"

definition Prefix_String :: "netip_addr option \<times> nat \<Rightarrow> string" where
  "Prefix_String p = (case fst p of None \<Rightarrow> ''invalid Prefix'' | Some ip \<Rightarrow> Addr_String ip @ ''/'' @ Uitoa (snd p))"

subsection \<open>Lines\<close>

text \<open>
  \<^verbatim>\<open>bufio.Scanner\<close>: lines without their end, which may be a line feed after a carriage return; nothing after the last line feed is not a line.
  A line of 65536 bytes or more ends the scan with an error.
\<close>

definition dropCR :: "string \<Rightarrow> string" where
  "dropCR l = (if l \<noteq> [] \<and> last l = CHR 0x0D then butlast l else l)"

definition scan_lines :: "string \<Rightarrow> string list \<times> bool" where
  "scan_lines s =
     (let parts = Split s NL; parts = (if last parts = [] then butlast parts else parts)
      in (map dropCR (takeWhile (\<lambda>l. length l < 65536) parts), list_ex (\<lambda>l. 65536 \<le> length l) parts))"

subsection \<open>Setting\<close>

datatype ipc_error = IpcErrorIO | IpcErrorProtocol | IpcErrorInvalid | IpcErrorPortInUse

text \<open>The table of allowed addresses panics on a prefix it cannot hold; \<open>Ipc_panic\<close> stands for that.\<close>

datatype ipc_outcome = Ipc_ok | Ipc_error ipc_error | Ipc_panic

text \<open>
  The peer that the lines configure: none yet, a placeholder, of which only the keepalive interval is read again, or a peer of the device.
\<close>

datatype ipc_current = No_peer | Dummy_peer "32 word" | Real_peer nat

record ipcSetPeer =
  ip_Peer :: ipc_current
  ip_created :: bool
  ip_pkaOn :: bool

definition ip_dummy :: "ipcSetPeer \<Rightarrow> bool" where
  "ip_dummy s \<longleftrightarrow> (case ip_Peer s of Dummy_peer _ \<Rightarrow> True | _ \<Rightarrow> False)"

definition handlePostConfig :: "('b, 'ep) wg_env \<Rightarrow> ipcSetPeer \<Rightarrow> ('b, 'ep) wdev \<Rightarrow> ('b, 'ep) wdev" where
  "handlePostConfig env s d =
     (case ip_Peer s of
        Real_peer p \<Rightarrow>
          let d = (if ip_created s
                   then upd_peer p (\<lambda>w. w\<lparr>wp_disableRoaming := wd_brokenRoaming d \<and> wp_endpoint w \<noteq> None\<rparr>) d else d)
          in if isUp d then
               let d = start_peer p d;
                   d = (if ip_pkaOn s then SendKeepalive env p d else d)
               in send_staged env p d
             else d
      | _ \<Rightarrow> d)"

definition handleDeviceLine :: "('b, 'ep) wg_env \<Rightarrow> string \<Rightarrow> string \<Rightarrow> ('b, 'ep) wdev \<Rightarrow> ipc_outcome \<times> ('b, 'ep) wdev" where
  "handleDeviceLine env key val d =
     (if key = ''private_key'' then
        (case FromMaybeZeroHex val of None \<Rightarrow> (Ipc_error IpcErrorInvalid, d) | Some sk \<Rightarrow> (Ipc_ok, set_private_key env sk d))
      else if key = ''listen_port'' then
        (case ParseUint16 val of
           None \<Rightarrow> (Ipc_error IpcErrorInvalid, d)
         | Some port \<Rightarrow>
             (case BindUpdate env (d\<lparr>wd_port := port\<rparr>) of
                (err, d) \<Rightarrow> (if err \<noteq> None then Ipc_error IpcErrorPortInUse else Ipc_ok, d)))
      else if key = ''fwmark'' then
        (case ParseUint32 val of
           None \<Rightarrow> (Ipc_error IpcErrorInvalid, d)
         | Some m \<Rightarrow>
             (case BindSetMark env m d of
                (err, d) \<Rightarrow> (if err \<noteq> None then Ipc_error IpcErrorPortInUse else Ipc_ok, d)))
      else if key = ''replace_peers'' then
        if val \<noteq> ''true'' then (Ipc_error IpcErrorInvalid, d) else (Ipc_ok, remove_all_peers d)
      else (Ipc_error IpcErrorInvalid, d))"

definition handlePublicKeyLine ::
  "('b, 'ep) wg_env \<Rightarrow> string \<Rightarrow> ipcSetPeer \<Rightarrow> ('b, 'ep) wdev \<Rightarrow> ipc_outcome \<times> ipcSetPeer \<times> ('b, 'ep) wdev" where
  "handlePublicKeyLine env val s d =
     (case key_FromHex val of
        None \<Rightarrow> (Ipc_error IpcErrorInvalid, s, d)
      | Some pk \<Rightarrow>
          if pk = nd_publicKey (wd_nd d) then (Ipc_ok, s\<lparr>ip_Peer := Dummy_peer 0, ip_created := False\<rparr>, d)
          else (case LookupPeer pk (wd_nd d) of
                  Some p \<Rightarrow> (Ipc_ok, s\<lparr>ip_Peer := Real_peer p, ip_created := False\<rparr>, d)
                | None \<Rightarrow>
                    (case new_peer env pk d of
                       (Err _, d) \<Rightarrow> (Ipc_error IpcErrorInvalid, s\<lparr>ip_Peer := No_peer, ip_created := True\<rparr>, d)
                     | (Ok p, d) \<Rightarrow> (Ipc_ok, s\<lparr>ip_Peer := Real_peer p, ip_created := True\<rparr>, d))))"

definition remove_current :: "ipcSetPeer \<Rightarrow> ('b, 'ep) wdev \<Rightarrow> ipcSetPeer \<times> ('b, 'ep) wdev" where
  "remove_current s d =
     (case ip_Peer s of
        Real_peer p \<Rightarrow> (s\<lparr>ip_Peer := Dummy_peer 0\<rparr>, remove_peer (hs_remoteStatic (nd_handshake (wd_nd d) p)) d)
      | _ \<Rightarrow> (s\<lparr>ip_Peer := Dummy_peer 0\<rparr>, d))"

definition set_preshared :: "ipcSetPeer \<Rightarrow> byte list \<Rightarrow> ('b, 'ep) wdev \<Rightarrow> ('b, 'ep) wdev" where
  "set_preshared s psk d =
     (case ip_Peer s of
        Real_peer p \<Rightarrow> put_nd (put_handshake p ((nd_handshake (wd_nd d) p)\<lparr>hs_presharedKey := psk\<rparr>) (wd_nd d)) d
      | _ \<Rightarrow> d)"

definition set_endpoint :: "ipcSetPeer \<Rightarrow> 'ep \<Rightarrow> ('b, 'ep) wdev \<Rightarrow> ('b, 'ep) wdev" where
  "set_endpoint s ep d = (case ip_Peer s of Real_peer p \<Rightarrow> upd_peer p (\<lambda>w. w\<lparr>wp_endpoint := Some ep\<rparr>) d | _ \<Rightarrow> d)"

definition swap_interval :: "32 word \<Rightarrow> ipcSetPeer \<Rightarrow> ('b, 'ep) wdev \<Rightarrow> ipcSetPeer \<times> ('b, 'ep) wdev" where
  "swap_interval secs s d =
     (case ip_Peer s of
        Real_peer p \<Rightarrow>
          (s\<lparr>ip_pkaOn := wp_persistentKeepaliveInterval (wd_peers d p) = 0 \<and> secs \<noteq> 0\<rparr>,
           upd_peer p (\<lambda>w. w\<lparr>wp_persistentKeepaliveInterval := secs\<rparr>) d)
      | Dummy_peer old \<Rightarrow> (s\<lparr>ip_Peer := Dummy_peer secs, ip_pkaOn := old = 0 \<and> secs \<noteq> 0\<rparr>, d)
      | No_peer \<Rightarrow> (s, d))"

definition change_allowed :: "bool \<Rightarrow> netip_addr \<times> nat \<Rightarrow> ipcSetPeer \<Rightarrow> ('b, 'ep) wdev \<Rightarrow> ipc_outcome \<times> ('b, 'ep) wdev" where
  "change_allowed add pfx s d =
     (case ip_Peer s of
        Real_peer p \<Rightarrow>
          (case (if add then AllowedIPs_Insert pfx p (wd_allowedips d) else AllowedIPs_Remove pfx p (wd_allowedips d)) of
             None \<Rightarrow> (Ipc_panic, d)
           | Some tbl \<Rightarrow> (Ipc_ok, d\<lparr>wd_allowedips := tbl\<rparr>))
      | _ \<Rightarrow> (Ipc_ok, d))"

definition handlePeerLine ::
  "('b, 'ep) wg_env \<Rightarrow> string \<Rightarrow> string \<Rightarrow> ipcSetPeer \<Rightarrow> ('b, 'ep) wdev \<Rightarrow> ipc_outcome \<times> ipcSetPeer \<times> ('b, 'ep) wdev" where
  "handlePeerLine env key val s d =
     (let invalid = (Ipc_error IpcErrorInvalid, s, d)
      in if key = ''update_only'' then
           if val \<noteq> ''true'' then invalid
           else if ip_created s \<and> \<not> ip_dummy s then (Ipc_ok, remove_current s d) else (Ipc_ok, s, d)
         else if key = ''remove'' then
           if val \<noteq> ''true'' then invalid else (Ipc_ok, remove_current s d)
         else if key = ''preshared_key'' then
           (case key_FromHex val of None \<Rightarrow> invalid | Some psk \<Rightarrow> (Ipc_ok, s, set_preshared s psk d))
         else if key = ''endpoint'' then
           (case ParseEndpoint env val of Inl _ \<Rightarrow> invalid | Inr ep \<Rightarrow> (Ipc_ok, s, set_endpoint s ep d))
         else if key = ''persistent_keepalive_interval'' then
           (case ParseUint16 val of None \<Rightarrow> invalid | Some secs \<Rightarrow> (Ipc_ok, swap_interval (ucast secs) s d))
         else if key = ''replace_allowed_ips'' then
           if val \<noteq> ''true'' then invalid
           else (case ip_Peer s of
                   Real_peer p \<Rightarrow> (Ipc_ok, s, d\<lparr>wd_allowedips := AllowedIPs_RemoveByPeer p (wd_allowedips d)\<rparr>)
                 | _ \<Rightarrow> (Ipc_ok, s, d))
         else if key = ''allowed_ip'' then
           (let add = \<not> HasPrefix val ''-''; val = (if add then val else tl val)
            in case ParsePrefix val of
                 None \<Rightarrow> invalid
               | Some pfx \<Rightarrow> (case change_allowed add pfx s d of (out, d) \<Rightarrow> (out, s, d)))
         else if key = ''protocol_version'' then
           if val \<noteq> ''1'' then invalid else (Ipc_ok, s, d)
         else invalid)"

text \<open>One line of a set operation after the key and the value are cut; the flag says that no peer has been named yet.\<close>

definition ipc_line ::
  "('b, 'ep) wg_env \<Rightarrow> string \<Rightarrow> string \<Rightarrow> bool \<Rightarrow> ipcSetPeer \<Rightarrow> ('b, 'ep) wdev \<Rightarrow> ipc_outcome \<times> bool \<times> ipcSetPeer \<times> ('b, 'ep) wdev" where
  "ipc_line env key val deviceConfig s d =
     (if key = ''public_key'' then
        (case handlePublicKeyLine env val s (handlePostConfig env s d) of (out, s, d) \<Rightarrow> (out, False, s, d))
      else if deviceConfig then (case handleDeviceLine env key val d of (out, d) \<Rightarrow> (out, True, s, d))
      else (case handlePeerLine env key val s d of (out, s, d) \<Rightarrow> (out, False, s, d)))"

fun ipc_lines ::
  "('b, 'ep) wg_env \<Rightarrow> string list \<Rightarrow> bool \<Rightarrow> bool \<Rightarrow> ipcSetPeer \<Rightarrow> ('b, 'ep) wdev \<Rightarrow> ipc_outcome \<times> ('b, 'ep) wdev" where
  "ipc_lines env [] tooLong deviceConfig s d = (if tooLong then Ipc_error IpcErrorIO else Ipc_ok, handlePostConfig env s d)"
| "ipc_lines env (line # lines) tooLong deviceConfig s d =
     (if line = [] then (Ipc_ok, handlePostConfig env s d)
      else case Cut line ''='' of
             None \<Rightarrow> (Ipc_error IpcErrorProtocol, d)
           | Some (key, val) \<Rightarrow>
               (case ipc_line env key val deviceConfig s d of
                  (Ipc_ok, deviceConfig, s, d) \<Rightarrow> ipc_lines env lines tooLong deviceConfig s d
                | (out, _, _, d) \<Rightarrow> (out, d)))"

definition IpcSetOperation :: "('b, 'ep) wg_env \<Rightarrow> string \<Rightarrow> ('b, 'ep) wdev \<Rightarrow> ipc_outcome \<times> ('b, 'ep) wdev" where
  "IpcSetOperation env text d =
     (case scan_lines text of
        (lines, tooLong) \<Rightarrow> ipc_lines env lines tooLong True \<lparr>ip_Peer = No_peer, ip_created = False, ip_pkaOn = False\<rparr> d)"

subsection \<open>Getting\<close>

definition sendf :: "string \<Rightarrow> string \<Rightarrow> string" where
  "sendf key val = key @ ''='' @ val @ NL"

definition keyf :: "string \<Rightarrow> byte list \<Rightarrow> string" where
  "keyf pre key = pre @ ''='' @ hexString key @ NL"

definition get_peer :: "('b, 'ep) wg_env \<Rightarrow> ('b, 'ep) wdev \<Rightarrow> nat \<Rightarrow> string" where
  "get_peer env d p =
     (let h = nd_handshake (wd_nd d) p; w = wd_peers d p; nano = wp_lastHandshakeNano w
      in keyf ''public_key'' (hs_remoteStatic h) @ keyf ''preshared_key'' (hs_presharedKey h) @ sendf ''protocol_version'' ''1'' @
         (case wp_endpoint w of None \<Rightarrow> [] | Some ep \<Rightarrow> sendf ''endpoint'' (DstToString env ep)) @
         sendf ''last_handshake_time_sec'' (Itoa (nano sdiv second)) @ sendf ''last_handshake_time_nsec'' (Itoa (nano smod second)) @
         sendf ''tx_bytes'' (Uitoa (unat (wp_txBytes w))) @ sendf ''rx_bytes'' (Uitoa (unat (wp_rxBytes w))) @
         sendf ''persistent_keepalive_interval'' (Uitoa (unat (wp_persistentKeepaliveInterval w))) @
         EntriesForPeer p (\<lambda>pfx out. (True, out @ sendf ''allowed_ip'' (Prefix_String pfx))) (wd_allowedips d) [])"

definition IpcGetOperation :: "('b, 'ep) wg_env \<Rightarrow> ('b, 'ep) wdev \<Rightarrow> string" where
  "IpcGetOperation env d =
     (if nd_privateKey (wd_nd d) \<noteq> replicate 32 0 then keyf ''private_key'' (nd_privateKey (wd_nd d)) else []) @
     (if wd_port d \<noteq> 0 then sendf ''listen_port'' (Uitoa (unat (wd_port d))) else []) @
     (if wd_fwmark d \<noteq> 0 then sendf ''fwmark'' (Uitoa (unat (wd_fwmark d))) else []) @
     concat (map (get_peer env d) (map snd (nd_keyMap (wd_nd d))))"

subsection \<open>Parsed prefixes\<close>

lemma parseIPv6_loop_length:
  "parseIPv6_loop s bs e = Some (r, bs', e') \<Longrightarrow> even (length bs) \<Longrightarrow> length bs \<le> 16 \<Longrightarrow> length bs' \<le> 16"
proof (induction "16 - length bs" arbitrary: s bs e rule: less_induct)
  case less
  show ?case
  proof (cases "16 \<le> length bs")
    case True
    then show ?thesis using less.prems by (simp add: parseIPv6_loop.simps)
  next
    case False
    then have le: "length bs + 2 \<le> 16" using less.prems(2) by presburger
    from less.prems(1) [unfolded parseIPv6_loop.simps [of s bs e]] False
    consider "length bs' \<le> 16" | s1 e1 x y where "parseIPv6_loop s1 (bs @ [x, y]) e1 = Some (r, bs', e')"
      using le parseIPv4Fields_length [of s True 0 0 "[]"]
      by (fastforce simp: Let_def split: if_split_asm option.split_asm)
    then show ?thesis
    proof cases
      case (2 s1 e1 x y)
      show ?thesis by (rule less.hyps [OF _ 2]) (use le less.prems(2) in simp_all)
    qed
  qed
qed

lemma parseIPv6_length: "parseIPv6 s = Some a \<Longrightarrow> (\<exists>ip z. a = Addr6 ip z \<and> length ip = 16)"
  by (auto simp: parseIPv6_def Let_def split: prod.splits if_splits option.splits dest: parseIPv6_loop_length)

lemma ParseAddr_length:
  assumes "ParseAddr s = Some a"
  shows "case a of Addr4 ip \<Rightarrow> length ip = 4 | Addr6 ip _ \<Rightarrow> length ip = 16"
proof -
  have "ParseAddr_scan w t = Some a \<Longrightarrow> (case a of Addr4 ip \<Rightarrow> length ip = 4 | Addr6 ip _ \<Rightarrow> length ip = 16)" for w t
    by (induction w t rule: ParseAddr_scan.induct) (auto split: if_splits dest: parseIPv4_length parseIPv6_length)
  with assms show ?thesis by (simp add: ParseAddr_def)
qed

lemma ParsePrefix_valid: "ParsePrefix s = Some pfx \<Longrightarrow> valid_prefix pfx"
  using ParseAddr_length
  by (fastforce simp: ParsePrefix_def valid_prefix_def addr_bytes_def BitLen_def split: option.splits prod.splits if_splits netip_addr.splits)

subsection \<open>Which operations touch the table of addresses\<close>

lemma allowed_frame [simp]:
  "wd_allowedips (upd_peer p f d) = wd_allowedips d" "wd_allowedips (put_nd nd d) = wd_allowedips d"
  "wd_allowedips (next_tick d) = wd_allowedips d" "wd_allowedips (if_active p f d) = wd_allowedips d"
  "wd_allowedips (snd (SendBuffers env p bufs d)) = wd_allowedips d" "wd_allowedips (snd (add_macs env p pk d)) = wd_allowedips d"
  "wd_allowedips (put_lastSent p d) = wd_allowedips d" "wd_allowedips (put_nonce key n d) = wd_allowedips d"
  "wd_allowedips (start_peer p d) = wd_allowedips d" "wd_allowedips (stop_peer p d) = wd_allowedips d"
  "wd_allowedips (snd (new_peer env pk d)) = wd_allowedips d" "wd_allowedips (remove_from_map pk d) = wd_allowedips d"
  by (auto simp: upd_peer_def put_nd_def next_tick_def if_active_def SendBuffers_def add_macs_def put_lastSent_def put_nonce_def start_peer_def
      stop_peer_def new_peer_def remove_from_map_def Let_def split: option.split prod.split sum.split)

lemma allowed_SendHandshakeInitiation [simp]: "wd_allowedips (SendHandshakeInitiation env r p d) = wd_allowedips d"
  by (simp add: SendHandshakeInitiation_def timersAnyAuthenticatedPacketSent_def timersAnyAuthenticatedPacketTraversal_def timersHandshakeInitiated_def
      Let_def case_prod_beta split: option.split sum.split)

lemma allowed_send [simp]:
  "wd_allowedips (send_staged env p d) = wd_allowedips d" "wd_allowedips (SendKeepalive env p d) = wd_allowedips d"
proof -
  show staged: "wd_allowedips (send_staged env p d) = wd_allowedips d" for d
    by (auto simp: send_staged_def Let_def split: prod.split)
  show "wd_allowedips (SendKeepalive env p d) = wd_allowedips d" by (simp add: SendKeepalive_def staged)
qed

lemma allowed_fold:
  assumes "\<And>x d. wd_allowedips (f x d) = wd_allowedips d"
  shows "wd_allowedips (fold f xs d) = wd_allowedips d"
  using assms by (induction xs arbitrary: d) simp_all

lemma allowed_ok_fold:
  assumes "\<And>x d. allowed_ok (wd_allowedips d) \<Longrightarrow> allowed_ok (wd_allowedips (f x d))"
  shows "allowed_ok (wd_allowedips d) \<Longrightarrow> allowed_ok (wd_allowedips (fold f xs d))"
  using assms by (induction xs arbitrary: d) simp_all

lemma allowed_mark [simp]: "wd_allowedips (each_peer markEndpointSrcForClearing d) = wd_allowedips d"
  by (simp add: each_peer_def allowed_fold markEndpointSrcForClearing_def)

lemma allowed_bind [simp]:
  "wd_allowedips (snd (BindUpdate env d)) = wd_allowedips d" "wd_allowedips (snd (BindSetMark env m d)) = wd_allowedips d"
  by (auto simp: BindUpdate_def BindSetMark_def closeBindLocked_def Let_def split: prod.split sum.split option.split)

lemma allowed_ok_remove:
  assumes "allowed_ok (wd_allowedips d)"
  shows "allowed_ok (wd_allowedips (remove_peer_locked p key d))" "allowed_ok (wd_allowedips (remove_peer key d))"
proof -
  show l: "allowed_ok (wd_allowedips (remove_peer_locked p key d))" for p
    using RemoveByPeer_ok [OF assms] by (simp add: remove_peer_locked_def)
  show "allowed_ok (wd_allowedips (remove_peer key d))" using l assms by (simp add: remove_peer_def split: option.split)
qed

lemma allowed_ok_remove_all: "allowed_ok (wd_allowedips d) \<Longrightarrow> allowed_ok (wd_allowedips (remove_all_peers d))"
  by (auto simp: remove_all_peers_def Let_def intro!: allowed_ok_fold allowed_ok_remove split: prod.split)

lemma allowed_ok_set_key: "allowed_ok (wd_allowedips d) \<Longrightarrow> allowed_ok (wd_allowedips (set_private_key env sk d))"
  by (auto simp: set_private_key_def Let_def intro!: allowed_ok_fold allowed_ok_remove split: prod.split)

lemma allowed_postConfig [simp]: "wd_allowedips (handlePostConfig env s d) = wd_allowedips d"
  by (simp add: handlePostConfig_def Let_def split: ipc_current.split)

subsection \<open>A set operation is a run of the device\<close>

definition current_ok :: "ipcSetPeer \<Rightarrow> ('b, 'ep) wdev \<Rightarrow> bool" where
  "current_ok s d \<longleftrightarrow> (case ip_Peer s of Real_peer p \<Rightarrow> \<exists>key. LookupPeer key (wd_nd d) = Some p | _ \<Rightarrow> True)"

definition reached :: "('b, 'ep) wg_env \<Rightarrow> ('b, 'ep) wdev \<Rightarrow> ('b, 'ep) wdev \<Rightarrow> bool" where
  "reached env d0 d \<longleftrightarrow> life d0 \<and> ready d0 \<and> (wg_step env)\<^sup>*\<^sup>* d0 d \<and> allowed_ok (wd_allowedips d)"

lemma reached_ok: "reached env d0 d \<Longrightarrow> life d \<and> ready d"
  using wg_run_ok moves_ready unfolding reached_def by blast

lemma reached_step: "reached env d0 d \<Longrightarrow> wg_step env d d' \<Longrightarrow> allowed_ok (wd_allowedips d') \<Longrightarrow> reached env d0 d'"
  unfolding reached_def by auto

lemma reached_keep: "reached env d0 d \<Longrightarrow> wg_step env d d' \<Longrightarrow> wd_allowedips d' = wd_allowedips d \<Longrightarrow> reached env d0 d'"
  by (rule reached_step) (simp_all add: reached_def)

lemma current_peer:
  assumes "reached env d0 d" "LookupPeer key (wd_nd d) = Some p"
  shows "peer_ready p d"
proof -
  have "(key, p) \<in> set (nd_keyMap (wd_nd d))" using assms(2) by (auto simp: LookupPeer_def dest: map_of_SomeD)
  then show ?thesis using reached_ok [OF assms(1)] by (auto simp: peer_ready_def ready_def intro: keyMap_peer)
qed

lemma reached_postConfig:
  assumes "reached env d0 d" "current_ok s d"
  shows "reached env d0 (handlePostConfig env s d)"
proof (cases "ip_Peer s")
  case (Real_peer p)
  then obtain key where key: "LookupPeer key (wd_nd d) = Some p" using assms(2) by (auto simp: current_ok_def)
  define d1 where "d1 = (if ip_created s then upd_peer p (\<lambda>w. w\<lparr>wp_disableRoaming := wd_brokenRoaming d \<and> wp_endpoint w \<noteq> None\<rparr>) d else d)"
  have "wg_step env d (upd_peer p (\<lambda>w. w\<lparr>wp_disableRoaming := wd_brokenRoaming d \<and> wp_endpoint w \<noteq> None\<rparr>) d)"
    by (rule wg_step.configure) (simp add: quiet_iff)
  then have r1: "reached env d0 d1" using assms(1) by (auto simp: d1_def intro: reached_keep)
  have k1: "LookupPeer key (wd_nd d1) = Some p" using key by (simp add: d1_def upd_peer_def)
  show ?thesis
  proof (cases "isUp d1")
    case True
    let ?d2 = "start_peer p d1"
    have r2: "reached env d0 ?d2" by (rule reached_keep [OF r1 wg_step.start [OF True k1]]) simp
    have p2: "peer_ready p ?d2"
      using current_peer [OF r1 k1] reached_ok [OF r2] by (simp add: peer_ready_def start_peer_def upd_peer_def put_nd_def Peer_Start_def put_running_def)
    let ?d3 = "if ip_pkaOn s then SendKeepalive env p ?d2 else ?d2"
    have r3: "reached env d0 ?d3" "peer_ready p ?d3"
      using r2 p2 adv_peer_ready [OF adv_keepalive [OF p2] p2] by (auto simp: peer_ready_def intro: reached_keep wg_step.keepalive)
    have "reached env d0 (send_staged env p ?d3)" by (rule reached_keep [OF r3(1) wg_step.staged]) (use r3(2) in \<open>simp_all add: peer_ready_def\<close>)
    moreover have "handlePostConfig env s d = send_staged env p ?d3"
      using Real_peer True by (simp add: handlePostConfig_def Let_def flip: d1_def)
    ultimately show ?thesis by (simp only:)
  next
    case False
    then show ?thesis using r1 Real_peer by (simp add: handlePostConfig_def Let_def flip: d1_def)
  qed
qed (use assms(1) in \<open>simp_all add: handlePostConfig_def\<close>)

lemma deviceLine_cases:
  assumes "Q (Ipc_error IpcErrorInvalid, d)" "\<And>sk. Q (Ipc_ok, set_private_key env sk d)" "Q (Ipc_ok, remove_all_peers d)"
    "\<And>m out. out \<noteq> Ipc_panic \<Longrightarrow> Q (out, snd (BindSetMark env m d))" "\<And>q out. out \<noteq> Ipc_panic \<Longrightarrow> Q (out, snd (BindUpdate env (d\<lparr>wd_port := q\<rparr>)))"
  shows "Q (handleDeviceLine env key val d)"
proof -
  consider "key = ''private_key''" | "key = ''listen_port''" | "key = ''fwmark''" | "key = ''replace_peers''"
    | "key \<notin> {''private_key'', ''listen_port'', ''fwmark'', ''replace_peers''}"
    unfolding insert_iff empty_iff by argo
  then show ?thesis
  proof cases
    case 2
    then show ?thesis using assms(1,5) by (auto simp: handleDeviceLine_def case_prod_beta split: option.split)
  next
    case 3
    then show ?thesis using assms(1,4) by (auto simp: handleDeviceLine_def case_prod_beta split: option.split)
  qed (use assms(1-3) in \<open>simp_all add: handleDeviceLine_def split: option.split\<close>)
qed

lemma peerLine_cases:
  assumes "Q (Ipc_error IpcErrorInvalid, s, d)" "Q (Ipc_ok, s, d)" "Q (Ipc_ok, remove_current s d)" "\<And>psk. Q (Ipc_ok, s, set_preshared s psk d)"
    "\<And>ep. Q (Ipc_ok, s, set_endpoint s ep d)" "\<And>n. Q (Ipc_ok, swap_interval n s d)"
    "\<And>p. ip_Peer s = Real_peer p \<Longrightarrow> Q (Ipc_ok, s, d\<lparr>wd_allowedips := AllowedIPs_RemoveByPeer p (wd_allowedips d)\<rparr>)"
    "\<And>add pfx. valid_prefix pfx \<Longrightarrow> Q (fst (change_allowed add pfx s d), s, snd (change_allowed add pfx s d))"
  shows "Q (handlePeerLine env key val s d)"
proof -
  consider "key = ''update_only''" | "key = ''remove''" | "key = ''preshared_key''" | "key = ''endpoint''" | "key = ''persistent_keepalive_interval''"
    | "key = ''replace_allowed_ips''" | "key = ''allowed_ip''" | "key = ''protocol_version''"
    | "key \<notin> {''update_only'', ''remove'', ''preshared_key'', ''endpoint'', ''persistent_keepalive_interval'', ''replace_allowed_ips'', ''allowed_ip'',
        ''protocol_version''}"
    unfolding insert_iff empty_iff by argo
  then show ?thesis
  proof cases
    case 7
    then show ?thesis using assms(1,8) ParsePrefix_valid by (simp add: handlePeerLine_def Let_def case_prod_beta split: option.split)
  qed (use assms(1-7) in \<open>simp_all add: handlePeerLine_def Let_def split: option.split sum.split ipc_current.split\<close>)
qed

lemma reached_deviceLine:
  assumes "reached env d0 d"
  shows "reached env d0 (snd (handleDeviceLine env key val d)) \<and> fst (handleDeviceLine env key val d) \<noteq> Ipc_panic"
proof -
  have a: "allowed_ok (wd_allowedips d)" using assms by (simp add: reached_def)
  show ?thesis
    by (rule deviceLine_cases [where Q = "\<lambda>r. reached env d0 (snd r) \<and> fst r \<noteq> Ipc_panic"])
      (use assms reached_step [OF assms wg_step.private_key allowed_ok_set_key [OF a]] reached_step [OF assms wg_step.remove_all allowed_ok_remove_all [OF a]]
        reached_keep [OF assms wg_step.mark] reached_keep [OF assms wg_step.listen_port] in simp_all)
qed

lemma reached_publicKeyLine:
  assumes "reached env d0 d"
  shows "reached env d0 (snd (snd (handlePublicKeyLine env val s d))) \<and> fst (handlePublicKeyLine env val s d) \<noteq> Ipc_panic \<and>
    (fst (handlePublicKeyLine env val s d) = Ipc_ok \<longrightarrow> current_ok (fst (snd (handlePublicKeyLine env val s d))) (snd (snd (handlePublicKeyLine env val s d))))"
proof -
  have "reached env d0 (snd (new_peer env pk d))" for pk by (rule reached_keep [OF assms wg_step.create]) simp
  then have "reached env d0 d'" if "new_peer env pk d = (r, d')" for pk r d' using that by (metis snd_conv)
  moreover have "\<exists>key. LookupPeer key (wd_nd d') = Some p" if "new_peer env pk d = (Ok p, d')" for pk p d'
    using that by (intro exI [of _ pk]) (auto simp: new_peer_def NewPeer_def LookupPeer_def upd_peer_def put_nd_def Let_def split: if_splits)
  ultimately show ?thesis
    using assms by (auto 4 4 simp: handlePublicKeyLine_def current_ok_def split: option.split prod.split sum.split)
qed

lemma current_ok_frame:
  "current_ok s (upd_peer p f d) = current_ok s d" "current_ok s (d\<lparr>wd_allowedips := a\<rparr>) = current_ok s d"
  "current_ok s (put_nd (put_handshake p h (wd_nd d)) d) = current_ok s d"
  by (simp_all add: current_ok_def upd_peer_def put_nd_def put_handshake_def LookupPeer_def split: ipc_current.split)

lemma reached_peerLine:
  assumes "reached env d0 d" "current_ok s d"
  shows "reached env d0 (snd (snd (handlePeerLine env key val s d))) \<and> fst (handlePeerLine env key val s d) \<noteq> Ipc_panic \<and>
    (fst (handlePeerLine env key val s d) = Ipc_ok \<longrightarrow> current_ok (fst (snd (handlePeerLine env key val s d))) (snd (snd (handlePeerLine env key val s d))))"
proof -
  have a: "allowed_ok (wd_allowedips d)" using assms by (simp add: reached_def)
  have p: "p < nd_npeers (wd_nd d)" if "ip_Peer s = Real_peer p" for p
    using current_peer [OF assms(1)] assms(2) that by (auto simp: current_ok_def peer_ready_def)
  have cfg: "reached env d0 (upd_peer p f d)" if "\<And>w. quiet w \<Longrightarrow> quiet (f w)" for p f
    by (rule reached_keep [OF assms(1) wg_step.configure]) (simp_all add: that)
  have tbl: "reached env d0 (d\<lparr>wd_allowedips := t\<rparr>)" if "allowed_ok t" for t
    by (rule reached_step [OF assms(1) wg_step.allowed_ips]) (simp add: that)
  have rm: "reached env d0 (remove_peer k d)" for k by (rule reached_step [OF assms(1) wg_step.remove allowed_ok_remove(2) [OF a]])
  have psk: "reached env d0 (set_preshared s k d)" for k
    using assms(1) p by (auto simp: set_preshared_def split: ipc_current.split intro!: reached_keep [OF assms(1) wg_step.preshared_key])
  have "reached env d0 (snd (change_allowed add pfx s d)) \<and> fst (change_allowed add pfx s d) \<noteq> Ipc_panic \<and> current_ok s (snd (change_allowed add pfx s d))"
    if pfx: "valid_prefix pfx" for add pfx
  proof (cases "ip_Peer s")
    case (Real_peer q)
    obtain t where "(if add then AllowedIPs_Insert pfx q (wd_allowedips d) else AllowedIPs_Remove pfx q (wd_allowedips d)) = Some t" "allowed_ok t"
      using Insert_ok [OF a pfx] Remove_ok [OF a pfx] by metis
    then show ?thesis using assms(2) tbl Real_peer by (simp add: change_allowed_def current_ok_frame)
  qed (use assms in \<open>simp_all add: change_allowed_def\<close>)
  moreover have "current_ok s (set_preshared s k d)" "current_ok s (set_endpoint s ep d)" for k ep
    using assms(2) by (simp_all add: set_preshared_def set_endpoint_def current_ok_frame split: ipc_current.split)
  moreover have "reached env d0 (set_endpoint s ep d)" for ep
    using assms(1) by (auto simp: set_endpoint_def quiet_iff split: ipc_current.split intro!: cfg)
  moreover have "reached env d0 (snd (remove_current s d)) \<and> current_ok (fst (remove_current s d)) (snd (remove_current s d))"
    using assms rm by (auto simp: remove_current_def current_ok_def split: ipc_current.split)
  moreover have "reached env d0 (snd (swap_interval n s d)) \<and> current_ok (fst (swap_interval n s d)) (snd (swap_interval n s d))" for n
    using assms by (auto simp: swap_interval_def quiet_iff split: ipc_current.split intro!: cfg) (auto simp: current_ok_def upd_peer_def)
  ultimately show ?thesis
    by (intro peerLine_cases [where Q = "\<lambda>r. reached env d0 (snd (snd r)) \<and> fst r \<noteq> Ipc_panic \<and>
        (fst r = Ipc_ok \<longrightarrow> current_ok (fst (snd r)) (snd (snd r)))"])
      (use assms psk tbl RemoveByPeer_ok [OF a] in \<open>simp_all add: current_ok_frame\<close>)
qed

lemma reached_lines:
  "reached env d0 d \<Longrightarrow> current_ok s d \<Longrightarrow> (dc \<Longrightarrow> ip_Peer s = No_peer) \<Longrightarrow>
   reached env d0 (snd (ipc_lines env ls long dc s d)) \<and> fst (ipc_lines env ls long dc s d) \<noteq> Ipc_panic"
proof (induction ls arbitrary: dc s d)
  case Nil
  then show ?case using reached_postConfig by simp
next
  case (Cons l ls)
  note prems = Cons.prems(1,2)
  have line: "reached env d0 (snd (snd (snd (ipc_line env key val dc s d)))) \<and> fst (ipc_line env key val dc s d) \<noteq> Ipc_panic \<and>
      (fst (ipc_line env key val dc s d) = Ipc_ok \<longrightarrow>
        current_ok (fst (snd (snd (ipc_line env key val dc s d)))) (snd (snd (snd (ipc_line env key val dc s d))))) \<and>
      (fst (snd (ipc_line env key val dc s d)) \<longrightarrow> ip_Peer (fst (snd (snd (ipc_line env key val dc s d)))) = No_peer)" for key val
  proof (cases "key \<noteq> ''public_key'' \<and> dc")
    case True
    then show ?thesis
      using reached_deviceLine [OF prems(1), of key val] Cons.prems(3) by (simp add: ipc_line_def current_ok_def case_prod_beta)
  next
    case False
    then show ?thesis
      using reached_publicKeyLine [OF reached_postConfig [OF prems], of val s] reached_peerLine [OF prems, of key val]
      by (auto simp: ipc_line_def case_prod_beta)
  qed
  show ?case
  proof (cases "l = [] \<or> Cut l ''='' = None")
    case True
    then show ?thesis using reached_postConfig [OF prems] prems(1) by (auto split: option.split)
  next
    case False
    then obtain key val where cut: "Cut l ''='' = Some (key, val)" by auto
    obtain out dc' s' d' where step: "ipc_line env key val dc s d = (out, dc', s', d')" by (metis prod_cases4)
    show ?thesis using line [of key val] False cut step Cons.IH [of d' s' dc'] by (cases out) simp_all
  qed
qed


subsection \<open>Reading back what was printed\<close>

lemma hex_char_simps: "n < 16 \<Longrightarrow> is_hex (hex_char n)" "n < 16 \<Longrightarrow> hex_digit (hex_char n) = n"
  by (auto simp: hex_char_def is_hex_def is_digit_def hex_digit_def Let_def)

lemma hex_plain: "\<not> is_hex (CHR 0x0A)" "\<not> is_hex (CHR 0x0D)"
  by (simp_all add: is_hex_def is_digit_def)

lemma high_digit: "unat (x :: byte) div 16 < 16"
  using unsigned_less [of x, where 'a = nat] by simp

lemma hex_DecodeString_hexString: "hex_DecodeString (hexString b) = Some b"
proof (induction b)
  case (Cons x b)
  have "of_nat (hex_digit (hex_char (unat x div 16)) * 16 + hex_digit (hex_char (unat x mod 16))) = x"
    by (simp add: hex_char_simps high_digit del: of_nat_add of_nat_mult)
  with Cons show ?case by (simp add: hexString_def hex_byte_def hex_char_simps high_digit)
qed (simp add: hexString_def)

lemma hexString_plain: "CHR 0x0A \<notin> set (hexString b)" "CHR 0x0D \<notin> set (hexString b)" "length (hexString b) = 2 * length b"
proof -
  have "is_hex c" if "c \<in> set (hexString b)" for c using that by (auto simp: hexString_def hex_byte_def hex_char_simps high_digit)
  then show "CHR 0x0A \<notin> set (hexString b)" "CHR 0x0D \<notin> set (hexString b)" using hex_plain by blast+
  show "length (hexString b) = 2 * length b" by (induction b) (simp_all add: hexString_def hex_byte_def)
qed

lemma key_FromHex_hexString: "length k = 32 \<Longrightarrow> key_FromHex (hexString k) = Some k"
  by (simp add: key_FromHex_def loadExactHex_def hex_DecodeString_hexString)

lemma concat_lines: "concat (map (\<lambda>l. l @ [c]) ls) = Join (ls @ [[]]) [c]"
  by (induction ls rule: induct_list012) simp_all

lemma Split_lines:
  assumes "\<forall>l\<in>set ls. c \<notin> set l"
  shows "Split (concat (map (\<lambda>l. l @ [c]) ls)) [c] = ls @ [[]]"
  using Split_Join [of "ls @ [[]]" c] assms by (simp add: concat_lines)

lemma scan_lines_text:
  assumes "\<forall>l\<in>set ls. CHR 0x0A \<notin> set l \<and> length l < 65536 \<and> dropCR l = l"
  shows "scan_lines (concat (map (\<lambda>l. l @ NL) ls)) = (ls, False)"
proof -
  have t: "takeWhile (\<lambda>l. length l < 65536) ls = ls" "\<not> list_ex (\<lambda>l. 65536 \<le> length l) ls" "map dropCR ls = ls"
    using assms by (auto simp: takeWhile_eq_all_conv list_ex_iff intro: map_idI)
  show ?thesis using assms by (simp add: scan_lines_def Split_lines Let_def t)
qed

lemma Cut_line: "CHR ''='' \<notin> set key \<Longrightarrow> Cut (key @ ''='' @ val) ''='' = Some (key, val)"
  using Cut_char_append [of "CHR ''=''" key val] by simp

lemma lpm_default:
  assumes "m [] = Some p" "\<And>q. q \<noteq> [] \<Longrightarrow> m q = None"
  shows "lpm m q = Some p"
proof (induction q rule: rev_induct)
  case Nil
  then show ?case using assms(1) by (simp add: lpm.simps)
next
  case (snoc x q)
  then show ?case using assms(2) [of "q @ [x]"] by (subst lpm.simps) simp
qed

subsection \<open>The configuration the VPN manager writes\<close>

definition ipc_conf :: "byte list \<Rightarrow> byte list \<Rightarrow> string \<Rightarrow> string list" where
  "ipc_conf priv pub endpoint =
     [''private_key'' @ ''='' @ hexString priv, ''replace_peers'' @ ''='' @ ''true'', ''public_key'' @ ''='' @ hexString pub, ''endpoint'' @ ''='' @ endpoint,
      ''persistent_keepalive_interval'' @ ''='' @ ''25'', ''replace_allowed_ips'' @ ''='' @ ''true'', ''allowed_ip'' @ ''='' @ ''0.0.0.0/0'',
      ''allowed_ip'' @ ''='' @ ''::/0'', []]"

lemma buildIPC_lines: "buildIPC priv pub endpoint = concat (map (\<lambda>l. l @ NL) (ipc_conf priv pub endpoint))"
  by (simp add: buildIPC_def ipc_conf_def)

lemma scan_buildIPC:
  assumes "length priv = 32" "length pub = 32" "CHR 0x0A \<notin> set endpoint" "CHR 0x0D \<notin> set endpoint" "length endpoint < 65000"
  shows "scan_lines (buildIPC priv pub endpoint) = (ipc_conf priv pub endpoint, False)"
proof -
  have "dropCR l = l" if "CHR 0x0D \<notin> set l" for l using that by (cases l rule: rev_cases) (auto simp: dropCR_def)
  then show ?thesis
    unfolding buildIPC_lines using assms by (intro scan_lines_text) (auto simp: ipc_conf_def hexString_plain)
qed

lemma both_defaults: "ParsePrefix ''0.0.0.0/0'' = Some (Addr4 [0, 0, 0, 0], 0)" "ParsePrefix ''::/0'' = Some (Addr6 (replicate 16 0) [], 0)"
  by code_simp+

text \<open>The device after the lines, with the table of addresses that the last three of them make.\<close>

lemma default_table:
  fixes p :: nat
  obtains t1 t2 where "AllowedIPs_Insert (Addr4 [0, 0, 0, 0], 0) p (AllowedIPs_RemoveByPeer p empty_table) = Some t1"
    "AllowedIPs_Insert (Addr6 (replicate 16 0) [], 0) p t1 = Some t2" "\<And>ip. ip_size (length ip) \<Longrightarrow> AllowedIPs_Lookup ip t2 = Some (Some p)"
proof -
  let ?xs = "[Op_RemoveByPeer p, Op_Insert (Addr4 [0, 0, 0, 0], 0) p, Op_Insert (Addr6 (replicate 16 0) [], 0) p]"
  have "list_all valid_op ?xs" by (simp add: valid_prefix_def addr_bytes_def)
  from run_from_empty [OF this] obtain t2 where t2: "op_run ?xs empty_table = Some t2" "allowed_ok t2" "table_map t2 = fold map_step ?xs Map.empty"
    by blast
  then have m: "table_map t2 = Map.empty((4, []) \<mapsto> p, (16, []) \<mapsto> p)"
    by (simp add: prefix_key_def akey_def addr_bytes_def eval_nat_numeral)
  obtain t1 where "AllowedIPs_Insert (Addr4 [0, 0, 0, 0], 0) p (AllowedIPs_RemoveByPeer p empty_table) = Some t1"
    "AllowedIPs_Insert (Addr6 (replicate 16 0) [], 0) p t1 = Some t2"
    using t2(1) by (auto split: option.splits)
  moreover have "AllowedIPs_Lookup ip t2 = Some (Some p)" if "ip_size (length ip)" for ip
    using Lookup_lpm [OF t2(2) that] lpm_default [of "\<lambda>q. table_map t2 (length ip, q)" p "bits_of ip"] that by (auto simp: m ip_size_def)
  ultimately show thesis using that by blast
qed

lemma set_key_new:
  "sk \<noteq> replicate 32 0 \<Longrightarrow> set_private_key env sk (NewDevice env mtu b en) =
     (NewDevice env mtu b en)\<lparr>wd_nd := (wd_nd (NewDevice env mtu b en))\<lparr>nd_privateKey := sk, nd_publicKey := publicKey (we_noise env) sk\<rparr>,
       wd_cookieChecker := CookieChecker_Init (we_cookie env) (publicKey (we_noise env) sk) zero_checker\<rparr>"
  by (simp add: set_private_key_def NewDevice_def Let_def put_nd_def)

lemma ipc_step:
  "ipc_line env k v dc s d = (Ipc_ok, dc', s', d') \<Longrightarrow> CHR ''='' \<notin> set k \<Longrightarrow>
   ipc_lines env ((k @ ''='' @ v) # ls) long dc s d = ipc_lines env ls long dc' s' d'"
  by (simp add: Cut_char_append)

lemma remove_none: "nd_keyMap (wd_nd d) = [] \<Longrightarrow> remove_all_peers d = d"
proof -
  assume "nd_keyMap (wd_nd d) = []"
  then have "(wd_nd d)\<lparr>nd_keyMap := []\<rparr> = wd_nd d" by (cases "wd_nd d") simp
  then have "put_nd ((wd_nd d)\<lparr>nd_keyMap := []\<rparr>) d = d" by (cases d) (simp add: put_nd_def)
  with \<open>nd_keyMap (wd_nd d) = []\<close> show ?thesis by (simp add: remove_all_peers_def)
qed

definition configured_device :: "('b, 'ep) wg_env \<Rightarrow> byte list \<Rightarrow> byte list \<Rightarrow> 'ep \<Rightarrow> nat AllowedIPs \<Rightarrow> ('b, 'ep) wdev \<Rightarrow> ('b, 'ep) wdev" where
  "configured_device env priv pub ep tbl d =
     (let d = snd (new_peer env pub (set_private_key env (clamp priv) d))
      in upd_peer 0 (\<lambda>w. w\<lparr>wp_endpoint := Some ep, wp_persistentKeepaliveInterval := 25, wp_disableRoaming := False\<rparr>) (d\<lparr>wd_allowedips := tbl\<rparr>))"

lemma clamp_nonzero: "length k = 32 \<Longrightarrow> clamp k \<noteq> replicate 32 0"
proof
  assume "length k = 32" "clamp k = replicate 32 0"
  then have "clamp k ! 31 = 0" by simp
  moreover have "clamp k ! 31 = (k ! 31 AND 127) OR 64" using \<open>length k = 32\<close> by (simp add: clamp_def)
  ultimately have "bit ((k ! 31 AND 127) OR 64) 6 = bit (0 :: byte) 6" by simp
  then show False by (simp add: bit_simps)
qed

lemma buildIPC_configures:
  assumes "length priv = 32" "priv \<noteq> replicate 32 0" "length pub = 32" "pub \<noteq> publicKey (we_noise env) (clamp priv)"
    "ParseEndpoint env endpoint = Ok ep" "CHR 0x0A \<notin> set endpoint" "CHR 0x0D \<notin> set endpoint" "length endpoint < 65000"
  obtains tbl where "IpcSetOperation env (buildIPC priv pub endpoint) (NewDevice env mtu b en) = (Ipc_ok, configured_device env priv pub ep tbl (NewDevice env mtu b en))"
    "\<And>ip. ip_size (length ip) \<Longrightarrow> AllowedIPs_Lookup ip tbl = Some (Some 0)"
proof -
  obtain t1 t2 where t: "AllowedIPs_Insert (Addr4 [0, 0, 0, 0], 0) (0 :: nat) (AllowedIPs_RemoveByPeer 0 empty_table) = Some t1"
    "AllowedIPs_Insert (Addr6 (replicate 16 0) [], 0) 0 t1 = Some t2" "\<And>ip. ip_size (length ip) \<Longrightarrow> AllowedIPs_Lookup ip t2 = Some (Some 0)"
    using default_table by blast
  let ?s0 = "\<lparr>ip_Peer = No_peer, ip_created = False, ip_pkaOn = False\<rparr>" and ?d0 = "NewDevice env mtu b en"
  let ?s1 = "\<lparr>ip_Peer = Real_peer 0, ip_created = True, ip_pkaOn = False\<rparr>" and ?s2 = "\<lparr>ip_Peer = Real_peer 0, ip_created = True, ip_pkaOn = True\<rparr>"
  let ?d1 = "set_private_key env (clamp priv) ?d0"
  let ?d3 = "snd (new_peer env pub ?d1)"
  let ?d4 = "upd_peer 0 (\<lambda>w. w\<lparr>wp_endpoint := Some ep\<rparr>) ?d3"
  let ?d5 = "upd_peer 0 (\<lambda>w. w\<lparr>wp_persistentKeepaliveInterval := 25\<rparr>) ?d4"
  let ?d6 = "?d5\<lparr>wd_allowedips := AllowedIPs_RemoveByPeer 0 empty_table\<rparr>"
  let ?d7 = "?d6\<lparr>wd_allowedips := t1\<rparr>" and ?d8 = "?d6\<lparr>wd_allowedips := t2\<rparr>"
  have d1: "nd_keyMap (wd_nd ?d1) = []" "nd_closed (wd_nd ?d1) = False" "nd_npeers (wd_nd ?d1) = 0" "nd_publicKey (wd_nd ?d1) = publicKey (we_noise env) (clamp priv)"
    "\<not> isUp ?d1" "wd_allowedips ?d1 = empty_table" "wd_brokenRoaming ?d1 = False"
    using set_key_new [OF clamp_nonzero [OF assms(1)], of env mtu b en] by (simp_all add: NewDevice_def isUp_def)
  have new: "new_peer env pub ?d1 = (Ok 0, ?d3)" and w: "wp_persistentKeepaliveInterval (wd_peers ?d3 0) = 0" and up: "\<not> isUp ?d3"
    and tbl: "wd_allowedips ?d3 = empty_table" and roam: "wd_brokenRoaming ?d3 = False"
    using d1 by (simp_all add: new_peer_def NewPeer_def Let_def upd_peer_def put_nd_def new_wpeer_def isUp_def)
  have "FromMaybeZeroHex (hexString priv) = Some (clamp priv)"
    using assms(1,2) by (simp add: FromMaybeZeroHex_def loadExactHex_def hex_DecodeString_hexString)
  then have 1: "ipc_line env ''private_key'' (hexString priv) True ?s0 ?d0 = (Ipc_ok, True, ?s0, ?d1)"
    by (simp add: ipc_line_def handleDeviceLine_def)
  have 2: "ipc_line env ''replace_peers'' ''true'' True ?s0 ?d1 = (Ipc_ok, True, ?s0, ?d1)"
    using d1(1) by (simp add: ipc_line_def handleDeviceLine_def remove_none)
  have 3: "ipc_line env ''public_key'' (hexString pub) True ?s0 ?d1 = (Ipc_ok, False, ?s1, ?d3)"
  proof -
    obtain d' where n: "new_peer env pub ?d1 = (Ok 0, d')" using new by blast
    show ?thesis using assms(3,4) d1 by (simp add: ipc_line_def handlePostConfig_def handlePublicKeyLine_def key_FromHex_hexString LookupPeer_def n)
  qed
  have 4: "ipc_line env ''endpoint'' endpoint False ?s1 ?d3 = (Ipc_ok, False, ?s1, ?d4)"
    using assms(5) by (simp add: ipc_line_def handlePeerLine_def set_endpoint_def)
  have "ParseUint16 ''25'' = Some 25" by (simp add: ParseUint16_def is_digit_def digits_val_def digit_val_def)
  then have 5: "ipc_line env ''persistent_keepalive_interval'' ''25'' False ?s1 ?d4 = (Ipc_ok, False, ?s2, ?d5)"
    using w by (simp add: ipc_line_def handlePeerLine_def swap_interval_def upd_peer_def)
  have 6: "ipc_line env ''replace_allowed_ips'' ''true'' False ?s2 ?d5 = (Ipc_ok, False, ?s2, ?d6)"
    using tbl by (simp add: ipc_line_def handlePeerLine_def)
  have 7: "ipc_line env ''allowed_ip'' ''0.0.0.0/0'' False ?s2 ?d6 = (Ipc_ok, False, ?s2, ?d7)"
    using t(1) by (simp add: ipc_line_def handlePeerLine_def both_defaults HasPrefix_def change_allowed_def)
  have 8: "ipc_line env ''allowed_ip'' ''::/0'' False ?s2 ?d7 = (Ipc_ok, False, ?s2, ?d8)"
    using t(2) by (simp add: ipc_line_def handlePeerLine_def both_defaults HasPrefix_def change_allowed_def)
  have 9: "ipc_lines env [[]] False False ?s2 ?d8 = (Ipc_ok, configured_device env priv pub ep t2 ?d0)"
    using up roam by (simp add: handlePostConfig_def configured_device_def Let_def isUp_def upd_peer_def)
  have "IpcSetOperation env (buildIPC priv pub endpoint) ?d0 = ipc_lines env (ipc_conf priv pub endpoint) False True ?s0 ?d0"
    by (simp add: IpcSetOperation_def scan_buildIPC [OF assms(1,3,6,7,8)])
  also have "\<dots> = ipc_lines env [[]] False False ?s2 ?d8"
    unfolding ipc_conf_def
    by (subst ipc_step [OF 1], simp, subst ipc_step [OF 2], simp, subst ipc_step [OF 3], simp, subst ipc_step [OF 4], simp, subst ipc_step [OF 5], simp, subst ipc_step [OF 6], simp, subst ipc_step [OF 7], simp, subst ipc_step [OF 8], simp, simp)
  finally show thesis using 9 that t(3) by simp
qed

lemma BindUpdate_opens:
  assumes "\<And>b. fst (bind_Close env b) = None" "\<And>q b. is_ok (fst (bind_Open env q b))" "\<And>b. fst (startRouteListener env b) = None" "wd_fwmark d = 0"
  shows "fst (BindUpdate env d) = None"
proof -
  obtain b1 where c: "closeBindLocked env d = (None, d\<lparr>wd_bind := b1\<rparr>)"
    using assms(1) [of "wd_bind d"] by (cases "bind_Close env (wd_bind d)") (simp add: closeBindLocked_def)
  obtain port b2 where o: "bind_Open env (wd_port d) b1 = (Ok port, b2)"
    using assms(2) [of "wd_port d" b1] by (cases "bind_Open env (wd_port d) b1") (auto simp: is_ok_iff)
  obtain b3 where l: "startRouteListener env b2 = (None, b3)" using assms(3) [of b2] by (cases "startRouteListener env b2") simp
  show ?thesis using assms(4) by (simp add: BindUpdate_def c o l)
qed

lemma configured_up:
  assumes "life d" "ready d" "wd_state d = deviceStateDown" "nd_keyMap (wd_nd d) = [(pub, p)]" "fst (BindUpdate env (d\<lparr>wd_state := deviceStateUp\<rparr>)) = None"
  obtains d' where "device_Up env d = (None, d')" "isUp d'" "isRunning p d'" "nd_keyMap (wd_nd d') = [(pub, p)]"
proof -
  obtain d1 where b: "BindUpdate env (d\<lparr>wd_state := deviceStateUp\<rparr>) = (None, d1)" using assms(5) by (cases "BindUpdate env (d\<lparr>wd_state := deviceStateUp\<rparr>)") simp
  have i: "wd_nd d1 = wd_nd d" "wd_state d1 = deviceStateUp" "wd_ent d1 = wd_ent d"
    using idle_BindUpdate [of "d\<lparr>wd_state := deviceStateUp\<rparr>" env] b by (simp_all add: idle_def)
  let ?d2 = "start_peer p d1"
  have "\<not> isRunning p d" using assms(1,3) by (auto simp: life_def isUp_def)
  then have nd2: "wd_nd ?d2 = Peer_Start (now_of d1) p (wd_nd d)" "wd_ent ?d2 = wd_ent d1"
    using i by (simp_all add: start_peer_def isClosed_def isRunning_def upd_peer_def put_nd_def)
  have p: "p < nd_npeers (wd_nd d)" using assms(2,4) keyMap_peer [of "wd_nd d" pub p] by (simp add: ready_def)
  have "ready d1" using assms(2) i by (simp add: ready_def)
  moreover have "moves env d1 ?d2" using p i nd2 by (auto intro!: moves_step device_step.peer peer_step.start_peer)
  ultimately have r2: "ready ?d2" by (blast intro: moves_ready)
  have run: "isRunning p ?d2" "nd_keyMap (wd_nd ?d2) = [(pub, p)]" "isUp ?d2" "p < nd_npeers (wd_nd ?d2)"
    using \<open>\<not> isRunning p d\<close> assms(1,3,4) p i by (auto simp: nd2 isRunning_def isUp_def Peer_Start_def put_running_def life_def kept_def isClosed_def)
  let ?d3 = "if 0 < wp_persistentKeepaliveInterval (wd_peers ?d2 p) then SendKeepalive env p ?d2 else ?d2"
  have "advances env ?d2 ?d3" using adv_keepalive [of p ?d2 env] r2 run by (simp add: peer_ready_def)
  then have d3: "isRunning p ?d3" "nd_keyMap (wd_nd ?d3) = [(pub, p)]" "isUp ?d3"
    using run by (auto simp: advances_def same_peers_def isRunning_def isUp_def)
  have "device_Up env d = (None, ?d3)"
    using assms(3,4) i b by (simp add: device_Up_def changeState_def upLocked_def each_peer_def Let_def)
  then show thesis using that d3 by blast
qed


subsection \<open>Statistics\<close>

definition kv_line :: "string \<times> string \<Rightarrow> string" where
  "kv_line kv = fst kv @ ''='' @ snd kv"

definition peer_kvs :: "('b, 'ep) wg_env \<Rightarrow> ('b, 'ep) wdev \<Rightarrow> nat \<Rightarrow> (string \<times> string) list" where
  "peer_kvs env d p =
     (let h = nd_handshake (wd_nd d) p; w = wd_peers d p; nano = wp_lastHandshakeNano w
      in [(''public_key'', hexString (hs_remoteStatic h)), (''preshared_key'', hexString (hs_presharedKey h)), (''protocol_version'', ''1'')] @
         (case wp_endpoint w of None \<Rightarrow> [] | Some ep \<Rightarrow> [(''endpoint'', DstToString env ep)]) @
         [(''last_handshake_time_sec'', Itoa (nano sdiv second)), (''last_handshake_time_nsec'', Itoa (nano smod second)),
          (''tx_bytes'', Uitoa (unat (wp_txBytes w))), (''rx_bytes'', Uitoa (unat (wp_rxBytes w))),
          (''persistent_keepalive_interval'', Uitoa (unat (wp_persistentKeepaliveInterval w)))] @
         map (\<lambda>k. (''allowed_ip'', Prefix_String (AddrFromSlice (fst k), snd k))) (trieEntries (wd_allowedips d) p))"

definition device_kvs :: "('b, 'ep) wdev \<Rightarrow> (string \<times> string) list" where
  "device_kvs d =
     (if nd_privateKey (wd_nd d) \<noteq> replicate 32 0 then [(''private_key'', hexString (nd_privateKey (wd_nd d)))] else []) @
     (if wd_port d \<noteq> 0 then [(''listen_port'', Uitoa (unat (wd_port d)))] else []) @
     (if wd_fwmark d \<noteq> 0 then [(''fwmark'', Uitoa (unat (wd_fwmark d)))] else [])"

lemma entries_lines:
  "each_entry (\<lambda>pfx out. (True, out @ f pfx)) ks out = out @ concat (map (\<lambda>k. f (AddrFromSlice (fst k), snd k)) ks)"
  by (induction ks arbitrary: out) auto

lemma concat_map_concat: "concat (map f (concat xss)) = concat (map (\<lambda>xs. concat (map f xs)) xss)"
  by (induction xss) simp_all

lemma get_lines:
  "IpcGetOperation env d =
     concat (map (\<lambda>l. l @ NL) (map kv_line (device_kvs d @ concat (map (peer_kvs env d) (map snd (nd_keyMap (wd_nd d)))))))"
proof -
  have kv: "sendf k v = kv_line (k, v) @ NL" "keyf k b = kv_line (k, hexString b) @ NL" for k v b by (simp_all add: sendf_def keyf_def kv_line_def)
  have "get_peer env d p = concat (map (\<lambda>l. l @ NL) (map kv_line (peer_kvs env d p)))" for p
    by (simp add: get_peer_def peer_kvs_def Let_def EntriesForPeer_def entries_lines kv split_beta o_def split: option.split)
  then show ?thesis by (simp add: IpcGetOperation_def device_kvs_def kv o_def split_beta concat_map_concat)
qed

lemma plain_digits: "is_digit c \<Longrightarrow> is_hex c" by (simp add: is_hex_def)

lemma Uitoa_plain: "c \<in> set (Uitoa n) \<Longrightarrow> is_hex c"
  using Uitoa_digits [of n] by (auto simp: list_all_iff intro: plain_digits)

lemma hex_string_plain: "c \<in> set (hex_string n) \<Longrightarrow> is_hex c"
proof (induction n rule: hex_string.induct)
  case (1 n)
  then show ?case by (subst (asm) (2) hex_string.simps) (auto simp: hex_char_simps split: if_splits)
qed

lemma v6_groups_plain: "CHR 0x0A \<notin> set (v6_groups b i j)"
  using set_Join [of "map (\<lambda>k. hex_string (v6u16 b k)) [i..<j]" "'':''"] hex_string_plain [of "CHR 0x0A"] hex_plain(1)
  by (auto simp: v6_groups_def)

lemma v4_string_plain: "CHR 0x0A \<notin> set (v4_string b)"
  using set_Join [of "map (\<lambda>x. Uitoa (unat x)) b" "''.''"] Uitoa_plain [of "CHR 0x0A"] hex_plain(1) by (auto simp: v4_string_def)

lemma prefix_plain: "CHR 0x0A \<notin> set (Prefix_String (AddrFromSlice b, n))"
proof -
  have "CHR 0x0A \<notin> set (v6_string b)" by (auto simp: v6_string_def v6_groups_plain split: prod.split)
  then have "CHR 0x0A \<notin> set (Addr_String a)" if "AddrFromSlice b = Some a" for a
    using that by (auto simp: AddrFromSlice_def Addr_String_def v4_string_plain split: if_splits)
  then show ?thesis using Uitoa_plain [of "CHR 0x0A"] hex_plain(1) by (auto simp: Prefix_String_def split: option.split)
qed

lemma Itoa_plain: "CHR 0x0A \<notin> set (Itoa i)"
  using Uitoa_plain [of "CHR 0x0A"] hex_plain(1) by (auto simp: Itoa_def)

lemma TrimSpace_plain: "(\<And>c. c \<in> set s \<Longrightarrow> \<not> isSpace c) \<Longrightarrow> TrimSpace s = s"
  by (cases s; cases s rule: rev_cases) (auto simp: TrimSpace_id_iff)

lemma ParseInt64_Itoa:
  assumes "- (2 ^ 63) \<le> i" "i < 2 ^ 63"
  shows "ParseInt64 (TrimSpace (Itoa i)) = Some i"
proof -
  have d: "is_digit c" if "c \<in> set (Uitoa n)" for c n using that Uitoa_digits [of n] by (simp add: list_all_iff)
  have "\<not> isSpace c" if "is_digit c" for c using that by (auto simp: is_digit_def isSpace_def)
  with d have "\<not> isSpace c" if "c \<in> set (Itoa i)" for c using that by (auto simp: Itoa_def isSpace_def split: if_splits)
  then have t: "TrimSpace (Itoa i) = Itoa i" by (rule TrimSpace_plain)
  have h: "\<not> HasPrefix (Uitoa n) ''-''" "\<not> HasPrefix (Uitoa n) ''+''" for n
    using d [of "hd (Uitoa n)" n] by (cases "Uitoa n"; auto simp: HasPrefix_def is_digit_def)+
  show ?thesis
    unfolding t using assms h Uitoa_digits by (auto simp: ParseInt64_def Itoa_def Let_def HasPrefix_def)
qed

lemma stats_kv:
  assumes "CHR ''='' \<notin> set k"
  shows "k \<notin> {''tx_bytes'', ''rx_bytes'', ''last_handshake_time_sec''} \<Longrightarrow> stats_line s (kv_line (k, v)) = s"
    "ParseInt64 (TrimSpace v) = Some n \<Longrightarrow> stats_line s (kv_line (''tx_bytes'', v)) = s\<lparr>TxBytes := wrap64 (TxBytes s + n)\<rparr>"
    "ParseInt64 (TrimSpace v) = Some n \<Longrightarrow> stats_line s (kv_line (''rx_bytes'', v)) = s\<lparr>RxBytes := wrap64 (RxBytes s + n)\<rparr>"
    "ParseInt64 (TrimSpace v) = Some n \<Longrightarrow> stats_line s (kv_line (''last_handshake_time_sec'', v)) = s\<lparr>LastHandshakeSec := max (LastHandshakeSec s) n\<rparr>"
proof -
  have c: "Cut (kv_line (key, v)) ''='' = Some (key, v)" if "CHR ''='' \<notin> set key" for key using Cut_char_append [OF that] by (simp add: kv_line_def)
  show "k \<notin> {''tx_bytes'', ''rx_bytes'', ''last_handshake_time_sec''} \<Longrightarrow> stats_line s (kv_line (k, v)) = s"
    using c [OF assms] by (simp add: stats_line_def split: option.split)
  show "ParseInt64 (TrimSpace v) = Some n \<Longrightarrow> stats_line s (kv_line (''tx_bytes'', v)) = s\<lparr>TxBytes := wrap64 (TxBytes s + n)\<rparr>"
    "ParseInt64 (TrimSpace v) = Some n \<Longrightarrow> stats_line s (kv_line (''rx_bytes'', v)) = s\<lparr>RxBytes := wrap64 (RxBytes s + n)\<rparr>"
    "ParseInt64 (TrimSpace v) = Some n \<Longrightarrow> stats_line s (kv_line (''last_handshake_time_sec'', v)) = s\<lparr>LastHandshakeSec := max (LastHandshakeSec s) n\<rparr>"
    by (simp_all add: stats_line_def c max_def)
qed

definition peer_secs :: "('b, 'ep) wdev \<Rightarrow> nat \<Rightarrow> int" where
  "peer_secs d p = wp_lastHandshakeNano (wd_peers d p) sdiv second"

lemma peer_secs_range:
  assumes "- (2 ^ 63) \<le> wp_lastHandshakeNano (wd_peers d p)" "wp_lastHandshakeNano (wd_peers d p) < 2 ^ 63"
  shows "- (2 ^ 63) \<le> peer_secs d p" "peer_secs d p < 2 ^ 63"
proof -
  let ?n = "wp_lastHandshakeNano (wd_peers d p)"
  have "\<bar>?n\<bar> div second \<le> 2 ^ 63 div second" using assms by (intro zdiv_mono1) auto
  moreover have "0 \<le> \<bar>?n\<bar> div second" by simp
  moreover have "peer_secs d p = sgn ?n * (\<bar>?n\<bar> div second)" by (simp add: peer_secs_def signed_divide_int_def)
  ultimately show "- (2 ^ 63) \<le> peer_secs d p" "peer_secs d p < 2 ^ 63" by (auto simp: sgn_if)
qed

lemma stats_peer:
  assumes "unat (wp_txBytes (wd_peers d p)) < 2 ^ 63" "unat (wp_rxBytes (wd_peers d p)) < 2 ^ 63"
    "- (2 ^ 63) \<le> wp_lastHandshakeNano (wd_peers d p)" "wp_lastHandshakeNano (wd_peers d p) < 2 ^ 63"
  shows "foldl stats_line s (map kv_line (peer_kvs env d p)) =
    \<lparr>TxBytes = wrap64 (TxBytes s + int (unat (wp_txBytes (wd_peers d p)))), RxBytes = wrap64 (RxBytes s + int (unat (wp_rxBytes (wd_peers d p)))),
     LastHandshakeSec = max (LastHandshakeSec s) (peer_secs d p)\<rparr>"
proof -
  have n: "ParseInt64 (TrimSpace (Uitoa k)) = Some (int k)" if "k < 2 ^ 63" for k
    using ParseInt64_Itoa [of "int k"] that by (simp add: Itoa_def)
  have s: "ParseInt64 (TrimSpace (Itoa (peer_secs d p))) = Some (peer_secs d p)" by (rule ParseInt64_Itoa) (use peer_secs_range assms in blast)+
  have o: "stats_line t (kv_line (k, v)) = t"
    if "k \<in> {''public_key'', ''preshared_key'', ''protocol_version'', ''endpoint'', ''last_handshake_time_nsec'', ''persistent_keepalive_interval'', ''allowed_ip''}"
    for t k v using that by (intro stats_kv(1)) auto
  have a: "foldl stats_line t (map (\<lambda>k. kv_line (''allowed_ip'', f k)) ks) = t" for t f and ks :: "key list" by (induction ks) (simp_all add: o)
  show ?thesis
    unfolding peer_kvs_def Let_def peer_secs_def [symmetric]
    by (cases "wp_endpoint (wd_peers d p)"; cases s)
      (simp_all add: o a o_def stats_kv(2-4) [of "[]"] n [OF assms(1)] n [OF assms(2)] s Stats.defs)
qed

lemma wrap64_add: "wrap64 (wrap64 a + b) = wrap64 (a + b)"
proof -
  have "wrap64 a + b + 2 ^ 63 = (a + 2 ^ 63) mod 2 ^ 64 + b" by (simp add: wrap64_def)
  moreover have "((a + 2 ^ 63) mod 2 ^ 64 + b) mod 2 ^ 64 = (a + b + 2 ^ 63) mod 2 ^ 64" unfolding mod_add_left_eq by (simp add: ac_simps)
  ultimately show ?thesis by (simp only: wrap64_def)
qed

lemma stats_peers:
  assumes "\<forall>p\<in>set ps. unat (wp_txBytes (wd_peers d p)) < 2 ^ 63 \<and> unat (wp_rxBytes (wd_peers d p)) < 2 ^ 63 \<and>
    - (2 ^ 63) \<le> wp_lastHandshakeNano (wd_peers d p) \<and> wp_lastHandshakeNano (wd_peers d p) < 2 ^ 63"
  shows "foldl stats_line \<lparr>TxBytes = wrap64 a, RxBytes = wrap64 b, LastHandshakeSec = c\<rparr> (map kv_line (concat (map (peer_kvs env d) ps))) =
    \<lparr>TxBytes = wrap64 (a + (\<Sum>p\<leftarrow>ps. int (unat (wp_txBytes (wd_peers d p))))), RxBytes = wrap64 (b + (\<Sum>p\<leftarrow>ps. int (unat (wp_rxBytes (wd_peers d p))))),
     LastHandshakeSec = fold max (map (peer_secs d) ps) c\<rparr>"
  using assms
proof (induction ps arbitrary: a b c)
  case (Cons p ps)
  then show ?case by (simp add: stats_peer wrap64_add add.assoc max.commute)
qed simp

text \<open>
  Property C39: the statistics the program reads are those of the device. \<^verbatim>\<open>GetStats\<close>, on the text the get operation writes for any device whose counters
  fit a signed number, returns the sums of the bytes sent and received over all peers, and the latest handshake of any peer, or zero.
\<close>

theorem stats_read_back:
  assumes "IpcGet eng dev = Ok (IpcGetOperation env d)" "\<And>ep. CHR 0x0A \<notin> set (DstToString env ep)"
    "\<forall>(key, p)\<in>set (nd_keyMap (wd_nd d)). unat (wp_txBytes (wd_peers d p)) < 2 ^ 63 \<and> unat (wp_rxBytes (wd_peers d p)) < 2 ^ 63 \<and>
      - (2 ^ 63) \<le> wp_lastHandshakeNano (wd_peers d p) \<and> wp_lastHandshakeNano (wd_peers d p) < 2 ^ 63"
  shows "GetStats eng dev = (None,
    \<lparr>TxBytes = wrap64 (\<Sum>p\<leftarrow>map snd (nd_keyMap (wd_nd d)). int (unat (wp_txBytes (wd_peers d p)))),
     RxBytes = wrap64 (\<Sum>p\<leftarrow>map snd (nd_keyMap (wd_nd d)). int (unat (wp_rxBytes (wd_peers d p)))),
     LastHandshakeSec = fold max (map (peer_secs d) (map snd (nd_keyMap (wd_nd d)))) 0\<rparr>)"
proof -
  let ?ps = "map snd (nd_keyMap (wd_nd d))"
  let ?kvs = "device_kvs d @ concat (map (peer_kvs env d) ?ps)"
  have str: "IpcGetOperation env d = concat (map (\<lambda>l. l @ NL) (map kv_line ?kvs))" by (rule get_lines)
  have u: "CHR 0x0A \<notin> set (Uitoa n)" for n using Uitoa_plain [of "CHR 0x0A"] hex_plain(1) by blast
  have "\<forall>l\<in>set (map kv_line ?kvs). CHR 0x0A \<notin> set l"
    using assms(2) hexString_plain(1) Itoa_plain prefix_plain u
    by (auto simp: device_kvs_def peer_kvs_def kv_line_def Let_def split: if_splits option.splits)
  then have split: "Split (IpcGetOperation env d) NL = map kv_line ?kvs @ [[]]" unfolding str by (rule Split_lines)
  have dev: "foldl stats_line t (map kv_line (device_kvs d)) = t" for t
    by (auto simp: device_kvs_def stats_kv(1))
  have last: "stats_line t [] = t" for t by (simp add: stats_line_def)
  have z: "zero_stats = \<lparr>TxBytes = wrap64 0, RxBytes = wrap64 0, LastHandshakeSec = 0\<rparr>" by (simp add: zero_stats_def wrap64_def)
  have "foldl stats_line zero_stats (Split (IpcGetOperation env d) NL) = foldl stats_line zero_stats (map kv_line (concat (map (peer_kvs env d) ?ps)))"
    unfolding split by (simp add: dev last)
  also have "\<dots> = \<lparr>TxBytes = wrap64 (0 + (\<Sum>p\<leftarrow>?ps. int (unat (wp_txBytes (wd_peers d p))))),
      RxBytes = wrap64 (0 + (\<Sum>p\<leftarrow>?ps. int (unat (wp_rxBytes (wd_peers d p))))), LastHandshakeSec = fold max (map (peer_secs d) ?ps) 0\<rparr>"
    unfolding z by (rule stats_peers) (use assms(3) in auto)
  finally show ?thesis by (simp add: GetStats_def assms(1))
qed

text \<open>
  The flag that asks for an immediate keepalive belongs to the operation, not to the peer: naming the next peer leaves it set.
\<close>

lemma keepalive_flag_carries_over: "ip_pkaOn (fst (snd (handlePublicKeyLine env val s d))) = ip_pkaOn s"
  by (simp add: handlePublicKeyLine_def split: option.split prod.split sum.split)

subsection \<open>Samples\<close>

lemma sample_draws: "\<forall>i. draws_ok (en_draws ((\<lambda>_ :: nat. sample_entropy) i))"
  by (simp add: sample_entropy_def draws_ok_def)



definition stats_engine :: "(byte list list, unit) wdev wg_engine" where
  "stats_engine = \<lparr>CreateNetTUN = (\<lambda>a dns mtu. Ok sample_up), IpcSet = (\<lambda>d k s. None), Up = (\<lambda>d. None),
     IpcGet = (\<lambda>d. Ok (IpcGetOperation sample_wg_env d))\<rparr>"

definition stats_device :: "(byte list list, unit) wdev" where
  "stats_device = upd_peer 0 (\<lambda>w. w\<lparr>wp_txBytes := 5, wp_rxBytes := 7, wp_lastHandshakeNano := 3999999999\<rparr>) (snd (new_peer sample_wg_env (sample_sk 2) sample_wdev))"

theorem stats_read_back_witness: "GetStats stats_engine stats_device = (None, \<lparr>TxBytes = 5, RxBytes = 7, LastHandshakeSec = 3\<rparr>)"
proof -
  have g: "IpcGet stats_engine stats_device = Ok (IpcGetOperation sample_wg_env stats_device)" by (simp add: stats_engine_def)
  have "nd_keyMap (wd_nd stats_device) = [(sample_sk 2, 0)]" "wp_txBytes (wd_peers stats_device 0) = 5" "wp_rxBytes (wd_peers stats_device 0) = 7"
    "wp_lastHandshakeNano (wd_peers stats_device 0) = 3999999999"
    by (simp_all add: stats_device_def sample_wdev_def NewDevice_def new_peer_def NewPeer_def upd_peer_def put_nd_def Let_def)
  with stats_read_back [OF g] show ?thesis
    by (simp add: sample_wg_env_def wrap64_def peer_secs_def signed_divide_int_def)
qed

end
