(* ===== verification/Checksum.thy ===== *)
theory Checksum
  imports Byte_Order
begin

section \<open>Internet checksums (wireguard-go/tun/checksum.go)\<close>

text \<open>
  The code adds the packet up in 64-bit words of the machine's byte order with the carry fed back, 128 bytes at a
  time, and swaps the bytes of the sum at the end. It is shown equal to the definition of RFC 1071: the sum of the
  16-bit words in network order, folded to 16 bits. The byte order is the little-endian one of the platforms the
  program is built for.
\<close>

subsection \<open>Bytes and words\<close>

definition NativeEndian_Uint :: "nat \<Rightarrow> byte list \<Rightarrow> 64 word" where
  "NativeEndian_Uint n b = of_nat (horner_sum unat 256 (take n b))"

definition BigEndian_Uint64 :: "byte list \<Rightarrow> 64 word" where
  "BigEndian_Uint64 b = of_nat (horner_sum unat 256 (rev (take 8 b)))"

definition BigEndian_PutUint16 :: "16 word \<Rightarrow> byte list" where
  "BigEndian_PutUint16 w = [ucast (drop_bit 8 w), ucast w]"

text \<open>\<^verbatim>\<open>bits.Add64\<close>: the sum and the carry out.\<close>

definition Add64 :: "64 word \<Rightarrow> 64 word \<Rightarrow> 64 word \<Rightarrow> 64 word \<times> 64 word" where
  "Add64 x y c = (x + y + c, if 2 ^ 64 \<le> unat x + unat y + unat c then 1 else 0)"

subsection \<open>The code\<close>

definition add_words :: "64 word list \<Rightarrow> 64 word \<Rightarrow> 64 word" where
  "add_words ws ac = (let (ac, carry) = fold (\<lambda>w (ac, carry). Add64 ac w carry) ws (ac, 0) in ac + carry)"

definition add_block :: "nat \<Rightarrow> byte list \<Rightarrow> 64 word \<Rightarrow> 64 word" where
  "add_block n b ac = add_words (map (\<lambda>i. NativeEndian_Uint 8 (drop (8 * i) b)) [0..<n]) ac"

function add_128 :: "byte list \<Rightarrow> 64 word \<Rightarrow> byte list \<times> 64 word" where
  "add_128 b ac = (if 128 \<le> length b then add_128 (drop 128 b) (add_block 16 b ac) else (b, ac))"
  by auto
termination by (relation "measure (\<lambda>(b, _). length b)") auto

declare add_128.simps [simp del]

definition add_part :: "nat \<Rightarrow> byte list \<times> 64 word \<Rightarrow> byte list \<times> 64 word" where
  "add_part n s = (case s of (b, ac) \<Rightarrow> if 8 * n \<le> length b then (drop (8 * n) b, add_block n b ac) else (b, ac))"

definition add_small :: "nat \<Rightarrow> byte list \<times> 64 word \<Rightarrow> byte list \<times> 64 word" where
  "add_small n s = (case s of (b, ac) \<Rightarrow> if n \<le> length b then (drop n b, add_words [NativeEndian_Uint n b] ac) else (b, ac))"

definition add_last :: "byte list \<times> 64 word \<Rightarrow> 64 word" where
  "add_last s = (case s of (b, ac) \<Rightarrow> if length b = 1 then add_words [NativeEndian_Uint 2 [b ! 0, 0]] ac else ac)"

definition checksumNoFold :: "byte list \<Rightarrow> 64 word \<Rightarrow> 64 word" where
  "checksumNoFold b initial =
     (let ac = BigEndian_Uint64 (LE_PutUint64 initial);
          s = add_128 b ac;
          s = add_part 8 s;
          s = add_part 4 s;
          s = add_part 2 s;
          s = add_part 1 s;
          s = add_small 4 s;
          s = add_small 2 s;
          ac = add_last s
      in BigEndian_Uint64 (LE_PutUint64 ac))"

definition fold16 :: "64 word \<Rightarrow> 64 word" where
  "fold16 ac = drop_bit 16 ac + (ac AND 0xffff)"

definition checksum :: "byte list \<Rightarrow> 64 word \<Rightarrow> 16 word" where
  "checksum b initial = ucast (fold16 (fold16 (fold16 (fold16 (checksumNoFold b initial)))))"

definition pseudoHeaderChecksumNoFold :: "8 word \<Rightarrow> byte list \<Rightarrow> byte list \<Rightarrow> 16 word \<Rightarrow> 64 word" where
  "pseudoHeaderChecksumNoFold protocol srcAddr dstAddr totalLen =
     (let sum = checksumNoFold srcAddr 0;
          sum = checksumNoFold dstAddr sum;
          sum = checksumNoFold [0, protocol] sum
      in checksumNoFold (BigEndian_PutUint16 totalLen) sum)"

subsection \<open>The specification (RFC 1071)\<close>

fun word_sum :: "byte list \<Rightarrow> nat" where
  "word_sum [] = 0"
| "word_sum [x] = 256 * unat x"
| "word_sum (x # y # b) = 256 * unat x + unat y + word_sum b"

lemma fold_less: "65536 \<le> n \<Longrightarrow> n div 65536 + n mod 65536 < (n :: nat)"
  using div_mult_mod_eq [of n 65536] div_greater_zero_iff [of n 65536] by linarith

function ones_fold :: "nat \<Rightarrow> nat" where
  "ones_fold n = (if n < 65536 then n else ones_fold (n div 65536 + n mod 65536))"
  by auto
termination by (relation "measure id") (auto simp: fold_less)

declare ones_fold.simps [simp del]

subsection \<open>Ones' complement arithmetic\<close>

text \<open>
  \<open>ones M v n\<close>: \<open>v\<close> represents \<open>n\<close> in ones' complement arithmetic modulo \<open>M\<close>, where only 0 is represented by 0.
\<close>

definition ones :: "nat \<Rightarrow> nat \<Rightarrow> nat \<Rightarrow> bool" where
  "ones M v n \<longleftrightarrow> v mod M = n mod M \<and> (v = 0 \<longleftrightarrow> n = 0)"

lemma ones_unique: "ones M v n \<Longrightarrow> ones M w n \<Longrightarrow> v \<le> M \<Longrightarrow> w \<le> M \<Longrightarrow> v = w"
  by (auto simp: ones_def le_less)

lemma ones_trans: "ones M u v \<Longrightarrow> ones M v w \<Longrightarrow> ones M u w"
  by (auto simp: ones_def)

lemma ones_add: "ones M v n \<Longrightarrow> ones M v' n' \<Longrightarrow> ones M (v + v') (n + n')"
  by (auto simp: ones_def intro: mod_add_cong)

lemma ones_refl [simp]: "ones M v v"
  by (simp add: ones_def)

lemma ones_mult: "0 < k \<Longrightarrow> ones M v n \<Longrightarrow> ones M (k * v) (k * n)"
  by (auto simp: ones_def intro: mod_mult_cong)

lemma ones_dvd: "d dvd M \<Longrightarrow> ones M v n \<Longrightarrow> ones d v n"
  by (auto simp: ones_def) (metis mod_mod_cancel)+

lemma ones_fold16: "ones 65535 (n div 65536 + n mod 65536) n"
proof -
  have n: "65535 * (n div 65536) + (n div 65536 + n mod 65536) = n" using div_mult_mod_eq [of n 65536] by linarith
  then have "(n div 65536 + n mod 65536) mod 65535 = n mod 65535" by (metis mod_mult_self4)
  moreover have "n div 65536 + n mod 65536 = 0 \<longleftrightarrow> n = 0" using n by linarith
  ultimately show ?thesis by (simp add: ones_def)
qed

lemma ones_fold_ones: "ones 65535 (ones_fold n) n"
proof (induction n rule: ones_fold.induct)
  case (1 n)
  then show ?case by (subst ones_fold.simps) (auto intro: ones_trans ones_fold16)
qed

lemma ones_fold_bound: "ones_fold n \<le> 65535"
  by (induction n rule: ones_fold.induct) (subst ones_fold.simps, auto)

subsection \<open>The accumulator\<close>

lemma Add64_ones:
  assumes "Add64 ac w c = (ac', c')" "unat ac + unat c \<le> 2 ^ 64 - 1"
  shows "unat ac' + unat c' \<le> 2 ^ 64 - 1" "ones (2 ^ 64 - 1) (unat ac' + unat c') (unat ac + unat c + unat w)"
proof -
  let ?n = "unat ac + unat w + unat c"
  have w: "unat w \<le> 2 ^ 64 - 1" using unsigned_less [of w, where 'a = nat] by simp
  have s: "unat (ac + w + c) = ?n mod 2 ^ 64" by (simp add: unat_word_ariths mod_simps)
  have "unat ac' + unat c' \<le> 2 ^ 64 - 1 \<and> ones (2 ^ 64 - 1) (unat ac' + unat c') ?n"
  proof (cases "2 ^ 64 \<le> ?n")
    case True
    then have "?n mod 2 ^ 64 = ?n - 2 ^ 64" using assms(2) w by (simp add: mod_if)
    with True assms s have v: "unat ac' + unat c' = ?n - (2 ^ 64 - 1)" by (auto simp: Add64_def)
    have "?n = (2 ^ 64 - 1) + (?n - (2 ^ 64 - 1))" using True by simp
    then have "(?n - (2 ^ 64 - 1)) mod (2 ^ 64 - 1) = ?n mod (2 ^ 64 - 1)" by (metis mod_add_self1)
    with v True assms(2) w show ?thesis by (auto simp: ones_def)
  next
    case False
    then have "unat ac' + unat c' = ?n" using assms(1) s by (auto simp: Add64_def)
    with False show ?thesis by simp
  qed
  then show "unat ac' + unat c' \<le> 2 ^ 64 - 1" "ones (2 ^ 64 - 1) (unat ac' + unat c') (unat ac + unat c + unat w)"
    by (simp_all add: ac_simps)
qed

lemma add_chain_ones:
  assumes "fold (\<lambda>w (ac, c). Add64 ac w c) ws (ac, c) = (ac', c')" "unat ac + unat c \<le> 2 ^ 64 - 1"
  shows "unat ac' + unat c' \<le> 2 ^ 64 - 1 \<and> ones (2 ^ 64 - 1) (unat ac' + unat c') (unat ac + unat c + sum_list (map unat ws))"
  using assms
proof (induction ws arbitrary: ac c)
  case (Cons w ws)
  obtain ac1 c1 where a: "Add64 ac w c = (ac1, c1)" by fastforce
  note st = Add64_ones [OF a Cons.prems(2)]
  have "fold (\<lambda>w (ac, c). Add64 ac w c) ws (ac1, c1) = (ac', c')" using Cons.prems(1) a by simp
  from Cons.IH [OF this st(1)] ones_add [OF st(2), of "sum_list (map unat ws)" "sum_list (map unat ws)"]
  show ?case by (auto simp: add.assoc intro: ones_trans)
qed simp

lemma add_words_ones: "ones (2 ^ 64 - 1) (unat (add_words ws ac)) (unat ac + sum_list (map unat ws))"
proof -
  obtain ac' c' where f: "fold (\<lambda>w (ac, c). Add64 ac w c) ws (ac, 0) = (ac', c')" by fastforce
  have "unat ac \<le> 2 ^ 64 - 1" using unsigned_less [of ac, where 'a = nat] by simp
  with add_chain_ones [OF f] have b: "unat ac' + unat c' \<le> 2 ^ 64 - 1"
    and o: "ones (2 ^ 64 - 1) (unat ac' + unat c') (unat ac + sum_list (map unat ws))" by simp_all
  have "unat (ac' + c') = unat ac' + unat c'" using b by (subst unat_add_lem [symmetric]) simp
  with o show ?thesis by (simp add: add_words_def f)
qed

lemma add_words_ones16: "ones 65535 (unat (add_words ws ac)) (unat ac + sum_list (map unat ws))"
  by (rule ones_dvd [OF _ add_words_ones]) (simp add: dvd_def)

subsection \<open>Bytes in the machine's order\<close>

fun le_sum :: "byte list \<Rightarrow> nat" where
  "le_sum [] = 0"
| "le_sum [x] = unat x"
| "le_sum (x # y # b) = unat x + 256 * unat y + le_sum b"

lemma le_sum_append: "even (length xs) \<Longrightarrow> le_sum (xs @ ys) = le_sum xs + le_sum ys"
  by (induction xs rule: le_sum.induct) auto

lemma ones_65536: "ones 65535 (65536 * n) n"
proof -
  have "65536 * n = n + 65535 * n" by simp
  then show ?thesis by (simp only: ones_def mod_mult_self2) simp
qed

lemma horner_le_sum: "ones 65535 (horner_sum unat 256 b) (le_sum b)"
proof (induction b rule: le_sum.induct)
  case (3 x y b)
  from ones_add [OF ones_refl [of 65535 "unat x + 256 * unat y"] ones_trans [OF ones_65536 3]]
  show ?case by (simp add: add.assoc algebra_simps)
qed simp_all

lemma le_sum_word_sum: "ones 65535 (256 * le_sum b) (word_sum b)"
proof (induction b rule: le_sum.induct)
  case (3 x y b)
  from ones_add [OF ones_add [OF ones_refl [of 65535 "256 * unat x"] ones_65536 [of "unat y"]] 3]
  show ?case by (simp add: algebra_simps)
qed simp_all

lemma unat_NativeEndian: "n \<le> 8 \<Longrightarrow> unat (NativeEndian_Uint n b) = horner_sum unat 256 (take n b)"
proof -
  assume "n \<le> 8"
  then have "(256 :: nat) ^ length (take n b) \<le> 256 ^ 8" by (intro power_increasing) auto
  with horner_bound [of "take n b"] have "horner_sum unat 256 (take n b) < 2 ^ 64" by simp
  then show ?thesis by (simp add: NativeEndian_Uint_def unat_of_nat take_bit_nat_eq_self_iff)
qed

lemma NativeEndian_ones: "n \<le> 8 \<Longrightarrow> ones 65535 (unat (NativeEndian_Uint n b)) (le_sum (take n b))"
  by (simp add: unat_NativeEndian horner_le_sum)

lemma block_words:
  "ones 65535 (sum_list (map unat (map (\<lambda>i. NativeEndian_Uint 8 (drop (8 * i) b)) [0..<n]))) (le_sum (take (8 * n) b))"
proof (induction n)
  case (Suc n)
  show ?case
  proof (cases "8 * n \<le> length b")
    case True
    have "le_sum (take (8 * Suc n) b) = le_sum (take (8 * n) b) + le_sum (take 8 (drop (8 * n) b))"
      using True le_sum_append [of "take (8 * n) b" "take 8 (drop (8 * n) b)"] take_add [of "8 * n" 8 b] by (simp add: add.commute)
    with ones_add [OF Suc NativeEndian_ones [of 8 "drop (8 * n) b"]] show ?thesis by simp
  next
    case False
    then have "unat (NativeEndian_Uint 8 (drop (8 * n) b)) = 0" by (simp add: NativeEndian_Uint_def)
    with Suc False show ?thesis by simp
  qed
qed simp

text \<open>\<open>covers b ac s\<close>: what was added to the accumulator and what is left over make up the packet.\<close>

definition covers :: "byte list \<Rightarrow> nat \<Rightarrow> byte list \<times> 64 word \<Rightarrow> bool" where
  "covers b n s \<longleftrightarrow> ones 65535 (unat (snd s) + le_sum (fst s)) (n + le_sum b)"

lemma covers_step:
  assumes "covers b n (r, ac)" "even k" "k \<le> length r" "ones 65535 m (le_sum (take k r))" "ones 65535 (unat ac') (unat ac + m)"
  shows "covers b n (drop k r, ac')"
proof -
  have "le_sum r = le_sum (take k r) + le_sum (drop k r)"
    using le_sum_append [of "take k r" "drop k r"] assms(2,3) by simp
  with ones_add [OF ones_trans [OF assms(5) ones_add [OF ones_refl assms(4)]] ones_refl [of 65535 "le_sum (drop k r)"]] assms(1)
  show ?thesis by (simp add: covers_def add.assoc ones_trans)
qed

lemma add_block_covers: "covers b n (r, ac) \<Longrightarrow> 8 * k \<le> length r \<Longrightarrow> covers b n (drop (8 * k) r, add_block k r ac)"
  unfolding add_block_def by (rule covers_step [OF _ _ _ block_words add_words_ones16]) auto

lemma add_128_covers: "covers b n (r, ac) \<Longrightarrow> covers b n (add_128 r ac) \<and> length (fst (add_128 r ac)) < 128"
proof (induction r ac rule: add_128.induct)
  case (1 r ac)
  then show ?case using add_block_covers [OF 1(2), of 16] by (subst (1 2) add_128.simps) auto
qed

lemma add_part_covers:
  "covers b n s \<Longrightarrow> length (fst s) < 16 * k \<Longrightarrow> covers b n (add_part k s) \<and> length (fst (add_part k s)) < 8 * k"
  using add_block_covers [of b n "fst s" "snd s" k] by (auto simp: add_part_def split: prod.splits)

lemma add_small_covers:
  "covers b n s \<Longrightarrow> length (fst s) < 2 * k \<Longrightarrow> even k \<Longrightarrow> k \<le> 8 \<Longrightarrow> covers b n (add_small k s) \<and> length (fst (add_small k s)) < k"
  using covers_step [of b n "fst s" "snd s" k, OF _ _ _ NativeEndian_ones] add_words_ones16 [of "[NativeEndian_Uint k (fst s)]" "snd s"]
  by (auto simp: add_small_def split: prod.splits)

lemma add_last_covers: "covers b n s \<Longrightarrow> length (fst s) < 2 \<Longrightarrow> ones 65535 (unat (add_last s)) (n + le_sum b)"
proof -
  assume c: "covers b n s" and l: "length (fst s) < 2"
  show ?thesis
  proof (cases "fst s")
    case Nil
    then show ?thesis using c by (auto simp: covers_def add_last_def split: prod.splits)
  next
    case (Cons x r)
    then have r: "fst s = [x]" using l by (cases r) auto
    have "unat (NativeEndian_Uint 2 [x, 0]) = unat x" by (simp add: unat_NativeEndian)
    with r c ones_trans [OF add_words_ones16 [of "[NativeEndian_Uint 2 [x, 0]]" "snd s"]] show ?thesis
      by (auto simp: covers_def add_last_def split: prod.splits)
  qed
qed

subsection \<open>Swapping the bytes\<close>

lemma ones_sym: "ones M v n \<Longrightarrow> ones M n v"
  by (simp add: ones_def)

lemma le_sum_rev: "even (length b) \<Longrightarrow> le_sum (rev b) = word_sum b"
  by (induction b rule: word_sum.induct) (auto simp: le_sum_append)

lemma horner_rev: "even (length (b :: byte list)) \<Longrightarrow> ones 65535 (horner_sum unat 256 (rev b)) (256 * horner_sum unat 256 b)"
  using ones_trans [OF horner_le_sum [of "rev b"], of "256 * horner_sum unat 256 b"]
    ones_sym [OF ones_trans [OF ones_mult [OF _ horner_le_sum, of 256] le_sum_word_sum [of b]]] by (simp add: le_sum_rev)

lemma swap_ones: "ones 65535 (unat (BigEndian_Uint64 (LE_PutUint64 w))) (256 * unat w)"
proof -
  let ?b = "LE_PutUint64 w"
  have l: "length ?b = 8" by (simp add: LE_PutUint64_def)
  have "horner_sum unat 256 (rev ?b) < 2 ^ 64" using horner_bound [of "rev ?b"] l by simp
  then have "unat (BigEndian_Uint64 ?b) = horner_sum unat 256 (rev ?b)"
    using l by (simp add: BigEndian_Uint64_def unat_of_nat take_bit_nat_eq_self_iff)
  with horner_rev [of ?b] l show ?thesis by (simp add: horner_PutUint64)
qed

lemma checksumNoFold_ones: "ones 65535 (unat (checksumNoFold b initial)) (unat initial + word_sum b)"
proof -
  define ac where "ac = BigEndian_Uint64 (LE_PutUint64 initial)"
  define s where "s = add_small 2 (add_small 4 (add_part 1 (add_part 2 (add_part 4 (add_part 8 (add_128 b ac))))))"
  have "covers b (unat ac) (b, ac)" by (simp add: covers_def)
  from add_part_covers [of _ _ _ 8, OF add_128_covers [OF this, THEN conjunct1]] add_128_covers [OF this]
  have "covers b (unat ac) (add_part 8 (add_128 b ac)) \<and> length (fst (add_part 8 (add_128 b ac))) < 64" by simp
  from add_part_covers [OF this [THEN conjunct1], of 4] this
  have "covers b (unat ac) (add_part 4 (add_part 8 (add_128 b ac))) \<and> length (fst (add_part 4 (add_part 8 (add_128 b ac)))) < 32" by simp
  from add_part_covers [OF this [THEN conjunct1], of 2] this
  have "covers b (unat ac) (add_part 2 (add_part 4 (add_part 8 (add_128 b ac)))) \<and> length (fst (add_part 2 (add_part 4 (add_part 8 (add_128 b ac))))) < 16" by simp
  from add_small_covers [OF conjunct1 [OF add_part_covers [OF this [THEN conjunct1], of 1]], of 4] add_part_covers [OF this [THEN conjunct1], of 1] this
  have "covers b (unat ac) (add_small 4 (add_part 1 (add_part 2 (add_part 4 (add_part 8 (add_128 b ac)))))) \<and>
      length (fst (add_small 4 (add_part 1 (add_part 2 (add_part 4 (add_part 8 (add_128 b ac))))))) < 4" by simp
  from add_small_covers [OF this [THEN conjunct1], of 2] this have "covers b (unat ac) s" "length (fst s) < 2"
    by (simp_all add: s_def)
  then have "ones 65535 (unat (add_last s)) (unat ac + le_sum b)" by (rule add_last_covers)
  then have m: "ones 65535 (256 * unat (add_last s)) (256 * unat ac + 256 * le_sum b)"
    unfolding distrib_left [symmetric] by (rule ones_mult [rotated]) simp
  have "ones 65535 (256 * unat ac) (unat initial)"
    using ones_mult [OF _ swap_ones [of initial], of 256] ones_65536 [of "unat initial"] by (auto simp: ac_def intro: ones_trans)
  from ones_trans [OF m ones_add [OF this le_sum_word_sum]]
  have "ones 65535 (256 * unat (add_last s)) (unat initial + word_sum b)" .
  with swap_ones [of "add_last s"] have "ones 65535 (unat (BigEndian_Uint64 (LE_PutUint64 (add_last s)))) (unat initial + word_sum b)"
    by (rule ones_trans)
  then show ?thesis by (simp add: checksumNoFold_def Let_def s_def ac_def)
qed

subsection \<open>Folding\<close>

lemma unat_fold16: "unat (fold16 ac) = unat ac div 65536 + unat ac mod 65536"
proof -
  let ?n = "unat ac"
  have n: "?n < 2 ^ 64" using unsigned_less [of ac, where 'a = nat] by simp
  have "unat (drop_bit 16 ac) = ?n div 65536" 
    by (simp add: unsigned_drop_bit_eq) (use n in \<open>simp add: drop_bit_eq_div take_bit_eq_mod\<close>)
  moreover have "ac AND 0xffff = take_bit 16 ac" by (simp add: take_bit_eq_mask mask_eq_exp_minus_1)
  then have "unat (ac AND 0xffff) = ?n mod 65536" by (simp only: unsigned_take_bit_eq) (simp add: take_bit_eq_mod)
  moreover have "?n div 65536 + ?n mod 65536 < 2 ^ 64" using n div_le_dividend [of ?n 65536] by linarith
  ultimately show ?thesis unfolding fold16_def by (subst unat_add_lem [THEN iffD1]) simp_all
qed

lemma fold_bound: "n \<le> 65536 * k + 65534 \<Longrightarrow> n div 65536 + n mod 65536 \<le> k + (65534 :: nat)"
  using div_mult_mod_eq [of n 65536] mod_less_divisor [of 65536 n] by (cases "n div 65536 < k") linarith+

lemma fold16_ones: "ones 65535 (unat ac) n \<Longrightarrow> ones 65535 (unat (fold16 ac)) n"
  unfolding unat_fold16 using ones_fold16 ones_trans by blast

lemma checksum_rfc: "unat (checksum b initial) = ones_fold (unat initial + word_sum b)"
proof -
  let ?c = "checksumNoFold b initial"
  define w where "w = fold16 (fold16 (fold16 (fold16 ?c)))"
  have "unat ?c \<le> 65536 * (65536 * (65536 * 65536 - 1) + 65535) + 65535" using unsigned_less [of ?c, where 'a = nat] by simp
  then have "unat ?c \<le> 65536 * 281474976710656 + 65534" by simp
  from fold_bound [OF this] have "unat (fold16 ?c) \<le> 65536 * 4294967296 + 65534" by (simp add: unat_fold16)
  from fold_bound [OF this] have "unat (fold16 (fold16 ?c)) \<le> 65536 * 65536 + 65534" by (simp add: unat_fold16)
  from fold_bound [OF this] have "unat (fold16 (fold16 (fold16 ?c))) \<le> 65536 * 1 + 65534" by (simp add: unat_fold16)
  from fold_bound [OF this] have b: "unat w \<le> 65535" by (simp add: w_def unat_fold16)
  have o: "ones 65535 (unat w) (unat initial + word_sum b)" unfolding w_def by (intro fold16_ones checksumNoFold_ones)
  have "unat (ucast w :: 16 word) = unat w" using b by (simp add: unsigned_ucast_eq unsigned_take_bit_eq take_bit_nat_eq_self_iff)
  moreover have "unat w = ones_fold (unat initial + word_sum b)"
    by (rule ones_unique [OF o ones_fold_ones b ones_fold_bound])
  ultimately show ?thesis by (simp add: checksum_def w_def)
qed

text \<open>
  Property C30: the checksum of the code is the one of RFC 1071: it is the sum of the 16-bit words of the packet in network
  order, with a zero byte after an odd last byte, and of the initial value, folded to 16 bits by adding the carries back in. The unrolled loops, the
  64-bit additions with carry, the machine's byte order and the four folds at the end lose nothing.
\<close>

theorem checksum_rfc1071: "unat (checksum b initial) = ones_fold (unat initial + word_sum b)"
  by (rule checksum_rfc)

lemma word_sum_append: "even (length xs) \<Longrightarrow> word_sum (xs @ ys) = word_sum xs + word_sum ys"
  by (induction xs rule: word_sum.induct) auto

lemma ones_fold_cong: "ones 65535 v n \<Longrightarrow> ones_fold v = ones_fold n"
  by (rule ones_unique [of 65535 _ n]) (auto intro: ones_trans ones_fold_ones ones_fold_bound)

text \<open>
  The checksum of a segment with the sum of its pseudo header as initial value is the one of RFC 1071 of the
  pseudo header followed by the segment; the unfolded sums may be chained because the addresses have an even length.
\<close>

theorem pseudo_header_checksum:
  assumes "even (length srcAddr)" "even (length dstAddr)"
  shows "unat (checksum b (pseudoHeaderChecksumNoFold protocol srcAddr dstAddr totalLen)) =
    ones_fold (word_sum (srcAddr @ dstAddr @ [0, protocol] @ BigEndian_PutUint16 totalLen @ b))"
proof -
  let ?t = "BigEndian_PutUint16 totalLen"
  define s1 where "s1 = checksumNoFold srcAddr 0"
  define s2 where "s2 = checksumNoFold dstAddr s1"
  define s3 where "s3 = checksumNoFold [0, protocol] s2"
  have 1: "ones 65535 (unat s1) (word_sum srcAddr)" using checksumNoFold_ones [of srcAddr 0] by (simp add: s1_def)
  have 2: "ones 65535 (unat s2) (word_sum srcAddr + word_sum dstAddr)"
    using ones_trans [OF checksumNoFold_ones ones_add [OF 1 ones_refl]] by (simp add: s2_def)
  have 3: "ones 65535 (unat s3) (word_sum srcAddr + word_sum dstAddr + word_sum [0, protocol])"
    unfolding s3_def by (rule ones_trans [OF checksumNoFold_ones ones_add [OF 2 ones_refl]])
  have 4: "ones 65535 (unat (checksumNoFold ?t s3)) (word_sum srcAddr + word_sum dstAddr + word_sum [0, protocol] + word_sum ?t)"
    by (rule ones_trans [OF checksumNoFold_ones ones_add [OF 3 ones_refl]])
  have t: "even (length ?t)" by (simp add: BigEndian_PutUint16_def)
  have "ones 65535 (unat (checksumNoFold ?t s3) + word_sum b) (word_sum (srcAddr @ dstAddr @ [0, protocol] @ ?t @ b))"
    using ones_add [OF 4 ones_refl [of 65535 "word_sum b"]] assms t
    by (simp only: word_sum_append length_append list.size even_add even_Suc not_not add.assoc)
      (simp add: word_sum_append [OF t] add.assoc)
  then show ?thesis
    by (simp add: checksum_rfc pseudoHeaderChecksumNoFold_def Let_def s1_def s2_def s3_def ones_fold_cong)
qed

theorem pseudo_header_checksum_witness:
  "unat (checksum [] (pseudoHeaderChecksumNoFold 6 [192, 0, 2, 1] [192, 0, 2, 2] 20)) =
    ones_fold (word_sum ([192, 0, 2, 1] @ [192, 0, 2, 2] @ [0, 6] @ BigEndian_PutUint16 20 @ []))"
  using pseudo_header_checksum [of "[192, 0, 2, 1]" "[192, 0, 2, 2]" "[]" 6 20] by simp

end
