(* ===== verification/Gso.thy ===== *)
theory Gso
  imports Checksum "HOL-Library.Monad_Syntax"
begin

section \<open>Segmentation offload: splitting (wireguard-go/tun: offload\_linux.go, tun\_linux.go)\<close>

text \<open>
  What the Linux TUN device reads may be a packet larger than the MTU, described by a \<^verbatim>\<open>virtioNetHdr\<close>; it is split into segments, each with its own
  headers and checksums. Buffers are byte lists that are written in place. \<open>None\<close> stands for an index or a slice out of range.
\<close>

subsection \<open>Slices\<close>

definition slice :: "nat \<Rightarrow> nat \<Rightarrow> byte list \<Rightarrow> byte list option" where
  "slice i j b = (if i \<le> j \<and> j \<le> length b then Some (take (j - i) (drop i b)) else None)"

definition put_bytes :: "nat \<Rightarrow> byte list \<Rightarrow> byte list \<Rightarrow> byte list option" where
  "put_bytes i bs b = (if i + length bs \<le> length b then Some (take i b @ bs @ drop (i + length bs) b) else None)"

text \<open>\<^verbatim>\<open>copy (b[i:], src)\<close> copies what fits.\<close>

definition copy_to :: "nat \<Rightarrow> byte list \<Rightarrow> byte list \<Rightarrow> byte list option" where
  "copy_to i src b = (if i \<le> length b then put_bytes i (take (length b - i) src) b else None)"

definition get16 :: "nat \<Rightarrow> byte list \<Rightarrow> 16 word option" where
  "get16 i b = (case slice i (i + 2) b of None \<Rightarrow> None | Some s \<Rightarrow> Some (BE_field16 s))"

definition get32 :: "nat \<Rightarrow> byte list \<Rightarrow> 32 word option" where
  "get32 i b = (case slice i (i + 4) b of None \<Rightarrow> None | Some s \<Rightarrow> Some (BE_Uint32 s))"

definition put16 :: "nat \<Rightarrow> 16 word \<Rightarrow> byte list \<Rightarrow> byte list option" where
  "put16 i w b = put_bytes i (BigEndian_PutUint16 w) b"

definition put32 :: "nat \<Rightarrow> 32 word \<Rightarrow> byte list \<Rightarrow> byte list option" where
  "put32 i w b = put_bytes i (BE_PutUint32 w) b"

subsection \<open>The header\<close>

abbreviation (input) virtioNetHdrLen :: nat where "virtioNetHdrLen \<equiv> 10"
abbreviation (input) VIRTIO_NET_HDR_F_NEEDS_CSUM :: byte where "VIRTIO_NET_HDR_F_NEEDS_CSUM \<equiv> 1"
abbreviation (input) VIRTIO_NET_HDR_GSO_NONE :: byte where "VIRTIO_NET_HDR_GSO_NONE \<equiv> 0"
abbreviation (input) VIRTIO_NET_HDR_GSO_TCPV4 :: byte where "VIRTIO_NET_HDR_GSO_TCPV4 \<equiv> 1"
abbreviation (input) VIRTIO_NET_HDR_GSO_TCPV6 :: byte where "VIRTIO_NET_HDR_GSO_TCPV6 \<equiv> 4"
abbreviation (input) VIRTIO_NET_HDR_GSO_UDP_L4 :: byte where "VIRTIO_NET_HDR_GSO_UDP_L4 \<equiv> 5"
abbreviation (input) IPPROTO_TCP :: byte where "IPPROTO_TCP \<equiv> 6"
abbreviation (input) IPPROTO_UDP :: byte where "IPPROTO_UDP \<equiv> 17"
abbreviation (input) tcpFlagsOffset :: nat where "tcpFlagsOffset \<equiv> 13"
abbreviation (input) ipv4SrcAddrOffset :: nat where "ipv4SrcAddrOffset \<equiv> 12"
abbreviation (input) ipv6SrcAddrOffset :: nat where "ipv6SrcAddrOffset \<equiv> 8"

record virtioNetHdr =
  vh_flags :: byte
  vh_gsoType :: byte
  vh_hdrLen :: "16 word"
  vh_gsoSize :: "16 word"
  vh_csumStart :: "16 word"
  vh_csumOffset :: "16 word"

definition LE_field16 :: "byte list \<Rightarrow> 16 word" where
  "LE_field16 b = push_bit 8 (ucast (b ! 1)) OR ucast (b ! 0)"

definition LE_PutUint16 :: "16 word \<Rightarrow> byte list" where
  "LE_PutUint16 w = [ucast w, ucast (drop_bit 8 w)]"

definition virtioNetHdr_decode :: "byte list \<Rightarrow> virtioNetHdr option" where
  "virtioNetHdr_decode b =
     (if length b < virtioNetHdrLen then None
      else Some \<lparr>vh_flags = b ! 0, vh_gsoType = b ! 1, vh_hdrLen = LE_field16 (drop 2 b), vh_gsoSize = LE_field16 (drop 4 b),
        vh_csumStart = LE_field16 (drop 6 b), vh_csumOffset = LE_field16 (drop 8 b)\<rparr>)"

definition virtioNetHdr_bytes :: "virtioNetHdr \<Rightarrow> byte list" where
  "virtioNetHdr_bytes v =
     [vh_flags v, vh_gsoType v] @ LE_PutUint16 (vh_hdrLen v) @ LE_PutUint16 (vh_gsoSize v) @ LE_PutUint16 (vh_csumStart v) @
     LE_PutUint16 (vh_csumOffset v)"

definition virtioNetHdr_encode :: "virtioNetHdr \<Rightarrow> byte list \<Rightarrow> byte list option" where
  "virtioNetHdr_encode v b = (if length b < virtioNetHdrLen then None else Some (virtioNetHdr_bytes v @ drop virtioNetHdrLen b))"

subsection \<open>Splitting\<close>

definition clear_flags :: "nat \<Rightarrow> byte list \<Rightarrow> byte list option" where
  "clear_flags i b = (if i < length b then Some (b[i := b ! i AND NOT (0x01 OR 0x08)]) else None)"

text \<open>The IP header of a segment: the copied one with its length, and for IPv4 its identification and checksum.\<close>

definition gso_ip_header :: "byte list \<Rightarrow> virtioNetHdr \<Rightarrow> bool \<Rightarrow> nat \<Rightarrow> nat \<Rightarrow> byte list \<Rightarrow> byte list option" where
  "gso_ip_header inp hdr isV6 i totalLen out =
     (let iphLen = unat (vh_csumStart hdr)
      in do {
           h \<leftarrow> slice 0 iphLen inp;
           out \<leftarrow> copy_to 0 h out;
           if \<not> isV6 then do {
             out \<leftarrow> (if 0 < i then do { id \<leftarrow> get16 4 out; put16 4 (id + of_nat i) out } else Some out);
             out \<leftarrow> put16 2 (of_nat totalLen) out;
             iph \<leftarrow> slice 0 iphLen out;
             put16 10 (NOT (checksum iph 0)) out
           }
           else put16 4 (of_int (int totalLen - int iphLen)) out
         })"

definition gso_transport_header ::
  "byte list \<Rightarrow> virtioNetHdr \<Rightarrow> byte \<Rightarrow> 32 word \<Rightarrow> nat \<Rightarrow> nat \<Rightarrow> bool \<Rightarrow> byte list \<Rightarrow> byte list option" where
  "gso_transport_header inp hdr protocol firstTCPSeqNum i segmentDataLen inner out =
     do {
       th \<leftarrow> slice (unat (vh_csumStart hdr)) (unat (vh_hdrLen hdr)) inp;
       out \<leftarrow> put_bytes (unat (vh_csumStart hdr)) th out;
       if protocol = IPPROTO_TCP then do {
         out \<leftarrow> put32 (unat (vh_csumStart hdr + 4)) (firstTCPSeqNum + ucast (vh_gsoSize hdr * of_nat i)) out;
         if inner then clear_flags (unat (vh_csumStart hdr + 13)) out else Some out
       }
       else put16 (unat (vh_csumStart hdr + 4)) (of_nat segmentDataLen + (vh_hdrLen hdr - vh_csumStart hdr)) out
     }"

definition gso_checksum :: "byte list \<Rightarrow> virtioNetHdr \<Rightarrow> byte \<Rightarrow> bool \<Rightarrow> nat \<Rightarrow> byte list \<Rightarrow> byte list option" where
  "gso_checksum inp hdr protocol isV6 segmentDataLen out =
     (let at = (if isV6 then ipv6SrcAddrOffset else ipv4SrcAddrOffset); n = (if isV6 then 16 else 4)
      in do {
           src \<leftarrow> slice at (at + n) inp;
           dst \<leftarrow> slice (at + n) (at + n * 2) inp;
           body \<leftarrow> slice (unat (vh_csumStart hdr)) (unat (vh_hdrLen hdr) + segmentDataLen) out;
           put16 (unat (vh_csumStart hdr + vh_csumOffset hdr))
             (NOT (checksum body (pseudoHeaderChecksumNoFold protocol src dst
               (of_nat (unat (vh_hdrLen hdr - vh_csumStart hdr) + segmentDataLen))))) out
         })"

definition gso_segment :: "byte list \<Rightarrow> virtioNetHdr \<Rightarrow> byte \<Rightarrow> bool \<Rightarrow> 32 word \<Rightarrow> nat \<Rightarrow> nat \<Rightarrow> byte list \<Rightarrow> (nat \<times> byte list) option" where
  "gso_segment inp hdr protocol isV6 firstTCPSeqNum i nextSegmentDataAt out =
     (let nextSegmentEnd = min (nextSegmentDataAt + unat (vh_gsoSize hdr)) (length inp);
          segmentDataLen = nextSegmentEnd - nextSegmentDataAt;
          totalLen = unat (vh_hdrLen hdr) + segmentDataLen
      in do {
           out \<leftarrow> gso_ip_header inp hdr isV6 i totalLen out;
           out \<leftarrow> gso_transport_header inp hdr protocol firstTCPSeqNum i segmentDataLen (nextSegmentEnd \<noteq> length inp) out;
           data \<leftarrow> slice nextSegmentDataAt nextSegmentEnd inp;
           out \<leftarrow> copy_to (unat (vh_hdrLen hdr)) data out;
           out \<leftarrow> gso_checksum inp hdr protocol isV6 segmentDataLen out;
           Some (totalLen, out)
         })"

text \<open>
  The loop over the buffers that are left: whether there were too few of them, and the size and the content of each one that was filled.
\<close>

fun gso_loop :: "(nat \<Rightarrow> nat \<Rightarrow> byte list \<Rightarrow> (nat \<times> byte list) option) \<Rightarrow> nat \<Rightarrow> nat \<Rightarrow> nat \<Rightarrow> nat \<Rightarrow> byte list list \<Rightarrow>
    (bool \<times> (nat \<times> byte list) list) option" where
  "gso_loop seg len gsoSize i at [] = Some (at < len, [])"
| "gso_loop seg len gsoSize i at (out # outs) =
     (if at < len then do {
        s \<leftarrow> seg i at out;
        (tooMany, segs) \<leftarrow> gso_loop seg len gsoSize (Suc i) (at + gsoSize) outs;
        Some (tooMany, s # segs)
      }
      else Some (False, []))"

text \<open>The number returned, whether the error \<^verbatim>\<open>ErrTooManySegments\<close> is, and the buffers that were filled.\<close>

definition gsoSplit :: "byte list \<Rightarrow> virtioNetHdr \<Rightarrow> byte list list \<Rightarrow> bool \<Rightarrow> (int \<times> bool \<times> (nat \<times> byte list) list) option" where
  "gsoSplit inp hdr outBuffs isV6 =
     do {
       inp \<leftarrow> (if \<not> isV6 then put_bytes 10 [0, 0] inp else Some inp);
       inp \<leftarrow> put_bytes (unat (vh_csumStart hdr + vh_csumOffset hdr)) [0, 0] inp;
       let tcp = (vh_gsoType hdr = VIRTIO_NET_HDR_GSO_TCPV4 \<or> vh_gsoType hdr = VIRTIO_NET_HDR_GSO_TCPV6);
       let protocol = (if tcp then IPPROTO_TCP else IPPROTO_UDP);
       firstTCPSeqNum \<leftarrow> (if tcp then get32 (unat (vh_csumStart hdr + 4)) inp else Some 0);
       (tooMany, segs) \<leftarrow> gso_loop (gso_segment inp hdr protocol isV6 firstTCPSeqNum) (length inp) (unat (vh_gsoSize hdr)) 0 (unat (vh_hdrLen hdr)) outBuffs;
       Some (if tooMany then int (length segs) - 1 else int (length segs), tooMany, segs)
     }"

definition gsoNoneChecksum :: "byte list \<Rightarrow> 16 word \<Rightarrow> 16 word \<Rightarrow> byte list option" where
  "gsoNoneChecksum inp cSumStart cSumOffset =
     (let cSumAt = unat (cSumStart + cSumOffset)
      in do {
           initial \<leftarrow> get16 cSumAt inp;
           inp \<leftarrow> put_bytes cSumAt [0, 0] inp;
           body \<leftarrow> slice (unat cSumStart) (length inp) inp;
           put16 cSumAt (NOT (checksum body (ucast initial))) inp
         })"

subsection \<open>Reading from the device (tun\_linux.go)\<close>

datatype virtio_error = ErrShortBuffer | ErrOverflow | ErrGSOType | ErrIPVersion | ErrTooShort | ErrTCPHeaderLen | ErrHdrLen | ErrCsumStart | ErrCsumOffset

definition gso_type_ok :: "byte \<Rightarrow> byte \<Rightarrow> bool" where
  "gso_type_ok ipVersion gsoType \<longleftrightarrow>
     ipVersion = 4 \<and> (gsoType = VIRTIO_NET_HDR_GSO_TCPV4 \<or> gsoType = VIRTIO_NET_HDR_GSO_UDP_L4) \<or>
     ipVersion = 6 \<and> (gsoType = VIRTIO_NET_HDR_GSO_TCPV6 \<or> gsoType = VIRTIO_NET_HDR_GSO_UDP_L4)"

definition virtio_hdrLen :: "virtioNetHdr \<Rightarrow> byte list \<Rightarrow> (virtio_error, 16 word) res" where
  "virtio_hdrLen hdr inp =
     (if vh_gsoType hdr = VIRTIO_NET_HDR_GSO_UDP_L4 then Ok (vh_csumStart hdr + 8)
      else if length inp \<le> unat (vh_csumStart hdr + 12) then Err ErrTooShort
      else
        let tcpHLen = ucast (drop_bit 4 (inp ! unat (vh_csumStart hdr + 12)) * 4) :: 16 word
        in if tcpHLen < 20 \<or> 60 < tcpHLen then Err ErrTCPHeaderLen else Ok (vh_csumStart hdr + tcpHLen))"

definition handleVirtioRead :: "byte list \<Rightarrow> byte list list \<Rightarrow> (virtio_error, int \<times> bool \<times> (nat \<times> byte list) list) res option" where
  "handleVirtioRead raw bufs =
     (case virtioNetHdr_decode raw of
        None \<Rightarrow> Some (Err ErrShortBuffer)
      | Some hdr \<Rightarrow>
          let inp = drop virtioNetHdrLen raw
          in if vh_gsoType hdr = VIRTIO_NET_HDR_GSO_NONE then do {
               inp \<leftarrow> (if vh_flags hdr AND VIRTIO_NET_HDR_F_NEEDS_CSUM \<noteq> 0 then gsoNoneChecksum inp (vh_csumStart hdr) (vh_csumOffset hdr) else Some inp);
               if bufs = [] then None
               else if length (hd bufs) < length inp then Some (Err ErrOverflow)
               else do { out \<leftarrow> copy_to 0 inp (hd bufs); Some (Ok (1, False, [(length inp, out)])) }
             }
             else if vh_gsoType hdr \<notin> {VIRTIO_NET_HDR_GSO_TCPV4, VIRTIO_NET_HDR_GSO_TCPV6, VIRTIO_NET_HDR_GSO_UDP_L4} then Some (Err ErrGSOType)
             else if inp = [] then None
             else
               let ipVersion = drop_bit 4 (hd inp)
               in if \<not> gso_type_ok ipVersion (vh_gsoType hdr) then Some (Err ErrIPVersion)
                  else
                    (case virtio_hdrLen hdr inp of
                       Inl e \<Rightarrow> Some (Err e)
                     | Inr hdrLen \<Rightarrow>
                         if length inp < unat hdrLen then Some (Err ErrHdrLen)
                         else if hdrLen < vh_csumStart hdr then Some (Err ErrCsumStart)
                         else if length inp \<le> unat (vh_csumStart hdr + vh_csumOffset hdr) + 1 then Some (Err ErrCsumOffset)
                         else map_option Ok (gsoSplit inp (hdr\<lparr>vh_hdrLen := hdrLen\<rparr>) bufs (ipVersion = 6))))"

subsection \<open>Writing and reading fields\<close>

named_theorems slices

lemma put_bytes_Some: "put_bytes i bs b = Some b' \<longleftrightarrow> i + length bs \<le> length b \<and> b' = take i b @ bs @ drop (i + length bs) b"
  by (auto simp: put_bytes_def)

lemma put_bytes_length: "put_bytes i bs b = Some b' \<Longrightarrow> length b' = length b"
  by (auto simp: put_bytes_Some)

lemma put_bytes_ok: "i + length bs \<le> length b \<Longrightarrow> \<exists>b'. put_bytes i bs b = Some b'"
  by (simp add: put_bytes_def)

lemma put_bytes_nth:
  assumes "put_bytes i bs b = Some b'" "k < length b"
  shows "b' ! k = (if i \<le> k \<and> k < i + length bs then bs ! (k - i) else b ! k)"
  using assms by (auto simp: put_bytes_Some nth_append min_def)

lemma put_bytes_take: "put_bytes i bs b = Some b' \<Longrightarrow> n \<le> i \<Longrightarrow> take n b' = take n b"
  by (auto simp: put_bytes_Some min_def)

lemma put_bytes_drop: "put_bytes i bs b = Some b' \<Longrightarrow> i + length bs \<le> n \<Longrightarrow> drop n b' = drop n b"
  by (auto simp: put_bytes_Some)

lemma put16_Some: "put16 i w b = Some b' \<longleftrightarrow> put_bytes i (BigEndian_PutUint16 w) b = Some b'"
  by (simp add: put16_def)

lemma length_Put16 [simp]: "length (BigEndian_PutUint16 w) = 2"
  by (simp add: BigEndian_PutUint16_def)

lemma length_Put32 [simp]: "length (BE_PutUint32 w) = 4"
  by (simp add: BE_PutUint32_def)

lemma slice_Some: "slice i j b = Some s \<longleftrightarrow> i \<le> j \<and> j \<le> length b \<and> s = take (j - i) (drop i b)"
  by (auto simp: slice_def)

lemma slice_ok: "i \<le> j \<Longrightarrow> j \<le> length b \<Longrightarrow> slice i j b = Some (take (j - i) (drop i b))"
  by (simp add: slice_def)

lemma Put16_field: "BE_field16 (BigEndian_PutUint16 w) = w"
  by (rule bit_word_eqI) (auto simp: BE_field16_def BigEndian_PutUint16_def bit_simps)

lemma slice_put: "put_bytes i bs b = Some b' \<Longrightarrow> j = i + length bs \<Longrightarrow> slice i j b' = Some bs"
  by (auto simp: put_bytes_Some slice_def)

lemma get16_put: "put16 i w b = Some b' \<Longrightarrow> get16 i b' = Some w"
  using slice_put [of i "BigEndian_PutUint16 w" b b' "i + 2"] by (simp add: put16_def get16_def Put16_field)

lemma slice_other:
  assumes "put_bytes i bs b = Some b'" "j \<le> i \<or> i + length bs \<le> k"
  shows "slice k j b' = slice k j b"
proof (cases "k \<le> j \<and> j \<le> length b")
  case True
  have "take (j - k) (drop k b') = take (j - k) (drop k b)"
    by (rule nth_equalityI) (use assms True put_bytes_length [OF assms(1)] put_bytes_nth [OF assms(1)] in auto)
  with True show ?thesis using put_bytes_length [OF assms(1)] by (simp add: slice_def)
qed (use put_bytes_length [OF assms(1)] in \<open>auto simp: slice_def\<close>)

lemma get_other:
  assumes "put_bytes i bs b = Some b'"
  shows "k + 2 \<le> i \<or> i + length bs \<le> k \<Longrightarrow> get16 k b' = get16 k b" "k + 4 \<le> i \<or> i + length bs \<le> k \<Longrightarrow> get32 k b' = get32 k b"
  using slice_other [OF assms, of "k + 2" k] slice_other [OF assms, of "k + 4" k] by (simp_all add: get16_def get32_def)

subsection \<open>Checksums that are filled in\<close>

lemma word_sum_field: "even k \<Longrightarrow> k + 2 \<le> length b \<Longrightarrow> word_sum (take k b @ [x, y] @ drop (k + 2) b) = word_sum (take k b) + (256 * unat x + unat y) + word_sum (drop (k + 2) b)"
  by (subst word_sum_append) (auto simp: min_def)

lemma word_sum_put:
  assumes "put_bytes k [0, 0] b = Some b" "even k" "put16 k w b = Some b'"
  shows "word_sum b' = word_sum b + unat w"
proof -
  have k: "k + 2 \<le> length b" and b: "b = take k b @ [0, 0] @ drop (k + 2) b" using assms(1) by (auto simp: put_bytes_Some)
  have "256 * unat (ucast (drop_bit 8 w) :: byte) + unat (ucast w :: byte) = unat w"
    by (simp add: unsigned_ucast_eq unsigned_take_bit_eq unsigned_drop_bit_eq)
      (use unsigned_less [of w, where 'a = nat] in \<open>simp add: take_bit_eq_mod drop_bit_eq_div\<close>)
  moreover have "b' = take k b @ [ucast (drop_bit 8 w), ucast w] @ drop (k + 2) b"
    using assms(3) by (simp add: put16_def put_bytes_Some BigEndian_PutUint16_def)
  ultimately have "word_sum b' = word_sum (take k b) + unat w + word_sum (drop (k + 2) b)"
    using word_sum_field [OF assms(2) k] by simp
  moreover have "word_sum b = word_sum (take k b) + word_sum (drop (k + 2) b)"
    using word_sum_field [OF assms(2) k, of 0 0] b by simp
  ultimately show ?thesis by simp
qed

lemma unat_NOT16: "unat (NOT (w :: 16 word)) = 65535 - unat w"
proof -
  have "NOT w = - 1 - w" by (simp add: not_eq_complement)
  moreover have "unat (- 1 - w) = unat (- 1 :: 16 word) - unat w" by (rule unat_sub) simp
  ultimately show ?thesis by (simp add: unsigned_minus_1_eq_mask mask_eq_exp_minus_1)
qed

lemma checksum_filled:
  assumes "put_bytes k [0, 0] b = Some b" "even k" "put16 k (NOT (checksum b init)) b = Some b'"
  shows "checksum b' init = 0xffff"
proof -
  let ?S = "unat init + word_sum b"
  have c: "unat (NOT (checksum b init)) = 65535 - ones_fold ?S" by (simp add: unat_NOT16 checksum_rfc)
  let ?T = "?S + (65535 - ones_fold ?S)"
  have o: "ones 65535 (ones_fold ?S) ?S" "ones_fold ?S \<le> 65535" by (rule ones_fold_ones, rule ones_fold_bound)
  have "?T mod 65535 = (ones_fold ?S + (65535 - ones_fold ?S)) mod 65535" using o(1) by (intro mod_add_cong) (simp_all add: ones_def)
  also have "\<dots> = 0" using o(2) by simp
  finally have "ones 65535 65535 ?T" using o by (auto simp: ones_def)
  then have "ones_fold ?T = 65535" by (intro ones_unique [OF ones_fold_ones _ ones_fold_bound]) simp_all
  then have "unat (checksum b' init) = 65535" by (simp add: checksum_rfc word_sum_put [OF assms] c add.assoc)
  then show ?thesis by (simp add: word_unat_eq_iff)
qed

subsection \<open>The segments\<close>

lemma copy_front: "length h \<le> length b \<Longrightarrow> copy_to 0 h b = Some (h @ drop (length h) b)"
  by (simp add: copy_to_def put_bytes_def)

lemma copy_back: "i + length s \<le> length b \<Longrightarrow> copy_to i s b = put_bytes i s b"
  by (simp add: copy_to_def)

lemma zero_field: "k + 2 \<le> length b \<Longrightarrow> b ! k = 0 \<Longrightarrow> b ! Suc k = 0 \<Longrightarrow> put_bytes k [0, 0] b = Some b"
proof -
  assume k: "k + 2 \<le> length b" "b ! k = 0" "b ! Suc k = 0"
  then have "drop k b = 0 # 0 # drop (Suc (Suc k)) b" using Cons_nth_drop_Suc [of k b] Cons_nth_drop_Suc [of "Suc k" b] by simp
  then have "take k b @ 0 # 0 # drop (Suc (Suc k)) b = b" by (metis append_take_drop_id)
  with k(1) show ?thesis by (simp add: put_bytes_def)
qed

lemma put_take: "put_bytes i bs b = Some b' \<Longrightarrow> i + length bs \<le> n \<Longrightarrow> put_bytes i bs (take n b) = Some (take n b')"
  by (auto simp: put_bytes_Some drop_take min.absorb1 min.absorb2)

lemma put_drop: "put_bytes i bs b = Some b' \<Longrightarrow> n \<le> i \<Longrightarrow> put_bytes (i - n) bs (drop n b) = Some (drop n b')"
  by (auto simp: put_bytes_Some drop_take min_def)

lemma put16_props:
  assumes "put16 i w b = Some b'"
  shows "length b' = length b" "\<And>k. k < length b \<Longrightarrow> k \<noteq> i \<Longrightarrow> k \<noteq> Suc i \<Longrightarrow> b' ! k = b ! k" "get16 i b' = Some w"
    "\<And>n. Suc i < n \<Longrightarrow> drop n b' = drop n b" "\<And>n. n \<le> i \<Longrightarrow> take n b' = take n b"
    "\<And>k. k + 2 \<le> i \<or> i + 2 \<le> k \<Longrightarrow> get16 k b' = get16 k b" "\<And>k. k + 4 \<le> i \<or> i + 2 \<le> k \<Longrightarrow> get32 k b' = get32 k b"
proof -
  have p: "put_bytes i (BigEndian_PutUint16 w) b = Some b'" using assms by (simp add: put16_def)
  show "length b' = length b" "get16 i b' = Some w" by (rule put_bytes_length [OF p], rule get16_put [OF assms])
  show "b' ! k = b ! k" if "k < length b" "k \<noteq> i" "k \<noteq> Suc i" for k using put_bytes_nth [OF p that(1)] that(2,3) by auto
  show "drop n b' = drop n b" if "Suc i < n" for n using put_bytes_drop [OF p, of n] that by simp
  show "take n b' = take n b" if "n \<le> i" for n using put_bytes_take [OF p that] .
  show "get16 k b' = get16 k b" if "k + 2 \<le> i \<or> i + 2 \<le> k" for k using get_other(1) [OF p, of k] that by simp
  show "get32 k b' = get32 k b" if "k + 4 \<le> i \<or> i + 2 \<le> k" for k using get_other(2) [OF p, of k] that by simp
qed

lemma put16_ex: "i + 2 \<le> length b \<Longrightarrow> \<exists>b'. put16 i w b = Some b'"
  by (simp add: put16_def put_bytes_def)

lemma ip_header_v4:
  assumes "iph = unat (vh_csumStart hdr)" "12 \<le> iph" "iph \<le> length inp" "iph \<le> length out" "inp ! 10 = 0" "inp ! 11 = 0"
  obtains out' where "gso_ip_header inp hdr False i tlen out = Some out'" "length out' = length out" "drop iph out' = drop iph out"
    "\<And>k. k < iph \<Longrightarrow> k \<notin> {2, 3, 4, 5, 10, 11} \<Longrightarrow> out' ! k = inp ! k" "get16 2 out' = Some (of_nat tlen)" "checksum (take iph out') 0 = 0xffff"
    "get16 4 out' = map_option (\<lambda>id. id + of_nat i) (get16 4 inp)"
proof -
  define o1 where "o1 = take iph inp @ drop iph out"
  have o1: "copy_to 0 (take iph inp) out = Some o1" "length o1 = length out" "drop iph o1 = drop iph out" "\<And>k. k < iph \<Longrightarrow> o1 ! k = inp ! k"
    using assms copy_front [of "take iph inp" out] by (simp_all add: o1_def nth_append)
  have "slice 4 6 o1 = slice 4 6 inp" using assms(2-4) by (simp add: slice_def o1_def drop_take min_def)
  then have "get16 4 o1 = get16 4 inp" by (simp add: get16_def)
  then obtain id where id: "get16 4 inp = Some id" "get16 4 o1 = Some id" using assms(2-4) by (auto simp: get16_def slice_def)
  obtain o2 where o2: "(if 0 < i then do { id \<leftarrow> get16 4 o1; put16 4 (id + of_nat i) o1 } else Some o1) = Some o2" "length o2 = length out"
    "drop iph o2 = drop iph out" "\<And>k. k < iph \<Longrightarrow> k \<noteq> 4 \<Longrightarrow> k \<noteq> 5 \<Longrightarrow> o2 ! k = inp ! k" "get16 4 o2 = Some (id + of_nat i)"
  proof (cases "0 < i")
    case True
    obtain o2 where p: "put16 4 (id + of_nat i) o1 = Some o2" using put16_ex [of 4 o1] assms(2,4) o1(2) by auto
    show thesis by (rule that [of o2]) (use True p id put16_props [OF p] o1 assms(2,4) in auto)
  qed (use that [of o1] o1 id in auto)
  obtain o3 where o3: "put16 2 (of_nat tlen) o2 = Some o3" using put16_ex [of 2 o2] assms(2,4) o2(2) by auto
  note q3 = put16_props [OF o3]
  have iphs: "slice 0 iph o3 = Some (take iph o3)" using assms(4) q3(1) o2(2) by (simp add: slice_def)
  let ?c = "NOT (checksum (take iph o3) 0)"
  obtain o4 where o4: "put16 10 ?c o3 = Some o4" using put16_ex [of 10 o3] assms(2,4) o2(2) q3(1) by auto
  note q4 = put16_props [OF o4]
  have "put_bytes 10 [0, 0] (take iph o3) = Some (take iph o3)"
    by (rule zero_field) (use assms o2 q3(1,2) in auto)
  moreover have "put16 10 ?c (take iph o3) = Some (take iph o4)"
    using put_take [of 10 "BigEndian_PutUint16 ?c" o3 o4 iph] o4 assms(2) by (simp add: put16_def)
  ultimately have sum: "checksum (take iph o4) 0 = 0xffff" by (intro checksum_filled) simp_all
  have "gso_ip_header inp hdr False i tlen out = Some o4"
    using o1(1) o2(1) o3 iphs o4 assms(1,3) by (simp add: gso_ip_header_def Let_def slice_def)
  moreover have "get16 2 o4 = Some (of_nat tlen)" "get16 4 o4 = Some (id + of_nat i)"
    using q3(3,6) q4(6) o2(5) by simp_all
  ultimately show thesis
    using that [of o4] q3 q4 o2 id sum assms(2,4) by auto
qed

lemma ip_header_v6:
  assumes "iph = unat (vh_csumStart hdr)" "6 \<le> iph" "iph \<le> length inp" "iph \<le> length out"
  obtains out' where "gso_ip_header inp hdr True i tlen out = Some out'" "length out' = length out" "drop iph out' = drop iph out"
    "\<And>k. k < iph \<Longrightarrow> k \<notin> {4, 5} \<Longrightarrow> out' ! k = inp ! k" "get16 4 out' = Some (of_int (int tlen - int iph))"
proof -
  define o1 where "o1 = take iph inp @ drop iph out"
  have o1: "copy_to 0 (take iph inp) out = Some o1" "length o1 = length out" "drop iph o1 = drop iph out" "\<And>k. k < iph \<Longrightarrow> o1 ! k = inp ! k"
    using assms copy_front [of "take iph inp" out] by (simp_all add: o1_def nth_append)
  obtain o2 where o2: "put16 4 (of_int (int tlen - int iph)) o1 = Some o2" using put16_ex [of 4 o1] assms(2,4) o1(2) by auto
  note q = put16_props [OF o2]
  have "gso_ip_header inp hdr True i tlen out = Some o2" using o1(1) o2 assms(1,3) by (simp add: gso_ip_header_def Let_def slice_def)
  then show thesis using that [of o2] q o1 assms(2,4) by auto
qed

lemma put32_props:
  assumes "put32 i w b = Some b'"
  shows "length b' = length b" "\<And>k. k < length b \<Longrightarrow> k < i \<or> i + 4 \<le> k \<Longrightarrow> b' ! k = b ! k" "get32 i b' = Some w"
    "\<And>n. i + 4 \<le> n \<Longrightarrow> drop n b' = drop n b" "\<And>n. n \<le> i \<Longrightarrow> take n b' = take n b"
proof -
  have p: "put_bytes i (BE_PutUint32 w) b = Some b'" using assms by (simp add: put32_def)
  show "length b' = length b" by (rule put_bytes_length [OF p])
  show "get32 i b' = Some w" using slice_put [OF p, of "i + 4"] by (simp add: get32_def)
  show "b' ! k = b ! k" if "k < length b" "k < i \<or> i + 4 \<le> k" for k using put_bytes_nth [OF p that(1)] that(2) by auto
  show "drop n b' = drop n b" if "i + 4 \<le> n" for n using put_bytes_drop [OF p, of n] that by simp
  show "take n b' = take n b" if "n \<le> i" for n using put_bytes_take [OF p that] .
qed

definition is_tcp :: "virtioNetHdr \<Rightarrow> bool" where
  "is_tcp hdr \<longleftrightarrow> vh_gsoType hdr = VIRTIO_NET_HDR_GSO_TCPV4 \<or> vh_gsoType hdr = VIRTIO_NET_HDR_GSO_TCPV6"

text \<open>
  A header that describes its packet: the transport header follows the IP header, the checksum is where TCP or UDP has it, and the
  packet is no longer than an IP packet can be.
\<close>

definition gso_sane :: "byte list \<Rightarrow> virtioNetHdr \<Rightarrow> bool \<Rightarrow> bool" where
  "gso_sane inp hdr isV6 \<longleftrightarrow>
     (if isV6 then 40 else 20) \<le> unat (vh_csumStart hdr) \<and>
     unat (vh_csumStart hdr) + (if is_tcp hdr then 20 else 8) \<le> unat (vh_hdrLen hdr) \<and> unat (vh_hdrLen hdr) \<le> length inp \<and>
     length inp < 65536 \<and> vh_csumOffset hdr = (if is_tcp hdr then 16 else 6) \<and> vh_gsoSize hdr \<noteq> 0"

lemma unat_offset: "unat (a :: 16 word) + k < 65536 \<Longrightarrow> unat (a + of_nat k) = unat a + k"
  by (simp add: unat_word_ariths unat_of_nat)

lemma gso_transport_ok:
  assumes "gso_sane inp hdr isV6" "iph = unat (vh_csumStart hdr)" "h = unat (vh_hdrLen hdr)" "h \<le> length out"
  obtains out' where
    "gso_transport_header inp hdr (if is_tcp hdr then 6 else 17) first i dl inner out = Some out'" "length out' = length out" "drop h out' = drop h out"
    "take iph out' = take iph out" "\<And>k. iph \<le> k \<Longrightarrow> k < h \<Longrightarrow> k \<notin> {iph + 4, iph + 5, iph + 6, iph + 7, iph + 13} \<or> \<not> is_tcp hdr \<and> k \<notin> {iph + 4, iph + 5} \<Longrightarrow> out' ! k = inp ! k"
    "is_tcp hdr \<Longrightarrow> get32 (iph + 4) out' = Some (first + ucast (vh_gsoSize hdr * of_nat i))"
    "is_tcp hdr \<Longrightarrow> out' ! (iph + 13) = (if inner then inp ! (iph + 13) AND NOT (0x01 OR 0x08) else inp ! (iph + 13))"
    "\<not> is_tcp hdr \<Longrightarrow> get16 (iph + 4) out' = Some (of_nat dl + (vh_hdrLen hdr - vh_csumStart hdr))"
proof -
  have b: "iph + 20 \<le> h \<or> \<not> is_tcp hdr" "iph + 8 \<le> h" "h \<le> length inp" "h < 65536" using assms(1-3) by (auto simp: gso_sane_def split: if_splits)
  have o4: "unat (vh_csumStart hdr + 4) = iph + 4" using unat_offset [of "vh_csumStart hdr" 4] b assms(2) by simp
  have o13: "unat (vh_csumStart hdr + 13) = iph + 13" if "is_tcp hdr" using unat_offset [of "vh_csumStart hdr" 13] b assms(2) that by simp
  define th where "th = take (h - iph) (drop iph inp)"
  have th: "slice iph h inp = Some th" "length th = h - iph" using b by (simp_all add: slice_def th_def)
  obtain a1 where a1: "put_bytes iph th out = Some a1" using put_bytes_ok [of iph th out] th(2) b assms(4) by auto
  have n1: "length a1 = length out" "drop h a1 = drop h out" "take iph a1 = take iph out" "\<And>k. iph \<le> k \<Longrightarrow> k < h \<Longrightarrow> a1 ! k = inp ! k"
    using put_bytes_length [OF a1] put_bytes_drop [OF a1, of h] put_bytes_take [OF a1, of iph] put_bytes_nth [OF a1] th(2) b assms(4) by (auto simp: th_def)
  show thesis
  proof (cases "is_tcp hdr")
    case True
    obtain a2 where a2: "put32 (iph + 4) (first + ucast (vh_gsoSize hdr * of_nat i)) a1 = Some a2"
      using put_bytes_ok [of "iph + 4" "BE_PutUint32 (first + ucast (vh_gsoSize hdr * of_nat i))" a1] n1 b True assms(4) by (auto simp: put32_def)
    note q = put32_props [OF a2]
    define a3 where "a3 = (if inner then a2[iph + 13 := a2 ! (iph + 13) AND NOT (0x01 OR 0x08)] else a2)"
    have l: "iph + 13 < length a2" using q(1) n1(1) b True assms(4) by simp
    have r: "gso_transport_header inp hdr 6 first i dl inner out = Some a3"
      using th a1 a2 o4 o13 True l assms(2,3) by (auto simp: gso_transport_header_def a3_def clear_flags_def)
    have g: "get32 (iph + 4) a3 = get32 (iph + 4) a2"
      using l by (auto simp: a3_def get32_def slice_def take_drop [of _ "iph + 4"])
    have k3: "a3 ! k = inp ! k" if "iph \<le> k" "k < h" "k \<notin> {iph + 4, iph + 5, iph + 6, iph + 7, iph + 13}" for k
    proof -
      have "k < iph + 4 \<or> iph + 4 + 4 \<le> k" using that(3) by auto
      then have "a2 ! k = inp ! k" using q(2) [of k] n1(1,4) that(1,2) assms(4) by simp
      with that(3) show ?thesis by (simp add: a3_def)
    qed
    have d3: "drop h a3 = drop h out" "take iph a3 = take iph out" "length a3 = length out"
      using q n1 b True by (simp_all add: a3_def)
    have "a2 ! (iph + 13) = inp ! (iph + 13)" using q(2) [of "iph + 13"] n1(4) [of "iph + 13"] q(1) l b True by simp
    then have f3: "a3 ! (iph + 13) = (if inner then inp ! (iph + 13) AND NOT (0x01 OR 0x08) else inp ! (iph + 13))" using l by (simp add: a3_def)
    show thesis by (rule that [of a3]) (use r g q(3) k3 d3 f3 True in auto)
  next
    case False
    let ?w = "of_nat dl + (vh_hdrLen hdr - vh_csumStart hdr)"
    obtain a2 where a2: "put16 (iph + 4) ?w a1 = Some a2" using put16_ex [of "iph + 4" a1] n1 b assms(4) by auto
    note q = put16_props [OF a2]
    have r: "gso_transport_header inp hdr 17 first i dl inner out = Some a2"
      using th a1 a2 o4 assms(2,3) by (simp add: gso_transport_header_def)
    show thesis by (rule that [of a2]) (use r q n1 b False assms(4) in auto)
  qed
qed

text \<open>\<^verbatim>\<open>checksumValid\<close>: what the receiving side (\<^verbatim>\<open>tcpGRO\<close>, \<^verbatim>\<open>udpGRO\<close>) asks of a packet; the number \<open>iphLen\<close> is a \<^verbatim>\<open>uint8\<close> there.\<close>

definition checksumValid :: "byte list \<Rightarrow> nat \<Rightarrow> byte \<Rightarrow> bool \<Rightarrow> bool option" where
  "checksumValid pkt iphLen proto isV6 =
     (let at = (if isV6 then ipv6SrcAddrOffset else ipv4SrcAddrOffset); n = (if isV6 then 16 else 4)
      in do {
           src \<leftarrow> slice at (at + n) pkt;
           dst \<leftarrow> slice (at + n) (at + n * 2) pkt;
           body \<leftarrow> slice iphLen (length pkt) pkt;
           Some (NOT (checksum body (pseudoHeaderChecksumNoFold proto src dst (of_int (int (length pkt) - int iphLen)))) = 0)
         })"

text \<open>What a segment has to be: the packet's header with its own lengths, sequence number, flags and checksums, and its share of the payload.\<close>

definition ip_part_ok :: "byte list \<Rightarrow> nat \<Rightarrow> bool \<Rightarrow> nat \<Rightarrow> byte list \<Rightarrow> bool" where
  "ip_part_ok inp iph isV6 i pkt \<longleftrightarrow>
     (if isV6 then get16 4 pkt = Some (of_nat (length pkt - iph)) \<and> (\<forall>k<iph. k \<notin> {4, 5} \<longrightarrow> pkt ! k = inp ! k)
      else get16 2 pkt = Some (of_nat (length pkt)) \<and> get16 4 pkt = map_option (\<lambda>id. id + of_nat i) (get16 4 inp) \<and>
        checksum (take iph pkt) 0 = 0xffff \<and> (\<forall>k<iph. k \<notin> {2, 3, 4, 5, 10, 11} \<longrightarrow> pkt ! k = inp ! k))"

definition transport_part_ok :: "byte list \<Rightarrow> nat \<Rightarrow> nat \<Rightarrow> bool \<Rightarrow> nat \<Rightarrow> bool \<Rightarrow> byte list \<Rightarrow> bool" where
  "transport_part_ok inp iph h tcp done inner pkt \<longleftrightarrow>
     (if tcp then
        get32 (iph + 4) pkt = map_option (\<lambda>s. s + of_nat done) (get32 (iph + 4) inp) \<and>
        pkt ! (iph + 13) = (if inner then inp ! (iph + 13) AND NOT (0x01 OR 0x08) else inp ! (iph + 13)) \<and>
        (\<forall>k\<in>{iph..<h}. k \<notin> {iph + 4, iph + 5, iph + 6, iph + 7, iph + 13, iph + 16, iph + 17} \<longrightarrow> pkt ! k = inp ! k)
      else
        get16 (iph + 4) pkt = Some (of_nat (length pkt - iph)) \<and>
        (\<forall>k\<in>{iph..<h}. k \<notin> {iph + 4, iph + 5, iph + 6, iph + 7} \<longrightarrow> pkt ! k = inp ! k))"

definition segment_ok :: "byte list \<Rightarrow> virtioNetHdr \<Rightarrow> bool \<Rightarrow> nat \<Rightarrow> byte list \<Rightarrow> bool" where
  "segment_ok inp hdr isV6 i pkt \<longleftrightarrow>
     (let iph = unat (vh_csumStart hdr); h = unat (vh_hdrLen hdr); mss = unat (vh_gsoSize hdr); at = h + i * mss
      in h < length pkt \<and> length pkt \<le> h + mss \<and> drop h pkt = take mss (drop at inp) \<and>
         ip_part_ok inp iph isV6 i pkt \<and> transport_part_ok inp iph h (is_tcp hdr) (i * mss) (at + mss < length inp) pkt \<and>
         checksumValid pkt iph (if is_tcp hdr then IPPROTO_TCP else IPPROTO_UDP) isV6 = Some True)"

lemma slice_agree:
  assumes "\<And>k. i \<le> k \<Longrightarrow> k < j \<Longrightarrow> b ! k = c ! k" "i \<le> j" "j \<le> length b" "j \<le> length c"
  shows "slice i j b = slice i j c"
proof -
  have "take (j - i) (drop i b) = take (j - i) (drop i c)" by (rule nth_equalityI) (use assms in auto)
  with assms(2-) show ?thesis by (simp add: slice_def)
qed

lemma get_agree:
  assumes "\<And>k. i \<le> k \<Longrightarrow> k < i + n \<Longrightarrow> b ! k = c ! k" "i + n \<le> length b" "i + n \<le> length c"
  shows "n = 2 \<Longrightarrow> get16 i b = get16 i c" "n = 4 \<Longrightarrow> get32 i b = get32 i c"
  using slice_agree [of i "i + n" b c] assms by (simp_all add: get16_def get32_def)

lemma get_take: "i + 2 \<le> n \<Longrightarrow> n \<le> length b \<Longrightarrow> get16 i (take n b) = get16 i b" "i + 4 \<le> n \<Longrightarrow> n \<le> length b \<Longrightarrow> get32 i (take n b) = get32 i b"
  by (simp_all add: get16_def get32_def slice_def drop_take)

text \<open>The bytes a segment gets from the payload and the transport checksum.\<close>

lemma gso_payload:
  assumes "h + length dat \<le> length out" "copy_to h dat out = Some out'"
  shows "length out' = length out" "take h out' = take h out" "drop h (take (h + length dat) out') = dat" "\<And>k. k < h \<Longrightarrow> out' ! k = out ! k"
proof -
  have p: "put_bytes h dat out = Some out'" using assms copy_back by simp
  show "length out' = length out" "take h out' = take h out" by (rule put_bytes_length [OF p], rule put_bytes_take [OF p order_refl])
  show "drop h (take (h + length dat) out') = dat" using p by (auto simp: put_bytes_Some)
  show "out' ! k = out ! k" if "k < h" for k using put_bytes_nth [OF p, of k] assms(1) that by auto
qed

lemma gso_checksum_ok:
  assumes "gso_sane inp hdr isV6" "iph = unat (vh_csumStart hdr)" "h = unat (vh_hdrLen hdr)" "h + n \<le> length out" "h + n < 65536"
    and "c = iph + (if is_tcp hdr then 16 else 6)" "out ! c = 0" "out ! Suc c = 0"
    and adr: "\<And>k. k < iph \<Longrightarrow> (if isV6 then 8 else 12) \<le> k \<Longrightarrow> out ! k = inp ! k"
  obtains out' where "gso_checksum inp hdr p isV6 n out = Some out'" "length out' = length out" "\<And>k. k < length out \<Longrightarrow> k \<notin> {c, Suc c} \<Longrightarrow> out' ! k = out ! k"
    "checksumValid (take (h + n) out') iph p isV6 = Some True"
proof -
  have b: "(if isV6 then 40 else 20) \<le> iph" "c + 2 \<le> h" "h \<le> length inp" "iph \<le> h" using assms(1-3,6) by (auto simp: gso_sane_def split: if_splits)
  have c: "unat (vh_csumStart hdr + vh_csumOffset hdr) = c"
    using unat_offset [of "vh_csumStart hdr" "if is_tcp hdr then 16 else 6"] b assms by (auto simp: gso_sane_def split: if_splits)
  have tl: "unat (vh_hdrLen hdr - vh_csumStart hdr) + n = h + n - iph"
    using b(4) assms(2,3) by (simp add: unat_sub word_le_nat_alt)
  define a m where "a = (if isV6 then 8 else 12 :: nat)" and "m = (if isV6 then 16 else 4 :: nat)"
  have am: "a + m * 2 \<le> iph" using b(1) by (auto simp: a_def m_def)
  obtain src dst where sd: "slice a (a + m) inp = Some src" "slice (a + m) (a + m * 2) inp = Some dst"
    using am b by (auto simp: slice_def)
  define body where "body = drop iph (take (h + n) out)"
  have body: "slice iph (h + n) out = Some body" using assms(4) b by (simp add: slice_def body_def drop_take)
  let ?s = "pseudoHeaderChecksumNoFold p src dst (of_nat (h + n - iph))"
  obtain out' where o: "put16 c (NOT (checksum body ?s)) out = Some out'" using put16_ex [of c out] assms(4) b by auto
  note q = put16_props [OF o]
  have r: "gso_checksum inp hdr p isV6 n out = Some out'"
    using sd body o c tl assms(2,3) by (simp add: gso_checksum_def Let_def a_def m_def split: if_splits)
  have "put_bytes c (BigEndian_PutUint16 (NOT (checksum body ?s))) (take (h + n) out) = Some (take (h + n) out')"
    by (rule put_take) (use o b in \<open>simp_all add: put16_def\<close>)
  then have "put_bytes (c - iph) (BigEndian_PutUint16 (NOT (checksum body ?s))) body = Some (drop iph (take (h + n) out'))"
    unfolding body_def by (rule put_drop) (simp add: assms(6))
  moreover have "put_bytes (c - iph) [0, 0] body = Some body"
    by (rule zero_field) (use assms(4,6-8) b in \<open>auto simp: body_def\<close>)
  moreover have "even (c - iph)" using assms(6) by simp
  ultimately have v: "checksum (drop iph (take (h + n) out')) ?s = 0xffff"
    unfolding put16_def [symmetric] using checksum_filled by blast
  have nth: "take (h + n) out' ! k = inp ! k" if "k < iph" "a \<le> k" for k
    using adr [of k] q(2) [of k] that b assms(4,6) by (simp add: a_def)
  have L: "length (take (h + n) out') = h + n" using q(1) assms(4) by simp
  have "slice a (a + m) (take (h + n) out') = Some src" "slice (a + m) (a + m * 2) (take (h + n) out') = Some dst"
    unfolding sd [symmetric] by (rule slice_agree; use nth am b L in simp)+
  moreover have "slice iph (h + n) (take (h + n) out') = Some (drop iph (take (h + n) out'))" using L b by (simp add: slice_def)
  moreover have "of_int (int (h + n) - int iph) = (of_nat (h + n - iph) :: 16 word)" using b by (simp add: of_nat_diff)
  ultimately have "checksumValid (take (h + n) out') iph p isV6 = Some (NOT (checksum (drop iph (take (h + n) out')) ?s) = 0)"
    unfolding checksumValid_def Let_def L a_def [symmetric] m_def [symmetric] by simp
  with v have "checksumValid (take (h + n) out') iph p isV6 = Some True" by simp
  then show thesis using that [OF r q(1)] q(2) by blast
qed

text \<open>The two IP versions, as one: the header is the packet's, and the bytes from the addresses on are untouched.\<close>

lemma gso_ip_ok:
  assumes "gso_sane inp hdr isV6" "iph = unat (vh_csumStart hdr)" "iph \<le> length out" "tlen < 65536" "iph \<le> tlen" "\<not> isV6 \<Longrightarrow> inp ! 10 = 0 \<and> inp ! 11 = 0"
  obtains out' where "gso_ip_header inp hdr isV6 i tlen out = Some out'" "length out' = length out"
    "\<And>k. k < iph \<Longrightarrow> (if isV6 then 8 else 12) \<le> k \<Longrightarrow> out' ! k = inp ! k"
    "\<And>pkt. length pkt = tlen \<Longrightarrow> take iph pkt = take iph out' \<Longrightarrow> ip_part_ok inp iph isV6 i pkt"
proof -
  have b: "(if isV6 then 40 else 20) \<le> iph" "iph \<le> length inp" using assms(1,2) by (auto simp: gso_sane_def split: if_splits)
  have agree: "(\<forall>k<iph. pkt ! k = out' ! k) \<and> get16 2 pkt = get16 2 out' \<and> get16 4 pkt = get16 4 out'"
    if "length pkt = tlen" "take iph pkt = take iph out'" "length out' = length out" for pkt out'
  proof -
    have k: "pkt ! k = out' ! k" if "k < iph" for k using nth_take [OF that, of pkt] nth_take [OF that, of out'] \<open>take iph pkt = take iph out'\<close> by simp
    have "get16 2 pkt = get16 2 out'" "get16 4 pkt = get16 4 out'"
      by (rule get_agree [of _ 2]; use k b(1) assms(3,5) that in \<open>auto split: if_splits\<close>)+
    with k show ?thesis by blast
  qed
  show thesis
  proof (cases isV6)
    case True
    obtain out' where o: "gso_ip_header inp hdr True i tlen out = Some out'" "length out' = length out" "drop iph out' = drop iph out"
      "\<And>k. k < iph \<Longrightarrow> k \<notin> {4, 5} \<Longrightarrow> out' ! k = inp ! k" "get16 4 out' = Some (of_int (int tlen - int iph))"
      using ip_header_v6 [OF assms(2), of inp out i tlen] b True assms(3) by auto
    have "of_int (int tlen - int iph) = (of_nat (tlen - iph) :: 16 word)" using assms(5) by (simp add: of_nat_diff)
    then have "ip_part_ok inp iph isV6 i pkt" if "length pkt = tlen" "take iph pkt = take iph out'" for pkt
      using agree [OF that o(2)] o(4,5) that(1) True by (auto simp: ip_part_ok_def)
    then show thesis using that [of out'] o(1,2,4) True by auto
  next
    case False
    obtain out' where o: "gso_ip_header inp hdr False i tlen out = Some out'" "length out' = length out" "drop iph out' = drop iph out"
      "\<And>k. k < iph \<Longrightarrow> k \<notin> {2, 3, 4, 5, 10, 11} \<Longrightarrow> out' ! k = inp ! k" "get16 2 out' = Some (of_nat tlen)" "checksum (take iph out') 0 = 0xffff"
      "get16 4 out' = map_option (\<lambda>id. id + of_nat i) (get16 4 inp)"
      using ip_header_v4 [OF assms(2), of inp out i tlen] b False assms(3,6) by auto
    have "ip_part_ok inp iph isV6 i pkt" if "length pkt = tlen" "take iph pkt = take iph out'" for pkt
      using agree [OF that o(2)] o(4-) that False by (auto simp: ip_part_ok_def)
    then show thesis using that [of out'] o(1,2,4) False by auto
  qed
qed

lemma gso_offset: "i * unat (g :: 16 word) < 65536 \<Longrightarrow> ucast (g * of_nat i) = (of_nat (i * unat g) :: 32 word)"
proof -
  assume "i * unat g < 65536"
  then have "unat (of_nat (i * unat g) :: 16 word) = i * unat g" by (simp add: unat_of_nat del: of_nat_mult)
  moreover have "g * of_nat i = of_nat (i * unat g)" by (simp add: mult.commute)
  ultimately have "unat (g * of_nat i) = i * unat g" by metis
  then show ?thesis by (metis of_nat_unat)
qed

text \<open>The transport header of a packet that keeps, apart from its checksum, what \<^verbatim>\<open>gsoSplit\<close> wrote.\<close>

lemma transport_part_ok_intro:
  assumes iph: "iph = unat (vh_csumStart hdr)" and h: "h = unat (vh_hdrLen hdr)" and c: "c = iph + (if is_tcp hdr then 16 else 6)" and ch: "c + 2 \<le> h"
    and L4: "length pkt = h + n" and L1: "h \<le> length o2" and p4: "\<And>k. k < h \<Longrightarrow> k \<noteq> c \<Longrightarrow> k \<noteq> Suc c \<Longrightarrow> pkt ! k = o2 ! k"
    and same: "\<And>k. iph \<le> k \<Longrightarrow> k < h \<Longrightarrow>
      k \<notin> {iph + 4, iph + 5, iph + 6, iph + 7, iph + 13} \<or> \<not> is_tcp hdr \<and> k \<notin> {iph + 4, iph + 5} \<Longrightarrow> o2 ! k = inp ! k"
    and seq: "is_tcp hdr \<Longrightarrow> get32 (iph + 4) o2 = Some (first + ucast (vh_gsoSize hdr * of_nat i))"
    and flags: "is_tcp hdr \<Longrightarrow> o2 ! (iph + 13) = (if inner then inp ! (iph + 13) AND NOT (0x01 OR 0x08) else inp ! (iph + 13))"
    and len: "\<not> is_tcp hdr \<Longrightarrow> get16 (iph + 4) o2 = Some (of_nat n + (vh_hdrLen hdr - vh_csumStart hdr))"
    and first: "is_tcp hdr \<Longrightarrow> get32 (iph + 4) inp = Some first" and iphh: "iph \<le> h" and bound: "i * mss < 65536" and mss: "mss = unat (vh_gsoSize hdr)"
  shows "transport_part_ok inp iph h (is_tcp hdr) (i * mss) inner pkt"
proof (cases "is_tcp hdr")
  case True
  have g: "get32 (iph + 4) pkt = get32 (iph + 4) o2"
    by (rule get_agree(2) [of _ 4]) (use p4 c ch True L4 L1 in simp_all)
  have "first + ucast (vh_gsoSize hdr * of_nat i) = first + of_nat (i * mss)" using gso_offset bound mss by simp
  then have "get32 (iph + 4) pkt = map_option (\<lambda>s. s + of_nat (i * mss)) (get32 (iph + 4) inp)"
    using g seq first True by simp
  moreover have "pkt ! k = inp ! k" if "k \<in> {iph..<h}" "k \<notin> {iph + 4, iph + 5, iph + 6, iph + 7, iph + 13, iph + 16, iph + 17}" for k
    using same [of k] p4 [of k] that True c by simp
  moreover have "pkt ! (iph + 13) = o2 ! (iph + 13)" using p4 [of "iph + 13"] c ch True by simp
  ultimately show ?thesis using flags True by (simp add: transport_part_ok_def)
next
  case False
  have g: "get16 (iph + 4) pkt = get16 (iph + 4) o2"
    by (rule get_agree(1) [of _ 2]) (use p4 c ch False L4 L1 in simp_all)
  have "of_nat n + (vh_hdrLen hdr - vh_csumStart hdr) = of_nat (h + n - iph)"
    using iphh by (simp add: iph h of_nat_diff)
  then have "get16 (iph + 4) pkt = Some (of_nat (length pkt - iph))" using g len False L4 by simp
  moreover have "pkt ! k = inp ! k" if "k \<in> {iph..<h}" "k \<notin> {iph + 4, iph + 5, iph + 6, iph + 7}" for k
    using same [of k] p4 [of k] that False c by simp
  ultimately show ?thesis using False by (simp add: transport_part_ok_def)
qed

lemma segment_spec:
  assumes s: "gso_sane inp hdr isV6" and iph: "iph = unat (vh_csumStart hdr)" and h: "h = unat (vh_hdrLen hdr)" and mss: "mss = unat (vh_gsoSize hdr)"
    and at: "at = h + i * mss" "at < length inp" and buf: "h + mss \<le> length out"
    and z: "\<not> isV6 \<Longrightarrow> inp ! 10 = 0 \<and> inp ! 11 = 0" "c = iph + (if is_tcp hdr then 16 else 6)" "inp ! c = 0" "inp ! Suc c = 0"
    and first: "is_tcp hdr \<Longrightarrow> get32 (iph + 4) inp = Some first"
  obtains out' n where "gso_segment inp hdr (if is_tcp hdr then 6 else 17) isV6 first i at out = Some (n, out')" "n \<le> length out'"
    "segment_ok inp hdr isV6 i (take n out')"
proof -
  have b: "(if isV6 then 40 else 20) \<le> iph" "c + 2 \<le> h" "h \<le> length inp" "iph \<le> h" "length inp < 65536" "0 < mss"
    using s iph h mss z(2) by (auto simp: gso_sane_def unat_gt_0 split: if_splits)
  define n where "n = min (at + mss) (length inp) - at"
  have n: "0 < n" "n \<le> mss" "at + n \<le> length inp" "h + n \<le> length inp" using at b(6) by (auto simp: n_def)
  define dat where "dat = take n (drop at inp)"
  have dat: "length dat = n" "slice at (min (at + mss) (length inp)) inp = Some dat" "dat = take mss (drop at inp)"
    using n at b(6) by (auto simp: dat_def slice_def n_def min_def)
  obtain o1 where o1: "gso_ip_header inp hdr isV6 i (h + n) out = Some o1" "length o1 = length out"
    "\<And>k. k < iph \<Longrightarrow> (if isV6 then 8 else 12) \<le> k \<Longrightarrow> o1 ! k = inp ! k"
    "\<And>pkt. length pkt = h + n \<Longrightarrow> take iph pkt = take iph o1 \<Longrightarrow> ip_part_ok inp iph isV6 i pkt"
    using gso_ip_ok [OF s iph, of out "h + n" i] b n buf z(1) by auto
  let ?inner = "min (at + mss) (length inp) \<noteq> length inp"
  have L1: "h \<le> length o1" using o1(2) buf by simp
  obtain o2 where o2: "gso_transport_header inp hdr (if is_tcp hdr then 6 else 17) first i n ?inner o1 = Some o2" "length o2 = length o1" "drop h o2 = drop h o1"
    "take iph o2 = take iph o1"
    "\<And>k. iph \<le> k \<Longrightarrow> k < h \<Longrightarrow> k \<notin> {iph + 4, iph + 5, iph + 6, iph + 7, iph + 13} \<or> \<not> is_tcp hdr \<and> k \<notin> {iph + 4, iph + 5} \<Longrightarrow> o2 ! k = inp ! k"
    "is_tcp hdr \<Longrightarrow> get32 (iph + 4) o2 = Some (first + ucast (vh_gsoSize hdr * of_nat i))"
    "is_tcp hdr \<Longrightarrow> o2 ! (iph + 13) = (if ?inner then inp ! (iph + 13) AND NOT (0x01 OR 0x08) else inp ! (iph + 13))"
    "\<not> is_tcp hdr \<Longrightarrow> get16 (iph + 4) o2 = Some (of_nat n + (vh_hdrLen hdr - vh_csumStart hdr))"
    by (rule gso_transport_ok [OF s iph h L1, of first i n ?inner]) (rule that; blast)
  obtain o3 where o3: "copy_to h dat o2 = Some o3" using put_bytes_ok [of h dat o2] copy_back [of h dat o2] dat o1(2) o2(2) n buf by auto
  have "h + length dat \<le> length o2" using dat n buf o1(2) o2(2) by simp
  note q3 = gso_payload [OF this o3]
  have top: "o2 ! k = o1 ! k" if "k < iph" for k using nth_take [OF that, of o2] nth_take [OF that, of o1] o2(4) by simp
  have L3: "h + n \<le> length o3" and b2: "h + n < 65536" using q3(1) o1(2) o2(2) n b buf by simp_all
  have adr3: "o3 ! k = inp ! k" if "k < iph" "(if isV6 then 8 else 12) \<le> k" for k using q3(4) [of k] top [of k] o1(3) [of k] that b(4) by simp
  have cs: "iph \<le> c" "c \<notin> {iph + 4, iph + 5, iph + 6, iph + 7, iph + 13} \<or> \<not> is_tcp hdr \<and> c \<notin> {iph + 4, iph + 5}"
    "Suc c \<notin> {iph + 4, iph + 5, iph + 6, iph + 7, iph + 13} \<or> \<not> is_tcp hdr \<and> Suc c \<notin> {iph + 4, iph + 5}"
    using z(2) by (cases "is_tcp hdr"; simp)+
  have z3: "o3 ! c = 0" "o3 ! Suc c = 0" using q3(4) [of c] q3(4) [of "Suc c"] o2(5) [OF _ _ cs(2)] o2(5) [OF _ _ cs(3)] cs(1) b(2) z(3,4) by simp_all
  obtain o4 where o4: "gso_checksum inp hdr (if is_tcp hdr then 6 else 17) isV6 n o3 = Some o4" "length o4 = length o3"
    "\<And>k. k < length o3 \<Longrightarrow> k \<notin> {c, Suc c} \<Longrightarrow> o4 ! k = o3 ! k" "checksumValid (take (h + n) o4) iph (if is_tcp hdr then 6 else 17) isV6 = Some True"
    using gso_checksum_ok [OF s iph h L3 b2 z(2) z3 adr3] by blast
  have r: "gso_segment inp hdr (if is_tcp hdr then 6 else 17) isV6 first i at out = Some (h + n, o4)"
    using o1(1) o2(1) o3 o4(1) dat(2) h mss n_def by (simp add: gso_segment_def Let_def)
  let ?pkt = "take (h + n) o4"
  have L4: "length ?pkt = h + n" using o4(2) L3 by simp
  have p4: "?pkt ! k = o2 ! k" if "k < h" "k \<noteq> c" "k \<noteq> Suc c" for k using that o4(3) [of k] q3(4) [of k] L3 by simp
  have "take iph ?pkt = take iph o1"
    by (rule nth_equalityI) (use L4 p4 top b o1(2) buf cs(1) in auto)
  then have ip: "ip_part_ok inp iph isV6 i ?pkt" by (rule o1(4) [OF L4])
  have "drop h ?pkt = drop h (take (h + n) o3)" 
    by (rule nth_equalityI) (use L3 o4(2,3) b(2) in auto)
  then have data: "drop h ?pkt = take mss (drop at inp)" using q3(3) dat by simp
  have inner: "?inner \<longleftrightarrow> at + mss < length inp" by auto
  have "transport_part_ok inp iph h (is_tcp hdr) (i * mss) (at + mss < length inp) ?pkt"
    by (rule transport_part_ok_intro [OF iph h z(2) b(2) L4 _ p4 o2(5)]) (use b(4,5) at L1 mss first inner o2(2,6-8) in auto)
  then have "segment_ok inp hdr isV6 i ?pkt"
    using ip data o4(4) L4 n unfolding segment_ok_def Let_def iph [symmetric] h [symmetric] mss [symmetric] at(1) [symmetric] by simp
  then show thesis using that [OF r] L3 o4(2) by simp
qed

abbreviation seg_packet :: "nat \<times> byte list \<Rightarrow> byte list" where
  "seg_packet s \<equiv> take (fst s) (snd s)"

text \<open>The loop: with a step that fills each buffer as it should, the buffers used hold the payload in order.\<close>

lemma gso_loop_spec:
  assumes seg: "\<And>i out. h + i * mss < length inp \<Longrightarrow> out \<in> set outs \<Longrightarrow> \<exists>n out'. seg i (h + i * mss) out = Some (n, out') \<and> ok i (take n out')"
    and ok: "\<And>i pkt. ok i pkt \<Longrightarrow> drop h pkt = take mss (drop (h + i * mss) inp)"
  shows "\<exists>segs. gso_loop seg (length inp) mss i (h + i * mss) outs = Some (h + (i + length outs) * mss < length inp, segs) \<and>
      (\<forall>j<length segs. ok (i + j) (seg_packet (segs ! j))) \<and>
      concat (map (\<lambda>s. drop h (seg_packet s)) segs) = take (length outs * mss) (drop (h + i * mss) inp) \<and>
      (h + (i + length outs) * mss < length inp \<longrightarrow> length segs = length outs)"
  using seg
proof (induction outs arbitrary: i)
  case (Cons out outs)
  show ?case
  proof (cases "h + i * mss < length inp")
    case True
    then obtain n out' where s: "seg i (h + i * mss) out = Some (n, out')" "ok i (take n out')" using Cons.prems [of i out] by auto
    have "\<exists>n out'. seg j (h + j * mss) o' = Some (n, out') \<and> ok j (take n out')" if "h + j * mss < length inp" "o' \<in> set outs" for j o'
      using Cons.prems [OF that(1)] that(2) by simp
    note ih = Cons.IH [OF this, of "Suc i"]
    have e: "h + Suc i * mss = h + i * mss + mss" "h + (Suc i + length outs) * mss = h + (i + length (out # outs)) * mss" by simp_all
    from ih obtain segs where g: "gso_loop seg (length inp) mss (Suc i) (h + i * mss + mss) outs = Some (h + (i + length (out # outs)) * mss < length inp, segs)"
      "\<forall>j<length segs. ok (Suc i + j) (seg_packet (segs ! j))"
      "concat (map (\<lambda>s. drop h (seg_packet s)) segs) = take (length outs * mss) (drop (h + i * mss + mss) inp)"
      "h + (i + length (out # outs)) * mss < length inp \<longrightarrow> length segs = length outs"
      unfolding e by blast
    let ?segs = "(n, out') # segs"
    have "gso_loop seg (length inp) mss i (h + i * mss) (out # outs) = Some (h + (i + length (out # outs)) * mss < length inp, ?segs)"
      using True s(1) g(1) by simp
    moreover have "ok (i + j) (seg_packet (?segs ! j))" if "j < length ?segs" for j using s(2) g(2) that by (cases j) simp_all
    moreover have "concat (map (\<lambda>s. drop h (seg_packet s)) ?segs) = take (length (out # outs) * mss) (drop (h + i * mss) inp)"
      using g(3) ok [OF s(2)] by (simp add: take_add add.commute)
    moreover have "h + (i + length (out # outs)) * mss < length inp \<longrightarrow> length ?segs = length (out # outs)" using g(4) by simp
    ultimately show ?thesis by blast
  next
    case False
    have "h + i * mss \<le> h + (i + length (out # outs)) * mss" by (simp add: algebra_simps)
    with False have "\<not> h + (i + length (out # outs)) * mss < length inp" by linarith
    with False show ?thesis by (intro exI [of _ "[]"]) simp
  qed
qed simp

text \<open>Only bytes that every segment overwrites are cleared first.\<close>

lemma segment_ok_cleared:
  assumes s: "gso_sane inp hdr isV6" and z: "c = unat (vh_csumStart hdr) + (if is_tcp hdr then 16 else 6)" "length inp' = length inp"
      "\<And>k. k < length inp \<Longrightarrow> k \<notin> (if isV6 then {} else {10, 11}) \<union> {c, Suc c} \<Longrightarrow> inp' ! k = inp ! k"
    and ok: "segment_ok inp' hdr isV6 i pkt"
  shows "segment_ok inp hdr isV6 i pkt"
proof -
  define iph h where "iph = unat (vh_csumStart hdr)" and "h = unat (vh_hdrLen hdr)"
  have b: "20 \<le> iph" "c + 2 \<le> h" "h \<le> length inp" "iph + (if is_tcp hdr then 16 else 6) = c"
    using s z(1) by (auto simp: gso_sane_def iph_def h_def split: if_splits)
  have d: "drop (h + m) inp' = drop (h + m) inp" for m by (rule nth_equalityI) (use z(2,3) b in auto)
  have "get16 4 inp' = get16 4 inp" by (rule get_agree [of _ 2]) (use z(2,3) b in \<open>auto split: if_splits\<close>)
  moreover have "inp' ! k = inp ! k" if "k < iph" "k \<notin> {10, 11} \<or> isV6" for k using z(3) [of k] that b by (auto split: if_splits)
  ultimately have ip: "ip_part_ok inp' iph isV6 i pkt \<Longrightarrow> ip_part_ok inp iph isV6 i pkt" by (auto simp: ip_part_ok_def split: if_splits)
  have "get32 (iph + 4) inp' = get32 (iph + 4) inp" if "is_tcp hdr"
    by (rule get_agree(2) [of _ 4]) (use z(2,3) b that in \<open>auto split: if_splits\<close>)
  moreover have "inp' ! k = inp ! k" if "iph \<le> k" "k < h" "k \<noteq> c" "k \<noteq> Suc c" for k using z(3) [of k] that b by (auto split: if_splits)
  ultimately have "transport_part_ok inp' iph h (is_tcp hdr) m inner pkt \<Longrightarrow> transport_part_ok inp iph h (is_tcp hdr) m inner pkt" for m inner
    using b by (auto simp: transport_part_ok_def split: if_splits)
  with ok ip d z(2) show ?thesis unfolding segment_ok_def Let_def iph_def [symmetric] h_def [symmetric] by auto
qed

lemma clear_checksums:
  assumes "12 \<le> length inp" "c + 2 \<le> length inp"
  obtains i1 inp' where "(if \<not> isV6 then put_bytes 10 [0, 0] inp else Some inp) = Some i1" "put_bytes c [0, 0] i1 = Some inp'" "length inp' = length inp"
    "\<And>k. k < length inp \<Longrightarrow> inp' ! k = (if k \<in> {c, Suc c} then 0 else if \<not> isV6 \<and> k \<in> {10, 11} then 0 else inp ! k)"
proof -
  obtain i1 where i1: "(if \<not> isV6 then put_bytes 10 [0, 0] inp else Some inp) = Some i1" "length i1 = length inp"
    "\<And>k. k < length inp \<Longrightarrow> i1 ! k = (if \<not> isV6 \<and> k \<in> {10, 11} then 0 else inp ! k)"
  proof (cases isV6)
    case False
    obtain i1 where p: "put_bytes 10 [0, 0] inp = Some i1" using put_bytes_ok [of 10 "[0, 0]" inp] assms(1) by auto
    have "i1 ! k = (if k \<in> {10, 11} then 0 else inp ! k)" if "k < length inp" for k
      using put_bytes_nth [OF p that] by (auto simp: nth_Cons')
    then show thesis using that [of i1] p put_bytes_length [OF p] False by simp
  qed (use that [of inp] in simp)
  obtain inp' where p: "put_bytes c [0, 0] i1 = Some inp'" using put_bytes_ok [of c "[0, 0]" i1] i1(2) assms(2) by auto
  have n': "inp' ! k = (if k \<in> {c, Suc c} then 0 else if \<not> isV6 \<and> k \<in> {10, 11} then 0 else inp ! k)" if "k < length inp" for k
    using put_bytes_nth [OF p, of k] i1(2) i1(3) [OF that] that by (auto simp: nth_Cons')
  have l': "length inp' = length inp" using put_bytes_length [OF p] i1(2) by simp
  show thesis by (rule that [OF i1(1) p l' n'])
qed

lemma gsoSplit_spec:
  assumes s: "gso_sane inp hdr isV6" and h: "h = unat (vh_hdrLen hdr)" and mss: "mss = unat (vh_gsoSize hdr)"
    and buf: "\<And>out. out \<in> set outs \<Longrightarrow> h + mss \<le> length out"
  obtains segs where
    "gsoSplit inp hdr outs isV6 =
       (if h + length outs * mss < length inp then Some (int (length outs) - 1, True, segs) else Some (int (length segs), False, segs))"
    "\<And>i. i < length segs \<Longrightarrow> segment_ok inp hdr isV6 i (seg_packet (segs ! i))"
    "concat (map (\<lambda>s. drop h (seg_packet s)) segs) = take (length outs * mss) (drop h inp)"
    "h + length outs * mss < length inp \<Longrightarrow> length segs = length outs"
proof -
  define iph c where "iph = unat (vh_csumStart hdr)" and "c = iph + (if is_tcp hdr then 16 else 6)"
  have b: "(if isV6 then 40 else 20) \<le> iph" "c + 2 \<le> h" "h \<le> length inp" "length inp < 65536"
    using s by (auto simp: gso_sane_def iph_def c_def h split: if_splits)
  have b20: "20 \<le> iph" "iph + 6 \<le> c" using b(1) by (simp_all add: c_def split: if_splits)
  have c: "unat (vh_csumStart hdr + vh_csumOffset hdr) = c"
    using unat_offset [of "vh_csumStart hdr" "if is_tcp hdr then 16 else 6"] b s by (auto simp: gso_sane_def c_def iph_def split: if_splits)
  have o4: "unat (vh_csumStart hdr + 4) = iph + 4" using unat_offset [of "vh_csumStart hdr" 4] b by (auto simp: iph_def c_def split: if_splits)
  obtain i1 inp' where i1: "(if \<not> isV6 then put_bytes 10 [0, 0] inp else Some inp) = Some i1" "put_bytes c [0, 0] i1 = Some inp'" and l': "length inp' = length inp"
    and n': "\<And>k. k < length inp \<Longrightarrow> inp' ! k = (if k \<in> {c, Suc c} then 0 else if \<not> isV6 \<and> k \<in> {10, 11} then 0 else inp ! k)"
    using clear_checksums [of inp c isV6] b b20 by auto
  have s': "gso_sane inp' hdr isV6" using s l' by (simp add: gso_sane_def)
  obtain first where f: "(if is_tcp hdr then get32 (iph + 4) inp' else Some 0) = Some first"
    using b l' by (auto simp: get32_def slice_def c_def split: if_splits)
  let ?seg = "gso_segment inp' hdr (if is_tcp hdr then 6 else 17) isV6 first"
  have seg: "\<exists>n out'. ?seg i (h + i * mss) out = Some (n, out') \<and> segment_ok inp' hdr isV6 i (take n out')"
    if "h + i * mss < length inp'" "out \<in> set outs" for i out
  proof -
    have z: "\<not> isV6 \<Longrightarrow> inp' ! 10 = 0 \<and> inp' ! 11 = 0" "inp' ! c = 0" "inp' ! Suc c = 0" using n' b b20 by auto
    have "is_tcp hdr \<Longrightarrow> get32 (iph + 4) inp' = Some first" using f by simp
    then show ?thesis by (metis segment_spec [OF s' iph_def h mss refl that(1) buf [OF that(2)] z(1) c_def z(2,3)])
  qed
  have cut: "drop h pkt = take mss (drop (h + i * mss) inp')" if "segment_ok inp' hdr isV6 i pkt" for i pkt
    using that by (simp add: segment_ok_def Let_def h mss)
  obtain segs where g: "gso_loop ?seg (length inp') mss 0 h outs = Some (h + length outs * mss < length inp', segs)"
    "\<forall>j<length segs. segment_ok inp' hdr isV6 j (seg_packet (segs ! j))"
    "concat (map (\<lambda>s. drop h (seg_packet s)) segs) = take (length outs * mss) (drop h inp')"
    "h + length outs * mss < length inp' \<longrightarrow> length segs = length outs"
    using gso_loop_spec [of h mss inp' outs ?seg "segment_ok inp' hdr isV6" 0, OF seg cut] by auto
  have "gsoSplit inp hdr outs isV6 = (if h + length outs * mss < length inp then Some (int (length outs) - 1, True, segs) else Some (int (length segs), False, segs))"
    using i1 c f g(1,4) l' o4 h mss by (auto simp: gsoSplit_def is_tcp_def Let_def)
  moreover have "segment_ok inp hdr isV6 i (seg_packet (segs ! i))" if "i < length segs" for i
    by (rule segment_ok_cleared [OF s, of c inp']) (use n' l' g(2) that in \<open>auto simp: c_def iph_def\<close>)
  moreover have "drop h inp' = drop h inp" by (rule nth_equalityI) (use n' l' b b20 in auto)
  ultimately show thesis using that [of segs] g(3,4) l' by simp
qed

lemma LE_Put_field16: "LE_field16 (LE_PutUint16 w @ b) = w"
  by (rule bit_word_eqI) (auto simp: LE_field16_def LE_PutUint16_def bit_simps)

lemma virtioNetHdr_roundtrip: "virtioNetHdr_decode (virtioNetHdr_bytes hdr @ b) = Some hdr" "length (virtioNetHdr_bytes hdr) = 10"
proof -
  have l: "length (LE_PutUint16 w) = 2" for w by (simp add: LE_PutUint16_def)
  show n: "length (virtioNetHdr_bytes hdr) = 10" by (simp add: virtioNetHdr_bytes_def l)
  have "drop 2 (virtioNetHdr_bytes hdr @ b) = LE_PutUint16 (vh_hdrLen hdr) @ drop 4 (virtioNetHdr_bytes hdr @ b)"
    "drop 4 (virtioNetHdr_bytes hdr @ b) = LE_PutUint16 (vh_gsoSize hdr) @ drop 6 (virtioNetHdr_bytes hdr @ b)"
    "drop 6 (virtioNetHdr_bytes hdr @ b) = LE_PutUint16 (vh_csumStart hdr) @ drop 8 (virtioNetHdr_bytes hdr @ b)"
    "drop 8 (virtioNetHdr_bytes hdr @ b) = LE_PutUint16 (vh_csumOffset hdr) @ b"
    by (simp_all add: virtioNetHdr_bytes_def l)
  then have "LE_field16 (drop 2 (virtioNetHdr_bytes hdr @ b)) = vh_hdrLen hdr" "LE_field16 (drop 4 (virtioNetHdr_bytes hdr @ b)) = vh_gsoSize hdr"
    "LE_field16 (drop 6 (virtioNetHdr_bytes hdr @ b)) = vh_csumStart hdr" "LE_field16 (drop 8 (virtioNetHdr_bytes hdr @ b)) = vh_csumOffset hdr"
    by (metis LE_Put_field16)+
  moreover have "(virtioNetHdr_bytes hdr @ b) ! 0 = vh_flags hdr" "(virtioNetHdr_bytes hdr @ b) ! 1 = vh_gsoType hdr"
    by (simp_all add: virtioNetHdr_bytes_def)
  ultimately show "virtioNetHdr_decode (virtioNetHdr_bytes hdr @ b) = Some hdr" using n by (simp add: virtioNetHdr_decode_def)
qed

lemma handleVirtioRead_split:
  assumes "gso_type_ok (drop_bit 4 (hd inp)) (vh_gsoType hdr)" "virtio_hdrLen hdr inp = Ok hdrLen"
    and s: "gso_sane inp (hdr\<lparr>vh_hdrLen := hdrLen\<rparr>) isV6" "isV6 \<longleftrightarrow> drop_bit 4 (hd inp) = (6 :: byte)"
  shows "handleVirtioRead (virtioNetHdr_bytes hdr @ inp) bufs = map_option Ok (gsoSplit inp (hdr\<lparr>vh_hdrLen := hdrLen\<rparr>) bufs isV6)"
proof -
  let ?h = "hdr\<lparr>vh_hdrLen := hdrLen\<rparr>"
  have t: "vh_gsoType hdr \<in> {VIRTIO_NET_HDR_GSO_TCPV4, VIRTIO_NET_HDR_GSO_TCPV6, VIRTIO_NET_HDR_GSO_UDP_L4}" "vh_gsoType hdr \<noteq> VIRTIO_NET_HDR_GSO_NONE"
    using assms(1) by (auto simp: gso_type_ok_def)
  have b: "inp \<noteq> []" "unat hdrLen \<le> length inp" "vh_csumStart hdr \<le> hdrLen" "length inp < 65536"
    "unat (vh_csumStart hdr) + (if is_tcp hdr then 20 else 8) \<le> unat hdrLen" "vh_csumOffset hdr = (if is_tcp hdr then 16 else 6)"
    using s(1) by (auto simp: gso_sane_def word_le_nat_alt is_tcp_def split: if_splits)
  have "unat (vh_csumStart hdr + vh_csumOffset hdr) = unat (vh_csumStart hdr) + (if is_tcp hdr then 16 else 6)"
    using unat_offset [of "vh_csumStart hdr" "if is_tcp hdr then 16 else 6"] b by (auto split: if_splits)
  then have "unat (vh_csumStart hdr + vh_csumOffset hdr) + 1 < length inp" using b by (auto split: if_splits)
  moreover have "\<not> hdrLen < vh_csumStart hdr" using b(3) by simp
  ultimately show ?thesis
    using t b(1,2) assms virtioNetHdr_roundtrip [of hdr] by (simp add: handleVirtioRead_def Let_def)
qed

text \<open>
  Property C40: a packet with a segmentation header is read as packets that carry its payload in order and without loss, whatever header length the kernel
  announced. Each is at most a header and one segment long; it has the packet's IP and transport headers with its own total or payload length, IPv4
  identification, TCP sequence number or UDP length, it keeps FIN and PSH on the last segment only, and its transport checksum (and for IPv4 the header
  checksum) is valid. This is so when the header describes its packet, the buffers can hold a segment each and there are enough of them.
\<close>

theorem offloaded_packet_split:
  assumes "gso_type_ok (drop_bit 4 (hd inp)) (vh_gsoType hdr)" "virtio_hdrLen hdr inp = Ok hdrLen"
    and "gso_sane inp (hdr\<lparr>vh_hdrLen := hdrLen\<rparr>) (drop_bit 4 (hd inp) = 6)"
    and "list_all (\<lambda>buf. unat hdrLen + unat (vh_gsoSize hdr) \<le> length buf) bufs" "length inp \<le> unat hdrLen + length bufs * unat (vh_gsoSize hdr)"
  shows "\<exists>segs. handleVirtioRead (virtioNetHdr_bytes hdr @ inp) bufs = Some (Ok (int (length segs), False, segs)) \<and>
    concat (map (\<lambda>s. drop (unat hdrLen) (take (fst s) (snd s))) segs) = drop (unat hdrLen) inp \<and>
    (\<forall>i<length segs. segment_ok inp (hdr\<lparr>vh_hdrLen := hdrLen\<rparr>) (drop_bit 4 (hd inp) = 6) i (take (fst (segs ! i)) (snd (segs ! i))))"
proof -
  let ?h = "hdr\<lparr>vh_hdrLen := hdrLen\<rparr>" and ?v6 = "drop_bit 4 (hd inp) = (6 :: byte)"
  have "unat (vh_hdrLen ?h) + unat (vh_gsoSize ?h) \<le> length out" if "out \<in> set bufs" for out using assms(4) that by (simp add: list_all_iff)
  from gsoSplit_spec [OF assms(3) refl refl, of bufs, OF this] assms(5)
  obtain segs where "gsoSplit inp ?h bufs ?v6 = Some (int (length segs), False, segs)"
    "\<And>i. i < length segs \<Longrightarrow> segment_ok inp ?h ?v6 i (seg_packet (segs ! i))"
    "concat (map (\<lambda>s. drop (unat hdrLen) (seg_packet s)) segs) = drop (unat hdrLen) inp" by force
  then show ?thesis using handleVirtioRead_split [OF assms(1-3) refl, of bufs] by (intro exI [of _ segs]) simp
qed

text \<open>A TCP packet over IPv4 with six bytes of payload and a segment size of four.\<close>

definition offload_packet :: "byte list" where
  "offload_packet =
     [0x45, 0, 0, 46, 0x12, 0x34, 0x40, 0, 64, 6, 0xab, 0xcd, 10, 0, 0, 1, 10, 0, 0, 2] @
     [0x30, 0x39, 0, 80, 0xff, 0xff, 0xff, 0xfe, 0, 0, 0, 9, 0x50, 0x19, 1, 0, 0x77, 0x77, 0, 0] @ [1, 2, 3, 4, 5, 6]"

definition offload_header :: virtioNetHdr where
  "offload_header = \<lparr>vh_flags = 1, vh_gsoType = 1, vh_hdrLen = 46, vh_gsoSize = 4, vh_csumStart = 20, vh_csumOffset = 16\<rparr>"

definition offload_buffers :: "byte list list" where
  "offload_buffers = [replicate 60 7, replicate 60 8]"

lemmas samples = offload_packet_def offload_header_def offload_buffers_def gso_type_ok_def virtio_hdrLen_def gso_sane_def is_tcp_def

theorem offloaded_packet_split_witness:
  "\<exists>segs. handleVirtioRead (virtioNetHdr_bytes offload_header @ offload_packet) offload_buffers = Some (Ok (int (length segs), False, segs)) \<and>
    concat (map (\<lambda>s. drop 40 (take (fst s) (snd s))) segs) = [1, 2, 3, 4, 5, 6] \<and>
    (\<forall>i<length segs. segment_ok offload_packet (offload_header\<lparr>vh_hdrLen := 40\<rparr>) False i (take (fst (segs ! i)) (snd (segs ! i))))"
proof -
  have "gso_type_ok (drop_bit 4 (hd offload_packet)) (vh_gsoType offload_header)" by (simp add: samples)
  moreover have "virtio_hdrLen offload_header offload_packet = Ok 40" by (simp add: samples)
  moreover have v: "drop_bit 4 (hd offload_packet) = (6 :: byte) \<longleftrightarrow> False" by (simp add: samples)
  moreover have "gso_sane offload_packet (offload_header\<lparr>vh_hdrLen := 40\<rparr>) False" by (simp add: samples)
  moreover have "list_all (\<lambda>buf. unat (40 :: 16 word) + unat (vh_gsoSize offload_header) \<le> length buf) offload_buffers" by (simp add: samples)
  moreover have "length offload_packet \<le> unat (40 :: 16 word) + length offload_buffers * unat (vh_gsoSize offload_header)" by (simp add: samples)
  moreover have "drop (unat (40 :: 16 word)) offload_packet = [1, 2, 3, 4, 5, 6]" "unat (40 :: 16 word) = 40" by (simp_all add: offload_packet_def)
  ultimately show ?thesis using offloaded_packet_split [of offload_packet offload_header 40 offload_buffers] by simp
qed

text \<open>
  With too few buffers all of them are filled, but the number returned with \<^verbatim>\<open>ErrTooManySegments\<close> is one less, so that the last filled buffer is not
  among the packets read.
\<close>

lemma too_many_segments:
  assumes "gso_sane inp hdr isV6" "\<And>out. out \<in> set outs \<Longrightarrow> unat (vh_hdrLen hdr) + unat (vh_gsoSize hdr) \<le> length out"
    and "unat (vh_hdrLen hdr) + length outs * unat (vh_gsoSize hdr) < length inp"
  shows "\<exists>segs. gsoSplit inp hdr outs isV6 = Some (int (length outs) - 1, True, segs) \<and> length segs = length outs"
  by (rule gsoSplit_spec [OF assms(1) refl refl, of outs]) (use assms(2,3) in auto)

text \<open>
  A packet without segmentation whose checksum is left to the device: the sum that the field held, the pseudo header's, is completed to a valid checksum.
\<close>

lemma none_checksum:
  assumes "gsoNoneChecksum inp s off = Some inp'" "even (unat off)" "unat s + unat off < 65536" "get16 (unat s + unat off) inp = Some initial"
  shows "checksum (drop (unat s) inp') (ucast initial) = 0xffff" "length inp' = length inp"
proof -
  define c where "c = unat s + unat off"
  have c: "unat (s + off) = c" using unat_offset [of s "unat off"] assms(3) by (simp add: c_def)
  obtain a where a: "put_bytes c [0, 0] inp = Some a" "unat s \<le> length a" "put16 c (NOT (checksum (drop (unat s) a) (ucast initial))) a = Some inp'"
    using assms(1,4) c by (auto simp: gsoNoneChecksum_def Let_def c_def slice_def split: Option.bind_splits if_splits)
  have l: "length a = length inp" "c + 2 \<le> length inp" using put_bytes_length [OF a(1)] a(1) by (auto simp: put_bytes_Some)
  have z: "a ! c = 0" "a ! Suc c = 0" using put_bytes_nth [OF a(1), of c] put_bytes_nth [OF a(1), of "Suc c"] l by simp_all
  let ?w = "NOT (checksum (drop (unat s) a) (ucast initial))"
  have "put16 (c - unat s) ?w (drop (unat s) a) = Some (drop (unat s) inp')"
    using put_drop [of c "BigEndian_PutUint16 ?w" a inp' "unat s"] a(3) by (simp add: put16_def c_def)
  moreover have "put_bytes (c - unat s) [0, 0] (drop (unat s) a) = Some (drop (unat s) a)"
    by (rule zero_field) (use z l in \<open>auto simp: c_def\<close>)
  ultimately show "checksum (drop (unat s) inp') (ucast initial) = 0xffff" using assms(2) by (intro checksum_filled) (auto simp: c_def)
  show "length inp' = length inp" using put16_props(1) [OF a(3)] l by simp
qed

end
