(* ===== verification/Spec2Isabelle.thy ===== *)
theory Spec2Isabelle
  imports Reconnect Corplink Tcp_Bind Uapi Gso
begin

text \<open>
  ecorplink is a client for a corporate VPN. A privileged daemon logs in to the Corplink control plane, runs a
  WireGuard tunnel in user space, answers DNS queries with fake addresses, takes the connections to those
  addresses from a TUN device and sends each through the tunnel, directly, or nowhere, as a list of rules
  says. A desktop program talks to the daemon over a local socket. The development models the Go code of the
  daemon and of the parts of the bundled wireguard-go it depends on, one theory per component, and proves
  the properties that are listed as claims (their texts carry the ids C1, C2, and so on).

  \<^bold>\<open>How the parts interact.\<close> The configuration (internal/config) is loaded, checked and turned into rule
  strings; the rule engine (internal/rule) compiles them. The fake DNS server (internal/fakeip) asks the
  engine about a name and answers with an address of the pool. The forwarder (internal/forwarder) gets the
  connection to that address from the TUN device, looks the name up in the pool, asks the engine again and
  chooses a dialer; direct connections leave through an interface found with the route table
  (internal/routetable, internal/outbound) and may need a host route (internal/forwarder). The VPN manager
  (internal/vpn) owns the WireGuard device (internal/wgdevice), the system routes (internal/router) and
  installs the tunnel's dialer and the split routes in the forwarder and the engine. The daemon
  (cmd/ecorplink-daemon) serves commands with the Corplink client (internal/corplink) and the manager,
  reconnects when the tunnel fails and maintains the system's resolver settings.

  \<^bold>\<open>Shared theories.\<close>
  \<^item> \<open>Go_Prelude\<close>: results with errors, Go's strings package, association-list maps, byte strings, and the
    collections of simplification rules.
  \<^item> \<open>Go_Net\<close>: addresses, masks and prefixes of net and net/netip, their parsers and printers, with round
    trips and the arithmetic of 32-bit addresses.

  \<^bold>\<open>Components.\<close>
  \<^item> \<open>Rule_Engine\<close> (internal/rule): parsing, compiling, matching of names and addresses, injected rules.
    Matching is refined to ``the first rule, configured ones before injected ones, that matches''. The locale
    \<open>domain_matcher\<close> is the interface the DNS server uses; it is interpreted on the adapter.
  \<^item> \<open>Configuration\<close> (internal/config): defaults, validation, conversion of rules to strings and back.
    Whatever validation accepts compiles; a printed rule is read back as the rule, except for the comma that is
    reported as a finding.
  \<^item> \<open>Fake_IP\<close>, \<open>Fake_DNS\<close> (internal/fakeip, cmd/ecorplink-daemon/local\_dns.go): the pool as a record over
    32-bit words with the wrap-around of its cursor, its invariant (the two maps are inverse to each other and
    lie in the range), a first-in first-out refinement, and the server on every kind of query. The locale
    \<open>fake_ip_pool\<close> holds the laws under which an address is attributed to the name it was last given to.
  \<^item> \<open>Route_Table\<close>, \<open>Outbound\<close> (internal/routetable, internal/outbound, dns\_upstream.go): the three fetchers,
    longest-prefix lookup, the choice of an interface and of an upstream server. The locales \<open>slice_sort\<close> and
    \<open>route_source\<close> state what is used of Go's sort and of a fetcher.
  \<^item> \<open>Router\<close>, \<open>Capture_Routes\<close>, \<open>Host_Routes\<close> (internal/router, internal/vpn, internal/forwarder): routes
    added to and removed from a system table, with the commands as parameters. The locales \<open>router_contract\<close> and
    \<open>host_route_contract\<close> are interpreted for each platform. Only own routes are deleted.
  \<^item> \<open>Forwarder\<close> (internal/forwarder): choice of the dialer, admission of connections, DNS workers (at most
    256), echo requests.
  \<^item> \<open>WG_Device\<close>, \<open>VPN_Manager\<close> (internal/wgdevice, internal/vpn, internal/socks5proxy): life cycle of the
    tunnel; its resources are all present or all absent.
  \<^item> \<open>Supervisor\<close>, \<open>Daemon\<close>, \<open>Reconnect\<close> (cmd/ecorplink-daemon): the commands, the generations of a
    connection, and the goroutines of a connection as steps that interleave with commands. The reconnect loop
    makes at most ten attempts, which is proved as a bound on its steps.
  \<^item> \<open>System_DNS\<close> (cmd/ecorplink-daemon/system\_dns*.go): the resolver file of Linux and the maintenance round.
  \<^item> \<open>Corplink_Session\<close>, \<open>Corplink\<close> (internal/corplink): the session file, the cookie jar, requests, login,
    one-time passwords, redaction of logs. Polling for a QR code is a \<open>partial_function\<close>; that it returns is
    proved, with at most 91 requests (a three-minute deadline and two seconds between requests).
  \<^item> \<open>Replay_Filter\<close> (wireguard-go/replay): the ring of 128 words of 64 bits refines the set of counters seen in
    a window of 8128.
  \<^item> \<open>Address_Trie\<close>, \<open>Allowed_IPs\<close> (wireguard-go/device/allowedips.go): the compressed trie, with a panic as
    None, refines a finite map from prefixes to peers.
  \<^item> \<open>Tcp_Bind\<close> (wireguard-go/conn/bind\_tcp.go): frames on a stream, the buffers and the connections.
  \<^item> \<open>Byte_Order\<close>: the integers of encoding/binary that the packet formats use.
  \<^item> \<open>Noise_Messages\<close>, \<open>Noise\<close>, \<open>Noise_Sessions\<close> (wireguard-go/device: noise-helpers.go, noise-protocol.go,
    indextable.go, keypair.go, and tai64n): the messages (locale \<open>message_codec\<close>, interpreted for each message
    type), the four handshake steps, the rotation of key pairs, and the steps of a device in any order. Both ends
    agree on their keys, the index table is exact in every reachable state and an initiation is not accepted
    twice.
  \<^item> \<open>Cookies\<close>, \<open>Rate_Limiter\<close> (cookie.go, ratelimiter.go): the two MACs and the cookie that answers a message
    under load; the token bucket with its 64-bit arithmetic.
  \<^item> \<open>Transport\<close> (send.go, receive.go): the work on a packet in both directions. A packet that is sent is
    delivered once, and no nonce is used twice.
  \<^item> \<open>Peer_Engine\<close>, \<open>Device_Life\<close>, \<open>Device_Runs\<close> (timers.go, peer.go, device.go, tun.go, and the queues of send.go
    and receive.go): the state of a whole device, its five timers per peer, the goroutines as transitions, the
    socket and the three states of a device. Its runs refine those of \<open>Noise_Sessions\<close>; a peer that does not run
    is quiet; a handshake is given up after twenty expiries.
  \<^item> \<open>Uapi\<close> (uapi.go, noise-types.go): the configuration protocol over the runs of a device. The text the tunnel
    writes configures the device as it should, no text makes the device panic or leave its reachable states,
    and the counters printed are the ones the tunnel reads.
  \<^item> \<open>Checksum\<close>, \<open>Gso\<close> (wireguard-go/tun: checksum.go, offload\_linux.go, tun\_linux.go): the unrolled checksum equals
    the one of RFC 1071; a large packet is split into packets that carry its payload with valid headers.

  This theory imports them all and holds the properties that span components: a query answered with a fake
  address leads to the dialer the rules name, and a logout leaves a session that counts as logged in.

  \<^bold>\<open>Parameters.\<close> Code outside the repository is an argument: the DNS library, system commands and their output,
  HTTP exchanges, JSON and URL parsers, digests, the clock, the GeoIP database. Where a property relies on one,
  its hypothesis states documented behaviour and the witness instantiates it with a concrete function. For
  wireguard-go these are the cryptographic primitives, the random source (a sequence of draws with the clock, one per
  use), the socket and the host's address parsing. Buffers are lists of bytes whose capacity is their length. Machine
  integers that can wrap around are words; lengths and times that cannot are nat or int. Loops are structural
  recursion; where a model takes a bound it is the one the code has.

  \<^bold>\<open>Not modelled.\<close> The desktop program and its service installation (internal/gui, cmd/gui, frontend), which
  run system commands and draw windows; process start and elevation (internal/daemon, cmd/ecorplink-daemon's
  service files); the socket of the daemon and its peer credentials (internal/daemonipc apart from the
  protocol); the resolver cache (internal/dns), which nothing calls; opening of TUN devices (internal/tun,
  wireguard-go/tun), named pipes, the UDP sockets and platform sockets, which are system calls; the user-space
  network stack of a third party; the GeoIP reader, which wraps a library. Of wireguard-go's device the loop over a
  control socket (IpcHandle), the pools, channels and the logger are left out, and so is the coalescing of packets
  (offload\_linux.go), which is the next extension.
\<close>

section \<open>Properties that span components\<close>

subsection \<open>From a name to an outbound\<close>

lemma later_lookup:
  assumes "pool_inv p" "domainToOffset p d = None" "length ds < unat (size p)"
  shows "Lookup (snd (assign_run assign_step (assign_pool p d) ds)) (assign_ip p d) = Some d"
    "InPool (snd (assign_run assign_step (assign_pool p d) ds)) (assign_ip p d)"
proof -
  let ?q = "snd (assign_run assign_step (assign_pool p d) ds)"
  have inv: "pool_inv ?q" using pool.run_inv [OF Assign_inv [OF assms(1)] surjective_pairing] by blast
  show "Lookup ?q (assign_ip p d) = Some d" "InPool ?q (assign_ip p d)"
    using Lookup_assign [OF inv, of d] InPool_assign [OF inv, of d] fresh_kept [OF assms] by simp_all
qed


definition queried_fw :: "(unit, nat) Forwarder" where
  "queried_fw = sample_fw\<lparr>fw_pool := Some (srv_pool (snd (HandleDNS sample_lib sample_server [0]))),
     fw_engine := Some \<lparr>rules = [], runtimeRules = [], geoip = None\<rparr>\<rparr>"


subsection \<open>Logging out\<close>

lemma dispatch_logout:
  "cmd_Action cmd = ''logout'' \<Longrightarrow>
   d_client (snd (dispatchHandler env cmd d)) =
     Session_Save (de_api env) (Logout (de_api env) (d_client (snd (prepareCorplinkControlPlane env d))))"
  by (simp add: dispatchHandler_def actionUsesCorplinkNetwork_def handle_action_def Let_def)

lemma dispatch_authenticated:
  "cmd_Action cmd = ''is_authenticated'' \<Longrightarrow>
   fst (dispatchHandler env cmd d) = Resp_OK (BoolData (IsAuthenticated (de_api env) (d_client d)))"
  by (simp add: dispatchHandler_def actionUsesCorplinkNetwork_def handle_action_def Let_def)

text \<open>
  Property C22: the session's device cookies are counted as a login: after a logout command the command that asks
  whether the user is logged in answers that they are.
\<close>

theorem logout_still_authenticated:
  assumes "de_api denv = client_api env" "http_url u"
    "ss_Server (cl_session (d_client d)) \<noteq> []" "url_Parse env (ss_Server (cl_session (d_client d))) = Some u"
    "ss_DeviceID (cl_session (d_client d)) \<noteq> []" "cmd_Action out = ''logout''" "cmd_Action ask = ''is_authenticated''"
  shows "fst (dispatchHandler denv ask (snd (dispatchHandler denv out d))) = Resp_OK (BoolData True)"
proof -
  let ?d = "snd (prepareCorplinkControlPlane denv d)"
  have s: "cl_session (d_client ?d) = cl_session (d_client d)" by (rule prepare_session [OF assms(1)])
  define c where "c = snd (api_get env (apiURL ''/api/logout'' (d_client ?d) @ ''&logout_all=false'') dec_any (d_client ?d))"
  have c: "cl_session c = cl_session (d_client d)" using s by (simp add: c_def api_get_def)
  let ?c = "c\<lparr>cl_session := (cl_session c)\<lparr>ss_Cookies := [], ss_TOTPSecret := []\<rparr>\<rparr>"
  have "Session_IsAuthenticated (snd (Session_save (url_Parse env) (ce_write env) (rebuildJar (url_Parse env) ?c)))"
    by (rule saved_cookies [OF assms(2)]) (use assms(3-5) c in simp_all)
  moreover have "d_client (snd (dispatchHandler denv out d)) =
      snd (Session_save (url_Parse env) (ce_write env) (rebuildJar (url_Parse env) ?c))"
    by (simp add: dispatch_logout [OF assms(6)] assms(1) client_api_def cl_Logout_def Let_def flip: c_def)
  ultimately show ?thesis by (simp add: dispatch_authenticated [OF assms(7)] assms(1) client_api_def)
qed

definition corp_de :: "(unit, nat, nat Client, unit) daemon_env" where
  "corp_de = \<lparr>de_vpn = up_ve, de_api = client_api corp_sample_env, setupSystemDNS = (\<lambda>t i d. d), cleanupSystemDNS = (\<lambda>d. d),
     url_Hostname = (\<lambda>u. Some u), LookupHost = (\<lambda>r h. Err h), reloaded = Ok up_cfg\<rparr>"

definition corp_daemon :: "(unit, nat, nat Client, unit) daemon" where
  "corp_daemon = new_daemon (New_Manager up_cfg sample_hosts None) sample_client ()"

theorem logout_still_authenticated_witness:
  "fst (dispatchHandler corp_de (disconnect_cmd\<lparr>cmd_Action := ''is_authenticated''\<rparr>)
     (snd (dispatchHandler corp_de (disconnect_cmd\<lparr>cmd_Action := ''logout''\<rparr>) corp_daemon))) = Resp_OK (BoolData True)"
proof (rule logout_still_authenticated)
  let ?u = "\<lparr>u_Scheme = ''https'', u_Host = ''corp.example'', u_Path = [], u_Query = (\<lambda>k. [])\<rparr>"
  show "de_api corp_de = client_api corp_sample_env" by (simp add: corp_de_def)
  show "http_url ?u" by (simp add: http_url_def canonicalHost_def hasPort_def)
  have s: "ss_Server (cl_session (d_client corp_daemon)) = ''https://corp.example''" "ss_DeviceID (cl_session (d_client corp_daemon)) = ''d''"
    by (simp_all add: corp_daemon_def new_daemon_def sample_client_def NewManagerWithConfig_def NewClientWithConfig_def
        newHTTPClientLocked_def loaded_session_def saved_session.defs Let_def)
  then show "ss_Server (cl_session (d_client corp_daemon)) \<noteq> []" "ss_DeviceID (cl_session (d_client corp_daemon)) \<noteq> []" by simp_all
  show "url_Parse corp_sample_env (ss_Server (cl_session (d_client corp_daemon))) = Some ?u"
    by (simp add: corp_sample_env_def)
qed simp_all

end
